(* ===== verification/Prelude.thy ===== *)
theory Prelude
  imports Complex_Main
begin

text \<open>
  The prelude of the development: exceptions as values, the transaction monad in which every
  service method is written, its rules, fixed-scale decimals and the generic lemmas on lists the
  tables are built from.

  A method of the services under \<^verbatim>\<open>src/backend/src\<close> is a function
  \<open>'s \<Rightarrow> (exn + 'a) \<times> 's\<close>: it may throw (\<open>Inl\<close>), and the writes made before the throw are
  still in the state it returns, exactly as a JavaScript \<^verbatim>\<open>catch\<close> block would see them. Only
  \<open>transaction\<close> (Prisma's \<^verbatim>\<open>$transaction\<close>) restores the state it started from when its body throws.
\<close>

section \<open>Collections of facts\<close>

named_theorems tx_simps "inversion of successful runs of the transaction monad"
named_theorems frame_intros "introduction rules for fields an operation leaves alone"
named_theorems inv_intros "introduction rules for invariants an operation keeps"

section \<open>Exceptions\<close>

text \<open>
  The HTTP exceptions of \<^verbatim>\<open>@nestjs/common\<close> carry the constant part of their message (the
  interpolated ids and amounts are left out). \<open>UniqueViolation\<close> is Prisma's P2002 with
  \<^verbatim>\<open>err.meta.target\<close>; \<open>RecordMissing\<close> its P2025; \<open>DecimalError\<close> what the \<^verbatim>\<open>Decimal\<close> constructor
  throws on a string that is no number; \<open>JsError\<close> a plain \<^verbatim>\<open>Error\<close>; \<open>OutOfFuel\<close> is not an exception of the code: it marks an
  exhausted recursion bound and is proved unreachable.
\<close>

datatype exn =
    BadRequest string
  | NotFound string
  | Conflict string
  | Unprocessable string
  | UniqueViolation "string list"
  | RecordMissing
  | DecimalError
  | JsError string
  | OutOfFuel

section \<open>The transaction monad\<close>

type_synonym ('s, 'a) tx = "'s \<Rightarrow> (exn + 'a) \<times> 's"

definition ret :: "'a \<Rightarrow> ('s, 'a) tx" where
  "ret x s = (Inr x, s)"

definition throw :: "exn \<Rightarrow> ('s, 'a) tx" where
  "throw e s = (Inl e, s)"

definition bind :: "('s, 'a) tx \<Rightarrow> ('a \<Rightarrow> ('s, 'b) tx) \<Rightarrow> ('s, 'b) tx" where
  "bind m f s = (case m s of (Inl e, s') \<Rightarrow> (Inl e, s') | (Inr x, s') \<Rightarrow> f x s')"

definition ask :: "('s \<Rightarrow> 'a) \<Rightarrow> ('s, 'a) tx" where
  "ask f s = (Inr (f s), s)"

definition change :: "('s \<Rightarrow> 's) \<Rightarrow> ('s, unit) tx" where
  "change f s = (Inr (), f s)"

definition require :: "bool \<Rightarrow> exn \<Rightarrow> ('s, unit) tx" where
  "require b e = (if b then ret () else throw e)"

definition require_some :: "'a option \<Rightarrow> exn \<Rightarrow> ('s, 'a) tx" where
  "require_some v e = (case v of None \<Rightarrow> throw e | Some x \<Rightarrow> ret x)"

definition catch :: "('s, 'a) tx \<Rightarrow> (exn \<Rightarrow> ('s, 'a) tx) \<Rightarrow> ('s, 'a) tx" where
  "catch m h s = (case m s of (Inl e, s') \<Rightarrow> h e s' | (Inr x, s') \<Rightarrow> (Inr x, s'))"

definition transaction :: "('s, 'a) tx \<Rightarrow> ('s, 'a) tx" where
  "transaction m s = (case m s of (Inl e, s') \<Rightarrow> (Inl e, s) | (Inr x, s') \<Rightarrow> (Inr x, s'))"

primrec for_each :: "'x list \<Rightarrow> ('x \<Rightarrow> ('s, unit) tx) \<Rightarrow> ('s, unit) tx" where
  "for_each [] f = ret ()"
| "for_each (x # xs) f = bind (f x) (\<lambda>_. for_each xs f)"

lemma for_each_map: "for_each (map g xs) f = for_each xs (\<lambda>x. f (g x))"
  by (induction xs) simp_all

subsection \<open>Inversion of successful runs\<close>

lemma ret_run [simp]: "ret x s = (Inr x, s)"
  by (simp add: ret_def)

lemma throw_run [simp]: "throw e s = (Inl e, s)"
  by (simp add: throw_def)

lemma ask_run [simp]: "ask f s = (Inr (f s), s)"
  by (simp add: ask_def)

lemma change_run [simp]: "change f s = (Inr (), f s)"
  by (simp add: change_def)

lemma require_run [simp]: "require b e s = (if b then (Inr (), s) else (Inl e, s))"
  by (simp add: require_def)

lemma require_some_run [simp]:
  "require_some v e s = (case v of None \<Rightarrow> (Inl e, s) | Some x \<Rightarrow> (Inr x, s))"
  by (simp add: require_some_def split: option.split)

lemma bind_ok [simp]: "m s = (Inr x, s') \<Longrightarrow> bind m f s = f x s'"
  by (simp add: bind_def)

lemma bind_err [simp]: "m s = (Inl e, s') \<Longrightarrow> bind m f s = (Inl e, s')"
  by (simp add: bind_def)

lemma bind_Inr_iff [tx_simps]:
  "bind m f s = (Inr y, s') \<longleftrightarrow> (\<exists>x s1. m s = (Inr x, s1) \<and> f x s1 = (Inr y, s'))"
  by (auto simp: bind_def split: prod.splits sum.splits)

lemma bind_Inl_iff:
  "bind m f s = (Inl e, s') \<longleftrightarrow>
     m s = (Inl e, s') \<or> (\<exists>x s1. m s = (Inr x, s1) \<and> f x s1 = (Inl e, s'))"
  by (auto simp: bind_def split: prod.splits sum.splits)

lemma transaction_Inr_iff [tx_simps]: "transaction m s = (Inr y, s') \<longleftrightarrow> m s = (Inr y, s')"
  by (auto simp: transaction_def split: prod.splits sum.splits)

lemma transaction_Inl_iff: "transaction m s = (Inl e, s') \<longleftrightarrow> s' = s \<and> (\<exists>s1. m s = (Inl e, s1))"
  by (auto simp: transaction_def split: prod.splits sum.splits)

text \<open>Atomicity of \<^verbatim>\<open>$transaction\<close>: a throwing body leaves no write behind.\<close>

lemma transaction_rollback: "transaction m s = (Inl e, s') \<Longrightarrow> s' = s"
  by (simp add: transaction_Inl_iff)

lemma catch_Inr_iff [tx_simps]:
  "catch m h s = (Inr y, s') \<longleftrightarrow>
     m s = (Inr y, s') \<or> (\<exists>e s1. m s = (Inl e, s1) \<and> h e s1 = (Inr y, s'))"
  by (auto simp: catch_def split: prod.splits sum.splits)

lemma catch_ok [simp]: "m s = (Inr x, s') \<Longrightarrow> catch m h s = (Inr x, s')"
  by (simp add: catch_def)

lemma catch_err [simp]: "m s = (Inl e, s') \<Longrightarrow> catch m h s = h e s'"
  by (simp add: catch_def)

text \<open>A handler that always rethrows never turns a failure into a success.\<close>

lemma catch_rethrow_Inr_iff [tx_simps]:
  "catch m (\<lambda>e. throw (g e)) s = (Inr y, s') \<longleftrightarrow> m s = (Inr y, s')"
  by (auto simp: catch_def split: prod.splits sum.splits)

lemma require_some_Inr_iff [tx_simps]:
  "require_some v e s = (Inr x, s') \<longleftrightarrow> v = Some x \<and> s' = s"
  by (auto split: option.splits)

lemma require_Inr_iff [tx_simps]: "require b e s = (Inr x, s') \<longleftrightarrow> b \<and> s' = s"
  by auto

lemma if_run [simp]: "(if b then m else n) s = (if b then m s else n s)"
  by simp

lemma run_succeeds: "\<not> isl (fst r) \<Longrightarrow> \<exists>x s'. r = (Inr x, s')"
  by (cases r; cases "fst r") auto

section \<open>Frames: what an operation never touches\<close>

text \<open>
  \<open>frame g m\<close>: whatever \<open>m\<close> does, and whether it throws or not, the part \<open>g\<close> of the state is the
  same afterwards. The rules follow the structure of the code.
\<close>

definition frame :: "('s \<Rightarrow> 'b) \<Rightarrow> ('s, 'a) tx \<Rightarrow> bool" where
  "frame g m \<longleftrightarrow> (\<forall>s r s'. m s = (r, s') \<longrightarrow> g s' = g s)"

lemma frameD: "frame g m \<Longrightarrow> m s = (r, s') \<Longrightarrow> g s' = g s"
  by (simp add: frame_def)

lemma frameI: "(\<And>s r s'. m s = (r, s') \<Longrightarrow> g s' = g s) \<Longrightarrow> frame g m"
  by (simp add: frame_def)

lemma frame_ret [frame_intros]: "frame g (ret x)"
  by (simp add: frame_def)

lemma frame_throw [frame_intros]: "frame g (throw e)"
  by (simp add: frame_def)

lemma frame_ask [frame_intros]: "frame g (ask f)"
  by (simp add: frame_def)

lemma frame_change [frame_intros]: "(\<And>s. g (f s) = g s) \<Longrightarrow> frame g (change f)"
  by (simp add: frame_def)

lemma frame_require [frame_intros]: "frame g (require b e)"
  by (auto simp: frame_def split: if_splits)

lemma frame_require_some [frame_intros]: "frame g (require_some v e)"
  by (auto simp: frame_def split: option.splits)

lemma frame_bind [frame_intros]:
  assumes "frame g m" and "\<And>x. frame g (f x)"
  shows "frame g (bind m f)"
proof (rule frameI)
  fix s r s'
  assume run: "bind m f s = (r, s')"
  obtain a s1 where m: "m s = (a, s1)" by (cases "m s")
  have "g s1 = g s" using assms(1) m by (rule frameD)
  with run m show "g s' = g s"
    by (cases a) (auto simp: frameD [OF assms(2)])
qed

lemma frame_catch [frame_intros]:
  assumes "frame g m" and "\<And>e. frame g (h e)"
  shows "frame g (catch m h)"
proof (rule frameI)
  fix s r s'
  assume run: "catch m h s = (r, s')"
  obtain a s1 where m: "m s = (a, s1)" by (cases "m s")
  have "g s1 = g s" using assms(1) m by (rule frameD)
  with run m show "g s' = g s"
    by (cases a) (auto simp: frameD [OF assms(2)])
qed

lemma frame_transaction [frame_intros]: "frame g m \<Longrightarrow> frame g (transaction m)"
  by (auto simp: frame_def transaction_def split: prod.splits sum.splits)

lemma frame_if [frame_intros]:
  "(b \<Longrightarrow> frame g m) \<Longrightarrow> (\<not> b \<Longrightarrow> frame g n) \<Longrightarrow> frame g (if b then m else n)"
  by simp

lemma frame_case_option [frame_intros]:
  "frame g m \<Longrightarrow> (\<And>x. frame g (f x)) \<Longrightarrow> frame g (case v of None \<Rightarrow> m | Some x \<Rightarrow> f x)"
  by (cases v) simp_all

lemma frame_case_prod [frame_intros]:
  "(\<And>x y. frame g (f x y)) \<Longrightarrow> frame g (case p of (x, y) \<Rightarrow> f x y)"
  by (cases p) simp

lemma frame_for_each [frame_intros]: "(\<And>x. frame g (f x)) \<Longrightarrow> frame g (for_each xs f)"
  by (induction xs) (auto intro: frame_intros)

section \<open>Invariants an operation keeps\<close>

text \<open>
  \<open>keeps I m\<close>: every run of \<open>m\<close>, successful or not, takes states in \<open>I\<close> to states in \<open>I\<close>.
  \<open>keeps_ok I m\<close> says so for the successful runs only (a failing one is undone by the
  transaction it is part of).
\<close>

definition keeps :: "('s \<Rightarrow> bool) \<Rightarrow> ('s, 'a) tx \<Rightarrow> bool" where
  "keeps I m \<longleftrightarrow> (\<forall>s r s'. I s \<longrightarrow> m s = (r, s') \<longrightarrow> I s')"

definition keeps_ok :: "('s \<Rightarrow> bool) \<Rightarrow> ('s, 'a) tx \<Rightarrow> bool" where
  "keeps_ok I m \<longleftrightarrow> (\<forall>s x s'. I s \<longrightarrow> m s = (Inr x, s') \<longrightarrow> I s')"

lemma keepsD: "keeps I m \<Longrightarrow> I s \<Longrightarrow> m s = (r, s') \<Longrightarrow> I s'"
  by (simp add: keeps_def)

lemma keeps_okD: "keeps_ok I m \<Longrightarrow> I s \<Longrightarrow> m s = (Inr x, s') \<Longrightarrow> I s'"
  unfolding keeps_ok_def by blast

lemma keeps_okI: "(\<And>s x s'. I s \<Longrightarrow> m s = (Inr x, s') \<Longrightarrow> I s') \<Longrightarrow> keeps_ok I m"
  unfolding keeps_ok_def by blast

lemma keeps_imp_ok: "keeps I m \<Longrightarrow> keeps_ok I m"
  unfolding keeps_ok_def keeps_def by blast

lemma keeps_ok_bind [inv_intros]:
  "keeps_ok I m \<Longrightarrow> (\<And>x. keeps_ok I (f x)) \<Longrightarrow> keeps_ok I (bind m f)"
  by (rule keeps_okI) (auto simp: bind_Inr_iff dest: keeps_okD)

lemma keeps_ok_pure [inv_intros]:
  "keeps_ok I (ret x)" "keeps_ok I (throw e)" "keeps_ok I (ask f)" "keeps_ok I (require b e)"
  "keeps_ok I (require_some v e)"
  by (auto simp: keeps_ok_def split: option.splits if_splits)

lemma keeps_ok_change [inv_intros]: "(\<And>s. I s \<Longrightarrow> I (f s)) \<Longrightarrow> keeps_ok I (change f)"
  by (simp add: keeps_ok_def)

lemma keeps_ok_if [inv_intros]:
  "(b \<Longrightarrow> keeps_ok I m) \<Longrightarrow> (\<not> b \<Longrightarrow> keeps_ok I n) \<Longrightarrow> keeps_ok I (if b then m else n)"
  by simp

lemma keeps_ok_case_option [inv_intros]:
  "keeps_ok I m \<Longrightarrow> (\<And>x. keeps_ok I (f x)) \<Longrightarrow>
     keeps_ok I (case v of None \<Rightarrow> m | Some x \<Rightarrow> f x)"
  by (cases v) simp_all

lemma keeps_ok_for_each [inv_intros]: "(\<And>x. keeps_ok I (f x)) \<Longrightarrow> keeps_ok I (for_each xs f)"
  by (induction xs) (auto intro: inv_intros)

text \<open>The public methods wrap their body in \<^verbatim>\<open>$transaction\<close>: success keeps \<open>I\<close>, failure undoes.\<close>

lemma keeps_transaction [inv_intros]: "keeps_ok I m \<Longrightarrow> keeps I (transaction m)"
  by (auto simp: keeps_def keeps_ok_def transaction_def split: prod.splits sum.splits)

lemma keeps_ok_frame: "frame g m \<Longrightarrow> (\<And>s. I s \<longleftrightarrow> J (g s)) \<Longrightarrow> keeps_ok I m"
  by (auto simp: keeps_ok_def dest: frameD)

end
