(* ===== verification/Tables.thy ===== *)
theory Tables
  imports Prelude
begin

text \<open>
  The generic part of the database the services talk to through Prisma: a table is the list of its
  rows in insertion order; \<^verbatim>\<open>findFirst\<close>/\<^verbatim>\<open>findUnique\<close>, \<^verbatim>\<open>findMany\<close>, \<^verbatim>\<open>updateMany\<close>, \<^verbatim>\<open>deleteMany\<close> and
  \<^verbatim>\<open>create\<close> are list functions over it; \<open>cas_write\<close> is the optimistic-locking write that every
  repository of the code repeats, and the locale \<open>optimistic_table\<close> the contract its callers rely
  on. Also here: decimals of scale 4, the \<^verbatim>\<open>@db.Decimal(18, 4)\<close> columns of the schema.
\<close>

section \<open>Queries and writes on the list of rows\<close>

definition find_first :: "('r \<Rightarrow> bool) \<Rightarrow> 'r list \<Rightarrow> 'r option" where
  "find_first p t = List.find p t"

definition find_many :: "('r \<Rightarrow> bool) \<Rightarrow> 'r list \<Rightarrow> 'r list" where
  "find_many p t = filter p t"

definition update_rows :: "('r \<Rightarrow> bool) \<Rightarrow> ('r \<Rightarrow> 'r) \<Rightarrow> 'r list \<Rightarrow> 'r list" where
  "update_rows p f t = map (\<lambda>r. if p r then f r else r) t"

definition count_rows :: "('r \<Rightarrow> bool) \<Rightarrow> 'r list \<Rightarrow> nat" where
  "count_rows p t = length (filter p t)"

definition delete_rows :: "('r \<Rightarrow> bool) \<Rightarrow> 'r list \<Rightarrow> 'r list" where
  "delete_rows p t = filter (\<lambda>r. \<not> p r) t"

lemma find_first_Nil [simp]: "find_first p [] = None"
  by (simp add: find_first_def)

lemma find_first_Cons [simp]: "find_first p (r # t) = (if p r then Some r else find_first p t)"
  by (simp add: find_first_def)

lemma find_first_append:
  "find_first p (t @ u) = (case find_first p t of None \<Rightarrow> find_first p u | Some r \<Rightarrow> Some r)"
  by (induction t) auto

lemma find_first_None_iff: "find_first p t = None \<longleftrightarrow> (\<forall>r \<in> set t. \<not> p r)"
  by (induction t) auto

lemma find_first_SomeD: "find_first p t = Some r \<Longrightarrow> r \<in> set t \<and> p r"
  by (induction t) (auto split: if_splits)

lemma find_first_memI: "r \<in> set t \<Longrightarrow> p r \<Longrightarrow> \<exists>r'. find_first p t = Some r'"
  by (induction t) auto

lemma find_first_cong: "(\<And>r. r \<in> set t \<Longrightarrow> p r = q r) \<Longrightarrow> find_first p t = find_first q t"
  by (induction t) auto

text \<open>With unique keys the row that is found is the row that is meant.\<close>

lemma find_first_unique:
  assumes "distinct (map k t)" and "r \<in> set t" and "p r"
    and "\<And>r'. r' \<in> set t \<Longrightarrow> p r' \<Longrightarrow> k r' = k r"
  shows "find_first p t = Some r"
  using assms
proof (induction t)
  case Nil
  then show ?case by simp
next
  case (Cons a t)
  show ?case
  proof (cases "p a")
    case True
    have "k a = k r" using Cons.prems(4) [of a] True by simp
    have "a = r"
    proof (rule ccontr)
      assume "a \<noteq> r"
      then have "r \<in> set t" using Cons.prems(2) by simp
      then have "k r \<in> k ` set t" by simp
      with \<open>k a = k r\<close> Cons.prems(1) show False by auto
    qed
    with True show ?thesis by simp
  next
    case False
    then have "r \<in> set t" using Cons.prems(2,3) by auto
    moreover have "distinct (map k t)" using Cons.prems(1) by simp
    moreover have "k r' = k r" if "r' \<in> set t" "p r'" for r'
      using that by (intro Cons.prems(4)) simp_all
    ultimately have "find_first p t = Some r"
      using Cons.IH Cons.prems(3) by blast
    with False show ?thesis by simp
  qed
qed

lemma distinct_map_eq: "distinct (map k t) \<Longrightarrow> r \<in> set t \<Longrightarrow> r' \<in> set t \<Longrightarrow> k r = k r' \<Longrightarrow> r = r'"
  by (auto simp: distinct_map inj_on_def)

lemma update_rows_Nil [simp]: "update_rows p f [] = []"
  by (simp add: update_rows_def)

lemma update_rows_Cons [simp]:
  "update_rows p f (r # t) = (if p r then f r else r) # update_rows p f t"
  by (simp add: update_rows_def)

lemma length_update_rows [simp]: "length (update_rows p f t) = length t"
  by (simp add: update_rows_def)

lemma set_update_rows:
  "set (update_rows p f t) = {r \<in> set t. \<not> p r} \<union> f ` {r \<in> set t. p r}"
  by (auto simp: update_rows_def)

lemma map_update_rows: "(\<And>r. k (f r) = k r) \<Longrightarrow> map k (update_rows p f t) = map k t"
  by (simp add: update_rows_def comp_def)

lemma update_rows_none: "(\<And>r. r \<in> set t \<Longrightarrow> \<not> p r) \<Longrightarrow> update_rows p f t = t"
  by (simp add: update_rows_def map_idI)

lemma find_first_update_rows:
  "(\<And>r. q (f r) = q r) \<Longrightarrow> find_first q (update_rows p f t) =
     map_option (\<lambda>r. if p r then f r else r) (find_first q t)"
  by (induction t) auto

lemma filter_update_rows:
  "(\<And>r. q (f r) = q r) \<Longrightarrow> filter q (update_rows p f t) = update_rows p f (filter q t)"
  by (induction t) auto

lemma sum_list_update_rows:
  fixes g :: "'r \<Rightarrow> 'n::ab_group_add"
  shows "(\<Sum>r\<leftarrow>update_rows p f t. g r) = (\<Sum>r\<leftarrow>t. g r) + (\<Sum>r\<leftarrow>filter p t. g (f r) - g r)"
  by (induction t) (auto simp: algebra_simps)

lemma filter_key:
  "distinct (map k t) \<Longrightarrow> r \<in> set t \<Longrightarrow> filter (\<lambda>x. k x = k r) t = [r]"
proof (induction t)
  case Nil
  then show ?case by simp
next
  case (Cons a t)
  show ?case
  proof (cases "a = r")
    case True
    with Cons.prems(1) have "k r \<notin> set (map k t)" by simp
    then have "\<forall>x \<in> set t. k x \<noteq> k r" by (metis image_eqI list.set_map)
    then have "filter (\<lambda>x. k x = k r) t = []" by (simp add: filter_empty_conv)
    with True show ?thesis by simp
  next
    case False
    with Cons.prems have "r \<in> set t" by simp
    moreover have "k a \<noteq> k r" using Cons.prems(1) \<open>r \<in> set t\<close> by auto
    ultimately show ?thesis using Cons by simp
  qed
qed

lemma count_rows_0_iff: "count_rows p t = 0 \<longleftrightarrow> (\<forall>r \<in> set t. \<not> p r)"
  by (simp add: count_rows_def filter_empty_conv)

lemma set_delete_rows [simp]: "set (delete_rows p t) = {r \<in> set t. \<not> p r}"
  by (auto simp: delete_rows_def)

section \<open>The optimistic-locking write\<close>

text \<open>
  The shape every repository repeats: \<^verbatim>\<open>updateMany\<close> on (id, companyId, rowVersion); on count 0 look
  the row up without the version and throw NotFound or Conflict; otherwise read the row back.
  \<open>hit\<close> is the guarded condition, \<open>same\<close> the look-up after a miss, \<open>key\<close> the read back.
\<close>

definition cas_write ::
  "('w \<Rightarrow> 'r list) \<Rightarrow> (('r list \<Rightarrow> 'r list) \<Rightarrow> 'w \<Rightarrow> 'w) \<Rightarrow> ('r \<Rightarrow> bool) \<Rightarrow> ('r \<Rightarrow> bool) \<Rightarrow>
     ('r \<Rightarrow> bool) \<Rightarrow> ('r \<Rightarrow> 'r) \<Rightarrow> exn \<Rightarrow> exn \<Rightarrow> ('w, 'r) tx" where
  "cas_write rows put hit same key f missing stale =
     bind (ask rows) (\<lambda>t.
       if count_rows hit t = 0 then
         (case find_first same t of None \<Rightarrow> throw missing | Some _ \<Rightarrow> throw stale)
       else
         bind (change (put (update_rows hit f))) (\<lambda>_.
         bind (ask rows) (\<lambda>t'. require_some (find_first key t') RecordMissing)))"

lemma cas_write_Inr:
  assumes "cas_write rows put hit same key f e1 e2 w = (Inr r, w')"
  shows "(\<exists>r0 \<in> set (rows w). hit r0) \<and> w' = put (update_rows hit f) w \<and>
         find_first key (rows w') = Some r"
  using assms
  by (auto simp: cas_write_def bind_Inr_iff count_rows_0_iff split: if_splits option.splits)

lemma cas_write_miss:
  assumes "\<forall>r \<in> set (rows w). \<not> hit r"
  shows "cas_write rows put hit same key f e1 e2 w =
           (Inl (if find_first same (rows w) = None then e1 else e2), w)"
proof -
  have "count_rows hit (rows w) = 0" using assms by (simp add: count_rows_0_iff)
  then show ?thesis
    by (cases "find_first same (rows w)") (simp_all add: cas_write_def bind_def)
qed

lemma cas_write_hit:
  assumes "r \<in> set (rows w)" and "hit r" and "key r"
    and "\<And>x. key (f x) = key x" and "\<And>h. rows (put h w) = h (rows w)"
  shows "\<exists>x. cas_write rows put hit same key f e1 e2 w = (Inr x, put (update_rows hit f) w)"
proof -
  have "count_rows hit (rows w) \<noteq> 0" using assms(1,2) by (auto simp: count_rows_0_iff)
  moreover obtain x where "find_first key (rows w) = Some x"
    using find_first_memI [of r "rows w" key] assms(1,3) by blast
  then have "find_first key (update_rows hit f (rows w)) = Some (if hit x then f x else x)"
    by (simp add: find_first_update_rows assms(4))
  ultimately show ?thesis by (simp add: cas_write_def bind_def assms(5))
qed

text \<open>
  In a table whose ids are distinct, the write guarded by the id, the tenant and the version of a row that
  is there succeeds and changes the row with that id.
\<close>

lemma cas_write_here:
  assumes "distinct (map rid (rows w))" and "r \<in> set (rows w)" and f: "\<And>x. rid (f x) = rid x"
    and put: "\<And>h w. rows (put h w) = h (rows w)" "\<And>h h' w. h (rows w) = h' (rows w) \<Longrightarrow> put h w = put h' w"
  shows "cas_write rows put (\<lambda>x. rid x = rid r \<and> tenant x = tenant r \<and> ver x = ver r) same (\<lambda>x. rid x = rid r) f e1 e2 w =
    (Inr (f r), put (update_rows (\<lambda>x. rid x = rid r) f) w)"
proof -
  let ?hit = "\<lambda>x. rid x = rid r \<and> tenant x = tenant r \<and> ver x = ver r"
  have "?hit x \<longleftrightarrow> rid x = rid r" if "x \<in> set (rows w)" for x
    using distinct_map_eq [OF assms(1) that assms(2)] by auto
  then have rows: "update_rows ?hit f (rows w) = update_rows (\<lambda>x. rid x = rid r) f (rows w)"
    by (simp add: update_rows_def)
  have "count_rows ?hit (rows w) \<noteq> 0" using assms(2) by (auto simp: count_rows_0_iff)
  moreover have "find_first (\<lambda>x. rid x = rid r) (update_rows (\<lambda>x. rid x = rid r) f (rows w)) = Some (f r)"
    using find_first_unique [OF assms(1,2), of "\<lambda>x. rid x = rid r"]
    by (subst find_first_update_rows) (simp_all add: f)
  ultimately have "cas_write rows put ?hit same (\<lambda>x. rid x = rid r) f e1 e2 w = (Inr (f r), put (update_rows ?hit f) w)"
    unfolding cas_write_def by (simp add: bind_def put(1) rows)
  also have "put (update_rows ?hit f) w = put (update_rows (\<lambda>x. rid x = rid r) f) w" using rows by (rule put(2))
  finally show ?thesis .
qed

lemma frame_cas_write [frame_intros]:
  "(\<And>h w. g (put h w) = g w) \<Longrightarrow> frame g (cas_write rows put hit same key f e1 e2)"
  unfolding cas_write_def by (intro frame_intros) auto

text \<open>
  The contract of an optimistically locked table: \<open>upd i f c v\<close> rewrites the row with id \<open>i\<close> of
  tenant \<open>c\<close> when its version is \<open>v\<close>, bumps the version, touches no other row, and throws without
  writing when there is no such row.
\<close>

locale optimistic_table =
  fixes rows :: "'w \<Rightarrow> 'r list"
    and rid :: "'r \<Rightarrow> string"
    and tenant :: "'r \<Rightarrow> string"
    and ver :: "'r \<Rightarrow> int"
    and ok_change :: "('r \<Rightarrow> 'r) \<Rightarrow> bool"
    and upd :: "string \<Rightarrow> ('r \<Rightarrow> 'r) \<Rightarrow> string \<Rightarrow> int \<Rightarrow> ('w, 'r) tx"
  assumes change_keys: "ok_change f \<Longrightarrow> rid (f r) = rid r \<and> tenant (f r) = tenant r"
    and upd_hit: "ok_change f \<Longrightarrow> upd i f c v w = (Inr r', w') \<Longrightarrow>
        (\<exists>r \<in> set (rows w). rid r = i \<and> tenant r = c \<and> ver r = v)"
    and upd_rows: "ok_change f \<Longrightarrow> upd i f c v w = (Inr r', w') \<Longrightarrow>
        \<exists>g. (\<forall>r. rid (g r) = rid r \<and> tenant (g r) = tenant r \<and> ver (g r) = ver r + 1) \<and>
            rows w' = update_rows (\<lambda>r. rid r = i \<and> tenant r = c \<and> ver r = v) g (rows w)"
    and upd_miss: "\<forall>r \<in> set (rows w). \<not> (rid r = i \<and> tenant r = c \<and> ver r = v) \<Longrightarrow>
        \<exists>e. upd i f c v w = (Inl e, w)"
begin

text \<open>No lost update: of two writers that read the same version the second one fails.\<close>

lemma second_writer_loses:
  assumes "distinct (map rid (rows w))"
    and "ok_change f" and first: "upd i f c v w = (Inr r', w')"
  shows "\<exists>e. upd i g c v w' = (Inl e, w')"
proof -
  obtain h where h: "\<And>r. rid (h r) = rid r \<and> tenant (h r) = tenant r \<and> ver (h r) = ver r + 1"
    and rows': "rows w' = update_rows (\<lambda>r. rid r = i \<and> tenant r = c \<and> ver r = v) h (rows w)"
    using upd_rows [OF assms(2,3)] by blast
  have "\<not> (rid r = i \<and> tenant r = c \<and> ver r = v)" if "r \<in> set (rows w')" for r
  proof
    assume hit: "rid r = i \<and> tenant r = c \<and> ver r = v"
    with that obtain r0 where "rid r0 = i \<and> tenant r0 = c \<and> ver r0 = v" and "r = h r0"
      unfolding rows' set_update_rows by blast
    then have "ver r = v + 1" using h by simp
    with hit show False by simp
  qed
  then show ?thesis using upd_miss by blast
qed

text \<open>The write neither adds, removes nor renames rows.\<close>

lemma upd_ids:
  assumes "ok_change f" and "upd i f c v w = (Inr r', w')"
  shows "map rid (rows w') = map rid (rows w) \<and> map tenant (rows w') = map tenant (rows w)"
  using upd_rows [OF assms] by (auto simp: map_update_rows)

text \<open>A row of another tenant is the same row afterwards.\<close>

lemma upd_other_tenant:
  assumes "ok_change f" and "upd i f c v w = (Inr r', w')" and "c' \<noteq> c"
  shows "filter (\<lambda>r. tenant r = c') (rows w') = filter (\<lambda>r. tenant r = c') (rows w)"
proof -
  obtain h where h: "\<And>r. tenant (h r) = tenant r"
    and rows': "rows w' = update_rows (\<lambda>r. rid r = i \<and> tenant r = c \<and> ver r = v) h (rows w)"
    using upd_rows [OF assms(1,2)] by blast
  have "filter (\<lambda>r. tenant r = c') (rows w') = update_rows
      (\<lambda>r. rid r = i \<and> tenant r = c \<and> ver r = v) h (filter (\<lambda>r. tenant r = c') (rows w))"
    by (simp add: rows' filter_update_rows h)
  also have "\<dots> = filter (\<lambda>r. tenant r = c') (rows w)"
    using assms(3) by (intro update_rows_none) auto
  finally show ?thesis .
qed

end

text \<open>
  Every instance of the write over (id, companyId, rowVersion) meets the contract; the repositories
  interpret the locale on their own update with this lemma.
\<close>

definition bump_ver :: "('r \<Rightarrow> 'r) \<Rightarrow> ('r \<Rightarrow> 'r) \<Rightarrow> ('r \<Rightarrow> 'r)" where
  "bump_ver inc f r = inc (f r)"

lemma cas_optimistic_table:
  assumes put: "\<And>h w. rows (put h w) = h (rows w)"
    and inc: "\<And>r. rid (inc r) = rid r" "\<And>r. tenant (inc r) = tenant r" "\<And>r. ver (inc r) = ver r + 1"
  shows "optimistic_table rows rid tenant ver
           (\<lambda>f. \<forall>r. rid (f r) = rid r \<and> tenant (f r) = tenant r \<and> ver (f r) = ver r)
           (\<lambda>i f c v. cas_write rows put (\<lambda>r. rid r = i \<and> tenant r = c \<and> ver r = v)
              (\<lambda>r. rid r = i \<and> tenant r = c) (\<lambda>r. rid r = i) (bump_ver inc f) (e1 i) (e2 i))"
proof (unfold_locales, goal_cases)
  case (1 f r)
  then show ?case by simp
next
  case (2 f i c v w r' w')
  then show ?case by (auto dest: cas_write_Inr)
next
  case (3 f i c v w r' w')
  have "rows w' = update_rows (\<lambda>r. rid r = i \<and> tenant r = c \<and> ver r = v) (bump_ver inc f) (rows w)"
    using cas_write_Inr [OF 3(2)] by (simp add: put)
  moreover have "\<forall>r. rid (bump_ver inc f r) = rid r \<and> tenant (bump_ver inc f r) = tenant r \<and>
      ver (bump_ver inc f r) = ver r + 1"
    using 3(1) by (simp add: bump_ver_def inc)
  ultimately show ?case by blast
next
  case (4 w i c v f)
  show ?case
    by (rule exI, rule cas_write_miss [where hit = "\<lambda>r. rid r = i \<and> tenant r = c \<and> ver r = v"],
        rule 4)
qed

section \<open>Decimals of scale 4\<close>

text \<open>
  \<^verbatim>\<open>Decimal\<close> values are exact rationals: the sums and products the code forms of
  \<^verbatim>\<open>Decimal(18, 4)\<close> columns and quantities are represented exactly by decimal.js as long as they
  have at most 20 significant digits. What a column stores is the value rounded to four places, half
  away from zero (PostgreSQL \<^verbatim>\<open>numeric(18, 4)\<close>); \<^verbatim>\<open>toFixed(4)\<close> rounds the same way.
\<close>

type_synonym decimal = rat

definition round4 :: "decimal \<Rightarrow> decimal" where
  "round4 x = sgn x * (of_int \<lfloor>\<bar>x\<bar> * 10000 + 1 / 2\<rfloor> / 10000)"

definition scale4 :: "decimal \<Rightarrow> bool" where
  "scale4 x \<longleftrightarrow> of_int \<lfloor>x * 10000\<rfloor> = x * 10000"

lemma scale4_iff: "scale4 x \<longleftrightarrow> (\<exists>k::int. x = of_int k / 10000)"
proof
  assume "scale4 x"
  then have "x * 10000 = of_int \<lfloor>x * 10000\<rfloor>" by (simp only: scale4_def)
  then have "x = of_int \<lfloor>x * 10000\<rfloor> / 10000" by (metis nonzero_mult_div_cancel_right zero_neq_numeral)
  then show "\<exists>k::int. x = of_int k / 10000" by blast
next
  assume "\<exists>k::int. x = of_int k / 10000"
  then obtain k :: int where "x * 10000 = of_int k" by auto
  then show "scale4 x" by (simp only: scale4_def floor_of_int)
qed

lemma floor_half: "\<lfloor>of_int k + 1 / 2 :: rat\<rfloor> = k"
  by (rule floor_unique) simp_all

lemma round4_id: "scale4 x \<Longrightarrow> round4 x = x"
proof -
  assume "scale4 x"
  then obtain k :: int where k: "x = of_int k / 10000" by (auto simp: scale4_iff)
  have "\<bar>x\<bar> * 10000 = of_int \<bar>k\<bar>" by (simp add: k)
  then have "\<lfloor>\<bar>x\<bar> * 10000 + 1 / 2\<rfloor> = \<bar>k\<bar>" by (simp only: floor_half)
  then have "round4 x = sgn x * \<bar>x\<bar>" by (simp add: round4_def k)
  then show ?thesis by (simp add: sgn_mult_abs)
qed

lemma scale4_round4 [simp]: "scale4 (round4 x)"
proof -
  have "round4 x = of_int ((if x < 0 then -1 else if x = 0 then 0 else 1) * \<lfloor>\<bar>x\<bar> * 10000 + 1 / 2\<rfloor>) / 10000"
    by (simp add: round4_def sgn_if)
  then show ?thesis unfolding scale4_iff by blast
qed

lemma scale4_0 [simp]: "scale4 0"
  by (simp add: scale4_def)

lemma scale4_add [simp, intro]: "scale4 x \<Longrightarrow> scale4 y \<Longrightarrow> scale4 (x + y)"
  unfolding scale4_iff by (metis add_divide_distrib of_int_add)

lemma scale4_diff [simp, intro]: "scale4 x \<Longrightarrow> scale4 y \<Longrightarrow> scale4 (x - y)"
  unfolding scale4_iff by (metis diff_divide_distrib of_int_diff)

lemma scale4_uminus [simp]: "scale4 (- x) \<longleftrightarrow> scale4 x"
  using scale4_diff [of 0 x] scale4_diff [of 0 "- x"] by auto

lemma scale4_abs [simp]: "scale4 x \<Longrightarrow> scale4 \<bar>x\<bar>"
  by (simp add: abs_if)

lemma scale4_mult_int [simp, intro]: "scale4 x \<Longrightarrow> scale4 (x * of_int n)"
  unfolding scale4_iff by (metis of_int_mult times_divide_eq_left)

lemma round4_0 [simp]: "round4 0 = 0"
  by (simp add: round4_def)

lemma round4_nonneg: "0 \<le> x \<Longrightarrow> 0 \<le> round4 x"
  by (auto simp: round4_def sgn_if)

lemma round4_neg_iff: "round4 x < 0 \<Longrightarrow> x < 0"
  using round4_nonneg [of x] by (cases "x < 0") auto

lemma scale4_sum_list [intro]: "(\<And>x. x \<in> set xs \<Longrightarrow> scale4 (f x)) \<Longrightarrow> scale4 (\<Sum>x\<leftarrow>xs. f x)"
  by (induction xs) auto

end
