(* ===== verification/Schema.thy ===== *)
theory Schema
  imports Tables
begin

text \<open>
  The rows of \<^verbatim>\<open>src/backend/prisma/schema.prisma\<close> that the modelled services read or write, the
  JSON values they exchange, and \<open>world\<close>, the state every service method runs on: the tables, and
  the parameters the environment supplies. A row keeps the columns that some modelled operation
  reads or writes; enum columns are datatypes, \<^verbatim>\<open>String\<close> columns strings (UUIDs included), nullable
  columns options, \<^verbatim>\<open>DateTime\<close> the milliseconds since the epoch, \<^verbatim>\<open>Int\<close> integers,
  \<^verbatim>\<open>Decimal(18, 4)\<close> rationals. A foreign key written with Prisma's \<^verbatim>\<open>connect\<close> is the id itself: the
  modelled callers have read the row it names in the same transaction (users and companies come from
  the authenticated token and are taken to exist). The \<^verbatim>\<open>updatedAt\<close> columns, which Prisma rewrites at
  every write and the code only returns, are left out.
\<close>

section \<open>JSON\<close>

text \<open>
  The values that \<^verbatim>\<open>JSON.stringify\<close> meets. \<open>JDate\<close> and \<open>JDec\<close> are a \<^verbatim>\<open>Date\<close> and a \<^verbatim>\<open>Decimal\<close> object,
  which serialise through their own \<^verbatim>\<open>toJSON\<close>; an object keeps its keys in insertion order.
\<close>

datatype json =
    JNull
  | JBool bool
  | JNum rat
  | JStr string
  | JDate int
  | JDec decimal
  | JArr "json list"
  | JObj "(string \<times> json) list"

definition jopt :: "('a \<Rightarrow> json) \<Rightarrow> 'a option \<Rightarrow> json" where
  "jopt f v = (case v of None \<Rightarrow> JNull | Some x \<Rightarrow> f x)"

definition jint :: "int \<Rightarrow> json" where
  "jint n = JNum (of_int n)"

section \<open>Enums\<close>

datatype movement_type =
    PURCHASE | SALE | RETURN | TRANSFER_IN | TRANSFER_OUT | ADJUSTMENT | OPENING_BALANCE
  | COUNT_ADJUSTMENT | RESERVATION | UNRESERVATION | PRODUCTION_IN | PRODUCTION_OUT

datatype count_status = CountDraft | CountInProgress | CountCompleted | CountCancelled

datatype entry_status = Draft | Posted | Reversed

datatype period_status = Open | Closing | Closed

datatype account_type = ASSET | LIABILITY | EQUITY | REVENUE | EXPENSE

datatype normal_balance = DebitNormal | CreditNormal

datatype money_direction = INFLOW | OUTFLOW

datatype money_type =
    FT_CASH_IN | FT_CASH_OUT | FT_BANK_DEPOSIT | FT_BANK_WITHDRAWAL | FT_BANK_TRANSFER | FT_CARD_DEPOSIT
  | FT_CARD_WITHDRAWAL | FT_INTERNAL_TRANSFER | FT_FEE | FT_INTEREST | FT_REFUND | FT_LOAN_DISBURSEMENT
  | FT_LOAN_REPAYMENT | FT_DIVIDEND | FT_TAX_PAYMENT

datatype posting_status = MoneyDraft | MoneyPosted | MoneyReversed

datatype order_status =
    OrderDraft | OrderPending | OrderApproved | OrderOrdered | OrderPartiallyReceived | OrderReceived | OrderCancelled

datatype goods_status = GoodsDraft | GoodsCompleted | GoodsCancelled

datatype invoice_status = InvoiceDraft | InvoiceApproved | InvoicePaid | InvoiceCancelled

datatype shift_status = ShiftOpen | ShiftClosed

datatype sale_status =
    SaleDraft | SalePending | SaleCompletedStatus | SaleRefundedStatus | SaleCancelled | SalePartiallyRefundedStatus

datatype refund_status = RefundCompleted | RefundCancelled

datatype credit_direction = ISSUED | SPENT | ADJUSTED

datatype payment_method =
    CASH | CARD | QR | BANK_TRANSFER | MOBILE_WALLET | STORE_CREDIT | GIFT_CARD

section \<open>Rows\<close>

record idem_row =
  ir_id :: string
  ir_company :: string
  ir_key :: string
  ir_endpoint :: string
  ir_hash :: string
  ir_status :: int
  ir_body :: "json option"
  ir_expires :: int

record seq_row =
  sq_company :: string
  sq_type :: string
  sq_last :: int

record audit_row =
  al_company :: "string option"
  al_user :: string
  al_entity :: string
  al_entityId :: string
  al_action :: string
  al_old :: "json option"
  al_new :: "json option"

record company_row =
  co_id :: string
  co_currency :: string

record warehouse_row =
  wh_id :: string
  wh_company :: string
  wh_active :: bool
  wh_deleted :: "int option"
  wh_version :: int

record product_row =
  pr_id :: string
  pr_company :: string
  pr_costPrice :: "decimal option"
  pr_active :: bool
  pr_deleted :: "int option"

record stock_row =
  st_id :: string
  st_company :: string
  st_product :: string
  st_warehouse :: string
  st_quantity :: int
  st_reserved :: int
  st_available :: int
  st_version :: int

record movement_row =
  mv_id :: string
  mv_company :: string
  mv_product :: string
  mv_warehouse :: string
  mv_type :: movement_type
  mv_quantity :: int
  mv_before :: int
  mv_after :: int
  mv_refType :: "string option"
  mv_refId :: "string option"
  mv_comment :: "string option"
  mv_createdBy :: "string option"
  mv_clientOp :: "string option"
  mv_createdAt :: int

record layer_row =
  cl_id :: string
  cl_company :: string
  cl_product :: string
  cl_batch :: "string option"
  cl_direction :: string
  cl_quantity :: int
  cl_remaining :: int
  cl_unitCost :: decimal
  cl_totalCost :: decimal
  cl_refType :: "string option"
  cl_refId :: "string option"
  cl_version :: int
  cl_createdAt :: int

record count_item_row =
  ci_id :: string
  ci_product :: string
  ci_expected :: int
  ci_actual :: int
  ci_difference :: int
  ci_notes :: "string option"
  ci_version :: int

record count_row =
  ic_id :: string
  ic_company :: string
  ic_warehouse :: string
  ic_number :: string
  ic_status :: count_status
  ic_countedBy :: "string option"
  ic_approvedBy :: "string option"
  ic_notes :: "string option"
  ic_version :: int
  ic_deleted :: "int option"
  ic_items :: "count_item_row list"

record account_row =
  ac_id :: string
  ac_company :: string
  ac_code :: string
  ac_name :: string
  ac_type :: account_type
  ac_normal :: normal_balance
  ac_active :: bool
  ac_cashOrBank :: bool
  ac_deleted :: "int option"

record period_row =
  fp_id :: string
  fp_company :: string
  fp_name :: string
  fp_year :: int
  fp_month :: int
  fp_start :: int
  fp_end :: int
  fp_status :: period_status
  fp_openedBy :: "string option"
  fp_closedBy :: "string option"
  fp_closedAt :: "int option"
  fp_notes :: "string option"
  fp_version :: int

record fiscal_year_row =
  fy_id :: string
  fy_company :: string
  fy_year :: int
  fy_start :: int
  fy_end :: int
  fy_closed :: bool
  fy_closedAt :: "int option"
  fy_closedBy :: "string option"
  fy_retained :: "string option"
  fy_version :: int

record line_row =
  jl_id :: string
  jl_account :: string
  jl_debit :: decimal
  jl_credit :: decimal
  jl_description :: "string option"

record entry_row =
  je_id :: string
  je_company :: string
  je_period :: string
  je_number :: int
  je_date :: int
  je_description :: "string option"
  je_status :: entry_status
  je_totalDebit :: decimal
  je_totalCredit :: decimal
  je_refType :: "string option"
  je_refId :: "string option"
  je_postedBy :: "string option"
  je_postedAt :: "int option"
  je_createdBy :: "string option"
  je_version :: int
  je_clientOp :: "string option"
  je_lines :: "line_row list"

record balance_row =
  ab_company :: string
  ab_account :: string
  ab_period :: string
  ab_year :: int
  ab_month :: int
  ab_openingDebit :: decimal
  ab_openingCredit :: decimal
  ab_periodDebit :: decimal
  ab_periodCredit :: decimal
  ab_closingDebit :: decimal
  ab_closingCredit :: decimal
  ab_version :: int

record shift_row =
  cs_id :: string
  cs_company :: string
  cs_warehouse :: string
  cs_cashier :: string
  cs_status :: shift_status
  cs_currency :: string
  cs_openedAt :: int
  cs_closedAt :: "int option"
  cs_opening :: decimal
  cs_closing :: decimal
  cs_cashSales :: decimal
  cs_cardSales :: decimal
  cs_qrSales :: decimal
  cs_bankSales :: decimal
  cs_mobileSales :: decimal
  cs_totalSales :: decimal
  cs_cashIn :: decimal
  cs_cashOut :: decimal
  cs_expected :: decimal
  cs_difference :: decimal
  cs_notes :: "string option"
  cs_version :: int
  cs_createdAt :: int

record register_row =
  ca_id :: string
  ca_company :: string
  ca_warehouse :: "string option"
  ca_chart :: "string option"
  ca_currency :: string
  ca_active :: bool
  ca_deleted :: "int option"
  ca_createdAt :: int

record sale_row =
  sa_id :: string
  sa_company :: string
  sa_warehouse :: string
  sa_cashier :: string
  sa_customer :: "string option"
  sa_number :: string
  sa_status :: sale_status
  sa_subtotal :: decimal
  sa_discount :: decimal
  sa_tax :: decimal
  sa_total :: decimal
  sa_paid :: decimal
  sa_change :: decimal
  sa_currency :: string
  sa_notes :: "string option"
  sa_shift :: "string option"
  sa_version :: int
  sa_createdAt :: int
  sa_deleted :: "int option"

record sale_item_row =
  si_id :: string
  si_sale :: string
  si_product :: string
  si_quantity :: int
  si_unitPrice :: decimal
  si_costPrice :: decimal
  si_fifoCost :: "decimal option"
  si_discount :: decimal
  si_subtotal :: decimal
  si_total :: decimal
  si_margin :: decimal
  si_createdAt :: int

record payment_row =
  pm_id :: string
  pm_sale :: string
  pm_method :: payment_method
  pm_amount :: decimal
  pm_reference :: "string option"
  pm_createdAt :: int

record receipt_row =
  rc_id :: string
  rc_number :: string
  rc_sale :: string
  rc_status :: string
  rc_printed :: bool
  rc_emailed :: bool
  rc_pdfUrl :: "string option"
  rc_qrCode :: "string option"
  rc_createdAt :: int

record refund_row =
  rf_id :: string
  rf_company :: string
  rf_sale :: string
  rf_warehouse :: string
  rf_number :: string
  rf_status :: refund_status
  rf_total :: decimal
  rf_currency :: string
  rf_reason :: "string option"
  rf_reference :: "string option"
  rf_createdBy :: string
  rf_createdAt :: int
  rf_deleted :: "int option"

record refund_item_row =
  ri_id :: string
  ri_refund :: string
  ri_saleItem :: string
  ri_product :: string
  ri_quantity :: int
  ri_unitPrice :: decimal
  ri_total :: decimal
  ri_fifoCost :: decimal
  ri_createdAt :: int

record refund_alloc_row =
  ra_id :: string
  ra_company :: string
  ra_refund :: string
  ra_method :: payment_method
  ra_amount :: decimal
  ra_currency :: string
  ra_createdBy :: string
  ra_deleted :: "int option"

record customer_row =
  cu_id :: string
  cu_company :: string
  cu_deleted :: "int option"

record credit_row =
  ct_id :: string
  ct_company :: string
  ct_customer :: string
  ct_direction :: credit_direction
  ct_amount :: decimal
  ct_currency :: string
  ct_refType :: string
  ct_refId :: string
  ct_createdBy :: string
  ct_reason :: "string option"
  ct_createdAt :: int
  ct_deleted :: "int option"

record batch_row =
  ba_id :: string
  ba_company :: string
  ba_product :: string
  ba_number :: string
  ba_quantity :: int
  ba_available :: int
  ba_unitCost :: decimal
  ba_expiry :: "int option"
  ba_received :: int
  ba_status :: string

record bank_row =
  bk_id :: string
  bk_company :: string
  bk_chart :: "string option"
  bk_active :: bool
  bk_deleted :: "int option"

record money_row =
  mt_id :: string
  mt_company :: string
  mt_type :: money_type
  mt_direction :: money_direction
  mt_amount :: decimal
  mt_fee :: decimal
  mt_net :: decimal
  mt_currency :: string
  mt_rate :: decimal
  mt_date :: int
  mt_description :: "string option"
  mt_number :: "string option"
  mt_reconciled :: bool
  mt_reconciledAt :: "int option"
  mt_cash :: "string option"
  mt_bank :: "string option"
  mt_destination :: "string option"
  mt_refType :: "string option"
  mt_refId :: "string option"
  mt_status :: posting_status
  mt_entry :: "string option"
  mt_key :: "string option"
  mt_createdBy :: "string option"
  mt_version :: int
  mt_createdAt :: int

record supplier_row =
  su_id :: string
  su_company :: string
  su_name :: string
  su_dueDays :: "int option"
  su_deleted :: "int option"

record order_row =
  or_id :: string
  or_company :: string
  or_supplier :: string
  or_number :: string
  or_date :: int
  or_expected :: "int option"
  or_status :: order_status
  or_subtotal :: decimal
  or_discount :: decimal
  or_tax :: decimal
  or_total :: decimal
  or_paid :: decimal
  or_currency :: string
  or_notes :: "string option"
  or_approvedBy :: "string option"
  or_approvedAt :: "int option"
  or_cancelledBy :: "string option"
  or_cancelledAt :: "int option"
  or_version :: int
  or_createdAt :: int
  or_deleted :: "int option"

record order_item_row =
  oi_id :: string
  oi_order :: string
  oi_product :: string
  oi_quantity :: int
  oi_received :: int
  oi_unitCost :: decimal
  oi_discountPercent :: "decimal option"
  oi_discount :: decimal
  oi_taxPercent :: "decimal option"
  oi_tax :: decimal
  oi_subtotal :: decimal
  oi_total :: decimal
  oi_notes :: "string option"
  oi_version :: int
  oi_createdAt :: int

record goods_row =
  gr_id :: string
  gr_company :: string
  gr_order :: string
  gr_number :: string
  gr_date :: int
  gr_warehouse :: string
  gr_status :: goods_status
  gr_notes :: "string option"
  gr_by :: "string option"
  gr_createdAt :: int
  gr_deleted :: "int option"

record goods_item_row =
  gi_id :: string
  gi_goods :: string
  gi_orderItem :: string
  gi_product :: string
  gi_quantity :: int
  gi_unitCost :: decimal
  gi_subtotal :: decimal
  gi_notes :: "string option"
  gi_createdAt :: int

record invoice_row =
  iv_id :: string
  iv_company :: string
  iv_order :: string
  iv_supplier :: string
  iv_number :: string
  iv_date :: int
  iv_due :: "int option"
  iv_status :: invoice_status
  iv_subtotal :: decimal
  iv_discount :: decimal
  iv_tax :: decimal
  iv_total :: decimal
  iv_paid :: decimal
  iv_currency :: string
  iv_notes :: "string option"
  iv_approvedBy :: "string option"
  iv_approvedAt :: "int option"
  iv_cancelledBy :: "string option"
  iv_cancelledAt :: "int option"
  iv_version :: int
  iv_createdAt :: int
  iv_deleted :: "int option"

record invoice_item_row =
  ii_id :: string
  ii_invoice :: string
  ii_product :: string
  ii_orderItem :: "string option"
  ii_quantity :: int
  ii_unitCost :: decimal
  ii_discountPercent :: "decimal option"
  ii_discount :: decimal
  ii_taxPercent :: "decimal option"
  ii_tax :: decimal
  ii_subtotal :: decimal
  ii_total :: decimal
  ii_notes :: "string option"
  ii_createdAt :: int

section \<open>The world\<close>

text \<open>
  Parameters of the environment: \<open>now\<close>, the clock (one reading per transaction); \<open>uuid_gen\<close>, the
  UUIDs that \<^verbatim>\<open>@default(uuid())\<close> and \<^verbatim>\<open>randomUUID()\<close> will hand out, \<open>uuid_next\<close> the number handed
  out so far; \<open>sha256\<close>, \<^verbatim>\<open>createHash('sha256')\<close> of \<^verbatim>\<open>node:crypto\<close>; \<open>num_str\<close>, ECMAScript's
  Number-to-string; \<open>dec_str\<close> and \<open>dec_keys\<close>, what a \<^verbatim>\<open>Decimal\<close> gives through \<^verbatim>\<open>toJSON\<close> and through its
  enumerable fields; \<open>iso_str\<close>, \<^verbatim>\<open>Date.toISOString\<close>; \<open>dec_div\<close>, \<^verbatim>\<open>Decimal.div\<close> of decimal.js, which rounds to its working precision.
  They are arbitrary: what a theorem needs of one of them is a hypothesis of that theorem.
\<close>

record world =
  now :: int
  uuid_gen :: "nat \<Rightarrow> string"
  uuid_next :: nat
  sha256 :: "string \<Rightarrow> string"
  num_str :: "rat \<Rightarrow> string"
  dec_str :: "decimal \<Rightarrow> string"
  dec_keys :: "decimal \<Rightarrow> string"
  iso_str :: "int \<Rightarrow> string"
  dec_div :: "decimal \<Rightarrow> decimal \<Rightarrow> decimal"
  t_idem :: "idem_row list"
  t_seq :: "seq_row list"
  t_audit :: "audit_row list"
  t_company :: "company_row list"
  t_warehouse :: "warehouse_row list"
  t_product :: "product_row list"
  t_stock :: "stock_row list"
  t_movement :: "movement_row list"
  t_layer :: "layer_row list"
  t_count :: "count_row list"
  t_account :: "account_row list"
  t_period :: "period_row list"
  t_fiscal_year :: "fiscal_year_row list"
  t_entry :: "entry_row list"
  t_balance :: "balance_row list"
  t_shift :: "shift_row list"
  t_register :: "register_row list"
  t_sale :: "sale_row list"
  t_sale_item :: "sale_item_row list"
  t_payment :: "payment_row list"
  t_receipt :: "receipt_row list"
  t_refund :: "refund_row list"
  t_refund_item :: "refund_item_row list"
  t_refund_alloc :: "refund_alloc_row list"
  t_customer :: "customer_row list"
  t_credit :: "credit_row list"
  t_batch :: "batch_row list"
  t_bank :: "bank_row list"
  t_money :: "money_row list"
  t_supplier :: "supplier_row list"
  t_order :: "order_row list"
  t_order_item :: "order_item_row list"
  t_goods :: "goods_row list"
  t_goods_item :: "goods_item_row list"
  t_invoice :: "invoice_row list"
  t_invoice_item :: "invoice_item_row list"

type_synonym 'a wtx = "(world, 'a) tx"

definition empty_world :: world where
  "empty_world = \<lparr>now = 0, uuid_gen = (\<lambda>n. replicate n (CHR ''u'')), uuid_next = 0,
     sha256 = (\<lambda>s. s), num_str = (\<lambda>_. ''n''),
     dec_str = (\<lambda>_. ''d''), dec_keys = (\<lambda>_. ''k''), iso_str = (\<lambda>_. ''i''), dec_div = (/), t_idem = [], t_seq = [],
     t_audit = [], t_company = [], t_warehouse = [], t_product = [], t_stock = [],
     t_movement = [], t_layer = [], t_count = [], t_account = [], t_period = [],
     t_fiscal_year = [], t_entry = [], t_balance = [], t_shift = [], t_register = [],
     t_sale = [], t_sale_item = [], t_payment = [], t_receipt = [], t_refund = [], t_refund_item = [],
     t_refund_alloc = [], t_customer = [], t_credit = [], t_batch = [],
     t_bank = [], t_money = [], t_supplier = [], t_order = [], t_order_item = [], t_goods = [], t_goods_item = [],
     t_invoice = [], t_invoice_item = []\<rparr>"

text \<open>The next UUID: \<^verbatim>\<open>@default(uuid())\<close>.\<close>

definition fresh_uuid :: "string wtx" where
  "fresh_uuid = bind (ask (\<lambda>w. uuid_gen w (uuid_next w))) (\<lambda>u.
     bind (change (\<lambda>w. w\<lparr>uuid_next := Suc (uuid_next w)\<rparr>)) (\<lambda>_. ret u))"

lemma fresh_uuid_run [simp]:
  "fresh_uuid w = (Inr (uuid_gen w (uuid_next w)), w\<lparr>uuid_next := Suc (uuid_next w)\<rparr>)"
  by (simp add: fresh_uuid_def)

lemma frame_fresh_uuid [frame_intros]:
  "(\<And>w. g (w\<lparr>uuid_next := Suc (uuid_next w)\<rparr>) = g w) \<Longrightarrow> frame g fresh_uuid"
  by (simp add: frame_def)

text \<open>
  What the UUID supply is relied on for: it never repeats itself nor an id already in use.
\<close>

definition uuid_fresh :: "world \<Rightarrow> string set \<Rightarrow> bool" where
  "uuid_fresh w ids \<longleftrightarrow> inj (uuid_gen w) \<and> (\<forall>n \<ge> uuid_next w. uuid_gen w n \<notin> ids)"

lemma uuid_fresh_empty_world: "uuid_fresh (empty_world\<lparr>uuid_next := n\<rparr>) {u. length u < n}"
proof -
  have "inj (\<lambda>n. replicate n (CHR ''u''))"
    by (rule injI) (metis length_replicate)
  then show ?thesis by (simp add: uuid_fresh_def empty_world_def)
qed

lemma uuid_fresh_step:
  assumes "uuid_fresh w ids" and "uuid_gen w' = uuid_gen w" and "uuid_next w' = Suc (uuid_next w)"
  shows "uuid_fresh w' (insert (uuid_gen w (uuid_next w)) ids)"
  using assms by (auto simp: uuid_fresh_def inj_eq)

lemma uuid_fresh_now: "uuid_fresh w ids \<Longrightarrow> uuid_gen w (uuid_next w) \<notin> ids"
  by (simp add: uuid_fresh_def)

lemma uuid_fresh_later:
  assumes "uuid_fresh w ids" and "uuid_gen w' = uuid_gen w" and "uuid_next w \<le> uuid_next w'"
  shows "uuid_fresh w' ids"
  using assms by (auto simp: uuid_fresh_def)

text \<open>
  The UUID supply only moves forward. \<open>advances m\<close>: whatever \<open>m\<close> does, it hands out UUIDs of the
  same supply and never takes one back within a transaction that goes on.
\<close>

definition advances :: "'a wtx \<Rightarrow> bool" where
  "advances m \<longleftrightarrow> (\<forall>w r w'. m w = (r, w') \<longrightarrow> uuid_gen w' = uuid_gen w \<and> uuid_next w \<le> uuid_next w')"

lemma advancesD: "advances m \<Longrightarrow> m w = (r, w') \<Longrightarrow> uuid_gen w' = uuid_gen w \<and> uuid_next w \<le> uuid_next w'"
  unfolding advances_def by blast

lemma advancesI:
  "(\<And>w r w'. m w = (r, w') \<Longrightarrow> uuid_gen w' = uuid_gen w \<and> uuid_next w \<le> uuid_next w') \<Longrightarrow> advances m"
  unfolding advances_def by blast

lemma advances_pure [frame_intros]:
  "advances (ret x)" "advances (throw e)" "advances (ask f)" "advances (require b e)"
  "advances (require_some v e)"
  by (auto simp: advances_def split: option.splits if_splits)

lemma advances_change [frame_intros]:
  "(\<And>w. uuid_gen (f w) = uuid_gen w) \<Longrightarrow> (\<And>w. uuid_next w \<le> uuid_next (f w)) \<Longrightarrow> advances (change f)"
  by (auto simp: advances_def)

lemma advances_fresh_uuid [frame_intros]: "advances fresh_uuid"
  by (auto simp: advances_def)

lemma advances_bind [frame_intros]:
  assumes "advances m" and "\<And>x. advances (f x)"
  shows "advances (bind m f)"
proof (rule advancesI)
  fix w r w'
  assume run: "bind m f w = (r, w')"
  obtain a w1 where m: "m w = (a, w1)" by (cases "m w")
  note A = advancesD [OF assms(1) m]
  show "uuid_gen w' = uuid_gen w \<and> uuid_next w \<le> uuid_next w'"
  proof (cases a)
    case (Inl e)
    with run m A show ?thesis by simp
  next
    case (Inr x)
    then have "f x w1 = (r, w')" using run m by simp
    from advancesD [OF assms(2) this] A show ?thesis by simp
  qed
qed

lemma advances_catch [frame_intros]:
  assumes "advances m" and "\<And>e. advances (h e)"
  shows "advances (catch m h)"
proof (rule advancesI)
  fix w r w'
  assume run: "catch m h w = (r, w')"
  obtain a w1 where m: "m w = (a, w1)" by (cases "m w")
  note A = advancesD [OF assms(1) m]
  show "uuid_gen w' = uuid_gen w \<and> uuid_next w \<le> uuid_next w'"
  proof (cases a)
    case (Inr x)
    with run m A show ?thesis by simp
  next
    case (Inl e)
    then have "h e w1 = (r, w')" using run m by simp
    from advancesD [OF assms(2) this] A show ?thesis by simp
  qed
qed

lemma advances_transaction [frame_intros]: "advances m \<Longrightarrow> advances (transaction m)"
  unfolding advances_def by (auto simp: transaction_def split: prod.splits sum.splits)

lemma advances_if [frame_intros]:
  "(b \<Longrightarrow> advances m) \<Longrightarrow> (\<not> b \<Longrightarrow> advances n) \<Longrightarrow> advances (if b then m else n)"
  by simp

lemma advances_case_option [frame_intros]:
  "advances m \<Longrightarrow> (\<And>x. advances (f x)) \<Longrightarrow> advances (case v of None \<Rightarrow> m | Some x \<Rightarrow> f x)"
  by (cases v) simp_all

lemma advances_case_prod [frame_intros]:
  "(\<And>x y. advances (f x y)) \<Longrightarrow> advances (case p of (x, y) \<Rightarrow> f x y)"
  by (cases p) simp

lemma advances_for_each [frame_intros]: "(\<And>x. advances (f x)) \<Longrightarrow> advances (for_each xs f)"
  by (induction xs) (auto intro: frame_intros)

lemma advances_cas_write [frame_intros]:
  "(\<And>h w. uuid_gen (put h w) = uuid_gen w) \<Longrightarrow> (\<And>h w. uuid_next (put h w) = uuid_next w) \<Longrightarrow>
     advances (cas_write rows put hit same key f e1 e2)"
  unfolding cas_write_def by (intro frame_intros) simp_all

end
