(* ===== verification/Shared.thy ===== *)
theory Shared
  imports Schema
begin

text \<open>
  The two services of \<^verbatim>\<open>modules/shared\<close>: document numbering (\<^verbatim>\<open>document-sequence.service.ts\<close>) and
  the audit log (\<^verbatim>\<open>audit-log.service.ts\<close>). The locale \<open>number_source\<close> states what the users of the
  numbering rely on; it is interpreted on \<open>next_number\<close>.
\<close>

section \<open>Document numbering\<close>

definition seq_is :: "string \<Rightarrow> string \<Rightarrow> seq_row \<Rightarrow> bool" where
  "seq_is c ty r \<longleftrightarrow> sq_company r = c \<and> sq_type r = ty"

text \<open>\<^verbatim>\<open>DocumentSequenceService.nextNumber\<close>: one upsert on the key (companyId, type).\<close>

definition next_number :: "string \<Rightarrow> string \<Rightarrow> int wtx" where
  "next_number c ty =
     bind (ask t_seq) (\<lambda>t.
       case find_first (seq_is c ty) t of
         None \<Rightarrow>
           bind (change (\<lambda>w. w\<lparr>t_seq := t_seq w @ [\<lparr>sq_company = c, sq_type = ty, sq_last = 1\<rparr>]\<rparr>))
             (\<lambda>_. ret 1)
       | Some r \<Rightarrow>
           bind (change (\<lambda>w. w\<lparr>t_seq := update_rows (seq_is c ty)
                                  (\<lambda>r. r\<lparr>sq_last := sq_last r + 1\<rparr>) (t_seq w)\<rparr>))
             (\<lambda>_. ret (sq_last r + 1)))"

text \<open>The last number issued for a key, 0 before the first.\<close>

definition last_number :: "world \<Rightarrow> string \<Rightarrow> string \<Rightarrow> int" where
  "last_number w c ty = (case find_first (seq_is c ty) (t_seq w) of None \<Rightarrow> 0 | Some r \<Rightarrow> sq_last r)"

lemma next_number_run:
  "\<exists>t'. next_number c ty w = (Inr (last_number w c ty + 1), w\<lparr>t_seq := t'\<rparr>) \<and>
     last_number (w\<lparr>t_seq := t'\<rparr>) c ty = last_number w c ty + 1 \<and>
     (\<forall>c' ty'. (c', ty') \<noteq> (c, ty) \<longrightarrow>
        last_number (w\<lparr>t_seq := t'\<rparr>) c' ty' = last_number w c' ty')"
proof (cases "find_first (seq_is c ty) (t_seq w)")
  case None
  let ?t = "t_seq w @ [\<lparr>sq_company = c, sq_type = ty, sq_last = 1\<rparr>]"
  have "last_number (w\<lparr>t_seq := ?t\<rparr>) c ty = 1"
    using None by (simp add: last_number_def find_first_append seq_is_def)
  moreover have "last_number (w\<lparr>t_seq := ?t\<rparr>) c' ty' = last_number w c' ty'"
    if "(c', ty') \<noteq> (c, ty)" for c' ty'
    using that by (auto simp: last_number_def find_first_append seq_is_def split: option.splits)
  moreover have "last_number w c ty = 0" using None by (simp add: last_number_def)
  moreover have "next_number c ty w = (Inr 1, w\<lparr>t_seq := ?t\<rparr>)"
    using None by (simp add: next_number_def)
  ultimately show ?thesis by (intro exI [of _ ?t]) simp
next
  case (Some r)
  define t' where "t' = update_rows (seq_is c ty) (\<lambda>r. r\<lparr>sq_last := sq_last r + 1\<rparr>) (t_seq w)"
  have look: "find_first (seq_is c' ty') t' =
      map_option (\<lambda>r. if seq_is c ty r then r\<lparr>sq_last := sq_last r + 1\<rparr> else r)
        (find_first (seq_is c' ty') (t_seq w))" for c' ty'
    unfolding t'_def by (rule find_first_update_rows) (simp add: seq_is_def)
  have "seq_is c ty r" using find_first_SomeD [OF Some] by simp
  then have here: "last_number (w\<lparr>t_seq := t'\<rparr>) c ty = last_number w c ty + 1"
    by (simp add: last_number_def look Some)
  have "last_number (w\<lparr>t_seq := t'\<rparr>) c' ty' = last_number w c' ty'" if "(c', ty') \<noteq> (c, ty)" for c' ty'
    using that by (auto simp: last_number_def look seq_is_def split: option.splits
                        dest!: find_first_SomeD)
  with here Some show ?thesis
    by (intro exI [of _ t']) (simp add: next_number_def last_number_def t'_def)
qed

lemma frame_next_number [frame_intros]:
  "(\<And>h w. g (t_seq_update h w) = g w) \<Longrightarrow> frame g (next_number c ty)"
  unfolding next_number_def by (intro frame_intros) auto

text \<open>The contract of a numbering service, and what every client of it gets.\<close>

locale number_source =
  fixes issue :: "string \<Rightarrow> string \<Rightarrow> ('w, int) tx"
    and last_issued :: "'w \<Rightarrow> string \<Rightarrow> string \<Rightarrow> int"
  assumes issue_total: "\<exists>n w'. issue c ty w = (Inr n, w')"
    and issue_next: "issue c ty w = (Inr n, w') \<Longrightarrow> n = last_issued w c ty + 1"
    and issue_last: "issue c ty w = (Inr n, w') \<Longrightarrow>
        last_issued w' c' ty' = (if (c', ty') = (c, ty) then n else last_issued w c' ty')"
begin

text \<open>A number that exceeds every number in use is itself unused.\<close>

lemma issue_unused:
  assumes "issue c ty w = (Inr n, w')" and "\<forall>k \<in> used. k \<le> last_issued w c ty"
  shows "n \<notin> used \<and> (\<forall>k \<in> insert n used. k \<le> last_issued w' c ty)"
  using issue_next [OF assms(1)] issue_last [OF assms(1), of c ty] assms(2) by fastforce

lemma issue_increases:
  assumes "issue c ty w = (Inr n, w1)" and "issue c ty w1 = (Inr m, w2)"
  shows "n < m"
  using issue_next [OF assms(2)] issue_last [OF assms(1), of c ty] by simp

end

interpretation numbers: number_source next_number last_number
proof (unfold_locales, goal_cases)
  case (1 c ty w)
  then show ?case using next_number_run [of c ty w] by blast
next
  case (2 c ty w n w')
  then show ?case using next_number_run [of c ty w] by auto
next
  case (3 c ty w n w' c' ty')
  then show ?case using next_number_run [of c ty w] by auto
qed

text \<open>Numbers issued by a run of calls for one key.\<close>

primrec next_numbers :: "nat \<Rightarrow> string \<Rightarrow> string \<Rightarrow> (int list) wtx" where
  "next_numbers 0 c ty = ret []"
| "next_numbers (Suc k) c ty =
     bind (next_number c ty) (\<lambda>n. bind (next_numbers k c ty) (\<lambda>ns. ret (n # ns)))"

lemma next_numbers_above:
  "next_numbers k c ty w = (Inr ns, w') \<Longrightarrow>
     sorted_wrt (<) ns \<and> length ns = k \<and> (\<forall>n \<in> set ns. last_number w c ty < n)"
proof (induction k arbitrary: w ns)
  case 0
  then show ?case by simp
next
  case (Suc k)
  from Suc.prems obtain n w1 ms where
    first: "next_number c ty w = (Inr n, w1)" and
    rest: "next_numbers k c ty w1 = (Inr ms, w')" and ns: "ns = n # ms"
    by (auto simp: bind_Inr_iff)
  have n: "n = last_number w c ty + 1" using first by (rule numbers.issue_next)
  have "last_number w1 c ty = n" using numbers.issue_last [OF first, of c ty] by simp
  with Suc.IH [OF rest] n show ?case by (auto simp: ns)
qed

lemma next_numbers_total: "\<exists>ns w'. next_numbers k c ty w = (Inr ns, w')"
proof (induction k arbitrary: w)
  case 0
  then show ?case by simp
next
  case (Suc k)
  obtain n w1 where "next_number c ty w = (Inr n, w1)" using numbers.issue_total by blast
  moreover obtain ns w' where "next_numbers k c ty w1 = (Inr ns, w')" using Suc by blast
  ultimately show ?case by simp
qed

section \<open>Audit log\<close>

record audit_entry =
  au_company :: "string option"
  au_user :: string
  au_entity :: string
  au_entityId :: string
  au_action :: string
  au_before :: "json option"
  au_after :: "json option"

text \<open>\<^verbatim>\<open>AuditLogService.log\<close>: one insert; the before and after images are optional JSON.\<close>

definition audit_log :: "audit_entry \<Rightarrow> unit wtx" where
  "audit_log e = change (\<lambda>w. w\<lparr>t_audit := t_audit w @
     [\<lparr>al_company = au_company e, al_user = au_user e, al_entity = au_entity e,
       al_entityId = au_entityId e, al_action = au_action e,
       al_old = au_before e, al_new = au_after e\<rparr>]\<rparr>)"

lemma audit_log_run [simp]:
  "audit_log e w = (Inr (), w\<lparr>t_audit := t_audit w @
     [\<lparr>al_company = au_company e, al_user = au_user e, al_entity = au_entity e,
       al_entityId = au_entityId e, al_action = au_action e,
       al_old = au_before e, al_new = au_after e\<rparr>]\<rparr>)"
  by (simp add: audit_log_def)

lemma frame_audit_log [frame_intros]:
  "(\<And>h w. g (t_audit_update h w) = g w) \<Longrightarrow> frame g (audit_log e)"
  unfolding audit_log_def by (intro frame_intros) auto

lemma advances_shared [frame_intros]: "advances (audit_log e)" "advances (next_number c ty)"
  unfolding audit_log_def next_number_def by (intro frame_intros; simp)+

text \<open>
  The document numbering never gives a number twice. \<open>k\<close> requests for one company and
  document type always succeed, and return \<open>k\<close> strictly increasing numbers, all above every number
  issued for that key before.
\<close>

theorem document_numbers_strictly_increase:
  "\<exists>ns w'. next_numbers k c ty w = (Inr ns, w') \<and> sorted_wrt (<) (last_number w c ty # ns) \<and> length ns = k"
proof -
  obtain ns w' where run: "next_numbers k c ty w = (Inr ns, w')" using next_numbers_total by blast
  with next_numbers_above [OF run] show ?thesis by auto
qed

end
