(* ===== verification/EventBus.thy ===== *)
theory EventBus
  imports Shared "HOL-Library.Multiset"
begin

text \<open>
  The in-process event bus, \<^verbatim>\<open>common/events/in-memory-event-bus.ts\<close>: subscriptions per event name,
  delivery in ascending priority with ties in registration order, synchronously and inside the
  publisher's transaction, errors propagating. The locale \<open>delivery\<close> is what the publishing services
  rely on; it is interpreted on \<open>publish\<close>.
\<close>

section \<open>Subscriptions\<close>

text \<open>
  \<^verbatim>\<open>StoredHandler\<close>: a handler instance (its reference identity \<open>hd_ref\<close> and its \<^verbatim>\<open>handle\<close>) with the
  priority of its subscription.
\<close>

record ('s, 'e) stored_handler =
  hd_ref :: nat
  hd_priority :: int
  hd_handle :: "'e \<Rightarrow> ('s, unit) tx"

type_synonym ('s, 'e) bus = "string \<rightharpoonup> ('s, 'e) stored_handler list"

definition DEFAULT_EVENT_HANDLER_PRIORITY :: int where
  "DEFAULT_EVENT_HANDLER_PRIORITY = 100"

definition subscribed :: "('s, 'e) bus \<Rightarrow> string \<Rightarrow> ('s, 'e) stored_handler list" where
  "subscribed b name = (case b name of None \<Rightarrow> [] | Some es \<Rightarrow> es)"

text \<open>\<^verbatim>\<open>subscribe\<close>: the same instance twice for one event is a no-op.\<close>

definition subscribe ::
  "string \<Rightarrow> nat \<Rightarrow> ('e \<Rightarrow> ('s, unit) tx) \<Rightarrow> int option \<Rightarrow> ('s, 'e) bus \<Rightarrow> ('s, 'e) bus" where
  "subscribe name ref handle prio b =
     (let existing = subscribed b name in
      if (\<exists>e \<in> set existing. hd_ref e = ref) then b
      else b(name \<mapsto> existing @
        [\<lparr>hd_ref = ref,
          hd_priority = (case prio of None \<Rightarrow> DEFAULT_EVENT_HANDLER_PRIORITY | Some p \<Rightarrow> p),
          hd_handle = handle\<rparr>]))"

section \<open>Delivery order\<close>

text \<open>
  The comparator of \<^verbatim>\<open>publish\<close>: by priority, then by registration index. As a type of its own so that
  the library's sorting applies to it.
\<close>

datatype slot = Slot (slot_priority: int) (slot_index: nat)

instantiation slot :: linorder
begin

definition less_eq_slot :: "slot \<Rightarrow> slot \<Rightarrow> bool" where
  "less_eq_slot a b \<longleftrightarrow> slot_priority a < slot_priority b \<or>
     (slot_priority a = slot_priority b \<and> slot_index a \<le> slot_index b)"

definition less_slot :: "slot \<Rightarrow> slot \<Rightarrow> bool" where
  "less_slot a b \<longleftrightarrow> slot_priority a < slot_priority b \<or>
     (slot_priority a = slot_priority b \<and> slot_index a < slot_index b)"

instance
  by standard (auto simp: less_eq_slot_def less_slot_def slot.expand)

end

definition ordered_handlers ::
  "('s, 'e) bus \<Rightarrow> string \<Rightarrow> ('s, 'e) stored_handler list" where
  "ordered_handlers b name =
     (let stored = subscribed b name in
      map fst (sort_key (\<lambda>(e, i). Slot (hd_priority e) i) (zip stored [0..<length stored])))"

definition publish :: "('e \<Rightarrow> string) \<Rightarrow> ('s, 'e) bus \<Rightarrow> 'e \<Rightarrow> ('s, unit) tx" where
  "publish name_of b ev = for_each (ordered_handlers b (name_of ev)) (\<lambda>e. hd_handle e ev)"

lemma sorted_slots_index:
  assumes "sorted (map (\<lambda>(e, i). Slot (hd_priority e) i) ps)"
  shows "sorted (map snd (filter (\<lambda>(e, i). hd_priority e = p) ps))"
  using assms
proof (induction ps)
  case Nil
  then show ?case by simp
next
  case (Cons a ps)
  have IH: "sorted (map snd (filter (\<lambda>(e, i). hd_priority e = p) ps))"
    using Cons by simp
  have "snd a \<le> snd x" if "x \<in> set ps" "hd_priority (fst x) = p" "hd_priority (fst a) = p" for x
  proof -
    have "Slot (hd_priority (fst a)) (snd a) \<le> Slot (hd_priority (fst x)) (snd x)"
      using Cons.prems that(1) by (auto simp: case_prod_unfold)
    with that(2,3) show ?thesis by (simp add: less_eq_slot_def)
  qed
  with IH show ?case by (auto simp: case_prod_unfold)
qed

lemma sorted_slots_priority:
  assumes "sorted (map (\<lambda>(e, i). Slot (hd_priority e) i) ps)"
  shows "sorted (map hd_priority (map fst ps))"
  using assms
proof (induction ps)
  case Nil
  then show ?case by simp
next
  case (Cons a ps)
  have "hd_priority (fst a) \<le> hd_priority (fst x)" if "x \<in> set ps" for x
  proof -
    have "Slot (hd_priority (fst a)) (snd a) \<le> Slot (hd_priority (fst x)) (snd x)"
      using Cons.prems that by (auto simp: case_prod_unfold)
    then show ?thesis by (auto simp: less_eq_slot_def)
  qed
  with Cons show ?case by auto
qed

lemma zip_index_unique:
  "(e, i) \<in> set (zip xs [0..<length xs]) \<Longrightarrow> e = xs ! i \<and> i < length xs"
  by (auto simp: in_set_zip)

lemma map_fst_by_index:
  assumes "\<And>e i. (e, i) \<in> set ps \<Longrightarrow> e = xs ! i"
  shows "map fst ps = map (\<lambda>i. xs ! i) (map snd ps)"
  using assms by (induction ps) auto

text \<open>Delivery order is the stable sort of the subscriptions by priority.\<close>

lemma ordered_handlers_stable_sort:
  "ordered_handlers b name = sort_key hd_priority (subscribed b name)"
proof -
  define xs where "xs = subscribed b name"
  define zs where "zs = zip xs [0..<length xs]"
  define ps where "ps = sort_key (\<lambda>(e, i). Slot (hd_priority e) i) zs"
  have ms: "mset ps = mset zs" by (simp add: ps_def)
  then have set_ps: "set ps = set zs" by (rule mset_eq_setD)
  have srt: "sorted (map (\<lambda>(e, i). Slot (hd_priority e) i) ps)" by (simp add: ps_def)
  have idx: "e = xs ! i" if "(e, i) \<in> set ps" for e i
  proof -
    have "(e, i) \<in> set (zip xs [0..<length xs])" using that by (simp only: set_ps zs_def)
    then show ?thesis by (rule zip_index_unique [THEN conjunct1])
  qed
  have fst_zs: "map fst zs = xs" by (simp add: zs_def)
  have "sort_key hd_priority xs = map fst ps"
  proof (rule properties_for_sort_key)
    show "mset (map fst ps) = mset xs"
      unfolding fst_zs [symmetric] mset_map ms by (rule refl)
  next
    fix k
    let ?q = "\<lambda>(e, i::nat). hd_priority e = hd_priority k"
    have ps_sorted: "sorted (map snd (filter ?q ps))" by (rule sorted_slots_index [OF srt])
    have zs_sorted: "sorted (map snd (filter ?q zs))"
    proof -
      have "sorted (map snd zs)" by (simp add: zs_def)
      then show ?thesis by (rule sorted_filter)
    qed
    have "mset (map snd (filter ?q ps)) = mset (map snd (filter ?q zs))"
      unfolding mset_map mset_filter ms by (rule refl)
    then have "sort (map snd (filter ?q zs)) = map snd (filter ?q ps)"
      using ps_sorted by (rule properties_for_sort)
    then have "map snd (filter ?q ps) = map snd (filter ?q zs)"
      unfolding sorted_sort_id [OF zs_sorted] by (rule sym)
    moreover have "map fst (filter ?q ps) = map (\<lambda>i. xs ! i) (map snd (filter ?q ps))"
      by (rule map_fst_by_index) (use idx in auto)
    moreover have "map fst (filter ?q zs) = map (\<lambda>i. xs ! i) (map snd (filter ?q zs))"
      by (rule map_fst_by_index) (use idx set_ps in auto)
    ultimately have "map fst (filter ?q ps) = map fst (filter ?q zs)" by simp
    then show "filter (\<lambda>x. hd_priority k = hd_priority x) (map fst ps) =
        filter (\<lambda>x. hd_priority k = hd_priority x) xs"
      unfolding fst_zs [symmetric] filter_map
      by (simp add: comp_def case_prod_unfold eq_commute)
  next
    show "sorted (map hd_priority (map fst ps))"
      using srt by (rule sorted_slots_priority)
  qed
  then show ?thesis by (simp add: ordered_handlers_def xs_def zs_def ps_def Let_def)
qed

section \<open>The contract of a bus\<close>

locale delivery =
  fixes handlers :: "'b \<Rightarrow> 'e \<Rightarrow> ('e \<Rightarrow> ('s, unit) tx) list"
    and pub :: "'b \<Rightarrow> 'e \<Rightarrow> ('s, unit) tx"
  assumes pub_runs: "pub b ev = for_each (handlers b ev) (\<lambda>h. h ev)"
begin

lemma for_each_set_keeps:
  "(\<And>h. h \<in> set hs \<Longrightarrow> keeps_ok I (h ev)) \<Longrightarrow> keeps_ok I (for_each hs (\<lambda>h. h ev))"
  by (induction hs) (auto intro: inv_intros)

lemma for_each_set_frame:
  "(\<And>h. h \<in> set hs \<Longrightarrow> frame g (h ev)) \<Longrightarrow> frame g (for_each hs (\<lambda>h. h ev))"
  by (induction hs) (auto intro: frame_intros)

text \<open>An invariant every handler keeps is kept by publishing; so is a part none of them touches.\<close>

lemma pub_keeps: "(\<And>h. h \<in> set (handlers b ev) \<Longrightarrow> keeps_ok I (h ev)) \<Longrightarrow> keeps_ok I (pub b ev)"
  by (simp add: pub_runs for_each_set_keeps)

lemma pub_frame: "(\<And>h. h \<in> set (handlers b ev) \<Longrightarrow> frame g (h ev)) \<Longrightarrow> frame g (pub b ev)"
  by (simp add: pub_runs for_each_set_frame)

text \<open>The first handler that throws decides: later ones do not run and the error reaches the caller.\<close>

lemma pub_error:
  assumes "handlers b ev = hs1 @ h # hs2"
    and "for_each hs1 (\<lambda>h. h ev) w = (Inr (), w1)" and "h ev w1 = (Inl e, w2)"
  shows "pub b ev w = (Inl e, w2)"
proof -
  have "for_each (hs1 @ h # hs2) (\<lambda>h. h ev) w = (Inl e, w2)"
    using assms(2)
  proof (induction hs1 arbitrary: w)
    case Nil
    with assms(3) show ?case by simp
  next
    case (Cons g hs1)
    then obtain w3 where "g ev w = (Inr (), w3)" and "for_each hs1 (\<lambda>h. h ev) w3 = (Inr (), w1)"
      by (auto simp: bind_Inr_iff)
    with Cons.IH show ?case by simp
  qed
  then show ?thesis by (simp add: pub_runs assms(1))
qed

end

interpretation event_bus: delivery
    "\<lambda>b ev. map hd_handle (ordered_handlers b (name_of ev))" "publish name_of"
  for name_of :: "'e \<Rightarrow> string"
proof (unfold_locales, goal_cases)
  case (1 b ev)
  show ?case by (simp add: publish_def for_each_map)
qed

lemma set_ordered_handlers [simp]: "set (ordered_handlers b name) = set (subscribed b name)"
  by (simp add: ordered_handlers_stable_sort)

lemma publish_unsubscribed: "b (name_of ev) = None \<Longrightarrow> publish name_of b ev = ret ()"
  by (simp add: publish_def ordered_handlers_def subscribed_def)

text \<open>
  The bus delivers in ascending priority, equal priorities in registration order. The
  handlers run for an event are exactly its subscriptions, sorted by priority with a stable sort: the
  priorities are non-decreasing, and among equal priorities the registration order is unchanged.
\<close>

theorem delivery_order_by_priority_then_registration:
  "mset (ordered_handlers b name) = mset (subscribed b name) \<and>
   sorted (map hd_priority (ordered_handlers b name)) \<and>
   filter (\<lambda>e. hd_priority e = p) (ordered_handlers b name) =
     filter (\<lambda>e. hd_priority e = p) (subscribed b name)"
  by (simp add: ordered_handlers_stable_sort sort_key_stable)

text \<open>
  Subscribing is idempotent per handler instance. After an instance has been subscribed
  to an event, subscribing it again, with any priority, changes nothing; instances stay pairwise
  distinct per event, so no publish runs one of them twice.
\<close>

theorem subscribe_idempotent:
  assumes "\<And>n. distinct (map hd_ref (subscribed b n))"
  shows "subscribe name ref h2 p2 (subscribe name ref h p b) = subscribe name ref h p b \<and>
     distinct (map hd_ref (ordered_handlers (subscribe name ref h p b) n))"
proof
  show "subscribe name ref h2 p2 (subscribe name ref h p b) = subscribe name ref h p b"
    by (auto simp: subscribe_def subscribed_def Let_def)
  have "distinct (map hd_ref (subscribed (subscribe name ref h p b) n))"
    using assms [of n] by (auto simp: subscribe_def subscribed_def Let_def)
  moreover have "mset (map hd_ref (ordered_handlers (subscribe name ref h p b) n)) =
      mset (map hd_ref (subscribed (subscribe name ref h p b) n))"
    by (simp add: ordered_handlers_stable_sort)
  ultimately show "distinct (map hd_ref (ordered_handlers (subscribe name ref h p b) n))"
    by (metis mset_eq_imp_distinct_iff)
qed

theorem subscribe_idempotent_witness:
  "subscribe ''sale.completed'' 7 (\<lambda>_. ret ()) (Some 20)
       (subscribe ''sale.completed'' 7 (\<lambda>_. ret ()) (Some 10) (\<lambda>_. None :: (unit, unit) stored_handler list option)) =
     subscribe ''sale.completed'' 7 (\<lambda>_. ret ()) (Some 10) (\<lambda>_. None) \<and>
   distinct (map hd_ref (ordered_handlers (subscribe ''sale.completed'' 7 (\<lambda>_. ret ()) (Some 10)
       (\<lambda>_. None :: (unit, unit) stored_handler list option)) ''sale.completed''))"
  by (rule subscribe_idempotent) (simp add: subscribed_def)

end
