(* ===== verification/Events.thy ===== *)
theory Events
  imports EventBus
begin

text \<open>
  The domain events of the inventory module (\<^verbatim>\<open>inventory/events/*.event.ts\<close>) and the one of the
  general ledger (\<^verbatim>\<open>finance/events/journal-posted.event.ts\<close>): their payloads, the
  event with its occurrence id, its bus name, and the subscriptions as the bus stores them. A handler
  of the transaction's state never touches the idempotency records nor the environment; \<open>calm_bus\<close>
  states that of a whole bus.
\<close>

record adjusted_payload =
  ap_product :: string
  ap_company :: string
  ap_warehouse :: string
  ap_quantity :: int
  ap_before :: int
  ap_after :: int
  ap_reason :: string
  ap_by :: string
  ap_refType :: "string option"
  ap_refId :: "string option"
  ap_comment :: "string option"
  ap_unitCost :: "decimal option"
  ap_totalCost :: "decimal option"
  ap_costBasis :: "string option"

record counted_payload =
  cp_product :: string
  cp_company :: string
  cp_warehouse :: string
  cp_expected :: int
  cp_actual :: int
  cp_difference :: int
  cp_number :: string
  cp_by :: string

record transferred_payload =
  tp_product :: string
  tp_company :: string
  tp_from :: string
  tp_to :: string
  tp_quantity :: int
  tp_by :: string
  tp_comment :: "string option"

text \<open>\<^verbatim>\<open>JournalPostedPayload\<close> (\<^verbatim>\<open>finance/events/journal-posted.event.ts\<close>); the line amounts are the stored ones.\<close>

record posted_payload =
  jp_entry :: string
  jp_company :: string
  jp_period :: string
  jp_number :: int
  jp_date :: int
  jp_description :: "string option"
  jp_totalDebit :: decimal
  jp_totalCredit :: decimal
  jp_refType :: "string option"
  jp_refId :: "string option"
  jp_postedBy :: string
  jp_postedAt :: int
  jp_lines :: "line_row list"

text \<open>
  The sales events (\<^verbatim>\<open>sales/interfaces/sale-event.interface.ts\<close>) and the one of purchasing. Their amounts
  are decimals: the publisher prints a \<^verbatim>\<open>Decimal\<close> with \<^verbatim>\<open>toString\<close> and the handlers read it back. The
  \<^verbatim>\<open>fifoCost\<close> of a partially refunded item, whose reading the inventory handler guards, is \<open>None\<close> for a
  string that is no finite decimal.
\<close>

record sale_item_event =
  se_product :: string
  se_quantity :: int
  se_unitPrice :: decimal
  se_costPrice :: decimal
  se_discount :: decimal
  se_subtotal :: decimal
  se_total :: decimal
  se_margin :: decimal
  se_saleItem :: "string option"

record payment_event =
  pe_method :: payment_method
  pe_amount :: decimal

record sale_payload =
  sp_sale :: string
  sp_company :: string
  sp_warehouse :: string
  sp_cashier :: string
  sp_customer :: "string option"
  sp_number :: string
  sp_subtotal :: decimal
  sp_discount :: decimal
  sp_total :: decimal
  sp_paid :: decimal
  sp_change :: decimal
  sp_currency :: string
  sp_items :: "sale_item_event list"
  sp_payments :: "payment_event list"

record refunded_payload =
  sr_sale :: string
  sr_company :: string
  sr_warehouse :: string
  sr_cashier :: string
  sr_number :: string
  sr_total :: decimal
  sr_currency :: string
  sr_items :: "sale_item_event list"
  sr_payments :: "payment_event list"

record partial_item_event =
  xi_product :: string
  xi_saleItem :: string
  xi_quantity :: int
  xi_unitPrice :: decimal
  xi_total :: decimal
  xi_fifoCost :: "decimal option"

record partial_payload =
  px_sale :: string
  px_company :: string
  px_warehouse :: string
  px_refund :: string
  px_refundNumber :: string
  px_number :: string
  px_total :: decimal
  px_currency :: string
  px_by :: string
  px_items :: "partial_item_event list"

record received_item =
  ui_product :: string
  ui_quantity :: int
  ui_unitCost :: decimal
  ui_batch :: "string option"
  ui_expiry :: "int option"

record received_payload =
  pu_order :: string
  pu_company :: string
  pu_warehouse :: string
  pu_by :: string
  pu_receipt :: string
  pu_items :: "received_item list"

text \<open>
  The events of purchase orders and invoices (\<^verbatim>\<open>purchasing/events/*.event.ts\<close>). The created and the approved
  order carry the same terms; \<^verbatim>\<open>changedBy\<close> of a status change is absent when a receipt caused it.
\<close>

record order_item_event =
  oe_product :: string
  oe_quantity :: int
  oe_unitCost :: decimal
  oe_total :: decimal

record order_payload =
  op_order :: string
  op_company :: string
  op_supplier :: string
  op_number :: string
  op_date :: int
  op_expected :: "int option"
  op_subtotal :: decimal
  op_discount :: decimal
  op_tax :: decimal
  op_total :: decimal
  op_items :: "order_item_event list"

record status_payload =
  os_order :: string
  os_company :: string
  os_supplier :: string
  os_number :: string
  os_previous :: order_status
  os_new :: order_status
  os_by :: "string option"
  os_version :: int

record invoice_payload =
  ip_invoice :: string
  ip_company :: string
  ip_order :: string
  ip_supplier :: string
  ip_number :: string
  ip_date :: int
  ip_subtotal :: decimal
  ip_discount :: decimal
  ip_tax :: decimal
  ip_total :: decimal
  ip_items :: "order_item_event list"

text \<open>An event: its \<^verbatim>\<open>eventId\<close> and its payload; the class fixes the event name.\<close>

datatype domain_event =
    InventoryAdjusted string adjusted_payload
  | InventoryCounted string counted_payload
  | InventoryTransferred string transferred_payload
  | JournalPosted string posted_payload
  | SaleCompleted string sale_payload
  | SaleRefunded string refunded_payload
  | SalePartiallyRefunded string partial_payload
  | PurchaseReceived string received_payload
  | PurchaseOrderCreated string order_payload string
  | PurchaseOrderApproved string order_payload string int
  | PurchaseOrderStatusChanged string status_payload
  | PurchaseInvoicePosted string invoice_payload

primrec event_name :: "domain_event \<Rightarrow> string" where
  "event_name (InventoryAdjusted i p) = ''inventory.adjusted''"
| "event_name (InventoryCounted i p) = ''inventory.counted''"
| "event_name (InventoryTransferred i p) = ''inventory.transferred''"
| "event_name (JournalPosted i p) = ''journal.posted''"
| "event_name (SaleCompleted i p) = ''sale.completed''"
| "event_name (SaleRefunded i p) = ''sale.refunded''"
| "event_name (SalePartiallyRefunded i p) = ''sale.partially_refunded''"
| "event_name (PurchaseReceived i p) = ''purchase.received''"
| "event_name (PurchaseOrderCreated i p currency) = ''purchase.order.created''"
| "event_name (PurchaseOrderApproved i p approvedBy approvedAt) = ''purchase.order.approved''"
| "event_name (PurchaseOrderStatusChanged i p) = ''purchase.order.status.changed''"
| "event_name (PurchaseInvoicePosted i p) = ''purchase.invoice.posted''"

type_synonym event_bus = "(world, domain_event) bus"

definition publish_event :: "event_bus \<Rightarrow> domain_event \<Rightarrow> unit wtx" where
  "publish_event b ev = publish event_name b ev"

text \<open>What a whole bus leaves alone, and the invariants it keeps.\<close>

definition bus_frame :: "(world \<Rightarrow> 'b) \<Rightarrow> event_bus \<Rightarrow> bool" where
  "bus_frame g b \<longleftrightarrow> (\<forall>n ev. \<forall>h \<in> set (subscribed b n). frame g (hd_handle h ev))"

definition bus_keeps :: "(world \<Rightarrow> bool) \<Rightarrow> event_bus \<Rightarrow> bool" where
  "bus_keeps I b \<longleftrightarrow> (\<forall>n ev. \<forall>h \<in> set (subscribed b n). keeps_ok I (hd_handle h ev))"

lemma frame_publish_event [frame_intros]: "bus_frame g b \<Longrightarrow> frame g (publish_event b ev)"
  unfolding publish_event_def by (rule event_bus.pub_frame) (auto simp: bus_frame_def)

lemma keeps_publish_event [inv_intros]: "bus_keeps I b \<Longrightarrow> keeps_ok I (publish_event b ev)"
  unfolding publish_event_def by (rule event_bus.pub_keeps) (auto simp: bus_keeps_def)

lemma bus_frame_empty [simp]: "bus_frame g (\<lambda>_. None)"
  by (simp add: bus_frame_def subscribed_def)

lemma bus_frame_subscribe:
  "bus_frame g b \<Longrightarrow> (\<And>ev. frame g (h ev)) \<Longrightarrow> bus_frame g (subscribe n ref h prio b)"
  unfolding bus_frame_def subscribe_def subscribed_def Let_def by (auto split: if_splits)

lemma publish_event_empty [simp]: "publish_event (\<lambda>_. None) ev w = (Inr (), w)"
  by (simp add: publish_event_def publish_unsubscribed)

end
