(* ===== verification/Idempotency.thy ===== *)
theory Idempotency
  imports Shared "HOL-Library.Multiset" "HOL-Library.List_Lexorder" "HOL-Library.Char_ord"
begin

text \<open>
  \<^verbatim>\<open>infrastructure/idempotency\<close>: the canonical serialisation of a request (\<^verbatim>\<open>stableStringify\<close>,
  \<^verbatim>\<open>hashRequest\<close>), the reservation record (\<^verbatim>\<open>reserve\<close>, \<^verbatim>\<open>complete\<close>, \<^verbatim>\<open>replay\<close>, \<^verbatim>\<open>execute\<close>,
  \<^verbatim>\<open>cleanupExpired\<close>) and the wrapper every keyed mutation goes through
  (\<^verbatim>\<open>runWithIdempotency\<close>). The locale \<open>replaying_runner\<close> is the contract the keyed services rely on,
  interpreted on \<open>run_with_idempotency\<close>.
\<close>

section \<open>Canonical serialisation\<close>

text \<open>\<^verbatim>\<open>JSON.stringify\<close> on a string: quotes, with the escapes of the JSON grammar.\<close>

definition hex_digit :: "nat \<Rightarrow> char" where
  "hex_digit n = (if n < 10 then char_of (48 + n) else char_of (87 + n))"

definition json_escape :: "char \<Rightarrow> string" where
  "json_escape c =
     (let n = of_char c :: nat in
      if n = 34 then [char_of (92::nat), char_of (34::nat)]
      else if n = 92 then [char_of (92::nat), char_of (92::nat)]
      else if n = 8 then [char_of (92::nat), CHR ''b'']
      else if n = 12 then [char_of (92::nat), CHR ''f'']
      else if n = 10 then [char_of (92::nat), CHR ''n'']
      else if n = 13 then [char_of (92::nat), CHR ''r'']
      else if n = 9 then [char_of (92::nat), CHR ''t'']
      else if n < 32 then
        [char_of (92::nat), CHR ''u'', CHR ''0'', CHR ''0'', hex_digit (n div 16), hex_digit (n mod 16)]
      else [c])"

definition json_quote :: "string \<Rightarrow> string" where
  "json_quote s = [char_of (34::nat)] @ concat (map json_escape s) @ [char_of (34::nat)]"

primrec join_comma :: "string list \<Rightarrow> string" where
  "join_comma [] = ''''"
| "join_comma (x # xs) = (if xs = [] then x else x @ '','' @ join_comma xs)"

text \<open>
  \<^verbatim>\<open>stableStringify\<close>. A \<^verbatim>\<open>Date\<close> is an object with no enumerable key of its own, so the object branch
  gives \<open>{}\<close> for it; a \<^verbatim>\<open>Decimal\<close> gives its internal fields (\<open>dk\<close>); numbers go through
  ECMAScript's number formatting (\<open>ns\<close>).
\<close>

fun stable_stringify :: "(rat \<Rightarrow> string) \<Rightarrow> (decimal \<Rightarrow> string) \<Rightarrow> json \<Rightarrow> string" where
  "stable_stringify ns dk JNull = ''null''"
| "stable_stringify ns dk (JBool b) = (if b then ''true'' else ''false'')"
| "stable_stringify ns dk (JNum x) = ns x"
| "stable_stringify ns dk (JStr s) = json_quote s"
| "stable_stringify ns dk (JDate d) = ''{}''"
| "stable_stringify ns dk (JDec d) = dk d"
| "stable_stringify ns dk (JArr js) = ''['' @ join_comma (map (stable_stringify ns dk) js) @ '']''"
| "stable_stringify ns dk (JObj kvs) =
     ''{'' @ join_comma (map (\<lambda>(k, s). json_quote k @ '':'' @ s)
       (sort_key fst (map (\<lambda>(k, v). (k, stable_stringify ns dk v)) kvs))) @ ''}''"

definition hash_request :: "world \<Rightarrow> json \<Rightarrow> string" where
  "hash_request w body = sha256 w (stable_stringify (num_str w) (dec_keys w) body)"

text \<open>
  Two JSON values that differ only in the order of the keys of their objects, at any depth.
\<close>

inductive same_json :: "json \<Rightarrow> json \<Rightarrow> bool" where
  same_leaf: "same_json j j"
| same_arr: "list_all2 same_json js js' \<Longrightarrow> same_json (JArr js) (JArr js')"
| same_obj: "list_all2 (rel_prod (=) same_json) kvs kvs' \<Longrightarrow> mset kvs' = mset kvs'' \<Longrightarrow>
     distinct (map fst kvs'') \<Longrightarrow> same_json (JObj kvs) (JObj kvs'')"

inductive_cases same_json_objE: "same_json (JObj kvs) j"
inductive_simps same_json_num: "same_json (JNum x) j"

lemma sort_key_mset_unique:
  assumes "mset xs = mset ys" and "distinct (map k ys)"
  shows "sort_key k xs = sort_key k ys"
proof (rule properties_for_sort_key)
  show "mset (sort_key k ys) = mset xs" using assms(1) by simp
next
  fix x
  assume "x \<in> set (sort_key k ys)"
  then have x: "x \<in> set ys" by simp
  have "distinct (map k xs)"
    using assms by (metis mset_eq_imp_distinct_iff mset_map)
  moreover have "x \<in> set xs" using x assms(1) by (metis mset_eq_setD)
  ultimately have "filter (\<lambda>y. k y = k x) xs = [x]" by (rule filter_key)
  moreover have "filter (\<lambda>y. k y = k x) ys = [x]" using assms(2) x by (rule filter_key)
  ultimately show "filter (\<lambda>y. k x = k y) (sort_key k ys) = filter (\<lambda>y. k x = k y) xs"
    by (simp add: eq_commute [of "k x"] sort_key_stable)
next
  show "sorted (map k (sort_key k ys))" by simp
qed

lemma list_all2_map_eq: "list_all2 (\<lambda>x y. R x y \<and> f x = f y) xs ys \<Longrightarrow> map f xs = map f ys"
  by (induction rule: list_all2_induct) simp_all

lemma same_json_stringify: "same_json j j' \<Longrightarrow> stable_stringify ns dk j = stable_stringify ns dk j'"
proof (induction rule: same_json.induct)
  case (same_leaf j)
  show ?case by simp
next
  case (same_arr js js')
  then have "map (stable_stringify ns dk) js = map (stable_stringify ns dk) js'"
    by (rule list_all2_map_eq)
  then show ?case by (simp only: stable_stringify.simps)
next
  case (same_obj kvs kvs' kvs'')
  define g :: "string \<times> json \<Rightarrow> string \<times> string"
    where "g = (\<lambda>(k, v). (k, stable_stringify ns dk v))"
  have gk: "fst (g p) = fst p" for p :: "string \<times> json" by (cases p) (simp add: g_def)
  have "list_all2 (\<lambda>x y. True \<and> g x = g y) kvs kvs'"
    using same_obj(1) by (rule list_all2_mono) (auto simp: g_def elim!: rel_prod.cases)
  then have "map g kvs = map g kvs'" by (rule list_all2_map_eq)
  moreover have "mset (map g kvs') = mset (map g kvs'')" using same_obj(2) by simp
  moreover have "distinct (map fst (map g kvs''))" using same_obj(3) by (simp add: gk comp_def)
  ultimately have "sort_key fst (map g kvs) = sort_key fst (map g kvs'')"
    using sort_key_mset_unique by metis
  then show ?case by (simp add: g_def)
qed

section \<open>Reservations\<close>

definition IDEMPOTENCY_TTL_MS :: int where
  "IDEMPOTENCY_TTL_MS = 24 * 60 * 60 * 1000"

definition IDEMPOTENCY_PENDING_STATUS :: int where
  "IDEMPOTENCY_PENDING_STATUS = 0"

definition IDEMPOTENCY_PENDING_BODY :: json where
  "IDEMPOTENCY_PENDING_BODY = JStr ''__stockflow_pending__''"

record reserve_params =
  rp_company :: string
  rp_key :: string
  rp_endpoint :: string
  rp_hash :: string
  rp_expires :: "int option"
  rp_now :: "int option"

datatype reserve_result =
    Created string
  | Pending
  | Replayed int json

definition key_is :: "string \<Rightarrow> string \<Rightarrow> idem_row \<Rightarrow> bool" where
  "key_is c k r \<longleftrightarrow> ir_company r = c \<and> ir_key r = k"

definition expires_at_for :: "int option \<Rightarrow> int \<Rightarrow> int" where
  "expires_at_for override n = (case override of None \<Rightarrow> n + IDEMPOTENCY_TTL_MS | Some e \<Rightarrow> e)"

text \<open>\<^verbatim>\<open>normalizeBody\<close>: the stored \<^verbatim>\<open>DbNull\<close> comes back as \<^verbatim>\<open>null\<close>.\<close>

definition normalize_body :: "json option \<Rightarrow> json" where
  "normalize_body b = (case b of None \<Rightarrow> JNull | Some j \<Rightarrow> j)"

text \<open>\<^verbatim>\<open>createMany ... skipDuplicates\<close> on the unique key (companyId, idempotencyKey): the count.\<close>

definition create_reservation :: "reserve_params \<Rightarrow> int \<Rightarrow> nat wtx" where
  "create_reservation p expires =
     bind (ask t_idem) (\<lambda>t.
       if find_first (key_is (rp_company p) (rp_key p)) t \<noteq> None then ret 0
       else bind fresh_uuid (\<lambda>u.
         bind (change (\<lambda>w. w\<lparr>t_idem := t_idem w @
           [\<lparr>ir_id = u, ir_company = rp_company p, ir_key = rp_key p,
             ir_endpoint = rp_endpoint p, ir_hash = rp_hash p,
             ir_status = IDEMPOTENCY_PENDING_STATUS, ir_body = Some IDEMPOTENCY_PENDING_BODY,
             ir_expires = expires\<rparr>]\<rparr>)) (\<lambda>_. ret 1)))"

text \<open>
  \<^verbatim>\<open>reserve\<close>: it calls itself after a vanished or an expired record, so the model has a bound on the
  number of calls; \<open>reserve_fuel\<close> calls are enough (\<open>reserve_enough\<close> below).
\<close>

fun reserve :: "nat \<Rightarrow> reserve_params \<Rightarrow> reserve_result wtx" where
  "reserve 0 p = throw OutOfFuel"
| "reserve (Suc n) p =
     bind (ask now) (\<lambda>clock.
     let nw = (case rp_now p of None \<Rightarrow> clock | Some t \<Rightarrow> t);
         expires = expires_at_for (rp_expires p) nw;
         again = p\<lparr>rp_expires := Some expires, rp_now := Some nw\<rparr> in
     bind (create_reservation p expires) (\<lambda>created.
     if created = 1 then ret (Created (rp_hash p))
     else
       bind (ask (\<lambda>w. find_first (key_is (rp_company p) (rp_key p)) (t_idem w))) (\<lambda>existing.
       case existing of
         None \<Rightarrow> reserve n again
       | Some r \<Rightarrow>
           if ir_expires r \<le> nw then
             bind (change (\<lambda>w. w\<lparr>t_idem := delete_rows (\<lambda>x. ir_id x = ir_id r) (t_idem w)\<rparr>))
               (\<lambda>_. reserve n again)
           else if ir_hash r \<noteq> rp_hash p then
             throw (Unprocessable ''Idempotency key was already used with a different request payload'')
           else if ir_status r = IDEMPOTENCY_PENDING_STATUS then ret Pending
           else ret (Replayed (ir_status r) (normalize_body (ir_body r))))))"

definition reserve_fuel :: nat where
  "reserve_fuel = 2"

text \<open>
  The wire form of a body, \<^verbatim>\<open>JSON.parse(JSON.stringify(body))\<close>: dates and decimals become strings.
\<close>

fun json_wire :: "(int \<Rightarrow> string) \<Rightarrow> (decimal \<Rightarrow> string) \<Rightarrow> json \<Rightarrow> json" where
  "json_wire dt ds (JDate d) = JStr (dt d)"
| "json_wire dt ds (JDec d) = JStr (ds d)"
| "json_wire dt ds (JArr js) = JArr (map (json_wire dt ds) js)"
| "json_wire dt ds (JObj kvs) = JObj (map (\<lambda>(k, v). (k, json_wire dt ds v)) kvs)"
| "json_wire dt ds JNull = JNull"
| "json_wire dt ds (JBool b) = JBool b"
| "json_wire dt ds (JNum x) = JNum x"
| "json_wire dt ds (JStr s) = JStr s"

definition to_json :: "world \<Rightarrow> json \<Rightarrow> json option" where
  "to_json w body = (if body = JNull then None else Some (json_wire (iso_str w) (dec_str w) body))"

text \<open>\<^verbatim>\<open>complete\<close>: guarded by the pending status.\<close>

definition complete :: "string \<Rightarrow> string \<Rightarrow> int \<Rightarrow> json \<Rightarrow> unit wtx" where
  "complete c k status body =
     change (\<lambda>w. w\<lparr>t_idem := update_rows
       (\<lambda>r. key_is c k r \<and> ir_status r = IDEMPOTENCY_PENDING_STATUS)
       (\<lambda>r. r\<lparr>ir_status := status, ir_body := to_json w body\<rparr>) (t_idem w)\<rparr>)"

text \<open>\<^verbatim>\<open>replay\<close>: the read-only fast path.\<close>

definition replay :: "string \<Rightarrow> string \<Rightarrow> ((int \<times> json) option) wtx" where
  "replay c k =
     bind (ask (\<lambda>w. find_first (key_is c k) (t_idem w))) (\<lambda>rec.
     bind (ask now) (\<lambda>clock.
       case rec of
         None \<Rightarrow> ret None
       | Some r \<Rightarrow>
           if ir_expires r \<le> clock then ret None
           else if ir_status r = IDEMPOTENCY_PENDING_STATUS then ret None
           else ret (Some (ir_status r, normalize_body (ir_body r)))))"

datatype execute_result =
    ECompleted int json
  | EPending
  | EReplayed int json

text \<open>\<^verbatim>\<open>execute\<close>: reserve, work, save, in one transaction of its own.\<close>

definition execute ::
  "reserve_params \<Rightarrow> json \<Rightarrow> (int \<times> json) wtx \<Rightarrow> execute_result wtx" where
  "execute p requestBody work =
     bind (ask (\<lambda>w. hash_request w requestBody)) (\<lambda>requestHash.
     transaction (
       bind (reserve reserve_fuel (p\<lparr>rp_hash := requestHash\<rparr>)) (\<lambda>reservation.
       case reservation of
         Replayed status body \<Rightarrow> ret (EReplayed status body)
       | Pending \<Rightarrow> ret EPending
       | Created _ \<Rightarrow>
           bind work (\<lambda>(status, body).
           bind (complete (rp_company p) (rp_key p) status body) (\<lambda>_.
           ret (ECompleted status body))))))"

definition cleanup_expired :: "int \<Rightarrow> nat wtx" where
  "cleanup_expired clock =
     bind (ask (\<lambda>w. count_rows (\<lambda>r. ir_expires r < clock) (t_idem w))) (\<lambda>n.
     bind (change (\<lambda>w. w\<lparr>t_idem := delete_rows (\<lambda>r. ir_expires r < clock) (t_idem w)\<rparr>)) (\<lambda>_.
     ret n))"

section \<open>The wrapper of keyed mutations\<close>

text \<open>
  \<^verbatim>\<open>runWithIdempotency\<close>. Without a key (absent or empty) the mutation runs in a plain transaction.
\<close>

definition run_with_idempotency ::
  "string \<Rightarrow> string option \<Rightarrow> string \<Rightarrow> json \<Rightarrow> int \<Rightarrow> json wtx \<Rightarrow> (int \<times> json) wtx" where
  "run_with_idempotency c key endpoint payload status work =
     (case key of
        None \<Rightarrow> bind (transaction work) (\<lambda>body. ret (status, body))
      | Some k \<Rightarrow>
          if k = '''' then bind (transaction work) (\<lambda>body. ret (status, body))
          else transaction (
            bind (ask (\<lambda>w. hash_request w payload)) (\<lambda>h.
            bind (reserve reserve_fuel
              \<lparr>rp_company = c, rp_key = k, rp_endpoint = endpoint, rp_hash = h,
               rp_expires = None, rp_now = None\<rparr>) (\<lambda>reservation.
            case reservation of
              Replayed st body \<Rightarrow> ret (st, body)
            | Pending \<Rightarrow> throw (Conflict ''Request with idempotency key is already being processed'')
            | Created _ \<Rightarrow>
                bind work (\<lambda>body.
                bind (complete c k status body) (\<lambda>_.
                ret (status, body)))))))"


section \<open>Facts about reservations\<close>

text \<open>
  The unique index on (companyId, idempotencyKey), and the part of the environment a mutation leaves
  alone.
\<close>

definition idem_wf :: "world \<Rightarrow> bool" where
  "idem_wf w \<longleftrightarrow> distinct (map (\<lambda>r. (ir_company r, ir_key r)) (t_idem w))"

definition idem_env :: "world \<Rightarrow> (string \<Rightarrow> string) \<times> (rat \<Rightarrow> string) \<times> (decimal \<Rightarrow> string) \<times>
    (decimal \<Rightarrow> string) \<times> (int \<Rightarrow> string) \<times> int" where
  "idem_env w = (sha256 w, num_str w, dec_keys w, dec_str w, iso_str w, now w)"

definition idem_row_of :: "world \<Rightarrow> string \<Rightarrow> string \<Rightarrow> idem_row option" where
  "idem_row_of w c k = find_first (key_is c k) (t_idem w)"

text \<open>A record that a request at instant \<open>t\<close> still has to respect.\<close>

definition live_record :: "world \<Rightarrow> string \<Rightarrow> string \<Rightarrow> int \<Rightarrow> bool" where
  "live_record w c k t \<longleftrightarrow> (\<exists>r. idem_row_of w c k = Some r \<and> t < ir_expires r)"

lemma key_is_pair: "key_is c k r \<longleftrightarrow> (ir_company r, ir_key r) = (c, k)"
  by (auto simp: key_is_def)

lemma find_key_after_delete:
  assumes "idem_wf w" and "find_first (key_is c k) (t_idem w) = Some r"
  shows "find_first (key_is c k) (delete_rows (\<lambda>x. ir_id x = ir_id r) (t_idem w)) = None"
proof -
  have r: "r \<in> set (t_idem w)" "key_is c k r" using find_first_SomeD [OF assms(2)] by auto
  have "ir_id x = ir_id r" if "x \<in> set (t_idem w)" "key_is c k x" for x
    using assms(1) r that distinct_map_eq [of "\<lambda>r. (ir_company r, ir_key r)" "t_idem w" x r]
    by (auto simp: idem_wf_def key_is_pair)
  then show ?thesis by (auto simp: find_first_None_iff)
qed

definition reservation_row :: "reserve_params \<Rightarrow> int \<Rightarrow> string \<Rightarrow> idem_row" where
  "reservation_row p expires u =
     \<lparr>ir_id = u, ir_company = rp_company p, ir_key = rp_key p, ir_endpoint = rp_endpoint p,
      ir_hash = rp_hash p, ir_status = IDEMPOTENCY_PENDING_STATUS,
      ir_body = Some IDEMPOTENCY_PENDING_BODY, ir_expires = expires\<rparr>"

lemma create_reservation_free:
  "find_first (key_is (rp_company p) (rp_key p)) (t_idem w) = None \<Longrightarrow>
   create_reservation p expires w =
     (Inr 1, w\<lparr>uuid_next := Suc (uuid_next w),
               t_idem := t_idem w @ [reservation_row p expires (uuid_gen w (uuid_next w))]\<rparr>)"
  by (simp add: create_reservation_def reservation_row_def)

lemma create_reservation_taken:
  "find_first (key_is (rp_company p) (rp_key p)) (t_idem w) = Some r \<Longrightarrow>
   create_reservation p expires w = (Inr 0, w)"
  by (simp add: create_reservation_def)

text \<open>The instant a reservation attempt uses: the override, or the clock.\<close>

definition reserve_now :: "reserve_params \<Rightarrow> world \<Rightarrow> int" where
  "reserve_now p w = (case rp_now p of None \<Rightarrow> now w | Some t \<Rightarrow> t)"

text \<open>The three outcomes of \<open>reserve\<close>: no record, an expired one, a live one.\<close>

lemma reserve_free:
  assumes "find_first (key_is (rp_company p) (rp_key p)) (t_idem w) = None"
  shows "reserve (Suc n) p w =
     (Inr (Created (rp_hash p)), w\<lparr>uuid_next := Suc (uuid_next w), t_idem := t_idem w @
        [reservation_row p (expires_at_for (rp_expires p) (reserve_now p w))
           (uuid_gen w (uuid_next w))]\<rparr>)"
  using assms by (simp add: Let_def create_reservation_free bind_def reserve_now_def)

lemma reserve_expired:
  assumes "idem_wf w"
    and "find_first (key_is (rp_company p) (rp_key p)) (t_idem w) = Some r"
    and "ir_expires r \<le> reserve_now p w"
  shows "reserve (Suc (Suc n)) p w =
     (Inr (Created (rp_hash p)), w\<lparr>uuid_next := Suc (uuid_next w),
        t_idem := delete_rows (\<lambda>x. ir_id x = ir_id r) (t_idem w) @
        [reservation_row p (expires_at_for (rp_expires p) (reserve_now p w))
           (uuid_gen w (uuid_next w))]\<rparr>)"
proof -
  let ?e = "expires_at_for (rp_expires p) (reserve_now p w)"
  let ?w = "w\<lparr>t_idem := delete_rows (\<lambda>x. ir_id x = ir_id r) (t_idem w)\<rparr>"
  let ?p = "p\<lparr>rp_expires := Some ?e, rp_now := Some (reserve_now p w)\<rparr>"
  have free: "find_first (key_is (rp_company ?p) (rp_key ?p)) (t_idem ?w) = None"
    using find_key_after_delete [OF assms(1,2)] by simp
  have "reserve (Suc (Suc n)) p w = reserve (Suc n) ?p ?w"
    using assms(3)
    by (subst reserve.simps(2))
       (simp add: assms(2) Let_def create_reservation_taken [OF assms(2)] bind_def reserve_now_def
         del: reserve.simps)
  also have "\<dots> = (Inr (Created (rp_hash p)), w\<lparr>uuid_next := Suc (uuid_next w),
        t_idem := delete_rows (\<lambda>x. ir_id x = ir_id r) (t_idem w) @
        [reservation_row p ?e (uuid_gen w (uuid_next w))]\<rparr>)"
    unfolding reserve_free [OF free] by (simp add: expires_at_for_def reservation_row_def)
  finally show ?thesis .
qed

lemma reserve_live:
  assumes "find_first (key_is (rp_company p) (rp_key p)) (t_idem w) = Some r"
    and "reserve_now p w < ir_expires r"
  shows "reserve (Suc n) p w =
     (if ir_hash r \<noteq> rp_hash p then
        (Inl (Unprocessable ''Idempotency key was already used with a different request payload''), w)
      else if ir_status r = IDEMPOTENCY_PENDING_STATUS then (Inr Pending, w)
      else (Inr (Replayed (ir_status r) (normalize_body (ir_body r))), w))"
proof -
  have "\<not> ir_expires r \<le> (case rp_now p of None \<Rightarrow> now w | Some t \<Rightarrow> t)"
    using assms(2) by (simp add: reserve_now_def)
  then show ?thesis
    by (subst reserve.simps(2))
       (simp add: assms(1) Let_def create_reservation_taken [OF assms(1)] bind_def
         del: reserve.simps)
qed

text \<open>Two calls are enough: a third is never made, whatever the table holds.\<close>

lemma reserve_enough:
  assumes "idem_wf w"
  shows "reserve (Suc (Suc n)) p w = reserve reserve_fuel p w \<and>
     fst (reserve reserve_fuel p w) \<noteq> Inl OutOfFuel"
proof (cases "find_first (key_is (rp_company p) (rp_key p)) (t_idem w)")
  case None
  then show ?thesis by (simp add: reserve_fuel_def numeral_2_eq_2 reserve_free del: reserve.simps)
next
  case (Some r)
  show ?thesis
  proof (cases "ir_expires r \<le> reserve_now p w")
    case True
    with assms Some show ?thesis
      by (simp add: reserve_fuel_def numeral_2_eq_2 reserve_expired del: reserve.simps)
  next
    case False
    with Some show ?thesis
      by (simp add: reserve_fuel_def numeral_2_eq_2 reserve_live del: reserve.simps)
  qed
qed

text \<open>Without a live record a reservation is won, and the new row is the one row of its key.\<close>

lemma reserve_won:
  assumes "idem_wf w" and "\<not> live_record w (rp_company p) (rp_key p) (reserve_now p w)"
  shows "\<exists>t. reserve reserve_fuel p w =
     (Inr (Created (rp_hash p)), w\<lparr>uuid_next := Suc (uuid_next w),
        t_idem := t @ [reservation_row p (expires_at_for (rp_expires p) (reserve_now p w))
           (uuid_gen w (uuid_next w))]\<rparr>) \<and>
     find_first (key_is (rp_company p) (rp_key p)) t = None"
proof (cases "find_first (key_is (rp_company p) (rp_key p)) (t_idem w)")
  case None
  then show ?thesis
    by (intro exI [of _ "t_idem w"])
       (simp add: reserve_fuel_def numeral_2_eq_2 reserve_free del: reserve.simps)
next
  case (Some r)
  with assms(2) have "ir_expires r \<le> reserve_now p w"
    by (auto simp: live_record_def idem_row_of_def)
  with assms(1) Some show ?thesis
    using find_key_after_delete [OF assms(1) Some]
    by (intro exI [of _ "delete_rows (\<lambda>x. ir_id x = ir_id r) (t_idem w)"])
       (simp add: reserve_fuel_def numeral_2_eq_2 reserve_expired del: reserve.simps)
qed

declare reserve.simps [simp del]

section \<open>The contract of the wrapper\<close>

text \<open>A mutation that leaves the idempotency table and the environment's parameters alone.\<close>

definition quiet :: "'a wtx \<Rightarrow> bool" where
  "quiet work \<longleftrightarrow> frame t_idem work \<and> frame idem_env work"

lemma complete_row:
  assumes "find_first (key_is c k) t = None" and "key_is c k r" and "ir_status r = IDEMPOTENCY_PENDING_STATUS"
    and "t_idem w = t @ [r]"
  shows "\<exists>w'. complete c k st b w = (Inr (), w') \<and>
     w' = w\<lparr>t_idem := t @ [r\<lparr>ir_status := st, ir_body := to_json w b\<rparr>]\<rparr>"
proof -
  have "update_rows (\<lambda>r. key_is c k r \<and> ir_status r = IDEMPOTENCY_PENDING_STATUS)
      (\<lambda>r. r\<lparr>ir_status := st, ir_body := to_json w b\<rparr>) t = t"
    using assms(1) by (intro update_rows_none) (auto simp: find_first_None_iff)
  then show ?thesis
    using assms(2-4) by (simp add: complete_def update_rows_def)
qed

lemma normalize_to_json: "normalize_body (to_json w b) = json_wire (iso_str w) (dec_str w) b"
  by (simp add: normalize_body_def to_json_def)

abbreviation run_params :: "string \<Rightarrow> string \<Rightarrow> string \<Rightarrow> string \<Rightarrow> reserve_params" where
  "run_params c k ep h \<equiv> \<lparr>rp_company = c, rp_key = k, rp_endpoint = ep, rp_hash = h,
     rp_expires = None, rp_now = None\<rparr>"

text \<open>The first successful run of a key leaves one completed record behind.\<close>

lemma run_first:
  assumes "k \<noteq> ''''" and "quiet work" and "idem_wf w" and "\<not> live_record w c k (now w)"
    and run: "run_with_idempotency c (Some k) ep pl st work w = (Inr (s, b), w')"
  shows "s = st \<and> idem_env w' = idem_env w \<and>
     (\<exists>r. idem_row_of w' c k = Some r \<and> ir_hash r = hash_request w pl \<and> ir_status r = st \<and>
          normalize_body (ir_body r) = json_wire (iso_str w) (dec_str w) b \<and>
          ir_expires r = now w + IDEMPOTENCY_TTL_MS)"
proof -
  let ?p = "run_params c k ep (hash_request w pl)"
  have "\<not> live_record w (rp_company ?p) (rp_key ?p) (reserve_now ?p w)"
    using assms(4) by (simp add: reserve_now_def)
  then obtain t where res: "reserve reserve_fuel ?p w =
      (Inr (Created (hash_request w pl)), w\<lparr>uuid_next := Suc (uuid_next w), t_idem := t @
        [reservation_row ?p (now w + IDEMPOTENCY_TTL_MS) (uuid_gen w (uuid_next w))]\<rparr>)"
      (is "_ = (_, ?w1)")
    and free: "find_first (key_is c k) t = None"
    using reserve_won [OF assms(3), of ?p] by (auto simp: reserve_now_def expires_at_for_def)
  obtain w2 where work: "work ?w1 = (Inr b, w2)" and s: "s = st"
    and compl: "complete c k st b w2 = (Inr (), w')"
    using run assms(1) res
    by (auto simp: run_with_idempotency_def transaction_Inr_iff bind_Inr_iff)
  have "t_idem w2 = t_idem ?w1" and env: "idem_env w2 = idem_env ?w1"
    using assms(2) work by (auto simp: quiet_def dest: frameD)
  then have t2: "t_idem w2 = t @
      [reservation_row ?p (now w + IDEMPOTENCY_TTL_MS) (uuid_gen w (uuid_next w))]" (is "_ = t @ [?r]")
    by simp
  have "w' = w2\<lparr>t_idem := t @ [?r\<lparr>ir_status := st, ir_body := to_json w2 b\<rparr>]\<rparr>"
    using complete_row [OF free, of ?r w2 st b] t2 compl
    by (simp add: reservation_row_def key_is_def)
  with env s free show ?thesis
    by (simp add: idem_row_of_def find_first_append reservation_row_def key_is_def
        normalize_to_json idem_env_def)
qed

text \<open>A request that meets a live completed record replays it or is refused; it never works.\<close>

lemma run_on_live:
  assumes "k \<noteq> ''''" and "idem_row_of w c k = Some r" and "now w < ir_expires r"
    and "ir_status r \<noteq> IDEMPOTENCY_PENDING_STATUS"
  shows "run_with_idempotency c (Some k) ep pl st work w =
     (if ir_hash r = hash_request w pl then (Inr (ir_status r, normalize_body (ir_body r)), w)
      else (Inl (Unprocessable ''Idempotency key was already used with a different request payload''), w))"
proof -
  let ?p = "run_params c k ep (hash_request w pl)"
  have "reserve reserve_fuel ?p w =
     (if ir_hash r \<noteq> hash_request w pl then
        (Inl (Unprocessable ''Idempotency key was already used with a different request payload''), w)
      else (Inr (Replayed (ir_status r) (normalize_body (ir_body r))), w))"
    unfolding reserve_fuel_def numeral_2_eq_2
    using reserve_live [of ?p w r "Suc 0"] assms(2-4) by (simp add: reserve_now_def idem_row_of_def)
  with assms(1) show ?thesis
    by (simp add: run_with_idempotency_def transaction_def bind_def)
qed

text \<open>Requests repeated at the given instants: their results, and the state after the last.\<close>

primrec repeat_at :: "'a wtx \<Rightarrow> int list \<Rightarrow> world \<Rightarrow> (exn + 'a) list \<times> world" where
  "repeat_at m [] w = ([], w)"
| "repeat_at m (t # ts) w =
     (case m (w\<lparr>now := t\<rparr>) of (r, w1) \<Rightarrow>
      case repeat_at m ts w1 of (rs, w2) \<Rightarrow> (r # rs, w2))"

text \<open>
  What the keyed services rely on. \<open>run c key endpoint payload status work\<close>: a key that has
  succeeded answers every later request within the time to live without running any work, with the
  stored response if the request is the same and with 422 if it is another one; a failing run
  leaves no trace.
\<close>

locale replaying_runner =
  fixes run :: "string \<Rightarrow> string option \<Rightarrow> string \<Rightarrow> json \<Rightarrow> int \<Rightarrow> json wtx \<Rightarrow> (int \<times> json) wtx"
  assumes run_same: "k \<noteq> '''' \<Longrightarrow> st \<noteq> IDEMPOTENCY_PENDING_STATUS \<Longrightarrow> quiet work \<Longrightarrow> idem_wf w \<Longrightarrow>
      \<not> live_record w c k (now w) \<Longrightarrow> run c (Some k) ep pl st work w = (Inr (s, b), w') \<Longrightarrow>
      t < now w + IDEMPOTENCY_TTL_MS \<Longrightarrow> hash_request w pl' = hash_request w pl \<Longrightarrow>
      run c (Some k) ep' pl' st' work' (w'\<lparr>now := t\<rparr>) =
        (Inr (st, json_wire (iso_str w) (dec_str w) b), w'\<lparr>now := t\<rparr>)"
    and run_other: "k \<noteq> '''' \<Longrightarrow> st \<noteq> IDEMPOTENCY_PENDING_STATUS \<Longrightarrow> quiet work \<Longrightarrow> idem_wf w \<Longrightarrow>
      \<not> live_record w c k (now w) \<Longrightarrow> run c (Some k) ep pl st work w = (Inr (s, b), w') \<Longrightarrow>
      t < now w + IDEMPOTENCY_TTL_MS \<Longrightarrow> hash_request w pl' \<noteq> hash_request w pl \<Longrightarrow>
      run c (Some k) ep' pl' st' work' (w'\<lparr>now := t\<rparr>) =
        (Inl (Unprocessable ''Idempotency key was already used with a different request payload''),
         w'\<lparr>now := t\<rparr>)"
    and run_fails: "run c key ep pl st work w = (Inl e, w') \<Longrightarrow> w' = w"
begin

text \<open>A client may repeat a request at any instants of the time to live, any number of times.\<close>

lemma retries_replay:
  assumes "k \<noteq> ''''" and "st \<noteq> IDEMPOTENCY_PENDING_STATUS" and "quiet work" and "idem_wf w"
    and "\<not> live_record w c k (now w)" and "run c (Some k) ep pl st work w = (Inr (s, b), w')"
    and "\<forall>t \<in> set ts. t < now w + IDEMPOTENCY_TTL_MS"
  shows "repeat_at (run c (Some k) ep pl st work) ts (w'\<lparr>now := t0\<rparr>) =
     (map (\<lambda>_. Inr (st, json_wire (iso_str w) (dec_str w) b)) ts, w'\<lparr>now := last (t0 # ts)\<rparr>)"
  using assms(7)
proof (induction ts arbitrary: t0)
  case Nil
  then show ?case by simp
next
  case (Cons t ts)
  have step: "run c (Some k) ep pl st work (w'\<lparr>now := t\<rparr>) =
      (Inr (st, json_wire (iso_str w) (dec_str w) b), w'\<lparr>now := t\<rparr>)"
    using assms Cons.prems by (intro run_same) auto
  show ?case using step Cons.IH [of t] Cons.prems by simp
qed

end

lemma idem_env_now: "idem_env w' = idem_env w \<Longrightarrow>
    hash_request (w'\<lparr>now := t\<rparr>) pl = hash_request w pl"
  by (simp add: idem_env_def hash_request_def)

interpretation keyed: replaying_runner run_with_idempotency
proof (unfold_locales, goal_cases)
  case (1 k st work w c ep pl s b w' t pl' ep' st' work')
  obtain r where r: "idem_row_of w' c k = Some r" "ir_hash r = hash_request w pl" "ir_status r = st"
      "normalize_body (ir_body r) = json_wire (iso_str w) (dec_str w) b"
      "ir_expires r = now w + IDEMPOTENCY_TTL_MS" and env: "idem_env w' = idem_env w"
    using run_first [OF 1(1,3,4,5,6)] by blast
  have "idem_row_of (w'\<lparr>now := t\<rparr>) c k = Some r" using r(1) by (simp add: idem_row_of_def)
  from run_on_live [OF 1(1) this] show ?case
    using 1(2,7,8) r(2-5) idem_env_now [OF env, of t pl'] by simp
next
  case (2 k st work w c ep pl s b w' t pl' ep' st' work')
  obtain r where r: "idem_row_of w' c k = Some r" "ir_hash r = hash_request w pl" "ir_status r = st"
      "ir_expires r = now w + IDEMPOTENCY_TTL_MS" and env: "idem_env w' = idem_env w"
    using run_first [OF 2(1,3,4,5,6)] by blast
  have "idem_row_of (w'\<lparr>now := t\<rparr>) c k = Some r" using r(1) by (simp add: idem_row_of_def)
  from run_on_live [OF 2(1) this] show ?case
    using 2(2,7,8) r(2-4) idem_env_now [OF env, of t pl'] by simp
next
  case (3 c key ep pl st work w e w')
  then show ?case
    by (auto simp: run_with_idempotency_def bind_Inl_iff transaction_Inl_iff transaction_Inr_iff
             split: option.splits if_splits)
qed

section \<open>Properties\<close>

text \<open>
  Property C26: exactly-once execution of a keyed mutation. After a first successful run under a key,
  any number of retries of the same request, at any instants within the 24 hour time to live, return
  the stored status and the JSON form of the first response, and change nothing but the clock:
  the mutation is never executed again.
\<close>

theorem keyed_mutation_executes_once:
  assumes "k \<noteq> ''''" and "st \<noteq> IDEMPOTENCY_PENDING_STATUS" and "quiet work" and "idem_wf w"
    and "\<not> live_record w c k (now w)"
    and "run_with_idempotency c (Some k) ep pl st work w = (Inr (s, b), w')"
    and "\<forall>t \<in> set ts. t < now w + IDEMPOTENCY_TTL_MS"
  shows "s = st \<and> repeat_at (run_with_idempotency c (Some k) ep pl st work) ts (w'\<lparr>now := t0\<rparr>) =
     (map (\<lambda>_. Inr (st, json_wire (iso_str w) (dec_str w) b)) ts, w'\<lparr>now := last (t0 # ts)\<rparr>)"
  using keyed.retries_replay [OF assms] run_first [OF assms(1,3,4,5,6)] by blast

lemma quiet_audit: "quiet (bind (audit_log e) (\<lambda>_. ret x))"
  unfolding quiet_def idem_env_def by (intro conjI frame_intros) simp_all

abbreviation sample_audit :: audit_entry where
  "sample_audit \<equiv> \<lparr>au_company = Some ''co'', au_user = ''u'', au_entity = ''Stock'',
     au_entityId = ''s'', au_action = ''ADJUST'', au_before = None, au_after = None\<rparr>"

lemma sample_run:
  "\<exists>w'. run_with_idempotency ''co'' (Some ''key-1'') ''ep'' (JStr ''p'') 201
     (bind (audit_log sample_audit) (\<lambda>_. ret (JStr ''ok''))) empty_world = (Inr (201, JStr ''ok''), w') \<and>
     length (t_audit w') = 1"
  by (simp add: run_with_idempotency_def transaction_def bind_def reserve_fuel_def numeral_2_eq_2
      reserve.simps Let_def create_reservation_def empty_world_def complete_def)

theorem keyed_mutation_executes_once_witness:
  "\<exists>w'. length (t_audit w') = 1 \<and>
     repeat_at (run_with_idempotency ''co'' (Some ''key-1'') ''ep'' (JStr ''p'') 201
       (bind (audit_log sample_audit) (\<lambda>_. ret (JStr ''ok'')))) [5, 9] (w'\<lparr>now := 0\<rparr>) =
     ([Inr (201, JStr ''ok''), Inr (201, JStr ''ok'')], w'\<lparr>now := 9\<rparr>)"
proof -
  obtain w' where run: "run_with_idempotency ''co'' (Some ''key-1'') ''ep'' (JStr ''p'') 201
      (bind (audit_log sample_audit) (\<lambda>_. ret (JStr ''ok''))) empty_world = (Inr (201, JStr ''ok''), w')"
    and one: "length (t_audit w') = 1"
    using sample_run by blast
  have "201 = (201::int) \<and> repeat_at (run_with_idempotency ''co'' (Some ''key-1'') ''ep'' (JStr ''p'') 201
      (bind (audit_log sample_audit) (\<lambda>_. ret (JStr ''ok'')))) [5, 9] (w'\<lparr>now := 0\<rparr>) =
     (map (\<lambda>_. Inr (201, json_wire (iso_str empty_world) (dec_str empty_world) (JStr ''ok''))) [5, 9 :: int],
      w'\<lparr>now := last (0 # [5, 9])\<rparr>)"
    by (rule keyed_mutation_executes_once [OF _ _ quiet_audit _ _ run])
       (simp_all add: IDEMPOTENCY_PENDING_STATUS_def idem_wf_def empty_world_def live_record_def
          idem_row_of_def IDEMPOTENCY_TTL_MS_def)
  with one show ?thesis by auto
qed

text \<open>
  A key is bound to its payload. Within the time to live a request that reuses a
  succeeded key with a payload of another hash is refused with 422, and nothing changes.
\<close>

theorem keyed_mutation_other_payload_refused:
  assumes "k \<noteq> ''''" and "st \<noteq> IDEMPOTENCY_PENDING_STATUS" and "quiet work" and "idem_wf w"
    and "\<not> live_record w c k (now w)"
    and "run_with_idempotency c (Some k) ep pl st work w = (Inr (s, b), w')"
    and "t < now w + IDEMPOTENCY_TTL_MS" and "hash_request w pl' \<noteq> hash_request w pl"
  shows "run_with_idempotency c (Some k) ep' pl' st' work' (w'\<lparr>now := t\<rparr>) =
     (Inl (Unprocessable ''Idempotency key was already used with a different request payload''),
      w'\<lparr>now := t\<rparr>)"
  using assms by (rule keyed.run_other)

theorem keyed_mutation_other_payload_refused_witness:
  "\<exists>w'. run_with_idempotency ''co'' (Some ''key-1'') ''ep'' (JStr ''q'') 201 (ret JNull) (w'\<lparr>now := 7\<rparr>) =
     (Inl (Unprocessable ''Idempotency key was already used with a different request payload''),
      w'\<lparr>now := 7\<rparr>) \<and> length (t_audit w') = 1"
proof -
  obtain w' where run: "run_with_idempotency ''co'' (Some ''key-1'') ''ep'' (JStr ''p'') 201
      (bind (audit_log sample_audit) (\<lambda>_. ret (JStr ''ok''))) empty_world = (Inr (201, JStr ''ok''), w')"
    and one: "length (t_audit w') = 1"
    using sample_run by blast
  have "run_with_idempotency ''co'' (Some ''key-1'') ''ep'' (JStr ''q'') 201 (ret JNull) (w'\<lparr>now := 7\<rparr>) =
     (Inl (Unprocessable ''Idempotency key was already used with a different request payload''),
      w'\<lparr>now := 7\<rparr>)"
    by (rule keyed_mutation_other_payload_refused [OF _ _ quiet_audit _ _ run])
       (simp_all add: IDEMPOTENCY_PENDING_STATUS_def idem_wf_def empty_world_def live_record_def
          idem_row_of_def IDEMPOTENCY_TTL_MS_def hash_request_def json_quote_def json_escape_def)
  with one show ?thesis by blast
qed




abbreviation sample_row :: "int \<Rightarrow> idem_row" where
  "sample_row e \<equiv> \<lparr>ir_id = ''i'', ir_company = ''co'', ir_key = ''k'', ir_endpoint = ''ep'',
     ir_hash = ''h'', ir_status = 200, ir_body = None, ir_expires = e\<rparr>"


text \<open>
  An invariant that does not see the idempotency table nor the UUID counter, and that the mutation
  keeps, is kept by the keyed mutation, whatever becomes of the request.
\<close>

lemma keeps_ok_reserve:
  assumes "\<And>h w. I w \<Longrightarrow> I (t_idem_update h w)" and "\<And>w. I w \<Longrightarrow> I (w\<lparr>uuid_next := Suc (uuid_next w)\<rparr>)"
  shows "keeps_ok I (reserve n p)"
proof (induction n arbitrary: p)
  case 0
  show ?case unfolding reserve.simps by (rule inv_intros)
next
  case (Suc n)
  have fresh: "keeps_ok I fresh_uuid" using assms(2) by (auto simp: keeps_ok_def)
  have make: "keeps_ok I (create_reservation p e)" for p e
    unfolding create_reservation_def by (intro inv_intros fresh assms(1))
  show ?case
    unfolding reserve.simps Let_def by (intro inv_intros make Suc assms(1))
qed

lemma keeps_run_with_idempotency:
  assumes "\<And>h w. I w \<Longrightarrow> I (t_idem_update h w)" and "\<And>w. I w \<Longrightarrow> I (w\<lparr>uuid_next := Suc (uuid_next w)\<rparr>)"
    and "keeps_ok I work"
  shows "keeps I (run_with_idempotency c key ep pl st work)"
proof -
  have plain: "keeps I (bind (transaction work) (\<lambda>body. ret (st, body)))"
    using keeps_transaction [OF assms(3)]
    by (auto simp: keeps_def bind_def split: prod.splits sum.splits)
  have finished: "keeps_ok I (complete c k st b)" for k b
    unfolding complete_def Let_def by (intro inv_intros assms(1))
  have pick: "keeps_ok I (case res of Created h \<Rightarrow> f h | Replayed a b \<Rightarrow> g a b | Pending \<Rightarrow> m)"
    if "\<And>h. keeps_ok I (f h)" "\<And>a b. keeps_ok I (g a b)" "keeps_ok I m" for res f g m
    using that by (cases res) simp_all
  show ?thesis
  proof (cases key)
    case None
    with plain show ?thesis by (simp add: run_with_idempotency_def)
  next
    case (Some k)
    show ?thesis
    proof (cases "k = ''''")
      case True
      with Some plain show ?thesis by (simp add: run_with_idempotency_def)
    next
      case False
      have "keeps I (run_with_idempotency c (Some k) ep pl st work)"
        unfolding run_with_idempotency_def option.case if_not_P [OF False]
        by (intro inv_intros keeps_ok_reserve assms finished pick)
      with Some show ?thesis by simp
    qed
  qed
qed

text \<open>
  More precisely, a keyed mutation changes nothing but the key table and the UUID counter, or its work
  has run between two such changes.
\<close>

definition same_but_keys :: "world \<Rightarrow> world \<Rightarrow> bool" where
  "same_but_keys w v \<longleftrightarrow> (\<exists>h n. uuid_next w \<le> n \<and> v = w\<lparr>t_idem := h, uuid_next := n\<rparr>)"

lemma same_but_keys_refl [simp]: "same_but_keys w w"
  unfolding same_but_keys_def by (rule exI [of _ "t_idem w"], rule exI [of _ "uuid_next w"]) simp

lemma same_but_keysI: "v = w\<lparr>t_idem := h, uuid_next := n\<rparr> \<Longrightarrow> uuid_next w \<le> n \<Longrightarrow> same_but_keys w v"
  unfolding same_but_keys_def by blast

lemma same_but_keys_trans: "same_but_keys u v \<Longrightarrow> same_but_keys v w \<Longrightarrow> same_but_keys u w"
  by (auto simp: same_but_keys_def [of u v] same_but_keys_def [of v w] intro!: same_but_keysI)

lemma same_but_keys_step:
  "same_but_keys w v \<Longrightarrow> same_but_keys w (t_idem_update h v)" "same_but_keys w v \<Longrightarrow> same_but_keys w (v\<lparr>uuid_next := Suc (uuid_next v)\<rparr>)"
proof -
  assume "same_but_keys w v"
  then obtain k n where v: "v = w\<lparr>t_idem := k, uuid_next := n\<rparr>" "uuid_next w \<le> n" unfolding same_but_keys_def by blast
  show "same_but_keys w (t_idem_update h v)" by (rule same_but_keysI [where h = "h k" and n = n]) (simp_all add: v)
  show "same_but_keys w (v\<lparr>uuid_next := Suc (uuid_next v)\<rparr>)" by (rule same_but_keysI [where h = k and n = "Suc n"]) (use v in simp_all)
qed

lemma keyed_run_cases:
  assumes "run_with_idempotency c key ep pl st work w = (r, w')"
  obtains (quiet) "same_but_keys w w'"
  | (worked) w0 b w1 where "same_but_keys w w0" "work w0 = (Inr b, w1)" "same_but_keys w1 w'"
proof -
  have plain: ?thesis if "bind (transaction work) (\<lambda>body. ret (st, body)) w = (r, w')"
  proof (cases "transaction work w")
    case (Pair x v)
    then show ?thesis
    proof (cases x)
      case (Inl e)
      with Pair that transaction_rollback [of work w e v] show ?thesis by (intro quiet) simp
    next
      case (Inr b)
      with Pair that have "work w = (Inr b, v)" "w' = v" by (simp_all add: transaction_Inr_iff)
      then show ?thesis by (intro worked [of w b v]) simp_all
    qed
  qed
  show ?thesis
  proof (cases "case key of None \<Rightarrow> True | Some k \<Rightarrow> k = ''''")
    case True
    with assms plain show ?thesis by (cases key) (simp_all add: run_with_idempotency_def)
  next
    case False
    then obtain k where k: "key = Some k" "k \<noteq> ''''" by (cases key) simp_all
    show ?thesis
    proof (cases r)
      case (Inl e)
      with assms k have "w' = w" by (auto simp: run_with_idempotency_def dest: transaction_rollback)
      then show ?thesis by (intro quiet) simp
    next
      case (Inr y)
      define p where "p = \<lparr>rp_company = c, rp_key = k, rp_endpoint = ep, rp_hash = hash_request w pl, rp_expires = None, rp_now = None\<rparr>"
      obtain res w0 where R: "reserve reserve_fuel p w = (Inr res, w0)"
        and rest: "(case res of Replayed st body \<Rightarrow> ret (st, body)
            | Pending \<Rightarrow> throw (Conflict ''Request with idempotency key is already being processed'')
            | Created _ \<Rightarrow> bind work (\<lambda>body. bind (complete c k st body) (\<lambda>_. ret (st, body)))) w0 = (Inr y, w')"
        using assms k Inr by (auto simp: run_with_idempotency_def transaction_Inr_iff bind_Inr_iff p_def)
      have "keeps_ok (same_but_keys w) (reserve reserve_fuel p)"
        by (rule keeps_ok_reserve) (rule same_but_keys_step; assumption)+
      then have w0: "same_but_keys w w0" using same_but_keys_refl R by (rule keeps_okD)
      show ?thesis
      proof (cases res)
        case (Created h)
        with rest obtain b w1 u where W: "work w0 = (Inr b, w1)" "complete c k st b w1 = (Inr u, w')" by (auto simp: bind_Inr_iff)
        have "keeps_ok (same_but_keys w1) (complete c k st b)"
          unfolding complete_def Let_def by (intro inv_intros same_but_keys_step)
        then have "same_but_keys w1 w'" using same_but_keys_refl W(2) by (rule keeps_okD)
        with w0 W show ?thesis by (intro worked)
      next
        case (Replayed a b)
        with rest w0 show ?thesis by (intro quiet) simp
      next
        case Pending
        with rest show ?thesis by simp
      qed
    qed
  qed
qed

text \<open>
  Expiry. A request that meets only an expired record of its key runs its mutation
  again, as if the record were not there, and stores a record with a new expiry; and
  \<open>cleanup_expired\<close> removes exactly the records whose expiry lies before its instant.
\<close>

theorem expired_key_is_free_again:
  assumes "k \<noteq> ''''" and "idem_wf w" and "idem_row_of w c k = Some r" and "ir_expires r \<le> now w"
    and "quiet work"
    and "run_with_idempotency c (Some k) ep pl st work w = (Inr (s, b), w')"
  shows "s = st \<and> (\<exists>r'. idem_row_of w' c k = Some r' \<and> ir_expires r' = now w + IDEMPOTENCY_TTL_MS \<and>
           ir_hash r' = hash_request w pl \<and> ir_status r' = st) \<and>
     cleanup_expired t w = (Inr (count_rows (\<lambda>r. ir_expires r < t) (t_idem w)),
        w\<lparr>t_idem := filter (\<lambda>r. t \<le> ir_expires r) (t_idem w)\<rparr>)"
proof -
  have "\<not> live_record w c k (now w)" using assms(3,4) by (simp add: live_record_def)
  from run_first [OF assms(1,5,2) this assms(6)] show ?thesis
    by (auto simp: cleanup_expired_def delete_rows_def not_less)
qed

theorem expired_key_is_free_again_witness:
  "cleanup_expired 5 (empty_world\<lparr>t_idem := [sample_row (-1)]\<rparr>) = (Inr 1, empty_world)"
proof -
  let ?w = "empty_world\<lparr>t_idem := [sample_row (-1)]\<rparr>"
  have "\<exists>w'. run_with_idempotency ''co'' (Some ''k'') ''ep'' JNull 201 (ret JNull) ?w = (Inr (201, JNull), w')"
    by (simp add: run_with_idempotency_def transaction_def bind_def reserve_fuel_def numeral_2_eq_2
      reserve.simps Let_def create_reservation_def empty_world_def complete_def key_is_def delete_rows_def)
  then obtain w' where run: "run_with_idempotency ''co'' (Some ''k'') ''ep'' JNull 201 (ret JNull) ?w =
      (Inr (201, JNull), w')" by blast
  have "quiet (ret JNull)" by (simp add: quiet_def frame_ret)
  from expired_key_is_free_again [OF _ _ _ _ this run, of "sample_row (-1)" 5]
  show ?thesis
    by (simp add: idem_wf_def idem_row_of_def key_is_def empty_world_def count_rows_def)
qed

text \<open>
  The canonical serialisation ignores key order. Two payloads that differ only in the
  order of the keys of their objects, at any depth, have the same serialisation and the same hash, so
  a client library that reorders keys still replays.
\<close>

theorem canonical_serialisation_ignores_key_order:
  "same_json j j' \<Longrightarrow> hash_request w j = hash_request w j'"
  by (simp add: hash_request_def same_json_stringify)

theorem canonical_serialisation_ignores_key_order_witness:
  "hash_request empty_world (JObj [(''b'', JNum 1), (''a'', JNull)]) =
   hash_request empty_world (JObj [(''a'', JNull), (''b'', JNum 1)])"
  by (rule canonical_serialisation_ignores_key_order, rule same_obj
        [where kvs' = "[(''b'', JNum 1), (''a'', JNull)]"]) (auto intro: same_leaf)

text \<open>
  Dates do not count. The canonical serialisation maps every \<^verbatim>\<open>Date\<close> object to the empty
  object, so two payloads that differ only in a date (the \<^verbatim>\<open>transactionDate\<close> of a financial transaction,
  which the validation pipe turns into a \<^verbatim>\<open>Date\<close>) have one hash: the second is answered with the first
  one's response instead of the 422 the layer documents for a different payload.
\<close>

theorem dates_do_not_reach_the_hash:
  "hash_request w (JObj (kvs @ (k, JDate d) # kvs')) = hash_request w (JObj (kvs @ (k, JDate d') # kvs'))"
  by (simp add: hash_request_def)

end
