(* ===== verification/InventoryRepository.thy ===== *)
theory InventoryRepository
  imports Shared "HOL-Library.List_Lexorder" "HOL-Library.Char_ord"
begin

text \<open>
  \<^verbatim>\<open>inventory/repositories/inventory.repository.ts\<close>: the reads and writes of warehouses, stock rows,
  stock movements, cost layers, inventory counts and the product columns that costing reads. Each
  definition is one method; the \<^verbatim>\<open>where\<close> clause is its predicate. The optimistically locked updates
  are interpreted against \<open>optimistic_table\<close>.
\<close>

section \<open>Warehouses\<close>

definition find_warehouse_by_id :: "string \<Rightarrow> string \<Rightarrow> warehouse_row option wtx" where
  "find_warehouse_by_id i c =
     ask (\<lambda>w. find_first (\<lambda>r. wh_id r = i \<and> wh_company r = c \<and> wh_deleted r = None) (t_warehouse w))"

definition update_warehouse ::
  "string \<Rightarrow> (warehouse_row \<Rightarrow> warehouse_row) \<Rightarrow> string \<Rightarrow> int \<Rightarrow> warehouse_row wtx" where
  "update_warehouse i f c v =
     cas_write t_warehouse t_warehouse_update
       (\<lambda>r. wh_id r = i \<and> wh_company r = c \<and> wh_version r = v)
       (\<lambda>r. wh_id r = i \<and> wh_company r = c) (\<lambda>r. wh_id r = i)
       (bump_ver (\<lambda>r. r\<lparr>wh_version := wh_version r + 1\<rparr>) f)
       (NotFound ''Warehouse not found'')
       (Conflict ''Warehouse was modified by another user. Please refresh and retry.'')"

definition soft_delete_warehouse :: "string \<Rightarrow> string \<Rightarrow> int \<Rightarrow> unit wtx" where
  "soft_delete_warehouse i c v =
     bind (ask now) (\<lambda>clock.
     bind (ask t_warehouse) (\<lambda>t.
     let hit = (\<lambda>r. wh_id r = i \<and> wh_company r = c \<and> wh_version r = v) in
     if count_rows hit t = 0 then
       (case find_first (\<lambda>r. wh_id r = i \<and> wh_company r = c) t of
          None \<Rightarrow> throw (NotFound ''Warehouse not found'')
        | Some _ \<Rightarrow> throw (Conflict ''Warehouse was modified by another user.''))
     else change (\<lambda>w. w\<lparr>t_warehouse := update_rows hit
            (\<lambda>r. r\<lparr>wh_deleted := Some clock, wh_version := wh_version r + 1\<rparr>) (t_warehouse w)\<rparr>)))"

interpretation warehouse_table: optimistic_table t_warehouse wh_id wh_company wh_version
    "\<lambda>f. \<forall>r. wh_id (f r) = wh_id r \<and> wh_company (f r) = wh_company r \<and> wh_version (f r) = wh_version r"
    update_warehouse
  unfolding update_warehouse_def [abs_def] by (rule cas_optimistic_table) simp_all

section \<open>Stock\<close>

definition stock_at :: "string \<Rightarrow> string \<Rightarrow> string \<Rightarrow> stock_row \<Rightarrow> bool" where
  "stock_at p wh c r \<longleftrightarrow> st_product r = p \<and> st_warehouse r = wh \<and> st_company r = c"

definition find_stock_by_product :: "string \<Rightarrow> string \<Rightarrow> stock_row list wtx" where
  "find_stock_by_product p c =
     ask (\<lambda>w. sort_key st_warehouse (find_many (\<lambda>r. st_product r = p \<and> st_company r = c) (t_stock w)))"

definition find_stock_by_product_and_warehouse ::
  "string \<Rightarrow> string \<Rightarrow> string \<Rightarrow> stock_row option wtx" where
  "find_stock_by_product_and_warehouse p wh c = ask (\<lambda>w. find_first (stock_at p wh c) (t_stock w))"

definition find_all_stock :: "string \<Rightarrow> stock_row list wtx" where
  "find_all_stock c =
     ask (\<lambda>w. sort_key st_product (sort_key st_warehouse (find_many (\<lambda>r. st_company r = c) (t_stock w))))"

text \<open>\<^verbatim>\<open>createStock\<close>, under the unique key (productId, warehouseId) of the schema.\<close>

definition create_stock ::
  "string \<Rightarrow> string \<Rightarrow> string \<Rightarrow> int \<Rightarrow> int \<Rightarrow> int \<Rightarrow> stock_row wtx" where
  "create_stock p wh c quantity reserved available =
     bind (ask t_stock) (\<lambda>t.
     bind (require (find_first (\<lambda>r. st_product r = p \<and> st_warehouse r = wh) t = None)
             (UniqueViolation [''productId'', ''warehouseId''])) (\<lambda>_.
     bind fresh_uuid (\<lambda>u.
     let row = \<lparr>st_id = u, st_company = c, st_product = p, st_warehouse = wh,
                st_quantity = quantity, st_reserved = reserved, st_available = available,
                st_version = 0\<rparr> in
     bind (change (\<lambda>w. w\<lparr>t_stock := t_stock w @ [row]\<rparr>)) (\<lambda>_. ret row))))"

definition update_stock ::
  "string \<Rightarrow> (stock_row \<Rightarrow> stock_row) \<Rightarrow> string \<Rightarrow> int \<Rightarrow> stock_row wtx" where
  "update_stock i f c v =
     cas_write t_stock t_stock_update
       (\<lambda>r. st_id r = i \<and> st_company r = c \<and> st_version r = v)
       (\<lambda>r. st_id r = i \<and> st_company r = c) (\<lambda>r. st_id r = i)
       (bump_ver (\<lambda>r. r\<lparr>st_version := st_version r + 1\<rparr>) f)
       (NotFound ''Stock record not found'')
       (Conflict ''Stock was modified by another user. Please refresh and retry.'')"

interpretation stock_table: optimistic_table t_stock st_id st_company st_version
    "\<lambda>f. \<forall>r. st_id (f r) = st_id r \<and> st_company (f r) = st_company r \<and> st_version (f r) = st_version r"
    update_stock
  unfolding update_stock_def [abs_def] by (rule cas_optimistic_table) simp_all

section \<open>Stock movements\<close>

text \<open>
  The unique key (companyId, clientOperationId, type): a \<open>NULL\<close> operation id never collides.
\<close>

definition movement_clash :: "string \<Rightarrow> string option \<Rightarrow> movement_type \<Rightarrow> movement_row \<Rightarrow> bool" where
  "movement_clash c op ty r \<longleftrightarrow> op \<noteq> None \<and> mv_company r = c \<and> mv_clientOp r = op \<and> mv_type r = ty"

record movement_data =
  md_company :: string
  md_product :: string
  md_warehouse :: string
  md_type :: movement_type
  md_quantity :: int
  md_before :: int
  md_after :: int
  md_refType :: "string option"
  md_refId :: "string option"
  md_comment :: "string option"
  md_clientOp :: "string option"
  md_user :: "string option"

definition create_stock_movement :: "movement_data \<Rightarrow> movement_row wtx" where
  "create_stock_movement d =
     bind (ask t_movement) (\<lambda>t.
     bind (require (find_first (movement_clash (md_company d) (md_clientOp d) (md_type d)) t = None)
             (UniqueViolation [''companyId'', ''clientOperationId'', ''type''])) (\<lambda>_.
     bind fresh_uuid (\<lambda>u.
     bind (ask now) (\<lambda>clock.
     let row = \<lparr>mv_id = u, mv_company = md_company d, mv_product = md_product d,
                mv_warehouse = md_warehouse d, mv_type = md_type d, mv_quantity = md_quantity d,
                mv_before = md_before d, mv_after = md_after d, mv_refType = md_refType d,
                mv_refId = md_refId d, mv_comment = md_comment d, mv_createdBy = md_user d,
                mv_clientOp = md_clientOp d, mv_createdAt = clock\<rparr> in
     bind (change (\<lambda>w. w\<lparr>t_movement := t_movement w @ [row]\<rparr>)) (\<lambda>_. ret row)))))"

definition find_stock_movements ::
  "string \<Rightarrow> string option \<Rightarrow> string option \<Rightarrow> movement_type option \<Rightarrow> nat option \<Rightarrow> nat option \<Rightarrow>
     movement_row list wtx" where
  "find_stock_movements c product warehouse ty limit offset =
     ask (\<lambda>w. take (case limit of None \<Rightarrow> 50 | Some n \<Rightarrow> n)
       (drop (case offset of None \<Rightarrow> 0 | Some n \<Rightarrow> n)
         (sort_key (\<lambda>r. - mv_createdAt r)
           (find_many (\<lambda>r. mv_company r = c \<and>
              (case product of None \<Rightarrow> True | Some p \<Rightarrow> p = '''' \<or> mv_product r = p) \<and>
              (case warehouse of None \<Rightarrow> True | Some h \<Rightarrow> h = '''' \<or> mv_warehouse r = h) \<and>
              (case ty of None \<Rightarrow> True | Some y \<Rightarrow> mv_type r = y)) (t_movement w)))))"

section \<open>Cost layers\<close>

text \<open>Both cost columns are \<^verbatim>\<open>Decimal(18, 4)\<close>.\<close>

definition create_cost_layer ::
  "string \<Rightarrow> string \<Rightarrow> string option \<Rightarrow> string \<Rightarrow> int \<Rightarrow> int \<Rightarrow> decimal \<Rightarrow> decimal \<Rightarrow>
     string option \<Rightarrow> string option \<Rightarrow> layer_row wtx" where
  "create_cost_layer c p batch direction quantity remaining unitCost totalCost refType refId =
     bind fresh_uuid (\<lambda>u.
     bind (ask now) (\<lambda>clock.
     let row = \<lparr>cl_id = u, cl_company = c, cl_product = p, cl_batch = batch,
                cl_direction = direction, cl_quantity = quantity, cl_remaining = remaining,
                cl_unitCost = round4 unitCost, cl_totalCost = round4 totalCost,
                cl_refType = refType, cl_refId = refId, cl_version = 0, cl_createdAt = clock\<rparr> in
     bind (change (\<lambda>w. w\<lparr>t_layer := t_layer w @ [row]\<rparr>)) (\<lambda>_. ret row)))"

definition active_layer :: "string \<Rightarrow> string \<Rightarrow> layer_row \<Rightarrow> bool" where
  "active_layer p c r \<longleftrightarrow> cl_product r = p \<and> cl_company r = c \<and> cl_direction r = ''IN'' \<and> 0 < cl_remaining r"

definition active_layers :: "world \<Rightarrow> string \<Rightarrow> string \<Rightarrow> layer_row list" where
  "active_layers w p c = sort_key cl_createdAt (find_many (active_layer p c) (t_layer w))"

definition find_active_cost_layers :: "string \<Rightarrow> string \<Rightarrow> layer_row list wtx" where
  "find_active_cost_layers p c = ask (\<lambda>w. active_layers w p c)"

definition consume_cost_layer :: "string \<Rightarrow> int \<Rightarrow> int \<Rightarrow> bool wtx" where
  "consume_cost_layer i remaining expected =
     bind (ask t_layer) (\<lambda>t.
     let hit = (\<lambda>r. cl_id r = i \<and> cl_remaining r = expected) in
     bind (change (\<lambda>w. w\<lparr>t_layer := update_rows hit
            (\<lambda>r. r\<lparr>cl_remaining := remaining, cl_version := cl_version r + 1\<rparr>) (t_layer w)\<rparr>)) (\<lambda>_.
     ret (count_rows hit t > 0)))"

definition find_out_layer_by_reference :: "string \<Rightarrow> string \<Rightarrow> string \<Rightarrow> layer_row option wtx" where
  "find_out_layer_by_reference c refType refId =
     ask (\<lambda>w. find_first (\<lambda>_. True) (sort_key cl_createdAt
       (find_many (\<lambda>r. cl_company r = c \<and> cl_direction r = ''OUT'' \<and>
          cl_refType r = Some refType \<and> cl_refId r = Some refId) (t_layer w))))"

definition find_out_layers_by_reference_and_product ::
  "string \<Rightarrow> string \<Rightarrow> string \<Rightarrow> string \<Rightarrow> layer_row list wtx" where
  "find_out_layers_by_reference_and_product c refType refId p =
     ask (\<lambda>w. sort_key cl_createdAt (sort_key cl_id
       (find_many (\<lambda>r. cl_company r = c \<and> cl_product r = p \<and> cl_direction r = ''OUT'' \<and>
          cl_refType r = Some refType \<and> cl_refId r = Some refId) (t_layer w))))"

section \<open>Inventory counts\<close>

text \<open>\<^verbatim>\<open>createInventoryCount\<close>, under the unique key (companyId, countNumber).\<close>

definition create_inventory_count ::
  "string \<Rightarrow> string \<Rightarrow> string \<Rightarrow> string option \<Rightarrow> string \<Rightarrow> count_row wtx" where
  "create_inventory_count c wh number notes countedBy =
     bind (ask t_count) (\<lambda>t.
     bind (require (find_first (\<lambda>r. ic_company r = c \<and> ic_number r = number) t = None)
             (UniqueViolation [''companyId'', ''countNumber''])) (\<lambda>_.
     bind fresh_uuid (\<lambda>u.
     let row = \<lparr>ic_id = u, ic_company = c, ic_warehouse = wh, ic_number = number,
                ic_status = CountDraft, ic_countedBy = Some countedBy, ic_approvedBy = None,
                ic_notes = notes, ic_version = 0, ic_deleted = None, ic_items = []\<rparr> in
     bind (change (\<lambda>w. w\<lparr>t_count := t_count w @ [row]\<rparr>)) (\<lambda>_. ret row))))"

definition find_inventory_count_by_id :: "string \<Rightarrow> string \<Rightarrow> count_row option wtx" where
  "find_inventory_count_by_id i c =
     ask (\<lambda>w. find_first (\<lambda>r. ic_id r = i \<and> ic_company r = c \<and> ic_deleted r = None) (t_count w))"

definition update_inventory_count ::
  "string \<Rightarrow> (count_row \<Rightarrow> count_row) \<Rightarrow> string \<Rightarrow> int \<Rightarrow> count_row wtx" where
  "update_inventory_count i f c v =
     cas_write t_count t_count_update
       (\<lambda>r. ic_id r = i \<and> ic_company r = c \<and> ic_version r = v)
       (\<lambda>r. ic_id r = i \<and> ic_company r = c) (\<lambda>r. ic_id r = i)
       (bump_ver (\<lambda>r. r\<lparr>ic_version := ic_version r + 1\<rparr>) f)
       (NotFound ''Inventory count not found'')
       (Conflict ''Inventory count was modified by another user.'')"

interpretation count_table: optimistic_table t_count ic_id ic_company ic_version
    "\<lambda>f. \<forall>r. ic_id (f r) = ic_id r \<and> ic_company (f r) = ic_company r \<and> ic_version (f r) = ic_version r"
    update_inventory_count
  unfolding update_inventory_count_def [abs_def] by (rule cas_optimistic_table) simp_all

text \<open>\<^verbatim>\<open>createInventoryCountItem\<close>: items are kept inside their count row.\<close>

definition create_inventory_count_item ::
  "string \<Rightarrow> string \<Rightarrow> int \<Rightarrow> int \<Rightarrow> int \<Rightarrow> string option \<Rightarrow> unit wtx" where
  "create_inventory_count_item count p expected actual difference notes =
     bind fresh_uuid (\<lambda>u.
     change (\<lambda>w. w\<lparr>t_count := update_rows (\<lambda>r. ic_id r = count)
       (\<lambda>r. r\<lparr>ic_items := ic_items r @
          [\<lparr>ci_id = u, ci_product = p, ci_expected = expected, ci_actual = actual,
            ci_difference = difference, ci_notes = notes, ci_version = 0\<rparr>]\<rparr>) (t_count w)\<rparr>))"

section \<open>Products\<close>

definition find_product_by_id :: "string \<Rightarrow> string \<Rightarrow> product_row option wtx" where
  "find_product_by_id i c =
     ask (\<lambda>w. find_first (\<lambda>r. pr_id r = i \<and> pr_company r = c \<and> pr_deleted r = None) (t_product w))"

definition update_product_cost :: "string \<Rightarrow> decimal \<Rightarrow> unit wtx" where
  "update_product_cost i cost =
     bind (ask t_product) (\<lambda>t.
     bind (require (find_first (\<lambda>r. pr_id r = i) t \<noteq> None) RecordMissing) (\<lambda>_.
     change (\<lambda>w. w\<lparr>t_product := update_rows (\<lambda>r. pr_id r = i)
       (\<lambda>r. r\<lparr>pr_costPrice := Some (round4 cost)\<rparr>) (t_product w)\<rparr>)))"

definition find_products_by_ids :: "string list \<Rightarrow> string \<Rightarrow> product_row list wtx" where
  "find_products_by_ids is c =
     ask (\<lambda>w. find_many (\<lambda>r. pr_id r \<in> set is \<and> pr_company r = c \<and> pr_deleted r = None) (t_product w))"

section \<open>Frames and inversions\<close>

lemmas repository_reads =
  find_warehouse_by_id_def find_stock_by_product_def find_stock_by_product_and_warehouse_def
  find_all_stock_def find_stock_movements_def find_active_cost_layers_def
  find_out_layer_by_reference_def find_out_layers_by_reference_and_product_def
  find_inventory_count_by_id_def find_product_by_id_def find_products_by_ids_def

lemma frame_reads [frame_intros]:
  "frame g (find_warehouse_by_id i c)" "frame g (find_stock_by_product p c)"
  "frame g (find_stock_by_product_and_warehouse p wh c)" "frame g (find_all_stock c)"
  "frame g (find_active_cost_layers p c)" "frame g (find_inventory_count_by_id i c)"
  "frame g (find_product_by_id i c)" "frame g (find_products_by_ids is c)"
  by (simp_all add: repository_reads frame_ask)

lemma frame_update_stock [frame_intros]:
  "(\<And>h w. g (t_stock_update h w) = g w) \<Longrightarrow> frame g (update_stock i f c v)"
  unfolding update_stock_def by (rule frame_cas_write)

lemma frame_update_inventory_count [frame_intros]:
  "(\<And>h w. g (t_count_update h w) = g w) \<Longrightarrow> frame g (update_inventory_count i f c v)"
  unfolding update_inventory_count_def by (rule frame_cas_write)

lemma frame_create_stock [frame_intros]:
  "(\<And>h w. g (t_stock_update h w) = g w) \<Longrightarrow> (\<And>h w. g (uuid_next_update h w) = g w) \<Longrightarrow>
     frame g (create_stock p wh c q r a)"
  unfolding create_stock_def Let_def by (intro frame_intros) auto

lemma frame_create_stock_movement [frame_intros]:
  "(\<And>h w. g (t_movement_update h w) = g w) \<Longrightarrow> (\<And>h w. g (uuid_next_update h w) = g w) \<Longrightarrow>
     frame g (create_stock_movement d)"
  unfolding create_stock_movement_def Let_def by (intro frame_intros) auto

lemma frame_create_cost_layer [frame_intros]:
  "(\<And>h w. g (t_layer_update h w) = g w) \<Longrightarrow> (\<And>h w. g (uuid_next_update h w) = g w) \<Longrightarrow>
     frame g (create_cost_layer c p b d q r u t rt ri)"
  unfolding create_cost_layer_def Let_def by (intro frame_intros) auto

lemma frame_consume_cost_layer [frame_intros]:
  "(\<And>h w. g (t_layer_update h w) = g w) \<Longrightarrow> frame g (consume_cost_layer i r e)"
  unfolding consume_cost_layer_def Let_def by (intro frame_intros) auto

lemma advances_reads [frame_intros]:
  "advances (find_warehouse_by_id i c)" "advances (find_stock_by_product p c)"
  "advances (find_stock_by_product_and_warehouse p wh c)" "advances (find_all_stock c)"
  "advances (find_active_cost_layers p c)" "advances (find_inventory_count_by_id i c)"
  "advances (find_product_by_id i c)" "advances (find_products_by_ids is c)"
  by (simp_all add: repository_reads frame_intros)

lemma advances_writes [frame_intros]:
  "advances (update_stock i f c v)" "advances (update_inventory_count i g c v)"
  "advances (create_stock p wh c q r a)" "advances (create_stock_movement d)"
  "advances (create_cost_layer c p b dir q r u t rt ri)" "advances (consume_cost_layer i k e)"
  unfolding update_stock_def update_inventory_count_def create_stock_def create_stock_movement_def
    create_cost_layer_def consume_cost_layer_def Let_def
  by (intro frame_intros; simp)+

text \<open>What a successful write did; used to take a successful run of a service apart.\<close>

lemma create_stock_Inr [tx_simps]:
  "create_stock p wh c q r a w = (Inr row, w') \<longleftrightarrow>
     (\<forall>s \<in> set (t_stock w). \<not> (st_product s = p \<and> st_warehouse s = wh)) \<and>
     row = \<lparr>st_id = uuid_gen w (uuid_next w), st_company = c, st_product = p, st_warehouse = wh,
        st_quantity = q, st_reserved = r, st_available = a, st_version = 0\<rparr> \<and>
     w' = w\<lparr>uuid_next := Suc (uuid_next w), t_stock := t_stock w @ [row]\<rparr>"
  by (auto simp: create_stock_def Let_def bind_def find_first_None_iff split: if_splits)

lemma create_stock_movement_Inr [tx_simps]:
  "create_stock_movement d w = (Inr row, w') \<longleftrightarrow>
     (\<forall>m \<in> set (t_movement w). \<not> movement_clash (md_company d) (md_clientOp d) (md_type d) m) \<and>
     row = \<lparr>mv_id = uuid_gen w (uuid_next w), mv_company = md_company d, mv_product = md_product d,
        mv_warehouse = md_warehouse d, mv_type = md_type d, mv_quantity = md_quantity d,
        mv_before = md_before d, mv_after = md_after d, mv_refType = md_refType d,
        mv_refId = md_refId d, mv_comment = md_comment d, mv_createdBy = md_user d,
        mv_clientOp = md_clientOp d, mv_createdAt = now w\<rparr> \<and>
     w' = w\<lparr>uuid_next := Suc (uuid_next w), t_movement := t_movement w @ [row]\<rparr>"
  by (auto simp: create_stock_movement_def Let_def bind_def find_first_None_iff split: if_splits)

lemma update_stock_hit:
  assumes "s \<in> set (t_stock w)" and "st_company s = c" and "\<And>r. st_id (f r) = st_id r"
  shows "\<exists>x w'. update_stock (st_id s) f c (st_version s) w = (Inr x, w')"
  unfolding update_stock_def
  using cas_write_hit [of s t_stock w "\<lambda>r. st_id r = st_id s \<and> st_company r = c \<and> st_version r = st_version s"
      "\<lambda>r. st_id r = st_id s" "bump_ver (\<lambda>r. r\<lparr>st_version := st_version r + 1\<rparr>) f" t_stock_update] assms
  by (fastforce simp: bump_ver_def)

lemma update_stock_Inr:
  assumes "update_stock i f c v w = (Inr r', w')"
  shows "(\<exists>r \<in> set (t_stock w). st_id r = i \<and> st_company r = c \<and> st_version r = v) \<and>
     w' = w\<lparr>t_stock := update_rows (\<lambda>r. st_id r = i \<and> st_company r = c \<and> st_version r = v)
        (\<lambda>r. (f r)\<lparr>st_version := st_version (f r) + 1\<rparr>) (t_stock w)\<rparr> \<and>
     find_first (\<lambda>r. st_id r = i) (t_stock w') = Some r'"
  using cas_write_Inr [OF assms [unfolded update_stock_def]] by (auto simp: bump_ver_def [abs_def])

end
