(* ===== verification/Costing.thy ===== *)
theory Costing
  imports InventoryRepository "HOL-Library.Multiset"
begin

text \<open>
  \<^verbatim>\<open>inventory/services/costing.service.ts\<close>: inbound cost layers, FIFO consumption with the legacy
  costPrice fallback, the restore primitives of refunds, average cost and valuation. The closed form
  of a FIFO consumption is \<open>fifo_share\<close>; the locale \<open>layer_pool\<close> is what the stock operations rely on.
\<close>

section \<open>Recording and consuming layers\<close>

definition record_inbound_layer ::
  "string \<Rightarrow> string \<Rightarrow> int \<Rightarrow> decimal \<Rightarrow> string \<Rightarrow> string \<Rightarrow> string option \<Rightarrow> unit wtx" where
  "record_inbound_layer p c quantity unitCost refType refId batch =
     bind (create_cost_layer c p batch ''IN'' quantity quantity unitCost
             (unitCost * of_int quantity) (Some refType) (Some refId)) (\<lambda>_. ret ())"

record consumed_layer =
  cn_layer :: string
  cn_quantity :: int
  cn_unitCost :: decimal
  cn_cost :: decimal

text \<open>\<^verbatim>\<open>FifoConsumptionResult\<close>; the amounts are kept as decimals, the code prints them.\<close>

record fifo_result =
  fr_totalCost :: decimal
  fr_layers :: "consumed_layer list"
  fr_fallback :: decimal

text \<open>The loop over the layers read at the start: remaining quantity, running total, consumed list.\<close>

primrec consume_loop ::
  "layer_row list \<Rightarrow> int \<Rightarrow> decimal \<Rightarrow> consumed_layer list \<Rightarrow>
     (int \<times> decimal \<times> consumed_layer list) wtx" where
  "consume_loop [] remaining layered consumed = ret (remaining, layered, consumed)"
| "consume_loop (l # ls) remaining layered consumed =
     (if remaining \<le> 0 then ret (remaining, layered, consumed)
      else
        let consumeQty = min remaining (cl_remaining l);
            newRemaining = cl_remaining l - consumeQty;
            cost = cl_unitCost l * of_int consumeQty in
        bind (consume_cost_layer (cl_id l) newRemaining (cl_remaining l)) (\<lambda>updated.
        bind (require updated (Conflict ''Cost layer was modified concurrently. Please retry the transaction.''))
          (\<lambda>_. consume_loop ls (remaining - consumeQty) (layered + cost)
             (consumed @ [\<lparr>cn_layer = cl_id l, cn_quantity = consumeQty,
                           cn_unitCost = cl_unitCost l, cn_cost = cost\<rparr>]))))"

text \<open>The shortfall, priced at \<^verbatim>\<open>product.costPrice\<close>; a missing basis is a 400.\<close>

definition fallback_cost :: "string \<Rightarrow> string \<Rightarrow> int \<Rightarrow> decimal wtx" where
  "fallback_cost p c remaining =
     (if remaining > 0 then
        bind (find_product_by_id p c) (\<lambda>product.
        case product of
          None \<Rightarrow> throw (BadRequest ''Insufficient cost layers and no costPrice basis.'')
        | Some pr \<Rightarrow>
            (case pr_costPrice pr of
               None \<Rightarrow> throw (BadRequest ''Insufficient cost layers and no costPrice basis.'')
             | Some price \<Rightarrow> ret (price * of_int remaining)))
      else ret 0)"

definition consume_fifo_layers ::
  "string \<Rightarrow> string \<Rightarrow> int \<Rightarrow> string \<Rightarrow> string \<Rightarrow> fifo_result wtx" where
  "consume_fifo_layers p c quantity refType refId =
     bind (find_active_cost_layers p c) (\<lambda>layers.
     bind (consume_loop layers quantity 0 []) (\<lambda>(remaining, layered, consumed).
     bind (fallback_cost p c remaining) (\<lambda>fallback.
     bind (ask dec_div) (\<lambda>quotient.
     let totalCost = layered + fallback in
     bind (create_cost_layer c p None ''OUT'' quantity 0
             (if quantity > 0 then quotient totalCost (of_int quantity) else 0) totalCost
             (Some refType) (Some refId)) (\<lambda>_.
     ret \<lparr>fr_totalCost = totalCost, fr_layers = consumed, fr_fallback = fallback\<rparr>)))))"

section \<open>Average cost and the basis of a positive entry\<close>

definition calculate_average_cost :: "string \<Rightarrow> string \<Rightarrow> decimal wtx" where
  "calculate_average_cost p c =
     bind (find_active_cost_layers p c) (\<lambda>layers.
     bind (ask dec_div) (\<lambda>quotient.
     let totalCost = (\<Sum>l\<leftarrow>layers. cl_unitCost l * of_int (cl_remaining l));
         totalQty = (\<Sum>l\<leftarrow>layers. cl_remaining l) in
     ret (if layers = [] then 0 else if totalQty > 0 then quotient totalCost (of_int totalQty) else 0)))"

datatype cost_basis = Average decimal | CostPrice decimal | NoBasis

definition basis_cost :: "cost_basis \<Rightarrow> decimal option" where
  "basis_cost b = (case b of Average x \<Rightarrow> Some x | CostPrice x \<Rightarrow> Some x | NoBasis \<Rightarrow> None)"

definition resolve_positive_entry_unit_cost :: "string \<Rightarrow> string \<Rightarrow> cost_basis wtx" where
  "resolve_positive_entry_unit_cost p c =
     bind (calculate_average_cost p c) (\<lambda>averageCost.
     if averageCost \<noteq> 0 then ret (Average averageCost)
     else
       bind (find_product_by_id p c) (\<lambda>product.
       case Option.bind product pr_costPrice of
         Some price \<Rightarrow> ret (CostPrice price)
       | None \<Rightarrow> ret NoBasis))"

section \<open>Restore primitives and look-ups\<close>

definition restore_layer ::
  "string \<Rightarrow> string \<Rightarrow> int \<Rightarrow> decimal \<Rightarrow> string \<Rightarrow> string \<Rightarrow> unit wtx" where
  "restore_layer p c quantity unitCost refType refId =
     bind (require (\<not> quantity \<le> 0) (NotFound ''Restore quantity must be positive'')) (\<lambda>_.
     bind (create_cost_layer c p None ''IN'' quantity quantity unitCost
             (unitCost * of_int quantity) (Some refType) (Some refId)) (\<lambda>_. ret ()))"

definition restore_refund_layer ::
  "string \<Rightarrow> string \<Rightarrow> int \<Rightarrow> decimal \<Rightarrow> string \<Rightarrow> string \<Rightarrow> unit wtx" where
  "restore_refund_layer p c quantity totalCost refType refId =
     bind (require (\<not> quantity \<le> 0) (NotFound ''Restore quantity must be positive'')) (\<lambda>_.
     bind (require (\<not> totalCost < 0) (NotFound ''Restore totalCost must not be negative'')) (\<lambda>_.
     bind (ask dec_div) (\<lambda>quotient.
     bind (create_cost_layer c p None ''IN'' quantity quantity (quotient totalCost (of_int quantity))
             totalCost (Some refType) (Some refId)) (\<lambda>_. ret ()))))"

definition find_out_layer_for :: "string \<Rightarrow> string \<Rightarrow> string \<Rightarrow> layer_row option wtx" where
  "find_out_layer_for c refType refId = find_out_layer_by_reference c refType refId"

definition find_out_layers_for :: "string \<Rightarrow> string \<Rightarrow> string \<Rightarrow> string \<Rightarrow> layer_row list wtx" where
  "find_out_layers_for c refType refId p = find_out_layers_by_reference_and_product c refType refId p"

section \<open>Valuation\<close>

record valuation_line =
  vl_product :: string
  vl_warehouse :: string
  vl_quantity :: int
  vl_averageCost :: decimal
  vl_value :: decimal

primrec valuation_loop :: "string \<Rightarrow> stock_row list \<Rightarrow> valuation_line list wtx" where
  "valuation_loop c [] = ret []"
| "valuation_loop c (item # items) =
     bind (calculate_average_cost (st_product item) c) (\<lambda>avgCost.
     bind (valuation_loop c items) (\<lambda>rest.
     ret (\<lparr>vl_product = st_product item, vl_warehouse = st_warehouse item,
           vl_quantity = st_quantity item, vl_averageCost = avgCost,
           vl_value = avgCost * of_int (st_quantity item)\<rparr> # rest)))"

definition get_valuation :: "string \<Rightarrow> valuation_line list wtx" where
  "get_valuation c = bind (find_all_stock c) (valuation_loop c)"

record product_valuation =
  pv_product :: string
  pv_quantity :: int
  pv_averageCost :: decimal
  pv_value :: decimal
  pv_by_warehouse :: "(string \<times> int \<times> decimal) list"

definition get_product_valuation :: "string \<Rightarrow> string \<Rightarrow> product_valuation wtx" where
  "get_product_valuation p c =
     bind (find_stock_by_product p c) (\<lambda>stock.
     bind (calculate_average_cost p c) (\<lambda>avgCost.
     let totalQty = (\<Sum>s\<leftarrow>stock. st_quantity s) in
     ret \<lparr>pv_product = p, pv_quantity = totalQty, pv_averageCost = avgCost,
          pv_value = avgCost * of_int totalQty,
          pv_by_warehouse = map (\<lambda>s. (st_warehouse s, st_quantity s, avgCost * of_int (st_quantity s))) stock\<rparr>))"

section \<open>Frames\<close>

lemma frame_record_inbound_layer [frame_intros]:
  "(\<And>h w. g (t_layer_update h w) = g w) \<Longrightarrow> (\<And>h w. g (uuid_next_update h w) = g w) \<Longrightarrow>
     frame g (record_inbound_layer p c q u rt ri b)"
  unfolding record_inbound_layer_def by (intro frame_intros) auto

lemma frame_consume_loop:
  "(\<And>h w. g (t_layer_update h w) = g w) \<Longrightarrow> frame g (consume_loop ls r t acc)"
  by (induction ls arbitrary: r t acc) (auto intro!: frame_intros simp: Let_def)

lemma frame_fallback_cost [frame_intros]: "frame g (fallback_cost p c r)"
  unfolding fallback_cost_def by (intro frame_intros)

lemma frame_consume_fifo_layers [frame_intros]:
  "(\<And>h w. g (t_layer_update h w) = g w) \<Longrightarrow> (\<And>h w. g (uuid_next_update h w) = g w) \<Longrightarrow>
     frame g (consume_fifo_layers p c q rt ri)"
  unfolding consume_fifo_layers_def Let_def
  by (intro frame_intros frame_consume_loop) auto

lemma calculate_average_cost_run [simp]:
  "calculate_average_cost p c w = (Inr (let ls = active_layers w p c; q = (\<Sum>l\<leftarrow>ls. cl_remaining l) in
     if ls = [] then 0 else if q > 0
     then dec_div w (\<Sum>l\<leftarrow>ls. cl_unitCost l * of_int (cl_remaining l)) (of_int q) else 0), w)"
  by (simp add: calculate_average_cost_def find_active_cost_layers_def Let_def)

lemma frame_calculate_average_cost [frame_intros]: "frame g (calculate_average_cost p c)"
  by (simp add: frame_def)

lemma frame_resolve_positive_entry_unit_cost [frame_intros]:
  "frame g (resolve_positive_entry_unit_cost p c)"
  unfolding resolve_positive_entry_unit_cost_def by (intro frame_intros)

lemma advances_consume_loop [frame_intros]: "advances (consume_loop ls r t acc)"
  by (induction ls arbitrary: r t acc) (auto intro!: frame_intros simp: Let_def)

lemma advances_costing [frame_intros]:
  "advances (record_inbound_layer p c q u rt ri b)" "advances (fallback_cost p c k)"
  "advances (consume_fifo_layers p c q rt ri)" "advances (calculate_average_cost p c)"
  "advances (resolve_positive_entry_unit_cost p c)"
  unfolding record_inbound_layer_def fallback_cost_def consume_fifo_layers_def
    calculate_average_cost_def resolve_positive_entry_unit_cost_def Let_def
  by (intro frame_intros; simp)+

section \<open>FIFO in closed form\<close>

text \<open>
  \<open>fifo_share ls q i\<close>: what a consumption of \<open>q\<close> units takes from the layer with id \<open>i\<close> of the queue
  \<open>ls\<close> --- whatever the layers ahead of it leave, capped by what it holds.
\<close>

definition fifo_share :: "layer_row list \<Rightarrow> int \<Rightarrow> string \<Rightarrow> int" where
  "fifo_share ls q i = (case find_first (\<lambda>l. cl_id l = i) ls of
       None \<Rightarrow> 0
     | Some l \<Rightarrow> max 0 (min (cl_remaining l)
         (q - (\<Sum>x\<leftarrow>takeWhile (\<lambda>x. cl_id x \<noteq> i) ls. cl_remaining x))))"

definition layer_units :: "layer_row list \<Rightarrow> int" where
  "layer_units ls = (\<Sum>l\<leftarrow>ls. cl_remaining l)"

definition layer_value :: "layer_row list \<Rightarrow> decimal" where
  "layer_value ls = (\<Sum>l\<leftarrow>ls. cl_unitCost l * of_int (cl_remaining l))"

definition shortfall :: "layer_row list \<Rightarrow> int \<Rightarrow> int" where
  "shortfall ls q = max 0 (q - layer_units ls)"

text \<open>The effect of a consumption on one row of the table.\<close>

definition drain :: "(string \<Rightarrow> int) \<Rightarrow> layer_row \<Rightarrow> layer_row" where
  "drain share r = (if share (cl_id r) > 0
     then r\<lparr>cl_remaining := cl_remaining r - share (cl_id r), cl_version := cl_version r + 1\<rparr> else r)"

lemma drain_simps [simp]:
  "cl_id (drain f r) = cl_id r" "cl_company (drain f r) = cl_company r"
  "cl_product (drain f r) = cl_product r" "cl_direction (drain f r) = cl_direction r"
  "cl_unitCost (drain f r) = cl_unitCost r" "cl_createdAt (drain f r) = cl_createdAt r"
  "cl_quantity (drain f r) = cl_quantity r"
  "cl_remaining (drain f r) = cl_remaining r - max 0 (f (cl_id r))"
  by (simp_all add: drain_def)

definition positive_layers :: "layer_row list \<Rightarrow> bool" where
  "positive_layers ls \<longleftrightarrow> (\<forall>l \<in> set ls. 0 < cl_remaining l)"

lemma positive_layers_simps [simp]:
  "positive_layers []" "positive_layers (l # ls) \<longleftrightarrow> 0 < cl_remaining l \<and> positive_layers ls"
  by (auto simp: positive_layers_def)

lemma layer_units_nonneg: "positive_layers ls \<Longrightarrow> 0 \<le> layer_units ls"
  unfolding layer_units_def positive_layers_def by (auto intro!: sum_list_nonneg simp: less_imp_le)

lemma takeWhile_units_nonneg:
  "positive_layers ls \<Longrightarrow> 0 \<le> (\<Sum>x\<leftarrow>takeWhile P ls. cl_remaining x)"
  unfolding positive_layers_def by (auto intro!: sum_list_nonneg dest!: set_takeWhileD simp: less_imp_le)

lemma fifo_share_nonneg: "0 \<le> fifo_share ls q i"
  by (simp add: fifo_share_def split: option.splits)

lemma fifo_share_none: "positive_layers ls \<Longrightarrow> q \<le> 0 \<Longrightarrow> fifo_share ls q i = 0"
  using takeWhile_units_nonneg [of ls "\<lambda>x. cl_id x \<noteq> i"]
  by (auto simp: fifo_share_def split: option.splits)

lemma fifo_share_absent: "i \<notin> cl_id ` set ls \<Longrightarrow> fifo_share ls q i = 0"
  by (auto simp: fifo_share_def split: option.splits dest!: find_first_SomeD)

lemma fifo_share_Cons:
  assumes "positive_layers (l # ls)" and "0 < q"
  shows "fifo_share (l # ls) q i =
     (if i = cl_id l then min q (cl_remaining l)
      else fifo_share ls (q - min q (cl_remaining l)) i)"
proof (cases "i = cl_id l")
  case True
  with assms show ?thesis by (simp add: fifo_share_def)
next
  case False
  have eq: "fifo_share (l # ls) q i = fifo_share ls (q - cl_remaining l) i"
    using False by (simp add: fifo_share_def algebra_simps split: option.splits)
  show ?thesis
  proof (cases "q \<le> cl_remaining l")
    case True
    with False assms(1) eq show ?thesis by (simp add: fifo_share_none)
  next
    case False
    with \<open>i \<noteq> cl_id l\<close> eq show ?thesis by simp
  qed
qed

text \<open>The consumed list the loop returns, in closed form.\<close>

definition consumption :: "layer_row list \<Rightarrow> int \<Rightarrow> consumed_layer list" where
  "consumption ls q = map (\<lambda>l. let k = fifo_share ls q (cl_id l) in
      \<lparr>cn_layer = cl_id l, cn_quantity = k, cn_unitCost = cl_unitCost l,
       cn_cost = cl_unitCost l * of_int k\<rparr>)
     (filter (\<lambda>l. 0 < fifo_share ls q (cl_id l)) ls)"

definition layered_cost :: "layer_row list \<Rightarrow> int \<Rightarrow> decimal" where
  "layered_cost ls q = (\<Sum>l\<leftarrow>ls. cl_unitCost l * of_int (fifo_share ls q (cl_id l)))"

lemma consumption_none:
  assumes "positive_layers ls" and "q \<le> 0"
  shows "consumption ls q = []" and "layered_cost ls q = 0" and "shortfall ls q = 0"
  using assms layer_units_nonneg [OF assms(1)]
  by (simp_all add: consumption_def layered_cost_def shortfall_def fifo_share_none)

lemma consumption_Cons:
  assumes pos: "positive_layers (l # ls)" and q: "0 < q" and new: "cl_id l \<notin> cl_id ` set ls"
  defines "k \<equiv> min q (cl_remaining l)"
  shows "consumption (l # ls) q =
      \<lparr>cn_layer = cl_id l, cn_quantity = k, cn_unitCost = cl_unitCost l,
       cn_cost = cl_unitCost l * of_int k\<rparr> # consumption ls (q - k)" (is ?cons)
    and "layered_cost (l # ls) q = cl_unitCost l * of_int k + layered_cost ls (q - k)" (is ?cost)
proof -
  have share: "fifo_share (l # ls) q (cl_id x) = fifo_share ls (q - k) (cl_id x)" if "x \<in> set ls" for x
  proof -
    have "cl_id x \<noteq> cl_id l" using new that by (metis image_eqI)
    then show ?thesis by (simp add: fifo_share_Cons [OF pos q] k_def)
  qed
  have head: "fifo_share (l # ls) q (cl_id l) = k" by (simp add: fifo_share_Cons [OF pos q] k_def)
  have "0 < k" using pos q by (simp add: k_def)
  then show ?cons
    by (auto simp: consumption_def head share Let_def cong: filter_cong)
  have "layered_cost (l # ls) q = cl_unitCost l * of_int k +
      (\<Sum>x\<leftarrow>ls. cl_unitCost x * of_int (fifo_share (l # ls) q (cl_id x)))"
    by (simp add: layered_cost_def head)
  also have "(\<Sum>x\<leftarrow>ls. cl_unitCost x * of_int (fifo_share (l # ls) q (cl_id x))) = layered_cost ls (q - k)"
    unfolding layered_cost_def by (rule arg_cong [where f = sum_list]) (simp add: share)
  finally show ?cost .
qed

text \<open>The loop, run to its end: with unique layer ids the guarded update never misses.\<close>

lemma consume_cost_layer_hit:
  assumes "distinct (map cl_id (t_layer w))" and "l \<in> set (t_layer w)"
  shows "consume_cost_layer (cl_id l) k (cl_remaining l) w = (Inr True, w\<lparr>t_layer :=
     update_rows (\<lambda>r. cl_id r = cl_id l)
       (\<lambda>r. r\<lparr>cl_remaining := k, cl_version := cl_version r + 1\<rparr>) (t_layer w)\<rparr>)"
proof -
  have same: "cl_id r = cl_id l \<and> cl_remaining r = cl_remaining l \<longleftrightarrow> cl_id r = cl_id l"
    if "r \<in> set (t_layer w)" for r
    using distinct_map_eq [OF assms(1) that assms(2)] by auto
  have "count_rows (\<lambda>r. cl_id r = cl_id l \<and> cl_remaining r = cl_remaining l) (t_layer w) \<noteq> 0"
    using assms(2) by (auto simp: count_rows_0_iff)
  then show ?thesis
    by (auto simp: consume_cost_layer_def Let_def update_rows_def same cong: map_cong)
qed

lemma consume_loop_run:
  assumes "positive_layers ls" and "distinct (map cl_id ls)" and "set ls \<subseteq> set (t_layer w)"
    and "distinct (map cl_id (t_layer w))" and "0 \<le> q"
  shows "consume_loop ls q layered acc w =
     (Inr (q - min q (layer_units ls), layered + layered_cost ls q, acc @ consumption ls q),
      w\<lparr>t_layer := map (drain (fifo_share ls q)) (t_layer w)\<rparr>)"
  using assms
proof (induction ls arbitrary: q layered acc w)
  case Nil
  have "drain (fifo_share [] q) = (\<lambda>r. r)" by (simp add: fun_eq_iff drain_def fifo_share_def)
  with Nil.prems(5) show ?case
    by (simp add: layer_units_def layered_cost_def consumption_def)
next
  case (Cons l ls)
  show ?case
  proof (cases "q \<le> 0")
    case True
    have "drain (fifo_share (l # ls) q) = (\<lambda>r. r)"
      using True Cons.prems(1) by (simp add: fun_eq_iff drain_def fifo_share_none)
    then show ?thesis
      using True Cons.prems(5) layer_units_nonneg [OF Cons.prems(1)]
        consumption_none [OF Cons.prems(1) True] by simp
  next
    case False
    then have q: "0 < q" by simp
    define k where "k = min q (cl_remaining l)"
    define w1 where "w1 = w\<lparr>t_layer := update_rows (\<lambda>r. cl_id r = cl_id l)
       (\<lambda>r. r\<lparr>cl_remaining := cl_remaining l - k, cl_version := cl_version r + 1\<rparr>) (t_layer w)\<rparr>"
    have l: "l \<in> set (t_layer w)" and new: "cl_id l \<notin> cl_id ` set ls"
      using Cons.prems(2,3) by auto
    have kpos: "0 < k" using q Cons.prems(1) by (simp add: k_def)
    have step: "consume_cost_layer (cl_id l) (cl_remaining l - k) (cl_remaining l) w = (Inr True, w1)"
      unfolding w1_def by (rule consume_cost_layer_hit [OF Cons.prems(4) l])
    have keep: "x \<in> set (t_layer w1)" if "x \<in> set ls" for x
    proof -
      have "cl_id x \<noteq> cl_id l" using new that by (metis image_eqI)
      then show ?thesis using that Cons.prems(3) by (auto simp: w1_def set_update_rows)
    qed
    have ids: "map cl_id (t_layer w1) = map cl_id (t_layer w)"
      by (simp add: w1_def map_update_rows)
    have rest: "consume_loop ls (q - k) (layered + cl_unitCost l * of_int k)
        (acc @ [\<lparr>cn_layer = cl_id l, cn_quantity = k, cn_unitCost = cl_unitCost l,
                 cn_cost = cl_unitCost l * of_int k\<rparr>]) w1 =
      (Inr (q - k - min (q - k) (layer_units ls), layered + layered_cost (l # ls) q,
        acc @ consumption (l # ls) q),
       w1\<lparr>t_layer := map (drain (fifo_share ls (q - k))) (t_layer w1)\<rparr>)"
      using Cons.IH [of w1 "q - k"] Cons.prems(1,2,4) keep ids q
      by (simp add: subset_iff consumption_Cons [OF Cons.prems(1) q new, folded k_def] k_def add.assoc)
    have tab: "map (drain (fifo_share ls (q - k))) (t_layer w1) =
        map (drain (fifo_share (l # ls) q)) (t_layer w)"
    proof -
      have "drain (fifo_share ls (q - k)) (if cl_id r = cl_id l then r\<lparr>cl_remaining := cl_remaining l - k,
          cl_version := cl_version r + 1\<rparr> else r) = drain (fifo_share (l # ls) q) r"
        if "r \<in> set (t_layer w)" for r
      proof (cases "cl_id r = cl_id l")
        case True
        then have "r = l" using distinct_map_eq [OF Cons.prems(4) that l] by simp
        then show ?thesis
          using kpos by (simp add: drain_def fifo_share_absent [OF new]
              fifo_share_Cons [OF Cons.prems(1) q] k_def [symmetric])
      next
        case False
        then show ?thesis
          by (simp add: drain_def fifo_share_Cons [OF Cons.prems(1) q] k_def [symmetric])
      qed
      then show ?thesis by (simp add: w1_def update_rows_def)
    qed
    have rem: "q - k - min (q - k) (layer_units ls) = q - min q (layer_units (l # ls))"
      using layer_units_nonneg [of ls] Cons.prems(1) by (simp add: layer_units_def k_def min_def)
    have unfolded: "consume_loop (l # ls) q layered acc w =
      consume_loop ls (q - k) (layered + cl_unitCost l * of_int k)
        (acc @ [\<lparr>cn_layer = cl_id l, cn_quantity = k, cn_unitCost = cl_unitCost l,
                 cn_cost = cl_unitCost l * of_int k\<rparr>]) w1"
      using q step by (simp add: Let_def k_def [symmetric])
    show ?thesis unfolding unfolded rest rem tab by (simp add: w1_def)
  qed
qed

section \<open>What a consumption does\<close>

definition layers_ok :: "world \<Rightarrow> bool" where
  "layers_ok w \<longleftrightarrow> distinct (map cl_id (t_layer w)) \<and> uuid_fresh w (set (map cl_id (t_layer w)))"

lemma layers_ok_frame:
  assumes "layers_ok w" and "t_layer w' = t_layer w" and "uuid_gen w' = uuid_gen w \<and> uuid_next w \<le> uuid_next w'"
  shows "layers_ok w'"
  using assms uuid_fresh_later [of w _ w'] by (auto simp: layers_ok_def)

lemma active_layers_facts:
  "positive_layers (active_layers w p c)" "set (active_layers w p c) \<subseteq> set (t_layer w)"
  "distinct (map cl_id (t_layer w)) \<Longrightarrow> distinct (map cl_id (active_layers w p c))"
proof -
  show "positive_layers (active_layers w p c)" and "set (active_layers w p c) \<subseteq> set (t_layer w)"
    by (auto simp: active_layers_def find_many_def active_layer_def positive_layers_def)
  assume "distinct (map cl_id (t_layer w))"
  then have "distinct (map cl_id (filter (active_layer p c) (t_layer w)))"
    by (rule distinct_map_filter)
  then show "distinct (map cl_id (active_layers w p c))"
    by (simp add: active_layers_def find_many_def distinct_map)
qed

definition cost_price_of :: "world \<Rightarrow> string \<Rightarrow> string \<Rightarrow> decimal option" where
  "cost_price_of w p c = Option.bind
     (find_first (\<lambda>r. pr_id r = p \<and> pr_company r = c \<and> pr_deleted r = None) (t_product w)) pr_costPrice"

definition out_layer ::
  "world \<Rightarrow> string \<Rightarrow> string \<Rightarrow> int \<Rightarrow> decimal \<Rightarrow> string \<Rightarrow> string \<Rightarrow> layer_row" where
  "out_layer w p c q cost rt ri = \<lparr>cl_id = uuid_gen w (uuid_next w), cl_company = c, cl_product = p,
     cl_batch = None, cl_direction = ''OUT'', cl_quantity = q, cl_remaining = 0,
     cl_unitCost = round4 (if q > 0 then dec_div w cost (of_int q) else 0),
     cl_totalCost = round4 cost, cl_refType = Some rt, cl_refId = Some ri, cl_version = 0,
     cl_createdAt = now w\<rparr>"

lemma fallback_cost_run:
  "fallback_cost p c k w = (if k > 0 then
     (case cost_price_of w p c of
        None \<Rightarrow> (Inl (BadRequest ''Insufficient cost layers and no costPrice basis.''), w)
      | Some x \<Rightarrow> (Inr (x * of_int k), w)) else (Inr 0, w))"
  by (simp add: fallback_cost_def find_product_by_id_def cost_price_of_def split: option.split)

lemma consume_fifo_layers_run:
  fixes p c :: string and q :: int and w :: world
  defines "ls \<equiv> active_layers w p c"
  defines "short \<equiv> shortfall ls q"
    and "t \<equiv> map (drain (fifo_share ls q)) (t_layer w)"
  assumes ids: "distinct (map cl_id (t_layer w))" and q: "0 \<le> q"
  shows "consume_fifo_layers p c q rt ri w =
     (if short > 0 \<and> cost_price_of w p c = None
      then (Inl (BadRequest ''Insufficient cost layers and no costPrice basis.''), w\<lparr>t_layer := t\<rparr>)
      else
        let fallback = (if short > 0 then the (cost_price_of w p c) * of_int short else 0);
            cost = layered_cost ls q + fallback in
        (Inr \<lparr>fr_totalCost = cost, fr_layers = consumption ls q, fr_fallback = fallback\<rparr>,
         w\<lparr>uuid_next := Suc (uuid_next w), t_layer := t @ [out_layer w p c q cost rt ri]\<rparr>))"
proof -
  have loop: "consume_loop ls q 0 [] w =
     (Inr (q - min q (layer_units ls), layered_cost ls q, consumption ls q), w\<lparr>t_layer := t\<rparr>)"
    using consume_loop_run [of ls w q 0 "[]"] active_layers_facts [of w p c] ids q
    by (simp add: ls_def t_def)
  have short: "q - min q (layer_units ls) = short"
    by (simp add: short_def shortfall_def min_def max_def)
  have price: "cost_price_of (w\<lparr>t_layer := t\<rparr>) p c = cost_price_of w p c"
    by (simp add: cost_price_of_def)
  show ?thesis
    unfolding consume_fifo_layers_def
    by (simp add: find_active_cost_layers_def ls_def [symmetric] loop short bind_def
        fallback_cost_run price create_cost_layer_def out_layer_def Let_def split: option.split)
qed

lemma sum_list_sort_key:
  fixes f :: "'a \<Rightarrow> 'n::comm_monoid_add"
  shows "(\<Sum>x\<leftarrow>sort_key k xs. f x) = (\<Sum>x\<leftarrow>xs. f x)"
proof -
  have "mset (map f (sort_key k xs)) = mset (map f xs)" by simp
  then show ?thesis by (metis sum_mset_sum_list)
qed

lemma fifo_share_sum:
  assumes "positive_layers ls" and "distinct (map cl_id ls)" and "0 \<le> q"
  shows "(\<Sum>l\<leftarrow>ls. fifo_share ls q (cl_id l)) = min q (layer_units ls)"
  using assms
proof (induction ls arbitrary: q)
  case Nil
  then show ?case by (simp add: layer_units_def)
next
  case (Cons l ls)
  show ?case
  proof (cases "q = 0")
    case True
    have "(\<Sum>x\<leftarrow>l # ls. fifo_share (l # ls) q (cl_id x)) = 0"
      using True Cons.prems(1) by (simp add: fifo_share_none)
    then show ?thesis
      using True layer_units_nonneg [OF Cons.prems(1)] by (metis min.absorb1)
  next
    case False
    then have q: "0 < q" using Cons.prems(3) by simp
    define k where "k = min q (cl_remaining l)"
    have rest: "fifo_share (l # ls) q (cl_id x) = fifo_share ls (q - k) (cl_id x)" if "x \<in> set ls" for x
    proof -
      have "cl_id x \<noteq> cl_id l" using Cons.prems(2) that by (metis distinct.simps(2) image_eqI list.map(2) list.set_map)
      then show ?thesis by (simp add: fifo_share_Cons [OF Cons.prems(1) q] k_def)
    qed
    have "(\<Sum>x\<leftarrow>ls. fifo_share (l # ls) q (cl_id x)) = (\<Sum>x\<leftarrow>ls. fifo_share ls (q - k) (cl_id x))"
      by (rule arg_cong [where f = sum_list]) (simp add: rest)
    also have "\<dots> = min (q - k) (layer_units ls)"
      using Cons.prems q by (intro Cons.IH) (simp_all add: k_def)
    finally have "(\<Sum>x\<leftarrow>l # ls. fifo_share (l # ls) q (cl_id x)) = k + min (q - k) (layer_units ls)"
      by (simp add: fifo_share_Cons [OF Cons.prems(1) q] k_def)
    also have "\<dots> = min q (layer_units (l # ls))"
      using layer_units_nonneg [of ls] Cons.prems(1) by (simp add: layer_units_def k_def min_def)
    finally show ?thesis .
  qed
qed

text \<open>Sums over the active layers before and after, for any weight that the drain leaves alone.\<close>

lemma active_sum:
  fixes f :: "layer_row \<Rightarrow> 'n::comm_monoid_add"
  shows "(\<Sum>l\<leftarrow>active_layers w p c. f l) = (\<Sum>r\<leftarrow>t_layer w. if active_layer p c r then f r else 0)"
  by (simp add: active_layers_def find_many_def sum_list_sort_key sum_list_map_filter')

lemma share_of_inactive:
  assumes "distinct (map cl_id (t_layer w))" and "r \<in> set (t_layer w)" and "\<not> active_layer p c r"
  shows "fifo_share (active_layers w p c) q (cl_id r) = 0"
proof (rule fifo_share_absent)
  show "cl_id r \<notin> cl_id ` set (active_layers w p c)"
  proof
    assume "cl_id r \<in> cl_id ` set (active_layers w p c)"
    then obtain x where x: "x \<in> set (active_layers w p c)" "cl_id x = cl_id r" by auto
    then have "x = r"
      using distinct_map_eq [OF assms(1)] active_layers_facts(2) [of w p c] assms(2) by blast
    with x(1) assms(3) show False by (auto simp: active_layers_def find_many_def)
  qed
qed

lemma fifo_share_le:
  assumes "distinct (map cl_id ls)" and "l \<in> set ls" and "0 \<le> cl_remaining l"
  shows "fifo_share ls q (cl_id l) \<le> cl_remaining l"
proof -
  have "find_first (\<lambda>x. cl_id x = cl_id l) ls = Some l"
    by (rule find_first_unique [OF assms(1,2)]) simp_all
  with assms(3) show ?thesis by (simp add: fifo_share_def)
qed

lemma share_of_active:
  assumes "distinct (map cl_id (t_layer w))" and "r \<in> set (t_layer w)" and "active_layer p c r"
  shows "fifo_share (active_layers w p c) q (cl_id r) \<le> cl_remaining r"
  using assms active_layers_facts(3) [OF assms(1), of p c]
  by (intro fifo_share_le) (auto simp: active_layers_def find_many_def active_layer_def)

lemma drained_active_sum:
  fixes u :: "layer_row \<Rightarrow> 'n::ring_1"
  assumes ids: "distinct (map cl_id (t_layer w))"
    and u: "\<And>f r. u (drain f r) = u r"
    and t': "t_layer w' = map (drain (fifo_share (active_layers w p c) q)) (t_layer w) @ [x]"
    and x: "cl_direction x \<noteq> ''IN''"
  shows "(\<Sum>l\<leftarrow>active_layers w' p' c'. u l * of_int (cl_remaining l)) =
     (\<Sum>l\<leftarrow>active_layers w p' c'. u l * of_int (cl_remaining l)) -
     (if (p', c') = (p, c)
      then (\<Sum>l\<leftarrow>active_layers w p c. u l * of_int (fifo_share (active_layers w p c) q (cl_id l))) else 0)"
proof -
  let ?s = "fifo_share (active_layers w p c) q"
  let ?g = "\<lambda>r. if active_layer p' c' r then u r * of_int (cl_remaining r) else 0"
  let ?h = "\<lambda>r. if (p', c') = (p, c) \<and> active_layer p c r then u r * of_int (?s (cl_id r)) else 0"
  have "?g (drain ?s r) = ?g r - ?h r" if r: "r \<in> set (t_layer w)" for r
  proof (cases "active_layer p c r")
    case True
    show ?thesis
    proof (cases "(p', c') = (p, c)")
      case same: True
      have "?s (cl_id r) \<le> cl_remaining r" by (rule share_of_active [OF ids r True])
      then show ?thesis
        using True same fifo_share_nonneg [of "active_layers w p c" q "cl_id r"]
        by (auto simp: active_layer_def u algebra_simps max_def)
    next
      case False
      then have "\<not> active_layer p' c' r" and "\<not> active_layer p' c' (drain ?s r)"
        using True by (auto simp: active_layer_def)
      with False show ?thesis by auto
    qed
  next
    case False
    then have "drain ?s r = r" by (simp add: drain_def share_of_inactive [OF ids r])
    with False show ?thesis by simp
  qed
  then have "(\<Sum>r\<leftarrow>t_layer w. ?g (drain ?s r)) = (\<Sum>r\<leftarrow>t_layer w. ?g r - ?h r)"
    by (intro arg_cong [where f = sum_list]) simp
  also have "\<dots> = (\<Sum>r\<leftarrow>t_layer w. ?g r) - (\<Sum>r\<leftarrow>t_layer w. ?h r)"
    by (rule sum_list_subtractf)
  finally have main: "(\<Sum>r\<leftarrow>t_layer w. ?g (drain ?s r)) = (\<Sum>r\<leftarrow>t_layer w. ?g r) - (\<Sum>r\<leftarrow>t_layer w. ?h r)" .
  have h: "(\<Sum>r\<leftarrow>t_layer w. ?h r) = (if (p', c') = (p, c)
      then (\<Sum>l\<leftarrow>active_layers w p c. u l * of_int (?s (cl_id l))) else 0)"
    by (cases "(p', c') = (p, c)") (auto simp: active_sum)
  have "(\<Sum>l\<leftarrow>active_layers w' p' c'. u l * of_int (cl_remaining l)) = (\<Sum>r\<leftarrow>t_layer w. ?g (drain ?s r))"
    using x by (simp add: active_sum t' comp_def active_layer_def)
  with main h show ?thesis by (simp add: active_sum)
qed

definition pool_units :: "world \<Rightarrow> string \<Rightarrow> string \<Rightarrow> int" where
  "pool_units w p c = layer_units (active_layers w p c)"

definition pool_value :: "world \<Rightarrow> string \<Rightarrow> string \<Rightarrow> decimal" where
  "pool_value w p c = layer_value (active_layers w p c)"

lemma out_layer_simps [simp]:
  "cl_direction (out_layer w p c q k rt ri) = ''OUT''"
  "cl_id (out_layer w p c q k rt ri) = uuid_gen w (uuid_next w)"
  by (simp_all add: out_layer_def)

text \<open>A successful consumption, taken apart.\<close>

lemma consume_fifo_layers_Inr:
  fixes p c :: string and q :: int and w :: world
  defines "ls \<equiv> active_layers w p c"
  assumes ok: "layers_ok w" and q: "0 \<le> q"
    and run: "consume_fifo_layers p c q rt ri w = (Inr r, w')"
  shows "layers_ok w'"
    and "fr_fallback r = (if shortfall ls q > 0
           then the (cost_price_of w p c) * of_int (shortfall ls q) else 0)"
    and "fr_totalCost r = layered_cost ls q + fr_fallback r"
    and "fr_layers r = consumption ls q"
    and "pool_units w' p' c' =
           pool_units w p' c' - (if (p', c') = (p, c) then q - shortfall ls q else 0)"
    and "pool_value w' p' c' =
           pool_value w p' c' - (if (p', c') = (p, c) then layered_cost ls q else 0)"
proof -
  have ids: "distinct (map cl_id (t_layer w))" and fresh: "uuid_fresh w (set (map cl_id (t_layer w)))"
    using ok by (simp_all add: layers_ok_def)
  note R = run [unfolded consume_fifo_layers_run [OF ids q] Let_def, folded ls_def]
  show fb: "fr_fallback r = (if shortfall ls q > 0
      then the (cost_price_of w p c) * of_int (shortfall ls q) else 0)"
    and tc: "fr_totalCost r = layered_cost ls q + fr_fallback r"
    and "fr_layers r = consumption ls q"
    using R by (auto split: if_splits)
  obtain x where x: "x = out_layer w p c q (fr_totalCost r) rt ri"
    and w': "w' = w\<lparr>uuid_next := Suc (uuid_next w),
                t_layer := map (drain (fifo_share ls q)) (t_layer w) @ [x]\<rparr>"
    using R by (auto split: if_splits)
  have "map cl_id (t_layer w') = map cl_id (t_layer w) @ [uuid_gen w (uuid_next w)]"
    by (simp add: w' x comp_def)
  moreover have "uuid_fresh w' (insert (uuid_gen w (uuid_next w)) (set (map cl_id (t_layer w))))"
    by (rule uuid_fresh_step [OF fresh]) (simp_all add: w')
  ultimately show "layers_ok w'"
    using ids uuid_fresh_now [OF fresh] unfolding layers_ok_def by simp
  have t': "t_layer w' = map (drain (fifo_share (active_layers w p c) q)) (t_layer w) @ [x]"
    by (simp add: w' ls_def)
  have pos: "positive_layers ls" and dist: "distinct (map cl_id ls)"
    using active_layers_facts [of w p c] ids by (simp_all add: ls_def)
  have sum: "(\<Sum>l\<leftarrow>active_layers w p c. fifo_share (active_layers w p c) q (cl_id l)) = q - shortfall ls q"
    using fifo_share_sum [OF pos dist q] by (simp add: ls_def shortfall_def min_def max_def)
  show "pool_units w' p' c' =
      pool_units w p' c' - (if (p', c') = (p, c) then q - shortfall ls q else 0)"
    using drained_active_sum [OF ids _ t', of "\<lambda>_. 1 :: int" p' c'] sum
    by (simp add: x pool_units_def layer_units_def)
  show "pool_value w' p' c' =
      pool_value w p' c' - (if (p', c') = (p, c) then layered_cost ls q else 0)"
    using drained_active_sum [OF ids _ t', of cl_unitCost p' c']
    by (simp add: x pool_value_def layer_value_def layered_cost_def ls_def)
qed

lemma consume_fifo_layers_total:
  assumes "layers_ok w" and "0 \<le> q" and "q \<le> pool_units w p c \<or> cost_price_of w p c \<noteq> None"
  shows "\<exists>r w'. consume_fifo_layers p c q rt ri w = (Inr r, w')"
proof -
  have "shortfall (active_layers w p c) q = 0 \<or> cost_price_of w p c \<noteq> None"
    using assms(3) by (auto simp: shortfall_def pool_units_def)
  then have c: "\<not> (0 < shortfall (active_layers w p c) q \<and> cost_price_of w p c = None)" by auto
  show ?thesis
    using consume_fifo_layers_run [of w q p c rt ri] assms(1,2)
    unfolding layers_ok_def if_not_P [OF c] Let_def by blast
qed

lemma record_inbound_layer_Inr:
  assumes ok: "layers_ok w" and q: "0 < q"
    and run: "record_inbound_layer p c q u rt ri b w = (Inr x, w')"
  shows "layers_ok w'"
    and "pool_units w' p' c' = pool_units w p' c' + (if (p', c') = (p, c) then q else 0)"
    and "pool_value w' p' c' = pool_value w p' c' + (if (p', c') = (p, c) then round4 u * of_int q else 0)"
proof -
  have ids: "distinct (map cl_id (t_layer w))" and fresh: "uuid_fresh w (set (map cl_id (t_layer w)))"
    using ok by (simp_all add: layers_ok_def)
  define y where "y = \<lparr>cl_id = uuid_gen w (uuid_next w), cl_company = c, cl_product = p, cl_batch = b,
     cl_direction = ''IN'', cl_quantity = q, cl_remaining = q, cl_unitCost = round4 u,
     cl_totalCost = round4 (u * of_int q), cl_refType = Some rt, cl_refId = Some ri, cl_version = 0,
     cl_createdAt = now w\<rparr>"
  have w': "w' = w\<lparr>uuid_next := Suc (uuid_next w), t_layer := t_layer w @ [y]\<rparr>"
    using run by (simp add: record_inbound_layer_def create_cost_layer_def Let_def bind_def y_def)
  have y: "cl_id y = uuid_gen w (uuid_next w)" "cl_company y = c" "cl_product y = p"
      "cl_direction y = ''IN''" "cl_remaining y = q" "cl_unitCost y = round4 u"
    by (simp_all add: y_def)
  show "layers_ok w'"
    using ids uuid_fresh_now [OF fresh] uuid_fresh_step [OF fresh, of w']
    by (simp add: layers_ok_def w' y)
  have "active_layer p' c' y \<longleftrightarrow> (p', c') = (p, c)"
    using q by (auto simp: active_layer_def y)
  then show "pool_units w' p' c' = pool_units w p' c' + (if (p', c') = (p, c) then q else 0)"
    and "pool_value w' p' c' = pool_value w p' c' + (if (p', c') = (p, c) then round4 u * of_int q else 0)"
    by (simp_all add: pool_units_def pool_value_def layer_units_def layer_value_def active_sum w' y)
qed

lemma record_inbound_layer_total: "\<exists>w'. record_inbound_layer p c q u rt ri b w = (Inr (), w')"
  by (simp add: record_inbound_layer_def create_cost_layer_def Let_def bind_def)

section \<open>The interface of the cost layers\<close>

text \<open>
  What the stock operations rely on: a receipt adds its units to the pool of its product and
  company, a consumption takes its units out as long as the pool holds them, and nothing else moves.
\<close>

locale layer_pool =
  fixes ok :: "'w \<Rightarrow> bool"
    and pool :: "'w \<Rightarrow> string \<Rightarrow> string \<Rightarrow> int"
    and inbound :: "string \<Rightarrow> string \<Rightarrow> int \<Rightarrow> 'cost \<Rightarrow> ('w, unit) tx"
    and outbound :: "string \<Rightarrow> string \<Rightarrow> int \<Rightarrow> ('w, 'r) tx"
  assumes inbound_ok: "ok w \<Longrightarrow> 0 < q \<Longrightarrow> inbound p c q u w = (Inr x, w') \<Longrightarrow>
      ok w' \<and> (\<forall>p' c'. pool w' p' c' = pool w p' c' + (if (p', c') = (p, c) then q else 0))"
    and outbound_ok: "ok w \<Longrightarrow> 0 \<le> q \<Longrightarrow> q \<le> pool w p c \<Longrightarrow> outbound p c q w = (Inr r, w') \<Longrightarrow>
      ok w' \<and> (\<forall>p' c'. pool w' p' c' = pool w p' c' - (if (p', c') = (p, c) then q else 0))"
    and inbound_total: "\<exists>w'. inbound p c q u w = (Inr (), w')"
    and outbound_total: "ok w \<Longrightarrow> 0 \<le> q \<Longrightarrow> q \<le> pool w p c \<Longrightarrow> \<exists>r w'. outbound p c q w = (Inr r, w')"
begin

text \<open>A signed movement covered by the pool shifts the pool by exactly its amount.\<close>

lemma signed_move:
  assumes "ok w" and "- q \<le> pool w p c"
    and "(if q > 0 then inbound p c q u
          else if q < 0 then bind (outbound p c \<bar>q\<bar>) (\<lambda>_. ret ()) else ret ()) w = (Inr x, w')"
  shows "ok w' \<and> (\<forall>p' c'. pool w' p' c' = pool w p' c' + (if (p', c') = (p, c) then q else 0))"
proof -
  consider "q > 0" | "q < 0" | "q = 0" by linarith
  then show ?thesis
  proof cases
    case 1
    with assms inbound_ok show ?thesis by auto
  next
    case 2
    with assms(3) obtain r where "outbound p c \<bar>q\<bar> w = (Inr r, w')"
      by (auto simp: bind_Inr_iff)
    with 2 assms(1,2) outbound_ok [of w "\<bar>q\<bar>" p c r w'] show ?thesis by simp
  next
    case 3
    with assms show ?thesis by auto
  qed
qed

text \<open>A receipt makes the same quantity consumable.\<close>

lemma receipt_then_consumption:
  assumes "ok w" and "0 < q" and "0 \<le> pool w p c" and "inbound p c q u w = (Inr x, w')"
  shows "\<exists>r w''. outbound p c q w' = (Inr r, w'') \<and> pool w'' p c = pool w p c"
proof -
  have w': "ok w'" "pool w' p c = pool w p c + q" using inbound_ok [OF assms(1,2,4)] by auto
  have "0 \<le> q" and "q \<le> pool w' p c" using assms(2,3) w'(2) by simp_all
  with w'(1) obtain r w'' where run: "outbound p c q w' = (Inr r, w'')" using outbound_total by blast
  with outbound_ok [OF w'(1) \<open>0 \<le> q\<close> \<open>q \<le> pool w' p c\<close> run] w'(2) show ?thesis by auto
qed

end

interpretation cost_pool: layer_pool layers_ok pool_units
    "\<lambda>p c q u. record_inbound_layer p c q u rt ri None" "\<lambda>p c q. consume_fifo_layers p c q rt ri"
  for rt ri :: string
proof (unfold_locales, goal_cases)
  case (1 w q p c u x w')
  show ?case using record_inbound_layer_Inr(1,2) [OF 1] by simp
next
  case (2 w q p c r w')
  then have "shortfall (active_layers w p c) q = 0" by (simp add: shortfall_def pool_units_def)
  then show ?case
    using consume_fifo_layers_Inr(1,5) [OF 2(1,2,4)] by simp
next
  case (3 p c q u w)
  then show ?case by (rule record_inbound_layer_total)
next
  case (4 w q p c)
  then show ?case by (intro consume_fifo_layers_total) auto
qed

section \<open>Properties\<close>

text \<open>
  Property C21: consumption is first in, first out, and total up to a missing cost basis. With unique
  layer ids a request for \<open>q\<close> units of a product whose active layers cover it, or which has a
  costPrice, succeeds; every layer row loses exactly its share --- whatever the older active layers
  do not provide, capped by what it holds --- rows of other products, companies or directions are
  unchanged, one immutable OUT summary with the total cost is appended, and the returned list names
  the layers touched with quantity, unit cost and cost.
\<close>

theorem fifo_consumes_oldest_first:
  assumes "layers_ok w" and "0 \<le> q" and "q \<le> pool_units w p c \<or> cost_price_of w p c \<noteq> None"
  shows "\<exists>r. consume_fifo_layers p c q rt ri w =
      (Inr r, w\<lparr>uuid_next := Suc (uuid_next w),
         t_layer := map (drain (fifo_share (active_layers w p c) q)) (t_layer w) @
                    [out_layer w p c q (fr_totalCost r) rt ri]\<rparr>) \<and>
    fr_layers r = consumption (active_layers w p c) q \<and>
    fr_totalCost r = layered_cost (active_layers w p c) q + fr_fallback r"
proof -
  have ids: "distinct (map cl_id (t_layer w))" using assms(1) by (simp add: layers_ok_def)
  obtain r w' where run: "consume_fifo_layers p c q rt ri w = (Inr r, w')"
    using consume_fifo_layers_total [OF assms] by blast
  then show ?thesis
    by (auto simp: consume_fifo_layers_run [OF ids assms(2)] Let_def split: if_splits)
qed

text \<open>
  Property C22: a consumption conserves units and value. Whenever it succeeds, the pool of its
  product loses exactly the units it did not have to price at costPrice, the value of the pool drops
  by exactly the total cost less the fallback, the fallback is costPrice times the shortfall, and no
  other pool moves: \<open>totalCost\<close> is the value that left the layers, nothing is rounded away.
\<close>

theorem fifo_conserves_units_and_value:
  assumes "layers_ok w" and "0 \<le> q" and "consume_fifo_layers p c q rt ri w = (Inr r, w')"
  shows "pool_units w' p c = pool_units w p c - (q - shortfall (active_layers w p c) q) \<and>
    pool_value w' p c = pool_value w p c - (fr_totalCost r - fr_fallback r) \<and>
    fr_fallback r = (if shortfall (active_layers w p c) q > 0
      then the (cost_price_of w p c) * of_int (shortfall (active_layers w p c) q) else 0) \<and>
    (\<forall>p' c'. (p', c') \<noteq> (p, c) \<longrightarrow>
       pool_units w' p' c' = pool_units w p' c' \<and> pool_value w' p' c' = pool_value w p' c') \<and>
    layers_ok w'"
  using consume_fifo_layers_Inr [OF assms] by auto

text \<open>
  The only failure of a consumption is the missing cost basis. It fails exactly when
  the active layers do not cover the request and the product has no costPrice (a costPrice of zero is
  a basis), always with the 400; the optimistic lock never misses outside concurrent writers.
\<close>

theorem fifo_fails_only_without_basis:
  assumes "layers_ok w" and "0 \<le> q"
  shows "(\<exists>w'. consume_fifo_layers p c q rt ri w = (Inl e, w')) \<longleftrightarrow>
    pool_units w p c < q \<and> cost_price_of w p c = None \<and>
    e = BadRequest ''Insufficient cost layers and no costPrice basis.''"
proof -
  have ids: "distinct (map cl_id (t_layer w))" using assms(1) by (simp add: layers_ok_def)
  show ?thesis
    by (auto simp: consume_fifo_layers_run [OF ids assms(2)] Let_def shortfall_def pool_units_def)
qed

text \<open>
  Receive, then consume. After a receipt of \<open>q\<close> units of a product that has no active
  layers, consuming \<open>q\<close> units succeeds, needs no fallback and costs exactly what was received.
\<close>

theorem receipt_consumption_roundtrip:
  assumes "layers_ok w" and "0 < q" and "active_layers w p c = []"
    and "record_inbound_layer p c q u rt ri b w = (Inr (), w1)"
  shows "\<exists>r w2. consume_fifo_layers p c q rt' ri' w1 = (Inr r, w2) \<and>
    fr_totalCost r = round4 u * of_int q \<and> fr_fallback r = 0 \<and> pool_units w2 p c = 0"
proof -
  have q: "0 \<le> q" using assms(2) by simp
  have w1: "layers_ok w1" "pool_units w1 p c = q" "pool_value w1 p c = round4 u * of_int q"
    using record_inbound_layer_Inr [OF assms(1,2,4)] assms(3)
    by (simp_all add: pool_units_def pool_value_def layer_units_def layer_value_def)
  obtain r w2 where run: "consume_fifo_layers p c q rt' ri' w1 = (Inr r, w2)"
    using consume_fifo_layers_total [OF w1(1) q] w1(2) by force
  have short: "shortfall (active_layers w1 p c) q = 0"
    using w1(2) by (simp add: shortfall_def pool_units_def)
  note R = consume_fifo_layers_Inr [OF w1(1) q run]
  have units: "pool_units w2 p c = 0" using R(5) [of p c] w1(2) short by simp
  have none: "active_layers w2 p c = []"
  proof (rule ccontr)
    assume "active_layers w2 p c \<noteq> []"
    then obtain l ls where "active_layers w2 p c = l # ls" by (cases "active_layers w2 p c") auto
    with units active_layers_facts(1) [of w2 p c] layer_units_nonneg [of ls] show False
      by (simp add: pool_units_def layer_units_def)
  qed
  have "0 = pool_value w1 p c - layered_cost (active_layers w1 p c) q"
    using R(6) [of p c] none by (simp add: pool_value_def layer_value_def)
  with R(2,3) short w1(3) run units show ?thesis by auto
qed

text \<open>
  A product's valuation adds up. The quantity and the value reported for a product are
  the sums of those of its warehouses, and the query changes nothing.
\<close>

theorem product_valuation_adds_up:
  "\<exists>v. get_product_valuation p c w = (Inr v, w) \<and>
     pv_quantity v = (\<Sum>(h, n, x)\<leftarrow>pv_by_warehouse v. n) \<and>
     pv_value v = (\<Sum>(h, n, x)\<leftarrow>pv_by_warehouse v. x) \<and>
     pv_quantity v = (\<Sum>s\<leftarrow>filter (\<lambda>s. st_product s = p \<and> st_company s = c) (t_stock w). st_quantity s)"
proof -
  have "(\<Sum>s\<leftarrow>xs. k * of_int (f s)) = k * of_int (\<Sum>s\<leftarrow>xs. f s)" for k :: rat and f and xs :: "stock_row list"
    by (induction xs) (simp_all add: algebra_simps)
  then show ?thesis
    by (simp add: get_product_valuation_def find_stock_by_product_def find_many_def Let_def
        sum_list_sort_key comp_def)
qed

section \<open>Concrete runs\<close>

definition demo_layer :: "string \<Rightarrow> int \<Rightarrow> decimal \<Rightarrow> int \<Rightarrow> layer_row" where
  "demo_layer i k cost t = \<lparr>cl_id = i, cl_company = ''c'', cl_product = ''p'', cl_batch = None,
     cl_direction = ''IN'', cl_quantity = k, cl_remaining = k, cl_unitCost = cost,
     cl_totalCost = cost * of_int k, cl_refType = None, cl_refId = None, cl_version = 0, cl_createdAt = t\<rparr>"

text \<open>Two layers, the newer one stored first.\<close>

definition two_layers :: world where
  "two_layers = empty_world\<lparr>uuid_next := 2,
     t_layer := [demo_layer ''B'' 5 7 20, demo_layer ''A'' 3 4 10]\<rparr>"

lemma two_layers_ok: "layers_ok two_layers"
proof -
  have "uuid_fresh (empty_world\<lparr>uuid_next := 2\<rparr>) {u. length u < 2}" by (rule uuid_fresh_empty_world)
  then show ?thesis by (auto simp: layers_ok_def two_layers_def demo_layer_def uuid_fresh_def)
qed

lemma empty_world_layers_ok: "layers_ok empty_world"
  using uuid_fresh_empty_world [of 0] by (simp add: layers_ok_def uuid_fresh_def empty_world_def)

lemma two_layers_active: "active_layers two_layers ''p'' ''c'' = [demo_layer ''A'' 3 4 10, demo_layer ''B'' 5 7 20]"
  by (simp add: active_layers_def find_many_def two_layers_def demo_layer_def active_layer_def)

lemma two_layers_units: "pool_units two_layers ''p'' ''c'' = 8"
  by (simp add: pool_units_def two_layers_active layer_units_def demo_layer_def)

theorem fifo_consumes_oldest_first_witness:
  "\<exists>r. consume_fifo_layers ''p'' ''c'' 4 ''SALE'' ''s1'' two_layers =
      (Inr r, two_layers\<lparr>uuid_next := 3,
         t_layer := map (drain (fifo_share (active_layers two_layers ''p'' ''c'') 4)) (t_layer two_layers) @
                    [out_layer two_layers ''p'' ''c'' 4 (fr_totalCost r) ''SALE'' ''s1'']\<rparr>) \<and>
    map cn_quantity (fr_layers r) = [3, 1]"
proof -
  have n: "Suc (uuid_next two_layers) = 3" by (simp add: two_layers_def)
  have "map cn_quantity (consumption (active_layers two_layers ''p'' ''c'') 4) = [3, 1]"
    by (simp add: two_layers_active consumption_def fifo_share_def demo_layer_def)
  then show ?thesis
    using fifo_consumes_oldest_first [of two_layers 4 "''p''" "''c''" "''SALE''" "''s1''"] two_layers_ok
    by (auto simp: two_layers_units n)
qed

theorem fifo_conserves_units_and_value_witness:
  "\<exists>r w'. consume_fifo_layers ''p'' ''c'' 4 ''SALE'' ''s1'' two_layers = (Inr r, w') \<and>
     pool_units w' ''p'' ''c'' = 4"
proof -
  have "4 \<le> pool_units two_layers ''p'' ''c''" by (simp add: two_layers_units)
  then obtain r w' where run: "consume_fifo_layers ''p'' ''c'' 4 ''SALE'' ''s1'' two_layers = (Inr r, w')"
    using consume_fifo_layers_total [OF two_layers_ok, of 4] by force
  moreover have "shortfall (active_layers two_layers ''p'' ''c'') 4 = 0"
    by (simp add: two_layers_active shortfall_def layer_units_def demo_layer_def)
  ultimately show ?thesis
    using fifo_conserves_units_and_value [OF two_layers_ok _ run] by (auto simp: two_layers_units)
qed

theorem fifo_fails_only_without_basis_witness:
  "\<exists>w'. consume_fifo_layers ''p'' ''c'' 9 ''SALE'' ''s1'' two_layers =
     (Inl (BadRequest ''Insufficient cost layers and no costPrice basis.''), w')"
proof -
  have "cost_price_of two_layers ''p'' ''c'' = None"
    by (simp add: cost_price_of_def two_layers_def empty_world_def)
  then show ?thesis
    using fifo_fails_only_without_basis [OF two_layers_ok, of 9 "''p''" "''c''" "''SALE''" "''s1''"]
    by (simp add: two_layers_units)
qed

theorem receipt_consumption_roundtrip_witness:
  "\<exists>w1 r w2. record_inbound_layer ''p'' ''c'' 6 (5 / 2) ''GRN'' ''g1'' None empty_world = (Inr (), w1) \<and>
     consume_fifo_layers ''p'' ''c'' 6 ''SALE'' ''s1'' w1 = (Inr r, w2) \<and>
     fr_totalCost r = 15 \<and> fr_fallback r = 0"
proof -
  obtain w1 where run: "record_inbound_layer ''p'' ''c'' 6 (5 / 2) ''GRN'' ''g1'' None empty_world = (Inr (), w1)"
    using record_inbound_layer_total by blast
  have "scale4 (5 / 2)" by (simp add: scale4_def)
  then have "round4 (5 / 2) = 5 / 2" by (rule round4_id)
  then show ?thesis
    using receipt_consumption_roundtrip [OF empty_world_layers_ok _ _ run, of "''SALE''" "''s1''"] run
    by (auto simp: active_layers_def find_many_def empty_world_def)
qed

end
