(* ===== verification/Stock.thy ===== *)
theory Stock
  imports Costing Events Idempotency
begin

text \<open>
  \<^verbatim>\<open>inventory/services/stock.service.ts\<close>: queries, adjustments and transfers. Both mutations run under
  the idempotency wrapper; the bodies are split along their comments. The event bus is an argument.
\<close>

section \<open>Results and requests\<close>

primrec movement_type_name :: "movement_type \<Rightarrow> string" where
  "movement_type_name PURCHASE = ''PURCHASE''"
| "movement_type_name SALE = ''SALE''"
| "movement_type_name RETURN = ''RETURN''"
| "movement_type_name TRANSFER_IN = ''TRANSFER_IN''"
| "movement_type_name TRANSFER_OUT = ''TRANSFER_OUT''"
| "movement_type_name ADJUSTMENT = ''ADJUSTMENT''"
| "movement_type_name OPENING_BALANCE = ''OPENING_BALANCE''"
| "movement_type_name COUNT_ADJUSTMENT = ''COUNT_ADJUSTMENT''"
| "movement_type_name RESERVATION = ''RESERVATION''"
| "movement_type_name UNRESERVATION = ''UNRESERVATION''"
| "movement_type_name PRODUCTION_IN = ''PRODUCTION_IN''"
| "movement_type_name PRODUCTION_OUT = ''PRODUCTION_OUT''"

text \<open>\<^verbatim>\<open>StockMovementMapper.toEntity\<close>.\<close>

definition movement_entity :: "movement_row \<Rightarrow> json" where
  "movement_entity m = JObj
     [(''id'', JStr (mv_id m)), (''companyId'', JStr (mv_company m)),
      (''productId'', JStr (mv_product m)), (''warehouseId'', JStr (mv_warehouse m)),
      (''type'', JStr (movement_type_name (mv_type m))), (''quantity'', jint (mv_quantity m)),
      (''beforeQuantity'', jint (mv_before m)), (''afterQuantity'', jint (mv_after m)),
      (''referenceType'', jopt JStr (mv_refType m)), (''referenceId'', jopt JStr (mv_refId m)),
      (''comment'', jopt JStr (mv_comment m)), (''createdBy'', jopt JStr (mv_createdBy m)),
      (''createdAt'', JDate (mv_createdAt m))]"

record adjust_dto =
  aj_product :: string
  aj_warehouse :: string
  aj_quantity :: int
  aj_reason :: "string option"
  aj_refType :: "string option"
  aj_refId :: "string option"
  aj_comment :: "string option"
  aj_clientOp :: "string option"

record transfer_dto =
  tr_product :: string
  tr_from :: string
  tr_to :: string
  tr_quantity :: int
  tr_comment :: "string option"
  tr_clientOp :: "string option"

text \<open>\<^verbatim>\<open>{ ...dto, userId }\<close>, what the request hash is taken of.\<close>

definition adjust_request :: "adjust_dto \<Rightarrow> string \<Rightarrow> json" where
  "adjust_request d user = JObj
     [(''productId'', JStr (aj_product d)), (''warehouseId'', JStr (aj_warehouse d)),
      (''quantity'', jint (aj_quantity d)), (''reason'', jopt JStr (aj_reason d)),
      (''referenceType'', jopt JStr (aj_refType d)), (''referenceId'', jopt JStr (aj_refId d)),
      (''comment'', jopt JStr (aj_comment d)), (''clientOperationId'', jopt JStr (aj_clientOp d)),
      (''userId'', JStr user)]"

definition transfer_request :: "transfer_dto \<Rightarrow> string \<Rightarrow> json" where
  "transfer_request d user = JObj
     [(''productId'', JStr (tr_product d)), (''fromWarehouseId'', JStr (tr_from d)),
      (''toWarehouseId'', JStr (tr_to d)), (''quantity'', jint (tr_quantity d)),
      (''comment'', jopt JStr (tr_comment d)), (''clientOperationId'', jopt JStr (tr_clientOp d)),
      (''userId'', JStr user)]"

text \<open>\<^verbatim>\<open>x ?? y\<close>.\<close>

definition or_else :: "'a option \<Rightarrow> 'a \<Rightarrow> 'a" where
  "or_else v d = (case v of None \<Rightarrow> d | Some x \<Rightarrow> x)"

definition or_opt :: "'a option \<Rightarrow> 'a option \<Rightarrow> 'a option" where
  "or_opt v d = (case v of None \<Rightarrow> d | Some x \<Rightarrow> Some x)"

definition user_ref :: "string \<Rightarrow> string option" where
  "user_ref user = (if user = '''' then None else Some user)"

definition to_duplicate_operation_conflict :: "exn \<Rightarrow> exn" where
  "to_duplicate_operation_conflict err = (case err of
       UniqueViolation target \<Rightarrow>
         if ''clientOperationId'' \<in> set target
         then Conflict ''Inventory operation already applied (unique operation identity). Please refresh and retry.''
         else err
     | _ \<Rightarrow> err)"

section \<open>Queries\<close>

definition find_by_product :: "string \<Rightarrow> string \<Rightarrow> stock_row list wtx" where
  "find_by_product p c = find_stock_by_product p c"

definition get_movements ::
  "string \<Rightarrow> string option \<Rightarrow> string option \<Rightarrow> nat option \<Rightarrow> json list wtx" where
  "get_movements c product warehouse limit =
     bind (find_stock_movements c product warehouse None (Some (or_else limit 100)) None)
       (\<lambda>ms. ret (map movement_entity ms))"

section \<open>Adjustment\<close>

definition adjust_references :: "adjust_dto \<Rightarrow> string \<Rightarrow> product_row wtx" where
  "adjust_references d c =
     bind (find_product_by_id (aj_product d) c) (\<lambda>product.
     bind (require_some product (NotFound ''Product not found'')) (\<lambda>pr.
     bind (find_warehouse_by_id (aj_warehouse d) c) (\<lambda>warehouse.
     bind (require_some warehouse (NotFound ''Warehouse not found'')) (\<lambda>_. ret pr))))"

text \<open>\<^verbatim>\<open>findStockByProductAndWarehouse\<close>, and a zero row when there is none.\<close>

definition stock_or_zero :: "string \<Rightarrow> string \<Rightarrow> string \<Rightarrow> stock_row wtx" where
  "stock_or_zero p wh c =
     bind (find_stock_by_product_and_warehouse p wh c) (\<lambda>stock.
     case stock of
       Some s \<Rightarrow> ret s
     | None \<Rightarrow> create_stock p wh c 0 0 0)"

definition adjust_movement ::
  "adjust_dto \<Rightarrow> string \<Rightarrow> string \<Rightarrow> stock_row \<Rightarrow> movement_row wtx" where
  "adjust_movement d c user stock =
     catch (create_stock_movement
       \<lparr>md_company = c, md_product = aj_product d, md_warehouse = aj_warehouse d,
        md_type = ADJUSTMENT, md_quantity = aj_quantity d, md_before = st_quantity stock,
        md_after = st_quantity stock + aj_quantity d,
        md_refType = Some (or_else (aj_refType d) ''ADJUSTMENT''),
        md_refId = Some (or_else (aj_refId d) (st_id stock)),
        md_comment = Some (or_else (or_opt (aj_comment d) (aj_reason d)) ''Stock adjustment''),
        md_clientOp = aj_clientOp d, md_user = user_ref user\<rparr>)
       (\<lambda>err. throw (to_duplicate_operation_conflict err))"

definition adjust_unit_cost :: "adjust_dto \<Rightarrow> string \<Rightarrow> product_row \<Rightarrow> decimal option wtx" where
  "adjust_unit_cost d c product =
     (if aj_quantity d > 0 then
        bind (resolve_positive_entry_unit_cost (aj_product d) c) (\<lambda>resolved.
        bind (require (resolved \<noteq> NoBasis) (BadRequest ''Cannot adjust stock: no cost basis for product.''))
          (\<lambda>_. ret (basis_cost resolved)))
      else
        bind (calculate_average_cost (aj_product d) c) (\<lambda>averageCost.
        ret (if averageCost \<noteq> 0 then Some averageCost else pr_costPrice product)))"

definition adjust_layers ::
  "adjust_dto \<Rightarrow> string \<Rightarrow> stock_row \<Rightarrow> decimal option \<Rightarrow> unit wtx" where
  "adjust_layers d c stock unitCost =
     (let ref = or_else (aj_refId d) (st_id stock) in
      if aj_quantity d > 0 then
        (case unitCost of
           Some u \<Rightarrow> record_inbound_layer (aj_product d) c (aj_quantity d) u ''ADJUSTMENT'' ref None
         | None \<Rightarrow> ret ())
      else if aj_quantity d < 0 then
        bind (consume_fifo_layers (aj_product d) c \<bar>aj_quantity d\<bar> ''ADJUSTMENT'' ref) (\<lambda>_. ret ())
      else ret ())"

definition apply_adjust_stock ::
  "event_bus \<Rightarrow> adjust_dto \<Rightarrow> string \<Rightarrow> string \<Rightarrow> json wtx" where
  "apply_adjust_stock bus d c user =
     bind (adjust_references d c) (\<lambda>product.
     bind (stock_or_zero (aj_product d) (aj_warehouse d) c) (\<lambda>stock.
     let beforeQuantity = st_quantity stock; afterQuantity = beforeQuantity + aj_quantity d in
     bind (require (\<not> afterQuantity < 0) (BadRequest ''Insufficient stock'')) (\<lambda>_.
     bind (update_stock (st_id stock)
             (\<lambda>r. r\<lparr>st_quantity := afterQuantity, st_available := afterQuantity - st_reserved stock\<rparr>)
             c (st_version stock)) (\<lambda>_.
     bind (adjust_movement d c user stock) (\<lambda>movement.
     bind (adjust_unit_cost d c product) (\<lambda>unitCost.
     bind (adjust_layers d c stock unitCost) (\<lambda>_.
     bind fresh_uuid (\<lambda>eventId.
     bind (publish_event bus (InventoryAdjusted eventId
       \<lparr>ap_product = aj_product d, ap_company = c, ap_warehouse = aj_warehouse d,
        ap_quantity = aj_quantity d, ap_before = beforeQuantity, ap_after = afterQuantity,
        ap_reason = or_else (aj_reason d) ''manual'', ap_by = user, ap_refType = aj_refType d,
        ap_refId = aj_refId d, ap_comment = aj_comment d, ap_unitCost = unitCost,
        ap_totalCost = None, ap_costBasis = None\<rparr>)) (\<lambda>_.
     bind (audit_log \<lparr>au_company = Some c, au_user = user, au_entity = ''Stock'',
        au_entityId = st_id stock, au_action = ''ADJUST'',
        au_before = Some (JObj [(''quantity'', jint beforeQuantity)]),
        au_after = Some (JObj [(''quantity'', jint afterQuantity)])\<rparr>) (\<lambda>_.
     ret (movement_entity movement)))))))))))"

definition adjust_stock ::
  "event_bus \<Rightarrow> adjust_dto \<Rightarrow> string \<Rightarrow> string \<Rightarrow> string option \<Rightarrow> (int \<times> json) wtx" where
  "adjust_stock bus d c user key =
     run_with_idempotency c key ''inventory-adjust'' (adjust_request d user) 201
       (apply_adjust_stock bus d c user)"

section \<open>Transfer\<close>

definition transfer_references :: "transfer_dto \<Rightarrow> string \<Rightarrow> unit wtx" where
  "transfer_references d c =
     bind (find_product_by_id (tr_product d) c) (\<lambda>product.
     bind (require (product \<noteq> None) (NotFound ''Product not found'')) (\<lambda>_.
     bind (find_warehouse_by_id (tr_from d) c) (\<lambda>src.
     bind (require_some src (NotFound ''Source warehouse not found'')) (\<lambda>f.
     bind (require (wh_active f) (NotFound ''Source warehouse is inactive'')) (\<lambda>_.
     bind (find_warehouse_by_id (tr_to d) c) (\<lambda>dst.
     bind (require_some dst (NotFound ''Destination warehouse not found'')) (\<lambda>t.
     require (wh_active t) (NotFound ''Destination warehouse is inactive''))))))))"

definition transfer_movement ::
  "transfer_dto \<Rightarrow> string \<Rightarrow> string \<Rightarrow> string \<Rightarrow> movement_type \<Rightarrow> int \<Rightarrow> int \<Rightarrow> movement_row wtx" where
  "transfer_movement d c user wh ty bef aft =
     catch (create_stock_movement
       \<lparr>md_company = c, md_product = tr_product d, md_warehouse = wh, md_type = ty,
        md_quantity = tr_quantity d, md_before = bef, md_after = aft,
        md_refType = Some ''TRANSFER'', md_refId = Some (tr_from d @ '':'' @ tr_to d),
        md_comment = Some (or_else (tr_comment d) ''Stock transfer''),
        md_clientOp = tr_clientOp d, md_user = user_ref user\<rparr>)
       (\<lambda>err. throw (to_duplicate_operation_conflict err))"

definition transfer_destination ::
  "transfer_dto \<Rightarrow> string \<Rightarrow> stock_row option \<Rightarrow> int \<Rightarrow> stock_row wtx" where
  "transfer_destination d c dest destAfter =
     (case dest of
        Some s \<Rightarrow>
          update_stock (st_id s)
            (\<lambda>r. r\<lparr>st_quantity := destAfter, st_available := destAfter - st_reserved s\<rparr>)
            c (st_version s)
      | None \<Rightarrow> create_stock (tr_product d) (tr_to d) c (tr_quantity d) 0 (tr_quantity d))"

definition apply_transfer_stock ::
  "event_bus \<Rightarrow> transfer_dto \<Rightarrow> string \<Rightarrow> string \<Rightarrow> json wtx" where
  "apply_transfer_stock bus d c user =
     bind (transfer_references d c) (\<lambda>_.
     bind (find_stock_by_product_and_warehouse (tr_product d) (tr_from d) c) (\<lambda>source.
     bind (require_some source (NotFound ''No stock in source warehouse'')) (\<lambda>src.
     bind (find_stock_by_product_and_warehouse (tr_product d) (tr_to d) c) (\<lambda>dest.
     let sourceBefore = st_quantity src; sourceAfter = sourceBefore - tr_quantity d in
     bind (require (\<not> sourceAfter < 0) (BadRequest ''Insufficient stock in source warehouse'')) (\<lambda>_.
     let destBefore = (case dest of None \<Rightarrow> 0 | Some s \<Rightarrow> st_quantity s);
         destAfter = destBefore + tr_quantity d in
     bind (update_stock (st_id src)
             (\<lambda>r. r\<lparr>st_quantity := sourceAfter, st_available := max 0 (sourceAfter - st_reserved src)\<rparr>)
             c (st_version src)) (\<lambda>_.
     bind (transfer_destination d c dest destAfter) (\<lambda>_.
     bind (transfer_movement d c user (tr_from d) TRANSFER_OUT sourceBefore sourceAfter) (\<lambda>outMovement.
     bind (transfer_movement d c user (tr_to d) TRANSFER_IN destBefore destAfter) (\<lambda>inMovement.
     bind fresh_uuid (\<lambda>eventId.
     bind (publish_event bus (InventoryTransferred eventId
       \<lparr>tp_product = tr_product d, tp_company = c, tp_from = tr_from d, tp_to = tr_to d,
        tp_quantity = tr_quantity d, tp_by = user, tp_comment = tr_comment d\<rparr>)) (\<lambda>_.
     ret (JArr [movement_entity outMovement, movement_entity inMovement]))))))))))))"

definition transfer_stock ::
  "event_bus \<Rightarrow> transfer_dto \<Rightarrow> string \<Rightarrow> string \<Rightarrow> string option \<Rightarrow> (int \<times> json) wtx" where
  "transfer_stock bus d c user key =
     bind (require (tr_from d \<noteq> tr_to d)
             (BadRequest ''Source and destination warehouses must be different'')) (\<lambda>_.
     run_with_idempotency c key ''inventory-transfer'' (transfer_request d user) 201
       (apply_transfer_stock bus d c user))"

section \<open>Balances\<close>

definition stock_wf :: "world \<Rightarrow> bool" where
  "stock_wf w \<longleftrightarrow> distinct (map st_id (t_stock w)) \<and>
     distinct (map (\<lambda>r. (st_product r, st_warehouse r)) (t_stock w)) \<and>
     uuid_fresh w (set (map st_id (t_stock w)))"

definition balance :: "world \<Rightarrow> string \<Rightarrow> string \<Rightarrow> string \<Rightarrow> int" where
  "balance w p wh c = (case find_first (stock_at p wh c) (t_stock w) of None \<Rightarrow> 0 | Some r \<Rightarrow> st_quantity r)"

definition stock_total :: "world \<Rightarrow> string \<Rightarrow> string \<Rightarrow> int" where
  "stock_total w p c =
     (\<Sum>r\<leftarrow>t_stock w. if st_product r = p \<and> st_company r = c then st_quantity r else 0)"

definition stock_nonneg :: "world \<Rightarrow> bool" where
  "stock_nonneg w \<longleftrightarrow> (\<forall>r \<in> set (t_stock w). 0 \<le> st_quantity r)"

lemma stock_at_unique:
  assumes "stock_wf w" and "s \<in> set (t_stock w)" and "stock_at p wh c s"
  shows "find_first (stock_at p wh c) (t_stock w) = Some s"
  using assms
  by (intro find_first_unique [where k = "\<lambda>r. (st_product r, st_warehouse r)"])
     (auto simp: stock_wf_def stock_at_def)

lemma balance_le_total:
  assumes "stock_nonneg w"
  shows "balance w p wh c \<le> stock_total w p c"
proof (cases "find_first (stock_at p wh c) (t_stock w)")
  case None
  have "0 \<le> stock_total w p c"
    unfolding stock_total_def using assms by (auto intro!: sum_list_nonneg simp: stock_nonneg_def)
  with None show ?thesis by (simp add: balance_def)
next
  case (Some s)
  then have s: "s \<in> set (t_stock w)" "stock_at p wh c s" by (auto dest: find_first_SomeD)
  have "st_quantity s = (if st_product s = p \<and> st_company s = c then st_quantity s else 0)"
    using s(2) by (simp add: stock_at_def)
  also have "\<dots> \<le> stock_total w p c"
    unfolding stock_total_def
    by (rule member_le_sum_list) (use assms s(1) in \<open>auto simp: stock_nonneg_def\<close>)
  finally show ?thesis using Some by (simp add: balance_def)
qed

text \<open>Looking a row up or creating it empty changes no balance.\<close>

lemma create_empty_stock:
  assumes "stock_wf w" and "create_stock p wh c q res av w = (Inr s, w')"
  shows "stock_wf w'" and "s \<in> set (t_stock w')" and "stock_at p wh c s" and "st_quantity s = q"
    and "balance w p wh c = 0"
    and "balance w' p' wh' c' = (if (p', wh', c') = (p, wh, c) then q else balance w p' wh' c')"
    and "stock_total w' p' c' = stock_total w p' c' + (if (p', c') = (p, c) then q else 0)"
    and "filter (\<lambda>r. st_company r \<noteq> c) (t_stock w') = filter (\<lambda>r. st_company r \<noteq> c) (t_stock w)"
proof -
  have R: "\<forall>x \<in> set (t_stock w). \<not> (st_product x = p \<and> st_warehouse x = wh)"
    "s = \<lparr>st_id = uuid_gen w (uuid_next w), st_company = c, st_product = p, st_warehouse = wh,
        st_quantity = q, st_reserved = res, st_available = av, st_version = 0\<rparr>"
    "w' = w\<lparr>uuid_next := Suc (uuid_next w), t_stock := t_stock w @ [s]\<rparr>"
    using assms(2) by (simp_all add: create_stock_Inr)
  have fresh: "uuid_fresh w (set (map st_id (t_stock w)))" using assms(1) by (simp add: stock_wf_def)
  have "uuid_fresh w' (insert (uuid_gen w (uuid_next w)) (set (map st_id (t_stock w))))"
    by (rule uuid_fresh_step [OF fresh]) (simp_all add: R(3))
  then show "stock_wf w'"
    using assms(1) R uuid_fresh_now [OF fresh] by (auto simp: stock_wf_def)
  show "s \<in> set (t_stock w')" "stock_at p wh c s" "st_quantity s = q"
    using R by (simp_all add: stock_at_def)
  have none: "find_first (stock_at p wh c) (t_stock w) = None"
    using R(1) by (auto simp: find_first_None_iff stock_at_def)
  then show "balance w p wh c = 0" by (simp add: balance_def)
  show "balance w' p' wh' c' = (if (p', wh', c') = (p, wh, c) then q else balance w p' wh' c')"
    using none by (auto simp: balance_def R(2,3) find_first_append stock_at_def split: option.splits)
  show "stock_total w' p' c' = stock_total w p' c' + (if (p', c') = (p, c) then q else 0)"
    by (auto simp: stock_total_def R(2,3))
  show "filter (\<lambda>r. st_company r \<noteq> c) (t_stock w') = filter (\<lambda>r. st_company r \<noteq> c) (t_stock w)"
    by (simp add: R(2,3))
qed

lemma stock_or_zero_Inr:
  assumes "stock_wf w" and "stock_or_zero p wh c w = (Inr s, w')"
  shows "stock_wf w'" and "s \<in> set (t_stock w')" and "stock_at p wh c s"
    and "st_quantity s = balance w p wh c" and "balance w' p' wh' c' = balance w p' wh' c'"
    and "stock_total w' p' c' = stock_total w p' c'"
    and "filter (\<lambda>r. st_company r \<noteq> c) (t_stock w') = filter (\<lambda>r. st_company r \<noteq> c) (t_stock w)"
proof -
  have "(find_first (stock_at p wh c) (t_stock w) = Some s \<and> w' = w) \<or>
      create_stock p wh c 0 0 0 w = (Inr s, w')"
    using assms(2)
    by (auto simp: stock_or_zero_def find_stock_by_product_and_warehouse_def bind_Inr_iff split: option.splits)
  then consider (old) "find_first (stock_at p wh c) (t_stock w) = Some s" "w' = w"
    | (new) "create_stock p wh c 0 0 0 w = (Inr s, w')" by blast
  then have "stock_wf w' \<and> s \<in> set (t_stock w') \<and> stock_at p wh c s \<and>
      st_quantity s = balance w p wh c \<and> balance w' p' wh' c' = balance w p' wh' c' \<and>
      stock_total w' p' c' = stock_total w p' c' \<and>
      filter (\<lambda>r. st_company r \<noteq> c) (t_stock w') = filter (\<lambda>r. st_company r \<noteq> c) (t_stock w)"
  proof cases
    case old
    with find_first_SomeD [OF old(1)] assms(1) show ?thesis by (simp add: balance_def)
  next
    case new
    note N = create_empty_stock [OF assms(1) new]
    show ?thesis using N(1-5) N(6) [of p' wh' c'] N(7) [of p' c'] N(8) by auto
  qed
  then show "stock_wf w'" and "s \<in> set (t_stock w')" and "stock_at p wh c s"
    and "st_quantity s = balance w p wh c" and "balance w' p' wh' c' = balance w p' wh' c'"
    and "stock_total w' p' c' = stock_total w p' c'"
    and "filter (\<lambda>r. st_company r \<noteq> c) (t_stock w') = filter (\<lambda>r. st_company r \<noteq> c) (t_stock w)"
    by simp_all
qed

text \<open>Writing a new balance through the optimistic lock.\<close>

lemma write_balance:
  assumes wf: "stock_wf w" and s: "s \<in> set (t_stock w)" "stock_at p wh c s"
    and run: "update_stock (st_id s) (\<lambda>r. r\<lparr>st_quantity := a, st_available := b\<rparr>) c (st_version s) w = (Inr x, w')"
  shows "stock_wf w'"
    and "balance w' p' wh' c' = (if (p', wh', c') = (p, wh, c) then a else balance w p' wh' c')"
    and "stock_total w' p' c' = stock_total w p' c' + (if (p', c') = (p, c) then a - st_quantity s else 0)"
    and "stock_nonneg w \<Longrightarrow> 0 \<le> a \<Longrightarrow> stock_nonneg w'"
    and "filter (\<lambda>r. st_company r \<noteq> c) (t_stock w') = filter (\<lambda>r. st_company r \<noteq> c) (t_stock w)"
    and "(p', wh', c') \<noteq> (p, wh, c) \<Longrightarrow> t \<in> set (t_stock w) \<Longrightarrow> stock_at p' wh' c' t \<Longrightarrow> t \<in> set (t_stock w')"
proof -
  let ?hit = "\<lambda>r. st_id r = st_id s \<and> st_company r = c \<and> st_version r = st_version s"
  let ?f = "\<lambda>r. (r\<lparr>st_quantity := a, st_available := b\<rparr>)\<lparr>st_version := st_version r + 1\<rparr>"
  have w': "w' = w\<lparr>t_stock := update_rows ?hit ?f (t_stock w)\<rparr>"
    using update_stock_Inr [OF run] by simp
  have ids: "distinct (map st_id (t_stock w))" using wf by (simp add: stock_wf_def)
  have hit: "?hit r \<longleftrightarrow> r = s" if "r \<in> set (t_stock w)" for r
    using distinct_map_eq [OF ids that s(1)] s(2) by (auto simp: stock_at_def)
  have rows: "t_stock w' = map (\<lambda>r. if r = s then ?f s else r) (t_stock w)"
    by (auto simp: w' update_rows_def hit)
  have keys: "map st_id (t_stock w') = map st_id (t_stock w)"
    "map (\<lambda>r. (st_product r, st_warehouse r)) (t_stock w') =
       map (\<lambda>r. (st_product r, st_warehouse r)) (t_stock w)"
    by (auto simp: rows)
  show "stock_wf w'"
    using wf uuid_fresh_later [of w "set (map st_id (t_stock w))" w'] unfolding stock_wf_def keys
    by (auto simp: w')
  show "balance w' p' wh' c' = (if (p', wh', c') = (p, wh, c) then a else balance w p' wh' c')"
  proof -
    have "find_first (stock_at p' wh' c') (t_stock w') =
        map_option (\<lambda>r. if ?hit r then ?f r else r) (find_first (stock_at p' wh' c') (t_stock w))"
      unfolding w' by (simp add: find_first_update_rows stock_at_def)
    moreover have "find_first (stock_at p wh c) (t_stock w) = Some s" by (rule stock_at_unique [OF wf s])
    moreover have "\<not> ?hit r" if "find_first (stock_at p' wh' c') (t_stock w) = Some r"
        "(p', wh', c') \<noteq> (p, wh, c)" for r
      using find_first_SomeD [OF that(1)] hit [of r] s(2) that(2) by (auto simp: stock_at_def)
    ultimately show ?thesis
      using s(2) by (auto simp: balance_def stock_at_def split: option.splits)
  qed
  show "stock_total w' p' c' = stock_total w p' c' + (if (p', c') = (p, c) then a - st_quantity s else 0)"
  proof -
    let ?g = "\<lambda>r. if st_product r = p' \<and> st_company r = c' then st_quantity r else 0"
    have "filter ?hit (t_stock w) = filter (\<lambda>r. st_id r = st_id s) (t_stock w)"
      using distinct_map_eq [OF ids _ s(1)] s(2) by (intro filter_cong) (auto simp: stock_at_def)
    then have one: "filter ?hit (t_stock w) = [s]" using filter_key [OF ids s(1)] by simp
    have "stock_total w' p' c' = stock_total w p' c' + (\<Sum>r\<leftarrow>filter ?hit (t_stock w). ?g (?f r) - ?g r)"
      by (simp add: stock_total_def w' sum_list_update_rows)
    then show ?thesis using s(2) unfolding one by (auto simp: stock_at_def)
  qed
  show "stock_nonneg w'" if "stock_nonneg w" "0 \<le> a"
    using that by (auto simp: stock_nonneg_def rows)
  show "filter (\<lambda>r. st_company r \<noteq> c) (t_stock w') = filter (\<lambda>r. st_company r \<noteq> c) (t_stock w)"
    unfolding w' by (auto simp: filter_update_rows intro!: update_rows_none)
  show "t \<in> set (t_stock w')" if "(p', wh', c') \<noteq> (p, wh, c)" "t \<in> set (t_stock w)" "stock_at p' wh' c' t"
  proof -
    have "t \<noteq> s" using that(1,3) s(2) by (auto simp: stock_at_def)
    with that(2) show ?thesis by (force simp: rows)
  qed
qed

lemma stock_wf_frame:
  assumes "stock_wf w" and "t_stock w' = t_stock w" and "uuid_gen w' = uuid_gen w \<and> uuid_next w \<le> uuid_next w'"
  shows "stock_wf w'"
  using assms uuid_fresh_later [of w _ w'] by (auto simp: stock_wf_def)

lemma stock_views_frame:
  assumes "t_stock w' = t_stock w"
  shows "balance w' p wh c = balance w p wh c" "stock_total w' p c = stock_total w p c"
    "stock_nonneg w' = stock_nonneg w"
  by (simp_all add: balance_def stock_total_def stock_nonneg_def assms)

lemma pool_frame: "t_layer w' = t_layer w \<Longrightarrow> pool_units w' p c = pool_units w p c"
  by (simp add: pool_units_def active_layers_def)

section \<open>An adjustment, taken apart\<close>

text \<open>The bus the theorems assume: its handlers leave the inventory tables alone.\<close>

definition inventory_tables :: "world \<Rightarrow> stock_row list \<times> movement_row list \<times> layer_row list" where
  "inventory_tables w = (t_stock w, t_movement w, t_layer w)"

definition tame_bus :: "event_bus \<Rightarrow> bool" where
  "tame_bus b \<longleftrightarrow> bus_frame inventory_tables b \<and> (\<forall>ev. advances (publish_event b ev))"

lemma tame_bus_empty: "tame_bus (\<lambda>_. None)"
  by (simp add: tame_bus_def advances_def)

lemma tame_busD:
  assumes "tame_bus b" and "publish_event b ev w = (r, w')"
  shows "t_stock w' = t_stock w" and "t_movement w' = t_movement w" and "t_layer w' = t_layer w"
    and "uuid_gen w' = uuid_gen w \<and> uuid_next w \<le> uuid_next w'"
proof -
  have "frame inventory_tables (publish_event b ev)"
    using assms(1) by (auto simp: tame_bus_def intro: frame_publish_event)
  from frameD [OF this assms(2)] show "t_stock w' = t_stock w" "t_movement w' = t_movement w" "t_layer w' = t_layer w"
    by (simp_all add: inventory_tables_def)
  show "uuid_gen w' = uuid_gen w \<and> uuid_next w \<le> uuid_next w'"
    using assms by (auto simp: tame_bus_def dest: advancesD)
qed

lemma adjust_movement_Inr:
  assumes "adjust_movement d c user s w = (Inr m, w')"
  shows "t_movement w' = t_movement w @ [m] \<and> mv_before m = st_quantity s \<and>
     mv_after m = st_quantity s + aj_quantity d \<and> mv_quantity m = aj_quantity d \<and> mv_type m = ADJUSTMENT \<and>
     mv_product m = aj_product d \<and> mv_warehouse m = aj_warehouse d \<and> mv_company m = c \<and>
     mv_clientOp m = aj_clientOp d \<and> t_stock w' = t_stock w \<and> t_layer w' = t_layer w \<and>
     uuid_gen w' = uuid_gen w \<and> uuid_next w \<le> uuid_next w' \<and> t_product w' = t_product w \<and>
     (\<forall>x \<in> set (t_movement w). \<not> movement_clash c (aj_clientOp d) ADJUSTMENT x)"
  using assms unfolding adjust_movement_def catch_rethrow_Inr_iff create_stock_movement_Inr by auto

lemma adjust_unit_cost_Inr:
  assumes "adjust_unit_cost d c product w = (Inr u, w')"
  shows "w' = w \<and> (aj_quantity d > 0 \<longrightarrow> u \<noteq> None)"
proof -
  have "frame id (adjust_unit_cost d c product)"
    unfolding adjust_unit_cost_def by (intro frame_intros)
  with assms have "w' = w" by (auto dest: frameD)
  moreover have "u \<noteq> None" if "aj_quantity d > 0"
    using assms that
    by (auto simp: adjust_unit_cost_def bind_Inr_iff basis_cost_def split: if_splits cost_basis.splits)
  ultimately show ?thesis by simp
qed

lemma apply_adjust_stock_steps:
  assumes "apply_adjust_stock bus d c user w = (Inr body, w')"
  shows "\<exists>product s w1 x w2 m w3 u w4 ev w5 w6.
    adjust_references d c w = (Inr product, w) \<and>
    stock_or_zero (aj_product d) (aj_warehouse d) c w = (Inr s, w1) \<and>
    0 \<le> st_quantity s + aj_quantity d \<and>
    update_stock (st_id s) (\<lambda>r. r\<lparr>st_quantity := st_quantity s + aj_quantity d,
        st_available := st_quantity s + aj_quantity d - st_reserved s\<rparr>) c (st_version s) w1 = (Inr x, w2) \<and>
    adjust_movement d c user s w2 = (Inr m, w3) \<and>
    adjust_unit_cost d c product w3 = (Inr u, w3) \<and>
    adjust_layers d c s u w3 = (Inr (), w4) \<and>
    w5 = w4\<lparr>uuid_next := Suc (uuid_next w4)\<rparr> \<and>
    publish_event bus ev w5 = (Inr (), w6) \<and>
    body = movement_entity m \<and> (\<exists>t. w' = w6\<lparr>t_audit := t\<rparr>)"
proof -
  have refs: "adjust_references d c w = (Inr p, w0) \<Longrightarrow> w0 = w" for p w0
  proof -
    have "frame id (adjust_references d c)"
      unfolding adjust_references_def by (intro frame_intros)
    then show "adjust_references d c w = (Inr p, w0) \<Longrightarrow> w0 = w" by (auto dest: frameD)
  qed
  from assms obtain product s w1 x w2 m w3 u w3' w4 ev w6 where
    "adjust_references d c w = (Inr product, w)" and
    "stock_or_zero (aj_product d) (aj_warehouse d) c w = (Inr s, w1)" and
    "0 \<le> st_quantity s + aj_quantity d" and
    "update_stock (st_id s) (\<lambda>r. r\<lparr>st_quantity := st_quantity s + aj_quantity d,
        st_available := st_quantity s + aj_quantity d - st_reserved s\<rparr>) c (st_version s) w1 = (Inr x, w2)" and
    "adjust_movement d c user s w2 = (Inr m, w3)" and
    cost: "adjust_unit_cost d c product w3 = (Inr u, w3')" and
    "adjust_layers d c s u w3' = (Inr (), w4)" and
    "publish_event bus ev (w4\<lparr>uuid_next := Suc (uuid_next w4)\<rparr>) = (Inr (), w6)" and
    "body = movement_entity m" and "\<exists>t. w' = w6\<lparr>t_audit := t\<rparr>"
    unfolding apply_adjust_stock_def Let_def bind_Inr_iff require_Inr_iff
    by (fastforce dest: refs)
  moreover have "w3' = w3" using adjust_unit_cost_Inr [OF cost] by simp
  ultimately show ?thesis by blast
qed

lemma frame_adjust_layers [frame_intros]:
  "(\<And>h w. g (t_layer_update h w) = g w) \<Longrightarrow> (\<And>h w. g (uuid_next_update h w) = g w) \<Longrightarrow>
     frame g (adjust_layers d c s u)"
  unfolding adjust_layers_def Let_def by (intro frame_intros) auto

lemma advances_adjust_layers [frame_intros]: "advances (adjust_layers d c s u)"
  unfolding adjust_layers_def Let_def by (intro frame_intros)

lemma adjust_layers_pool:
  assumes "layers_ok w" and "- aj_quantity d \<le> pool_units w (aj_product d) c"
    and "aj_quantity d > 0 \<longrightarrow> u \<noteq> None" and "adjust_layers d c s u w = (Inr x, w')"
  shows "pool_units w' p' c' = pool_units w p' c' + (if (p', c') = (aj_product d, c) then aj_quantity d else 0)"
proof -
  have "(if aj_quantity d > 0 then record_inbound_layer (aj_product d) c (aj_quantity d) (the u) ''ADJUSTMENT''
          (or_else (aj_refId d) (st_id s)) None
        else if aj_quantity d < 0 then bind (consume_fifo_layers (aj_product d) c \<bar>aj_quantity d\<bar> ''ADJUSTMENT''
          (or_else (aj_refId d) (st_id s))) (\<lambda>_. ret ()) else ret ()) w = (Inr x, w')"
    using assms(3,4) by (auto simp: adjust_layers_def Let_def split: if_splits option.splits)
  from cost_pool.signed_move [OF assms(1,2) this] show ?thesis by simp
qed

lemma adjust_layers_ok:
  assumes "layers_ok w" and "adjust_layers d c s u w = (Inr x, w')"
  shows "layers_ok w'"
proof -
  consider (pos) v where "aj_quantity d > 0" "record_inbound_layer (aj_product d) c (aj_quantity d) v ''ADJUSTMENT''
          (or_else (aj_refId d) (st_id s)) None w = (Inr x, w')"
    | (neg) r where "aj_quantity d < 0" "consume_fifo_layers (aj_product d) c \<bar>aj_quantity d\<bar> ''ADJUSTMENT''
          (or_else (aj_refId d) (st_id s)) w = (Inr r, w')"
    | "w' = w"
    using assms(2) by (auto simp: adjust_layers_def Let_def bind_Inr_iff split: if_splits option.splits)
  then show ?thesis
  proof cases
    case pos
    then show ?thesis using record_inbound_layer_Inr(1) [OF assms(1)] by blast
  next
    case neg
    then show ?thesis using consume_fifo_layers_Inr(1) [OF assms(1) _ neg(2)] by simp
  next
    case 3
    with assms(1) show ?thesis by simp
  qed
qed

text \<open>The whole effect of a successful adjustment on the inventory tables.\<close>

lemma adjust_effect:
  assumes bus: "tame_bus bus" and wf: "stock_wf w" and lay: "layers_ok w"
    and run: "apply_adjust_stock bus d c user w = (Inr body, w')"
  defines "p \<equiv> aj_product d" and "wh \<equiv> aj_warehouse d" and "q \<equiv> aj_quantity d"
  shows "stock_wf w'" and "layers_ok w'"
    and "balance w' p' wh' c' = (if (p', wh', c') = (p, wh, c) then balance w p wh c + q else balance w p' wh' c')"
    and "0 \<le> balance w p wh c + q"
    and "stock_total w' p' c' = stock_total w p' c' + (if (p', c') = (p, c) then q else 0)"
    and "\<exists>m. body = movement_entity m \<and> t_movement w' = t_movement w @ [m] \<and>
      mv_product m = p \<and> mv_warehouse m = wh \<and> mv_company m = c \<and> mv_type m = ADJUSTMENT \<and> mv_quantity m = q \<and>
      mv_before m = balance w p wh c \<and> mv_after m = balance w p wh c + q \<and> mv_clientOp m = aj_clientOp d \<and>
      (\<forall>x \<in> set (t_movement w). \<not> movement_clash c (aj_clientOp d) ADJUSTMENT x)"
    and "- q \<le> pool_units w p c \<Longrightarrow>
      pool_units w' p' c' = pool_units w p' c' + (if (p', c') = (p, c) then q else 0)"
    and "filter (\<lambda>r. st_company r \<noteq> c) (t_stock w') = filter (\<lambda>r. st_company r \<noteq> c) (t_stock w)"
    and "stock_nonneg w \<Longrightarrow> stock_nonneg w'"
proof -
  from apply_adjust_stock_steps [OF run] obtain product s w1 x w2 m w3 u w4 ev w5 w6 where
    s: "stock_or_zero p wh c w = (Inr s, w1)" and
    pos: "0 \<le> st_quantity s + q" and
    upd: "update_stock (st_id s) (\<lambda>r. r\<lparr>st_quantity := st_quantity s + q,
        st_available := st_quantity s + q - st_reserved s\<rparr>) c (st_version s) w1 = (Inr x, w2)" and
    mov: "adjust_movement d c user s w2 = (Inr m, w3)" and
    cost: "adjust_unit_cost d c product w3 = (Inr u, w3)" and
    lays: "adjust_layers d c s u w3 = (Inr (), w4)" and
    w5: "w5 = w4\<lparr>uuid_next := Suc (uuid_next w4)\<rparr>" and
    pub: "publish_event bus ev w5 = (Inr (), w6)" and
    body: "body = movement_entity m" and w': "\<exists>t. w' = w6\<lparr>t_audit := t\<rparr>"
    unfolding p_def wh_def q_def by blast
  note S = stock_or_zero_Inr [OF wf s]
  note U = write_balance [OF S(1) S(2) S(3) upd]
  have fr0: "t_layer w1 = t_layer w" "t_movement w1 = t_movement w"
    "uuid_gen w1 = uuid_gen w \<and> uuid_next w \<le> uuid_next w1"
  proof -
    have "frame t_layer (stock_or_zero p wh c)" "frame t_movement (stock_or_zero p wh c)" "advances (stock_or_zero p wh c)"
      unfolding stock_or_zero_def by (intro frame_intros; simp)+
    with s show "t_layer w1 = t_layer w" "t_movement w1 = t_movement w"
      "uuid_gen w1 = uuid_gen w \<and> uuid_next w \<le> uuid_next w1" by (auto dest: frameD advancesD)
  qed
  have fr1: "t_layer w2 = t_layer w" "t_movement w2 = t_movement w"
    "uuid_gen w2 = uuid_gen w \<and> uuid_next w \<le> uuid_next w2"
    using update_stock_Inr [OF upd] fr0 by auto
  note M = adjust_movement_Inr [OF mov]
  have fr4: "t_stock w4 = t_stock w2" "t_movement w4 = t_movement w3"
    "uuid_gen w4 = uuid_gen w3 \<and> uuid_next w3 \<le> uuid_next w4"
  proof -
    have "frame t_stock (adjust_layers d c s u)" "frame t_movement (adjust_layers d c s u)" "advances (adjust_layers d c s u)"
      by (intro frame_intros; simp)+
    with lays M show "t_stock w4 = t_stock w2" "t_movement w4 = t_movement w3"
      "uuid_gen w4 = uuid_gen w3 \<and> uuid_next w3 \<le> uuid_next w4" by (auto dest: frameD advancesD)
  qed
  note B = tame_busD [OF bus pub]
  have tabs: "t_stock w' = t_stock w2" "t_layer w' = t_layer w4" "t_movement w' = t_movement w @ [m]"
    "uuid_gen w' = uuid_gen w4 \<and> uuid_next w4 \<le> uuid_next w'"
    using B w' fr4 M fr1 by (auto simp: w5)
  have late: "uuid_gen w' = uuid_gen w2 \<and> uuid_next w2 \<le> uuid_next w'"
    using tabs(4) fr4(3) M by auto
  show "stock_wf w'" using U(1) tabs(1) late by (rule stock_wf_frame)
  have lay3: "layers_ok w3"
    by (rule layers_ok_frame [OF lay]) (use M fr1 in auto)
  have "layers_ok w4" by (rule adjust_layers_ok [OF lay3 lays])
  then show "layers_ok w'" using tabs(2,4) by (rule layers_ok_frame)
  show "balance w' p' wh' c' = (if (p', wh', c') = (p, wh, c) then balance w p wh c + q else balance w p' wh' c')"
    using U(2) [of p' wh' c'] S(4) S(5) [of p' wh' c'] by (simp add: stock_views_frame(1) [OF tabs(1)])
  show "0 \<le> balance w p wh c + q" using pos S(4) by simp
  show "stock_total w' p' c' = stock_total w p' c' + (if (p', c') = (p, c) then q else 0)"
    using U(3) [of p' c'] S(6) [of p' c'] by (simp add: stock_views_frame(2) [OF tabs(1)])
  show "\<exists>m. body = movement_entity m \<and> t_movement w' = t_movement w @ [m] \<and>
      mv_product m = p \<and> mv_warehouse m = wh \<and> mv_company m = c \<and> mv_type m = ADJUSTMENT \<and> mv_quantity m = q \<and>
      mv_before m = balance w p wh c \<and> mv_after m = balance w p wh c + q \<and> mv_clientOp m = aj_clientOp d \<and>
      (\<forall>x \<in> set (t_movement w). \<not> movement_clash c (aj_clientOp d) ADJUSTMENT x)"
    using M S(4) tabs(3) fr1(2) body by (auto simp: p_def wh_def q_def)
  show "pool_units w' p' c' = pool_units w p' c' + (if (p', c') = (p, c) then q else 0)"
    if "- q \<le> pool_units w p c"
  proof -
    have same: "pool_units w3 p'' c'' = pool_units w p'' c''" for p'' c''
      by (rule pool_frame) (use M fr1 in simp)
    have "pool_units w4 p' c' = pool_units w3 p' c' + (if (p', c') = (p, c) then q else 0)"
      using adjust_layers_pool [OF lay3 _ _ lays, of p' c'] adjust_unit_cost_Inr [OF cost] that
      by (simp add: same p_def q_def)
    then show ?thesis using pool_frame [OF tabs(2), of p' c'] same by simp
  qed
  show "filter (\<lambda>r. st_company r \<noteq> c) (t_stock w') = filter (\<lambda>r. st_company r \<noteq> c) (t_stock w)"
    using U(5) S(7) tabs(1) by simp
  show "stock_nonneg w'" if "stock_nonneg w"
  proof -
    have "stock_nonneg w1"
      using that s by (auto simp: stock_or_zero_def find_stock_by_product_and_warehouse_def bind_Inr_iff
          create_stock_Inr stock_nonneg_def split: option.splits)
    then have "stock_nonneg w2" using U(4) pos by simp
    then show ?thesis by (simp add: stock_views_frame(3) [OF tabs(1)])
  qed
qed

section \<open>A transfer, taken apart\<close>

lemma transfer_movement_Inr:
  assumes "transfer_movement d c user wh ty b a w = (Inr m, w')"
  shows "t_movement w' = t_movement w @ [m] \<and> mv_before m = b \<and> mv_after m = a \<and>
     mv_quantity m = tr_quantity d \<and> mv_type m = ty \<and> mv_product m = tr_product d \<and> mv_warehouse m = wh \<and>
     mv_company m = c \<and> mv_clientOp m = tr_clientOp d \<and> t_stock w' = t_stock w \<and> t_layer w' = t_layer w \<and>
     uuid_gen w' = uuid_gen w \<and> uuid_next w \<le> uuid_next w' \<and>
     (\<forall>x \<in> set (t_movement w). \<not> movement_clash c (tr_clientOp d) ty x)"
  using assms unfolding transfer_movement_def catch_rethrow_Inr_iff create_stock_movement_Inr by auto

lemma apply_transfer_stock_steps:
  assumes "apply_transfer_stock bus d c user w = (Inr body, w')"
  defines "dest \<equiv> find_first (stock_at (tr_product d) (tr_to d) c) (t_stock w)"
  shows "\<exists>s x w1 y w2 m w3 n w4 ev.
    find_first (stock_at (tr_product d) (tr_from d) c) (t_stock w) = Some s \<and>
    0 \<le> st_quantity s - tr_quantity d \<and>
    update_stock (st_id s) (\<lambda>r. r\<lparr>st_quantity := st_quantity s - tr_quantity d,
        st_available := max 0 (st_quantity s - tr_quantity d - st_reserved s)\<rparr>) c (st_version s) w = (Inr x, w1) \<and>
    transfer_destination d c dest (balance w (tr_product d) (tr_to d) c + tr_quantity d) w1 = (Inr y, w2) \<and>
    transfer_movement d c user (tr_from d) TRANSFER_OUT (st_quantity s) (st_quantity s - tr_quantity d) w2 = (Inr m, w3) \<and>
    transfer_movement d c user (tr_to d) TRANSFER_IN (balance w (tr_product d) (tr_to d) c)
      (balance w (tr_product d) (tr_to d) c + tr_quantity d) w3 = (Inr n, w4) \<and>
    publish_event bus ev (w4\<lparr>uuid_next := Suc (uuid_next w4)\<rparr>) = (Inr (), w') \<and>
    body = JArr [movement_entity m, movement_entity n]"
proof -
  have "frame id (transfer_references d c)"
    unfolding transfer_references_def by (intro frame_intros)
  then have refs: "transfer_references d c w = (Inr u, w0) \<Longrightarrow> w0 = w" for u w0
    by (auto dest: frameD)
  show ?thesis
    using assms(1)
    unfolding apply_transfer_stock_def Let_def bind_Inr_iff require_Inr_iff require_some_Inr_iff
      find_stock_by_product_and_warehouse_def ask_run dest_def balance_def
    by (auto dest!: refs simp: not_less)
qed

lemma transfer_effect:
  assumes bus: "tame_bus bus" and wf: "stock_wf w" and diff: "tr_from d \<noteq> tr_to d" and q: "0 \<le> tr_quantity d"
    and run: "apply_transfer_stock bus d c user w = (Inr body, w')"
  defines "p \<equiv> tr_product d"
  shows "stock_wf w'" and "t_layer w' = t_layer w"
    and "uuid_gen w' = uuid_gen w \<and> uuid_next w \<le> uuid_next w'"
    and "balance w' p' wh' c' =
      balance w p' wh' c' + (if (p', wh', c') = (p, tr_to d, c) then tr_quantity d
        else if (p', wh', c') = (p, tr_from d, c) then - tr_quantity d else 0)"
    and "tr_quantity d \<le> balance w p (tr_from d) c"
    and "stock_total w' p' c' = stock_total w p' c'"
    and "\<exists>m n. t_movement w' = t_movement w @ [m, n] \<and> mv_type m = TRANSFER_OUT \<and> mv_type n = TRANSFER_IN \<and>
      mv_clientOp m = tr_clientOp d \<and> mv_clientOp n = tr_clientOp d \<and>
      mv_before m - mv_after m = tr_quantity d \<and> mv_after n - mv_before n = tr_quantity d \<and>
      mv_before m = balance w p (tr_from d) c \<and> mv_before n = balance w p (tr_to d) c"
    and "filter (\<lambda>r. st_company r \<noteq> c) (t_stock w') = filter (\<lambda>r. st_company r \<noteq> c) (t_stock w)"
    and "stock_nonneg w \<Longrightarrow> stock_nonneg w'"
proof -
  from apply_transfer_stock_steps [OF run] obtain s x w1 y w2 m w3 n w4 ev where
    s: "find_first (stock_at p (tr_from d) c) (t_stock w) = Some s" and
    pos: "0 \<le> st_quantity s - tr_quantity d" and
    upd: "update_stock (st_id s) (\<lambda>r. r\<lparr>st_quantity := st_quantity s - tr_quantity d,
        st_available := max 0 (st_quantity s - tr_quantity d - st_reserved s)\<rparr>) c (st_version s) w = (Inr x, w1)" and
    dst: "transfer_destination d c (find_first (stock_at p (tr_to d) c) (t_stock w))
        (balance w p (tr_to d) c + tr_quantity d) w1 = (Inr y, w2)" and
    out: "transfer_movement d c user (tr_from d) TRANSFER_OUT (st_quantity s) (st_quantity s - tr_quantity d) w2 = (Inr m, w3)" and
    inn: "transfer_movement d c user (tr_to d) TRANSFER_IN (balance w p (tr_to d) c)
      (balance w p (tr_to d) c + tr_quantity d) w3 = (Inr n, w4)" and
    pub: "publish_event bus ev (w4\<lparr>uuid_next := Suc (uuid_next w4)\<rparr>) = (Inr (), w')"
    unfolding p_def by blast
  have mem: "s \<in> set (t_stock w)" "stock_at p (tr_from d) c s" using find_first_SomeD [OF s] by auto
  note U = write_balance [OF wf mem upd]
  have bal: "balance w p (tr_from d) c = st_quantity s" using s by (simp add: balance_def)
  have w1: "t_layer w1 = t_layer w" "t_movement w1 = t_movement w" "uuid_gen w1 = uuid_gen w" "uuid_next w1 = uuid_next w"
    using update_stock_Inr [OF upd] by auto
  have D: "stock_wf w2 \<and> balance w2 p' wh' c' = (if (p', wh', c') = (p, tr_to d, c)
        then balance w p (tr_to d) c + tr_quantity d else balance w1 p' wh' c') \<and>
      stock_total w2 p' c' = stock_total w1 p' c' + (if (p', c') = (p, c) then tr_quantity d else 0) \<and>
      filter (\<lambda>r. st_company r \<noteq> c) (t_stock w2) = filter (\<lambda>r. st_company r \<noteq> c) (t_stock w1) \<and>
      (stock_nonneg w1 \<longrightarrow> 0 \<le> balance w p (tr_to d) c \<longrightarrow> stock_nonneg w2) \<and>
      t_layer w2 = t_layer w1 \<and> t_movement w2 = t_movement w1 \<and>
      uuid_gen w2 = uuid_gen w1 \<and> uuid_next w1 \<le> uuid_next w2" for p' wh' c'
  proof (cases "find_first (stock_at p (tr_to d) c) (t_stock w)")
    case None
    then have new: "create_stock p (tr_to d) c (tr_quantity d) 0 (tr_quantity d) w1 = (Inr y, w2)"
      using dst by (simp add: transfer_destination_def p_def)
    have "balance w p (tr_to d) c = 0" using None by (simp add: balance_def)
    then show ?thesis
      using create_empty_stock [OF U(1) new] q new
      by (auto simp: create_stock_Inr stock_nonneg_def)
  next
    case (Some t)
    have t: "t \<in> set (t_stock w)" "stock_at p (tr_to d) c t" using find_first_SomeD [OF Some] by auto
    have "t \<in> set (t_stock w1)"
      by (rule U(6) [of p "tr_to d" c, OF _ t]) (use diff in simp)
    moreover have new: "update_stock (st_id t) (\<lambda>r. r\<lparr>st_quantity := balance w p (tr_to d) c + tr_quantity d,
        st_available := balance w p (tr_to d) c + tr_quantity d - st_reserved t\<rparr>) c (st_version t) w1 = (Inr y, w2)"
      using dst Some by (simp add: transfer_destination_def)
    moreover have "balance w p (tr_to d) c = st_quantity t" using Some by (simp add: balance_def)
    ultimately show ?thesis
      using write_balance [OF U(1) _ t(2) new] q update_stock_Inr [OF new] by auto
  qed
  note M = transfer_movement_Inr [OF out] and N = transfer_movement_Inr [OF inn]
  note B = tame_busD [OF bus pub]
  have tabs: "t_stock w' = t_stock w2" "uuid_gen w' = uuid_gen w2 \<and> uuid_next w2 \<le> uuid_next w'"
    using B M N by auto
  show "stock_wf w'" by (rule stock_wf_frame [OF _ tabs]) (use D in blast)
  show "t_layer w' = t_layer w" using B M N D w1 by auto
  show "uuid_gen w' = uuid_gen w \<and> uuid_next w \<le> uuid_next w'"
  proof -
    have "uuid_gen w2 = uuid_gen w1 \<and> uuid_next w1 \<le> uuid_next w2" using D by blast
    with tabs(2) w1(3,4) show ?thesis by simp
  qed
  show "balance w' p' wh' c' =
      balance w p' wh' c' + (if (p', wh', c') = (p, tr_to d, c) then tr_quantity d
        else if (p', wh', c') = (p, tr_from d, c) then - tr_quantity d else 0)"
    using D [of p' wh' c'] U(2) [of p' wh' c'] diff bal by (simp add: stock_views_frame(1) [OF tabs(1)])
  show "tr_quantity d \<le> balance w p (tr_from d) c" using pos bal by simp
  show "stock_total w' p' c' = stock_total w p' c'"
    using D [of p' _ c'] U(3) [of p' c'] by (auto simp: stock_views_frame(2) [OF tabs(1)])
  have "t_movement w' = t_movement w @ [m, n]" using B M N D w1 by auto
  then show "\<exists>m n. t_movement w' = t_movement w @ [m, n] \<and> mv_type m = TRANSFER_OUT \<and> mv_type n = TRANSFER_IN \<and>
      mv_clientOp m = tr_clientOp d \<and> mv_clientOp n = tr_clientOp d \<and>
      mv_before m - mv_after m = tr_quantity d \<and> mv_after n - mv_before n = tr_quantity d \<and>
      mv_before m = balance w p (tr_from d) c \<and> mv_before n = balance w p (tr_to d) c"
    using M N bal by auto
  show "filter (\<lambda>r. st_company r \<noteq> c) (t_stock w') = filter (\<lambda>r. st_company r \<noteq> c) (t_stock w)"
    using U(5) D tabs(1) by simp
  show "stock_nonneg w'" if "stock_nonneg w"
  proof -
    have "0 \<le> balance w p (tr_to d) c"
      using that by (auto simp: balance_def stock_nonneg_def split: option.splits dest: find_first_SomeD)
    then show ?thesis
      using U(4) [OF that pos] D by (simp add: stock_views_frame(3) [OF tabs(1)])
  qed
qed

section \<open>Tenants\<close>

lemma consume_other_tenants:
  assumes "layers_ok w" and "0 \<le> q" and "consume_fifo_layers p c q rt ri w = (Inr r, w')"
  shows "filter (\<lambda>l. cl_company l \<noteq> c) (t_layer w') = filter (\<lambda>l. cl_company l \<noteq> c) (t_layer w)"
proof -
  let ?d = "drain (fifo_share (active_layers w p c) q)"
  have ids: "distinct (map cl_id (t_layer w))" using assms(1) by (simp add: layers_ok_def)
  obtain x where t': "t_layer w' = map ?d (t_layer w) @ [x]" and x: "cl_company x = c"
    using assms(3) by (auto simp: consume_fifo_layers_run [OF ids assms(2)] Let_def out_layer_def split: if_splits)
  have "filter (\<lambda>l. cl_company l \<noteq> c) (map ?d (t_layer w)) = map ?d (filter (\<lambda>l. cl_company l \<noteq> c) (t_layer w))"
    by (simp add: filter_map comp_def)
  also have "\<dots> = filter (\<lambda>l. cl_company l \<noteq> c) (t_layer w)"
  proof (rule map_idI)
    fix l
    assume "l \<in> set (filter (\<lambda>l. cl_company l \<noteq> c) (t_layer w))"
    then have "l \<in> set (t_layer w)" "\<not> active_layer p c l" by (auto simp: active_layer_def)
    from share_of_inactive [OF ids this] show "?d l = l" by (simp add: drain_def)
  qed
  finally show ?thesis by (simp add: t' x)
qed

lemma adjust_layers_other_tenants:
  assumes "layers_ok w" and "adjust_layers d c s u w = (Inr x, w')"
  shows "filter (\<lambda>l. cl_company l \<noteq> c) (t_layer w') = filter (\<lambda>l. cl_company l \<noteq> c) (t_layer w)"
proof -
  consider (pos) v where "record_inbound_layer (aj_product d) c (aj_quantity d) v ''ADJUSTMENT''
          (or_else (aj_refId d) (st_id s)) None w = (Inr x, w')"
    | (neg) r where "consume_fifo_layers (aj_product d) c \<bar>aj_quantity d\<bar> ''ADJUSTMENT''
          (or_else (aj_refId d) (st_id s)) w = (Inr r, w')"
    | "w' = w"
    using assms(2) by (auto simp: adjust_layers_def Let_def bind_Inr_iff split: if_splits option.splits)
  then show ?thesis
  proof cases
    case pos
    then show ?thesis by (auto simp: record_inbound_layer_def create_cost_layer_def Let_def bind_def)
  next
    case neg
    show ?thesis by (rule consume_other_tenants [OF assms(1) _ neg]) simp
  next
    case 3
    then show ?thesis by simp
  qed
qed

lemma adjust_other_layers:
  assumes bus: "tame_bus bus" and wf: "stock_wf w" and lay: "layers_ok w"
    and run: "apply_adjust_stock bus d c user w = (Inr body, w')"
  shows "filter (\<lambda>x. cl_company x \<noteq> c) (t_layer w') = filter (\<lambda>x. cl_company x \<noteq> c) (t_layer w)"
proof -
  from apply_adjust_stock_steps [OF run] obtain s w1 x w2 m w3 u w4 ev w5 w6 where
    s: "stock_or_zero (aj_product d) (aj_warehouse d) c w = (Inr s, w1)" and
    upd: "update_stock (st_id s) (\<lambda>r. r\<lparr>st_quantity := st_quantity s + aj_quantity d,
        st_available := st_quantity s + aj_quantity d - st_reserved s\<rparr>) c (st_version s) w1 = (Inr x, w2)" and
    mov: "adjust_movement d c user s w2 = (Inr m, w3)" and
    lays: "adjust_layers d c s u w3 = (Inr (), w4)" and
    w5: "w5 = w4\<lparr>uuid_next := Suc (uuid_next w4)\<rparr>" and
    pub: "publish_event bus ev w5 = (Inr (), w6)" and w': "\<exists>t. w' = w6\<lparr>t_audit := t\<rparr>"
    by blast
  have "frame t_layer (stock_or_zero (aj_product d) (aj_warehouse d) c)"
    "advances (stock_or_zero (aj_product d) (aj_warehouse d) c)"
    unfolding stock_or_zero_def by (intro frame_intros; simp)+
  with s have "t_layer w1 = t_layer w" "uuid_gen w1 = uuid_gen w \<and> uuid_next w \<le> uuid_next w1"
    by (auto dest: frameD advancesD)
  then have w3: "t_layer w3 = t_layer w" "uuid_gen w3 = uuid_gen w \<and> uuid_next w \<le> uuid_next w3"
    using update_stock_Inr [OF upd] adjust_movement_Inr [OF mov] by auto
  have "layers_ok w3" by (rule layers_ok_frame [OF lay w3])
  from adjust_layers_other_tenants [OF this lays] show ?thesis
    using tame_busD(3) [OF bus pub] w' w3(1) by (auto simp: w5)
qed

section \<open>Properties\<close>

text \<open>
  Property C19: an adjustment moves exactly one balance. When it succeeds the quantity at its product,
  warehouse and company has changed by exactly the requested amount and is not negative, no other
  balance has changed, the company's stock of the product has changed by the same amount, and exactly
  one ADJUSTMENT movement is appended, recording the balance before and after.
\<close>

theorem adjustment_moves_exactly_one_balance:
  assumes "tame_bus bus" and "stock_wf w" and "layers_ok w"
    and "apply_adjust_stock bus d c user w = (Inr body, w')"
  defines "p \<equiv> aj_product d" and "wh \<equiv> aj_warehouse d"
  shows "balance w' p wh c = balance w p wh c + aj_quantity d \<and> 0 \<le> balance w' p wh c \<and>
    (\<forall>p' wh' c'. (p', wh', c') \<noteq> (p, wh, c) \<longrightarrow> balance w' p' wh' c' = balance w p' wh' c') \<and>
    stock_total w' p c = stock_total w p c + aj_quantity d \<and>
    (\<exists>m. body = movement_entity m \<and> t_movement w' = t_movement w @ [m] \<and> mv_type m = ADJUSTMENT \<and>
       mv_quantity m = aj_quantity d \<and> mv_before m = balance w p wh c \<and> mv_after m = balance w' p wh c)"
  using adjust_effect(3,4,5,6) [OF assms(1-4)] unfolding p_def wh_def by auto

text \<open>
  Property C20: a transfer conserves stock. When it succeeds the source had at least the requested
  quantity, the source balance falls and the destination balance rises by exactly that quantity, no
  other balance and no cost layer changes, the company total of every product is the same, and the two
  movements (out, then in) carry the same operation identity.
\<close>

theorem transfer_conserves_stock:
  assumes "tame_bus bus" and "stock_wf w" and "tr_from d \<noteq> tr_to d" and "0 \<le> tr_quantity d"
    and "apply_transfer_stock bus d c user w = (Inr body, w')"
  defines "p \<equiv> tr_product d"
  shows "tr_quantity d \<le> balance w p (tr_from d) c \<and>
    balance w' p (tr_from d) c = balance w p (tr_from d) c - tr_quantity d \<and>
    balance w' p (tr_to d) c = balance w p (tr_to d) c + tr_quantity d \<and>
    (\<forall>p' wh' c'. (p', wh', c') \<notin> {(p, tr_from d, c), (p, tr_to d, c)} \<longrightarrow>
       balance w' p' wh' c' = balance w p' wh' c') \<and>
    (\<forall>p' c'. stock_total w' p' c' = stock_total w p' c') \<and> t_layer w' = t_layer w \<and>
    (\<exists>m n. t_movement w' = t_movement w @ [m, n] \<and> mv_type m = TRANSFER_OUT \<and> mv_type n = TRANSFER_IN \<and>
       mv_clientOp m = mv_clientOp n)"
proof -
  note T = transfer_effect [OF assms(1-5), folded p_def]
  have "\<exists>m n. t_movement w' = t_movement w @ [m, n] \<and> mv_type m = TRANSFER_OUT \<and> mv_type n = TRANSFER_IN \<and>
       mv_clientOp m = mv_clientOp n"
    using T(7) by auto
  with T(2,4,5,6) assms(3) show ?thesis by auto
qed

text \<open>
  An operation identity is spent for good. Once an adjustment carrying a
  clientOperationId has been recorded, the same request is refused in every later state that still
  has its movement and the product and warehouse --- with no idempotency record at all --- and leaves
  no trace; unless the stock no longer covers it, the refusal is the 409 the mobile outbox expects.
\<close>

theorem operation_identity_is_permanent:
  assumes "m \<in> set (t_movement w)" and "movement_clash c (aj_clientOp d) ADJUSTMENT m"
    and "adjust_references d c w = (Inr product, w)" and "stock_wf w"
  shows "\<exists>e. adjust_stock bus d c user None w = (Inl e, w) \<and>
    e \<in> {BadRequest ''Insufficient stock'', UniqueViolation [''productId'', ''warehouseId''],
         Conflict ''Inventory operation already applied (unique operation identity). Please refresh and retry.''} \<and>
    (find_first (stock_at (aj_product d) (aj_warehouse d) c) (t_stock w) \<noteq> None \<and>
     0 \<le> balance w (aj_product d) (aj_warehouse d) c + aj_quantity d \<longrightarrow>
       e = Conflict ''Inventory operation already applied (unique operation identity). Please refresh and retry.'')"
proof -
  define refused where "refused = Conflict ''Inventory operation already applied (unique operation identity). Please refresh and retry.''"
  have clash: "adjust_movement d c user s w1 = (Inl refused, w1)" if "t_movement w1 = t_movement w" for s w1
  proof -
    have "find_first (movement_clash c (aj_clientOp d) ADJUSTMENT) (t_movement w1) \<noteq> None"
      using assms(1,2) that by (auto simp: find_first_None_iff)
    then show ?thesis
      by (auto simp: adjust_movement_def create_stock_movement_def catch_def bind_def refused_def
          to_duplicate_operation_conflict_def)
  qed
  have body: "\<exists>e w1. apply_adjust_stock bus d c user w = (Inl e, w1) \<and>
      e \<in> {BadRequest ''Insufficient stock'', UniqueViolation [''productId'', ''warehouseId''], refused} \<and>
      (find_first (stock_at (aj_product d) (aj_warehouse d) c) (t_stock w) \<noteq> None \<and>
       0 \<le> balance w (aj_product d) (aj_warehouse d) c + aj_quantity d \<longrightarrow> e = refused)"
  proof (cases "stock_or_zero (aj_product d) (aj_warehouse d) c w")
    case (Pair r w1)
    show ?thesis
    proof (cases r)
      case (Inl e)
      with Pair have "e = UniqueViolation [''productId'', ''warehouseId''] \<and>
          find_first (stock_at (aj_product d) (aj_warehouse d) c) (t_stock w) = None"
        by (auto simp: stock_or_zero_def find_stock_by_product_and_warehouse_def create_stock_def Let_def
            bind_def split: option.splits if_splits)
      with Pair Inl assms(3) show ?thesis by (simp add: apply_adjust_stock_def)
    next
      case (Inr s)
      note run = Pair [unfolded Inr]
      note S = stock_or_zero_Inr [OF assms(4) run]
      show ?thesis
      proof (cases "st_quantity s + aj_quantity d < 0")
        case True
        then show ?thesis using assms(3) run S(4) by (simp add: apply_adjust_stock_def Let_def)
      next
        case False
        let ?u = "update_stock (st_id s) (\<lambda>r. r\<lparr>st_quantity := st_quantity s + aj_quantity d,
            st_available := st_quantity s + aj_quantity d - st_reserved s\<rparr>) c (st_version s)"
        have fr: "frame t_movement ?u" "frame t_movement (stock_or_zero (aj_product d) (aj_warehouse d) c)"
          unfolding stock_or_zero_def by (intro frame_intros; simp)+
        have "\<exists>x w2. ?u w1 = (Inr x, w2)"
          using S(2,3) by (intro update_stock_hit) (auto simp: stock_at_def)
        then obtain x w2 where w2: "?u w1 = (Inr x, w2)" by blast
        have "t_movement w2 = t_movement w"
          using frameD [OF fr(1) w2] frameD [OF fr(2) run] by simp
        from clash [OF this, of s] show ?thesis
          using assms(3) run False w2 by (simp add: apply_adjust_stock_def Let_def)
      qed
    qed
  qed
  then show ?thesis
    unfolding refused_def [symmetric] adjust_stock_def run_with_idempotency_def
    by (auto simp: transaction_def)
qed

lemma frame_adjust_parts [frame_intros]:
  "frame g (adjust_references d c)" "frame g (adjust_unit_cost d c product)" "frame g (transfer_references t c)"
  unfolding adjust_references_def adjust_unit_cost_def transfer_references_def by (intro frame_intros)+

lemma frame_stock_or_zero [frame_intros]:
  "(\<And>h w. g (t_stock_update h w) = g w) \<Longrightarrow> (\<And>h w. g (uuid_next_update h w) = g w) \<Longrightarrow>
     frame g (stock_or_zero p wh c)"
  unfolding stock_or_zero_def by (intro frame_intros) auto

lemma frame_movements [frame_intros]:
  assumes "\<And>h w. g (t_movement_update h w) = g w" and "\<And>h w. g (uuid_next_update h w) = g w"
  shows "frame g (adjust_movement d c user s)" and "frame g (transfer_movement t c user wh ty b a)"
  unfolding adjust_movement_def transfer_movement_def by (intro frame_intros assms)+

lemma frame_apply_adjust_stock:
  assumes "bus_frame g bus" and "\<And>h w. g (t_stock_update h w) = g w" and "\<And>h w. g (t_movement_update h w) = g w"
    and "\<And>h w. g (t_layer_update h w) = g w" and "\<And>h w. g (t_audit_update h w) = g w"
    and "\<And>h w. g (uuid_next_update h w) = g w"
  shows "frame g (apply_adjust_stock bus d c user)"
  unfolding apply_adjust_stock_def Let_def by (intro frame_intros assms)

lemma quiet_apply_adjust_stock:
  assumes "bus_frame t_idem bus" and "bus_frame idem_env bus"
  shows "quiet (apply_adjust_stock bus d c user)"
  unfolding quiet_def
  by (intro conjI frame_apply_adjust_stock assms) (simp_all add: idem_env_def)

text \<open>
  A retried adjustment is applied once. After an adjustment under an idempotency key has
  succeeded, repeating it with the same key at any instants of the next 24 hours, any number of times,
  returns 201 and the stored movement each time and changes nothing: neither balances nor layers nor
  movements.
\<close>

theorem adjustment_retry_is_applied_once:
  assumes "bus_frame t_idem bus" and "bus_frame idem_env bus" and "idem_wf w" and "k \<noteq> ''''"
    and "\<not> live_record w c k (now w)"
    and "adjust_stock bus d c user (Some k) w = (Inr (s, body), w')"
    and "\<forall>t \<in> set ts. t < now w + IDEMPOTENCY_TTL_MS"
  shows "repeat_at (adjust_stock bus d c user (Some k)) ts w' =
    (map (\<lambda>_. Inr (201, json_wire (iso_str w) (dec_str w) body)) ts, w'\<lparr>now := last (now w' # ts)\<rparr>)"
proof -
  have "(201::int) \<noteq> IDEMPOTENCY_PENDING_STATUS" by (simp add: IDEMPOTENCY_PENDING_STATUS_def)
  from keyed.retries_replay [OF assms(4) this quiet_apply_adjust_stock [OF assms(1,2)] assms(3,5)
      assms(6) [unfolded adjust_stock_def] assms(7), of "now w'"]
  show ?thesis by (simp add: adjust_stock_def [abs_def])
qed

text \<open>
  An adjustment stays inside its tenant. Whatever it does, successful or not, with or
  without an idempotency key, the stock rows and cost layers of every other company are the same rows
  afterwards, and no movement of another company is added.
\<close>

theorem adjustment_stays_in_its_tenant:
  assumes "tame_bus bus" and "stock_wf w" and "layers_ok w"
    and "adjust_stock bus d c user key w = (r, w')"
  shows "filter (\<lambda>x. st_company x \<noteq> c) (t_stock w') = filter (\<lambda>x. st_company x \<noteq> c) (t_stock w) \<and>
    filter (\<lambda>x. cl_company x \<noteq> c) (t_layer w') = filter (\<lambda>x. cl_company x \<noteq> c) (t_layer w) \<and>
    filter (\<lambda>x. mv_company x \<noteq> c) (t_movement w') = filter (\<lambda>x. mv_company x \<noteq> c) (t_movement w)"
proof -
  define I where "I = (\<lambda>v. stock_wf v \<and> layers_ok v \<and>
    filter (\<lambda>x. st_company x \<noteq> c) (t_stock v) = filter (\<lambda>x. st_company x \<noteq> c) (t_stock w) \<and>
    filter (\<lambda>x. cl_company x \<noteq> c) (t_layer v) = filter (\<lambda>x. cl_company x \<noteq> c) (t_layer w) \<and>
    filter (\<lambda>x. mv_company x \<noteq> c) (t_movement v) = filter (\<lambda>x. mv_company x \<noteq> c) (t_movement w))"
  have "keeps_ok I (apply_adjust_stock bus d c user)"
  proof (rule keeps_okI)
    fix v body v'
    assume I: "I v" and run: "apply_adjust_stock bus d c user v = (Inr body, v')"
    then have ok: "stock_wf v" "layers_ok v" by (simp_all add: I_def)
    note A = adjust_effect [OF assms(1) ok run]
    have "filter (\<lambda>x. mv_company x \<noteq> c) (t_movement v') = filter (\<lambda>x. mv_company x \<noteq> c) (t_movement v)"
      using A(6) by auto
    moreover have "filter (\<lambda>x. cl_company x \<noteq> c) (t_layer v') = filter (\<lambda>x. cl_company x \<noteq> c) (t_layer v)"
      using adjust_other_layers [OF assms(1) ok run] .
    ultimately show "I v'" using I A(1,2,8) by (simp add: I_def)
  qed
  moreover have "I (t_idem_update h v)" if "I v" for h v
    using that by (simp add: I_def stock_wf_def layers_ok_def uuid_fresh_def)
  moreover have "I (v\<lparr>uuid_next := Suc (uuid_next v)\<rparr>)" if "I v" for v
    using that by (simp add: I_def stock_wf_def layers_ok_def uuid_fresh_def)
  ultimately have "keeps I (adjust_stock bus d c user key)"
    unfolding adjust_stock_def by (intro keeps_run_with_idempotency)
  moreover have "I w" using assms(2,3) by (simp add: I_def)
  ultimately have "I w'" using assms(4) by (rule keepsD)
  then show ?thesis by (simp add: I_def)
qed

section \<open>Concrete runs\<close>

definition demo_warehouse :: "string \<Rightarrow> warehouse_row" where
  "demo_warehouse i = \<lparr>wh_id = i, wh_company = ''c'', wh_active = True, wh_deleted = None, wh_version = 0\<rparr>"

definition demo_stock_row :: "string \<Rightarrow> string \<Rightarrow> int \<Rightarrow> int \<Rightarrow> stock_row" where
  "demo_stock_row i wh q res = \<lparr>st_id = i, st_company = ''c'', st_product = ''p'', st_warehouse = wh,
     st_quantity = q, st_reserved = res, st_available = q - res, st_version = 0\<rparr>"

text \<open>One product, two warehouses, ten units in the first of them, in one cost layer.\<close>

definition demo_world :: world where
  "demo_world = empty_world\<lparr>uuid_next := 3,
     t_product := [\<lparr>pr_id = ''p'', pr_company = ''c'', pr_costPrice = Some 4, pr_active = True, pr_deleted = None\<rparr>],
     t_warehouse := [demo_warehouse ''A'', demo_warehouse ''B''],
     t_stock := [demo_stock_row ''S1'' ''A'' 10 0],
     t_layer := [demo_layer ''L1'' 10 4 1]\<rparr>"

lemma demo_world_ok: "stock_wf demo_world" "layers_ok demo_world" "stock_nonneg demo_world"
proof -
  have fresh: "uuid_fresh (empty_world\<lparr>uuid_next := 3\<rparr>) {u. length u < 3}" by (rule uuid_fresh_empty_world)
  then show "stock_wf demo_world" "layers_ok demo_world"
    by (auto simp: layers_ok_def stock_wf_def demo_world_def demo_layer_def demo_stock_row_def uuid_fresh_def)
  show "stock_nonneg demo_world" by (simp add: stock_nonneg_def demo_world_def demo_stock_row_def)
qed

definition demo_adjust :: "int \<Rightarrow> adjust_dto" where
  "demo_adjust q = \<lparr>aj_product = ''p'', aj_warehouse = ''A'', aj_quantity = q, aj_reason = None,
     aj_refType = None, aj_refId = None, aj_comment = None, aj_clientOp = Some ''op-1''\<rparr>"

definition demo_transfer :: "int \<Rightarrow> transfer_dto" where
  "demo_transfer q = \<lparr>tr_product = ''p'', tr_from = ''A'', tr_to = ''B'', tr_quantity = q, tr_comment = None,
     tr_clientOp = None\<rparr>"

lemma demo_adjust_succeeds:
  "\<not> isl (fst (apply_adjust_stock (\<lambda>_. None) (demo_adjust (- 3)) ''c'' ''u'' demo_world))"
  by code_simp

lemma demo_transfer_succeeds:
  "\<not> isl (fst (apply_transfer_stock (\<lambda>_. None) (demo_transfer 4) ''c'' ''u'' demo_world))"
  by code_simp

lemma demo_balance: "balance demo_world ''p'' ''A'' ''c'' = 10" "balance demo_world ''p'' ''B'' ''c'' = 0"
  by (simp_all add: balance_def demo_world_def demo_stock_row_def stock_at_def)

theorem adjustment_moves_exactly_one_balance_witness:
  "\<exists>body w'. apply_adjust_stock (\<lambda>_. None) (demo_adjust (- 3)) ''c'' ''u'' demo_world = (Inr body, w') \<and>
     balance w' ''p'' ''A'' ''c'' = 7"
proof -
  obtain body w' where run: "apply_adjust_stock (\<lambda>_. None) (demo_adjust (- 3)) ''c'' ''u'' demo_world = (Inr body, w')"
    using run_succeeds [OF demo_adjust_succeeds] by blast
  with adjustment_moves_exactly_one_balance [OF tame_bus_empty demo_world_ok(1,2) run] show ?thesis
    by (simp add: demo_adjust_def demo_balance)
qed

theorem transfer_conserves_stock_witness:
  "\<exists>body w'. apply_transfer_stock (\<lambda>_. None) (demo_transfer 4) ''c'' ''u'' demo_world = (Inr body, w') \<and>
     balance w' ''p'' ''A'' ''c'' = 6 \<and> balance w' ''p'' ''B'' ''c'' = 4"
proof -
  obtain body w' where run: "apply_transfer_stock (\<lambda>_. None) (demo_transfer 4) ''c'' ''u'' demo_world = (Inr body, w')"
    using run_succeeds [OF demo_transfer_succeeds] by blast
  have "tr_from (demo_transfer 4) \<noteq> tr_to (demo_transfer 4)" "0 \<le> tr_quantity (demo_transfer 4)"
    by (simp_all add: demo_transfer_def)
  from transfer_conserves_stock [OF tame_bus_empty demo_world_ok(1) this run] run show ?thesis
    by (simp add: demo_transfer_def demo_balance)
qed

definition demo_applied :: world where
  "demo_applied = snd (apply_adjust_stock (\<lambda>_. None) (demo_adjust (- 3)) ''c'' ''u'' demo_world)"

lemma demo_applied_facts:
  "find_first (movement_clash ''c'' (Some ''op-1'') ADJUSTMENT) (t_movement demo_applied) \<noteq> None"
  "\<not> isl (fst (adjust_references (demo_adjust (- 3)) ''c'' demo_applied))"
  "find_first (stock_at ''p'' ''A'' ''c'') (t_stock demo_applied) \<noteq> None"
  by code_simp+

theorem operation_identity_is_permanent_witness:
  "adjust_stock (\<lambda>_. None) (demo_adjust (- 3)) ''c'' ''u'' None demo_applied =
    (Inl (Conflict ''Inventory operation already applied (unique operation identity). Please refresh and retry.''),
     demo_applied)"
proof -
  obtain body where run: "apply_adjust_stock (\<lambda>_. None) (demo_adjust (- 3)) ''c'' ''u'' demo_world = (Inr body, demo_applied)"
    using run_succeeds [OF demo_adjust_succeeds] by (auto simp: demo_applied_def)
  note A = adjust_effect [OF tame_bus_empty demo_world_ok(1,2) run]
  have bal: "balance demo_applied ''p'' ''A'' ''c'' = 7"
    using A(3) [of "''p''" "''A''" "''c''"] by (simp add: demo_adjust_def demo_balance)
  obtain m where m: "m \<in> set (t_movement demo_applied)"
      "movement_clash ''c'' (aj_clientOp (demo_adjust (- 3))) ADJUSTMENT m"
    using demo_applied_facts(1) by (auto simp: find_first_None_iff demo_adjust_def)
  have "frame id (adjust_references (demo_adjust (- 3)) ''c'')" by (rule frame_intros)
  then obtain product where refs: "adjust_references (demo_adjust (- 3)) ''c'' demo_applied = (Inr product, demo_applied)"
    using run_succeeds [OF demo_applied_facts(2)] by (auto dest: frameD)
  from operation_identity_is_permanent [OF m refs A(1), of "\<lambda>_. None" "''u''"] show ?thesis
    using demo_applied_facts(3) bal by (simp add: demo_adjust_def)
qed

lemma demo_keyed_succeeds:
  "\<not> isl (fst (adjust_stock (\<lambda>_. None) (demo_adjust 5) ''c'' ''u'' (Some ''k'') demo_world))"
  by code_simp

theorem adjustment_retry_is_applied_once_witness:
  "\<exists>s body w'. adjust_stock (\<lambda>_. None) (demo_adjust 5) ''c'' ''u'' (Some ''k'') demo_world = (Inr (s, body), w') \<and>
     repeat_at (adjust_stock (\<lambda>_. None) (demo_adjust 5) ''c'' ''u'' (Some ''k'')) [1000, 60000] w' =
       ([Inr (201, json_wire (iso_str demo_world) (dec_str demo_world) body),
         Inr (201, json_wire (iso_str demo_world) (dec_str demo_world) body)], w'\<lparr>now := 60000\<rparr>)"
proof -
  obtain s body w' where run: "adjust_stock (\<lambda>_. None) (demo_adjust 5) ''c'' ''u'' (Some ''k'') demo_world = (Inr (s, body), w')"
    using run_succeeds [OF demo_keyed_succeeds] by auto
  have "idem_wf demo_world" "\<not> live_record demo_world ''c'' ''k'' (now demo_world)" "now demo_world = 0"
    by (simp_all add: idem_wf_def live_record_def idem_row_of_def demo_world_def empty_world_def)
  then have "repeat_at (adjust_stock (\<lambda>_. None) (demo_adjust 5) ''c'' ''u'' (Some ''k'')) [1000, 60000] w' =
      (map (\<lambda>_. Inr (201, json_wire (iso_str demo_world) (dec_str demo_world) body)) [1000, 60000 :: int],
       w'\<lparr>now := last (now w' # [1000, 60000])\<rparr>)"
    by (intro adjustment_retry_is_applied_once [OF _ _ _ _ _ run]) (simp_all add: IDEMPOTENCY_TTL_MS_def)
  with run show ?thesis by auto
qed

theorem adjustment_stays_in_its_tenant_witness:
  "filter (\<lambda>x. st_company x \<noteq> ''c'') (t_stock (snd (adjust_stock (\<lambda>_. None) (demo_adjust 5) ''c'' ''u'' None demo_world))) = []"
proof -
  obtain r w' where run: "adjust_stock (\<lambda>_. None) (demo_adjust 5) ''c'' ''u'' None demo_world = (r, w')"
    by (cases "adjust_stock (\<lambda>_. None) (demo_adjust 5) ''c'' ''u'' None demo_world") auto
  with adjustment_stays_in_its_tenant [OF tame_bus_empty demo_world_ok(1,2) run] show ?thesis
    by (simp add: demo_world_def demo_stock_row_def)
qed

end
