(* ===== verification/Reservation.thy ===== *)
theory Reservation
  imports Stock
begin

text \<open>
  \<^verbatim>\<open>inventory/services/reservation.service.ts\<close>: reserving and releasing stock. Both bodies run in one
  transaction; the shared guard on the references comes first.
\<close>

section \<open>Requests\<close>

record reserve_dto =
  rs_product :: string
  rs_warehouse :: string
  rs_quantity :: int
  rs_refType :: "string option"
  rs_refId :: "string option"

text \<open>\<^verbatim>\<open>assertReferencesBelongToCompany\<close>.\<close>

definition assert_references :: "string \<Rightarrow> string \<Rightarrow> string \<Rightarrow> unit wtx" where
  "assert_references wh p c =
     bind (find_warehouse_by_id wh c) (\<lambda>warehouse.
     bind (require_some warehouse (NotFound ''Warehouse not found'')) (\<lambda>h.
     bind (require (wh_active h) (NotFound ''Warehouse is inactive'')) (\<lambda>_.
     bind (find_products_by_ids [p] c) (\<lambda>products.
     require (length products = 1 \<and> pr_active (hd products)) (NotFound ''Product with id not found'')))))"

definition reservation_result :: "movement_row \<Rightarrow> reserve_dto \<Rightarrow> int \<Rightarrow> int \<Rightarrow> int \<Rightarrow> json" where
  "reservation_result m d quantity reserved available = JObj
     [(''id'', JStr (mv_id m)), (''productId'', JStr (rs_product d)),
      (''warehouseId'', JStr (rs_warehouse d)), (''quantity'', jint quantity),
      (''reservedQuantity'', jint reserved), (''availableQuantity'', jint available)]"

definition reservation_audit :: "string \<Rightarrow> string \<Rightarrow> string \<Rightarrow> string \<Rightarrow> int \<Rightarrow> int \<Rightarrow> unit wtx" where
  "reservation_audit c user action stock_id old new =
     audit_log \<lparr>au_company = Some c, au_user = user, au_entity = ''Stock'', au_entityId = stock_id,
       au_action = action, au_before = Some (JObj [(''reservedQuantity'', jint old)]),
       au_after = Some (JObj [(''reservedQuantity'', jint new)])\<rparr>"

section \<open>Reserve and release\<close>

definition reserve_stock :: "reserve_dto \<Rightarrow> string \<Rightarrow> string \<Rightarrow> json wtx" where
  "reserve_stock d c user = transaction (
     bind (assert_references (rs_warehouse d) (rs_product d) c) (\<lambda>_.
     bind (find_stock_by_product_and_warehouse (rs_product d) (rs_warehouse d) c) (\<lambda>found.
     bind (require_some found (NotFound ''No stock record found'')) (\<lambda>stock.
     let available = st_quantity stock - st_reserved stock in
     bind (require (\<not> available < rs_quantity d) (BadRequest ''Insufficient available stock.'')) (\<lambda>_.
     let newReserved = st_reserved stock + rs_quantity d;
         newAvailable = st_quantity stock - newReserved in
     bind (update_stock (st_id stock)
             (\<lambda>r. r\<lparr>st_reserved := newReserved, st_available := max 0 newAvailable\<rparr>)
             c (st_version stock)) (\<lambda>_.
     bind (ask num_str) (\<lambda>ns.
     bind (create_stock_movement
       \<lparr>md_company = c, md_product = rs_product d, md_warehouse = rs_warehouse d, md_type = RESERVATION,
        md_quantity = rs_quantity d, md_before = st_reserved stock, md_after = newReserved,
        md_refType = Some (or_else (rs_refType d) ''RESERVATION''), md_refId = rs_refId d,
        md_comment = Some (''Reserved '' @ ns (of_int (rs_quantity d)) @ '' units''),
        md_clientOp = None, md_user = user_ref user\<rparr>) (\<lambda>movement.
     bind (reservation_audit c user ''RESERVE'' (st_id stock) (st_reserved stock) newReserved) (\<lambda>_.
     ret (reservation_result movement d (rs_quantity d) newReserved newAvailable))))))))))"

definition release_stock :: "reserve_dto \<Rightarrow> string \<Rightarrow> string \<Rightarrow> json wtx" where
  "release_stock d c user = transaction (
     bind (assert_references (rs_warehouse d) (rs_product d) c) (\<lambda>_.
     bind (find_stock_by_product_and_warehouse (rs_product d) (rs_warehouse d) c) (\<lambda>found.
     bind (require_some found (NotFound ''No stock record found'')) (\<lambda>stock.
     let releaseQty = min (rs_quantity d) (st_reserved stock);
         newReserved = st_reserved stock - releaseQty;
         newAvailable = st_quantity stock - newReserved in
     bind (update_stock (st_id stock)
             (\<lambda>r. r\<lparr>st_reserved := newReserved, st_available := newAvailable\<rparr>)
             c (st_version stock)) (\<lambda>_.
     bind (ask num_str) (\<lambda>ns.
     bind (create_stock_movement
       \<lparr>md_company = c, md_product = rs_product d, md_warehouse = rs_warehouse d, md_type = UNRESERVATION,
        md_quantity = - releaseQty, md_before = st_reserved stock, md_after = newReserved,
        md_refType = Some (or_else (rs_refType d) ''RELEASE''), md_refId = rs_refId d,
        md_comment = Some (''Released '' @ ns (of_int releaseQty) @ '' units''),
        md_clientOp = None, md_user = user_ref user\<rparr>) (\<lambda>movement.
     bind (reservation_audit c user ''RELEASE'' (st_id stock) (st_reserved stock) newReserved) (\<lambda>_.
     ret (reservation_result movement d releaseQty newReserved newAvailable)))))))))"

section \<open>Their effect\<close>

text \<open>Both write one row through the optimistic lock, and touch neither quantities nor layers.\<close>

definition with_reserved :: "string \<Rightarrow> int \<Rightarrow> int \<Rightarrow> stock_row \<Rightarrow> stock_row" where
  "with_reserved i reserved available r = (if st_id r = i
     then r\<lparr>st_reserved := reserved, st_available := available, st_version := st_version r + 1\<rparr> else r)"

lemma with_reserved_simps [simp]:
  "st_id (with_reserved i a b r) = st_id r" "st_product (with_reserved i a b r) = st_product r"
  "st_warehouse (with_reserved i a b r) = st_warehouse r" "st_company (with_reserved i a b r) = st_company r"
  "st_quantity (with_reserved i a b r) = st_quantity r"
  by (simp_all add: with_reserved_def)

lemma update_reserved:
  assumes "stock_wf w" and "s \<in> set (t_stock w)" and "st_company s = c"
  shows "\<exists>x. update_stock (st_id s) (\<lambda>r. r\<lparr>st_reserved := a, st_available := b\<rparr>) c (st_version s) w =
    (Inr x, w\<lparr>t_stock := map (with_reserved (st_id s) a b) (t_stock w)\<rparr>)"
proof -
  have ids: "distinct (map st_id (t_stock w))" using assms(1) by (simp add: stock_wf_def)
  have "update_rows (\<lambda>r. st_id r = st_id s \<and> st_company r = c \<and> st_version r = st_version s)
      (\<lambda>r. (r\<lparr>st_reserved := a, st_available := b\<rparr>)\<lparr>st_version := st_version (r\<lparr>st_reserved := a, st_available := b\<rparr>) + 1\<rparr>)
      (t_stock w) = map (with_reserved (st_id s) a b) (t_stock w)"
    using distinct_map_eq [OF ids _ assms(2)] assms(3)
    by (auto simp: update_rows_def with_reserved_def)
  moreover obtain x w' where run: "update_stock (st_id s) (\<lambda>r. r\<lparr>st_reserved := a, st_available := b\<rparr>) c (st_version s) w = (Inr x, w')"
    using update_stock_hit [OF assms(2,3), of "\<lambda>r. r\<lparr>st_reserved := a, st_available := b\<rparr>"] by auto
  ultimately show ?thesis using update_stock_Inr [OF run] by auto
qed

lemma update_reserved_Inr:
  assumes "stock_wf w" and "s \<in> set (t_stock w)" and "st_company s = c"
    and "update_stock (st_id s) (\<lambda>r. r\<lparr>st_reserved := a, st_available := b\<rparr>) c (st_version s) w = (Inr x, w')"
  shows "w' = w\<lparr>t_stock := map (with_reserved (st_id s) a b) (t_stock w)\<rparr>"
  using update_reserved [OF assms(1-3), where a = a and b = b] assms(4) by auto

lemma assert_references_same: "assert_references wh p c w = (r, w') \<Longrightarrow> w' = w"
proof -
  have "frame id (assert_references wh p c)" unfolding assert_references_def by (intro frame_intros)
  then show "assert_references wh p c w = (r, w') \<Longrightarrow> w' = w" by (auto dest: frameD)
qed

text \<open>A successful reservation or release, with the row it read and the row it wrote.\<close>

lemma reserve_stock_Inr:
  assumes "stock_wf w" and "reserve_stock d c user w = (Inr body, w')"
  shows "\<exists>s m. find_first (stock_at (rs_product d) (rs_warehouse d) c) (t_stock w) = Some s \<and>
    st_reserved s + rs_quantity d \<le> st_quantity s \<and>
    t_stock w' = map (with_reserved (st_id s) (st_reserved s + rs_quantity d)
      (st_quantity s - st_reserved s - rs_quantity d)) (t_stock w) \<and>
    t_movement w' = t_movement w @ [m] \<and> mv_type m = RESERVATION \<and> mv_quantity m = rs_quantity d \<and>
    t_layer w' = t_layer w \<and> uuid_gen w' = uuid_gen w \<and> uuid_next w \<le> uuid_next w' \<and>
    body = reservation_result m d (rs_quantity d) (st_reserved s + rs_quantity d)
      (st_quantity s - st_reserved s - rs_quantity d)"
proof -
  from assms(2) obtain s x w1 m where
    s: "find_first (stock_at (rs_product d) (rs_warehouse d) c) (t_stock w) = Some s" and
    le: "st_reserved s + rs_quantity d \<le> st_quantity s" and
    upd: "update_stock (st_id s) (\<lambda>r. r\<lparr>st_reserved := st_reserved s + rs_quantity d,
        st_available := max 0 (st_quantity s - (st_reserved s + rs_quantity d))\<rparr>) c (st_version s) w = (Inr x, w1)" and
    rest: "t_movement w' = t_movement w1 @ [m]" "mv_type m = RESERVATION" "mv_quantity m = rs_quantity d"
      "t_stock w' = t_stock w1" "t_layer w' = t_layer w1" "uuid_gen w' = uuid_gen w1" "uuid_next w' = Suc (uuid_next w1)"
      "body = reservation_result m d (rs_quantity d) (st_reserved s + rs_quantity d)
        (st_quantity s - (st_reserved s + rs_quantity d))"
    unfolding reserve_stock_def Let_def transaction_Inr_iff bind_Inr_iff require_Inr_iff require_some_Inr_iff
      find_stock_by_product_and_warehouse_def ask_run create_stock_movement_Inr reservation_audit_def
    by (fastforce dest: assert_references_same)
  have mem: "s \<in> set (t_stock w)" "st_company s = c"
    using find_first_SomeD [OF s] by (auto simp: stock_at_def)
  have "w1 = w\<lparr>t_stock := map (with_reserved (st_id s) (st_reserved s + rs_quantity d)
      (max 0 (st_quantity s - (st_reserved s + rs_quantity d)))) (t_stock w)\<rparr>"
    by (rule update_reserved_Inr [OF assms(1) mem upd])
  with rest s le show ?thesis by (auto simp: algebra_simps)
qed

lemma release_stock_Inr:
  fixes d :: reserve_dto and s :: stock_row
  assumes "stock_wf w" and "release_stock d c user w = (Inr body, w')"
  shows "\<exists>s m. find_first (stock_at (rs_product d) (rs_warehouse d) c) (t_stock w) = Some s \<and>
    t_stock w' = map (with_reserved (st_id s) (st_reserved s - min (rs_quantity d) (st_reserved s))
      (st_quantity s - (st_reserved s - min (rs_quantity d) (st_reserved s)))) (t_stock w) \<and>
    t_movement w' = t_movement w @ [m] \<and> mv_type m = UNRESERVATION \<and>
    t_layer w' = t_layer w \<and> uuid_gen w' = uuid_gen w \<and> uuid_next w \<le> uuid_next w'"
proof -
  from assms(2) obtain s x w1 m where
    s: "find_first (stock_at (rs_product d) (rs_warehouse d) c) (t_stock w) = Some s" and
    upd: "update_stock (st_id s) (\<lambda>r. r\<lparr>st_reserved := st_reserved s - min (rs_quantity d) (st_reserved s),
        st_available := st_quantity s - (st_reserved s - min (rs_quantity d) (st_reserved s))\<rparr>) c (st_version s) w = (Inr x, w1)" and
    rest: "t_movement w' = t_movement w1 @ [m]" "mv_type m = UNRESERVATION"
      "t_stock w' = t_stock w1" "t_layer w' = t_layer w1" "uuid_gen w' = uuid_gen w1" "uuid_next w' = Suc (uuid_next w1)"
    unfolding release_stock_def Let_def transaction_Inr_iff bind_Inr_iff require_some_Inr_iff
      find_stock_by_product_and_warehouse_def ask_run create_stock_movement_Inr reservation_audit_def
    by (fastforce dest: assert_references_same)
  have mem: "s \<in> set (t_stock w)" "st_company s = c"
    using find_first_SomeD [OF s] by (auto simp: stock_at_def)
  have "w1 = w\<lparr>t_stock := map (with_reserved (st_id s) (st_reserved s - min (rs_quantity d) (st_reserved s))
      (st_quantity s - (st_reserved s - min (rs_quantity d) (st_reserved s)))) (t_stock w)\<rparr>"
    by (rule update_reserved_Inr [OF assms(1) mem upd])
  with rest s show ?thesis by (intro exI [of _ s] exI [of _ m]) simp
qed

lemma reserved_views:
  assumes "t_stock w' = map (with_reserved i a b) (t_stock w)"
  shows "balance w' p wh c = balance w p wh c" and "stock_total w' p c = stock_total w p c"
    and "stock_nonneg w' = stock_nonneg w"
    and "find_first (stock_at p wh c) (t_stock w') =
      map_option (with_reserved i a b) (find_first (stock_at p wh c) (t_stock w))"
proof -
  have look: "find_first (stock_at p wh c) (map (with_reserved i a b) xs) =
      map_option (with_reserved i a b) (find_first (stock_at p wh c) xs)" for xs
    by (induction xs) (auto simp: stock_at_def)
  then show found: "find_first (stock_at p wh c) (t_stock w') =
      map_option (with_reserved i a b) (find_first (stock_at p wh c) (t_stock w))"
    by (simp add: assms)
  show "balance w' p wh c = balance w p wh c"
    by (simp add: balance_def found split: option.split)
  show "stock_total w' p c = stock_total w p c"
    by (simp add: stock_total_def assms comp_def cong: if_cong)
  show "stock_nonneg w' = stock_nonneg w"
    by (simp add: stock_nonneg_def assms)
qed

lemma reserved_wf:
  assumes "stock_wf w" and "t_stock w' = map (with_reserved i a b) (t_stock w)"
    and "uuid_gen w' = uuid_gen w \<and> uuid_next w \<le> uuid_next w'"
  shows "stock_wf w'"
  using assms uuid_fresh_later [of w _ w'] by (simp add: stock_wf_def comp_def)

definition reserved_at :: "world \<Rightarrow> string \<Rightarrow> string \<Rightarrow> string \<Rightarrow> int" where
  "reserved_at w p wh c =
     (case find_first (stock_at p wh c) (t_stock w) of None \<Rightarrow> 0 | Some r \<Rightarrow> st_reserved r)"

definition available_at :: "world \<Rightarrow> string \<Rightarrow> string \<Rightarrow> string \<Rightarrow> int" where
  "available_at w p wh c =
     (case find_first (stock_at p wh c) (t_stock w) of None \<Rightarrow> 0 | Some r \<Rightarrow> st_available r)"

section \<open>Properties\<close>

text \<open>
  Property C28: reservations never exceed the stock. A reservation of \<open>q\<close> units succeeds only if the
  unreserved part of the row covers it; then the reserved quantity rises by exactly \<open>q\<close> and is at most
  the quantity, the available quantity is the rest, one RESERVATION movement is added, and no
  balance and no layer changes. Otherwise nothing is written.
\<close>

theorem reservation_never_exceeds_stock:
  assumes "stock_wf w" and "reserve_stock d c user w = (r, w')"
  defines "p \<equiv> rs_product d" and "wh \<equiv> rs_warehouse d"
  shows "(case r of
      Inr _ \<Rightarrow> reserved_at w' p wh c = reserved_at w p wh c + rs_quantity d \<and>
        reserved_at w' p wh c \<le> balance w' p wh c \<and>
        available_at w' p wh c = balance w' p wh c - reserved_at w' p wh c \<and>
        (\<forall>p' wh' c'. balance w' p' wh' c' = balance w p' wh' c') \<and> t_layer w' = t_layer w \<and>
        (\<exists>m. t_movement w' = t_movement w @ [m] \<and> mv_type m = RESERVATION \<and> mv_quantity m = rs_quantity d)
    | Inl _ \<Rightarrow> w' = w)"
proof (cases r)
  case (Inl e)
  with assms(2) show ?thesis by (auto simp: reserve_stock_def dest: transaction_rollback)
next
  case (Inr body)
  from reserve_stock_Inr [OF assms(1) assms(2) [unfolded Inr]] obtain s m where
    s: "find_first (stock_at p wh c) (t_stock w) = Some s" and le: "st_reserved s + rs_quantity d \<le> st_quantity s" and
    t: "t_stock w' = map (with_reserved (st_id s) (st_reserved s + rs_quantity d)
      (st_quantity s - st_reserved s - rs_quantity d)) (t_stock w)" and
    m: "t_movement w' = t_movement w @ [m] \<and> mv_type m = RESERVATION \<and> mv_quantity m = rs_quantity d" and
    l: "t_layer w' = t_layer w"
    unfolding p_def wh_def by blast
  note V = reserved_views [OF t]
  have "balance w p wh c = st_quantity s" using s by (simp add: balance_def)
  then show ?thesis
    using V(1) V(4) [of p wh c] s le m l
    by (simp add: Inr reserved_at_def available_at_def with_reserved_def)
qed

text \<open>
  Releasing undoes reserving. When the row is consistent (available is quantity less
  reserved, reserved is not negative) a reservation followed by the release of the same quantity
  brings reserved and available quantity back, and no balance has moved.
\<close>

theorem reserve_release_roundtrip:
  assumes "stock_wf w" and "0 \<le> reserved_at w (rs_product d) (rs_warehouse d) c"
    and "available_at w (rs_product d) (rs_warehouse d) c =
      balance w (rs_product d) (rs_warehouse d) c - reserved_at w (rs_product d) (rs_warehouse d) c"
    and "reserve_stock d c user w = (Inr a, w1)" and "release_stock d c user w1 = (Inr b, w2)"
  shows "reserved_at w2 (rs_product d) (rs_warehouse d) c = reserved_at w (rs_product d) (rs_warehouse d) c \<and>
    available_at w2 (rs_product d) (rs_warehouse d) c = available_at w (rs_product d) (rs_warehouse d) c \<and>
    (\<forall>p wh k. balance w2 p wh k = balance w p wh k)"
proof -
  let ?p = "rs_product d" and ?wh = "rs_warehouse d"
  from reserve_stock_Inr [OF assms(1,4)] obtain s m where
    s: "find_first (stock_at ?p ?wh c) (t_stock w) = Some s" and
    t1: "t_stock w1 = map (with_reserved (st_id s) (st_reserved s + rs_quantity d)
      (st_quantity s - st_reserved s - rs_quantity d)) (t_stock w)" and
    u1: "uuid_gen w1 = uuid_gen w \<and> uuid_next w \<le> uuid_next w1"
    by blast
  have wf1: "stock_wf w1" by (rule reserved_wf [OF assms(1) t1 u1])
  from release_stock_Inr [OF wf1 assms(5)] obtain s1 where
    s1: "find_first (stock_at ?p ?wh c) (t_stock w1) = Some s1" and
    t2: "t_stock w2 = map (with_reserved (st_id s1) (st_reserved s1 - min (rs_quantity d) (st_reserved s1))
      (st_quantity s1 - (st_reserved s1 - min (rs_quantity d) (st_reserved s1)))) (t_stock w1)"
    by blast
  have s1_eq: "s1 = with_reserved (st_id s) (st_reserved s + rs_quantity d)
      (st_quantity s - st_reserved s - rs_quantity d) s"
    using s1 reserved_views(4) [OF t1, of ?p ?wh c] s by simp
  have "0 \<le> st_reserved s" using assms(2) s by (simp add: reserved_at_def)
  then show ?thesis
    using reserved_views(1,4) [OF t1] reserved_views(1,4) [OF t2] s s1 assms(3)
    by (simp add: reserved_at_def available_at_def balance_def s1_eq with_reserved_def)
qed

section \<open>Concrete runs\<close>

definition demo_reserve :: "int \<Rightarrow> reserve_dto" where
  "demo_reserve q = \<lparr>rs_product = ''p'', rs_warehouse = ''A'', rs_quantity = q, rs_refType = None, rs_refId = None\<rparr>"

lemma demo_reserve_succeeds:
  "\<not> isl (fst (reserve_stock (demo_reserve 4) ''c'' ''u'' demo_world))"
  "\<not> isl (fst (release_stock (demo_reserve 4) ''c'' ''u''
      (snd (reserve_stock (demo_reserve 4) ''c'' ''u'' demo_world))))"
  by code_simp+

theorem reservation_never_exceeds_stock_witness:
  "\<exists>b w'. reserve_stock (demo_reserve 4) ''c'' ''u'' demo_world = (Inr b, w') \<and> reserved_at w' ''p'' ''A'' ''c'' = 4"
proof -
  obtain b w' where run: "reserve_stock (demo_reserve 4) ''c'' ''u'' demo_world = (Inr b, w')"
    using run_succeeds [OF demo_reserve_succeeds(1)] by blast
  with reservation_never_exceeds_stock [OF demo_world_ok(1) run] show ?thesis
    by (simp add: demo_reserve_def reserved_at_def demo_world_def demo_stock_row_def stock_at_def)
qed

theorem reserve_release_roundtrip_witness:
  "\<exists>a w1 b w2. reserve_stock (demo_reserve 4) ''c'' ''u'' demo_world = (Inr a, w1) \<and>
     release_stock (demo_reserve 4) ''c'' ''u'' w1 = (Inr b, w2) \<and> reserved_at w2 ''p'' ''A'' ''c'' = 0"
proof -
  obtain a w1 where one: "reserve_stock (demo_reserve 4) ''c'' ''u'' demo_world = (Inr a, w1)"
    using run_succeeds [OF demo_reserve_succeeds(1)] by blast
  moreover obtain b w2 where two: "release_stock (demo_reserve 4) ''c'' ''u'' w1 = (Inr b, w2)"
    using run_succeeds [OF demo_reserve_succeeds(2)] one by auto
  ultimately show ?thesis
    using reserve_release_roundtrip [OF demo_world_ok(1) _ _ one two]
    by (simp add: demo_reserve_def reserved_at_def available_at_def balance_def demo_world_def
        demo_stock_row_def stock_at_def)
qed

end
