(* ===== verification/StockFlow.thy ===== *)
theory StockFlow
  imports Reservation
begin

text \<open>
  The inventory as a state machine: the public operations of the stock and reservation services as
  steps, and what holds in every state they reach. The invariant ties the three tables together:
  every unit of stock is backed by a unit in the active cost layers of its product and company.
\<close>

section \<open>Steps\<close>

text \<open>
  One request, whatever its outcome. A transfer request has passed the validation of its DTO
  (\<^verbatim>\<open>@Min(1) quantity\<close>); so has a reservation, but nothing depends on it here.
\<close>

inductive inventory_step :: "event_bus \<Rightarrow> world \<Rightarrow> world \<Rightarrow> bool" for bus :: event_bus where
  step_adjust: "adjust_stock bus d c user key w = (r, w') \<Longrightarrow> inventory_step bus w w'"
| step_transfer: "1 \<le> tr_quantity t \<Longrightarrow> transfer_stock bus t c user key w = (r, w') \<Longrightarrow> inventory_step bus w w'"
| step_reserve: "reserve_stock s c user w = (r', w') \<Longrightarrow> inventory_step bus w w'"
| step_release: "release_stock s c user w = (r', w') \<Longrightarrow> inventory_step bus w w'"
| step_clock: "inventory_step bus w (w\<lparr>now := t\<rparr>)"

inductive inventory_reachable :: "event_bus \<Rightarrow> world \<Rightarrow> world \<Rightarrow> bool" for bus :: event_bus and w0 :: world where
  reach_start: "inventory_reachable bus w0 w0"
| reach_step: "inventory_reachable bus w0 w \<Longrightarrow> inventory_step bus w w' \<Longrightarrow> inventory_reachable bus w0 w'"

section \<open>The invariant\<close>

definition inventory_inv :: "world \<Rightarrow> bool" where
  "inventory_inv w \<longleftrightarrow> stock_wf w \<and> layers_ok w \<and> stock_nonneg w \<and>
     (\<forall>p c. stock_total w p c = pool_units w p c)"

lemma inventory_inv_frame:
  assumes "inventory_inv w" and "t_stock w' = t_stock w" and "t_layer w' = t_layer w"
    and "uuid_gen w' = uuid_gen w \<and> uuid_next w \<le> uuid_next w'"
  shows "inventory_inv w'"
  using assms stock_wf_frame [OF _ assms(2,4)] layers_ok_frame [OF _ assms(3,4)]
    stock_views_frame [OF assms(2)] pool_frame [OF assms(3)]
  by (simp add: inventory_inv_def)

lemma inventory_inv_env:
  assumes "inventory_inv w"
  shows "inventory_inv (t_idem_update h w)" and "inventory_inv (w\<lparr>uuid_next := Suc (uuid_next w)\<rparr>)"
    and "inventory_inv (w\<lparr>now := t\<rparr>)"
  using assms by (auto intro!: inventory_inv_frame [OF assms])

text \<open>A covered balance is covered by the layers: no consumption of it ever needs the fallback.\<close>

lemma inventory_inv_covers:
  assumes "inventory_inv w"
  shows "balance w p wh c \<le> pool_units w p c"
  using assms balance_le_total [of w p wh c] by (simp add: inventory_inv_def)

lemma adjust_keeps_inv:
  assumes "tame_bus bus"
  shows "keeps_ok inventory_inv (apply_adjust_stock bus d c user)"
proof (rule keeps_okI)
  fix w body w'
  assume inv: "inventory_inv w" and run: "apply_adjust_stock bus d c user w = (Inr body, w')"
  then have ok: "stock_wf w" "layers_ok w" "stock_nonneg w" by (simp_all add: inventory_inv_def)
  note A = adjust_effect [OF assms ok(1,2) run]
  have "- aj_quantity d \<le> pool_units w (aj_product d) c"
    using A(4) inventory_inv_covers [OF inv, of "aj_product d" "aj_warehouse d" c] by simp
  with A(1,2,5,7,9) ok(3) inv show "inventory_inv w'" by (simp add: inventory_inv_def)
qed

lemma transfer_keeps_inv:
  assumes "tame_bus bus" and "tr_from d \<noteq> tr_to d" and "0 \<le> tr_quantity d"
  shows "keeps_ok inventory_inv (apply_transfer_stock bus d c user)"
proof (rule keeps_okI)
  fix w body w'
  assume inv: "inventory_inv w" and run: "apply_transfer_stock bus d c user w = (Inr body, w')"
  then have ok: "stock_wf w" "layers_ok w" "stock_nonneg w" by (simp_all add: inventory_inv_def)
  note T = transfer_effect [OF assms(1) ok(1) assms(2,3) run]
  have "layers_ok w'" using ok(2) T(2,3) by (rule layers_ok_frame)
  with T(1,6,9) ok(3) inv pool_frame [OF T(2)] show "inventory_inv w'"
    by (simp add: inventory_inv_def)
qed

lemma reserved_keeps_inv:
  assumes "inventory_inv w" and "t_stock w' = map (with_reserved i a b) (t_stock w)"
    and "t_layer w' = t_layer w" and "uuid_gen w' = uuid_gen w \<and> uuid_next w \<le> uuid_next w'"
  shows "inventory_inv w'"
  using assms reserved_wf [OF _ assms(2,4)] reserved_views [OF assms(2)] pool_frame [OF assms(3)]
    layers_ok_frame [OF _ assms(3,4)]
  by (simp add: inventory_inv_def)

lemma reservation_keeps_inv:
  assumes "inventory_inv w"
  shows "reserve_stock d c user w = (r, w') \<Longrightarrow> inventory_inv w'"
    and "release_stock d c user w = (r, w') \<Longrightarrow> inventory_inv w'"
proof -
  have wf: "stock_wf w" using assms by (simp add: inventory_inv_def)
  show "inventory_inv w'" if run: "reserve_stock d c user w = (r, w')"
  proof (cases r)
    case (Inl e)
    with run assms show ?thesis by (auto simp: reserve_stock_def dest: transaction_rollback)
  next
    case (Inr b)
    from reserve_stock_Inr [OF wf run [unfolded Inr]] obtain i a b where
      "t_stock w' = map (with_reserved i a b) (t_stock w)" and "t_layer w' = t_layer w" and
      "uuid_gen w' = uuid_gen w \<and> uuid_next w \<le> uuid_next w'"
      by blast
    then show ?thesis by (rule reserved_keeps_inv [OF assms])
  qed
  show "inventory_inv w'" if run: "release_stock d c user w = (r, w')"
  proof (cases r)
    case (Inl e)
    with run assms show ?thesis by (auto simp: release_stock_def dest: transaction_rollback)
  next
    case (Inr b)
    from release_stock_Inr [OF wf run [unfolded Inr]] obtain i a b where
      "t_stock w' = map (with_reserved i a b) (t_stock w)" and "t_layer w' = t_layer w" and
      "uuid_gen w' = uuid_gen w \<and> uuid_next w \<le> uuid_next w'"
      by blast
    then show ?thesis by (rule reserved_keeps_inv [OF assms])
  qed
qed

lemma inventory_step_keeps_inv:
  assumes "tame_bus bus" and "inventory_inv w" and "inventory_step bus w w'"
  shows "inventory_inv w'"
  using assms(3)
proof cases
  case (step_adjust d c user key r)
  have "keeps inventory_inv (adjust_stock bus d c user key)"
    unfolding adjust_stock_def
    by (intro keeps_run_with_idempotency inventory_inv_env adjust_keeps_inv assms(1))
  then show ?thesis using assms(2) step_adjust by (rule keepsD)
next
  case (step_transfer t c user key r)
  show ?thesis
  proof (cases "tr_from t = tr_to t")
    case True
    with step_transfer assms(2) show ?thesis by (simp add: transfer_stock_def)
  next
    case False
    have "keeps inventory_inv (run_with_idempotency c key ''inventory-transfer'' (transfer_request t user) 201
        (apply_transfer_stock bus t c user))"
      using step_transfer(1)
      by (intro keeps_run_with_idempotency inventory_inv_env transfer_keeps_inv assms(1) False) simp_all
    moreover have "run_with_idempotency c key ''inventory-transfer'' (transfer_request t user) 201
        (apply_transfer_stock bus t c user) w = (r, w')"
      using step_transfer(2) False by (simp add: transfer_stock_def)
    ultimately show ?thesis using assms(2) by (blast dest: keepsD)
  qed
qed (use assms(2) in \<open>auto intro: reservation_keeps_inv inventory_inv_env\<close>)

section \<open>Properties\<close>

text \<open>
  Stock is never negative and never unvalued. In every state reached by any sequence of
  adjustments, transfers, reservations and releases --- of any companies, keyed or not, successful or
  not --- from a state in which stock and active cost layers agree, no stock row is negative, for every
  product and company the stock over all warehouses equals the units of the active cost layers, and the
  unique keys of stock and layer rows hold.
\<close>

theorem reachable_stock_is_valued:
  assumes "tame_bus bus" and "inventory_inv w0" and "inventory_reachable bus w0 w"
  shows "stock_nonneg w \<and> (\<forall>p c. stock_total w p c = pool_units w p c) \<and> stock_wf w \<and> layers_ok w"
  using assms(3)
proof induction
  case reach_start
  with assms(2) show ?case by (simp add: inventory_inv_def)
next
  case (reach_step w w')
  then have "inventory_inv w" by (simp add: inventory_inv_def)
  from inventory_step_keeps_inv [OF assms(1) this reach_step(2)] show ?case
    by (simp add: inventory_inv_def)
qed

lemma empty_world_inv: "inventory_inv empty_world"
  using uuid_fresh_empty_world [of 0] empty_world_layers_ok
  by (simp add: inventory_inv_def stock_wf_def stock_nonneg_def stock_total_def pool_units_def layer_units_def
      active_layers_def find_many_def uuid_fresh_def empty_world_def)

theorem reachable_stock_is_valued_witness:
  "stock_nonneg (snd (adjust_stock (\<lambda>_. None) (demo_adjust 5) ''c'' ''u'' None (empty_world\<lparr>now := 3\<rparr>)))"
proof -
  have "inventory_reachable (\<lambda>_. None) empty_world (empty_world\<lparr>now := 3\<rparr>)"
    by (rule reach_step [OF reach_start step_clock])
  then have "inventory_reachable (\<lambda>_. None) empty_world
      (snd (adjust_stock (\<lambda>_. None) (demo_adjust 5) ''c'' ''u'' None (empty_world\<lparr>now := 3\<rparr>)))"
    by (rule reach_step) (rule step_adjust, rule surjective_pairing)
  from reachable_stock_is_valued [OF tame_bus_empty empty_world_inv this] show ?thesis by simp
qed

end
