(* ===== verification/InventoryCount.thy ===== *)
theory InventoryCount
  imports StockFlow
begin

text \<open>
  \<^verbatim>\<open>inventory/services/inventory-count.service.ts\<close>: creating and completing stock counts. Completing
  runs one body per counted item: materialise the row, resolve the cost of a surplus, write the
  counted quantity, move the cost layers, record the movement, publish both events.
\<close>

section \<open>Creating a count\<close>

record count_item_dto =
  id_product :: string
  id_expected :: int
  id_actual :: int
  id_notes :: "string option"

record count_dto =
  cd_warehouse :: string
  cd_number :: string
  cd_notes :: "string option"
  cd_items :: "count_item_dto list"

text \<open>\<^verbatim>\<open>assertReferencesBelongToCompany\<close>, over the set of the products named.\<close>

definition assert_count_references :: "string \<Rightarrow> string list \<Rightarrow> string \<Rightarrow> unit wtx" where
  "assert_count_references wh products c =
     bind (find_warehouse_by_id wh c) (\<lambda>warehouse.
     bind (require_some warehouse (NotFound ''Warehouse not found'')) (\<lambda>h.
     bind (require (wh_active h) (NotFound ''Warehouse is inactive'')) (\<lambda>_.
     let uniqueProductIds = remdups products in
     if uniqueProductIds = [] then ret ()
     else
       bind (find_products_by_ids uniqueProductIds c) (\<lambda>found.
       bind (require (length found = length uniqueProductIds) (NotFound ''Product with id not found'')) (\<lambda>_.
       require (\<forall>p \<in> set found. pr_active p) (NotFound ''Product with id not found''))))))"

definition create_count :: "count_dto \<Rightarrow> string \<Rightarrow> string \<Rightarrow> count_row wtx" where
  "create_count d c user = transaction (
     bind (assert_count_references (cd_warehouse d) (map id_product (cd_items d)) c) (\<lambda>_.
     bind (create_inventory_count c (cd_warehouse d) (cd_number d) (cd_notes d) user) (\<lambda>cnt.
     bind (for_each (cd_items d) (\<lambda>i. create_inventory_count_item (ic_id cnt) (id_product i)
             (id_expected i) (id_actual i) (id_actual i - id_expected i) (id_notes i))) (\<lambda>_.
     bind (audit_log \<lparr>au_company = Some c, au_user = user, au_entity = ''InventoryCount'',
        au_entityId = ic_id cnt, au_action = ''CREATE'', au_before = None,
        au_after = Some (JObj [(''countNumber'', JStr (cd_number d)),
                               (''itemsCount'', jint (int (length (cd_items d))))])\<rparr>) (\<lambda>_.
     bind (find_inventory_count_by_id (ic_id cnt) c) (\<lambda>fullCount.
     require_some fullCount (NotFound ''Inventory count not found after creation'')))))))"

definition find_count :: "string \<Rightarrow> string \<Rightarrow> count_row wtx" where
  "find_count i c =
     bind (find_inventory_count_by_id i c) (\<lambda>cnt.
     require_some cnt (NotFound ''Inventory count not found''))"

section \<open>Completing a count\<close>

definition count_unit_cost :: "string \<Rightarrow> count_item_row \<Rightarrow> cost_basis wtx" where
  "count_unit_cost c item =
     (if ci_difference item > 0 then
        bind (resolve_positive_entry_unit_cost (ci_product item) c) (\<lambda>resolved.
        bind (require (resolved \<noteq> NoBasis) (BadRequest ''Cannot complete count: no cost basis for product.''))
          (\<lambda>_. ret resolved))
      else ret NoBasis)"

text \<open>The cost-layer leg: the consumption result of a shrinkage, nothing for a surplus.\<close>

definition count_layers :: "string \<Rightarrow> string \<Rightarrow> count_item_row \<Rightarrow> cost_basis \<Rightarrow> fifo_result option wtx" where
  "count_layers c count_id item resolved =
     (if ci_difference item > 0 then
        (case basis_cost resolved of
           Some u \<Rightarrow> bind (record_inbound_layer (ci_product item) c (ci_difference item) u
                        ''INVENTORY_COUNT'' count_id None) (\<lambda>_. ret None)
         | None \<Rightarrow> ret None)
      else
        bind (consume_fifo_layers (ci_product item) c \<bar>ci_difference item\<bar> ''INVENTORY_COUNT'' count_id)
          (\<lambda>fifo. ret (Some fifo)))"

definition basis_name :: "cost_basis \<Rightarrow> string option" where
  "basis_name b = (case b of Average _ \<Rightarrow> Some ''AVERAGE'' | CostPrice _ \<Rightarrow> Some ''COST_PRICE'' | NoBasis \<Rightarrow> None)"

definition count_adjusted_payload ::
  "(decimal \<Rightarrow> decimal \<Rightarrow> decimal) \<Rightarrow> count_row \<Rightarrow> string \<Rightarrow> string \<Rightarrow> count_item_row \<Rightarrow> cost_basis \<Rightarrow>
     fifo_result option \<Rightarrow> adjusted_payload" where
  "count_adjusted_payload quot cnt c user item resolved fifo =
     \<lparr>ap_product = ci_product item, ap_company = c, ap_warehouse = ic_warehouse cnt,
      ap_quantity = ci_difference item, ap_before = ci_expected item, ap_after = ci_actual item,
      ap_reason = ''count '' @ ic_number cnt, ap_by = user,
      ap_refType = Some ''INVENTORY_COUNT'', ap_refId = Some (ic_id cnt),
      ap_comment = Some (''Count adjustment for '' @ ic_number cnt),
      ap_unitCost = (case fifo of None \<Rightarrow> basis_cost resolved
        | Some f \<Rightarrow> Some (quot (fr_totalCost f) (of_int \<bar>ci_difference item\<bar>))),
      ap_totalCost = (case fifo of None \<Rightarrow> None | Some f \<Rightarrow> Some (fr_totalCost f)),
      ap_costBasis = (case fifo of None \<Rightarrow> basis_name resolved | Some f \<Rightarrow> Some ''FIFO'')\<rparr>"

definition complete_item ::
  "event_bus \<Rightarrow> count_row \<Rightarrow> string \<Rightarrow> string \<Rightarrow> count_item_row \<Rightarrow> unit wtx" where
  "complete_item bus cnt c user item =
     (if ci_difference item = 0 then ret ()
      else
        bind (stock_or_zero (ci_product item) (ic_warehouse cnt) c) (\<lambda>stock.
        bind (count_unit_cost c item) (\<lambda>resolved.
        let afterQty = ci_actual item in
        bind (update_stock (st_id stock)
                (\<lambda>r. r\<lparr>st_quantity := afterQty, st_available := max 0 (afterQty - st_reserved stock)\<rparr>)
                c (st_version stock)) (\<lambda>_.
        bind (count_layers c (ic_id cnt) item resolved) (\<lambda>fifo.
        bind (create_stock_movement
          \<lparr>md_company = c, md_product = ci_product item, md_warehouse = ic_warehouse cnt,
           md_type = COUNT_ADJUSTMENT, md_quantity = ci_difference item, md_before = ci_expected item,
           md_after = ci_actual item, md_refType = Some ''INVENTORY_COUNT'', md_refId = Some (ic_id cnt),
           md_comment = Some (''Count adjustment for '' @ ic_number cnt), md_clientOp = None,
           md_user = user_ref user\<rparr>) (\<lambda>_.
        bind (ask dec_div) (\<lambda>quotient.
        bind fresh_uuid (\<lambda>eventId.
        bind (publish_event bus (InventoryAdjusted eventId
               (count_adjusted_payload quotient cnt c user item resolved fifo))) (\<lambda>_.
        bind fresh_uuid (\<lambda>eventId'.
        publish_event bus (InventoryCounted eventId'
          \<lparr>cp_product = ci_product item, cp_company = c, cp_warehouse = ic_warehouse cnt,
           cp_expected = ci_expected item, cp_actual = ci_actual item,
           cp_difference = ci_difference item, cp_number = ic_number cnt, cp_by = user\<rparr>)))))))))))"

definition complete_count ::
  "event_bus \<Rightarrow> string \<Rightarrow> int \<Rightarrow> string \<Rightarrow> string \<Rightarrow> count_row wtx" where
  "complete_count bus i rowVersion c user = transaction (
     bind (find_count i c) (\<lambda>cnt.
     bind (require (ic_status cnt = CountDraft) (BadRequest ''Only DRAFT counts can be completed'')) (\<lambda>_.
     bind (assert_count_references (ic_warehouse cnt) (map ci_product (ic_items cnt)) c) (\<lambda>_.
     bind (update_inventory_count i (\<lambda>r. r\<lparr>ic_status := CountCompleted, ic_approvedBy := Some user\<rparr>)
             c rowVersion) (\<lambda>_.
     bind (for_each (ic_items cnt) (complete_item bus cnt c user)) (\<lambda>_.
     bind (audit_log \<lparr>au_company = Some c, au_user = user, au_entity = ''InventoryCount'',
        au_entityId = i, au_action = ''COMPLETE'',
        au_before = Some (JObj [(''status'', JStr ''DRAFT'')]),
        au_after = Some (JObj [(''status'', JStr ''COMPLETED'')])\<rparr>) (\<lambda>_.
     bind (find_inventory_count_by_id i c) (\<lambda>updated.
     require_some updated (NotFound ''Inventory count not found after update'')))))))))"

section \<open>One counted item\<close>

lemma count_layers_effect:
  assumes "layers_ok w" and "count_layers c i item b w = (Inr f, w')" and "ci_difference item > 0 \<longrightarrow> b \<noteq> NoBasis"
  shows "layers_ok w'"
    and "- ci_difference item \<le> pool_units w (ci_product item) c \<Longrightarrow>
      pool_units w' p c' = pool_units w p c' + (if (p, c') = (ci_product item, c) then ci_difference item else 0)"
proof -
  consider (pos) u where "0 < ci_difference item"
      "record_inbound_layer (ci_product item) c (ci_difference item) u ''INVENTORY_COUNT'' i None w = (Inr (), w')"
    | (neg) r where "\<not> 0 < ci_difference item"
      "consume_fifo_layers (ci_product item) c \<bar>ci_difference item\<bar> ''INVENTORY_COUNT'' i w = (Inr r, w')"
    using assms(2,3)
    by (cases b) (auto simp: count_layers_def bind_Inr_iff basis_cost_def split: if_splits)
  note ways = this
  show "layers_ok w'"
    using ways
  proof cases
    case pos
    then show ?thesis using record_inbound_layer_Inr(1) [OF assms(1)] by blast
  next
    case neg
    show ?thesis by (rule consume_fifo_layers_Inr(1) [OF assms(1) _ neg(2)]) simp
  qed
  assume cover: "- ci_difference item \<le> pool_units w (ci_product item) c"
  show "pool_units w' p c' = pool_units w p c' + (if (p, c') = (ci_product item, c) then ci_difference item else 0)"
    using ways
  proof cases
    case pos
    with cost_pool.inbound_ok [OF assms(1) pos] show ?thesis by simp
  next
    case neg
    with cover cost_pool.outbound_ok [OF assms(1) _ _ neg(2)] show ?thesis by simp
  qed
qed

lemma complete_item_steps:
  assumes "complete_item bus cnt c user item w = (Inr (), w')" and "ci_difference item \<noteq> 0"
  shows "\<exists>s w1 b x w2 f w3 md m w4 ev w5 ev'.
    stock_or_zero (ci_product item) (ic_warehouse cnt) c w = (Inr s, w1) \<and>
    (ci_difference item > 0 \<longrightarrow> b \<noteq> NoBasis) \<and>
    update_stock (st_id s) (\<lambda>r. r\<lparr>st_quantity := ci_actual item,
       st_available := max 0 (ci_actual item - st_reserved s)\<rparr>) c (st_version s) w1 = (Inr x, w2) \<and>
    count_layers c (ic_id cnt) item b w2 = (Inr f, w3) \<and>
    create_stock_movement md w3 = (Inr m, w4) \<and>
    publish_event bus ev (w4\<lparr>uuid_next := Suc (uuid_next w4)\<rparr>) = (Inr (), w5) \<and>
    publish_event bus ev' (w5\<lparr>uuid_next := Suc (uuid_next w5)\<rparr>) = (Inr (), w')"
proof -
  have cost: "w0 = v" "ci_difference item > 0 \<longrightarrow> b \<noteq> NoBasis"
    if "count_unit_cost c item v = (Inr b, w0)" for b v w0
  proof -
    have "frame id (count_unit_cost c item)" unfolding count_unit_cost_def by (intro frame_intros)
    with that show "w0 = v" by (auto dest: frameD)
    from that show "ci_difference item > 0 \<longrightarrow> b \<noteq> NoBasis"
      by (auto simp: count_unit_cost_def bind_Inr_iff split: if_splits)
  qed
  obtain s w1 b v x w2 f w3 md m w4 ev w5 ev' where
    1: "stock_or_zero (ci_product item) (ic_warehouse cnt) c w = (Inr s, w1)" and
    2: "count_unit_cost c item w1 = (Inr b, v)" and
    3: "update_stock (st_id s) (\<lambda>r. r\<lparr>st_quantity := ci_actual item,
       st_available := max 0 (ci_actual item - st_reserved s)\<rparr>) c (st_version s) v = (Inr x, w2)" and
    4: "count_layers c (ic_id cnt) item b w2 = (Inr f, w3)" and
    5: "create_stock_movement md w3 = (Inr m, w4)" and
    6: "publish_event bus ev (w4\<lparr>uuid_next := Suc (uuid_next w4)\<rparr>) = (Inr (), w5)" and
    7: "publish_event bus ev' (w5\<lparr>uuid_next := Suc (uuid_next w5)\<rparr>) = (Inr (), w')"
    using assms unfolding complete_item_def if_not_P [OF assms(2)] Let_def bind_Inr_iff
    by clarsimp
  have "v = w1" by (rule cost(1) [OF 2])
  then show ?thesis using 1 3 4 5 6 7 cost(2) [OF 2] by blast
qed

lemma complete_item_effect:
  assumes bus: "tame_bus bus" and wf: "stock_wf w" and lay: "layers_ok w"
    and run: "complete_item bus cnt c user item w = (Inr (), w')" and diff: "ci_difference item \<noteq> 0"
  defines "p \<equiv> ci_product item" and "wh \<equiv> ic_warehouse cnt"
  shows "stock_wf w'" and "layers_ok w'"
    and "balance w' p' wh' c' = (if (p', wh', c') = (p, wh, c) then ci_actual item else balance w p' wh' c')"
    and "stock_total w' p' c' =
      stock_total w p' c' + (if (p', c') = (p, c) then ci_actual item - balance w p wh c else 0)"
    and "- ci_difference item \<le> pool_units w p c \<Longrightarrow> pool_units w' p' c' =
      pool_units w p' c' + (if (p', c') = (p, c) then ci_difference item else 0)"
    and "stock_nonneg w \<Longrightarrow> 0 \<le> ci_actual item \<Longrightarrow> stock_nonneg w'"
proof -
  from complete_item_steps [OF run diff] obtain s w1 b x w2 f w3 md m w4 ev w5 ev' where
    s: "stock_or_zero p wh c w = (Inr s, w1)" and
    b: "ci_difference item > 0 \<longrightarrow> b \<noteq> NoBasis" and
    upd: "update_stock (st_id s) (\<lambda>r. r\<lparr>st_quantity := ci_actual item,
       st_available := max 0 (ci_actual item - st_reserved s)\<rparr>) c (st_version s) w1 = (Inr x, w2)" and
    lays: "count_layers c (ic_id cnt) item b w2 = (Inr f, w3)" and
    mov: "create_stock_movement md w3 = (Inr m, w4)" and
    pub: "publish_event bus ev (w4\<lparr>uuid_next := Suc (uuid_next w4)\<rparr>) = (Inr (), w5)" and
    pub': "publish_event bus ev' (w5\<lparr>uuid_next := Suc (uuid_next w5)\<rparr>) = (Inr (), w')"
    unfolding p_def wh_def by blast
  note S = stock_or_zero_Inr [OF wf s]
  note U = write_balance [OF S(1) S(2) S(3) upd]
  have fr1: "t_layer w2 = t_layer w" "uuid_gen w2 = uuid_gen w \<and> uuid_next w \<le> uuid_next w2"
  proof -
    have "frame t_layer (stock_or_zero p wh c)" "advances (stock_or_zero p wh c)"
      unfolding stock_or_zero_def by (intro frame_intros; simp)+
    with s have "t_layer w1 = t_layer w" "uuid_gen w1 = uuid_gen w \<and> uuid_next w \<le> uuid_next w1"
      by (auto dest: frameD advancesD)
    then show "t_layer w2 = t_layer w" "uuid_gen w2 = uuid_gen w \<and> uuid_next w \<le> uuid_next w2"
      using update_stock_Inr [OF upd] by auto
  qed
  have fr3: "t_stock w3 = t_stock w2" "uuid_gen w3 = uuid_gen w2 \<and> uuid_next w2 \<le> uuid_next w3"
  proof -
    have "frame t_stock (count_layers c (ic_id cnt) item b)" "advances (count_layers c (ic_id cnt) item b)"
      unfolding count_layers_def by (intro frame_intros; simp)+
    with lays show "t_stock w3 = t_stock w2" "uuid_gen w3 = uuid_gen w2 \<and> uuid_next w2 \<le> uuid_next w3"
      by (auto dest: frameD advancesD)
  qed
  note B = tame_busD [OF bus pub] and B' = tame_busD [OF bus pub']
  have tail: "t_stock w' = t_stock w3" "t_layer w' = t_layer w3" "uuid_gen w' = uuid_gen w3 \<and> uuid_next w3 \<le> uuid_next w'"
    using B B' mov by (auto simp: create_stock_movement_Inr)
  have stock: "t_stock w' = t_stock w2" using tail(1) fr3(1) by simp
  have late: "uuid_gen w' = uuid_gen w2 \<and> uuid_next w2 \<le> uuid_next w'"
    using tail(3) fr3(2) by auto
  show "stock_wf w'" using U(1) stock late by (rule stock_wf_frame)
  have lay2: "layers_ok w2" using lay fr1 by (rule layers_ok_frame)
  note L = count_layers_effect [OF lay2 lays b]
  show "layers_ok w'" using L(1) tail(2,3) by (rule layers_ok_frame)
  show "balance w' p' wh' c' = (if (p', wh', c') = (p, wh, c) then ci_actual item else balance w p' wh' c')"
    using U(2) [of p' wh' c'] S(5) [of p' wh' c'] by (simp add: stock_views_frame(1) [OF stock])
  show "stock_total w' p' c' =
      stock_total w p' c' + (if (p', c') = (p, c) then ci_actual item - balance w p wh c else 0)"
    using U(3) [of p' c'] S(4) S(6) [of p' c'] by (simp add: stock_views_frame(2) [OF stock])
  show "pool_units w' p' c' = pool_units w p' c' + (if (p', c') = (p, c) then ci_difference item else 0)"
    if "- ci_difference item \<le> pool_units w p c"
    using that L(2) [of p' c'] pool_frame [OF fr1(1)] pool_frame [OF tail(2), of p' c'] by (simp add: p_def)
  show "stock_nonneg w'" if "stock_nonneg w" "0 \<le> ci_actual item"
  proof -
    have "stock_nonneg w1"
      using that(1) s by (auto simp: stock_or_zero_def find_stock_by_product_and_warehouse_def bind_Inr_iff
          create_stock_Inr stock_nonneg_def split: option.splits)
    then have "stock_nonneg w2" using U(4) that(2) by simp
    then show ?thesis by (simp add: stock_views_frame(3) [OF stock])
  qed
qed

section \<open>The whole count\<close>

text \<open>What a count row stores of its items: a product at most once, the difference as computed.\<close>

definition count_items_ok :: "count_item_row list \<Rightarrow> bool" where
  "count_items_ok items \<longleftrightarrow> distinct (map ci_product items) \<and>
     (\<forall>i \<in> set items. ci_difference i = ci_actual i - ci_expected i \<and> 0 \<le> ci_actual i)"

lemma complete_items_balance:
  assumes "tame_bus bus" and "stock_wf w" and "layers_ok w" and "distinct (map ci_product items)"
    and "for_each items (complete_item bus cnt c user) w = (Inr (), w')"
  shows "stock_wf w' \<and> layers_ok w' \<and> (\<forall>p' wh' c'. balance w' p' wh' c' =
    (case find_first (\<lambda>i. ci_product i = p' \<and> ci_difference i \<noteq> 0) items of
       None \<Rightarrow> balance w p' wh' c'
     | Some i \<Rightarrow> if wh' = ic_warehouse cnt \<and> c' = c then ci_actual i else balance w p' wh' c'))"
  using assms(2-5)
proof (induction items arbitrary: w)
  case Nil
  then show ?case by simp
next
  case (Cons i items)
  from Cons.prems(4) obtain w1 where one: "complete_item bus cnt c user i w = (Inr (), w1)"
    and rest: "for_each items (complete_item bus cnt c user) w1 = (Inr (), w')"
    by (auto simp: bind_Inr_iff)
  have new: "find_first (\<lambda>j. ci_product j = ci_product i \<and> ci_difference j \<noteq> 0) items = None"
    using Cons.prems(3) by (auto simp: find_first_None_iff) (metis image_eqI)
  show ?case
  proof (cases "ci_difference i = 0")
    case True
    then have "w1 = w" using one by (simp add: complete_item_def)
    with rest have rest': "for_each items (complete_item bus cnt c user) w = (Inr (), w')" by simp
    have "distinct (map ci_product items)" using Cons.prems(3) by simp
    from Cons.IH [OF Cons.prems(1,2) this rest'] True show ?thesis by simp
  next
    case False
    note E = complete_item_effect [OF assms(1) Cons.prems(1,2) one False]
    have "distinct (map ci_product items)" using Cons.prems(3) by simp
    from Cons.IH [OF E(1,2) this rest] show ?thesis
      using new False by (auto simp: E(3) split: option.splits)
  qed
qed

lemma complete_items_inv:
  assumes "tame_bus bus" and "inventory_inv w" and "count_items_ok items"
    and "\<forall>i \<in> set items. ci_difference i \<noteq> 0 \<longrightarrow> balance w (ci_product i) (ic_warehouse cnt) c = ci_expected i"
    and "for_each items (complete_item bus cnt c user) w = (Inr (), w')"
  shows "inventory_inv w'"
  using assms(2-5)
proof (induction items arbitrary: w)
  case Nil
  then show ?case by simp
next
  case (Cons i items)
  from Cons.prems(4) obtain w1 where one: "complete_item bus cnt c user i w = (Inr (), w1)"
    and rest: "for_each items (complete_item bus cnt c user) w1 = (Inr (), w')"
    by (auto simp: bind_Inr_iff)
  have ok: "count_items_ok items" using Cons.prems(2) by (simp add: count_items_ok_def)
  show ?case
  proof (cases "ci_difference i = 0")
    case True
    then have "w1 = w" using one by (simp add: complete_item_def)
    with Cons.IH [of w1] Cons.prems rest ok show ?thesis by simp
  next
    case False
    have wf: "stock_wf w" "layers_ok w" "stock_nonneg w" using Cons.prems(1) by (simp_all add: inventory_inv_def)
    note E = complete_item_effect [OF assms(1) wf(1,2) one False]
    have cur: "balance w (ci_product i) (ic_warehouse cnt) c = ci_expected i" using Cons.prems(3) False by simp
    have i: "ci_difference i = ci_actual i - ci_expected i" "0 \<le> ci_actual i"
      using Cons.prems(2) by (simp_all add: count_items_ok_def)
    have "- ci_difference i \<le> pool_units w (ci_product i) c"
      using inventory_inv_covers [OF Cons.prems(1), of "ci_product i" "ic_warehouse cnt" c] cur i by simp
    then have inv: "inventory_inv w1"
      using E(1,2,4,5,6) wf(3) i cur Cons.prems(1) by (simp add: inventory_inv_def)
    have "balance w1 (ci_product j) (ic_warehouse cnt) c = ci_expected j"
      if "j \<in> set items" "ci_difference j \<noteq> 0" for j
    proof -
      have "ci_product j \<noteq> ci_product i"
        using Cons.prems(2) that(1) by (auto simp: count_items_ok_def) (metis image_eqI)
      then show ?thesis using Cons.prems(3) that by (simp add: E(3))
    qed
    then show ?thesis using Cons.IH [OF inv ok _ rest] by blast
  qed
qed

definition count_row_at :: "world \<Rightarrow> string \<Rightarrow> string \<Rightarrow> count_row option" where
  "count_row_at w i c = find_first (\<lambda>r. ic_id r = i \<and> ic_company r = c \<and> ic_deleted r = None) (t_count w)"

lemma complete_count_steps:
  assumes "complete_count bus i v c user w = (Inr row, w')"
  shows "\<exists>cnt x w1 w2 t. count_row_at w i c = Some cnt \<and> ic_status cnt = CountDraft \<and>
    update_inventory_count i (\<lambda>r. r\<lparr>ic_status := CountCompleted, ic_approvedBy := Some user\<rparr>) c v w = (Inr x, w1) \<and>
    for_each (ic_items cnt) (complete_item bus cnt c user) w1 = (Inr (), w2) \<and>
    w' = w2\<lparr>t_audit := t\<rparr> \<and> count_row_at w' i c = Some row"
proof -
  have refs: "w0 = u" if "assert_count_references wh ps c u = (r, w0)" for wh ps u r w0
  proof -
    have "frame id (assert_count_references wh ps c)"
      unfolding assert_count_references_def Let_def by (intro frame_intros)
    with that show ?thesis by (auto dest: frameD)
  qed
  from assms obtain cnt w0 x w1 w2 t where
    "count_row_at w i c = Some cnt" "ic_status cnt = CountDraft" and
    r: "assert_count_references (ic_warehouse cnt) (map ci_product (ic_items cnt)) c w = (Inr (), w0)" and
    "update_inventory_count i (\<lambda>r. r\<lparr>ic_status := CountCompleted, ic_approvedBy := Some user\<rparr>) c v w0 = (Inr x, w1)"
    "for_each (ic_items cnt) (complete_item bus cnt c user) w1 = (Inr (), w2)"
    "w' = w2\<lparr>t_audit := t\<rparr>" "count_row_at w' i c = Some row"
    unfolding complete_count_def find_count_def find_inventory_count_by_id_def count_row_at_def
      transaction_Inr_iff bind_Inr_iff require_Inr_iff require_some_Inr_iff
    by clarsimp
  moreover have "w0 = w" by (rule refs [OF r])
  ultimately show ?thesis by blast
qed

lemma update_inventory_count_Inr:
  assumes "update_inventory_count i f c v w = (Inr x, w')"
  shows "w' = w\<lparr>t_count := update_rows (\<lambda>r. ic_id r = i \<and> ic_company r = c \<and> ic_version r = v)
      (\<lambda>r. (f r)\<lparr>ic_version := ic_version (f r) + 1\<rparr>) (t_count w)\<rparr> \<and>
    (\<exists>r \<in> set (t_count w). ic_id r = i \<and> ic_company r = c \<and> ic_version r = v)"
  using cas_write_Inr [OF assms [unfolded update_inventory_count_def]] by (auto simp: bump_ver_def [abs_def])

lemma frame_complete_items:
  assumes "bus_frame g bus" and "\<And>h w. g (t_stock_update h w) = g w" and "\<And>h w. g (t_movement_update h w) = g w"
    and "\<And>h w. g (t_layer_update h w) = g w" and "\<And>h w. g (uuid_next_update h w) = g w"
  shows "frame g (for_each items (complete_item bus cnt c user))"
  unfolding complete_item_def count_unit_cost_def count_layers_def Let_def by (intro frame_intros assms)

lemma count_write_frame:
  assumes "update_inventory_count i f c v w = (Inr x, w')"
  shows "t_stock w' = t_stock w" and "t_layer w' = t_layer w" and "uuid_gen w' = uuid_gen w \<and> uuid_next w \<le> uuid_next w'"
  using update_inventory_count_Inr [OF assms] by simp_all

section \<open>Properties\<close>


text \<open>
  A count is completed once. The count returned by a completion is COMPLETED with the
  caller as approver, and completing it again, with any row version, is refused with the 400 and
  changes nothing.
\<close>

theorem count_completes_once:
  assumes "bus_frame t_count bus" and "distinct (map ic_id (t_count w))"
    and "complete_count bus i v c user w = (Inr row, w')"
  shows "ic_status row = CountCompleted \<and> ic_approvedBy row = Some user \<and>
    complete_count bus' i v' c user' w' = (Inl (BadRequest ''Only DRAFT counts can be completed''), w')"
proof -
  from complete_count_steps [OF assms(3)] obtain cnt x w1 w2 t where
    cnt: "count_row_at w i c = Some cnt" "ic_status cnt = CountDraft" and
    upd: "update_inventory_count i (\<lambda>r. r\<lparr>ic_status := CountCompleted, ic_approvedBy := Some user\<rparr>) c v w = (Inr x, w1)" and
    loop: "for_each (ic_items cnt) (complete_item bus cnt c user) w1 = (Inr (), w2)" and
    w': "w' = w2\<lparr>t_audit := t\<rparr>" and row: "count_row_at w' i c = Some row" by blast
  let ?hit = "\<lambda>r. ic_id r = i \<and> ic_company r = c \<and> ic_version r = v"
  let ?f = "\<lambda>r. (r\<lparr>ic_status := CountCompleted, ic_approvedBy := Some user\<rparr>)\<lparr>ic_version := ic_version r + 1\<rparr>"
  have "frame t_count (for_each (ic_items cnt) (complete_item bus cnt c user))"
    by (rule frame_complete_items [OF assms(1)]) simp_all
  from frameD [OF this loop] have "t_count w' = t_count w1" by (simp add: w')
  moreover have "t_count w1 = update_rows ?hit ?f (t_count w)"
    using update_inventory_count_Inr [OF upd] by simp
  ultimately have tab: "t_count w' = update_rows ?hit ?f (t_count w)" by simp
  have hit: "\<exists>r \<in> set (t_count w). ?hit r" by (rule update_inventory_count_Inr [OF upd, THEN conjunct2])
  have mem: "cnt \<in> set (t_count w)" "ic_id cnt = i" "ic_company cnt = c"
    using find_first_SomeD [OF cnt(1) [unfolded count_row_at_def]] by auto
  obtain r where r: "r \<in> set (t_count w)" "?hit r" using hit by blast
  then have "r = cnt" using mem by (intro distinct_map_eq [OF assms(2)]) simp_all
  with r have "?hit cnt" by simp
  then have "row = ?f cnt"
    using row cnt(1) by (simp add: count_row_at_def tab find_first_update_rows)
  moreover have "complete_count bus' i v' c user' w' = (Inl (BadRequest ''Only DRAFT counts can be completed''), w')"
    if "ic_status row = CountCompleted"
    using row that
    by (simp add: complete_count_def find_count_def find_inventory_count_by_id_def count_row_at_def transaction_def)
  ultimately show ?thesis by simp
qed

text \<open>
  A current count keeps stock and layers in step. When stock and active layers agree and
  every counted item was counted against the quantity the stock still has, completing the count ---
  surpluses and shrinkages alike --- leaves them in agreement, with no negative stock. (Without the
  premise they drift apart: \<open>stale_count_unbalances_valuation\<close>.)
\<close>

theorem current_count_keeps_valuation:
  assumes "tame_bus bus" and "inventory_inv w"
    and "count_row_at w i c = Some cnt" and "count_items_ok (ic_items cnt)"
    and "\<forall>item \<in> set (ic_items cnt). balance w (ci_product item) (ic_warehouse cnt) c = ci_expected item"
    and "complete_count bus i v c user w = (Inr row, w')"
  shows "stock_nonneg w' \<and> (\<forall>p k. stock_total w' p k = pool_units w' p k)"
proof -
  from complete_count_steps [OF assms(6)] assms(3) obtain x w1 w2 t where
    upd: "update_inventory_count i (\<lambda>r. r\<lparr>ic_status := CountCompleted, ic_approvedBy := Some user\<rparr>) c v w = (Inr x, w1)" and
    loop: "for_each (ic_items cnt) (complete_item bus cnt c user) w1 = (Inr (), w2)" and
    w': "w' = w2\<lparr>t_audit := t\<rparr>" by auto
  note F = count_write_frame [OF upd]
  have inv: "inventory_inv w1" by (rule inventory_inv_frame [OF assms(2) F])
  have "inventory_inv w2"
    by (rule complete_items_inv [OF assms(1) inv assms(4) _ loop])
       (use assms(5) in \<open>simp add: stock_views_frame(1) [OF F(1)]\<close>)
  then have "inventory_inv w'" by (rule inventory_inv_frame) (simp_all add: w')
  then show ?thesis by (simp add: inventory_inv_def)
qed

section \<open>Concrete runs\<close>

text \<open>The demo world with a draft count of its product: ten expected, eight found.\<close>

definition demo_count :: count_row where
  "demo_count = \<lparr>ic_id = ''C1'', ic_company = ''c'', ic_warehouse = ''A'', ic_number = ''CNT-1'',
     ic_status = CountDraft, ic_countedBy = Some ''u'', ic_approvedBy = None, ic_notes = None,
     ic_version = 0, ic_deleted = None,
     ic_items = [\<lparr>ci_id = ''I1'', ci_product = ''p'', ci_expected = 10, ci_actual = 8,
                  ci_difference = - 2, ci_notes = None, ci_version = 0\<rparr>]\<rparr>"

definition demo_count_world :: world where
  "demo_count_world = demo_world\<lparr>t_count := [demo_count]\<rparr>"

lemma demo_count_world_facts:
  "stock_wf demo_count_world" "layers_ok demo_count_world" "inventory_inv demo_count_world"
  "count_row_at demo_count_world ''C1'' ''c'' = Some demo_count"
  "balance demo_count_world p wh c = balance demo_world p wh c"
proof -
  have same: "t_stock demo_count_world = t_stock demo_world" "t_layer demo_count_world = t_layer demo_world"
    "uuid_gen demo_count_world = uuid_gen demo_world \<and> uuid_next demo_world \<le> uuid_next demo_count_world"
    by (simp_all add: demo_count_world_def)
  have "inventory_inv demo_world"
    using demo_world_ok
    by (auto simp: inventory_inv_def stock_total_def pool_units_def layer_units_def active_layers_def
        find_many_def active_layer_def demo_world_def demo_stock_row_def demo_layer_def)
  then show "inventory_inv demo_count_world" by (rule inventory_inv_frame [OF _ same])
  then show "stock_wf demo_count_world" "layers_ok demo_count_world" by (simp_all add: inventory_inv_def)
  show "count_row_at demo_count_world ''C1'' ''c'' = Some demo_count"
    by (simp add: count_row_at_def demo_count_world_def demo_count_def)
  show "balance demo_count_world p wh c = balance demo_world p wh c"
    by (rule stock_views_frame(1) [OF same(1)])
qed

lemma demo_count_completes:
  "\<not> isl (fst (complete_count (\<lambda>_. None) ''C1'' 0 ''c'' ''u'' demo_count_world))"
  by code_simp


theorem count_completes_once_witness:
  "\<exists>row w'. complete_count (\<lambda>_. None) ''C1'' 0 ''c'' ''u'' demo_count_world = (Inr row, w') \<and>
     complete_count (\<lambda>_. None) ''C1'' 1 ''c'' ''u'' w' = (Inl (BadRequest ''Only DRAFT counts can be completed''), w')"
proof -
  obtain row w' where run: "complete_count (\<lambda>_. None) ''C1'' 0 ''c'' ''u'' demo_count_world = (Inr row, w')"
    using run_succeeds [OF demo_count_completes] by blast
  have "distinct (map ic_id (t_count demo_count_world))" by (simp add: demo_count_world_def)
  from count_completes_once [OF bus_frame_empty this run] run show ?thesis by blast
qed

theorem current_count_keeps_valuation_witness:
  "\<exists>row w'. complete_count (\<lambda>_. None) ''C1'' 0 ''c'' ''u'' demo_count_world = (Inr row, w') \<and>
     stock_total w' ''p'' ''c'' = pool_units w' ''p'' ''c''"
proof -
  obtain row w' where run: "complete_count (\<lambda>_. None) ''C1'' 0 ''c'' ''u'' demo_count_world = (Inr row, w')"
    using run_succeeds [OF demo_count_completes] by blast
  have "count_items_ok (ic_items demo_count)" by (simp add: count_items_ok_def demo_count_def)
  from current_count_keeps_valuation [OF tame_bus_empty demo_count_world_facts(3,4) this _ run] run
  show ?thesis by (simp add: demo_count_world_facts(5)) (simp add: demo_count_def demo_balance)
qed

text \<open>
  A stale count unbalances the valuation. The stock is adjusted from ten to nine between
  the count and its completion; the completion then sets the stock to eight but takes two more units
  out of the cost layers, so that eight units of stock are left with seven valued units --- the state
  the invariant of the other operations excludes.
\<close>

theorem stale_count_unbalances_valuation:
  "(let w = snd (adjust_stock (\<lambda>_. None) (demo_adjust (- 1)) ''c'' ''u'' None demo_count_world);
        (r, w') = complete_count (\<lambda>_. None) ''C1'' 0 ''c'' ''u'' w in
    \<not> isl r \<and> balance w ''p'' ''A'' ''c'' = 9 \<and>
    stock_total w' ''p'' ''c'' = 8 \<and> pool_units w' ''p'' ''c'' = 7)"
  by code_simp

end
