(* ===== verification/Calendar.thy ===== *)
theory Calendar
  imports Shared
begin

text \<open>
  The accounting calendar: the UTC parts of ECMAScript's \<^verbatim>\<open>Date\<close> that the finance module uses
  (\<^verbatim>\<open>getUTCFullYear\<close>, \<^verbatim>\<open>getUTCMonth\<close>, \<^verbatim>\<open>Date.UTC\<close>, from the language's own definitions of DayFromYear
  and MakeDay), and \<^verbatim>\<open>finance/services/fiscal-calendar.service.ts\<close>. An instant is the number of
  milliseconds since the epoch; years from 0 to 99, which \<^verbatim>\<open>Date.UTC\<close> shifts by 1900, do not occur.
\<close>

section \<open>UTC dates\<close>

definition ms_per_day :: int where
  "ms_per_day = 86400000"

definition leap_year :: "int \<Rightarrow> bool" where
  "leap_year y \<longleftrightarrow> y mod 4 = 0 \<and> (y mod 100 \<noteq> 0 \<or> y mod 400 = 0)"

definition day_from_year :: "int \<Rightarrow> int" where
  "day_from_year y = 365 * (y - 1970) + (y - 1969) div 4 - (y - 1901) div 100 + (y - 1601) div 400"

text \<open>The day of the year on which month \<open>m\<close> (0 to 11) starts; 12 gives the length of the year.\<close>

definition month_start :: "int \<Rightarrow> int \<Rightarrow> int" where
  "month_start y m =
     (if m \<le> 0 then 0 else if m = 1 then 31 else
        [59, 90, 120, 151, 181, 212, 243, 273, 304, 334, 365] ! nat (min m 12 - 2) +
        (if leap_year y then 1 else 0))"

text \<open>MakeDay: months beyond the year carry over, day 0 is the last day of the month before.\<close>

definition make_day :: "int \<Rightarrow> int \<Rightarrow> int \<Rightarrow> int" where
  "make_day y m d = (let ym = y + m div 12 in day_from_year ym + month_start ym (m mod 12) + d - 1)"

definition date_utc :: "int \<Rightarrow> int \<Rightarrow> int \<Rightarrow> int \<Rightarrow> int \<Rightarrow> int \<Rightarrow> int \<Rightarrow> int" where
  "date_utc y m d h mi s ms = make_day y m d * ms_per_day + ((h * 60 + mi) * 60 + s) * 1000 + ms"

definition utc_year :: "int \<Rightarrow> int" where
  "utc_year t = (let day = t div ms_per_day; est = 1970 + day * 400 div 146097 in
     if day_from_year (est + 1) \<le> day then est + 1
     else if day_from_year est \<le> day then est else est - 1)"

text \<open>\<^verbatim>\<open>getUTCMonth() + 1\<close>.\<close>

definition utc_month :: "int \<Rightarrow> int" where
  "utc_month t = (let y = utc_year t; d = t div ms_per_day - day_from_year y in
     int (length (filter (\<lambda>m. month_start y m \<le> d) [0, 1, 2, 3, 4, 5, 6, 7, 8, 9, 10, 11])))"

lemma div_bounds: "0 < n \<Longrightarrow> n * (x div n) \<le> x \<and> x < n * (x div n) + n" for x n :: int
  by (metis add.commute add_left_cancel le_add_same_cancel1 less_add_same_cancel1 linorder_not_le
      mult_div_mod_eq pos_mod_bound pos_mod_sign add_less_cancel_left)

text \<open>Where year \<open>y\<close> starts, to within two days of the mean.\<close>

lemma day_from_year_bounds:
  "400 * day_from_year y \<le> 146097 * (y - 1970) + 589" "146097 * (y - 1970) - 506 \<le> 400 * day_from_year y"
proof -
  have a: "4 * ((y - 1969) div 4) \<le> y - 1969" "y - 1969 < 4 * ((y - 1969) div 4) + 4"
    using div_bounds [of 4 "y - 1969"] by simp_all
  have b: "100 * ((y - 1901) div 100) \<le> y - 1901" "y - 1901 < 100 * ((y - 1901) div 100) + 100"
    using div_bounds [of 100 "y - 1901"] by simp_all
  have c: "400 * ((y - 1601) div 400) \<le> y - 1601" "y - 1601 < 400 * ((y - 1601) div 400) + 400"
    using div_bounds [of 400 "y - 1601"] by simp_all
  show "400 * day_from_year y \<le> 146097 * (y - 1970) + 589"
    unfolding day_from_year_def using a b c by (simp add: algebra_simps)
  show "146097 * (y - 1970) - 506 \<le> 400 * day_from_year y"
    unfolding day_from_year_def using a b c by (simp add: algebra_simps)
qed

text \<open>The year found is the year of the instant.\<close>

lemma utc_year_correct:
  "day_from_year (utc_year t) \<le> t div ms_per_day" "t div ms_per_day < day_from_year (utc_year t + 1)"
proof -
  define day where "day = t div ms_per_day"
  define est where "est = 1970 + day * 400 div 146097"
  have e: "146097 * (est - 1970) \<le> day * 400" "day * 400 < 146097 * (est - 1970) + 146097"
    using div_bounds [of 146097 "day * 400"] by (simp_all add: est_def)
  have lo: "day_from_year (est - 1) \<le> day"
    using day_from_year_bounds(1) [of "est - 1"] e(1) by (simp add: algebra_simps)
  have hi: "day < day_from_year (est + 2)"
    using day_from_year_bounds(2) [of "est + 2"] e(2) by (simp add: algebra_simps)
  have y: "utc_year t = (if day_from_year (est + 1) \<le> day then est + 1
      else if day_from_year est \<le> day then est else est - 1)"
    by (simp add: utc_year_def Let_def day_def est_def)
  show "day_from_year (utc_year t) \<le> t div ms_per_day"
    using lo by (simp add: y day_def [symmetric])
  show "t div ms_per_day < day_from_year (utc_year t + 1)"
    using hi by (simp add: y day_def [symmetric] add.commute)
qed

lemma div_succ:
  fixes x n :: int
  assumes "0 < n"
  shows "(x + 1) div n = x div n + (if (x + 1) mod n = 0 then 1 else 0)"
proof -
  define q r where "q = x div n" and "r = x mod n"
  have x: "x = n * q + r" and r: "0 \<le> r" "r < n" using assms by (simp_all add: q_def r_def)
  show ?thesis
  proof (cases "r = n - 1")
    case True
    have "(x + 1) div n = q + 1"
      by (rule int_div_pos_eq [where r = 0]) (use x True assms in \<open>simp_all add: algebra_simps\<close>)
    moreover have "(x + 1) mod n = 0"
      by (rule int_mod_pos_eq [where q = "q + 1"]) (use x True assms in \<open>simp_all add: algebra_simps\<close>)
    ultimately show ?thesis by (simp add: q_def)
  next
    case False
    have "(x + 1) div n = q"
      by (rule int_div_pos_eq [where r = "r + 1"]) (use x False r in simp_all)
    moreover have "(x + 1) mod n = r + 1"
      by (rule int_mod_pos_eq [where q = q]) (use x False r in simp_all)
    ultimately show ?thesis using r by (simp add: q_def)
  qed
qed

lemma mod_shift: "(y - k * n) mod n = y mod n" for y k n :: int
  using mod_mult_self1 [of y "- k" n] by simp

lemma day_from_year_succ: "day_from_year (y + 1) = day_from_year y + 365 + (if leap_year y then 1 else 0)"
proof -
  have a: "(y - 1968) div 4 = (y - 1969) div 4 + (if y mod 4 = 0 then 1 else 0)"
    using div_succ [of 4 "y - 1969"] mod_shift [of y 492 4] by simp
  have b: "(y - 1900) div 100 = (y - 1901) div 100 + (if y mod 100 = 0 then 1 else 0)"
    using div_succ [of 100 "y - 1901"] mod_shift [of y 19 100] by simp
  have c: "(y - 1600) div 400 = (y - 1601) div 400 + (if y mod 400 = 0 then 1 else 0)"
    using div_succ [of 400 "y - 1601"] mod_shift [of y 4 400] by simp
  have "400 dvd y \<Longrightarrow> 100 dvd y" "100 dvd y \<Longrightarrow> 4 dvd y"
    by (rule dvd_trans [rotated], assumption, simp)+
  then have d: "y mod 400 = 0 \<Longrightarrow> y mod 100 = 0" "y mod 100 = 0 \<Longrightarrow> y mod 4 = 0"
    by (simp_all add: mod_eq_0_iff_dvd)
  have e: "day_from_year (y + 1) = 365 * (y - 1969) + (y - 1968) div 4 - (y - 1900) div 100 + (y - 1600) div 400"
    by (simp add: day_from_year_def)
  have sum: "365 * (y - 1969) + (p + (if A then 1 else 0)) - (q + (if B then 1 else 0)) + (r + (if C then 1 else 0)) =
      365 * (y - 1970) + p - q + r + 365 + (if A \<and> (\<not> B \<or> C) then 1 else 0)"
    if "C \<Longrightarrow> B" "B \<Longrightarrow> A" for A B C and p q r :: int
    using that by (cases A; cases B; cases C) simp_all
  show ?thesis
    unfolding e unfolding a b c day_from_year_def leap_year_def by (rule sum [OF d])
qed

lemma month_starts [simp]:
  "month_start y 0 = 0" "month_start y 1 = 31"
  "month_start y 2 = 59 + (if leap_year y then 1 else 0)" "month_start y 3 = 90 + (if leap_year y then 1 else 0)"
  "month_start y 4 = 120 + (if leap_year y then 1 else 0)" "month_start y 5 = 151 + (if leap_year y then 1 else 0)"
  "month_start y 6 = 181 + (if leap_year y then 1 else 0)" "month_start y 7 = 212 + (if leap_year y then 1 else 0)"
  "month_start y 8 = 243 + (if leap_year y then 1 else 0)" "month_start y 9 = 273 + (if leap_year y then 1 else 0)"
  "month_start y 10 = 304 + (if leap_year y then 1 else 0)" "month_start y 11 = 334 + (if leap_year y then 1 else 0)"
  "month_start y 12 = 365 + (if leap_year y then 1 else 0)"
  by (simp_all add: month_start_def)

lemma month_of_day:
  assumes "0 \<le> d" and "d < month_start y 12"
  defines "m \<equiv> int (length (filter (\<lambda>m. month_start y m \<le> d) [0, 1, 2, 3, 4, 5, 6, 7, 8, 9, 10, 11]))"
  shows "m \<in> {1..12} \<and> month_start y (m - 1) \<le> d \<and> d < month_start y m"
proof -
  let ?l = "if leap_year y then 1 else 0 :: int"
  have l: "?l = 0 \<or> ?l = 1" by simp
  consider "d < 31" | "31 \<le> d" "d < 59 + ?l" | "59 + ?l \<le> d" "d < 90 + ?l" | "90 + ?l \<le> d" "d < 120 + ?l"
    | "120 + ?l \<le> d" "d < 151 + ?l" | "151 + ?l \<le> d" "d < 181 + ?l" | "181 + ?l \<le> d" "d < 212 + ?l"
    | "212 + ?l \<le> d" "d < 243 + ?l" | "243 + ?l \<le> d" "d < 273 + ?l" | "273 + ?l \<le> d" "d < 304 + ?l"
    | "304 + ?l \<le> d" "d < 334 + ?l" | "334 + ?l \<le> d" by linarith
  then show ?thesis
    using assms(1,2) by cases (cases "leap_year y"; simp add: m_def)+
qed

lemma utc_month_correct:
  fixes t :: int
  defines "y \<equiv> utc_year t" and "m \<equiv> utc_month t"
  shows "m \<in> {1..12}" and "day_from_year y + month_start y (m - 1) \<le> t div ms_per_day"
    and "t div ms_per_day < day_from_year y + month_start y m"
proof -
  have "0 \<le> t div ms_per_day - day_from_year y" and "t div ms_per_day - day_from_year y < month_start y 12"
    using utc_year_correct [of t] by (simp_all add: y_def day_from_year_succ)
  from month_of_day [OF this]
  have "m \<in> {1..12} \<and> month_start y (m - 1) \<le> t div ms_per_day - day_from_year y \<and>
      t div ms_per_day - day_from_year y < month_start y m"
    by (simp add: m_def utc_month_def Let_def y_def)
  then show "m \<in> {1..12}" and "day_from_year y + month_start y (m - 1) \<le> t div ms_per_day"
    and "t div ms_per_day < day_from_year y + month_start y m" by auto
qed

text \<open>The first instant of month \<open>m\<close> (1 to 12) and the last one, as the services compute them.\<close>

definition month_first :: "int \<Rightarrow> int \<Rightarrow> int" where
  "month_first y m = date_utc y (m - 1) 1 0 0 0 0"

definition month_last :: "int \<Rightarrow> int \<Rightarrow> int" where
  "month_last y m = date_utc y m 0 23 59 59 999"

lemma make_day_first: "m \<in> {1..12} \<Longrightarrow> make_day y (m - 1) 1 = day_from_year y + month_start y (m - 1)"
  by (auto simp: make_day_def Let_def div_pos_pos_trivial)

lemma make_day_last: "m \<in> {1..12} \<Longrightarrow> make_day y m 0 = day_from_year y + month_start y m - 1"
  by (cases "m = 12") (auto simp: make_day_def Let_def div_pos_pos_trivial day_from_year_succ)

lemma instant_in_its_month:
  "month_first (utc_year t) (utc_month t) \<le> t \<and> t \<le> month_last (utc_year t) (utc_month t)"
proof -
  note M = utc_month_correct [of t]
  have d: "ms_per_day * (t div ms_per_day) \<le> t" "t < ms_per_day * (t div ms_per_day) + ms_per_day"
    using div_bounds [of ms_per_day t] by (simp_all add: ms_per_day_def)
  have "make_day (utc_year t) (utc_month t - 1) 1 \<le> t div ms_per_day"
    using M(2) by (simp add: make_day_first [OF M(1)])
  then have "month_first (utc_year t) (utc_month t) \<le> ms_per_day * (t div ms_per_day)"
    by (simp add: month_first_def date_utc_def ms_per_day_def)
  moreover have "t div ms_per_day \<le> make_day (utc_year t) (utc_month t) 0"
    using M(3) by (simp add: make_day_last [OF M(1)])
  then have "ms_per_day * (t div ms_per_day) + ms_per_day - 1 \<le> month_last (utc_year t) (utc_month t)"
    by (simp add: month_last_def date_utc_def ms_per_day_def)
  ultimately show ?thesis using d by linarith
qed

section \<open>The fiscal calendar service\<close>

definition pad2 :: "string \<Rightarrow> string" where
  "pad2 s = replicate (2 - length s) (CHR ''0'') @ s"

definition fiscal_year_is :: "string \<Rightarrow> int \<Rightarrow> fiscal_year_row \<Rightarrow> bool" where
  "fiscal_year_is c y r \<longleftrightarrow> fy_company r = c \<and> fy_year r = y"

definition period_is :: "string \<Rightarrow> int \<Rightarrow> int \<Rightarrow> period_row \<Rightarrow> bool" where
  "period_is c y m r \<longleftrightarrow> fp_company r = c \<and> fp_year r = y \<and> fp_month r = m"

text \<open>Both upserts have an empty update branch: an existing row is returned as it is.\<close>

definition upsert_fiscal_year :: "string \<Rightarrow> int \<Rightarrow> fiscal_year_row wtx" where
  "upsert_fiscal_year c y =
     bind (ask (\<lambda>w. find_first (fiscal_year_is c y) (t_fiscal_year w))) (\<lambda>found.
     case found of
       Some r \<Rightarrow> ret r
     | None \<Rightarrow>
         bind fresh_uuid (\<lambda>u.
         let row = \<lparr>fy_id = u, fy_company = c, fy_year = y, fy_start = date_utc y 0 1 0 0 0 0,
                    fy_end = date_utc y 11 31 23 59 59 999, fy_closed = False,
                    fy_closedAt = None, fy_closedBy = None, fy_retained = None, fy_version = 0\<rparr> in
         bind (change (\<lambda>w. w\<lparr>t_fiscal_year := t_fiscal_year w @ [row]\<rparr>)) (\<lambda>_. ret row)))"

definition upsert_period :: "string \<Rightarrow> int \<Rightarrow> int \<Rightarrow> period_row wtx" where
  "upsert_period c y m =
     bind (ask (\<lambda>w. find_first (period_is c y m) (t_period w))) (\<lambda>found.
     case found of
       Some r \<Rightarrow> ret r
     | None \<Rightarrow>
         bind (ask num_str) (\<lambda>ns.
         bind fresh_uuid (\<lambda>u.
         let row = \<lparr>fp_id = u, fp_company = c, fp_name = ns (of_int y) @ ''-'' @ pad2 (ns (of_int m)),
                    fp_year = y, fp_month = m, fp_start = date_utc y (m - 1) 1 0 0 0 0,
                    fp_end = date_utc y m 0 23 59 59 999, fp_status = Open, fp_openedBy = None,
                    fp_closedBy = None, fp_closedAt = None,
                    fp_notes = Some ''Auto-provisioned by FiscalCalendarService'', fp_version = 0\<rparr> in
         bind (change (\<lambda>w. w\<lparr>t_period := t_period w @ [row]\<rparr>)) (\<lambda>_. ret row))))"

definition ensure_current_calendar :: "string \<Rightarrow> (fiscal_year_row \<times> period_row \<times> bool) wtx" where
  "ensure_current_calendar c =
     bind (ask now) (\<lambda>clock.
     let year = utc_year clock; month = utc_month clock in
     bind (upsert_fiscal_year c year) (\<lambda>fiscalYear.
     bind (upsert_period c year month) (\<lambda>financialPeriod.
     ret (fiscalYear, financialPeriod, fp_status financialPeriod = Open))))"

lemma frame_ensure_current_calendar [frame_intros]:
  assumes "\<And>h w. g (t_fiscal_year_update h w) = g w" and "\<And>h w. g (t_period_update h w) = g w"
    and "\<And>h w. g (uuid_next_update h w) = g w"
  shows "frame g (ensure_current_calendar c)"
  unfolding ensure_current_calendar_def upsert_fiscal_year_def upsert_period_def Let_def
  by (intro frame_intros assms)

lemma advances_ensure_current_calendar [frame_intros]: "advances (ensure_current_calendar c)"
  unfolding ensure_current_calendar_def upsert_fiscal_year_def upsert_period_def Let_def
  by (intro frame_intros; simp)

lemma upsert_fiscal_year_run:
  "\<exists>fy w'. upsert_fiscal_year c y w = (Inr fy, w') \<and> t_period w' = t_period w"
  by (cases "find_first (fiscal_year_is c y) (t_fiscal_year w)")
     (simp_all add: upsert_fiscal_year_def Let_def bind_def)

lemma upsert_period_run:
  "\<exists>p w'. upsert_period c y m w = (Inr p, w') \<and> find_first (period_is c y m) (t_period w') = Some p \<and>
     (case find_first (period_is c y m) (t_period w) of
        Some r \<Rightarrow> p = r \<and> t_period w' = t_period w
      | None \<Rightarrow> t_period w' = t_period w @ [p] \<and> fp_status p = Open \<and>
          fp_start p = month_first y m \<and> fp_end p = month_last y m)"
  by (cases "find_first (period_is c y m) (t_period w)")
     (simp_all add: upsert_period_def Let_def bind_def find_first_append period_is_def
        month_first_def month_last_def)

section \<open>Properties\<close>

text \<open>What the calendar service returns and writes.\<close>

lemma ensure_current_calendar_run:
  "\<exists>fy p w'. ensure_current_calendar c w = (Inr (fy, p, fp_status p = Open), w') \<and>
     find_first (period_is c (utc_year (now w)) (utc_month (now w))) (t_period w') = Some p \<and>
     (case find_first (period_is c (utc_year (now w)) (utc_month (now w))) (t_period w) of
        Some r \<Rightarrow> p = r \<and> t_period w' = t_period w
      | None \<Rightarrow> t_period w' = t_period w @ [p] \<and> fp_status p = Open \<and>
          fp_start p \<le> now w \<and> now w \<le> fp_end p)"
proof -
  obtain fy w1 where one: "upsert_fiscal_year c (utc_year (now w)) w = (Inr fy, w1)" and
    same: "t_period w1 = t_period w"
    using upsert_fiscal_year_run by blast
  obtain p w2 where two: "upsert_period c (utc_year (now w)) (utc_month (now w)) w1 = (Inr p, w2)" and
    P: "find_first (period_is c (utc_year (now w)) (utc_month (now w))) (t_period w2) = Some p"
     "case find_first (period_is c (utc_year (now w)) (utc_month (now w))) (t_period w1) of
        Some r \<Rightarrow> p = r \<and> t_period w2 = t_period w1
      | None \<Rightarrow> t_period w2 = t_period w1 @ [p] \<and> fp_status p = Open \<and>
          fp_start p = month_first (utc_year (now w)) (utc_month (now w)) \<and>
          fp_end p = month_last (utc_year (now w)) (utc_month (now w))"
    using upsert_period_run [of c "utc_year (now w)" "utc_month (now w)" w1] by blast
  have "ensure_current_calendar c w = (Inr (fy, p, fp_status p = Open), w2)"
    by (simp add: ensure_current_calendar_def Let_def one two)
  then show ?thesis
    using P instant_in_its_month [of "now w"]
    by (intro exI [of _ fy] exI [of _ p] exI [of _ w2]) (auto simp: same split: option.splits)
qed

text \<open>
  The calendar service always yields the period of the current instant and never reopens
  one. It cannot fail; the period it returns is the company's period of the current UTC month; if that
  period existed, in whatever status, it and all other periods are untouched; if not, the one added
  is OPEN, postable and its date range contains the current instant.
\<close>

theorem calendar_covers_now_and_never_reopens:
  "\<exists>fy p w'. ensure_current_calendar c w = (Inr (fy, p, fp_status p = Open), w') \<and>
     find_first (period_is c (utc_year (now w)) (utc_month (now w))) (t_period w') = Some p \<and>
     (case find_first (period_is c (utc_year (now w)) (utc_month (now w))) (t_period w) of
        Some r \<Rightarrow> p = r \<and> t_period w' = t_period w
      | None \<Rightarrow> t_period w' = t_period w @ [p] \<and> fp_status p = Open \<and>
          fp_start p \<le> now w \<and> now w \<le> fp_end p)"
  by (rule ensure_current_calendar_run)

end
