(* ===== verification/Ledger.thy ===== *)
theory Ledger
  imports Calendar Events
begin

text \<open>
  The general ledger: \<^verbatim>\<open>finance/services/posting-validation.service.ts\<close>,
  \<^verbatim>\<open>finance/repositories/journal-entries.repository.ts\<close> and \<^verbatim>\<open>finance/services/gl-engine.service.ts\<close>.
  The subscribers of \<^verbatim>\<open>journal.posted\<close> are an argument; the code publishes it inside a \<^verbatim>\<open>try\<close>.
\<close>

section \<open>Line amounts\<close>

text \<open>
  The line amounts of a posting are strings. \<open>Blank\<close> is the empty string, which \<^verbatim>\<open>x || '0'\<close> turns into
  zero; \<open>Amount\<close> a decimal numeral; \<open>Garbled\<close> a string on which \<^verbatim>\<open>new Decimal\<close> throws (the numerals
  \<^verbatim>\<open>NaN\<close> and \<^verbatim>\<open>Infinity\<close> are left out: Prisma refuses to store them).
\<close>

datatype amount = Blank | Amount decimal | Garbled

definition decimal_of :: "amount \<Rightarrow> decimal wtx" where
  "decimal_of a = (case a of Blank \<Rightarrow> ret 0 | Amount d \<Rightarrow> ret d | Garbled \<Rightarrow> throw DecimalError)"

record post_line =
  pl_account :: string
  pl_debit :: amount
  pl_credit :: amount
  pl_description :: "string option"

section \<open>The posting validator\<close>

definition live_account :: "string \<Rightarrow> account_row \<Rightarrow> bool" where
  "live_account c r \<longleftrightarrow> ac_company r = c \<and> ac_active r \<and> ac_deleted r = None"

definition live_accounts_among :: "string \<Rightarrow> string list \<Rightarrow> account_row list wtx" where
  "live_accounts_among c is = ask (\<lambda>w. find_many (\<lambda>r. ac_id r \<in> set is \<and> live_account c r) (t_account w))"

definition find_period :: "string \<Rightarrow> string \<Rightarrow> period_row option wtx" where
  "find_period i c = ask (\<lambda>w. find_first (\<lambda>r. fp_id r = i \<and> fp_company r = c) (t_period w))"

primrec check_amounts :: "post_line list \<Rightarrow> unit wtx" where
  "check_amounts [] = ret ()"
| "check_amounts (l # ls) =
     bind (decimal_of (pl_debit l)) (\<lambda>debit.
     bind (decimal_of (pl_credit l)) (\<lambda>credit.
     bind (require (\<not> (debit = 0 \<and> credit = 0)) (BadRequest ''Each journal line must have a debit or credit amount''))
       (\<lambda>_. check_amounts ls)))"

primrec sum_amounts :: "post_line list \<Rightarrow> decimal \<Rightarrow> decimal \<Rightarrow> (decimal \<times> decimal) wtx" where
  "sum_amounts [] totalDebit totalCredit = ret (totalDebit, totalCredit)"
| "sum_amounts (l # ls) totalDebit totalCredit =
     bind (decimal_of (pl_debit l)) (\<lambda>debit.
     bind (decimal_of (pl_credit l)) (\<lambda>credit.
     sum_amounts ls (totalDebit + debit) (totalCredit + credit)))"

definition validate_posting ::
  "string \<Rightarrow> int \<Rightarrow> string \<Rightarrow> post_line list \<Rightarrow> (decimal \<times> decimal) wtx" where
  "validate_posting c entryDate period_id lines =
     bind (find_period period_id c) (\<lambda>found.
     bind (require_some found (BadRequest ''Financial period not found'')) (\<lambda>period.
     bind (require (fp_status period = Open) (BadRequest ''Cannot post to period. Only OPEN periods accept postings.'')) (\<lambda>_.
     bind (require (\<not> (entryDate < fp_start period \<or> entryDate > fp_end period)) (BadRequest ''Entry date is outside the period'')) (\<lambda>_.
     bind (require (\<not> length lines < 2) (BadRequest ''Journal entry must have at least 2 lines'')) (\<lambda>_.
     let accountIds = remdups (map pl_account lines) in
     bind (live_accounts_among c accountIds) (\<lambda>accounts.
     bind (require (length accounts = length accountIds) (BadRequest ''Accounts not found or inactive'')) (\<lambda>_.
     bind (check_amounts lines) (\<lambda>_.
     bind (sum_amounts lines 0 0) (\<lambda>(totalDebit, totalCredit).
     bind (require (totalDebit = totalCredit) (BadRequest ''Journal entry is unbalanced'')) (\<lambda>_.
     bind (require (\<not> (totalDebit < 0 \<or> totalCredit < 0)) (BadRequest ''Journal line amounts cannot be negative'')) (\<lambda>_.
     ret (totalDebit, totalCredit))))))))))))"

definition validate_accounts_belong_to_company :: "string list \<Rightarrow> string \<Rightarrow> unit wtx" where
  "validate_accounts_belong_to_company is c =
     (let uniqueIds = remdups is in
      if uniqueIds = [] then ret ()
      else
        bind (live_accounts_among c uniqueIds) (\<lambda>accounts.
        require (length accounts = length uniqueIds) (NotFound ''Chart of account not found'')))"

section \<open>The journal repository\<close>

record entry_data =
  ed_number :: int
  ed_date :: int
  ed_description :: "string option"
  ed_status :: entry_status
  ed_totalDebit :: decimal
  ed_totalCredit :: decimal
  ed_refType :: "string option"
  ed_refId :: "string option"
  ed_company :: string
  ed_period :: string
  ed_createdBy :: string
  ed_clientOp :: "string option"
  ed_lines :: "post_line list"

text \<open>The nested \<^verbatim>\<open>lines: { create: ... }\<close>; \<^verbatim>\<open>Decimal(18, 4)\<close> columns.\<close>

primrec create_lines :: "post_line list \<Rightarrow> line_row list wtx" where
  "create_lines [] = ret []"
| "create_lines (l # ls) =
     bind (decimal_of (pl_debit l)) (\<lambda>debit.
     bind (decimal_of (pl_credit l)) (\<lambda>credit.
     bind fresh_uuid (\<lambda>u.
     bind (create_lines ls) (\<lambda>rest.
     ret (\<lparr>jl_id = u, jl_account = pl_account l, jl_debit = round4 debit, jl_credit = round4 credit,
           jl_description = pl_description l\<rparr> # rest)))))"

definition same_number :: "entry_data \<Rightarrow> entry_row \<Rightarrow> bool" where
  "same_number d r \<longleftrightarrow> je_company r = ed_company d \<and> je_period r = ed_period d \<and> je_number r = ed_number d"

definition same_operation :: "entry_data \<Rightarrow> entry_row \<Rightarrow> bool" where
  "same_operation d r \<longleftrightarrow> ed_clientOp d \<noteq> None \<and> je_company r = ed_company d \<and> je_clientOp r = ed_clientOp d"

definition create_in_transaction :: "entry_data \<Rightarrow> entry_row wtx" where
  "create_in_transaction d =
     bind (ask t_entry) (\<lambda>t.
     bind (require (find_first (same_number d) t = None)
             (UniqueViolation [''companyId'', ''financialPeriodId'', ''entryNumber''])) (\<lambda>_.
     bind (require (find_first (same_operation d) t = None)
             (UniqueViolation [''companyId'', ''clientOperationId''])) (\<lambda>_.
     bind fresh_uuid (\<lambda>u.
     bind (create_lines (ed_lines d)) (\<lambda>lines.
     let row = \<lparr>je_id = u, je_company = ed_company d, je_period = ed_period d, je_number = ed_number d,
                je_date = ed_date d, je_description = ed_description d, je_status = ed_status d,
                je_totalDebit = round4 (ed_totalDebit d), je_totalCredit = round4 (ed_totalCredit d),
                je_refType = ed_refType d, je_refId = ed_refId d, je_postedBy = None, je_postedAt = None,
                je_createdBy = Some (ed_createdBy d), je_version = 0, je_clientOp = ed_clientOp d,
                je_lines = lines\<rparr> in
     bind (change (\<lambda>w. w\<lparr>t_entry := t_entry w @ [row]\<rparr>)) (\<lambda>_. ret row))))))"

definition get_next_entry_number :: "string \<Rightarrow> string \<Rightarrow> int wtx" where
  "get_next_entry_number c period_id = next_number c (''JE:'' @ period_id)"

definition find_entry_by_id :: "string \<Rightarrow> string \<Rightarrow> entry_row option wtx" where
  "find_entry_by_id i c = ask (\<lambda>w. find_first (\<lambda>r. je_id r = i \<and> je_company r = c) (t_entry w))"

text \<open>\<^verbatim>\<open>update\<close>: scalars and relations are written under one row version.\<close>

definition update_entry ::
  "string \<Rightarrow> (entry_row \<Rightarrow> entry_row) \<Rightarrow> string \<Rightarrow> int \<Rightarrow> entry_row wtx" where
  "update_entry i f c v =
     cas_write t_entry t_entry_update
       (\<lambda>r. je_id r = i \<and> je_company r = c \<and> je_version r = v)
       (\<lambda>r. je_id r = i \<and> je_company r = c) (\<lambda>r. je_id r = i)
       (bump_ver (\<lambda>r. r\<lparr>je_version := je_version r + 1\<rparr>) f)
       (NotFound ''Journal entry not found'')
       (Conflict ''Journal entry was modified by another user'')"

interpretation entry_table: optimistic_table t_entry je_id je_company je_version
    "\<lambda>f. \<forall>r. je_id (f r) = je_id r \<and> je_company (f r) = je_company r \<and> je_version (f r) = je_version r"
    update_entry
  unfolding update_entry_def [abs_def] by (rule cas_optimistic_table) simp_all

section \<open>The ledger engine\<close>

record post_input =
  pi_company :: string
  pi_period :: string
  pi_date :: int
  pi_description :: "string option"
  pi_refType :: "string option"
  pi_refId :: "string option"
  pi_createdBy :: string
  pi_clientOp :: "string option"
  pi_lines :: "post_line list"

record post_result =
  gp_id :: string
  gp_number :: int
  gp_status :: entry_status
  gp_totalDebit :: decimal
  gp_totalCredit :: decimal

definition balance_is :: "string \<Rightarrow> string \<Rightarrow> string \<Rightarrow> balance_row \<Rightarrow> bool" where
  "balance_is c a p r \<longleftrightarrow> ab_company r = c \<and> ab_account r = a \<and> ab_period r = p"

text \<open>One upsert of \<^verbatim>\<open>updateAccountBalances\<close>.\<close>

definition upsert_balance ::
  "string \<Rightarrow> string \<Rightarrow> int \<Rightarrow> int \<Rightarrow> string \<Rightarrow> decimal \<Rightarrow> decimal \<Rightarrow> unit wtx" where
  "upsert_balance c period_id year month account debit credit =
     bind (ask t_balance) (\<lambda>t.
     case find_first (balance_is c account period_id) t of
       None \<Rightarrow> change (\<lambda>w. w\<lparr>t_balance := t_balance w @
         [\<lparr>ab_company = c, ab_account = account, ab_period = period_id, ab_year = year, ab_month = month,
           ab_openingDebit = 0, ab_openingCredit = 0, ab_periodDebit = round4 debit,
           ab_periodCredit = round4 credit, ab_closingDebit = round4 debit,
           ab_closingCredit = round4 credit, ab_version = 0\<rparr>]\<rparr>)
     | Some _ \<Rightarrow> change (\<lambda>w. w\<lparr>t_balance := update_rows (balance_is c account period_id)
         (\<lambda>r. r\<lparr>ab_periodDebit := round4 (ab_periodDebit r + debit),
               ab_periodCredit := round4 (ab_periodCredit r + credit),
               ab_closingDebit := round4 (ab_closingDebit r + debit),
               ab_closingCredit := round4 (ab_closingCredit r + credit),
               ab_version := ab_version r + 1\<rparr>) (t_balance w)\<rparr>))"

definition update_account_balances :: "string \<Rightarrow> string \<Rightarrow> int \<Rightarrow> post_line list \<Rightarrow> unit wtx" where
  "update_account_balances c period_id entryDate lines =
     for_each lines (\<lambda>l.
       bind (decimal_of (pl_debit l)) (\<lambda>debit.
       bind (decimal_of (pl_credit l)) (\<lambda>credit.
       upsert_balance c period_id (utc_year entryDate) (utc_month entryDate) (pl_account l) debit credit)))"

text \<open>The \<^verbatim>\<open>tx.journalEntry.update\<close> of step 4; P2025 when the row is gone.\<close>

definition mark_posted :: "string \<Rightarrow> string \<Rightarrow> entry_row wtx" where
  "mark_posted i user =
     bind (ask now) (\<lambda>clock.
     bind (change (\<lambda>w. w\<lparr>t_entry := update_rows (\<lambda>r. je_id r = i)
       (\<lambda>r. r\<lparr>je_postedBy := Some user, je_postedAt := Some clock\<rparr>) (t_entry w)\<rparr>)) (\<lambda>_.
     bind (ask (\<lambda>w. find_first (\<lambda>r. je_id r = i) (t_entry w))) (\<lambda>row. require_some row RecordMissing)))"

definition post_audit :: "string \<Rightarrow> string \<Rightarrow> string \<Rightarrow> int \<Rightarrow> decimal \<Rightarrow> decimal \<Rightarrow> nat \<Rightarrow> unit wtx" where
  "post_audit c user entry number totalDebit totalCredit lines =
     bind (ask dec_str) (\<lambda>ds.
     audit_log \<lparr>au_company = Some c, au_user = user, au_entity = ''JournalEntry'', au_entityId = entry,
       au_action = ''POST'', au_before = None,
       au_after = Some (JObj [(''entryNumber'', jint number), (''totalDebit'', JStr (ds totalDebit)),
          (''totalCredit'', JStr (ds totalCredit)), (''linesCount'', jint (int lines))])\<rparr>)"

definition publish_posted :: "event_bus \<Rightarrow> post_input \<Rightarrow> entry_row \<Rightarrow> int \<Rightarrow> decimal \<Rightarrow> decimal \<Rightarrow> unit wtx" where
  "publish_posted bus input entry number totalDebit totalCredit =
     catch
       (bind (ask now) (\<lambda>clock.
        bind fresh_uuid (\<lambda>eventId.
        publish_event bus (JournalPosted eventId
          \<lparr>jp_entry = je_id entry, jp_company = pi_company input, jp_period = pi_period input,
           jp_number = number, jp_date = pi_date input, jp_description = pi_description input,
           jp_totalDebit = totalDebit, jp_totalCredit = totalCredit, jp_refType = pi_refType input,
           jp_refId = pi_refId input, jp_postedBy = pi_createdBy input, jp_postedAt = clock,
           jp_lines = je_lines entry\<rparr>))))
       (\<lambda>_. ret ())"

definition execute_post :: "event_bus \<Rightarrow> post_input \<Rightarrow> post_result wtx" where
  "execute_post bus input =
     bind (validate_posting (pi_company input) (pi_date input) (pi_period input) (pi_lines input))
       (\<lambda>(totalDebit, totalCredit).
     bind (get_next_entry_number (pi_company input) (pi_period input)) (\<lambda>entryNumber.
     bind (create_in_transaction
       \<lparr>ed_number = entryNumber, ed_date = pi_date input, ed_description = pi_description input,
        ed_status = Posted, ed_totalDebit = totalDebit, ed_totalCredit = totalCredit,
        ed_refType = pi_refType input, ed_refId = pi_refId input, ed_company = pi_company input,
        ed_period = pi_period input, ed_createdBy = pi_createdBy input,
        ed_clientOp = pi_clientOp input, ed_lines = pi_lines input\<rparr>) (\<lambda>entry.
     bind (mark_posted (je_id entry) (pi_createdBy input)) (\<lambda>posted.
     bind (update_account_balances (pi_company input) (pi_period input) (je_date entry) (pi_lines input)) (\<lambda>_.
     bind (post_audit (pi_company input) (pi_createdBy input) (je_id entry) entryNumber totalDebit totalCredit
             (length (pi_lines input))) (\<lambda>_.
     bind (publish_posted bus input entry entryNumber totalDebit totalCredit) (\<lambda>_.
     ret \<lparr>gp_id = je_id entry, gp_number = je_number posted, gp_status = je_status posted,
          gp_totalDebit = je_totalDebit posted, gp_totalCredit = je_totalCredit posted\<rparr>)))))))"

text \<open>\<^verbatim>\<open>post(input)\<close> without a client opens its own transaction; with one it is \<open>execute_post\<close>.\<close>

definition gl_post :: "event_bus \<Rightarrow> post_input \<Rightarrow> post_result wtx" where
  "gl_post bus input = transaction (execute_post bus input)"

definition reversal_lines :: "entry_row \<Rightarrow> string \<Rightarrow> post_line list" where
  "reversal_lines original description = map (\<lambda>l.
     \<lparr>pl_account = jl_account l, pl_debit = Amount (jl_credit l), pl_credit = Amount (jl_debit l),
      pl_description = Some (''REVERSAL: '' @ description)\<rparr>) (je_lines original)"

definition truthy :: "string option \<Rightarrow> string option" where
  "truthy v = (if v = Some '''' then None else v)"

definition reverse_entry ::
  "event_bus \<Rightarrow> string \<Rightarrow> string \<Rightarrow> string \<Rightarrow> string option \<Rightarrow> (string \<times> string) wtx" where
  "reverse_entry bus i c user reason = transaction (
     bind (find_entry_by_id i c) (\<lambda>found.
     bind (require_some found (NotFound ''Journal entry not found'')) (\<lambda>original.
     bind (require (je_refType original \<noteq> Some ''REVERSAL'') (BadRequest ''Cannot reverse a reversal entry'')) (\<lambda>_.
     bind (ask (\<lambda>w. count_rows (\<lambda>r. je_id r = i \<and> je_company r = c \<and> je_status r = Posted) (t_entry w))) (\<lambda>claimed.
     bind (change (\<lambda>w. w\<lparr>t_entry := update_rows (\<lambda>r. je_id r = i \<and> je_company r = c \<and> je_status r = Posted)
             (\<lambda>r. r\<lparr>je_status := Reversed, je_version := je_version r + 1\<rparr>) (t_entry w)\<rparr>)) (\<lambda>_.
     bind (require (claimed \<noteq> 0) (Conflict ''Journal entry cannot be reversed. Only POSTED entries can be reversed.'')) (\<lambda>_.
     bind (ask now) (\<lambda>clock.
     bind (ask num_str) (\<lambda>ns.
     let number = ns (of_int (je_number original)) in
     bind (execute_post bus
       \<lparr>pi_company = c, pi_period = je_period original, pi_date = clock,
        pi_description = Some (''Reversal of entry #'' @ number @ '': '' @
          (case truthy reason of Some s \<Rightarrow> s | None \<Rightarrow> ''manual reversal'')),
        pi_refType = Some ''REVERSAL'', pi_refId = Some i, pi_createdBy = user, pi_clientOp = None,
        pi_lines = reversal_lines original
          (case truthy reason of Some s \<Rightarrow> s | None \<Rightarrow> ''Reversal of entry #'' @ number)\<rparr>) (\<lambda>result.
     bind (audit_log \<lparr>au_company = Some c, au_user = user, au_entity = ''JournalEntry'', au_entityId = i,
        au_action = ''REVERSED'', au_before = Some (JObj [(''status'', JStr ''POSTED'')]),
        au_after = Some (JObj [(''status'', JStr ''REVERSED''), (''reversalEntryId'', JStr (gp_id result))])\<rparr>) (\<lambda>_.
     ret (i, gp_id result))))))))))))"

section \<open>What the validator accepts\<close>

primrec amount_val :: "amount \<Rightarrow> decimal" where
  "amount_val Blank = 0"
| "amount_val (Amount d) = d"
| "amount_val Garbled = 0"

lemma decimal_of_run:
  "decimal_of a w = (if a = Garbled then Inl DecimalError else Inr (amount_val a), w)"
  by (cases a) (simp_all add: decimal_of_def)

lemma decimal_of_Inr [tx_simps]:
  "decimal_of a w = (Inr d, w') \<longleftrightarrow> a \<noteq> Garbled \<and> d = amount_val a \<and> w' = w"
  by (auto simp: decimal_of_run)

definition debit_sum :: "post_line list \<Rightarrow> decimal" where
  "debit_sum ls = (\<Sum>l\<leftarrow>ls. amount_val (pl_debit l))"

definition credit_sum :: "post_line list \<Rightarrow> decimal" where
  "credit_sum ls = (\<Sum>l\<leftarrow>ls. amount_val (pl_credit l))"

definition readable :: "post_line \<Rightarrow> bool" where
  "readable l \<longleftrightarrow> pl_debit l \<noteq> Garbled \<and> pl_credit l \<noteq> Garbled"

definition nonzero_line :: "post_line \<Rightarrow> bool" where
  "nonzero_line l \<longleftrightarrow> readable l \<and> (amount_val (pl_debit l) \<noteq> 0 \<or> amount_val (pl_credit l) \<noteq> 0)"

lemma check_amounts_Inr:
  "check_amounts ls w = (Inr u, w') \<longleftrightarrow> (\<forall>l \<in> set ls. nonzero_line l) \<and> w' = w"
  by (induction ls) (auto simp: bind_Inr_iff decimal_of_Inr nonzero_line_def readable_def)

lemma check_amounts_same: "check_amounts ls w = (r, w') \<Longrightarrow> w' = w"
  by (induction ls) (auto simp: bind_def decimal_of_run split: if_splits)

lemma sum_amounts_run:
  "\<forall>l \<in> set ls. readable l \<Longrightarrow> sum_amounts ls d c w = (Inr (d + debit_sum ls, c + credit_sum ls), w)"
  by (induction ls arbitrary: d c)
     (simp_all add: decimal_of_run bind_def readable_def debit_sum_def credit_sum_def add.assoc)

text \<open>With unique account ids, counting the live accounts found is checking each line's account.\<close>

lemma accounts_all_found:
  assumes "distinct (map ac_id (t_account w))"
  shows "length (find_many (\<lambda>r. ac_id r \<in> set (remdups is) \<and> live_account c r) (t_account w)) = length (remdups is) \<longleftrightarrow>
    (\<forall>i \<in> set is. \<exists>r \<in> set (t_account w). ac_id r = i \<and> live_account c r)"
proof -
  let ?f = "find_many (\<lambda>r. ac_id r \<in> set (remdups is) \<and> live_account c r) (t_account w)"
  have d: "distinct (map ac_id ?f)" unfolding find_many_def by (rule distinct_map_filter [OF assms])
  have sub: "set (map ac_id ?f) \<subseteq> set is" by (auto simp: find_many_def)
  have len: "length ?f = card (set (map ac_id ?f))" using distinct_card [OF d] by simp
  have "length ?f = length (remdups is) \<longleftrightarrow> card (set (map ac_id ?f)) = card (set is)"
    by (simp only: len length_remdups_card_conv)
  also have "\<dots> \<longleftrightarrow> set (map ac_id ?f) = set is"
    using sub card_subset_eq [of "set is" "set (map ac_id ?f)"] by auto
  also have "\<dots> \<longleftrightarrow> (\<forall>i \<in> set is. \<exists>r \<in> set (t_account w). ac_id r = i \<and> live_account c r)"
  proof
    assume eq: "set (map ac_id ?f) = set is"
    show "\<forall>i \<in> set is. \<exists>r \<in> set (t_account w). ac_id r = i \<and> live_account c r"
    proof
      fix i
      assume "i \<in> set is"
      then have "i \<in> ac_id ` set ?f" using eq by simp
      then show "\<exists>r \<in> set (t_account w). ac_id r = i \<and> live_account c r"
        by (auto simp: find_many_def)
    qed
  next
    assume "\<forall>i \<in> set is. \<exists>r \<in> set (t_account w). ac_id r = i \<and> live_account c r"
    then have "set is \<subseteq> set (map ac_id ?f)" by (force simp: find_many_def)
    with sub show "set (map ac_id ?f) = set is" by blast
  qed
  finally show ?thesis .
qed

definition postable :: "world \<Rightarrow> string \<Rightarrow> int \<Rightarrow> string \<Rightarrow> post_line list \<Rightarrow> bool" where
  "postable w c d p ls \<longleftrightarrow>
     (\<exists>r. find_first (\<lambda>r. fp_id r = p \<and> fp_company r = c) (t_period w) = Some r \<and>
        fp_status r = Open \<and> fp_start r \<le> d \<and> d \<le> fp_end r) \<and>
     2 \<le> length ls \<and>
     (\<forall>l \<in> set ls. \<exists>a \<in> set (t_account w). ac_id a = pl_account l \<and> live_account c a) \<and>
     (\<forall>l \<in> set ls. nonzero_line l) \<and> debit_sum ls = credit_sum ls \<and> 0 \<le> debit_sum ls"

lemma validate_posting_same: "validate_posting c d p ls w = (r, w') \<Longrightarrow> w' = w"
proof -
  have amounts: "frame id (check_amounts ls)"
    by (rule frameI) (auto dest: check_amounts_same)
  have dec: "frame id (decimal_of a)" for a
    by (rule frameI) (simp add: decimal_of_run)
  have "frame id (sum_amounts xs a b)" for xs a b
    by (induction xs arbitrary: a b) (auto intro!: frame_intros dec)
  then have "frame id (validate_posting c d p ls)"
    unfolding validate_posting_def find_period_def live_accounts_among_def Let_def
    by (intro frame_intros amounts)
  then show "validate_posting c d p ls w = (r, w') \<Longrightarrow> w' = w" by (auto dest: frameD)
qed

lemma validate_posting_Inr:
  assumes "distinct (map ac_id (t_account w))"
  shows "validate_posting c d p ls w = (Inr (x, y), w') \<longleftrightarrow>
     postable w c d p ls \<and> x = debit_sum ls \<and> y = credit_sum ls \<and> w' = w"
proof -
  have R: "\<forall>l \<in> set ls. nonzero_line l \<Longrightarrow> \<forall>l \<in> set ls. readable l" by (auto simp: nonzero_line_def)
  show ?thesis
    unfolding validate_posting_def postable_def find_period_def live_accounts_among_def Let_def
      bind_Inr_iff require_Inr_iff require_some_Inr_iff ask_run check_amounts_Inr
    using accounts_all_found [OF assms, of "map pl_account ls" c]
    by (auto simp: sum_amounts_run [OF R] case_prod_unfold bind_Inr_iff require_Inr_iff not_less)
qed

section \<open>Balance snapshots\<close>

definition balance_key :: "balance_row \<Rightarrow> string \<times> string \<times> string" where
  "balance_key r = (ab_company r, ab_account r, ab_period r)"

definition balances_ok :: "balance_row list \<Rightarrow> bool" where
  "balances_ok t \<longleftrightarrow> distinct (map balance_key t) \<and>
     (\<forall>r \<in> set t. scale4 (ab_periodDebit r) \<and> scale4 (ab_periodCredit r) \<and>
        ab_openingDebit r = 0 \<and> ab_openingCredit r = 0 \<and>
        ab_closingDebit r = ab_periodDebit r \<and> ab_closingCredit r = ab_periodCredit r)"

definition snap :: "(balance_row \<Rightarrow> decimal) \<Rightarrow> balance_row list \<Rightarrow> string \<Rightarrow> string \<Rightarrow> string \<Rightarrow> decimal" where
  "snap f t c a p = (case find_first (balance_is c a p) t of None \<Rightarrow> 0 | Some r \<Rightarrow> f r)"

lemma balance_is_key: "balance_is c a p r \<longleftrightarrow> balance_key r = (c, a, p)"
  by (auto simp: balance_is_def balance_key_def)

lemma upsert_balance_run:
  assumes ok: "balances_ok (t_balance w)" and s: "scale4 d" "scale4 k"
  shows "\<exists>t. upsert_balance c p y m a d k w = (Inr (), w\<lparr>t_balance := t\<rparr>) \<and> balances_ok t \<and>
    (\<forall>c' a' p'. snap ab_periodDebit t c' a' p' = snap ab_periodDebit (t_balance w) c' a' p' +
        (if (c', a', p') = (c, a, p) then d else 0) \<and>
      snap ab_periodCredit t c' a' p' = snap ab_periodCredit (t_balance w) c' a' p' +
        (if (c', a', p') = (c, a, p) then k else 0))"
proof (cases "find_first (balance_is c a p) (t_balance w)")
  case None
  let ?row = "\<lparr>ab_company = c, ab_account = a, ab_period = p, ab_year = y, ab_month = m,
           ab_openingDebit = 0, ab_openingCredit = 0, ab_periodDebit = round4 d,
           ab_periodCredit = round4 k, ab_closingDebit = round4 d,
           ab_closingCredit = round4 k, ab_version = 0\<rparr>"
  have "balances_ok (t_balance w @ [?row])"
    using ok None by (auto simp: balances_ok_def balance_key_def balance_is_def find_first_None_iff)
  moreover have "upsert_balance c p y m a d k w = (Inr (), w\<lparr>t_balance := t_balance w @ [?row]\<rparr>)"
    using None by (simp add: upsert_balance_def)
  ultimately show ?thesis
    using None s
    by (intro exI [of _ "t_balance w @ [?row]"])
       (auto simp: snap_def find_first_append balance_is_def round4_id split: option.splits)
next
  case (Some r0)
  let ?f = "\<lambda>r. r\<lparr>ab_periodDebit := round4 (ab_periodDebit r + d), ab_periodCredit := round4 (ab_periodCredit r + k),
     ab_closingDebit := round4 (ab_closingDebit r + d), ab_closingCredit := round4 (ab_closingCredit r + k),
     ab_version := ab_version r + 1\<rparr>"
  let ?t = "update_rows (balance_is c a p) ?f (t_balance w)"
  have key: "balance_key (?f r) = balance_key r" for r by (simp add: balance_key_def)
  have "map balance_key ?t = map balance_key (t_balance w)" by (rule map_update_rows) (rule key)
  then have "distinct (map balance_key ?t)" using ok by (simp only: balances_ok_def)
  moreover have "scale4 (ab_periodDebit r) \<and> scale4 (ab_periodCredit r) \<and>
        ab_openingDebit r = 0 \<and> ab_openingCredit r = 0 \<and>
        ab_closingDebit r = ab_periodDebit r \<and> ab_closingCredit r = ab_periodCredit r"
    if "r \<in> set ?t" for r
  proof -
    obtain x where "x \<in> set (t_balance w)" and "r = (if balance_is c a p x then ?f x else x)"
      using \<open>r \<in> set ?t\<close> unfolding update_rows_def set_map by blast
    with ok show ?thesis by (simp add: balances_ok_def)
  qed
  ultimately have "balances_ok ?t" unfolding balances_ok_def by blast
  moreover have "upsert_balance c p y m a d k w = (Inr (), w\<lparr>t_balance := ?t\<rparr>)"
    using Some by (simp add: upsert_balance_def)
  moreover have "snap ab_periodDebit ?t c' a' p' = snap ab_periodDebit (t_balance w) c' a' p' +
        (if (c', a', p') = (c, a, p) then d else 0) \<and>
      snap ab_periodCredit ?t c' a' p' = snap ab_periodCredit (t_balance w) c' a' p' +
        (if (c', a', p') = (c, a, p) then k else 0)" for c' a' p'
  proof -
    have look: "find_first (balance_is c' a' p') ?t =
        map_option (\<lambda>r. if balance_is c a p r then ?f r else r) (find_first (balance_is c' a' p') (t_balance w))"
      by (rule find_first_update_rows) (simp add: balance_is_def)
    show ?thesis
    proof (cases "(c', a', p') = (c, a, p)")
      case True
      have r0: "r0 \<in> set (t_balance w)" "balance_is c a p r0" using find_first_SomeD [OF Some] by auto
      have sc: "scale4 (ab_periodDebit r0)" "scale4 (ab_periodCredit r0)" using ok r0(1) by (auto simp: balances_ok_def)
      show ?thesis using look True Some r0(2) sc s by (simp add: snap_def round4_id)
    next
      case False
      have "\<not> balance_is c a p r" if "find_first (balance_is c' a' p') (t_balance w) = Some r" for r
        using find_first_SomeD [OF that] False by (auto simp: balance_is_def)
      with False look show ?thesis by (auto simp: snap_def split: option.splits)
    qed
  qed
  ultimately show ?thesis by blast
qed

definition scale4_lines :: "post_line list \<Rightarrow> bool" where
  "scale4_lines ls \<longleftrightarrow> (\<forall>l \<in> set ls. scale4 (amount_val (pl_debit l)) \<and> scale4 (amount_val (pl_credit l)))"

definition lines_on :: "(post_line \<Rightarrow> decimal) \<Rightarrow> post_line list \<Rightarrow> string \<Rightarrow> decimal" where
  "lines_on f ls a = (\<Sum>l\<leftarrow>ls. if pl_account l = a then f l else 0)"

lemma update_account_balances_run:
  assumes "balances_ok (t_balance w)" and "scale4_lines ls" and "\<forall>l \<in> set ls. readable l"
  shows "\<exists>t. update_account_balances c p d ls w = (Inr (), w\<lparr>t_balance := t\<rparr>) \<and> balances_ok t \<and>
    (\<forall>c' a p'. snap ab_periodDebit t c' a p' = snap ab_periodDebit (t_balance w) c' a p' +
        (if (c', p') = (c, p) then lines_on (\<lambda>l. amount_val (pl_debit l)) ls a else 0) \<and>
      snap ab_periodCredit t c' a p' = snap ab_periodCredit (t_balance w) c' a p' +
        (if (c', p') = (c, p) then lines_on (\<lambda>l. amount_val (pl_credit l)) ls a else 0))"
  using assms
proof (induction ls arbitrary: w)
  case Nil
  then show ?case
    by (intro exI [of _ "t_balance w"]) (simp add: update_account_balances_def lines_on_def)
next
  case (Cons l ls)
  have l: "scale4 (amount_val (pl_debit l))" "scale4 (amount_val (pl_credit l))"
    "pl_debit l \<noteq> Garbled" "pl_credit l \<noteq> Garbled"
    using Cons.prems(2,3) by (simp_all add: scale4_lines_def readable_def)
  obtain t where one: "upsert_balance c p (utc_year d) (utc_month d) (pl_account l) (amount_val (pl_debit l))
      (amount_val (pl_credit l)) w = (Inr (), w\<lparr>t_balance := t\<rparr>)" and ok: "balances_ok t" and
    eff: "\<forall>c' a' p'. snap ab_periodDebit t c' a' p' = snap ab_periodDebit (t_balance w) c' a' p' +
        (if (c', a', p') = (c, pl_account l, p) then amount_val (pl_debit l) else 0) \<and>
      snap ab_periodCredit t c' a' p' = snap ab_periodCredit (t_balance w) c' a' p' +
        (if (c', a', p') = (c, pl_account l, p) then amount_val (pl_credit l) else 0)"
    using upsert_balance_run [OF Cons.prems(1) l(1,2)] by blast
  have "scale4_lines ls" "\<forall>l \<in> set ls. readable l" using Cons.prems by (simp_all add: scale4_lines_def)
  then obtain t' where rest: "update_account_balances c p d ls (w\<lparr>t_balance := t\<rparr>) =
      (Inr (), w\<lparr>t_balance := t'\<rparr>)" and ok': "balances_ok t'" and
    eff': "\<forall>c' a p'. snap ab_periodDebit t' c' a p' = snap ab_periodDebit t c' a p' +
        (if (c', p') = (c, p) then lines_on (\<lambda>l. amount_val (pl_debit l)) ls a else 0) \<and>
      snap ab_periodCredit t' c' a p' = snap ab_periodCredit t c' a p' +
        (if (c', p') = (c, p) then lines_on (\<lambda>l. amount_val (pl_credit l)) ls a else 0)"
    using Cons.IH [of "w\<lparr>t_balance := t\<rparr>"] ok by auto
  have "update_account_balances c p d (l # ls) w = (Inr (), w\<lparr>t_balance := t'\<rparr>)"
    using one rest l(3,4) by (simp add: update_account_balances_def bind_def decimal_of_run)
  moreover have "snap ab_periodDebit t' c' a p' = snap ab_periodDebit (t_balance w) c' a p' +
        (if (c', p') = (c, p) then lines_on (\<lambda>l. amount_val (pl_debit l)) (l # ls) a else 0) \<and>
      snap ab_periodCredit t' c' a p' = snap ab_periodCredit (t_balance w) c' a p' +
        (if (c', p') = (c, p) then lines_on (\<lambda>l. amount_val (pl_credit l)) (l # ls) a else 0)" for c' a p'
    using eff eff' by (auto simp: lines_on_def)
  ultimately show ?case using ok' by blast
qed

section \<open>A posting, taken apart\<close>

definition ledger_tables ::
  "world \<Rightarrow> entry_row list \<times> balance_row list \<times> seq_row list \<times> period_row list \<times> account_row list" where
  "ledger_tables w = (t_entry w, t_balance w, t_seq w, t_period w, t_account w)"

text \<open>The subscribers of \<^verbatim>\<open>journal.posted\<close> (there are none) leave the ledger alone.\<close>

definition ledger_bus :: "event_bus \<Rightarrow> bool" where
  "ledger_bus b \<longleftrightarrow> bus_frame ledger_tables b \<and> (\<forall>ev. advances (publish_event b ev))"

lemma ledger_bus_empty: "ledger_bus (\<lambda>_. None)"
  by (simp add: ledger_bus_def advances_def)

definition entry_ids_ok :: "world \<Rightarrow> bool" where
  "entry_ids_ok w \<longleftrightarrow> distinct (map je_id (t_entry w)) \<and> uuid_fresh w (set (map je_id (t_entry w)))"

definition entry_key :: "entry_row \<Rightarrow> string \<times> string \<times> int" where
  "entry_key e = (je_company e, je_period e, je_number e)"

definition entry_numbers_ok :: "world \<Rightarrow> bool" where
  "entry_numbers_ok w \<longleftrightarrow> distinct (map entry_key (t_entry w)) \<and>
     (\<forall>e \<in> set (t_entry w). je_number e \<le> last_number w (je_company e) (''JE:'' @ je_period e))"

definition stored_lines :: "post_line list \<Rightarrow> line_row list \<Rightarrow> bool" where
  "stored_lines ls rows \<longleftrightarrow> map jl_account rows = map pl_account ls \<and>
     map jl_debit rows = map (\<lambda>l. round4 (amount_val (pl_debit l))) ls \<and>
     map jl_credit rows = map (\<lambda>l. round4 (amount_val (pl_credit l))) ls"

lemma create_lines_run:
  "\<forall>l \<in> set ls. readable l \<Longrightarrow> \<exists>rows. create_lines ls w = (Inr rows, w\<lparr>uuid_next := uuid_next w + length ls\<rparr>) \<and>
     stored_lines ls rows"
proof (induction ls arbitrary: w)
  case Nil
  then show ?case by (simp add: stored_lines_def)
next
  case (Cons l ls)
  then obtain rows where "create_lines ls (w\<lparr>uuid_next := Suc (uuid_next w)\<rparr>) =
      (Inr rows, w\<lparr>uuid_next := Suc (uuid_next w + length ls)\<rparr>)" and "stored_lines ls rows"
    using Cons.IH [of "w\<lparr>uuid_next := Suc (uuid_next w)\<rparr>"] Cons.prems by auto
  then show ?case
    using Cons.prems by (simp add: bind_def decimal_of_run readable_def stored_lines_def)
qed

text \<open>The row a posting leaves behind.\<close>

definition posted_row :: "post_input \<Rightarrow> int \<Rightarrow> int \<Rightarrow> entry_row \<Rightarrow> bool" where
  "posted_row input n clock e \<longleftrightarrow> je_company e = pi_company input \<and> je_period e = pi_period input \<and>
     je_number e = n \<and> je_date e = pi_date input \<and> je_status e = Posted \<and>
     je_totalDebit e = round4 (debit_sum (pi_lines input)) \<and>
     je_totalCredit e = round4 (credit_sum (pi_lines input)) \<and>
     je_refType e = pi_refType input \<and> je_refId e = pi_refId input \<and>
     je_description e = pi_description input \<and>
     je_postedBy e = Some (pi_createdBy input) \<and> je_postedAt e = Some clock \<and>
     je_clientOp e = pi_clientOp input \<and> stored_lines (pi_lines input) (je_lines e)"

definition unused_operation :: "world \<Rightarrow> string \<Rightarrow> string option \<Rightarrow> bool" where
  "unused_operation w c op \<longleftrightarrow> op = None \<or> (\<forall>e \<in> set (t_entry w). \<not> (je_company e = c \<and> je_clientOp e = op))"

lemma create_in_transaction_run:
  assumes ids: "entry_ids_ok w" and "\<forall>l \<in> set (ed_lines d). readable l"
    and "find_first (same_number d) (t_entry w) = None" and "find_first (same_operation d) (t_entry w) = None"
  shows "\<exists>e. create_in_transaction d w = (Inr e, w\<lparr>uuid_next := Suc (uuid_next w) + length (ed_lines d), t_entry := t_entry w @ [e]\<rparr>) \<and>
    je_id e = uuid_gen w (uuid_next w) \<and> je_company e = ed_company d \<and> je_period e = ed_period d \<and>
    je_number e = ed_number d \<and> je_date e = ed_date d \<and> je_description e = ed_description d \<and>
    je_status e = ed_status d \<and> je_totalDebit e = round4 (ed_totalDebit d) \<and>
    je_totalCredit e = round4 (ed_totalCredit d) \<and> je_refType e = ed_refType d \<and> je_refId e = ed_refId d \<and>
    je_clientOp e = ed_clientOp d \<and> stored_lines (ed_lines d) (je_lines e)"
proof -
  obtain rows where "create_lines (ed_lines d) (w\<lparr>uuid_next := Suc (uuid_next w)\<rparr>) =
      (Inr rows, w\<lparr>uuid_next := Suc (uuid_next w) + length (ed_lines d)\<rparr>)" and "stored_lines (ed_lines d) rows"
    using create_lines_run [OF assms(2), of "w\<lparr>uuid_next := Suc (uuid_next w)\<rparr>"] by auto
  then show ?thesis
    using assms(3,4) by (simp add: create_in_transaction_def Let_def)
qed

lemma publish_posted_run:
  assumes "ledger_bus bus"
  shows "\<exists>w'. publish_posted bus input e n d k w = (Inr (), w') \<and> ledger_tables w' = ledger_tables w \<and>
    uuid_gen w' = uuid_gen w \<and> uuid_next w \<le> uuid_next w'"
proof -
  have f: "frame ledger_tables (publish_posted bus input e n d k)"
    unfolding publish_posted_def using assms
    by (intro frame_intros) (simp_all add: ledger_tables_def ledger_bus_def)
  have a: "advances (publish_posted bus input e n d k)"
    unfolding publish_posted_def using assms
    by (intro frame_intros) (simp add: ledger_bus_def)
  obtain r w' where run: "publish_posted bus input e n d k w = (r, w')"
    by (cases "publish_posted bus input e n d k w") auto
  moreover have "r = Inr ()"
  proof (cases r)
    case (Inl x)
    with run show ?thesis by (auto simp: publish_posted_def catch_def split: prod.splits sum.splits)
  qed simp
  ultimately show ?thesis using frameD [OF f run] advancesD [OF a run] by simp
qed

text \<open>What one more entry does to the two invariants on entries.\<close>

lemma entry_ids_ok_append:
  assumes "entry_ids_ok w" and "t_entry w' = t_entry w @ [e]" and "je_id e = uuid_gen w (uuid_next w)"
    and "uuid_gen w' = uuid_gen w" and "Suc (uuid_next w) \<le> uuid_next w'"
  shows "entry_ids_ok w'"
proof -
  let ?ids = "set (map je_id (t_entry w))"
  have old: "uuid_fresh w ?ids" using assms(1) by (simp add: entry_ids_ok_def)
  have "uuid_fresh (w\<lparr>uuid_next := Suc (uuid_next w)\<rparr>) (insert (uuid_gen w (uuid_next w)) ?ids)"
    by (rule uuid_fresh_step [OF old]) simp_all
  then have "uuid_fresh w' (insert (uuid_gen w (uuid_next w)) ?ids)"
    by (rule uuid_fresh_later) (simp_all add: assms(4,5))
  with uuid_fresh_now [OF old] assms(1,2,3) show ?thesis by (simp add: entry_ids_ok_def)
qed

lemma entry_numbers_ok_append:
  assumes ok: "entry_numbers_ok w" and tab: "t_entry w' = t_entry w @ [e]"
    and num: "je_number e = last_number w (je_company e) (''JE:'' @ je_period e) + 1"
    and last: "last_number w' (je_company e) (''JE:'' @ je_period e) = je_number e"
      "\<forall>c' ty'. (c', ty') \<noteq> (je_company e, ''JE:'' @ je_period e) \<longrightarrow> last_number w' c' ty' = last_number w c' ty'"
  shows "entry_numbers_ok w'"
proof -
  have old: "je_number x \<le> last_number w (je_company x) (''JE:'' @ je_period x)" if "x \<in> set (t_entry w)" for x
    using ok that by (simp add: entry_numbers_ok_def)
  have "entry_key e \<notin> set (map entry_key (t_entry w))"
  proof
    assume "entry_key e \<in> set (map entry_key (t_entry w))"
    then obtain x where x: "x \<in> set (t_entry w)" "entry_key e = entry_key x" by auto
    then have same: "je_company x = je_company e" "je_period x = je_period e" "je_number x = je_number e"
      by (simp_all add: entry_key_def)
    show False using old [OF x(1)] num unfolding same by simp
  qed
  moreover have "je_number x \<le> last_number w' (je_company x) (''JE:'' @ je_period x)" if "x \<in> set (t_entry w @ [e])" for x
  proof (cases "(je_company x, ''JE:'' @ je_period x) = (je_company e, ''JE:'' @ je_period e)")
    case True
    then have "x \<in> set (t_entry w) \<Longrightarrow> je_number x < je_number e" using old [of x] num by simp
    with True that last(1) show ?thesis by auto
  next
    case False
    then have "x \<in> set (t_entry w)" using that by auto
    with False last(2) old show ?thesis by auto
  qed
  ultimately show ?thesis using ok by (simp add: entry_numbers_ok_def tab)
qed

lemma mark_posted_run:
  assumes "t_entry w = t @ [e]" and "\<forall>x \<in> set t. je_id x \<noteq> je_id e"
  shows "mark_posted (je_id e) user w =
    (Inr (e\<lparr>je_postedBy := Some user, je_postedAt := Some (now w)\<rparr>),
     w\<lparr>t_entry := t @ [e\<lparr>je_postedBy := Some user, je_postedAt := Some (now w)\<rparr>]\<rparr>)"
proof -
  let ?f = "\<lambda>r. r\<lparr>je_postedBy := Some user, je_postedAt := Some (now w)\<rparr>"
  have "update_rows (\<lambda>r. je_id r = je_id e) ?f t = t"
    by (rule update_rows_none) (use assms(2) in simp)
  then have "update_rows (\<lambda>r. je_id r = je_id e) ?f (t @ [e]) = t @ [?f e]"
    by (simp add: update_rows_def)
  moreover have "find_first (\<lambda>r. je_id r = je_id e) t = None" using assms(2) by (simp add: find_first_None_iff)
  then have "find_first (\<lambda>r. je_id r = je_id e) (t @ [?f e]) = Some (?f e)" by (simp add: find_first_append)
  ultimately show ?thesis by (simp add: mark_posted_def assms(1))
qed

text \<open>
  A posting, run: what the validator accepts is posted, as one new entry with the next number, and
  every line moves the balance of its account.
\<close>

lemma execute_post_run:
  assumes bus: "ledger_bus bus" and acc: "distinct (map ac_id (t_account w))"
    and ids: "entry_ids_ok w" and nums: "entry_numbers_ok w" and bal: "balances_ok (t_balance w)"
    and post: "postable w (pi_company i) (pi_date i) (pi_period i) (pi_lines i)"
    and op: "unused_operation w (pi_company i) (pi_clientOp i)" and s4: "scale4_lines (pi_lines i)"
  shows "\<exists>r w' e. execute_post bus i w = (Inr r, w') \<and> t_entry w' = t_entry w @ [e] \<and> gp_id r = je_id e \<and>
    gp_number r = je_number e \<and> posted_row i (last_number w (pi_company i) (''JE:'' @ pi_period i) + 1) (now w) e \<and>
    t_period w' = t_period w \<and> t_account w' = t_account w \<and> entry_ids_ok w' \<and> entry_numbers_ok w' \<and> balances_ok (t_balance w') \<and>
    (\<forall>c a p. snap ab_periodDebit (t_balance w') c a p = snap ab_periodDebit (t_balance w) c a p +
        (if (c, p) = (pi_company i, pi_period i) then lines_on (\<lambda>l. amount_val (pl_debit l)) (pi_lines i) a else 0) \<and>
      snap ab_periodCredit (t_balance w') c a p = snap ab_periodCredit (t_balance w) c a p +
        (if (c, p) = (pi_company i, pi_period i) then lines_on (\<lambda>l. amount_val (pl_credit l)) (pi_lines i) a else 0)) \<and>
    uuid_gen w' = uuid_gen w \<and> uuid_next w \<le> uuid_next w'"
proof -
  let ?c = "pi_company i" and ?p = "pi_period i" and ?ls = "pi_lines i"
  let ?k = "''JE:'' @ pi_period i"
  define n where "n = last_number w ?c ?k + 1"
  have rd: "\<forall>l \<in> set ?ls. readable l" using post by (auto simp: postable_def nonzero_line_def)
  have v: "validate_posting ?c (pi_date i) ?p ?ls w = (Inr (debit_sum ?ls, credit_sum ?ls), w)"
    using validate_posting_Inr [OF acc, of ?c "pi_date i" ?p ?ls "debit_sum ?ls" "credit_sum ?ls" w] post by simp
  obtain t1 where seq: "get_next_entry_number ?c ?p w = (Inr n, w\<lparr>t_seq := t1\<rparr>)" and
    seq_last: "last_number (w\<lparr>t_seq := t1\<rparr>) ?c ?k = n"
      "\<forall>c' ty'. (c', ty') \<noteq> (?c, ?k) \<longrightarrow> last_number (w\<lparr>t_seq := t1\<rparr>) c' ty' = last_number w c' ty'"
    using next_number_run [of ?c ?k w] unfolding get_next_entry_number_def n_def by blast
  let ?w1 = "w\<lparr>t_seq := t1\<rparr>"
  let ?d = "\<lparr>ed_number = n, ed_date = pi_date i, ed_description = pi_description i, ed_status = Posted,
     ed_totalDebit = debit_sum ?ls, ed_totalCredit = credit_sum ?ls, ed_refType = pi_refType i,
     ed_refId = pi_refId i, ed_company = ?c, ed_period = ?p, ed_createdBy = pi_createdBy i,
     ed_clientOp = pi_clientOp i, ed_lines = ?ls\<rparr>"
  have "find_first (same_number ?d) (t_entry ?w1) = None"
    using nums by (fastforce simp: find_first_None_iff same_number_def entry_numbers_ok_def n_def)
  moreover have "find_first (same_operation ?d) (t_entry ?w1) = None"
    using op by (auto simp: find_first_None_iff same_operation_def unused_operation_def)
  moreover have "entry_ids_ok ?w1" using ids by (simp add: entry_ids_ok_def uuid_fresh_def)
  ultimately obtain e0 where made: "create_in_transaction ?d ?w1 =
      (Inr e0, ?w1\<lparr>uuid_next := Suc (uuid_next w) + length ?ls, t_entry := t_entry w @ [e0]\<rparr>)" and
    e0: "je_id e0 = uuid_gen w (uuid_next w)" "je_company e0 = ?c" "je_period e0 = ?p" "je_number e0 = n"
      "je_date e0 = pi_date i" "je_description e0 = pi_description i" "je_status e0 = Posted"
      "je_totalDebit e0 = round4 (debit_sum ?ls)" "je_totalCredit e0 = round4 (credit_sum ?ls)"
      "je_refType e0 = pi_refType i" "je_refId e0 = pi_refId i" "je_clientOp e0 = pi_clientOp i"
      "stored_lines ?ls (je_lines e0)"
    using create_in_transaction_run [of ?w1 ?d] rd by auto
  let ?w2 = "?w1\<lparr>uuid_next := Suc (uuid_next w) + length ?ls, t_entry := t_entry w @ [e0]\<rparr>"
  define e where "e = e0\<lparr>je_postedBy := Some (pi_createdBy i), je_postedAt := Some (now w)\<rparr>"
  have "uuid_gen w (uuid_next w) \<notin> je_id ` set (t_entry w)"
    using ids uuid_fresh_now [of w "set (map je_id (t_entry w))"] by (simp add: entry_ids_ok_def)
  then have new: "\<forall>x \<in> set (t_entry w). je_id x \<noteq> je_id e0" using e0(1) by (metis image_eqI)
  have mark: "mark_posted (je_id e0) (pi_createdBy i) ?w2 = (Inr e, ?w2\<lparr>t_entry := t_entry w @ [e]\<rparr>)"
    using mark_posted_run [of ?w2 "t_entry w" e0 "pi_createdBy i"] new by (simp add: e_def)
  let ?w3 = "?w2\<lparr>t_entry := t_entry w @ [e]\<rparr>"
  obtain t where upd: "update_account_balances ?c ?p (je_date e0) ?ls ?w3 = (Inr (), ?w3\<lparr>t_balance := t\<rparr>)" and
    t: "balances_ok t"
      "\<forall>c a p. snap ab_periodDebit t c a p = snap ab_periodDebit (t_balance w) c a p +
        (if (c, p) = (?c, ?p) then lines_on (\<lambda>l. amount_val (pl_debit l)) ?ls a else 0) \<and>
      snap ab_periodCredit t c a p = snap ab_periodCredit (t_balance w) c a p +
        (if (c, p) = (?c, ?p) then lines_on (\<lambda>l. amount_val (pl_credit l)) ?ls a else 0)"
    using update_account_balances_run [of ?w3 ?ls ?c ?p "je_date e0"] bal s4 rd by auto
  let ?w4 = "?w3\<lparr>t_balance := t\<rparr>"
  obtain w5 where aud: "post_audit ?c (pi_createdBy i) (je_id e0) n (debit_sum ?ls) (credit_sum ?ls) (length ?ls) ?w4 =
      (Inr (), w5)" and w5: "ledger_tables w5 = ledger_tables ?w4" "uuid_gen w5 = uuid_gen w"
      "uuid_next w5 = Suc (uuid_next w) + length ?ls"
    by (simp add: post_audit_def ledger_tables_def)
  obtain w6 where pub: "publish_posted bus i e0 n (debit_sum ?ls) (credit_sum ?ls) w5 = (Inr (), w6)" and
    w6: "ledger_tables w6 = ledger_tables w5" "uuid_gen w6 = uuid_gen w5" "uuid_next w5 \<le> uuid_next w6"
    using publish_posted_run [OF bus] by blast
  have run: "execute_post bus i w = (Inr \<lparr>gp_id = je_id e0, gp_number = je_number e, gp_status = je_status e,
      gp_totalDebit = je_totalDebit e, gp_totalCredit = je_totalCredit e\<rparr>, w6)"
    using v seq made mark upd aud pub by (simp add: execute_post_def)
  have tabs: "t_entry w6 = t_entry w @ [e]" "t_balance w6 = t" "t_seq w6 = t1" "t_period w6 = t_period w"
    "t_account w6 = t_account w"
    "uuid_gen w6 = uuid_gen w" "Suc (uuid_next w) \<le> uuid_next w6"
    using w5 w6 by (auto simp: ledger_tables_def)
  have last: "last_number w6 c' ty' = last_number ?w1 c' ty'" for c' ty'
    by (simp add: last_number_def tabs)
  have "posted_row i n (now w) e" using e0 by (simp add: posted_row_def e_def)
  moreover have "entry_ids_ok w6"
    by (rule entry_ids_ok_append [OF ids tabs(1)]) (simp_all add: tabs e_def e0)
  moreover have "entry_numbers_ok w6"
    by (rule entry_numbers_ok_append [OF nums tabs(1)]) (use seq_last in \<open>simp_all add: e_def e0 last n_def\<close>)
  ultimately show ?thesis using run tabs t e0 unfolding n_def by (auto simp: e_def)
qed

text \<open>A posting that succeeds was valid, and its operation identity unused.\<close>

lemma create_in_transaction_Inr:
  "create_in_transaction d w = (Inr e, w') \<Longrightarrow> find_first (same_operation d) (t_entry w) = None"
  by (auto simp: create_in_transaction_def bind_Inr_iff split: if_splits)

lemma execute_post_Inr:
  assumes acc: "distinct (map ac_id (t_account w))" and run: "execute_post bus i w = (Inr r, w')"
  shows "postable w (pi_company i) (pi_date i) (pi_period i) (pi_lines i)"
    and "unused_operation w (pi_company i) (pi_clientOp i)"
proof -
  from run obtain x y w1 where v: "validate_posting (pi_company i) (pi_date i) (pi_period i) (pi_lines i) w = (Inr (x, y), w1)"
    and rest: "(bind (get_next_entry_number (pi_company i) (pi_period i)) (\<lambda>n. bind (create_in_transaction
       \<lparr>ed_number = n, ed_date = pi_date i, ed_description = pi_description i,
        ed_status = Posted, ed_totalDebit = x, ed_totalCredit = y,
        ed_refType = pi_refType i, ed_refId = pi_refId i, ed_company = pi_company i,
        ed_period = pi_period i, ed_createdBy = pi_createdBy i,
        ed_clientOp = pi_clientOp i, ed_lines = pi_lines i\<rparr>) (\<lambda>_. ret ()))) w1 \<in> {(Inr (), w2) | w2. True}"
    unfolding execute_post_def by (auto simp: bind_Inr_iff split: prod.splits)
  have same: "postable w (pi_company i) (pi_date i) (pi_period i) (pi_lines i) \<and> w1 = w"
    using v validate_posting_Inr [OF acc, of "pi_company i" "pi_date i" "pi_period i" "pi_lines i" x y w1] by simp
  then show "postable w (pi_company i) (pi_date i) (pi_period i) (pi_lines i)" by simp
  have seq: "frame t_entry (get_next_entry_number (pi_company i) (pi_period i))"
    unfolding get_next_entry_number_def by (intro frame_intros) simp
  from rest same obtain n w2 e w3 where n: "get_next_entry_number (pi_company i) (pi_period i) w = (Inr n, w2)" and
    c: "create_in_transaction \<lparr>ed_number = n, ed_date = pi_date i, ed_description = pi_description i,
        ed_status = Posted, ed_totalDebit = x, ed_totalCredit = y,
        ed_refType = pi_refType i, ed_refId = pi_refId i, ed_company = pi_company i,
        ed_period = pi_period i, ed_createdBy = pi_createdBy i,
        ed_clientOp = pi_clientOp i, ed_lines = pi_lines i\<rparr> w2 = (Inr e, w3)"
    by (auto simp: bind_Inr_iff)
  have "t_entry w2 = t_entry w" using frameD [OF seq n] .
  with create_in_transaction_Inr [OF c] show "unused_operation w (pi_company i) (pi_clientOp i)"
    by (auto simp: find_first_None_iff same_operation_def unused_operation_def)
qed

end
