(* ===== verification/Journal.thy ===== *)
theory Journal
  imports Ledger
begin

text \<open>
  The accounting periods and the journal entries edited by hand:
  \<^verbatim>\<open>finance/repositories/financial-periods.repository.ts\<close>, \<^verbatim>\<open>finance/services/financial-periods.service.ts\<close>
  and \<^verbatim>\<open>finance/services/journal-entries.service.ts\<close> (create a draft, edit it, post it). The mappers
  copy the rows field by field; the operations return the rows.
\<close>

section \<open>Audit images\<close>

text \<open>What the audit log keeps of a row: its modelled columns, under the names of the schema.\<close>

definition period_status_name :: "period_status \<Rightarrow> string" where
  "period_status_name s = (case s of Open \<Rightarrow> ''OPEN'' | Closing \<Rightarrow> ''CLOSING'' | Closed \<Rightarrow> ''CLOSED'')"

definition entry_status_name :: "entry_status \<Rightarrow> string" where
  "entry_status_name s = (case s of Draft \<Rightarrow> ''DRAFT'' | Posted \<Rightarrow> ''POSTED'' | Reversed \<Rightarrow> ''REVERSED'')"

definition period_image :: "world \<Rightarrow> period_row \<Rightarrow> json" where
  "period_image w r = JObj
     [(''id'', JStr (fp_id r)), (''companyId'', JStr (fp_company r)), (''name'', JStr (fp_name r)),
      (''year'', jint (fp_year r)), (''month'', jint (fp_month r)), (''startDate'', JStr (iso_str w (fp_start r))),
      (''endDate'', JStr (iso_str w (fp_end r))), (''status'', JStr (period_status_name (fp_status r))),
      (''openedBy'', jopt JStr (fp_openedBy r)), (''closedBy'', jopt JStr (fp_closedBy r)),
      (''closedAt'', jopt (\<lambda>t. JStr (iso_str w t)) (fp_closedAt r)), (''notes'', jopt JStr (fp_notes r)),
      (''rowVersion'', jint (fp_version r))]"

definition line_image :: "world \<Rightarrow> line_row \<Rightarrow> json" where
  "line_image w l = JObj
     [(''id'', JStr (jl_id l)), (''accountId'', JStr (jl_account l)), (''debit'', JStr (dec_str w (jl_debit l))),
      (''credit'', JStr (dec_str w (jl_credit l))), (''description'', jopt JStr (jl_description l))]"

definition entry_image :: "world \<Rightarrow> entry_row \<Rightarrow> json" where
  "entry_image w r = JObj
     [(''id'', JStr (je_id r)), (''companyId'', JStr (je_company r)), (''financialPeriodId'', JStr (je_period r)),
      (''entryNumber'', jint (je_number r)), (''entryDate'', JStr (iso_str w (je_date r))),
      (''description'', jopt JStr (je_description r)), (''status'', JStr (entry_status_name (je_status r))),
      (''totalDebit'', JStr (dec_str w (je_totalDebit r))), (''totalCredit'', JStr (dec_str w (je_totalCredit r))),
      (''referenceType'', jopt JStr (je_refType r)), (''referenceId'', jopt JStr (je_refId r)),
      (''postedBy'', jopt JStr (je_postedBy r)), (''postedAt'', jopt (\<lambda>t. JStr (iso_str w t)) (je_postedAt r)),
      (''createdBy'', jopt JStr (je_createdBy r)), (''rowVersion'', jint (je_version r)),
      (''clientOperationId'', jopt JStr (je_clientOp r)), (''lines'', JArr (map (line_image w) (je_lines r)))]"

definition audit_period :: "string \<Rightarrow> string \<Rightarrow> string \<Rightarrow> string \<Rightarrow> period_row option \<Rightarrow> period_row \<Rightarrow> unit wtx" where
  "audit_period c user i action before after =
     bind (ask (\<lambda>w. (map_option (period_image w) before, period_image w after))) (\<lambda>(old, new).
     audit_log \<lparr>au_company = Some c, au_user = user, au_entity = ''FinancialPeriod'', au_entityId = i,
       au_action = action, au_before = old, au_after = Some new\<rparr>)"

definition audit_entry_row :: "string \<Rightarrow> string \<Rightarrow> string \<Rightarrow> string \<Rightarrow> entry_row option \<Rightarrow> entry_row \<Rightarrow> unit wtx" where
  "audit_entry_row c user i action before after =
     bind (ask (\<lambda>w. (map_option (entry_image w) before, entry_image w after))) (\<lambda>(old, new).
     audit_log \<lparr>au_company = Some c, au_user = user, au_entity = ''JournalEntry'', au_entityId = i,
       au_action = action, au_before = old, au_after = Some new\<rparr>)"

section \<open>Accounting periods\<close>

definition insert_period :: "period_row \<Rightarrow> period_row wtx" where
  "insert_period row =
     bind (ask t_period) (\<lambda>t.
     bind (require (find_first (period_is (fp_company row) (fp_year row) (fp_month row)) t = None)
             (UniqueViolation [''companyId'', ''year'', ''month''])) (\<lambda>_.
     bind (change (\<lambda>w. w\<lparr>t_period := t_period w @ [row]\<rparr>)) (\<lambda>_. ret row)))"

definition find_by_year_month :: "string \<Rightarrow> int \<Rightarrow> int \<Rightarrow> period_row option wtx" where
  "find_by_year_month c y m = ask (\<lambda>w. find_first (period_is c y m) (t_period w))"

definition update_period :: "string \<Rightarrow> (period_row \<Rightarrow> period_row) \<Rightarrow> string \<Rightarrow> int \<Rightarrow> period_row wtx" where
  "update_period i f c v =
     cas_write t_period t_period_update
       (\<lambda>r. fp_id r = i \<and> fp_company r = c \<and> fp_version r = v)
       (\<lambda>r. fp_id r = i \<and> fp_company r = c) (\<lambda>r. fp_id r = i)
       (bump_ver (\<lambda>r. r\<lparr>fp_version := fp_version r + 1\<rparr>) f)
       (NotFound ''Financial period not found'')
       (Conflict ''Financial period was modified by another user'')"

interpretation period_table: optimistic_table t_period fp_id fp_company fp_version
    "\<lambda>f. \<forall>r. fp_id (f r) = fp_id r \<and> fp_company (f r) = fp_company r \<and> fp_version (f r) = fp_version r"
    update_period
  unfolding update_period_def [abs_def] by (rule cas_optimistic_table) simp_all

record period_dto =
  pd_name :: string
  pd_year :: int
  pd_month :: int
  pd_start :: int
  pd_end :: int
  pd_notes :: "string option"

definition create_period :: "period_dto \<Rightarrow> string \<Rightarrow> string \<Rightarrow> period_row wtx" where
  "create_period dto c user =
     bind (find_by_year_month c (pd_year dto) (pd_month dto)) (\<lambda>existing.
     bind (require (existing = None) (Conflict ''Financial period already exists for this year/month'')) (\<lambda>_.
     transaction (
       bind fresh_uuid (\<lambda>u.
       bind (insert_period \<lparr>fp_id = u, fp_company = c, fp_name = pd_name dto, fp_year = pd_year dto,
          fp_month = pd_month dto, fp_start = pd_start dto, fp_end = pd_end dto, fp_status = Open,
          fp_openedBy = Some user, fp_closedBy = None, fp_closedAt = None, fp_notes = truthy (pd_notes dto),
          fp_version = 0\<rparr>) (\<lambda>result.
       bind (audit_period c user (fp_id result) ''CREATE'' None result) (\<lambda>_. ret result))))))"

definition get_period :: "string \<Rightarrow> string \<Rightarrow> period_row wtx" where
  "get_period i c = bind (find_period i c) (\<lambda>p. require_some p (NotFound ''Financial period not found''))"

text \<open>\<^verbatim>\<open>notes\<close> absent leaves them; \<^verbatim>\<open>Some\<close> writes them.\<close>

definition edit_period :: "string \<Rightarrow> string option \<Rightarrow> string \<Rightarrow> string \<Rightarrow> period_row wtx" where
  "edit_period i notes c user =
     bind (get_period i c) (\<lambda>before.
     transaction (
       bind (update_period i (\<lambda>r. case notes of None \<Rightarrow> r | Some n \<Rightarrow> r\<lparr>fp_notes := Some n\<rparr>) c (fp_version before)) (\<lambda>result.
       bind (audit_period c user i ''UPDATE'' (Some before) result) (\<lambda>_. ret result))))"

definition close_period :: "string \<Rightarrow> string \<Rightarrow> string \<Rightarrow> period_row wtx" where
  "close_period i c user =
     bind (get_period i c) (\<lambda>before.
     bind (require (fp_status before \<noteq> Closed) (BadRequest ''Period is already closed'')) (\<lambda>_.
     bind (require (fp_status before \<noteq> Closing) (BadRequest ''Period is already being closed'')) (\<lambda>_.
     bind (ask now) (\<lambda>clock.
     transaction (
       bind (update_period i (\<lambda>r. r\<lparr>fp_status := Closed, fp_closedAt := Some clock, fp_closedBy := Some user\<rparr>)
               c (fp_version before)) (\<lambda>result.
       bind (audit_period c user i ''CLOSE'' (Some before) result) (\<lambda>_. ret result)))))))"

section \<open>Journal entries\<close>

record draft_dto =
  dd_period :: string
  dd_date :: "int option"
  dd_description :: "string option"
  dd_refType :: "string option"
  dd_refId :: "string option"
  dd_lines :: "post_line list"

definition clean_line :: "post_line \<Rightarrow> post_line" where
  "clean_line l = l\<lparr>pl_description := truthy (pl_description l)\<rparr>"

definition create_entry :: "draft_dto \<Rightarrow> string \<Rightarrow> string \<Rightarrow> entry_row wtx" where
  "create_entry dto c user = transaction (
     bind (ask now) (\<lambda>clock.
     let entryDate = (case dd_date dto of Some d \<Rightarrow> d | None \<Rightarrow> clock) in
     bind (validate_accounts_belong_to_company (map pl_account (dd_lines dto)) c) (\<lambda>_.
     bind (validate_posting c entryDate (dd_period dto) (dd_lines dto)) (\<lambda>(totalDebit, totalCredit).
     bind (get_next_entry_number c (dd_period dto)) (\<lambda>entryNumber.
     bind (create_in_transaction
       \<lparr>ed_number = entryNumber, ed_date = entryDate, ed_description = truthy (dd_description dto),
        ed_status = Draft, ed_totalDebit = totalDebit, ed_totalCredit = totalCredit,
        ed_refType = truthy (dd_refType dto), ed_refId = truthy (dd_refId dto), ed_company = c,
        ed_period = dd_period dto, ed_createdBy = user, ed_clientOp = None,
        ed_lines = map clean_line (dd_lines dto)\<rparr>) (\<lambda>result.
     bind (audit_entry_row c user (je_id result) ''CREATE'' None result) (\<lambda>_.
     ret result)))))))"

definition get_entry :: "string \<Rightarrow> string \<Rightarrow> entry_row wtx" where
  "get_entry i c = bind (find_entry_by_id i c) (\<lambda>e. require_some e (NotFound ''Journal entry not found''))"

definition edit_entry :: "string \<Rightarrow> string option \<Rightarrow> string \<Rightarrow> string \<Rightarrow> entry_row wtx" where
  "edit_entry i description c user =
     bind (get_entry i c) (\<lambda>before.
     bind (require (je_status before = Draft) (BadRequest ''Only DRAFT entries can be updated'')) (\<lambda>_.
     transaction (
       bind (update_entry i (\<lambda>r. case description of None \<Rightarrow> r | Some d \<Rightarrow> r\<lparr>je_description := Some d\<rparr>)
               c (je_version before)) (\<lambda>result.
       bind (audit_entry_row c user i ''UPDATE'' (Some before) result) (\<lambda>_. ret result)))))"

text \<open>The persisted lines, read back as strings.\<close>

definition persisted_lines :: "entry_row \<Rightarrow> post_line list" where
  "persisted_lines e = map (\<lambda>l. \<lparr>pl_account = jl_account l, pl_debit = Amount (jl_debit l),
     pl_credit = Amount (jl_credit l), pl_description = None\<rparr>) (je_lines e)"

definition post_entry :: "string \<Rightarrow> string \<Rightarrow> string \<Rightarrow> entry_row wtx" where
  "post_entry i c user = transaction (
     bind (get_entry i c) (\<lambda>before.
     bind (require (je_status before = Draft) (BadRequest ''Only DRAFT entries can be posted'')) (\<lambda>_.
     bind (find_period (je_period before) c) (\<lambda>period.
     bind (require (case period of None \<Rightarrow> False | Some p \<Rightarrow> fp_status p = Open)
             (BadRequest ''Financial period is not open'')) (\<lambda>_.
     bind (validate_accounts_belong_to_company (map pl_account (persisted_lines before)) c) (\<lambda>_.
     bind (validate_posting c (je_date before) (je_period before) (persisted_lines before)) (\<lambda>_.
     bind (ask now) (\<lambda>clock.
     bind (update_entry i (\<lambda>r. r\<lparr>je_status := Posted, je_postedAt := Some clock, je_postedBy := Some user\<rparr>)
             c (je_version before)) (\<lambda>result.
     bind (update_account_balances c (je_period before) (je_date result) (persisted_lines result)) (\<lambda>_.
     bind (audit_entry_row c user i ''POST'' (Some before) result) (\<lambda>_.
     ret result)))))))))))"

end
