(* ===== verification/LedgerFlow.thy ===== *)
theory LedgerFlow
  imports Journal
begin

text \<open>
  The general ledger over time: the operations of \<open>Ledger\<close>, \<open>Journal\<close> and \<open>Calendar\<close> as one step
  relation, and what holds of every ledger they can produce. \<open>ledger_inv\<close> ties the balance snapshots
  to the entries; every step keeps it.
\<close>

section \<open>Accounts of the entries\<close>

definition entry_on :: "(line_row \<Rightarrow> decimal) \<Rightarrow> string \<Rightarrow> entry_row \<Rightarrow> decimal" where
  "entry_on f a e = (\<Sum>l\<leftarrow>je_lines e. if jl_account l = a then f l else 0)"

definition in_ledger :: "string \<Rightarrow> string \<Rightarrow> entry_row \<Rightarrow> bool" where
  "in_ledger c p e \<longleftrightarrow> je_company e = c \<and> je_period e = p \<and> je_status e \<noteq> Draft"

text \<open>What the posted and reversed entries of a period say of an account.\<close>

definition ledger_sum :: "(line_row \<Rightarrow> decimal) \<Rightarrow> entry_row list \<Rightarrow> string \<Rightarrow> string \<Rightarrow> string \<Rightarrow> decimal" where
  "ledger_sum f t c a p = (\<Sum>e\<leftarrow>t. if in_ledger c p e then entry_on f a e else 0)"

definition balanced_entry :: "entry_row \<Rightarrow> bool" where
  "balanced_entry e \<longleftrightarrow> (\<forall>l \<in> set (je_lines e). scale4 (jl_debit l) \<and> scale4 (jl_credit l)) \<and>
     (\<Sum>l\<leftarrow>je_lines e. jl_debit l) = (\<Sum>l\<leftarrow>je_lines e. jl_credit l)"

definition ledger_inv :: "world \<Rightarrow> bool" where
  "ledger_inv w \<longleftrightarrow> distinct (map ac_id (t_account w)) \<and> entry_ids_ok w \<and> entry_numbers_ok w \<and>
     balances_ok (t_balance w) \<and> (\<forall>e \<in> set (t_entry w). balanced_entry e) \<and>
     (\<forall>c a p. snap ab_periodDebit (t_balance w) c a p = ledger_sum jl_debit (t_entry w) c a p \<and>
        snap ab_periodCredit (t_balance w) c a p = ledger_sum jl_credit (t_entry w) c a p)"

lemma ledger_sum_append [simp]:
  "ledger_sum f (t @ [e]) c a p = ledger_sum f t c a p + (if in_ledger c p e then entry_on f a e else 0)"
  by (simp add: ledger_sum_def)

lemma zip_map_map_same: "zip (map f xs) (map g xs) = map (\<lambda>x. (f x, g x)) xs"
  by (induction xs) simp_all

lemma sum_list_zip_eq:
  assumes "map f xs = map f' ys" and "map g xs = map g' ys"
  shows "(\<Sum>x\<leftarrow>xs. F (f x) (g x)) = (\<Sum>y\<leftarrow>ys. F (f' y) (g' y))"
proof -
  have "(\<Sum>x\<leftarrow>xs. F (f x) (g x)) = (\<Sum>(u, v)\<leftarrow>zip (map f xs) (map g xs). F u v)"
    by (simp only: zip_map_map_same map_map comp_def case_prod_conv)
  also have "\<dots> = (\<Sum>(u, v)\<leftarrow>zip (map f' ys) (map g' ys). F u v)" by (simp only: assms)
  also have "\<dots> = (\<Sum>y\<leftarrow>ys. F (f' y) (g' y))"
    by (simp only: zip_map_map_same map_map comp_def case_prod_conv)
  finally show ?thesis .
qed

lemma stored_lines_exact:
  assumes "stored_lines ls rows" and "scale4_lines ls"
  shows "map jl_account rows = map pl_account ls"
    and "map jl_debit rows = map (\<lambda>l. amount_val (pl_debit l)) ls"
    and "map jl_credit rows = map (\<lambda>l. amount_val (pl_credit l)) ls"
  using assms by (simp_all add: stored_lines_def scale4_lines_def round4_id cong: map_cong)

lemma stored_lines_on:
  assumes "stored_lines ls (je_lines e)" and "scale4_lines ls"
  shows "entry_on jl_debit a e = lines_on (\<lambda>l. amount_val (pl_debit l)) ls a"
    and "entry_on jl_credit a e = lines_on (\<lambda>l. amount_val (pl_credit l)) ls a"
  unfolding entry_on_def lines_on_def
  using sum_list_zip_eq [OF stored_lines_exact(1,2) [OF assms], of "\<lambda>u v. if u = a then v else 0"]
    sum_list_zip_eq [OF stored_lines_exact(1,3) [OF assms], of "\<lambda>u v. if u = a then v else 0"]
  by simp_all

lemma stored_lines_balanced:
  assumes "stored_lines ls (je_lines e)" and "scale4_lines ls" and "debit_sum ls = credit_sum ls"
  shows "balanced_entry e"
proof -
  note D = stored_lines_exact [OF assms(1,2)]
  have "scale4 x" if "x \<in> set (map jl_debit (je_lines e)) \<union> set (map jl_credit (je_lines e))" for x
    using that assms(2) unfolding D by (auto simp: scale4_lines_def)
  then have "\<forall>l \<in> set (je_lines e). scale4 (jl_debit l) \<and> scale4 (jl_credit l)" by simp
  moreover have "sum_list (map jl_debit (je_lines e)) = sum_list (map jl_credit (je_lines e))"
    using assms(3) unfolding D debit_sum_def credit_sum_def .
  ultimately show ?thesis by (simp add: balanced_entry_def)
qed

section \<open>Posting keeps the ledger\<close>

lemma execute_post_keeps:
  assumes bus: "ledger_bus bus" and inv: "ledger_inv w" and s4: "scale4_lines (pi_lines i)"
    and run: "execute_post bus i w = (Inr r, w')"
  shows "ledger_inv w'"
    and "\<exists>e. t_entry w' = t_entry w @ [e] \<and> gp_id r = je_id e \<and>
      posted_row i (last_number w (pi_company i) (''JE:'' @ pi_period i) + 1) (now w) e"
    and "postable w (pi_company i) (pi_date i) (pi_period i) (pi_lines i)"
    and "t_period w' = t_period w \<and> uuid_gen w' = uuid_gen w \<and> uuid_next w \<le> uuid_next w'"
proof -
  have I: "distinct (map ac_id (t_account w))" "entry_ids_ok w" "entry_numbers_ok w" "balances_ok (t_balance w)"
    "\<forall>e \<in> set (t_entry w). balanced_entry e"
    "\<And>c a p. snap ab_periodDebit (t_balance w) c a p = ledger_sum jl_debit (t_entry w) c a p \<and>
        snap ab_periodCredit (t_balance w) c a p = ledger_sum jl_credit (t_entry w) c a p"
    using inv by (simp_all add: ledger_inv_def)
  note P = execute_post_Inr [OF I(1) run]
  obtain e where E: "t_entry w' = t_entry w @ [e]" "gp_id r = je_id e"
    "posted_row i (last_number w (pi_company i) (''JE:'' @ pi_period i) + 1) (now w) e"
    "t_period w' = t_period w" "t_account w' = t_account w" "entry_ids_ok w'" "entry_numbers_ok w'"
    "balances_ok (t_balance w')"
    and S: "\<And>c a p. snap ab_periodDebit (t_balance w') c a p = snap ab_periodDebit (t_balance w) c a p +
        (if (c, p) = (pi_company i, pi_period i) then lines_on (\<lambda>l. amount_val (pl_debit l)) (pi_lines i) a else 0) \<and>
      snap ab_periodCredit (t_balance w') c a p = snap ab_periodCredit (t_balance w) c a p +
        (if (c, p) = (pi_company i, pi_period i) then lines_on (\<lambda>l. amount_val (pl_credit l)) (pi_lines i) a else 0)"
    and U: "uuid_gen w' = uuid_gen w" "uuid_next w \<le> uuid_next w'"
    using execute_post_run [OF bus I(1-4) P s4] run by auto
  show "\<exists>e. t_entry w' = t_entry w @ [e] \<and> gp_id r = je_id e \<and>
      posted_row i (last_number w (pi_company i) (''JE:'' @ pi_period i) + 1) (now w) e"
    using E by blast
  show "postable w (pi_company i) (pi_date i) (pi_period i) (pi_lines i)" by (rule P(1))
  show "t_period w' = t_period w \<and> uuid_gen w' = uuid_gen w \<and> uuid_next w \<le> uuid_next w'" using E U by simp
  have st: "stored_lines (pi_lines i) (je_lines e)" "je_company e = pi_company i" "je_period e = pi_period i"
    "je_status e = Posted"
    using E(3) by (simp_all add: posted_row_def)
  have "balanced_entry e" using stored_lines_balanced [OF st(1) s4] P(1) by (simp add: postable_def)
  moreover have "in_ledger c p e \<longleftrightarrow> (c, p) = (pi_company i, pi_period i)" for c p
    using st by (auto simp: in_ledger_def)
  ultimately show "ledger_inv w'"
    using E I S stored_lines_on [OF st(1) s4] by (simp add: ledger_inv_def)
qed

section \<open>Rewriting entries\<close>

text \<open>Rewriting entries without touching what the ledger is made of.\<close>

lemma sum_list_all_0:
  fixes f :: "'r \<Rightarrow> decimal"
  shows "(\<And>x. x \<in> set xs \<Longrightarrow> f x = 0) \<Longrightarrow> (\<Sum>x\<leftarrow>xs. f x) = 0"
  by (induction xs) simp_all

lemma ledger_sum_update_rows:
  "ledger_sum f (update_rows p g t) c a q = ledger_sum f t c a q +
     (\<Sum>e\<leftarrow>filter p t. (if in_ledger c q (g e) then entry_on f a (g e) else 0) -
        (if in_ledger c q e then entry_on f a e else 0))"
  unfolding ledger_sum_def by (rule sum_list_update_rows)

definition same_entry :: "entry_row \<Rightarrow> entry_row \<Rightarrow> bool" where
  "same_entry e e' \<longleftrightarrow> je_id e' = je_id e \<and> je_company e' = je_company e \<and> je_period e' = je_period e \<and>
     je_number e' = je_number e \<and> je_lines e' = je_lines e"

lemma entry_rows_kept:
  assumes "entry_ids_ok w" "entry_numbers_ok w" "\<forall>e \<in> set (t_entry w). balanced_entry e"
    and "t_entry w' = update_rows p g (t_entry w)" and "\<And>e. same_entry e (g e)"
    and "t_seq w' = t_seq w" and "uuid_gen w' = uuid_gen w" and "uuid_next w \<le> uuid_next w'"
  shows "entry_ids_ok w' \<and> entry_numbers_ok w' \<and> (\<forall>e \<in> set (t_entry w'). balanced_entry e)"
proof -
  have g: "je_id (g e) = je_id e" "entry_key (g e) = entry_key e" "balanced_entry (g e) = balanced_entry e"
    "je_company (g e) = je_company e" "je_period (g e) = je_period e" "je_number (g e) = je_number e" for e
    using assms(5) [of e] by (simp_all add: same_entry_def entry_key_def balanced_entry_def)
  have ids: "map je_id (t_entry w') = map je_id (t_entry w)"
    unfolding assms(4) by (rule map_update_rows) (rule g)
  have keys: "map entry_key (t_entry w') = map entry_key (t_entry w)"
    unfolding assms(4) by (rule map_update_rows) (rule g)
  have "entry_ids_ok w'"
    using assms(1) uuid_fresh_later [OF _ assms(7,8)] ids unfolding entry_ids_ok_def by simp
  moreover have "last_number w' c ty = last_number w c ty" for c ty
    by (simp add: last_number_def assms(6))
  then have "entry_numbers_ok w'"
    using assms(2) keys unfolding entry_numbers_ok_def by (auto simp: assms(4) set_update_rows g)
  moreover have "\<forall>e \<in> set (t_entry w'). balanced_entry e"
    using assms(3) by (auto simp: assms(4) set_update_rows g)
  ultimately show ?thesis by simp
qed

lemma ledger_inv_rewrite:
  assumes inv: "ledger_inv w" and tab: "t_entry w' = update_rows p g (t_entry w)" and g: "\<And>e. same_entry e (g e)"
    and live: "\<And>e. e \<in> set (t_entry w) \<Longrightarrow> p e \<Longrightarrow> je_status (g e) = Draft \<longleftrightarrow> je_status e = Draft"
    and rest: "t_seq w' = t_seq w" "t_balance w' = t_balance w" "distinct (map ac_id (t_account w'))"
      "uuid_gen w' = uuid_gen w" "uuid_next w \<le> uuid_next w'"
  shows "ledger_inv w'"
proof -
  have "ledger_sum f (t_entry w') c a q = ledger_sum f (t_entry w) c a q" for f c a q
  proof -
    have "(if in_ledger c q (g e) then entry_on f a (g e) else 0) - (if in_ledger c q e then entry_on f a e else 0) = 0"
      if "e \<in> set (filter p (t_entry w))" for e
      using live [of e] g [of e] that by (simp add: in_ledger_def entry_on_def same_entry_def)
    then show ?thesis unfolding tab ledger_sum_update_rows by (simp only: sum_list_all_0 add_0_right)
  qed
  moreover have "entry_ids_ok w' \<and> entry_numbers_ok w' \<and> (\<forall>e \<in> set (t_entry w'). balanced_entry e)"
    using inv by (intro entry_rows_kept [OF _ _ _ tab g rest(1,4,5)]) (simp_all add: ledger_inv_def)
  ultimately show ?thesis using inv rest by (simp add: ledger_inv_def)
qed

lemma ledger_inv_cong:
  assumes "ledger_inv w" and "t_entry w' = t_entry w" "t_seq w' = t_seq w" "t_balance w' = t_balance w"
    "distinct (map ac_id (t_account w'))" "uuid_gen w' = uuid_gen w" "uuid_next w \<le> uuid_next w'"
  shows "ledger_inv w'"
  by (rule ledger_inv_rewrite [OF assms(1), where p = "\<lambda>_. False" and g = id])
     (use assms in \<open>simp_all add: update_rows_none same_entry_def\<close>)


section \<open>Reversing an entry\<close>

text \<open>The posting a reversal makes.\<close>

definition reversal_input :: "world \<Rightarrow> entry_row \<Rightarrow> string \<Rightarrow> string \<Rightarrow> string option \<Rightarrow> post_input" where
  "reversal_input w e c user reason = (let number = num_str w (of_int (je_number e)) in
     \<lparr>pi_company = c, pi_period = je_period e, pi_date = now w,
      pi_description = Some (''Reversal of entry #'' @ number @ '': '' @
        (case truthy reason of Some s \<Rightarrow> s | None \<Rightarrow> ''manual reversal'')),
      pi_refType = Some ''REVERSAL'', pi_refId = Some (je_id e), pi_createdBy = user, pi_clientOp = None,
      pi_lines = reversal_lines e
        (case truthy reason of Some s \<Rightarrow> s | None \<Rightarrow> ''Reversal of entry #'' @ number)\<rparr>)"

definition claim :: "string \<Rightarrow> string \<Rightarrow> world \<Rightarrow> world" where
  "claim i c w = w\<lparr>t_entry := update_rows (\<lambda>r. je_id r = i \<and> je_company r = c \<and> je_status r = Posted)
     (\<lambda>r. r\<lparr>je_status := Reversed, je_version := je_version r + 1\<rparr>) (t_entry w)\<rparr>"

lemma reversal_input_sel [simp]:
  "pi_company (reversal_input w e c user reason) = c" "pi_period (reversal_input w e c user reason) = je_period e"
  "pi_date (reversal_input w e c user reason) = now w" "pi_clientOp (reversal_input w e c user reason) = None"
  "pi_refType (reversal_input w e c user reason) = Some ''REVERSAL''"
  "pi_refId (reversal_input w e c user reason) = Some (je_id e)"
  "\<exists>d. pi_lines (reversal_input w e c user reason) = reversal_lines e d"
  by (auto simp: reversal_input_def Let_def)

lemma reverse_entry_Inr:
  assumes "reverse_entry bus i c user reason w = (Inr y, w')"
  shows "\<exists>e r w2 a. find_first (\<lambda>r. je_id r = i \<and> je_company r = c) (t_entry w) = Some e \<and>
    je_refType e \<noteq> Some ''REVERSAL'' \<and>
    (\<exists>x \<in> set (t_entry w). je_id x = i \<and> je_company x = c \<and> je_status x = Posted) \<and>
    execute_post bus (reversal_input w e c user reason) (claim i c w) = (Inr r, w2) \<and>
    w' = w2\<lparr>t_audit := a\<rparr> \<and> y = (i, gp_id r)"
proof -
  have "\<exists>e r w2. find_first (\<lambda>r. je_id r = i \<and> je_company r = c) (t_entry w) = Some e \<and>
    je_refType e \<noteq> Some ''REVERSAL'' \<and>
    count_rows (\<lambda>r. je_id r = i \<and> je_company r = c \<and> je_status r = Posted) (t_entry w) \<noteq> 0 \<and>
    execute_post bus (reversal_input w e c user reason) (claim i c w) = (Inr r, w2) \<and>
    (\<exists>a. w' = w2\<lparr>t_audit := a\<rparr>) \<and> y = (i, gp_id r)"
    using assms unfolding reverse_entry_def transaction_Inr_iff find_entry_by_id_def Let_def
      bind_Inr_iff require_Inr_iff require_some_Inr_iff ask_run
    apply clarsimp
    subgoal for e r w2
      using find_first_SomeD [of "\<lambda>r. je_id r = i \<and> je_company r = c" "t_entry w" e]
      by (auto simp: reversal_input_def claim_def Let_def cong: option.case_cong)
    done
  then show ?thesis by (auto simp: count_rows_0_iff)
qed

lemma claim_keeps: "ledger_inv w \<Longrightarrow> ledger_inv (claim i c w)"
  by (rule ledger_inv_rewrite [where p = "\<lambda>r. je_id r = i \<and> je_company r = c \<and> je_status r = Posted" and
        g = "\<lambda>r. r\<lparr>je_status := Reversed, je_version := je_version r + 1\<rparr>" and w = w])
     (simp_all add: claim_def same_entry_def ledger_inv_def)

lemma reversal_lines_scale4: "balanced_entry e \<Longrightarrow> scale4_lines (reversal_lines e d)"
  by (auto simp: balanced_entry_def scale4_lines_def reversal_lines_def)

lemma reverse_entry_keeps:
  assumes bus: "ledger_bus bus" and inv: "ledger_inv w" and run: "reverse_entry bus i c user reason w = (Inr y, w')"
  shows "ledger_inv w'"
proof -
  obtain e r w2 a where R: "find_first (\<lambda>r. je_id r = i \<and> je_company r = c) (t_entry w) = Some e"
    "execute_post bus (reversal_input w e c user reason) (claim i c w) = (Inr r, w2)" "w' = w2\<lparr>t_audit := a\<rparr>"
    using reverse_entry_Inr [OF run] by blast
  have "balanced_entry e" using inv find_first_SomeD [OF R(1)] by (simp add: ledger_inv_def)
  then have "scale4_lines (pi_lines (reversal_input w e c user reason))"
    using reversal_input_sel(7) [of w e c user reason] reversal_lines_scale4 by metis
  then have "ledger_inv w2"
    by (rule execute_post_keeps(1) [OF bus claim_keeps [OF inv] _ R(2)])
  then show ?thesis by (rule ledger_inv_cong) (use \<open>ledger_inv w2\<close> in \<open>simp_all add: R(3) ledger_inv_def\<close>)
qed

section \<open>Drafts\<close>

lemma validate_accounts_same:
  "validate_accounts_belong_to_company is c w = (r, w') \<Longrightarrow> w' = w"
  by (auto simp: validate_accounts_belong_to_company_def live_accounts_among_def Let_def bind_def split: if_splits)

lemma audit_entry_row_run: "\<exists>a. audit_entry_row c user i action before after w = (Inr (), w\<lparr>t_audit := a\<rparr>)"
  by (auto simp: audit_entry_row_def)

lemma clean_line_sel [simp]:
  "pl_account (clean_line l) = pl_account l" "pl_debit (clean_line l) = pl_debit l" "pl_credit (clean_line l) = pl_credit l"
  by (simp_all add: clean_line_def)

lemma clean_lines [simp]:
  "scale4_lines (map clean_line ls) = scale4_lines ls" "debit_sum (map clean_line ls) = debit_sum ls"
  "credit_sum (map clean_line ls) = credit_sum ls"
  by (simp_all add: scale4_lines_def debit_sum_def credit_sum_def comp_def)

lemma create_entry_keeps:
  assumes inv: "ledger_inv w" and s4: "scale4_lines (dd_lines dto)" and run: "create_entry dto c user w = (Inr y, w')"
  shows "ledger_inv w' \<and> (\<exists>e. t_entry w' = t_entry w @ [e] \<and> je_status e = Draft) \<and>
    t_balance w' = t_balance w \<and> t_period w' = t_period w"
proof -
  have I: "distinct (map ac_id (t_account w))" "entry_ids_ok w" "entry_numbers_ok w" "balances_ok (t_balance w)"
    "\<forall>e \<in> set (t_entry w). balanced_entry e"
    using inv by (simp_all add: ledger_inv_def)
  define d where "d = (case dd_date dto of Some d \<Rightarrow> d | None \<Rightarrow> now w)"
  let ?k = "''JE:'' @ dd_period dto"
  from run obtain w0 w1 dr cr n w2 w3 where acct: "validate_accounts_belong_to_company (map pl_account (dd_lines dto)) c w = (Inr (), w0)" and
    val: "validate_posting c d (dd_period dto) (dd_lines dto) w0 = (Inr (dr, cr), w1)" and
    num: "get_next_entry_number c (dd_period dto) w1 = (Inr n, w2)" and
    made: "create_in_transaction
       \<lparr>ed_number = n, ed_date = d, ed_description = truthy (dd_description dto),
        ed_status = Draft, ed_totalDebit = dr, ed_totalCredit = cr,
        ed_refType = truthy (dd_refType dto), ed_refId = truthy (dd_refId dto), ed_company = c,
        ed_period = dd_period dto, ed_createdBy = user, ed_clientOp = None,
        ed_lines = map clean_line (dd_lines dto)\<rparr> w2 = (Inr y, w3)" and
    aud: "audit_entry_row c user (je_id y) ''CREATE'' None y w3 = (Inr (), w')"
    unfolding create_entry_def transaction_Inr_iff Let_def bind_Inr_iff ask_run d_def
    by (auto simp: bind_Inr_iff)
  have "w0 = w" and "w1 = w0" using validate_accounts_same [OF acct] validate_posting_same [OF val] by simp_all
  with val num have v: "validate_posting c d (dd_period dto) (dd_lines dto) w = (Inr (dr, cr), w)" and
    seq: "get_next_entry_number c (dd_period dto) w = (Inr n, w2)" by simp_all
  have post: "postable w c d (dd_period dto) (dd_lines dto)"
    using v validate_posting_Inr [OF I(1), of c d "dd_period dto" "dd_lines dto" dr cr w] by simp
  have n: "n = last_number w c ?k + 1" and w2: "\<exists>t1. w2 = w\<lparr>t_seq := t1\<rparr>" and
    last: "last_number w2 c ?k = n" "\<forall>c' ty'. (c', ty') \<noteq> (c, ?k) \<longrightarrow> last_number w2 c' ty' = last_number w c' ty'"
    using next_number_run [of c ?k w] seq unfolding get_next_entry_number_def by auto
  have rd: "\<forall>l \<in> set (map clean_line (dd_lines dto)). readable l"
    using post by (auto simp: postable_def nonzero_line_def readable_def)
  have ids2: "entry_ids_ok w2" using I(2) w2 by (auto simp: entry_ids_ok_def uuid_fresh_def)
  have free: "find_first (same_number dd) (t_entry w2) = None \<and> find_first (same_operation dd) (t_entry w2) = None"
    if "create_in_transaction dd w2 = (Inr y, w3)" for dd
    using that by (auto simp: create_in_transaction_def bind_Inr_iff split: if_splits)
  obtain e where E: "w3 = w2\<lparr>uuid_next := Suc (uuid_next w2) + length (dd_lines dto), t_entry := t_entry w2 @ [e]\<rparr>"
    "je_id e = uuid_gen w2 (uuid_next w2)" "je_company e = c" "je_period e = dd_period dto" "je_number e = n"
    "je_status e = Draft" "stored_lines (map clean_line (dd_lines dto)) (je_lines e)"
    using create_in_transaction_run [OF ids2, of "\<lparr>ed_number = n, ed_date = d, ed_description = truthy (dd_description dto),
        ed_status = Draft, ed_totalDebit = dr, ed_totalCredit = cr,
        ed_refType = truthy (dd_refType dto), ed_refId = truthy (dd_refId dto), ed_company = c,
        ed_period = dd_period dto, ed_createdBy = user, ed_clientOp = None,
        ed_lines = map clean_line (dd_lines dto)\<rparr>"] rd free [OF made] made by auto
  obtain a where w': "w' = w3\<lparr>t_audit := a\<rparr>" using aud audit_entry_row_run [of c user "je_id y" "''CREATE''" None y w3] by auto
  have tabs: "t_entry w' = t_entry w @ [e]" "t_balance w' = t_balance w" "t_account w' = t_account w"
    "t_seq w' = t_seq w2" "t_period w' = t_period w" "uuid_gen w' = uuid_gen w" "Suc (uuid_next w) \<le> uuid_next w'"
    "uuid_next w2 = uuid_next w" "uuid_gen w2 = uuid_gen w"
    using w2 E(1) w' by auto
  have "entry_ids_ok w'"
    by (rule entry_ids_ok_append [OF I(2) tabs(1)]) (use E tabs in simp_all)
  moreover have "last_number w' c' ty' = last_number w2 c' ty'" for c' ty' by (simp add: last_number_def tabs)
  then have "entry_numbers_ok w'"
    by (intro entry_numbers_ok_append [OF I(3) tabs(1)]) (use E last n in simp_all)
  moreover have "balanced_entry e"
    using stored_lines_balanced [OF E(7)] s4 post by (simp add: postable_def)
  ultimately have "ledger_inv w'"
    using inv E(6) by (simp add: ledger_inv_def tabs in_ledger_def)
  with tabs E(6) show ?thesis by blast
qed


lemma find_first_filter: "filter p t = x # xs \<Longrightarrow> find_first p t = Some x"
  by (induction t) (auto split: if_splits)

lemma update_entry_run:
  assumes ids: "distinct (map je_id (t_entry w))" and e: "e \<in> set (t_entry w)" "je_id e = i" "je_company e = c"
    and f: "\<And>r. je_id (f r) = je_id r"
    and run: "update_entry i f c (je_version e) w = (Inr y, w')"
  defines "hit \<equiv> \<lambda>r. je_id r = i \<and> je_company r = c \<and> je_version r = je_version e"
    and "g \<equiv> bump_ver (\<lambda>r. r\<lparr>je_version := je_version r + 1\<rparr>) f"
  shows "w' = w\<lparr>t_entry := update_rows hit g (t_entry w)\<rparr>" and "y = g e" and "filter hit (t_entry w) = [e]"
proof -
  note C = cas_write_Inr [OF run [unfolded update_entry_def]]
  show w': "w' = w\<lparr>t_entry := update_rows hit g (t_entry w)\<rparr>" using C by (simp add: hit_def g_def)
  have only: "filter (\<lambda>r. je_id r = i) (t_entry w) = [e]" using filter_key [OF ids e(1)] e(2) by simp
  have "filter hit (t_entry w) = filter (\<lambda>r. je_company r = c \<and> je_version r = je_version e) (filter (\<lambda>r. je_id r = i) (t_entry w))"
    by (simp add: hit_def conj_ac)
  then show "filter hit (t_entry w) = [e]" using only e(3) by simp
  have id_g: "je_id (g r) = je_id r" for r by (simp add: g_def bump_ver_def f)
  have "find_first (\<lambda>r. je_id r = i) (t_entry w) = Some e"
    by (rule find_first_filter [OF only])
  moreover have "find_first (\<lambda>r. je_id r = i) (update_rows hit g (t_entry w)) = Some y" using C w' by simp
  ultimately show "y = g e"
    using e by (simp add: find_first_update_rows id_g hit_def)
qed

lemma persisted_lines_on:
  "lines_on (\<lambda>l. amount_val (pl_debit l)) (persisted_lines e) a = entry_on jl_debit a e"
  "lines_on (\<lambda>l. amount_val (pl_credit l)) (persisted_lines e) a = entry_on jl_credit a e"
  by (simp_all add: lines_on_def persisted_lines_def entry_on_def comp_def cong: if_cong)

lemma persisted_lines_ok: "balanced_entry e \<Longrightarrow> scale4_lines (persisted_lines e) \<and> (\<forall>l \<in> set (persisted_lines e). readable l)"
  by (auto simp: balanced_entry_def scale4_lines_def persisted_lines_def readable_def)

text \<open>A draft that is posted, taken apart.\<close>

lemma post_entry_Inr:
  assumes "post_entry i c user w = (Inr y, w')"
  shows "\<exists>e w1 w2 a dr cr. find_first (\<lambda>r. je_id r = i \<and> je_company r = c) (t_entry w) = Some e \<and> je_status e = Draft \<and>
    validate_posting c (je_date e) (je_period e) (persisted_lines e) w = (Inr (dr, cr), w) \<and>
    update_entry i (\<lambda>r. r\<lparr>je_status := Posted, je_postedAt := Some (now w), je_postedBy := Some user\<rparr>)
      c (je_version e) w = (Inr y, w1) \<and>
    update_account_balances c (je_period e) (je_date y) (persisted_lines y) w1 = (Inr (), w2) \<and>
    w' = w2\<lparr>t_audit := a\<rparr>"
proof -
  from assms obtain e w0 w0' w1 w2 x where
    e: "find_first (\<lambda>r. je_id r = i \<and> je_company r = c) (t_entry w) = Some e" "je_status e = Draft" and
    acct: "validate_accounts_belong_to_company (map pl_account (persisted_lines e)) c w = (Inr (), w0)" and
    val: "validate_posting c (je_date e) (je_period e) (persisted_lines e) w0 = (Inr x, w0')" and
    upd: "update_entry i (\<lambda>r. r\<lparr>je_status := Posted, je_postedAt := Some (now w0'), je_postedBy := Some user\<rparr>)
      c (je_version e) w0' = (Inr y, w1)" and
    bal: "update_account_balances c (je_period e) (je_date y) (persisted_lines y) w1 = (Inr (), w2)" and
    aud: "audit_entry_row c user i ''POST'' (Some e) y w2 = (Inr (), w')"
    unfolding post_entry_def transaction_Inr_iff get_entry_def find_entry_by_id_def find_period_def
      bind_Inr_iff require_Inr_iff require_some_Inr_iff ask_run by auto
  have same: "w0 = w" "w0' = w" using validate_accounts_same [OF acct] validate_posting_same [OF val] by simp_all
  obtain a where "w' = w2\<lparr>t_audit := a\<rparr>" using aud audit_entry_row_run [of c user i "''POST''" "Some e" y w2] by auto
  with e val upd bal same show ?thesis by (cases x) blast
qed

lemma post_entry_keeps:
  assumes inv: "ledger_inv w" and run: "post_entry i c user w = (Inr y, w')"
  shows "ledger_inv w'" and "t_period w' = t_period w"
    and "\<exists>e. find_first (\<lambda>r. je_id r = i \<and> je_company r = c) (t_entry w) = Some e \<and> je_status e = Draft \<and>
      postable w c (je_date e) (je_period e) (persisted_lines e) \<and>
      t_entry w' = update_rows (\<lambda>r. je_id r = i \<and> je_company r = c \<and> je_version r = je_version e)
        (\<lambda>r. r\<lparr>je_status := Posted, je_postedAt := Some (now w), je_postedBy := Some user, je_version := je_version r + 1\<rparr>)
        (t_entry w)"
proof -
  have I: "distinct (map ac_id (t_account w))" "entry_ids_ok w" "entry_numbers_ok w" "balances_ok (t_balance w)"
    "\<forall>e \<in> set (t_entry w). balanced_entry e"
    using inv by (simp_all add: ledger_inv_def)
  obtain e w1 w2 a dr cr where R: "find_first (\<lambda>r. je_id r = i \<and> je_company r = c) (t_entry w) = Some e" "je_status e = Draft"
    "validate_posting c (je_date e) (je_period e) (persisted_lines e) w = (Inr (dr, cr), w)"
    "update_entry i (\<lambda>r. r\<lparr>je_status := Posted, je_postedAt := Some (now w), je_postedBy := Some user\<rparr>)
      c (je_version e) w = (Inr y, w1)"
    "update_account_balances c (je_period e) (je_date y) (persisted_lines y) w1 = (Inr (), w2)" "w' = w2\<lparr>t_audit := a\<rparr>"
    using post_entry_Inr [OF run] by blast
  have e: "e \<in> set (t_entry w)" "je_id e = i" "je_company e = c" using find_first_SomeD [OF R(1)] by simp_all
  let ?hit = "\<lambda>r. je_id r = i \<and> je_company r = c \<and> je_version r = je_version e"
  let ?g = "\<lambda>r. r\<lparr>je_status := Posted, je_postedAt := Some (now w), je_postedBy := Some user, je_version := je_version r + 1\<rparr>"
  have g: "bump_ver (\<lambda>r. r\<lparr>je_version := je_version r + 1\<rparr>)
      (\<lambda>r. r\<lparr>je_status := Posted, je_postedAt := Some (now w), je_postedBy := Some user\<rparr>) = ?g"
    by (rule ext) (simp add: bump_ver_def)
  have "distinct (map je_id (t_entry w))" using I(2) by (simp add: entry_ids_ok_def)
  from update_entry_run [OF this e _ R(4)]
  have w1: "w1 = w\<lparr>t_entry := update_rows ?hit ?g (t_entry w)\<rparr>" and y: "y = ?g e" and only: "filter ?hit (t_entry w) = [e]"
    unfolding g by simp_all
  have be: "balanced_entry e" using I(5) e(1) by blast
  then have p: "scale4_lines (persisted_lines y)" "\<forall>l \<in> set (persisted_lines y). readable l"
    using persisted_lines_ok [of y] by (auto simp: y balanced_entry_def)
  obtain t where t: "w2 = w1\<lparr>t_balance := t\<rparr>" "balances_ok t"
    "\<And>c' a p'. snap ab_periodDebit t c' a p' = snap ab_periodDebit (t_balance w) c' a p' +
        (if (c', p') = (c, je_period e) then entry_on jl_debit a e else 0) \<and>
      snap ab_periodCredit t c' a p' = snap ab_periodCredit (t_balance w) c' a p' +
        (if (c', p') = (c, je_period e) then entry_on jl_credit a e else 0)"
    using update_account_balances_run [of w1 "persisted_lines y" c "je_period e" "je_date y"] R(5) p I(4)
    by (auto simp: w1 y persisted_lines_on entry_on_def cong: if_cong)
  have "ledger_sum f (update_rows ?hit ?g (t_entry w)) c' a p' = ledger_sum f (t_entry w) c' a p' +
      (if (c', p') = (c, je_period e) then entry_on f a e else 0)" for f c' a p'
    unfolding ledger_sum_update_rows only using e R(2) by (simp add: in_ledger_def entry_on_def)
  moreover have "entry_ids_ok w' \<and> entry_numbers_ok w' \<and> (\<forall>e \<in> set (t_entry w'). balanced_entry e)"
    by (rule entry_rows_kept [OF I(2,3,5), where p = ?hit and g = ?g]) (simp_all add: R(6) t(1) w1 same_entry_def)
  ultimately show "ledger_inv w'"
    using inv t(2,3) by (simp add: ledger_inv_def R(6) t(1) w1)
  show "t_period w' = t_period w" by (simp add: R(6) t(1) w1)
  show "\<exists>e. find_first (\<lambda>r. je_id r = i \<and> je_company r = c) (t_entry w) = Some e \<and> je_status e = Draft \<and>
      postable w c (je_date e) (je_period e) (persisted_lines e) \<and>
      t_entry w' = update_rows (\<lambda>r. je_id r = i \<and> je_company r = c \<and> je_version r = je_version e) ?g (t_entry w)"
    using R(1-3) validate_posting_Inr [OF I(1)] by (auto simp: R(6) t(1) w1)
qed


section \<open>Trial balance\<close>

definition trial :: "(balance_row \<Rightarrow> decimal) \<Rightarrow> balance_row list \<Rightarrow> string \<Rightarrow> string \<Rightarrow> decimal" where
  "trial f t c p = (\<Sum>r\<leftarrow>t. if ab_company r = c \<and> ab_period r = p then f r else 0)"

lemma trial_by_account:
  assumes "distinct (map balance_key t)" and "finite A" and "ab_account ` set t \<subseteq> A"
  shows "trial f t c p = (\<Sum>a\<in>A. snap f t c a p)"
  using assms(1,3)
proof (induction t)
  case Nil
  then show ?case by (simp add: trial_def snap_def)
next
  case (Cons r t)
  have "snap f (r # t) c a p = (if balance_is c a p r then f r else 0) + snap f t c a p" for a
  proof (cases "balance_is c a p r")
    case True
    then have "\<not> balance_is c a p x" if "x \<in> set t" for x
      using Cons.prems(1) that by (auto simp: balance_is_key) (metis image_eqI)
    then have "find_first (balance_is c a p) t = None" by (simp add: find_first_None_iff)
    with True show ?thesis by (simp add: snap_def)
  next
    case False
    then show ?thesis by (simp add: snap_def)
  qed
  then have "snap f (r # t) c a p = (if ab_account r = a then (if ab_company r = c \<and> ab_period r = p then f r else 0) else 0) +
      snap f t c a p" for a
    by (simp add: balance_is_def)
  then have "(\<Sum>a\<in>A. snap f (r # t) c a p) =
      (\<Sum>a\<in>A. if ab_account r = a then (if ab_company r = c \<and> ab_period r = p then f r else 0) else 0) +
      (\<Sum>a\<in>A. snap f t c a p)"
    by (simp only: sum.distrib)
  moreover have "ab_account r \<in> A" using Cons.prems(2) by simp
  ultimately show ?case using Cons assms(2) by (simp add: trial_def)
qed

lemma ledger_sum_by_account:
  assumes "finite A" and "\<forall>e \<in> set t. jl_account ` set (je_lines e) \<subseteq> A"
  shows "(\<Sum>a\<in>A. ledger_sum f t c a p) = (\<Sum>e\<leftarrow>t. if in_ledger c p e then (\<Sum>l\<leftarrow>je_lines e. f l) else 0)"
proof -
  have line: "(\<Sum>a\<in>A. \<Sum>l\<leftarrow>ls. if jl_account l = a then f l else 0) = (\<Sum>l\<leftarrow>ls. f l)"
    if "jl_account ` set ls \<subseteq> A" for ls
    using that assms(1) by (induction ls) (simp_all add: sum.distrib)
  show ?thesis using assms(2)
  proof (induction t)
    case Nil
    then show ?case by (simp add: ledger_sum_def)
  next
    case (Cons e t)
    then have "(\<Sum>a\<in>A. entry_on f a e) = (\<Sum>l\<leftarrow>je_lines e. f l)"
      unfolding entry_on_def by (intro line) simp
    with Cons show ?case by (simp add: ledger_sum_def sum.distrib)
  qed
qed

lemma ledger_inv_trial:
  assumes "ledger_inv w"
  shows "trial ab_periodDebit (t_balance w) c p = trial ab_periodCredit (t_balance w) c p"
proof -
  define A where "A = ab_account ` set (t_balance w) \<union> (\<Union>e \<in> set (t_entry w). jl_account ` set (je_lines e))"
  have A: "finite A" "ab_account ` set (t_balance w) \<subseteq> A" "\<forall>e \<in> set (t_entry w). jl_account ` set (je_lines e) \<subseteq> A"
    by (auto simp: A_def)
  have d: "distinct (map balance_key (t_balance w))" using assms by (simp add: ledger_inv_def balances_ok_def)
  have "(\<Sum>l\<leftarrow>je_lines e. jl_debit l) = (\<Sum>l\<leftarrow>je_lines e. jl_credit l)" if "e \<in> set (t_entry w)" for e
    using assms that by (simp add: ledger_inv_def balanced_entry_def)
  then have "(\<Sum>e\<leftarrow>t_entry w. if in_ledger c p e then (\<Sum>l\<leftarrow>je_lines e. jl_debit l) else 0) =
      (\<Sum>e\<leftarrow>t_entry w. if in_ledger c p e then (\<Sum>l\<leftarrow>je_lines e. jl_credit l) else 0)"
    by (intro arg_cong [where f = sum_list] map_cong) simp_all
  then show ?thesis
    using assms unfolding trial_by_account [OF d A(1,2)]
    by (simp add: ledger_inv_def ledger_sum_by_account [OF A(1,3), symmetric])
qed

section \<open>The other operations\<close>

lemma edit_entry_run:
  assumes ids: "distinct (map je_id (t_entry w))" and run: "edit_entry i d c user w = (r, w')"
  shows "w' = w \<or> (\<exists>hit g a. w' = w\<lparr>t_entry := update_rows hit g (t_entry w), t_audit := a\<rparr> \<and>
    (\<forall>e. same_entry e (g e) \<and> je_status (g e) = je_status e) \<and> (\<forall>e \<in> set (t_entry w). hit e \<longrightarrow> je_status e = Draft))"
proof (cases r)
  case (Inl x)
  with run show ?thesis
    by (auto simp: edit_entry_def get_entry_def find_entry_by_id_def bind_Inl_iff transaction_Inl_iff split: option.splits if_splits)
next
  case (Inr y)
  let ?f = "\<lambda>r. case d of None \<Rightarrow> r | Some d \<Rightarrow> r\<lparr>je_description := Some d\<rparr>"
  have "edit_entry i d c user w = (Inr y, w')" using run Inr by simp
  then obtain e w1 where e: "find_first (\<lambda>r. je_id r = i \<and> je_company r = c) (t_entry w) = Some e" "je_status e = Draft"
    and upd: "update_entry i ?f c (je_version e) w = (Inr y, w1)"
    and aud: "audit_entry_row c user i ''UPDATE'' (Some e) y w1 = (Inr (), w')"
    unfolding edit_entry_def get_entry_def find_entry_by_id_def transaction_Inr_iff bind_Inr_iff
      require_Inr_iff require_some_Inr_iff ask_run by auto
  let ?hit = "\<lambda>r. je_id r = i \<and> je_company r = c \<and> je_version r = je_version e"
  let ?g = "bump_ver (\<lambda>r. r\<lparr>je_version := je_version r + 1\<rparr>) ?f"
  have e': "e \<in> set (t_entry w)" "je_id e = i" "je_company e = c" using find_first_SomeD [OF e(1)] by simp_all
  have "je_id (?f r) = je_id r" for r by (simp split: option.split)
  from update_entry_run [OF ids e' this upd]
  have w1: "w1 = w\<lparr>t_entry := update_rows ?hit ?g (t_entry w)\<rparr>" and only: "filter ?hit (t_entry w) = [e]" by simp_all
  obtain a where "w' = w1\<lparr>t_audit := a\<rparr>" using aud audit_entry_row_run [of c user i "''UPDATE''" "Some e" y w1] by auto
  moreover have "same_entry x (?g x) \<and> je_status (?g x) = je_status x" for x
    by (simp add: same_entry_def bump_ver_def split: option.split)
  moreover have "je_status x = Draft" if "x \<in> set (t_entry w)" "?hit x" for x
  proof -
    have "x \<in> set (filter ?hit (t_entry w))" using that by simp
    then show ?thesis using only e(2) by simp
  qed
  ultimately show ?thesis using w1 by (intro disjI2 exI [of _ ?hit] exI [of _ ?g] exI [of _ a]) simp
qed

definition books :: "world \<Rightarrow> entry_row list \<times> balance_row list \<times> seq_row list \<times> account_row list" where
  "books w = (t_entry w, t_balance w, t_seq w, t_account w)"

lemma period_ops_frame:
  "frame books (create_period dto c user)" "frame books (edit_period i notes c user)"
  "frame books (close_period i c user)" "frame books (ensure_current_calendar c)"
  unfolding create_period_def edit_period_def close_period_def get_period_def find_by_year_month_def insert_period_def
    audit_period_def find_period_def update_period_def
  by (intro frame_intros; simp add: books_def)+

lemma period_ops_advance:
  "advances (create_period dto c user)" "advances (edit_period i notes c user)" "advances (close_period i c user)"
  unfolding create_period_def edit_period_def close_period_def get_period_def find_by_year_month_def insert_period_def
    audit_period_def find_period_def update_period_def
  by (intro frame_intros; simp)+


section \<open>The ledger as a step relation\<close>

text \<open>
  Amounts have at most four decimals, as the \<^verbatim>\<open>Decimal(18, 4)\<close> columns do. \<open>elsewhere\<close> is any operation
  of another module: it may move the clock, draw UUIDs and edit the chart of accounts, not the books.
\<close>

inductive ledger_step :: "event_bus \<Rightarrow> world \<Rightarrow> world \<Rightarrow> bool" for bus where
  post: "scale4_lines (pi_lines i) \<Longrightarrow> ledger_step bus w (snd (gl_post bus i w))"
| reverse: "ledger_step bus w (snd (reverse_entry bus i c user reason w))"
| draft: "scale4_lines (dd_lines dto) \<Longrightarrow> ledger_step bus w (snd (create_entry dto c user w))"
| edit: "ledger_step bus w (snd (edit_entry i d c user w))"
| post_draft: "ledger_step bus w (snd (post_entry i c user w))"
| open_period: "ledger_step bus w (snd (create_period pdto c user w))"
| annotate_period: "ledger_step bus w (snd (edit_period i notes c user w))"
| close: "ledger_step bus w (snd (close_period i c user w))"
| calendar: "ledger_step bus w (snd (ensure_current_calendar c w))"
| elsewhere: "t_entry w' = t_entry w \<Longrightarrow> t_balance w' = t_balance w \<Longrightarrow> t_seq w' = t_seq w \<Longrightarrow>
    t_period w' = t_period w \<Longrightarrow> distinct (map ac_id (t_account w')) \<Longrightarrow> uuid_gen w' = uuid_gen w \<Longrightarrow>
    uuid_next w \<le> uuid_next w' \<Longrightarrow> ledger_step bus w w'"

definition fresh_books :: "world \<Rightarrow> bool" where
  "fresh_books w \<longleftrightarrow> t_entry w = [] \<and> t_balance w = [] \<and> distinct (map ac_id (t_account w)) \<and> inj (uuid_gen w)"

inductive ledger_reachable :: "event_bus \<Rightarrow> world \<Rightarrow> bool" for bus where
  start: "fresh_books w \<Longrightarrow> ledger_reachable bus w"
| step: "ledger_reachable bus w \<Longrightarrow> ledger_step bus w w' \<Longrightarrow> ledger_reachable bus w'"

text \<open>A transactional operation either changes nothing or succeeds.\<close>

lemma transaction_snd:
  assumes "op w = transaction m w" and "\<And>y w'. op w = (Inr y, w') \<Longrightarrow> P w'" and "P w"
  shows "P (snd (op w))"
proof (cases "fst (transaction m w)")
  case (Inl e)
  then have "transaction m w = (Inl e, snd (transaction m w))" by (metis prod.collapse)
  then have "snd (transaction m w) = w" by (rule transaction_rollback)
  with assms(1,3) show ?thesis by simp
next
  case (Inr y)
  then have "op w = (Inr y, snd (op w))" using assms(1) by (metis prod.collapse)
  then show ?thesis by (rule assms(2))
qed

lemma ledger_inv_books:
  assumes "ledger_inv w" and "frame books m" and "advances m"
  shows "ledger_inv (snd (m w))"
proof -
  obtain r w' where run: "m w = (r, w')" by (cases "m w")
  have "books w' = books w" using assms(2) run by (rule frameD)
  then have "t_entry w' = t_entry w" "t_seq w' = t_seq w" "t_balance w' = t_balance w" "t_account w' = t_account w"
    by (simp_all add: books_def)
  moreover have "uuid_gen w' = uuid_gen w \<and> uuid_next w \<le> uuid_next w'" using assms(3) run by (rule advancesD)
  ultimately show ?thesis using ledger_inv_cong [OF assms(1), of w'] assms(1) by (simp add: run ledger_inv_def)
qed

lemma edit_entry_keeps:
  assumes "ledger_inv w"
  shows "ledger_inv (snd (edit_entry i d c user w))"
proof -
  obtain r w' where run: "edit_entry i d c user w = (r, w')" by (cases "edit_entry i d c user w")
  have "distinct (map je_id (t_entry w))" using assms by (simp add: ledger_inv_def entry_ids_ok_def)
  from edit_entry_run [OF this run] show ?thesis
  proof
    assume "w' = w"
    with assms run show ?thesis by simp
  next
    assume "\<exists>hit g a. w' = w\<lparr>t_entry := update_rows hit g (t_entry w), t_audit := a\<rparr> \<and>
      (\<forall>e. same_entry e (g e) \<and> je_status (g e) = je_status e) \<and> (\<forall>e \<in> set (t_entry w). hit e \<longrightarrow> je_status e = Draft)"
    then obtain hit g a where "w' = w\<lparr>t_entry := update_rows hit g (t_entry w), t_audit := a\<rparr>"
      "\<And>e. same_entry e (g e)" "\<And>e. je_status (g e) = je_status e" by blast
    then have "ledger_inv w'"
      using assms by (intro ledger_inv_rewrite [OF assms, where p = hit and g = g]) (simp_all add: ledger_inv_def)
    with run show ?thesis by simp
  qed
qed

lemma ledger_step_keeps:
  assumes bus: "ledger_bus bus" and step: "ledger_step bus w w'" and inv: "ledger_inv w"
  shows "ledger_inv w'"
  using step
proof cases
  case (post i)
  show ?thesis unfolding post(1)
    by (rule transaction_snd, rule fun_cong [OF gl_post_def])
       (use inv post(2) in \<open>auto simp: gl_post_def transaction_Inr_iff dest: execute_post_keeps(1) [OF bus]\<close>)
next
  case (reverse i c user reason)
  show ?thesis unfolding reverse
    by (rule transaction_snd, rule fun_cong [OF reverse_entry_def])
       (use inv in \<open>auto dest: reverse_entry_keeps [OF bus]\<close>)
next
  case (draft dto c user)
  show ?thesis unfolding draft(1)
    by (rule transaction_snd, rule fun_cong [OF create_entry_def])
       (use inv draft(2) in \<open>auto dest: create_entry_keeps\<close>)
next
  case (edit i d c user)
  then show ?thesis using edit_entry_keeps [OF inv] by simp
next
  case (post_draft i c user)
  show ?thesis unfolding post_draft
    by (rule transaction_snd, rule fun_cong [OF post_entry_def])
       (use inv in \<open>auto dest: post_entry_keeps(1)\<close>)
next
  case (open_period pdto c user)
  then show ?thesis using ledger_inv_books [OF inv period_ops_frame(1) period_ops_advance(1)] by simp
next
  case (annotate_period i n c user)
  then show ?thesis using ledger_inv_books [OF inv period_ops_frame(2) period_ops_advance(2)] by simp
next
  case (close i c user)
  then show ?thesis using ledger_inv_books [OF inv period_ops_frame(3) period_ops_advance(3)] by simp
next
  case (calendar c)
  then show ?thesis using ledger_inv_books [OF inv period_ops_frame(4) advances_ensure_current_calendar] by simp
next
  case elsewhere
  then show ?thesis by (intro ledger_inv_cong [OF inv]) simp_all
qed


lemma ledger_reachable_inv:
  assumes "ledger_reachable bus w" and bus: "ledger_bus bus"
  shows "ledger_inv w"
  using assms(1)
proof induction
  case (start w)
  then show ?case
    by (simp add: fresh_books_def ledger_inv_def entry_ids_ok_def entry_numbers_ok_def balances_ok_def uuid_fresh_def
        snap_def ledger_sum_def)
next
  case (step w w')
  then show ?case using ledger_step_keeps [OF bus] by blast
qed

section \<open>Closed periods\<close>

definition not_open :: "string \<Rightarrow> string \<Rightarrow> period_row list \<Rightarrow> bool" where
  "not_open c p t \<longleftrightarrow> (\<exists>r. find_first (\<lambda>r. fp_id r = p \<and> fp_company r = c) t = Some r \<and> fp_status r \<noteq> Open)"

lemma not_open_append: "not_open c p t \<Longrightarrow> not_open c p (t @ u)"
  by (auto simp: not_open_def find_first_append)

lemma not_open_update_rows:
  assumes "not_open c p t" and "\<And>r. fp_id (f r) = fp_id r \<and> fp_company (f r) = fp_company r"
    and "\<And>r. fp_status r \<noteq> Open \<Longrightarrow> fp_status (f r) \<noteq> Open"
  shows "not_open c p (update_rows hit f t)"
proof -
  have "find_first (\<lambda>r. fp_id r = p \<and> fp_company r = c) (update_rows hit f t) =
      map_option (\<lambda>r. if hit r then f r else r) (find_first (\<lambda>r. fp_id r = p \<and> fp_company r = c) t)"
    by (rule find_first_update_rows) (simp add: assms(2))
  moreover obtain r where "find_first (\<lambda>r. fp_id r = p \<and> fp_company r = c) t = Some r" "fp_status r \<noteq> Open"
    using assms(1) unfolding not_open_def by blast
  ultimately show ?thesis using assms(3) [of r] by (simp add: not_open_def)
qed

lemma postable_open: "postable w c d p ls \<Longrightarrow> \<not> not_open c p (t_period w)"
  by (auto simp: postable_def not_open_def)

text \<open>No period operation reopens a period.\<close>

lemma audit_period_run: "\<exists>a. audit_period c user i action before after w = (Inr (), w\<lparr>t_audit := a\<rparr>)"
  by (auto simp: audit_period_def)

lemma update_period_keeps_closed:
  assumes "\<And>r. fp_id (f r) = fp_id r \<and> fp_company (f r) = fp_company r"
    and "\<And>r. fp_status r \<noteq> Open \<Longrightarrow> fp_status (f r) \<noteq> Open"
  shows "keeps (\<lambda>w. not_open c p (t_period w)) (transaction (bind (update_period i f c' v) (\<lambda>x.
    bind (audit_period c' user i action (before x) x) (\<lambda>_. ret x))))"
proof (intro keeps_transaction keeps_ok_bind)
  show "keeps_ok (\<lambda>w. not_open c p (t_period w)) (update_period i f c' v)"
  proof (rule keeps_okI)
    fix w x w'
    assume n: "not_open c p (t_period w)" and run: "update_period i f c' v w = (Inr x, w')"
    have "t_period w' = update_rows (\<lambda>r. fp_id r = i \<and> fp_company r = c' \<and> fp_version r = v)
        (bump_ver (\<lambda>r. r\<lparr>fp_version := fp_version r + 1\<rparr>) f) (t_period w)"
      using cas_write_Inr [OF run [unfolded update_period_def]] by simp
    then show "not_open c p (t_period w')"
      using not_open_update_rows [OF n, of "bump_ver (\<lambda>r. r\<lparr>fp_version := fp_version r + 1\<rparr>) f"] assms
      by (simp add: bump_ver_def)
  qed
  show "keeps_ok (\<lambda>w. not_open c p (t_period w)) (audit_period c' user i action (before x) x)" for x
    by (rule keeps_okI) (auto simp: audit_period_def)
qed (rule keeps_ok_pure)


definition closed_kept :: "string \<Rightarrow> string \<Rightarrow> world \<Rightarrow> world \<Rightarrow> bool" where
  "closed_kept c p w w' \<longleftrightarrow> not_open c p (t_period w') \<and>
     filter (in_ledger c p) (t_entry w') = filter (in_ledger c p) (t_entry w)"

lemma filter_update_rows_out:
  assumes "\<And>x. x \<in> set t \<Longrightarrow> hit x \<Longrightarrow> \<not> q x \<and> \<not> q (g x)"
  shows "filter q (update_rows hit g t) = filter q t"
  using assms by (induction t) auto

lemma in_ledger_posted: "posted_row i n clock e \<Longrightarrow> in_ledger c p e \<longleftrightarrow> pi_company i = c \<and> pi_period i = p"
  by (auto simp: posted_row_def in_ledger_def)

lemma gl_post_closed:
  assumes bus: "ledger_bus bus" and inv: "ledger_inv w" and s4: "scale4_lines (pi_lines i)"
    and closed: "not_open c p (t_period w)" and run: "execute_post bus i w = (Inr r, w')"
  shows "closed_kept c p w w'"
proof -
  note K = execute_post_keeps [OF bus inv s4 run]
  obtain e where e: "t_entry w' = t_entry w @ [e]"
    "posted_row i (last_number w (pi_company i) (''JE:'' @ pi_period i) + 1) (now w) e" using K(2) by blast
  have "\<not> (pi_company i = c \<and> pi_period i = p)" using postable_open [OF K(3)] closed by auto
  then show ?thesis using e K(4) closed in_ledger_posted [OF e(2)] by (simp add: closed_kept_def)
qed

lemma reverse_closed:
  assumes bus: "ledger_bus bus" and inv: "ledger_inv w" and closed: "not_open c p (t_period w)"
    and run: "reverse_entry bus i c' user reason w = (Inr y, w')"
  shows "closed_kept c p w w'"
proof -
  obtain e r w2 a where R: "find_first (\<lambda>r. je_id r = i \<and> je_company r = c') (t_entry w) = Some e"
    "execute_post bus (reversal_input w e c' user reason) (claim i c' w) = (Inr r, w2)" "w' = w2\<lparr>t_audit := a\<rparr>"
    using reverse_entry_Inr [OF run] by blast
  have e: "e \<in> set (t_entry w)" "je_id e = i" "je_company e = c'" using find_first_SomeD [OF R(1)] by simp_all
  have "balanced_entry e" using inv e by (simp add: ledger_inv_def)
  then have s4: "scale4_lines (pi_lines (reversal_input w e c' user reason))"
    using reversal_input_sel(7) [of w e c' user reason] reversal_lines_scale4 by metis
  note K = execute_post_keeps(3) [OF bus claim_keeps [OF inv] s4 R(2)]
  have "\<not> not_open c' (je_period e) (t_period w)" using postable_open [OF K] by (simp add: claim_def)
  then have off: "\<not> (c' = c \<and> je_period e = p)" using closed by auto
  have "filter (in_ledger c p) (t_entry (claim i c' w)) = filter (in_ledger c p) (t_entry w)"
    unfolding claim_def
  proof (simp, rule filter_update_rows_out)
    fix x
    assume x: "x \<in> set (t_entry w)" "je_id x = i \<and> je_company x = c' \<and> je_status x = Posted"
    have "x = e" by (rule distinct_map_eq [of je_id "t_entry w"]) (use inv x e in \<open>simp_all add: ledger_inv_def entry_ids_ok_def\<close>)
    then show "\<not> in_ledger c p x \<and> \<not> in_ledger c p (x\<lparr>je_status := Reversed, je_version := je_version x + 1\<rparr>)"
      using off e by (auto simp: in_ledger_def)
  qed
  moreover have "closed_kept c p (claim i c' w) w2"
    by (rule gl_post_closed [OF bus claim_keeps [OF inv] s4 _ R(2)]) (use closed in \<open>simp add: claim_def\<close>)
  ultimately show ?thesis by (simp add: closed_kept_def R(3))
qed

lemma post_entry_closed:
  assumes inv: "ledger_inv w" and closed: "not_open c p (t_period w)" and run: "post_entry i c' user w = (Inr y, w')"
  shows "closed_kept c p w w'"
proof -
  note K = post_entry_keeps [OF inv run]
  let ?g = "\<lambda>r. r\<lparr>je_status := Posted, je_postedAt := Some (now w), je_postedBy := Some user, je_version := je_version r + 1\<rparr>"
  obtain e where e: "find_first (\<lambda>r. je_id r = i \<and> je_company r = c') (t_entry w) = Some e"
    "postable w c' (je_date e) (je_period e) (persisted_lines e)"
    "t_entry w' = update_rows (\<lambda>r. je_id r = i \<and> je_company r = c' \<and> je_version r = je_version e) ?g (t_entry w)"
    using K(3) by blast
  have e': "e \<in> set (t_entry w)" "je_id e = i" "je_company e = c'" using find_first_SomeD [OF e(1)] by simp_all
  have off: "\<not> (c' = c \<and> je_period e = p)" using postable_open [OF e(2)] closed by auto
  let ?hit = "\<lambda>r. je_id r = i \<and> je_company r = c' \<and> je_version r = je_version e"
  have "\<not> in_ledger c p x \<and> \<not> in_ledger c p (?g x)" if "x \<in> set (t_entry w)" "?hit x" for x
  proof -
    have "x = e" by (rule distinct_map_eq [of je_id "t_entry w"]) (use inv that e' in \<open>simp_all add: ledger_inv_def entry_ids_ok_def\<close>)
    then show ?thesis using off e' by (auto simp: in_ledger_def)
  qed
  then have "filter (in_ledger c p) (t_entry w') = filter (in_ledger c p) (t_entry w)"
    unfolding e(3) by (rule filter_update_rows_out)
  then show ?thesis using K(2) closed by (simp add: closed_kept_def)
qed


lemma create_period_closed:
  "not_open c p (t_period w) \<Longrightarrow> not_open c p (t_period (snd (create_period dto c' user w)))"
  by (auto simp: create_period_def find_by_year_month_def insert_period_def transaction_def audit_period_def bind_def
      split: option.splits intro: not_open_append)

lemma get_period_run:
  "get_period i c w = (case find_first (\<lambda>r. fp_id r = i \<and> fp_company r = c) (t_period w) of
     None \<Rightarrow> (Inl (NotFound ''Financial period not found''), w) | Some r \<Rightarrow> (Inr r, w))"
  by (simp add: get_period_def find_period_def split: option.split)

lemma keeps_snd: "keeps I m \<Longrightarrow> I s \<Longrightarrow> I (snd (m s))"
  by (metis keepsD prod.collapse)

lemma edit_period_closed:
  assumes "not_open c p (t_period w)"
  shows "not_open c p (t_period (snd (edit_period i n c' user w)))"
proof -
  have "keeps (\<lambda>w. not_open c p (t_period w)) (transaction (bind (update_period i
      (\<lambda>r. case n of None \<Rightarrow> r | Some n \<Rightarrow> r\<lparr>fp_notes := Some n\<rparr>) c' (fp_version before)) (\<lambda>x.
      bind (audit_period c' user i ''UPDATE'' (Some before) x) (\<lambda>_. ret x))))" for before
    by (rule update_period_keeps_closed) (simp_all split: option.split)
  note K = keeps_snd [OF this assms]
  show ?thesis
    using assms K by (cases "find_first (\<lambda>r. fp_id r = i \<and> fp_company r = c') (t_period w)")
      (simp_all add: edit_period_def get_period_run)
qed

lemma close_period_closed:
  assumes "not_open c p (t_period w)"
  shows "not_open c p (t_period (snd (close_period i c' user w)))"
proof -
  have "keeps (\<lambda>w. not_open c p (t_period w)) (transaction (bind (update_period i
      (\<lambda>r. r\<lparr>fp_status := Closed, fp_closedAt := Some (now w), fp_closedBy := Some user\<rparr>) c' (fp_version before)) (\<lambda>x.
      bind (audit_period c' user i ''CLOSE'' (Some before) x) (\<lambda>_. ret x))))" for before
    by (rule update_period_keeps_closed) simp_all
  note K = keeps_snd [OF this assms]
  show ?thesis
    using assms
    by (cases "find_first (\<lambda>r. fp_id r = i \<and> fp_company r = c') (t_period w)")
       (simp_all add: close_period_def get_period_run bind_def [of "require _ _"] K)
qed

lemma calendar_closed:
  assumes "not_open c p (t_period w)"
  shows "not_open c p (t_period (snd (ensure_current_calendar c' w)))"
proof -
  obtain fy w1 where one: "upsert_fiscal_year c' (utc_year (now w)) w = (Inr fy, w1)" "t_period w1 = t_period w"
    using upsert_fiscal_year_run by blast
  obtain q w2 where two: "upsert_period c' (utc_year (now w)) (utc_month (now w)) w1 = (Inr q, w2)" and
    t: "t_period w2 = t_period w1 \<or> t_period w2 = t_period w1 @ [q]"
    using upsert_period_run [of c' "utc_year (now w)" "utc_month (now w)" w1] by (auto split: option.splits)
  have "ensure_current_calendar c' w = (Inr (fy, q, fp_status q = Open), w2)"
    by (simp add: ensure_current_calendar_def Let_def one two)
  then show ?thesis using t one assms by (auto intro: not_open_append)
qed

lemma period_op_kept:
  assumes "frame books m" and "not_open c p (t_period (snd (m w)))"
  shows "closed_kept c p w (snd (m w))"
proof -
  obtain r w' where run: "m w = (r, w')" by (cases "m w")
  have "books w' = books w" using assms(1) run by (rule frameD)
  with assms(2) show ?thesis by (simp add: closed_kept_def books_def run)
qed

lemma edit_entry_closed:
  assumes inv: "ledger_inv w" and closed: "not_open c p (t_period w)"
  shows "closed_kept c p w (snd (edit_entry i d c' user w))"
proof -
  obtain r w' where run: "edit_entry i d c' user w = (r, w')" by (cases "edit_entry i d c' user w")
  have ids: "distinct (map je_id (t_entry w))" using inv by (simp add: ledger_inv_def entry_ids_ok_def)
  from edit_entry_run [OF ids run] consider "w' = w" |
    hit g a where "w' = w\<lparr>t_entry := update_rows hit g (t_entry w), t_audit := a\<rparr>"
      "\<forall>e. same_entry e (g e) \<and> je_status (g e) = je_status e" "\<forall>e \<in> set (t_entry w). hit e \<longrightarrow> je_status e = Draft"
    by blast
  then have "closed_kept c p w w'"
  proof cases
    case 1
    then show ?thesis using closed by (simp add: closed_kept_def)
  next
    case (2 hit g a)
    have "filter (in_ledger c p) (update_rows hit g (t_entry w)) = filter (in_ledger c p) (t_entry w)"
      by (rule filter_update_rows_out) (use 2 in \<open>auto simp: in_ledger_def\<close>)
    then show ?thesis using 2(1) closed by (simp add: closed_kept_def)
  qed
  then show ?thesis by (simp add: run)
qed

lemma ledger_step_closed:
  assumes bus: "ledger_bus bus" and step: "ledger_step bus w w'" and inv: "ledger_inv w"
    and closed: "not_open c p (t_period w)"
  shows "closed_kept c p w w'"
proof -
  have same: "closed_kept c p w w" using closed by (simp add: closed_kept_def)
  show ?thesis using step
  proof cases
    case (post i)
    show ?thesis unfolding post(1)
      by (rule transaction_snd, rule fun_cong [OF gl_post_def])
         (use post(2) same in \<open>auto simp: gl_post_def transaction_Inr_iff intro: gl_post_closed [OF bus inv _ closed]\<close>)
  next
    case (reverse i c user reason)
    show ?thesis unfolding reverse
      by (rule transaction_snd, rule fun_cong [OF reverse_entry_def])
         (use same in \<open>auto intro: reverse_closed [OF bus inv closed]\<close>)
  next
    case (draft dto c user)
    show ?thesis unfolding draft(1)
      by (rule transaction_snd, rule fun_cong [OF create_entry_def])
         (use same closed in \<open>auto dest!: create_entry_keeps [OF inv draft(2)] simp: closed_kept_def in_ledger_def\<close>)
  next
    case (edit i d c user)
    then show ?thesis using edit_entry_closed [OF inv closed] by simp
  next
    case (post_draft i c user)
    show ?thesis unfolding post_draft
      by (rule transaction_snd, rule fun_cong [OF post_entry_def])
         (use same in \<open>auto intro: post_entry_closed [OF inv closed]\<close>)
  next
    case (open_period pdto c user)
    then show ?thesis using period_op_kept [OF period_ops_frame(1) create_period_closed [OF closed]] by simp
  next
    case (annotate_period i n c user)
    then show ?thesis using period_op_kept [OF period_ops_frame(2) edit_period_closed [OF closed]] by simp
  next
    case (close i c user)
    then show ?thesis using period_op_kept [OF period_ops_frame(3) close_period_closed [OF closed]] by simp
  next
    case (calendar c)
    then show ?thesis using period_op_kept [OF period_ops_frame(4) calendar_closed [OF closed]] by simp
  next
    case elsewhere
    then show ?thesis using closed by (simp add: closed_kept_def)
  qed
qed


section \<open>A reversal in detail\<close>

lemma reversal_lines_on:
  "lines_on (\<lambda>l. amount_val (pl_debit l)) (reversal_lines e d) a = entry_on jl_credit a e"
  "lines_on (\<lambda>l. amount_val (pl_credit l)) (reversal_lines e d) a = entry_on jl_debit a e"
  by (simp_all add: lines_on_def reversal_lines_def entry_on_def comp_def cong: if_cong)

lemma find_by_id:
  assumes "distinct (map je_id t)" and "e \<in> set t" and "je_company e = c"
  shows "find_first (\<lambda>r. je_id r = je_id e \<and> je_company r = c) t = Some e"
proof -
  have "filter (\<lambda>r. je_id r = je_id e \<and> je_company r = c) t = filter (\<lambda>r. je_company r = c) (filter (\<lambda>r. je_id r = je_id e) t)"
    by (simp add: conj_ac)
  then have "filter (\<lambda>r. je_id r = je_id e \<and> je_company r = c) t = [e]"
    using filter_key [OF assms(1,2)] assms(3) by simp
  then show ?thesis by (rule find_first_filter)
qed

lemma reverse_refused:
  assumes "find_first (\<lambda>r. je_id r = i \<and> je_company r = c) (t_entry w) = Some e"
  shows "je_refType e = Some ''REVERSAL'' \<Longrightarrow>
      reverse_entry bus i c user reason w = (Inl (BadRequest ''Cannot reverse a reversal entry''), w)"
    and "je_refType e \<noteq> Some ''REVERSAL'' \<Longrightarrow>
      \<forall>x \<in> set (t_entry w). \<not> (je_id x = i \<and> je_company x = c \<and> je_status x = Posted) \<Longrightarrow>
      reverse_entry bus i c user reason w =
        (Inl (Conflict ''Journal entry cannot be reversed. Only POSTED entries can be reversed.''), w)"
proof -
  show "je_refType e = Some ''REVERSAL'' \<Longrightarrow>
      reverse_entry bus i c user reason w = (Inl (BadRequest ''Cannot reverse a reversal entry''), w)"
    using assms by (simp add: reverse_entry_def find_entry_by_id_def transaction_def)
  assume "je_refType e \<noteq> Some ''REVERSAL''"
    and "\<forall>x \<in> set (t_entry w). \<not> (je_id x = i \<and> je_company x = c \<and> je_status x = Posted)"
  moreover from this have "count_rows (\<lambda>r. je_id r = i \<and> je_company r = c \<and> je_status r = Posted) (t_entry w) = 0"
    by (simp add: count_rows_0_iff)
  ultimately show "reverse_entry bus i c user reason w =
        (Inl (Conflict ''Journal entry cannot be reversed. Only POSTED entries can be reversed.''), w)"
    using assms by (simp add: reverse_entry_def find_entry_by_id_def transaction_def)
qed

text \<open>Debit minus credit of an account in a period.\<close>

definition net_balance :: "world \<Rightarrow> string \<Rightarrow> string \<Rightarrow> string \<Rightarrow> decimal" where
  "net_balance w c a p = snap ab_periodDebit (t_balance w) c a p - snap ab_periodCredit (t_balance w) c a p"

lemma net_balance_inv: "ledger_inv w \<Longrightarrow> net_balance w c a p =
    ledger_sum jl_debit (t_entry w) c a p - ledger_sum jl_credit (t_entry w) c a p"
  by (simp add: net_balance_def ledger_inv_def)

lemma reverse_entry_effect:
  assumes bus: "ledger_bus bus" and inv: "ledger_inv w" and run: "reverse_entry bus i c user reason w = (Inr (x, y), w')"
  shows "\<exists>e e'. find_first (\<lambda>r. je_id r = i \<and> je_company r = c) (t_entry w) = Some e \<and> je_status e = Posted \<and>
    je_refType e \<noteq> Some ''REVERSAL'' \<and> t_entry w' = t_entry (claim i c w) @ [e'] \<and> je_id e' = y \<and> x = i \<and>
    je_company e' = c \<and> je_period e' = je_period e \<and> je_status e' = Posted \<and> je_refType e' = Some ''REVERSAL'' \<and>
    je_refId e' = Some i \<and> (\<forall>a. entry_on jl_debit a e' = entry_on jl_credit a e \<and> entry_on jl_credit a e' = entry_on jl_debit a e)"
proof -
  obtain e r w2 a where R: "find_first (\<lambda>r. je_id r = i \<and> je_company r = c) (t_entry w) = Some e"
    "je_refType e \<noteq> Some ''REVERSAL''"
    "\<exists>x \<in> set (t_entry w). je_id x = i \<and> je_company x = c \<and> je_status x = Posted"
    "execute_post bus (reversal_input w e c user reason) (claim i c w) = (Inr r, w2)" "w' = w2\<lparr>t_audit := a\<rparr>"
    "(x, y) = (i, gp_id r)"
    using reverse_entry_Inr [OF run] by blast
  have e: "e \<in> set (t_entry w)" "je_id e = i" "je_company e = c" using find_first_SomeD [OF R(1)] by simp_all
  have "x = e" if "x \<in> set (t_entry w)" "je_id x = i" for x
    by (rule distinct_map_eq [of je_id "t_entry w"]) (use inv that e in \<open>simp_all add: ledger_inv_def entry_ids_ok_def\<close>)
  then have posted: "je_status e = Posted" using R(3) by blast
  have "balanced_entry e" using inv e by (simp add: ledger_inv_def)
  moreover obtain d where d: "pi_lines (reversal_input w e c user reason) = reversal_lines e d"
    using reversal_input_sel(7) by blast
  ultimately have s4: "scale4_lines (pi_lines (reversal_input w e c user reason))"
    using reversal_lines_scale4 by simp
  obtain e' n where E: "t_entry w2 = t_entry (claim i c w) @ [e']" "gp_id r = je_id e'"
    "posted_row (reversal_input w e c user reason) n (now (claim i c w)) e'"
    using execute_post_keeps(2) [OF bus claim_keeps [OF inv] s4 R(4)] by blast
  have "stored_lines (reversal_lines e d) (je_lines e')" using E(3) d by (simp add: posted_row_def)
  from stored_lines_on [OF this s4 [unfolded d]] show ?thesis
    using R(1,2,5,6) e E posted by (auto simp: posted_row_def reversal_lines_on)
qed

section \<open>Example books\<close>

definition books0 :: world where
  "books0 = empty_world\<lparr>now := 5,
     t_account := [\<lparr>ac_id = ''A'', ac_company = ''C'', ac_code = ''1010'', ac_name = ''1010'', ac_type = ASSET, ac_normal = DebitNormal, ac_active = True,
         ac_cashOrBank = True, ac_deleted = None\<rparr>,
       \<lparr>ac_id = ''B'', ac_company = ''C'', ac_code = ''4000'', ac_name = ''4000'', ac_type = REVENUE, ac_normal = CreditNormal, ac_active = True,
         ac_cashOrBank = False, ac_deleted = None\<rparr>],
     t_period := [\<lparr>fp_id = ''P'', fp_company = ''C'', fp_name = ''p'', fp_year = 1970, fp_month = 1, fp_start = 0,
         fp_end = 10, fp_status = Open, fp_openedBy = None, fp_closedBy = None, fp_closedAt = None,
         fp_notes = None, fp_version = 0\<rparr>]\<rparr>"

definition two_lines :: "amount \<Rightarrow> amount \<Rightarrow> post_line list" where
  "two_lines d k = [\<lparr>pl_account = ''A'', pl_debit = d, pl_credit = Blank, pl_description = None\<rparr>,
     \<lparr>pl_account = ''B'', pl_debit = Blank, pl_credit = k, pl_description = None\<rparr>]"

definition input0 :: "post_line list \<Rightarrow> post_input" where
  "input0 ls = \<lparr>pi_company = ''C'', pi_period = ''P'', pi_date = 5, pi_description = None, pi_refType = None,
     pi_refId = None, pi_createdBy = ''U'', pi_clientOp = None, pi_lines = ls\<rparr>"

definition books1 :: world where
  "books1 = snd (gl_post (\<lambda>_. None) (input0 (two_lines (Amount 10) (Amount 10))) books0)"

lemma scale4_two_lines: "scale4_lines (two_lines (Amount 10) (Amount 10))"
  by code_simp

lemma books0_fresh: "fresh_books books0"
proof -
  have "inj (\<lambda>n. replicate n (CHR ''u''))" by (rule injI) (metis length_replicate)
  then show ?thesis by (simp add: fresh_books_def books0_def empty_world_def)
qed

lemma books1_reachable: "ledger_reachable (\<lambda>_. None) books1"
  unfolding books1_def
  by (intro ledger_reachable.step [OF ledger_reachable.start [OF books0_fresh]] ledger_step.post)
     (simp add: input0_def scale4_two_lines)


section \<open>Properties\<close>

text \<open>
  Property C1: the balance snapshots are exactly the books. After any sequence of postings, reversals,
  drafts, edits, draft postings and period operations, in any order and with any of them failing, the
  stored debit and credit turnover of every account in every period is the sum of the lines of the
  posted and reversed entries of that period, and no draft counts.
\<close>

theorem ledger_snapshots_match_entries:
  assumes "ledger_bus bus" and "ledger_reachable bus w"
  shows "snap ab_periodDebit (t_balance w) c a p = ledger_sum jl_debit (t_entry w) c a p \<and>
    snap ab_periodCredit (t_balance w) c a p = ledger_sum jl_credit (t_entry w) c a p"
  using ledger_reachable_inv [OF assms(2,1)] by (simp add: ledger_inv_def)

lemma ledger_snapshots_match_entries_witness:
  "snap ab_periodDebit (t_balance books1) ''C'' ''A'' ''P'' = 10 \<and>
   snap ab_periodCredit (t_balance books1) ''C'' ''B'' ''P'' = 10"
proof -
  have "ledger_sum jl_debit (t_entry books1) ''C'' ''A'' ''P'' = 10"
    and "ledger_sum jl_credit (t_entry books1) ''C'' ''B'' ''P'' = 10"
    by code_simp+
  then show ?thesis
    using ledger_snapshots_match_entries [OF ledger_bus_empty books1_reachable] by simp
qed

text \<open>
  The trial balance is always in balance. In every reachable ledger the stored debit
  turnovers of a company's period add up to the stored credit turnovers.
\<close>

theorem ledger_trial_balances:
  assumes "ledger_bus bus" and "ledger_reachable bus w"
  shows "trial ab_periodDebit (t_balance w) c p = trial ab_periodCredit (t_balance w) c p"
  using ledger_inv_trial [OF ledger_reachable_inv [OF assms(2,1)]] .

lemma ledger_trial_balances_witness:
  "trial ab_periodDebit (t_balance books1) ''C'' ''P'' = 10 \<and> trial ab_periodCredit (t_balance books1) ''C'' ''P'' = 10"
proof -
  have "trial ab_periodDebit (t_balance books1) ''C'' ''P'' = 10" by code_simp
  then show ?thesis using ledger_trial_balances [OF ledger_bus_empty books1_reachable, of "''C''" "''P''"] by simp
qed

text \<open>
  Property C24: a period that is not OPEN is frozen. Whatever operation runs next, and whether it
  succeeds or not, the period stays closed, its posted and reversed entries stay exactly the same
  list, and no balance of the period moves.
\<close>

theorem closed_period_is_frozen:
  assumes "ledger_bus bus" and "ledger_reachable bus w" and "ledger_step bus w w'"
    and "not_open c p (t_period w)"
  shows "not_open c p (t_period w') \<and> filter (in_ledger c p) (t_entry w') = filter (in_ledger c p) (t_entry w) \<and>
    (\<forall>a. snap ab_periodDebit (t_balance w') c a p = snap ab_periodDebit (t_balance w) c a p \<and>
       snap ab_periodCredit (t_balance w') c a p = snap ab_periodCredit (t_balance w) c a p)"
proof -
  have inv: "ledger_inv w" by (rule ledger_reachable_inv [OF assms(2,1)])
  have inv': "ledger_inv w'" by (rule ledger_step_keeps [OF assms(1,3) inv])
  have K: "closed_kept c p w w'" by (rule ledger_step_closed [OF assms(1,3) inv assms(4)])
  have sums: "ledger_sum f t c a p = (\<Sum>e\<leftarrow>filter (in_ledger c p) t. entry_on f a e)" for f t a
    by (induction t) (simp_all add: ledger_sum_def)
  have "ledger_sum f (t_entry w') c a p = ledger_sum f (t_entry w) c a p" for f a
    using K unfolding sums by (simp add: closed_kept_def)
  then show ?thesis using K inv inv' by (simp add: closed_kept_def ledger_inv_def)
qed

definition books2 :: world where
  "books2 = snd (close_period ''P'' ''C'' ''U'' books1)"

lemma closed_period_is_frozen_witness:
  "not_open ''C'' ''P'' (t_period (snd (gl_post (\<lambda>_. None) (input0 (two_lines (Amount 10) (Amount 10))) books2))) \<and>
   length (filter (in_ledger ''C'' ''P'')
     (t_entry (snd (gl_post (\<lambda>_. None) (input0 (two_lines (Amount 10) (Amount 10))) books2)))) = 1"
proof -
  have r: "ledger_reachable (\<lambda>_. None) books2"
    unfolding books2_def by (intro ledger_reachable.step [OF books1_reachable] ledger_step.close)
  have s: "ledger_step (\<lambda>_. None) books2 (snd (gl_post (\<lambda>_. None) (input0 (two_lines (Amount 10) (Amount 10))) books2))"
    by (rule ledger_step.post) (simp add: input0_def scale4_two_lines)
  have "map_option fp_status (find_first (\<lambda>r. fp_id r = ''P'' \<and> fp_company r = ''C'') (t_period books2)) = Some Closed"
    by code_simp
  then have "not_open ''C'' ''P'' (t_period books2)" by (auto simp: not_open_def)
  moreover have "length (filter (in_ledger ''C'' ''P'') (t_entry books2)) = 1" by code_simp
  ultimately show ?thesis using closed_period_is_frozen [OF ledger_bus_empty r s] by simp
qed

text \<open>
  Property C2: the ledger engine accepts exactly the valid postings. \<^verbatim>\<open>post\<close> succeeds if and only if
  the input is \<open>postable\<close> (open period containing the date, two lines or more, every account live and
  of the company, no line without an amount, equal totals that are not negative) and its operation
  identity is unused; then exactly one POSTED entry is appended, numbered one above the last number
  of the period, with the input's lines and the audit columns filled. Otherwise nothing changes.
\<close>

theorem posting_accepts_exactly_the_valid:
  assumes "ledger_bus bus" and "ledger_reachable bus w" and "scale4_lines (pi_lines i)"
  shows "if postable w (pi_company i) (pi_date i) (pi_period i) (pi_lines i) \<and>
        unused_operation w (pi_company i) (pi_clientOp i)
      then \<exists>r w' e. gl_post bus i w = (Inr r, w') \<and> t_entry w' = t_entry w @ [e] \<and> gp_id r = je_id e \<and>
        gp_number r = je_number e \<and>
        posted_row i (last_number w (pi_company i) (''JE:'' @ pi_period i) + 1) (now w) e
      else \<exists>x. gl_post bus i w = (Inl x, w)"
proof -
  have I: "distinct (map ac_id (t_account w))" "entry_ids_ok w" "entry_numbers_ok w" "balances_ok (t_balance w)"
    using ledger_reachable_inv [OF assms(2,1)] by (simp_all add: ledger_inv_def)
  show ?thesis
  proof (cases "postable w (pi_company i) (pi_date i) (pi_period i) (pi_lines i) \<and> unused_operation w (pi_company i) (pi_clientOp i)")
    case True
    then obtain r w' e where "execute_post bus i w = (Inr r, w')" "t_entry w' = t_entry w @ [e]" "gp_id r = je_id e"
      "gp_number r = je_number e" "posted_row i (last_number w (pi_company i) (''JE:'' @ pi_period i) + 1) (now w) e"
      using execute_post_run [OF assms(1) I _ _ assms(3)] by blast
    then show ?thesis using True by (auto simp: gl_post_def transaction_def)
  next
    case False
    then have "\<not> (\<exists>r w'. execute_post bus i w = (Inr r, w'))" using execute_post_Inr [OF I(1)] by blast
    then obtain x w' where "execute_post bus i w = (Inl x, w')"
      by (cases "execute_post bus i w"; cases "fst (execute_post bus i w)") auto
    then show ?thesis using False by (simp add: gl_post_def transaction_def)
  qed
qed

lemma posting_accepts_exactly_the_valid_witness:
  "(\<exists>e. t_entry books1 = t_entry books0 @ [e] \<and> je_number e = 1 \<and> je_status e = Posted) \<and>
   (\<exists>x. gl_post (\<lambda>_. None) ((input0 (two_lines (Amount 10) (Amount 10)))\<lparr>pi_date := 11\<rparr>) books0 = (Inl x, books0))"
proof -
  let ?i = "input0 (two_lines (Amount 10) (Amount 10))" and ?late = "(input0 (two_lines (Amount 10) (Amount 10)))\<lparr>pi_date := 11\<rparr>"
  have s: "scale4_lines (pi_lines ?i)" "scale4_lines (pi_lines ?late)" by (simp_all add: input0_def scale4_two_lines)
  note P = posting_accepts_exactly_the_valid [OF ledger_bus_empty ledger_reachable.start [OF books0_fresh]]
  have "\<not> isl (fst (gl_post (\<lambda>_. None) ?i books0))" by code_simp
  then obtain r w' where ok: "gl_post (\<lambda>_. None) ?i books0 = (Inr r, w')" using run_succeeds by blast
  have "last_number books0 ''C'' ''JE:P'' = 0" by code_simp
  then have "\<exists>e. t_entry w' = t_entry books0 @ [e] \<and> je_number e = 1 \<and> je_status e = Posted"
    using P [OF s(1)] ok by (auto simp: posted_row_def input0_def split: if_splits)
  moreover have "isl (fst (gl_post (\<lambda>_. None) ?late books0))" by code_simp
  then have "\<exists>x. gl_post (\<lambda>_. None) ?late books0 = (Inl x, books0)"
    using P [OF s(2)] by (auto split: if_splits)
  ultimately show ?thesis using ok by (simp add: books1_def)
qed


text \<open>
  Property C25: a reversal cancels its entry, once. When \<^verbatim>\<open>reverse\<close> succeeds, the original was POSTED
  and becomes REVERSED, one new entry with the same accounts and debit and credit exchanged refers to
  it, and the net balance of every account is what it would be without the original. Any later attempt
  to reverse the original ends in a conflict, and reversing the reversal is refused.
\<close>

theorem reversal_cancels_the_entry_once:
  assumes "ledger_bus bus" and "ledger_reachable bus w" and run: "reverse_entry bus i c user reason w = (Inr (x, y), w')"
  shows "(\<exists>e. find_first (\<lambda>r. je_id r = i \<and> je_company r = c) (t_entry w) = Some e \<and> je_status e = Posted \<and>
      map_option je_status (find_first (\<lambda>r. je_id r = i \<and> je_company r = c) (t_entry w')) = Some Reversed \<and>
      (\<forall>a. net_balance w' c a (je_period e) =
         net_balance w c a (je_period e) - (entry_on jl_debit a e - entry_on jl_credit a e))) \<and>
    reverse_entry bus i c user' reason' w' =
      (Inl (Conflict ''Journal entry cannot be reversed. Only POSTED entries can be reversed.''), w') \<and>
    reverse_entry bus y c user' reason' w' = (Inl (BadRequest ''Cannot reverse a reversal entry''), w')"
proof -
  have inv: "ledger_inv w" by (rule ledger_reachable_inv [OF assms(2,1)])
  have inv': "ledger_inv w'" by (rule reverse_entry_keeps [OF assms(1) inv run])
  have ids': "distinct (map je_id (t_entry w'))" using inv' by (simp add: ledger_inv_def entry_ids_ok_def)
  let ?hit = "\<lambda>r. je_id r = i \<and> je_company r = c \<and> je_status r = Posted"
  let ?g = "\<lambda>r. r\<lparr>je_status := Reversed, je_version := je_version r + 1\<rparr>"
  obtain e e' where E: "find_first (\<lambda>r. je_id r = i \<and> je_company r = c) (t_entry w) = Some e" "je_status e = Posted"
    "je_refType e \<noteq> Some ''REVERSAL''" "t_entry w' = update_rows ?hit ?g (t_entry w) @ [e']" "je_id e' = y"
    "je_company e' = c" "je_period e' = je_period e" "je_status e' = Posted" "je_refType e' = Some ''REVERSAL''"
    "\<And>a. entry_on jl_debit a e' = entry_on jl_credit a e \<and> entry_on jl_credit a e' = entry_on jl_debit a e"
    using reverse_entry_effect [OF assms(1) inv run] unfolding claim_def by auto
  have e: "e \<in> set (t_entry w)" "je_id e = i" "je_company e = c" using find_first_SomeD [OF E(1)] by simp_all
  have "?g e \<in> set (t_entry w')" using e E(2) by (auto simp: E(4) set_update_rows)
  from find_by_id [OF ids' this] have found: "find_first (\<lambda>r. je_id r = i \<and> je_company r = c) (t_entry w') = Some (?g e)"
    using e by simp
  have net: "net_balance w' c a (je_period e) = net_balance w c a (je_period e) - (entry_on jl_debit a e - entry_on jl_credit a e)" for a
  proof -
    have "ledger_sum f (update_rows ?hit ?g (t_entry w)) c a (je_period e) = ledger_sum f (t_entry w) c a (je_period e)" for f
      unfolding ledger_sum_update_rows by (subst sum_list_all_0) (auto simp: in_ledger_def entry_on_def)
    then show ?thesis
      using E(6-8,10) by (simp add: net_balance_inv [OF inv] net_balance_inv [OF inv'] E(4) in_ledger_def)
  qed
  have once: "\<not> ?hit x" if "x \<in> set (t_entry w')" for x
  proof
    assume "?hit x"
    moreover have "x = ?g e" by (rule distinct_map_eq [OF ids' that \<open>?g e \<in> set (t_entry w')\<close>]) (use \<open>?hit x\<close> e in simp)
    ultimately show False by simp
  qed
  have "e' \<in> set (t_entry w')" by (simp add: E(4))
  from find_by_id [OF ids' this E(6)] have "find_first (\<lambda>r. je_id r = y \<and> je_company r = c) (t_entry w') = Some e'"
    by (simp add: E(5))
  from reverse_refused(1) [OF this E(9)] reverse_refused(2) [OF found] E(1-3) found net once
  show ?thesis by auto
qed

lemma reversal_cancels_the_entry_once_witness:
  "net_balance (snd (reverse_entry (\<lambda>_. None) [] ''C'' ''U'' None books1)) ''C'' ''A'' ''P'' = 0"
proof -
  let ?run = "reverse_entry (\<lambda>_. None) [] ''C'' ''U'' None books1"
  have "\<not> isl (fst ?run)" by code_simp
  then obtain x y w' where run: "?run = (Inr (x, y), w')" using run_succeeds by (metis surj_pair)
  have "map_option je_period (find_first (\<lambda>r. je_id r = [] \<and> je_company r = ''C'') (t_entry books1)) = Some ''P''"
    and "map_option (entry_on jl_debit ''A'') (find_first (\<lambda>r. je_id r = [] \<and> je_company r = ''C'') (t_entry books1)) = Some 10"
    and "map_option (entry_on jl_credit ''A'') (find_first (\<lambda>r. je_id r = [] \<and> je_company r = ''C'') (t_entry books1)) = Some 0"
    and "net_balance books1 ''C'' ''A'' ''P'' = 10"
    by code_simp+
  then have "net_balance w' ''C'' ''A'' ''P'' = 0"
    using reversal_cancels_the_entry_once [OF ledger_bus_empty books1_reachable run] by auto
  then show ?thesis using run by simp
qed

text \<open>
  An entry can only be reversed while its period lasts. The reversal is dated now and goes
  into the period of the original, so once the period's end date has passed every reversal fails and
  nothing changes, although the period may still be OPEN.
\<close>

theorem late_reversal_fails:
  assumes "ledger_bus bus" and "ledger_reachable bus w"
    and "find_first (\<lambda>r. je_id r = i \<and> je_company r = c) (t_entry w) = Some e"
    and "find_first (\<lambda>r. fp_id r = je_period e \<and> fp_company r = c) (t_period w) = Some per" and "fp_end per < now w"
  shows "\<exists>x. reverse_entry bus i c user reason w = (Inl x, w)"
proof (cases "fst (reverse_entry bus i c user reason w)")
  case (Inl x)
  then have "reverse_entry bus i c user reason w = (Inl x, snd (reverse_entry bus i c user reason w))"
    by (metis prod.collapse)
  moreover from this have "snd (reverse_entry bus i c user reason w) = w"
    unfolding reverse_entry_def by (rule transaction_rollback)
  ultimately show ?thesis by metis
next
  case (Inr y)
  then have run: "reverse_entry bus i c user reason w = (Inr y, snd (reverse_entry bus i c user reason w))"
    by (metis prod.collapse)
  have inv: "ledger_inv w" by (rule ledger_reachable_inv [OF assms(2,1)])
  obtain r w2 where "execute_post bus (reversal_input w e c user reason) (claim i c w) = (Inr r, w2)"
    using reverse_entry_Inr [OF run] assms(3) by auto
  moreover have "distinct (map ac_id (t_account (claim i c w)))" using inv by (simp add: claim_def ledger_inv_def)
  ultimately have "postable (claim i c w) c (now w) (je_period e) (pi_lines (reversal_input w e c user reason))"
    using execute_post_Inr(1) by fastforce
  then show ?thesis using assms(4,5) by (auto simp: postable_def claim_def)
qed

lemma late_reversal_fails_witness:
  "\<exists>x. reverse_entry (\<lambda>_. None) [] ''C'' ''U'' None (books1\<lparr>now := 11\<rparr>) = (Inl x, books1\<lparr>now := 11\<rparr>)"
proof -
  have acc: "distinct (map ac_id (t_account books1))" by code_simp
  have r: "ledger_reachable (\<lambda>_. None) (books1\<lparr>now := 11\<rparr>)"
    by (rule ledger_reachable.step [OF books1_reachable], rule ledger_step.elsewhere) (simp_all add: acc)
  have "map_option je_period (find_first (\<lambda>r. je_id r = [] \<and> je_company r = ''C'') (t_entry (books1\<lparr>now := 11\<rparr>))) = Some ''P''"
    and "map_option fp_end (find_first (\<lambda>r. fp_id r = ''P'' \<and> fp_company r = ''C'') (t_period (books1\<lparr>now := 11\<rparr>))) = Some 10"
    by code_simp+
  then obtain e per where e: "find_first (\<lambda>r. je_id r = [] \<and> je_company r = ''C'') (t_entry (books1\<lparr>now := 11\<rparr>)) = Some e"
    and per: "find_first (\<lambda>r. fp_id r = je_period e \<and> fp_company r = ''C'') (t_period (books1\<lparr>now := 11\<rparr>)) = Some per"
    and "fp_end per = 10" by auto
  then show ?thesis by (intro late_reversal_fails [OF ledger_bus_empty r e per]) simp
qed

text \<open>
  The validator lets a negative line through as long as the totals are not negative. An
  entry with a line of -5 and lines of 15 and 10 is accepted and stored with its negative debit.
\<close>

theorem negative_lines_are_accepted:
  "map (\<lambda>e. map jl_debit (je_lines e)) (t_entry (snd (gl_post (\<lambda>_. None) (input0
     (\<lparr>pl_account = ''A'', pl_debit = Amount (-5), pl_credit = Blank, pl_description = None\<rparr> #
      two_lines (Amount 15) (Amount 10))) books0))) = [[-5, 15, 0]]"
  by code_simp

text \<open>
  Amounts below the scale of the columns can leave an unbalanced entry in the ledger. Three
  lines of 0.00004 against one of 0.00012 pass the validator, which compares exact sums, and are stored
  as 0, 0, 0 against 0.0001.
\<close>

theorem sub_scale_amounts_unbalance_the_entry:
  "map (\<lambda>e. ((\<Sum>l\<leftarrow>je_lines e. jl_debit l), (\<Sum>l\<leftarrow>je_lines e. jl_credit l))) (t_entry (snd (gl_post (\<lambda>_. None) (input0
     (replicate 3 \<lparr>pl_account = ''A'', pl_debit = Amount (4 / 100000), pl_credit = Blank, pl_description = None\<rparr> @
      [\<lparr>pl_account = ''B'', pl_debit = Blank, pl_credit = Amount (12 / 100000), pl_description = None\<rparr>])) books0))) =
   [(0, 1 / 10000)]"
  by code_simp

end
