(* ===== verification/InventoryFinance.thy ===== *)
theory InventoryFinance
  imports Stock LedgerFlow
begin

text \<open>
  The bridge from stock to the ledger: \<^verbatim>\<open>inventory/events/finance-integration.handler.ts\<close>, the
  subscriber of \<^verbatim>\<open>inventory.adjusted\<close> that posts Dr 1300 / Cr 5100 for an increase and the reverse for a
  decrease, inside the transaction of the adjustment. With it, the assumptions the inventory theorems
  make of their bus are discharged for the bus the program builds.
\<close>

section \<open>The handler\<close>

definition ACCOUNT_CODES :: "string list" where
  "ACCOUNT_CODES = [''1300'', ''5000'', ''5100'', ''5200'']"

definition opt_field :: "string \<Rightarrow> string option \<Rightarrow> (string \<times> json) list" where
  "opt_field k v = (case v of None \<Rightarrow> [] | Some s \<Rightarrow> [(k, JStr s)])"

definition to_reference :: "world \<Rightarrow> adjusted_payload \<Rightarrow> json" where
  "to_reference w p = JObj (opt_field ''referenceType'' (ap_refType p) @ opt_field ''referenceId'' (ap_refId p) @
     [(''productId'', JStr (ap_product p)), (''warehouseId'', JStr (ap_warehouse p)), (''quantity'', jint (ap_quantity p))] @
     opt_field ''unitCost'' (map_option (dec_str w) (ap_unitCost p)) @ [(''reason'', JStr (ap_reason p))])"

text \<open>The details are the fields after \<^verbatim>\<open>reference\<close>; \<open>??\<close> replaces only an absent value.\<close>

definition log_skip :: "string \<Rightarrow> adjusted_payload \<Rightarrow> (world \<Rightarrow> (string \<times> json) list) \<Rightarrow> unit wtx" where
  "log_skip action p details =
     bind (ask (\<lambda>w. JObj ((''reference'', to_reference w p) # details w))) (\<lambda>after.
     audit_log \<lparr>au_company = Some (ap_company p), au_user = ap_by p, au_entity = ''FinanceJournal'',
       au_entityId = (case ap_refType p of Some s \<Rightarrow> s | None \<Rightarrow> ''unknown'') @ '':'' @
         (case ap_refId p of Some s \<Rightarrow> s | None \<Rightarrow> ''n/a''),
       au_action = action, au_before = None, au_after = Some after\<rparr>)"

definition log_skip_best_effort :: "string \<Rightarrow> adjusted_payload \<Rightarrow> (world \<Rightarrow> (string \<times> json) list) \<Rightarrow> unit wtx" where
  "log_skip_best_effort action p details = catch (log_skip action p details) (\<lambda>_. ret ())"

text \<open>\<^verbatim>\<open>accountMap\<close>: a later row of the same code overrides an earlier one.\<close>

definition account_map :: "account_row list \<Rightarrow> (string \<rightharpoonup> string)" where
  "account_map rows = fold (\<lambda>a m. m(ac_code a \<mapsto> ac_id a)) rows Map.empty"

definition inventory_accounts :: "string \<Rightarrow> account_row list wtx" where
  "inventory_accounts c = ask (\<lambda>w. find_many (\<lambda>a. ac_code a \<in> set ACCOUNT_CODES \<and> live_account c a) (t_account w))"

text \<open>\<^verbatim>\<open>findFirst\<close> with \<^verbatim>\<open>orderBy: startDate desc\<close>; equal start dates come in table order.\<close>

definition latest_open_period :: "string \<Rightarrow> period_row option wtx" where
  "latest_open_period c = ask (\<lambda>w.
     case sort_key (\<lambda>r. - fp_start r) (find_many (\<lambda>r. fp_company r = c \<and> fp_status r = Open) (t_period w)) of
       [] \<Rightarrow> None | r # _ \<Rightarrow> Some r)"

definition journal_amount :: "adjusted_payload \<Rightarrow> decimal" where
  "journal_amount p = (case ap_totalCost p of
       Some t \<Rightarrow> t
     | None \<Rightarrow> (case ap_unitCost p of Some u \<Rightarrow> u | None \<Rightarrow> 0) * of_int \<bar>ap_after p - ap_before p\<bar>)"

definition journal_lines :: "adjusted_payload \<Rightarrow> string \<Rightarrow> string \<Rightarrow> post_line list" where
  "journal_lines p inventory adjustment =
     (let amount = Amount (journal_amount p); zero = Amount 0;
          increase = 0 < ap_after p - ap_before p;
          description = Some (''Inventory adjustment: '' @ ap_reason p) in
      [\<lparr>pl_account = inventory, pl_debit = if increase then amount else zero,
         pl_credit = if increase then zero else amount, pl_description = description\<rparr>,
       \<lparr>pl_account = adjustment, pl_debit = if increase then zero else amount,
         pl_credit = if increase then amount else zero, pl_description = description\<rparr>])"

definition adjustment_input ::
  "string \<Rightarrow> adjusted_payload \<Rightarrow> period_row \<Rightarrow> string \<Rightarrow> string \<Rightarrow> int \<Rightarrow> post_input" where
  "adjustment_input eventId p period inventory adjustment clock =
     \<lparr>pi_company = ap_company p, pi_period = fp_id period, pi_date = clock,
      pi_description = Some (''Inventory adjustment: '' @ ap_reason p), pi_refType = Some ''INVENTORY_ADJUSTMENT'',
      pi_refId = Some (case ap_refId p of Some s \<Rightarrow> s | None \<Rightarrow> ap_product p), pi_createdBy = ap_by p,
      pi_clientOp = Some eventId, pi_lines = journal_lines p inventory adjustment\<rparr>"

definition already_journalled :: "string \<Rightarrow> string \<Rightarrow> entry_row option wtx" where
  "already_journalled c eventId = ask (\<lambda>w. find_first (\<lambda>r. je_company r = c \<and> je_clientOp r = Some eventId) (t_entry w))"

text \<open>
  \<open>in_tx\<close>: whether the publisher passed its transaction client in the context. The reason of the zero
  amount ends before its dash, which is no ASCII character.
\<close>

definition handle_adjusted :: "event_bus \<Rightarrow> bool \<Rightarrow> string \<Rightarrow> adjusted_payload \<Rightarrow> unit wtx" where
  "handle_adjusted ledger_events in_tx eventId p =
    (if \<not> in_tx then log_skip_best_effort ''GL_SKIP_NO_TX_CONTEXT'' p (\<lambda>_. [(''reason'', JStr ''no transaction context on event'')])
     else
       bind (already_journalled (ap_company p) eventId) (\<lambda>existing.
       if existing \<noteq> None then ret ()
       else
         bind (inventory_accounts (ap_company p)) (\<lambda>accounts.
         case (account_map accounts ''1300'', account_map accounts ''5100'') of
           (Some inventory, Some adjustment) \<Rightarrow>
             bind (latest_open_period (ap_company p)) (\<lambda>found.
             case found of
               None \<Rightarrow> log_skip ''GL_SKIP_NO_PERIOD'' p (\<lambda>w. [(''reason'', JStr ''no OPEN financial period''),
                 (''expectedDate'', JStr (iso_str w (now w)))])
             | Some period \<Rightarrow>
                 if journal_amount p = 0
                 then log_skip ''GL_SKIP_ZERO_AMOUNT'' p (\<lambda>_. [(''reason'', JStr ''zero valuation amount''), (''amount'', JStr ''0'')])
                 else
                   bind (ask now) (\<lambda>clock.
                   bind (execute_post ledger_events (adjustment_input eventId p period inventory adjustment clock)) (\<lambda>_.
                   ret ())))
         | (found_inventory, found_adjustment) \<Rightarrow> log_skip ''GL_SKIP_NO_ACCOUNTS'' p (\<lambda>_.
             [(''reason'', JStr ''inventory chart of accounts not configured''),
              (''missingAccountCodes'', JArr ((if found_inventory = None then [JStr ''1300''] else []) @
                 (if found_adjustment = None then [JStr ''5100''] else [])))]))))"

definition adjusted_handler :: "event_bus \<Rightarrow> domain_event \<Rightarrow> unit wtx" where
  "adjusted_handler ledger_events ev = (case ev of
       InventoryAdjusted eventId p \<Rightarrow> handle_adjusted ledger_events True eventId p
     | _ \<Rightarrow> ret ())"

text \<open>The subscription \<^verbatim>\<open>inventory.module.ts\<close> makes when the module starts.\<close>

definition finance_bus :: "event_bus \<Rightarrow> event_bus" where
  "finance_bus ledger_events = subscribe ''inventory.adjusted'' 0 (adjusted_handler ledger_events) None (\<lambda>_. None)"


section \<open>What the handler leaves alone\<close>

lemma frame_amounts [frame_intros]:
  "frame g (decimal_of a)" "frame g (check_amounts ls)" "frame g (sum_amounts ls d k)"
  "frame g (validate_posting c d' p ls)"
proof -
  show dec: "frame g (decimal_of a)" for a by (rule frameI) (simp add: decimal_of_run)
  show ch: "frame g (check_amounts ls)" by (rule frameI) (auto dest: check_amounts_same)
  show su: "frame g (sum_amounts ls d k)"
    by (induction ls arbitrary: d k) (auto intro!: frame_intros dec)
  show "frame g (validate_posting c d' p ls)" by (rule frameI) (auto dest: validate_posting_same)
qed

lemma frame_create_lines:
  "(\<And>h w. g (uuid_next_update h w) = g w) \<Longrightarrow> frame g (create_lines ls)"
  by (induction ls) (auto intro!: frame_intros)

text \<open>A posting publishes \<^verbatim>\<open>journal.posted\<close> and nothing else.\<close>

lemma frame_execute_post_events:
  assumes "\<And>e p. frame g (publish_event bus (JournalPosted e p))" and "\<And>h w. g (t_entry_update h w) = g w"
    and "\<And>h w. g (t_balance_update h w) = g w" and "\<And>h w. g (t_seq_update h w) = g w" and "\<And>h w. g (t_audit_update h w) = g w"
    and "\<And>h w. g (uuid_next_update h w) = g w"
  shows "frame g (execute_post bus i)"
  unfolding execute_post_def get_next_entry_number_def create_in_transaction_def mark_posted_def
    update_account_balances_def upsert_balance_def post_audit_def publish_posted_def Let_def
  by (intro frame_intros frame_create_lines assms)

lemma frame_execute_post [frame_intros]:
  assumes "bus_frame g bus" and "\<And>h w. g (t_entry_update h w) = g w" and "\<And>h w. g (t_balance_update h w) = g w"
    and "\<And>h w. g (t_seq_update h w) = g w" and "\<And>h w. g (t_audit_update h w) = g w"
    and "\<And>h w. g (uuid_next_update h w) = g w"
  shows "frame g (execute_post bus i)"
  by (rule frame_execute_post_events [OF frame_publish_event [OF assms(1)] assms(2-)])

lemma frame_handle_adjusted:
  assumes "bus_frame g bus" and "\<And>h w. g (t_entry_update h w) = g w" and "\<And>h w. g (t_balance_update h w) = g w"
    and "\<And>h w. g (t_seq_update h w) = g w" and "\<And>h w. g (t_audit_update h w) = g w"
    and "\<And>h w. g (uuid_next_update h w) = g w"
  shows "frame g (handle_adjusted bus in_tx eventId p)"
  unfolding handle_adjusted_def log_skip_best_effort_def log_skip_def already_journalled_def inventory_accounts_def
    latest_open_period_def case_prod_conv
  by (intro frame_intros assms)

lemma advances_decimal_of [frame_intros]: "advances (decimal_of a)"
  by (rule advancesI) (auto simp: decimal_of_run split: if_splits)

lemma advances_create_lines: "advances (create_lines ls)"
  by (induction ls; simp only: create_lines.simps; (intro frame_intros | assumption)+)

lemma advances_validate: "advances (validate_posting c d p ls)"
  by (rule advancesI) (auto dest: validate_posting_same)

lemma advances_execute_post [frame_intros]:
  assumes "\<And>ev. advances (publish_event bus ev)"
  shows "advances (execute_post bus i)"
  unfolding execute_post_def get_next_entry_number_def create_in_transaction_def mark_posted_def
    update_account_balances_def upsert_balance_def post_audit_def publish_posted_def Let_def
  by (intro frame_intros advances_create_lines advances_validate assms; simp)

lemma advances_handle_adjusted:
  assumes "\<And>ev. advances (publish_event bus ev)"
  shows "advances (handle_adjusted bus in_tx eventId p)"
  unfolding handle_adjusted_def log_skip_best_effort_def log_skip_def already_journalled_def inventory_accounts_def
    latest_open_period_def case_prod_conv
  by (intro frame_intros assms)

text \<open>The bus the program builds leaves stock, movements, layers and counts to their services.\<close>

lemma frame_adjusted_handler:
  assumes "bus_frame g bus" and "\<And>h w. g (t_entry_update h w) = g w" and "\<And>h w. g (t_balance_update h w) = g w"
    and "\<And>h w. g (t_seq_update h w) = g w" and "\<And>h w. g (t_audit_update h w) = g w"
    and "\<And>h w. g (uuid_next_update h w) = g w"
  shows "frame g (adjusted_handler bus ev)"
  using frame_handle_adjusted [OF assms] by (cases ev) (auto simp: adjusted_handler_def intro: frame_intros)

lemma finance_bus_frame:
  assumes "bus_frame g bus" and "\<And>h w. g (t_entry_update h w) = g w" and "\<And>h w. g (t_balance_update h w) = g w"
    and "\<And>h w. g (t_seq_update h w) = g w" and "\<And>h w. g (t_audit_update h w) = g w"
    and "\<And>h w. g (uuid_next_update h w) = g w"
  shows "bus_frame g (finance_bus bus)"
  unfolding finance_bus_def by (rule bus_frame_subscribe [OF bus_frame_empty frame_adjusted_handler]) (rule assms)+

lemma ordered_handlers_one: "ordered_handlers (subscribe n ref h prio (\<lambda>_. None)) m =
    (if m = n then [\<lparr>hd_ref = ref, hd_priority = (case prio of None \<Rightarrow> DEFAULT_EVENT_HANDLER_PRIORITY | Some p \<Rightarrow> p),
       hd_handle = h\<rparr>] else [])"
  by (simp add: ordered_handlers_def subscribe_def subscribed_def)

lemma publish_finance_bus:
  "publish_event (finance_bus bus) ev =
    (if event_name ev = ''inventory.adjusted'' then bind (adjusted_handler bus ev) (\<lambda>_. ret ()) else ret ())"
  by (simp add: publish_event_def publish_def finance_bus_def ordered_handlers_one)

lemma tame_finance_bus:
  assumes "tame_bus bus"
  shows "tame_bus (finance_bus bus)"
proof -
  have A: "\<And>ev. advances (publish_event bus ev)" and F: "bus_frame inventory_tables bus"
    using assms by (simp_all add: tame_bus_def)
  have "advances (adjusted_handler bus ev)" for ev
    by (cases ev) (auto simp: adjusted_handler_def intro: advances_handle_adjusted [OF A] frame_intros)
  then have "advances (publish_event (finance_bus bus) ev)" for ev
    unfolding publish_finance_bus by (intro frame_intros)
  moreover have "bus_frame inventory_tables (finance_bus bus)"
    by (rule finance_bus_frame [OF F]) (simp_all add: inventory_tables_def)
  ultimately show ?thesis by (simp add: tame_bus_def)
qed

section \<open>What the handler posts\<close>

lemma account_map_in: "account_map rows k = Some i \<Longrightarrow> \<exists>a \<in> set rows. ac_code a = k \<and> ac_id a = i"
proof -
  have "fold (\<lambda>a m. m(ac_code a \<mapsto> ac_id a)) rows m k = Some i \<Longrightarrow> m k = None \<Longrightarrow>
      \<exists>a \<in> set rows. ac_code a = k \<and> ac_id a = i" for m
  proof (induction rows rule: rev_induct)
    case Nil
    then show ?case by simp
  next
    case (snoc a rows)
    then show ?case by (auto split: if_splits)
  qed
  then show "account_map rows k = Some i \<Longrightarrow> \<exists>a \<in> set rows. ac_code a = k \<and> ac_id a = i"
    by (simp add: account_map_def)
qed

lemma latest_open_period_in:
  assumes "latest_open_period c w = (Inr (Some per), w')"
  shows "per \<in> set (t_period w) \<and> fp_company per = c \<and> fp_status per = Open"
proof -
  let ?l = "sort_key (\<lambda>r. - fp_start r) (find_many (\<lambda>r. fp_company r = c \<and> fp_status r = Open) (t_period w))"
  obtain rest where "?l = per # rest" using assms by (auto simp: latest_open_period_def split: list.splits)
  then have "per \<in> set ?l" by (metis list.set_intros(1))
  then show ?thesis by (simp add: find_many_def)
qed

lemma journal_lines_facts:
  "debit_sum (journal_lines p x y) = journal_amount p" "credit_sum (journal_lines p x y) = journal_amount p"
  "length (journal_lines p x y) = 2" "map pl_account (journal_lines p x y) = [x, y]"
  "journal_amount p \<noteq> 0 \<Longrightarrow> \<forall>l \<in> set (journal_lines p x y). nonzero_line l"
  "scale4 (journal_amount p) \<Longrightarrow> scale4_lines (journal_lines p x y)"
  by (simp_all add: journal_lines_def Let_def debit_sum_def credit_sum_def nonzero_line_def readable_def scale4_lines_def)


lemma handle_adjusted_posts:
  assumes "find_first (\<lambda>r. je_company r = ap_company p \<and> je_clientOp r = Some eid) (t_entry w) = None"
    and "inventory_accounts (ap_company p) w = (Inr accounts, w)" and "account_map accounts ''1300'' = Some x"
    and "account_map accounts ''5100'' = Some y" and "latest_open_period (ap_company p) w = (Inr (Some per), w)"
    and "journal_amount p \<noteq> 0"
  shows "handle_adjusted bus True eid p w =
    bind (execute_post bus (adjustment_input eid p per x y (now w))) (\<lambda>_. ret ()) w"
  using assms by (simp add: handle_adjusted_def already_journalled_def bind_def [of "ask now"])

lemma adjustment_postable:
  assumes acc: "inventory_accounts (ap_company p) w = (Inr accounts, w)" "account_map accounts ''1300'' = Some x"
      "account_map accounts ''5100'' = Some y"
    and per: "latest_open_period (ap_company p) w = (Inr (Some per), w)" "distinct (map fp_id (t_period w))"
      "fp_start per \<le> d" "d \<le> fp_end per"
    and "0 < journal_amount p"
  shows "postable w (ap_company p) d (fp_id per) (journal_lines p x y)"
proof -
  have P: "per \<in> set (t_period w)" "fp_company per = ap_company p" "fp_status per = Open"
    using latest_open_period_in [OF per(1)] by simp_all
  have "find_first (\<lambda>r. fp_id r = fp_id per \<and> fp_company r = ap_company p) (t_period w) = Some per"
  proof -
    have "filter (\<lambda>r. fp_id r = fp_id per \<and> fp_company r = ap_company p) (t_period w) =
        filter (\<lambda>r. fp_company r = ap_company p) (filter (\<lambda>r. fp_id r = fp_id per) (t_period w))"
      by (simp add: conj_ac)
    then show ?thesis using filter_key [OF per(2) P(1)] P(2) by (intro find_first_filter) simp
  qed
  moreover have "\<exists>a \<in> set (t_account w). ac_id a = i \<and> live_account (ap_company p) a" if "account_map accounts k = Some i" for k i
    using account_map_in [OF that] acc(1) by (auto simp: inventory_accounts_def find_many_def)
  then have "\<forall>l \<in> set (journal_lines p x y). \<exists>a \<in> set (t_account w). ac_id a = pl_account l \<and> live_account (ap_company p) a"
    using acc(2,3) by (auto simp: journal_lines_def Let_def)
  ultimately show ?thesis
    using P assms(6-8) journal_lines_facts [of p x y] by (simp add: postable_def)
qed

section \<open>Properties\<close>


text \<open>
  A period opened ahead of time blocks stock adjustments. The handler dates its entry now
  but picks the OPEN period with the latest start date; if that period starts in the future, every
  adjustment with an amount fails, and the whole inventory operation is rolled back with it, although an
  OPEN period for the current date may exist.
\<close>

theorem future_period_blocks_adjustments:
  assumes "find_first (\<lambda>r. je_company r = ap_company p \<and> je_clientOp r = Some eid) (t_entry w) = None"
    and "inventory_accounts (ap_company p) w = (Inr accounts, w)" and "account_map accounts ''1300'' = Some x"
    and "account_map accounts ''5100'' = Some y" and "latest_open_period (ap_company p) w = (Inr (Some per), w)"
    and "distinct (map fp_id (t_period w))" and "journal_amount p \<noteq> 0" and "now w < fp_start per"
  shows "handle_adjusted bus True eid p w = (Inl (BadRequest ''Entry date is outside the period''), w)"
proof -
  have P: "per \<in> set (t_period w)" "fp_company per = ap_company p" "fp_status per = Open"
    using latest_open_period_in [OF assms(5)] by simp_all
  have "filter (\<lambda>r. fp_id r = fp_id per \<and> fp_company r = ap_company p) (t_period w) =
      filter (\<lambda>r. fp_company r = ap_company p) (filter (\<lambda>r. fp_id r = fp_id per) (t_period w))"
    by (simp add: conj_ac)
  then have "find_first (\<lambda>r. fp_id r = fp_id per \<and> fp_company r = ap_company p) (t_period w) = Some per"
    using filter_key [OF assms(6) P(1)] P(2) by (intro find_first_filter) simp
  then have "validate_posting (ap_company p) (now w) (fp_id per) (journal_lines p x y) w =
      (Inl (BadRequest ''Entry date is outside the period''), w)"
    using P assms(8) by (simp add: validate_posting_def find_period_def)
  then show ?thesis
    unfolding handle_adjusted_posts [OF assms(1-5,7)] by (simp add: execute_post_def adjustment_input_def)
qed


section \<open>Witnesses\<close>

definition stock_books :: "int \<Rightarrow> world" where
  "stock_books start = empty_world\<lparr>now := 5,
     t_account := [\<lparr>ac_id = ''I'', ac_company = ''C'', ac_code = ''1300'', ac_name = ''1300'', ac_type = ASSET, ac_normal = DebitNormal, ac_active = True,
         ac_cashOrBank = False, ac_deleted = None\<rparr>,
       \<lparr>ac_id = ''J'', ac_company = ''C'', ac_code = ''5100'', ac_name = ''5100'', ac_type = EXPENSE, ac_normal = DebitNormal, ac_active = True,
         ac_cashOrBank = False, ac_deleted = None\<rparr>],
     t_period := [\<lparr>fp_id = ''P'', fp_company = ''C'', fp_name = ''p'', fp_year = 1970, fp_month = 1, fp_start = 0,
         fp_end = 10, fp_status = Open, fp_openedBy = None, fp_closedBy = None, fp_closedAt = None,
         fp_notes = None, fp_version = 0\<rparr>,
       \<lparr>fp_id = ''Q'', fp_company = ''C'', fp_name = ''q'', fp_year = 1970, fp_month = 2, fp_start = start,
         fp_end = 20, fp_status = Open, fp_openedBy = None, fp_closedBy = None, fp_closedAt = None,
         fp_notes = None, fp_version = 0\<rparr>]\<rparr>"

definition loss :: adjusted_payload where
  "loss = \<lparr>ap_product = ''p'', ap_company = ''C'', ap_warehouse = ''w'', ap_quantity = - 3, ap_before = 10, ap_after = 7,
     ap_reason = ''r'', ap_by = ''U'', ap_refType = None, ap_refId = None, ap_comment = None,
     ap_unitCost = Some 2, ap_totalCost = None, ap_costBasis = None\<rparr>"

lemma stock_books_facts:
  "distinct (map fp_id (t_period (stock_books s)))"
  "find_first (\<lambda>r. je_company r = ap_company loss \<and> je_clientOp r = Some e) (t_entry (stock_books s)) = None"
  "inventory_accounts (ap_company loss) (stock_books s) = (Inr (t_account (stock_books s)), stock_books s)"
  "account_map (t_account (stock_books s)) ''1300'' = Some ''I''"
  "account_map (t_account (stock_books s)) ''5100'' = Some ''J''"
  "journal_amount loss = 6" "now (stock_books s) = 5"
  by (simp_all add: stock_books_def empty_world_def loss_def inventory_accounts_def ACCOUNT_CODES_def find_many_def
      live_account_def account_map_def journal_amount_def)


lemma future_period_blocks_adjustments_witness:
  "handle_adjusted (\<lambda>_. None) True ''E'' loss (stock_books 11) =
    (Inl (BadRequest ''Entry date is outside the period''), stock_books 11)"
proof -
  obtain per where per: "latest_open_period (ap_company loss) (stock_books 11) = (Inr (Some per), stock_books 11)"
    and d: "fp_start per = 11"
    by (simp add: latest_open_period_def stock_books_def empty_world_def loss_def find_many_def)
  show ?thesis
    using future_period_blocks_adjustments [OF stock_books_facts(2-5) per stock_books_facts(1)] d
    by (simp add: stock_books_facts)
qed

end
