(* ===== verification/Payments.thy ===== *)
theory Payments
  imports Events "HOL-Library.AList"
begin

text \<open>
  How money is split over payment methods: \<^verbatim>\<open>sales/services/payment-allocation.ts\<close> (a sale's payments
  into the buckets of the cash shift) and
  \<^verbatim>\<open>sales-refund/services/refund-payment-allocation.service.ts\<close> (a partial refund over the methods the
  sale was paid with: proportional shares rounded down, then the remainder in steps of 0.0001). A
  \<^verbatim>\<open>Map\<close> is the list of its entries in insertion order; \<open>AList.update\<close> is \<^verbatim>\<open>Map.set\<close>.
\<close>

section \<open>Buckets of a cash shift\<close>

record shift_alloc =
  sl_cash :: decimal
  sl_card :: decimal
  sl_qr :: decimal
  sl_bank :: decimal
  sl_mobile :: decimal

definition empty_alloc :: shift_alloc where
  "empty_alloc = \<lparr>sl_cash = 0, sl_card = 0, sl_qr = 0, sl_bank = 0, sl_mobile = 0\<rparr>"

text \<open>One round of the loop; the methods without a bucket are refused.\<close>

definition add_payment :: "payment_method \<Rightarrow> decimal \<Rightarrow> shift_alloc \<Rightarrow> shift_alloc option" where
  "add_payment m amount a = (case m of
       CASH \<Rightarrow> Some (a\<lparr>sl_cash := sl_cash a + amount\<rparr>)
     | CARD \<Rightarrow> Some (a\<lparr>sl_card := sl_card a + amount\<rparr>)
     | QR \<Rightarrow> Some (a\<lparr>sl_qr := sl_qr a + amount\<rparr>)
     | BANK_TRANSFER \<Rightarrow> Some (a\<lparr>sl_bank := sl_bank a + amount\<rparr>)
     | MOBILE_WALLET \<Rightarrow> Some (a\<lparr>sl_mobile := sl_mobile a + amount\<rparr>)
     | STORE_CREDIT \<Rightarrow> None
     | GIFT_CARD \<Rightarrow> None)"

primrec allocate_loop :: "payment_row list \<Rightarrow> shift_alloc \<Rightarrow> shift_alloc wtx" where
  "allocate_loop [] a = ret a"
| "allocate_loop (p # ps) a =
     bind (require_some (add_payment (pm_method p) (pm_amount p) a) (BadRequest ''Unsupported payment method''))
       (allocate_loop ps)"

definition allocate_shift_sales :: "payment_row list \<Rightarrow> shift_alloc wtx" where
  "allocate_shift_sales payments = allocate_loop payments empty_alloc"

definition shift_sales_total :: "shift_alloc \<Rightarrow> decimal" where
  "shift_sales_total a = sl_cash a + sl_card a + sl_qr a + sl_bank a + sl_mobile a"

definition paid_total :: "payment_row list \<Rightarrow> decimal" where
  "paid_total ps = (\<Sum>p\<leftarrow>ps. pm_amount p)"

definition drawer_methods :: "payment_row list \<Rightarrow> bool" where
  "drawer_methods ps \<longleftrightarrow> (\<forall>p \<in> set ps. pm_method p \<noteq> STORE_CREDIT \<and> pm_method p \<noteq> GIFT_CARD)"

lemma allocate_loop_run:
  "\<exists>b. allocate_loop ps a w = (if drawer_methods ps then Inr b else Inl (BadRequest ''Unsupported payment method''), w) \<and>
     (drawer_methods ps \<longrightarrow> shift_sales_total b = shift_sales_total a + paid_total ps)"
proof (induction ps arbitrary: a)
  case Nil
  show ?case by (rule exI [of _ a]) (simp add: drawer_methods_def paid_total_def)
next
  case (Cons p ps)
  show ?case
  proof (cases "add_payment (pm_method p) (pm_amount p) a")
    case None
    then have "pm_method p = STORE_CREDIT \<or> pm_method p = GIFT_CARD"
      by (cases "pm_method p") (simp_all add: add_payment_def)
    with None show ?thesis by (auto simp: drawer_methods_def bind_def)
  next
    case (Some b)
    then have m: "pm_method p \<noteq> STORE_CREDIT \<and> pm_method p \<noteq> GIFT_CARD"
      and s: "shift_sales_total b = shift_sales_total a + pm_amount p"
      by (cases "pm_method p"; auto simp: add_payment_def shift_sales_total_def)+
    have d: "drawer_methods (p # ps) = drawer_methods ps" using m by (simp add: drawer_methods_def)
    have step: "allocate_loop (p # ps) a w = allocate_loop ps b w" using Some by (simp add: bind_def)
    obtain z where z: "allocate_loop ps b w = (if drawer_methods ps then Inr z else Inl (BadRequest ''Unsupported payment method''), w)"
      "drawer_methods ps \<longrightarrow> shift_sales_total z = shift_sales_total b + paid_total ps"
      using Cons [of b] by blast
    show ?thesis
      by (rule exI [of _ z], unfold step d) (use z s in \<open>simp add: paid_total_def\<close>)
  qed
qed

lemma allocate_shift_sales_Inr:
  assumes "allocate_shift_sales ps w = (Inr a, w')"
  shows "w' = w \<and> drawer_methods ps \<and> shift_sales_total a = paid_total ps"
proof -
  obtain b where "allocate_loop ps empty_alloc w =
      (if drawer_methods ps then Inr b else Inl (BadRequest ''Unsupported payment method''), w)"
    "drawer_methods ps \<longrightarrow> shift_sales_total b = shift_sales_total empty_alloc + paid_total ps"
    using allocate_loop_run [of ps empty_alloc w] by blast
  with assms show ?thesis
    by (auto simp: allocate_shift_sales_def empty_alloc_def shift_sales_total_def split: if_splits)
qed

section \<open>Splitting a refund\<close>

definition MONEY_STEP :: decimal where
  "MONEY_STEP = 1 / 10000"

definition REMAINDER_DISTRIBUTION_ORDER :: "payment_method list" where
  "REMAINDER_DISTRIBUTION_ORDER = [CASH, CARD, QR, BANK_TRANSFER, MOBILE_WALLET, STORE_CREDIT, GIFT_CARD]"

definition CREDIT_PAYMENT_METHODS :: "payment_method list" where
  "CREDIT_PAYMENT_METHODS = [STORE_CREDIT, GIFT_CARD]"

definition is_credit_method :: "payment_method \<Rightarrow> bool" where
  "is_credit_method m \<longleftrightarrow> m \<in> set CREDIT_PAYMENT_METHODS"

type_synonym method_amounts = "(payment_method \<times> decimal) list"

text \<open>\<^verbatim>\<open>map.get(method) ?? ZERO\<close>.\<close>

definition bucket :: "method_amounts \<Rightarrow> payment_method \<Rightarrow> decimal" where
  "bucket m k = (case map_of m k of None \<Rightarrow> 0 | Some d \<Rightarrow> d)"

definition add_to :: "payment_method \<Rightarrow> decimal \<Rightarrow> method_amounts \<Rightarrow> method_amounts" where
  "add_to k d m = AList.update k (bucket m k + d) m"

definition amounts_total :: "method_amounts \<Rightarrow> decimal" where
  "amounts_total m = (\<Sum>(k, d)\<leftarrow>m. d)"

definition compute_effective_buckets :: "payment_row list \<Rightarrow> decimal \<Rightarrow> method_amounts" where
  "compute_effective_buckets payments changeAmount =
     (let effective = fold (\<lambda>p. add_to (pm_method p) (pm_amount p)) payments [] in
      case map_of effective CASH of
        None \<Rightarrow> effective
      | Some cashRaw \<Rightarrow> AList.update CASH (max 0 (cashRaw - changeAmount)) effective)"

text \<open>\<^verbatim>\<open>toDecimalPlaces(4, ROUND_DOWN)\<close>: towards zero.\<close>

definition down4 :: "decimal \<Rightarrow> decimal" where
  "down4 x = sgn x * (of_int \<lfloor>\<bar>x\<bar> * 10000\<rfloor> / 10000)"

definition first_pass :: "(decimal \<Rightarrow> decimal \<Rightarrow> decimal) \<Rightarrow> decimal \<Rightarrow> decimal \<Rightarrow> method_amounts \<Rightarrow> method_amounts" where
  "first_pass quot refundTotal saleTotal effective =
     filter (\<lambda>(_, share). 0 < share)
       (map (\<lambda>(m, b). (m, down4 (quot (refundTotal * b) saleTotal))) effective)"

text \<open>One pass of the remainder over the methods: allocations, remainder, amount handed out.\<close>

primrec remainder_cycle ::
  "payment_method list \<Rightarrow> method_amounts \<Rightarrow> method_amounts \<Rightarrow> method_amounts \<Rightarrow> decimal \<Rightarrow> decimal \<Rightarrow>
     method_amounts \<times> decimal \<times> decimal" where
  "remainder_cycle [] effective previous al remainder given = (al, remainder, given)"
| "remainder_cycle (m # ms) effective previous al remainder given =
     (if remainder < MONEY_STEP then (al, remainder, given)
      else if MONEY_STEP \<le> bucket effective m - bucket previous m - bucket al m
      then remainder_cycle ms effective previous (add_to m MONEY_STEP al) (remainder - MONEY_STEP) (given + MONEY_STEP)
      else remainder_cycle ms effective previous al remainder given)"

lemma remainder_cycle_gives:
  "remainder_cycle ms ef pr al r g = (al', r', g') \<Longrightarrow>
     r' = r - (g' - g) \<and> g \<le> g' \<and> (g' \<noteq> g \<longrightarrow> g + MONEY_STEP \<le> g') \<and> (0 \<le> r \<longrightarrow> 0 \<le> r')"
proof (induction ms arbitrary: al r g)
  case Nil
  then show ?case by simp
next
  case (Cons m ms)
  show ?case
  proof (cases "MONEY_STEP \<le> r \<and> MONEY_STEP \<le> bucket ef m - bucket pr m - bucket al m")
    case True
    with Cons.prems have "remainder_cycle ms ef pr (add_to m MONEY_STEP al) (r - MONEY_STEP) (g + MONEY_STEP) = (al', r', g')"
      by simp
    from Cons.IH [OF this] True show ?thesis by (auto simp: MONEY_STEP_def)
  next
    case False
    with Cons.prems Cons.IH show ?thesis by (auto split: if_splits)
  qed
qed

text \<open>
  The \<^verbatim>\<open>while\<close> loop; \<open>None\<close> is the exception of a pass that hands out nothing. Each other pass lowers
  the remainder by at least one step.
\<close>

function distribute_remainder :: "method_amounts \<Rightarrow> method_amounts \<Rightarrow> method_amounts \<Rightarrow> decimal \<Rightarrow> method_amounts option" where
  "distribute_remainder effective previous al remainder =
     (if 0 < remainder then
        (case remainder_cycle REMAINDER_DISTRIBUTION_ORDER effective previous al remainder 0 of
           (al', remainder', given) \<Rightarrow>
             if given = 0 then None else distribute_remainder effective previous al' remainder')
      else Some al)"
  by pat_completeness auto
termination
proof (relation "measure (\<lambda>(ef, pr, al, r). nat \<lceil>r * 10000\<rceil>)", goal_cases)
  case 1
  show ?case by simp
next
  case (2 ef pr al r al' y r' g)
  then have cyc: "remainder_cycle REMAINDER_DISTRIBUTION_ORDER ef pr al r 0 = (al', r', g)" and "g \<noteq> 0" "0 < r"
    by simp_all
  with remainder_cycle_gives [OF cyc] have "r' \<le> r - 1 / 10000" by (simp add: MONEY_STEP_def)
  then have "r' * 10000 \<le> r * 10000 - 1" by simp
  then have "\<lceil>r' * 10000\<rceil> \<le> \<lceil>r * 10000 - 1\<rceil>" by (rule ceiling_mono)
  moreover have "0 < \<lceil>r * 10000\<rceil>" using \<open>0 < r\<close> by simp
  ultimately show ?case by simp
qed

declare distribute_remainder.simps [simp del]

text \<open>The last checks, fact by fact.\<close>

definition check_fact :: "method_amounts \<Rightarrow> method_amounts \<Rightarrow> payment_method \<times> decimal \<Rightarrow> unit wtx" where
  "check_fact effective previous f =
     bind (require (\<not> snd f \<le> 0) (BadRequest ''Refund allocation must be positive'')) (\<lambda>_.
     require (\<not> bucket previous (fst f) + snd f > bucket effective (fst f))
       (BadRequest ''Refund allocation would exceed the effective payment bucket''))"

text \<open>Steps 4b to 7: from the buckets and the earlier allocations to the facts of this refund.\<close>

definition split_refund :: "method_amounts \<Rightarrow> method_amounts \<Rightarrow> decimal \<Rightarrow> decimal \<Rightarrow> method_amounts wtx" where
  "split_refund effective previous refundTotal saleTotal =
     bind (require (\<forall>(m, d) \<in> set previous. \<not> d > bucket effective m)
       (BadRequest ''Cumulative refund allocation exceeds the effective payment bucket'')) (\<lambda>_.
     bind (ask dec_div) (\<lambda>quot.
     let al = first_pass quot refundTotal saleTotal effective;
         remainder = refundTotal - amounts_total al in
     bind (require (\<not> remainder < 0) (BadRequest ''First-pass refund allocation exceeds the refund total'')) (\<lambda>_.
     bind (require_some (distribute_remainder effective previous al remainder)
       (BadRequest ''Cannot distribute the refund allocation remainder'')) (\<lambda>final.
     let facts = filter (\<lambda>(_, d). 0 < d) final in
     bind (require (amounts_total facts = refundTotal)
       (BadRequest ''Refund allocation does not conserve the refund total'')) (\<lambda>_.
     bind (for_each facts (check_fact effective previous)) (\<lambda>_.
     ret facts))))))"

text \<open>The allocation rows of every refund of the sale, aggregated per method.\<close>

definition previous_allocations :: "sale_row \<Rightarrow> method_amounts wtx" where
  "previous_allocations sale =
     bind (ask (\<lambda>w. map rf_id (find_many (\<lambda>r. rf_sale r = sa_id sale \<and> rf_company r = sa_company sale) (t_refund w)))) (\<lambda>refunds.
     if refunds = [] then ret []
     else bind (ask (\<lambda>w. find_many (\<lambda>a. ra_company a = sa_company sale \<and> ra_refund a \<in> set refunds \<and> ra_deleted a = None)
            (t_refund_alloc w))) (\<lambda>rows.
       ret (fold (\<lambda>a. add_to (ra_method a) (ra_amount a)) rows [])))"

definition payments_of :: "string \<Rightarrow> payment_row list wtx" where
  "payments_of sale = ask (\<lambda>w. find_many (\<lambda>p. pm_sale p = sale) (t_payment w))"

text \<open>Step 8: one row per fact.\<close>

definition insert_allocation :: "sale_row \<Rightarrow> string \<Rightarrow> string \<Rightarrow> payment_method \<times> decimal \<Rightarrow> unit wtx" where
  "insert_allocation sale refund user f =
     bind fresh_uuid (\<lambda>u.
     change (\<lambda>w. w\<lparr>t_refund_alloc := t_refund_alloc w @
       [\<lparr>ra_id = u, ra_company = sa_company sale, ra_refund = refund, ra_method = fst f, ra_amount = round4 (snd f),
         ra_currency = sa_currency sale, ra_createdBy = user, ra_deleted = None\<rparr>]\<rparr>))"

definition create_for_refund :: "sale_row \<Rightarrow> string \<Rightarrow> decimal \<Rightarrow> string \<Rightarrow> method_amounts wtx" where
  "create_for_refund sale refund refundTotal user =
     bind (require (\<not> refundTotal \<le> 0) (BadRequest ''Refund total must be positive'')) (\<lambda>_.
     bind (payments_of (sa_id sale)) (\<lambda>payments.
     let effective = compute_effective_buckets payments (sa_change sale) in
     bind (require (\<not> sa_total sale \<le> 0) (BadRequest ''Sale has a non-positive total'')) (\<lambda>_.
     bind (require (amounts_total effective = sa_total sale) (BadRequest ''Payment buckets of sale do not reconcile'')) (\<lambda>_.
     bind (previous_allocations sale) (\<lambda>previous.
     bind (split_refund effective previous refundTotal (sa_total sale)) (\<lambda>facts.
     bind (for_each facts (insert_allocation sale refund user)) (\<lambda>_.
     ret facts)))))))"


section \<open>Arithmetic of the buckets\<close>

lemma bucket_Nil [simp]: "bucket [] k = 0"
  by (simp add: bucket_def)

lemma bucket_update: "bucket (AList.update k d m) j = (if j = k then d else bucket m j)"
  by (simp add: bucket_def update_conv')

lemma bucket_add_to [simp]: "bucket (add_to k d m) j = bucket m j + (if j = k then d else 0)"
  by (simp add: add_to_def bucket_update)

lemma distinct_add_to [simp]: "distinct (map fst m) \<Longrightarrow> distinct (map fst (add_to k d m))"
  by (simp add: add_to_def distinct_update)

lemma bucket_in: "distinct (map fst m) \<Longrightarrow> (k, d) \<in> set m \<Longrightarrow> bucket m k = d"
  by (simp add: bucket_def)

lemma bucket_filter_pos:
  "distinct (map fst m) \<Longrightarrow> 0 \<le> bucket m k \<Longrightarrow> bucket (filter (\<lambda>(_, d). 0 < d) m) k = bucket m k"
proof (induction m)
  case Nil
  then show ?case by simp
next
  case (Cons a m)
  obtain j d where a: "a = (j, d)" by (cases a)
  have nin: "map_of m j = None" using Cons.prems(1) a by (simp add: map_of_eq_None_iff)
  then have "map_of (filter (\<lambda>(_, d). 0 < d) m) j = None"
    by (auto simp: map_of_eq_None_iff)
  with Cons a nin show ?case by (auto simp: bucket_def split: if_splits)
qed

lemma sum_all_methods: "(\<Sum>k\<leftarrow>REMAINDER_DISTRIBUTION_ORDER. f k) =
    f CASH + f CARD + f QR + f BANK_TRANSFER + f MOBILE_WALLET + f STORE_CREDIT + f GIFT_CARD"
  for f :: "payment_method \<Rightarrow> decimal"
  by (simp add: REMAINDER_DISTRIBUTION_ORDER_def)

lemma all_methods: "k \<in> set REMAINDER_DISTRIBUTION_ORDER"
  by (cases k) (simp_all add: REMAINDER_DISTRIBUTION_ORDER_def)

lemma sum_one_method: "(\<Sum>k\<leftarrow>REMAINDER_DISTRIBUTION_ORDER. if k = j then d else 0) = d" for d :: decimal
  by (cases j) (simp_all add: REMAINDER_DISTRIBUTION_ORDER_def)

lemma bucket_as_sum: "distinct (map fst m) \<Longrightarrow> (\<Sum>(k, d)\<leftarrow>m. if k = j then d else 0) = bucket m j"
proof (induction m)
  case Nil
  show ?case by simp
next
  case (Cons a m)
  obtain k d where a: "a = (k, d)" by (cases a)
  have "map_of m k = None" using Cons.prems a by (simp add: map_of_eq_None_iff)
  with Cons a show ?case by (auto simp: bucket_def)
qed

lemma amounts_total_buckets:
  "distinct (map fst m) \<Longrightarrow> amounts_total m = (\<Sum>k\<leftarrow>REMAINDER_DISTRIBUTION_ORDER. bucket m k)"
proof (induction m)
  case Nil
  show ?case by (simp add: amounts_total_def)
next
  case (Cons a m)
  obtain j d where a: "a = (j, d)" by (cases a)
  have "map_of m j = None" using Cons.prems a by (simp add: map_of_eq_None_iff)
  then have "bucket (a # m) k = bucket m k + (if k = j then d else 0)" for k
    by (simp add: bucket_def a)
  then have "(\<Sum>k\<leftarrow>REMAINDER_DISTRIBUTION_ORDER. bucket (a # m) k) =
      (\<Sum>k\<leftarrow>REMAINDER_DISTRIBUTION_ORDER. bucket m k) + d"
    by (simp add: sum_list_addf sum_one_method)
  with Cons a show ?case by (simp add: amounts_total_def)
qed

lemma amounts_total_add_to:
  "distinct (map fst m) \<Longrightarrow> amounts_total (add_to k d m) = amounts_total m + d"
  by (simp add: amounts_total_buckets sum_list_addf sum_one_method)

definition nonneg_amounts :: "method_amounts \<Rightarrow> bool" where
  "nonneg_amounts m \<longleftrightarrow> (\<forall>k. 0 \<le> bucket m k \<and> scale4 (bucket m k))"

lemma step_scale4 [simp]: "scale4 MONEY_STEP" and step_pos [simp]: "0 < MONEY_STEP"
  by (auto simp: scale4_iff MONEY_STEP_def intro!: exI [of _ 1])

lemma scale4_step: "scale4 x \<Longrightarrow> 0 < x \<Longrightarrow> MONEY_STEP \<le> x"
proof -
  assume "scale4 x" and "0 < x"
  then obtain k :: int where k: "x = of_int k / 10000" by (auto simp: scale4_iff)
  with \<open>0 < x\<close> have "1 \<le> k" by simp
  then have "(1 :: rat) \<le> of_int k" by simp
  then show "MONEY_STEP \<le> x" by (simp add: k MONEY_STEP_def)
qed

lemma down4_nonneg: "0 \<le> x \<Longrightarrow> 0 \<le> down4 x \<and> down4 x \<le> x \<and> scale4 (down4 x)"
proof -
  assume x: "0 \<le> x"
  have d: "down4 x = of_int \<lfloor>x * 10000\<rfloor> / 10000" using x by (simp add: down4_def sgn_if)
  have "of_int \<lfloor>x * 10000\<rfloor> \<le> x * 10000" by (rule of_int_floor_le)
  moreover have "0 \<le> \<lfloor>x * 10000\<rfloor>" using x by simp
  ultimately show ?thesis unfolding scale4_iff d by auto
qed

section \<open>What the distribution of the remainder achieves\<close>

definition has_room :: "method_amounts \<Rightarrow> method_amounts \<Rightarrow> method_amounts \<Rightarrow> bool" where
  "has_room ef pr al \<longleftrightarrow> (\<forall>k. bucket pr k + bucket al k \<le> bucket ef k)"

definition grown :: "method_amounts \<Rightarrow> method_amounts \<Rightarrow> bool" where
  "grown al al' \<longleftrightarrow> (\<forall>k. bucket al k \<le> bucket al' k)"

lemma grown_trans: "grown a b \<Longrightarrow> grown b c \<Longrightarrow> grown a c"
  unfolding grown_def using order_trans by blast

lemma remainder_cycle_keeps:
  assumes "remainder_cycle ms ef pr al r g = (al', r', g')" and "distinct (map fst al)" and "nonneg_amounts al"
  shows "distinct (map fst al') \<and> nonneg_amounts al' \<and> grown al al' \<and>
    amounts_total al' = amounts_total al + (g' - g) \<and> (has_room ef pr al \<longrightarrow> has_room ef pr al') \<and>
    (scale4 r \<longrightarrow> scale4 r')"
  using assms
proof (induction ms arbitrary: al r g)
  case Nil
  then show ?case by (simp add: grown_def)
next
  case (Cons m ms)
  show ?case
  proof (cases "MONEY_STEP \<le> r \<and> MONEY_STEP \<le> bucket ef m - bucket pr m - bucket al m")
    case True
    with Cons.prems have run: "remainder_cycle ms ef pr (add_to m MONEY_STEP al) (r - MONEY_STEP) (g + MONEY_STEP) = (al', r', g')"
      by simp
    have "nonneg_amounts (add_to m MONEY_STEP al)"
      using Cons.prems(3) by (auto simp: nonneg_amounts_def MONEY_STEP_def intro: scale4_add step_scale4 [unfolded MONEY_STEP_def])
    moreover have "has_room ef pr al \<longrightarrow> has_room ef pr (add_to m MONEY_STEP al)"
      using True by (auto simp: has_room_def)
    moreover have "grown al (add_to m MONEY_STEP al)" by (simp add: grown_def MONEY_STEP_def)
    moreover have "scale4 r \<longrightarrow> scale4 (r - MONEY_STEP)" by simp
    ultimately show ?thesis
      using Cons.IH [OF run] Cons.prems(2) by (auto simp: amounts_total_add_to intro: grown_trans)
  next
    case False
    with Cons.prems Cons.IH show ?thesis by (auto split: if_splits simp: grown_def)
  qed
qed

lemma remainder_cycle_progress:
  assumes "m \<in> set ms" and "MONEY_STEP \<le> r" and "MONEY_STEP \<le> bucket ef m - bucket pr m - bucket al m"
    and "remainder_cycle ms ef pr al r g = (al', r', g')"
  shows "g' \<noteq> g"
  using assms
proof (induction ms)
  case Nil
  then show ?case by simp
next
  case (Cons k ms)
  show ?case
  proof (cases "MONEY_STEP \<le> bucket ef k - bucket pr k - bucket al k")
    case True
    with Cons.prems have "remainder_cycle ms ef pr (add_to k MONEY_STEP al) (r - MONEY_STEP) (g + MONEY_STEP) = (al', r', g')"
      by simp
    from remainder_cycle_gives [OF this] have "g + MONEY_STEP \<le> g'" by simp
    with step_pos show ?thesis by linarith
  next
    case False
    then have "k \<noteq> m" using Cons.prems(3) by auto
    with False Cons.prems have "remainder_cycle ms ef pr al r g = (al', r', g')" by simp
    with Cons \<open>k \<noteq> m\<close> show ?thesis by simp
  qed
qed

lemma distribute_keeps:
  assumes "distribute_remainder ef pr al r = Some al'" and "distinct (map fst al)" and "nonneg_amounts al" and "0 \<le> r"
  shows "distinct (map fst al') \<and> nonneg_amounts al' \<and> grown al al' \<and> amounts_total al' = amounts_total al + r \<and>
    (has_room ef pr al \<longrightarrow> has_room ef pr al')"
  using assms
proof (induction ef pr al r rule: distribute_remainder.induct)
  case (1 ef pr al r)
  show ?case
  proof (cases "0 < r")
    case False
    with 1 show ?thesis by (auto simp: distribute_remainder.simps [of ef pr al r] grown_def)
  next
    case True
    obtain al1 r1 g where cyc: "remainder_cycle REMAINDER_DISTRIBUTION_ORDER ef pr al r 0 = (al1, r1, g)"
      by (metis prod_cases3)
    have g: "g \<noteq> 0" and run: "distribute_remainder ef pr al1 r1 = Some al'"
      using 1(2) True cyc by (auto simp: distribute_remainder.simps [of ef pr al r] split: if_splits)
    note K = remainder_cycle_keeps [OF cyc 1(3,4)] remainder_cycle_gives [OF cyc]
    have "0 \<le> r1" using K(2) True by simp
    from 1(1) [OF True cyc [symmetric] refl g run _ _ this] K show ?thesis
      by (auto intro: grown_trans)
  qed
qed

lemma capacity_left:
  assumes "has_room ef pr al" and "nonneg_amounts ef" and "nonneg_amounts pr" and "nonneg_amounts al"
    and "0 < r" and "distinct (map fst ef)" and "distinct (map fst pr)" and "distinct (map fst al)"
    and "amounts_total pr + amounts_total al + r \<le> amounts_total ef"
  shows "\<exists>m. MONEY_STEP \<le> bucket ef m - bucket pr m - bucket al m"
proof (rule ccontr)
  assume none: "\<not> ?thesis"
  have "bucket ef m - bucket pr m - bucket al m = 0" for m
  proof -
    have s: "scale4 (bucket ef m - bucket pr m - bucket al m)"
      using assms(2-4) by (simp add: nonneg_amounts_def)
    have "0 \<le> bucket ef m - bucket pr m - bucket al m"
      using assms(1) [unfolded has_room_def, rule_format, of m] by simp
    moreover have "\<not> 0 < bucket ef m - bucket pr m - bucket al m" using none scale4_step [OF s] by blast
    ultimately show ?thesis by simp
  qed
  then have "bucket ef = (\<lambda>m. bucket pr m + bucket al m)" by (auto simp: algebra_simps)
  then have "amounts_total ef = amounts_total pr + amounts_total al"
    unfolding amounts_total_buckets [OF assms(6)] amounts_total_buckets [OF assms(7)] amounts_total_buckets [OF assms(8)]
    by (simp add: sum_list_addf)
  with assms(5,9) show False by simp
qed

lemma distribute_succeeds:
  assumes "has_room ef pr al" and "nonneg_amounts ef" and "nonneg_amounts pr" and "nonneg_amounts al"
    and "0 \<le> r" and "scale4 r" and "distinct (map fst ef)" and "distinct (map fst pr)" and "distinct (map fst al)"
    and "amounts_total pr + amounts_total al + r \<le> amounts_total ef"
  shows "\<exists>al'. distribute_remainder ef pr al r = Some al'"
  using assms
proof (induction ef pr al r rule: distribute_remainder.induct)
  case (1 ef pr al r)
  show ?case
  proof (cases "0 < r")
    case False
    then show ?thesis by (simp add: distribute_remainder.simps [of ef pr al r])
  next
    case True
    obtain al1 r1 g where cyc: "remainder_cycle REMAINDER_DISTRIBUTION_ORDER ef pr al r 0 = (al1, r1, g)"
      by (metis prod_cases3)
    obtain m where m: "MONEY_STEP \<le> bucket ef m - bucket pr m - bucket al m"
      using capacity_left [OF 1(2-5) True 1(8-10)] 1(11) by blast
    have g: "g \<noteq> 0" by (rule remainder_cycle_progress [OF all_methods scale4_step [OF 1(7) True] m cyc])
    have K: "distinct (map fst al1)" "nonneg_amounts al1" "amounts_total al1 = amounts_total al + g"
      "has_room ef pr al1" "scale4 r1"
      using remainder_cycle_keeps [OF cyc 1(10,5)] 1(2,7) by auto
    have r1: "r1 = r - g" "0 \<le> r1" using remainder_cycle_gives [OF cyc] True by auto
    have "amounts_total pr + amounts_total al1 + r1 \<le> amounts_total ef" using 1(11) K(3) r1(1) by simp
    from 1(1) [OF True cyc [symmetric] refl g K(4) 1(3,4) K(2) r1(2) K(5) 1(8,9) K(1) this]
    show ?thesis using True g by (simp add: distribute_remainder.simps [of ef pr al r] cyc)
  qed
qed

section \<open>The split as a whole\<close>

definition effective_of :: "world \<Rightarrow> sale_row \<Rightarrow> method_amounts" where
  "effective_of w sale = compute_effective_buckets (find_many (\<lambda>p. pm_sale p = sa_id sale) (t_payment w)) (sa_change sale)"

definition allocation_rows_of :: "world \<Rightarrow> sale_row \<Rightarrow> refund_alloc_row list" where
  "allocation_rows_of w sale = find_many (\<lambda>a. ra_company a = sa_company sale \<and> ra_deleted a = None \<and>
     (\<exists>r \<in> set (t_refund w). rf_id r = ra_refund a \<and> rf_sale r = sa_id sale \<and> rf_company r = sa_company sale)) (t_refund_alloc w)"

definition previous_of :: "world \<Rightarrow> sale_row \<Rightarrow> method_amounts" where
  "previous_of w sale = fold (\<lambda>a. add_to (ra_method a) (ra_amount a)) (allocation_rows_of w sale) []"

lemma previous_allocations_run [simp]: "previous_allocations sale w = (Inr (previous_of w sale), w)"
proof -
  have "find_many (\<lambda>a. ra_company a = sa_company sale \<and> ra_refund a \<in> set (map rf_id (find_many (\<lambda>r. rf_sale r = sa_id sale \<and>
      rf_company r = sa_company sale) (t_refund w))) \<and> ra_deleted a = None) (t_refund_alloc w) = allocation_rows_of w sale"
    unfolding allocation_rows_of_def find_many_def by (rule filter_cong) (auto simp: image_iff)
  moreover have "map rf_id (find_many (\<lambda>r. rf_sale r = sa_id sale \<and> rf_company r = sa_company sale) (t_refund w)) = [] \<Longrightarrow>
      allocation_rows_of w sale = []"
    by (auto simp: allocation_rows_of_def find_many_def filter_empty_conv)
  ultimately show ?thesis by (auto simp: previous_allocations_def previous_of_def bind_def)
qed

lemma payments_of_run [simp]: "payments_of i w = (Inr (find_many (\<lambda>p. pm_sale p = i) (t_payment w)), w)"
  by (simp add: payments_of_def)

text \<open>Amounts collected method by method.\<close>

lemma fold_add_to:
  "distinct (map fst m) \<Longrightarrow> distinct (map fst (fold (\<lambda>x. add_to (k x) (d x)) xs m)) \<and>
     (\<forall>j. bucket (fold (\<lambda>x. add_to (k x) (d x)) xs m) j = bucket m j + (\<Sum>x\<leftarrow>xs. if k x = j then d x else 0))"
  by (induction xs arbitrary: m) auto

lemma sum_list_scale4_nonneg:
  fixes f :: "'a \<Rightarrow> decimal"
  shows "\<forall>x \<in> set xs. 0 \<le> f x \<and> scale4 (f x) \<Longrightarrow> 0 \<le> (\<Sum>x\<leftarrow>xs. f x) \<and> scale4 (\<Sum>x\<leftarrow>xs. f x)"
  by (induction xs) auto

definition refund_money_ok :: "world \<Rightarrow> sale_row \<Rightarrow> bool" where
  "refund_money_ok w sale \<longleftrightarrow> scale4 (sa_change sale) \<and>
     (\<forall>p \<in> set (t_payment w). 0 \<le> pm_amount p \<and> scale4 (pm_amount p)) \<and>
     (\<forall>a \<in> set (t_refund_alloc w). 0 \<le> ra_amount a \<and> scale4 (ra_amount a))"

lemma effective_distinct: "distinct (map fst (effective_of w sale))"
  using fold_add_to [of "[]" pm_method pm_amount "find_many (\<lambda>p. pm_sale p = sa_id sale) (t_payment w)"]
  by (auto simp: effective_of_def compute_effective_buckets_def Let_def distinct_update split: option.splits)

lemma previous_distinct: "distinct (map fst (previous_of w sale))"
  using fold_add_to [of "[]" ra_method ra_amount "allocation_rows_of w sale"] by (simp add: previous_of_def)

lemma previous_bucket:
  "bucket (previous_of w sale) j = (\<Sum>a\<leftarrow>allocation_rows_of w sale. if ra_method a = j then ra_amount a else 0)"
  using fold_add_to [of "[]" ra_method ra_amount "allocation_rows_of w sale"] by (simp add: previous_of_def)

lemma scale4_max0: "scale4 x \<Longrightarrow> scale4 (max 0 x)"
  by (simp add: max_def)

lemma refund_money_nonneg:
  assumes "refund_money_ok w sale"
  shows "nonneg_amounts (effective_of w sale)" and "nonneg_amounts (previous_of w sale)"
proof -
  let ?ps = "find_many (\<lambda>p. pm_sale p = sa_id sale) (t_payment w)"
  let ?e = "fold (\<lambda>p. add_to (pm_method p) (pm_amount p)) ?ps []"
  have b: "bucket ?e j = (\<Sum>p\<leftarrow>?ps. if pm_method p = j then pm_amount p else 0)" for j
    using fold_add_to [of "[]" pm_method pm_amount ?ps] by simp
  have e: "0 \<le> bucket ?e j \<and> scale4 (bucket ?e j)" for j
    unfolding b by (rule sum_list_scale4_nonneg) (use assms in \<open>auto simp: refund_money_ok_def find_many_def\<close>)
  have "bucket (effective_of w sale) j = (if j = CASH \<and> map_of ?e CASH \<noteq> None
      then max 0 (bucket ?e CASH - sa_change sale) else bucket ?e j)" for j
  proof (cases "map_of ?e CASH")
    case None
    then show ?thesis by (simp add: effective_of_def compute_effective_buckets_def)
  next
    case (Some c)
    then have "effective_of w sale = AList.update CASH (max 0 (c - sa_change sale)) ?e" and "bucket ?e CASH = c"
      by (simp_all add: effective_of_def compute_effective_buckets_def bucket_def)
    with Some show ?thesis by (simp add: bucket_update)
  qed
  then show "nonneg_amounts (effective_of w sale)"
    using e assms by (auto simp: nonneg_amounts_def refund_money_ok_def intro!: scale4_max0 scale4_diff)
  have "0 \<le> bucket (previous_of w sale) j \<and> scale4 (bucket (previous_of w sale) j)" for j
    unfolding previous_bucket
    by (rule sum_list_scale4_nonneg) (use assms in \<open>auto simp: refund_money_ok_def allocation_rows_of_def find_many_def\<close>)
  then show "nonneg_amounts (previous_of w sale)" by (simp add: nonneg_amounts_def)
qed

text \<open>The first pass: every method's share, rounded down.\<close>

lemma down4_scale4 [simp]: "scale4 (down4 x)"
proof -
  have "down4 x = of_int ((if x < 0 then -1 else if x = 0 then 0 else 1) * \<lfloor>\<bar>x\<bar> * 10000\<rfloor>) / 10000"
    by (simp add: down4_def sgn_if)
  then show ?thesis unfolding scale4_iff by blast
qed

lemma first_pass_entries:
  assumes "distinct (map fst ef)"
  shows "distinct (map fst (first_pass q r t ef))"
    and "bucket (first_pass q r t ef) m = (case map_of ef m of None \<Rightarrow> 0 | Some b \<Rightarrow> max 0 (down4 (q (r * b) t)))"
proof -
  have "map fst (first_pass q r t ef) = map fst (filter (\<lambda>(m, b). 0 < down4 (q (r * b) t)) ef)"
    by (simp add: first_pass_def filter_map comp_def case_prod_unfold)
  then show "distinct (map fst (first_pass q r t ef))"
    using distinct_map_filter [OF assms] by (simp only:)
  show "bucket (first_pass q r t ef) m = (case map_of ef m of None \<Rightarrow> 0 | Some b \<Rightarrow> max 0 (down4 (q (r * b) t)))"
    using assms
  proof (induction ef)
    case Nil
    then show ?case by (simp add: first_pass_def)
  next
    case (Cons a ef)
    obtain j b where a: "a = (j, b)" by (cases a)
    have "j \<notin> fst ` set (first_pass q r t ef)" using Cons.prems a by (force simp: first_pass_def)
    then have none: "map_of (first_pass q r t ef) j = None" by (simp add: map_of_eq_None_iff)
    have "map_of ef j = None" using Cons.prems a by (simp add: map_of_eq_None_iff)
    moreover have "first_pass q r t (a # ef) =
        (if 0 < down4 (q (r * b) t) then (j, down4 (q (r * b) t)) # first_pass q r t ef else first_pass q r t ef)"
      by (simp add: first_pass_def a)
    ultimately show ?case using Cons none by (auto simp: bucket_def a split: option.splits if_splits)
  qed
qed

lemma first_pass_nonneg: "distinct (map fst ef) \<Longrightarrow> nonneg_amounts (first_pass q r t ef)"
  unfolding nonneg_amounts_def by (auto simp: first_pass_entries(2) intro: scale4_max0 split: option.splits)

definition refund_share :: "method_amounts \<Rightarrow> decimal \<Rightarrow> decimal \<Rightarrow> payment_method \<Rightarrow> decimal" where
  "refund_share ef r t m = down4 (r * bucket ef m / t)"

lemma first_pass_share:
  assumes "distinct (map fst ef)" and "nonneg_amounts ef" and "0 < r" and "0 < t"
    and "\<forall>x. down4 (q x t) = down4 (x / t)"
  shows "bucket (first_pass q r t ef) = refund_share ef r t" and "0 \<le> refund_share ef r t m"
    and "amounts_total (first_pass q r t ef) * t \<le> r * amounts_total ef"
proof -
  have nn: "0 \<le> r * bucket ef m / t" for m
    using assms(2-4) by (simp add: nonneg_amounts_def)
  have s: "0 \<le> refund_share ef r t m" "refund_share ef r t m \<le> r * bucket ef m / t" for m
    using down4_nonneg [OF nn [of m]] by (simp_all add: refund_share_def)
  then show "0 \<le> refund_share ef r t m" by simp
  have d0: "down4 0 = 0" by (simp add: down4_def)
  show b: "bucket (first_pass q r t ef) = refund_share ef r t"
  proof
    fix m
    show "bucket (first_pass q r t ef) m = refund_share ef r t m"
    proof (cases "map_of ef m")
      case None
      then have "bucket ef m = 0" by (simp add: bucket_def)
      with None show ?thesis by (simp add: first_pass_entries(2) [OF assms(1)] refund_share_def d0)
    next
      case (Some b)
      then have "bucket ef m = b" by (simp add: bucket_def)
      with Some s(1) [of m] assms(5) show ?thesis
        by (simp add: first_pass_entries(2) [OF assms(1)] refund_share_def)
    qed
  qed
  have "amounts_total (first_pass q r t ef) \<le> (\<Sum>k\<leftarrow>REMAINDER_DISTRIBUTION_ORDER. r * bucket ef k / t)"
    unfolding amounts_total_buckets [OF first_pass_entries(1) [OF assms(1)]] b by (rule sum_list_mono) (rule s(2))
  also have "\<dots> = r * amounts_total ef / t"
    unfolding amounts_total_buckets [OF assms(1)] sum_all_methods
    by (simp add: add_divide_distrib distrib_left)
  finally show "amounts_total (first_pass q r t ef) * t \<le> r * amounts_total ef"
    using assms(4) by (simp add: field_simps)
qed

lemma for_each_check_fact:
  "for_each fs (check_fact ef pr) w = (Inr u, w') \<longleftrightarrow>
     (\<forall>f \<in> set fs. 0 < snd f \<and> bucket pr (fst f) + snd f \<le> bucket ef (fst f)) \<and> w' = w"
  by (induction fs) (auto simp: bind_Inr_iff require_Inr_iff check_fact_def not_less not_le)

lemma split_refund_Inr:
  assumes "distinct (map fst ef)" and run: "split_refund ef pr r t w = (Inr facts, w')"
  shows "w' = w \<and> distinct (map fst facts) \<and> nonneg_amounts facts \<and> amounts_total facts = r \<and>
    (\<forall>(m, d) \<in> set facts. 0 < d \<and> bucket pr m + d \<le> bucket ef m) \<and>
    (\<forall>m. bucket (first_pass (dec_div w) r t ef) m \<le> bucket facts m) \<and>
    (\<forall>(m, d) \<in> set pr. d \<le> bucket ef m)"
proof -
  let ?al = "first_pass (dec_div w) r t ef"
  have D: "distinct (map fst ?al)" "nonneg_amounts ?al"
    using first_pass_entries(1) [OF assms(1)] first_pass_nonneg [OF assms(1)] by auto
  obtain final where f: "distribute_remainder ef pr ?al (r - amounts_total ?al) = Some final"
    and nn: "0 \<le> r - amounts_total ?al" and facts: "facts = filter (\<lambda>(_, d). 0 < d) final"
    and tot: "amounts_total facts = r" and same: "w' = w" and pre: "\<forall>(m, d) \<in> set pr. d \<le> bucket ef m"
    and chk: "\<forall>f \<in> set facts. 0 < snd f \<and> bucket pr (fst f) + snd f \<le> bucket ef (fst f)"
    using run unfolding split_refund_def bind_Inr_iff require_Inr_iff require_some_Inr_iff ask_run Let_def for_each_check_fact
    by (auto simp: not_less)
  note K = distribute_keeps [OF f D nn]
  have "distinct (map fst facts)" unfolding facts by (rule distinct_map_filter) (use K in blast)
  moreover have b: "bucket facts m = bucket final m" for m
    unfolding facts using K by (intro bucket_filter_pos) (auto simp: nonneg_amounts_def)
  moreover have "nonneg_amounts facts" using K by (simp add: nonneg_amounts_def b)
  moreover have "bucket ?al m \<le> bucket facts m" for m using K by (simp add: grown_def b)
  ultimately show ?thesis using same tot chk pre by auto
qed

lemma split_refund_total:
  assumes "distinct (map fst ef)" and "distinct (map fst pr)" and "nonneg_amounts ef" and "nonneg_amounts pr"
    and "\<forall>x. down4 (dec_div w x t) = down4 (x / t)" and "0 < r" and "scale4 r" and "0 < t" and "amounts_total ef = t"
    and "amounts_total pr + r \<le> t" and room: "\<forall>m. bucket pr m + refund_share ef r t m \<le> bucket ef m"
  shows "\<exists>facts. split_refund ef pr r t w = (Inr facts, w)"
proof -
  let ?al = "first_pass (dec_div w) r t ef"
  have D: "distinct (map fst ?al)" "nonneg_amounts ?al"
    using first_pass_entries(1) [OF assms(1)] first_pass_nonneg [OF assms(1)] by auto
  note S = first_pass_share [where q = "dec_div w", OF assms(1,3,6,8,5)]
  have al: "amounts_total ?al \<le> r" using S(3) assms(8,9) by simp
  have hr: "has_room ef pr ?al" using room by (simp add: has_room_def S(1))
  have "scale4 (amounts_total ?al)"
    unfolding amounts_total_buckets [OF D(1)] by (rule scale4_sum_list) (use D(2) in \<open>simp add: nonneg_amounts_def\<close>)
  then have s: "scale4 (r - amounts_total ?al)" using assms(7) by simp
  have nn: "0 \<le> r - amounts_total ?al" using al by simp
  obtain final where f: "distribute_remainder ef pr ?al (r - amounts_total ?al) = Some final"
    using distribute_succeeds [OF hr assms(3,4) D(2) nn s assms(1,2) D(1)] assms(9,10) by auto
  note K = distribute_keeps [OF f D nn]
  let ?facts = "filter (\<lambda>(_, d). 0 < d) final"
  have dF: "distinct (map fst ?facts)" by (rule distinct_map_filter) (use K in blast)
  have b: "bucket ?facts m = bucket final m" for m
    using K by (intro bucket_filter_pos) (auto simp: nonneg_amounts_def)
  have tot: "amounts_total ?facts = r"
    using K amounts_total_buckets [of final] unfolding amounts_total_buckets [OF dF] b by simp
  have chk: "\<forall>f \<in> set ?facts. 0 < snd f \<and> bucket pr (fst f) + snd f \<le> bucket ef (fst f)"
  proof
    fix x
    assume x: "x \<in> set ?facts"
    then have "bucket ?facts (fst x) = snd x" using bucket_in [OF dF, of "fst x" "snd x"] by simp
    moreover have "bucket pr (fst x) + bucket final (fst x) \<le> bucket ef (fst x)" using K hr by (simp add: has_room_def)
    ultimately show "0 < snd x \<and> bucket pr (fst x) + snd x \<le> bucket ef (fst x)" using x b by auto
  qed
  have pre: "\<not> d > bucket ef m" if "(m, d) \<in> set pr" for m d
    using bucket_in [OF assms(2) that] room [rule_format, of m] S(2) [of m] by simp
  have "for_each ?facts (check_fact ef pr) w = (Inr (), w)" using chk by (simp add: for_each_check_fact)
  then have "split_refund ef pr r t w = (Inr ?facts, w)"
    using pre nn f tot unfolding split_refund_def Let_def by (auto simp: bind_def)
  then show ?thesis by blast
qed

text \<open>The rows written for the facts.\<close>

lemma insert_allocations_run:
  "\<exists>rows. for_each facts (insert_allocation sale refund user) w =
      (Inr (), w\<lparr>uuid_next := uuid_next w + length facts, t_refund_alloc := t_refund_alloc w @ rows\<rparr>) \<and>
     map (\<lambda>a. (ra_method a, ra_amount a)) rows = map (\<lambda>(m, d). (m, round4 d)) facts \<and>
     (\<forall>a \<in> set rows. ra_company a = sa_company sale \<and> ra_refund a = refund \<and> ra_deleted a = None \<and>
        ra_currency a = sa_currency sale)"
proof (induction facts arbitrary: w)
  case Nil
  show ?case by (rule exI [of _ "[]"]) simp
next
  case (Cons f fs)
  let ?a = "\<lparr>ra_id = uuid_gen w (uuid_next w), ra_company = sa_company sale, ra_refund = refund, ra_method = fst f,
     ra_amount = round4 (snd f), ra_currency = sa_currency sale, ra_createdBy = user, ra_deleted = None\<rparr>"
  let ?w = "w\<lparr>uuid_next := Suc (uuid_next w), t_refund_alloc := t_refund_alloc w @ [?a]\<rparr>"
  have one: "insert_allocation sale refund user f w = (Inr (), ?w)" by (simp add: insert_allocation_def)
  obtain rows where R: "for_each fs (insert_allocation sale refund user) ?w =
      (Inr (), ?w\<lparr>uuid_next := uuid_next ?w + length fs, t_refund_alloc := t_refund_alloc ?w @ rows\<rparr>)"
    "map (\<lambda>a. (ra_method a, ra_amount a)) rows = map (\<lambda>(m, d). (m, round4 d)) fs"
    "\<forall>a \<in> set rows. ra_company a = sa_company sale \<and> ra_refund a = refund \<and> ra_deleted a = None \<and>
        ra_currency a = sa_currency sale"
    using Cons by blast
  show ?case
    by (rule exI [of _ "?a # rows"]) (use one R in \<open>auto simp: case_prod_unfold\<close>)
qed

lemma create_for_refund_Inr:
  "create_for_refund sale refund r user w = (Inr facts, w') \<longleftrightarrow>
     0 < r \<and> 0 < sa_total sale \<and> amounts_total (effective_of w sale) = sa_total sale \<and>
     split_refund (effective_of w sale) (previous_of w sale) r (sa_total sale) w = (Inr facts, w) \<and>
     for_each facts (insert_allocation sale refund user) w = (Inr (), w')"
proof -
  have "split_refund (effective_of w sale) p r t w = (Inr f, w1) \<Longrightarrow> w1 = w" for p t f w1
    using split_refund_Inr [OF effective_distinct] by blast
  then show ?thesis
    unfolding create_for_refund_def Let_def bind_Inr_iff require_Inr_iff payments_of_run previous_allocations_run
      effective_of_def [symmetric]
    by (auto simp: not_le effective_of_def)
qed

text \<open>Evaluation, for concrete sales.\<close>

lemma split_refund_eval:
  assumes "\<forall>(m, d) \<in> set pr. \<not> d > bucket ef m" and "first_pass (dec_div w) r t ef = al" and "r - amounts_total al = rest"
    and "\<not> rest < 0" and "distribute_remainder ef pr al rest = Some final" and "filter (\<lambda>(_, d). 0 < d) final = facts"
    and "amounts_total facts = r"
  shows "split_refund ef pr r t w = bind (for_each facts (check_fact ef pr)) (\<lambda>_. ret facts) w"
  using assms by (simp add: split_refund_def Let_def)

lemma create_for_refund_eval:
  assumes "0 < r" and "0 < sa_total sale" and "amounts_total (effective_of w sale) = sa_total sale"
  shows "create_for_refund sale i r user w = bind (split_refund (effective_of w sale) (previous_of w sale) r (sa_total sale))
      (\<lambda>facts. bind (for_each facts (insert_allocation sale i user)) (\<lambda>_. ret facts)) w"
  using assms by (simp add: create_for_refund_def Let_def effective_of_def)

section \<open>Properties\<close>

text \<open>
  Property C31: a partial refund is split without a cent lost or invented. When the allocation succeeds,
  the amounts per method are positive and sum exactly to the refund total, one row per method is
  appended and nothing else changes, and once the rows of this refund are counted with those before it,
  no method has been refunded more than the sale took through it (cash net of the change given).
\<close>

theorem refund_split_conserves_and_caps:
  assumes "create_for_refund sale refund r user w = (Inr facts, w')"
    and "\<exists>x \<in> set (t_refund w). rf_id x = refund \<and> rf_sale x = sa_id sale \<and> rf_company x = sa_company sale"
  shows "amounts_total facts = r \<and> (\<forall>(m, d) \<in> set facts. 0 < d) \<and>
    (\<exists>rows. w' = w\<lparr>uuid_next := uuid_next w + length facts, t_refund_alloc := t_refund_alloc w @ rows\<rparr> \<and>
       map (\<lambda>a. (ra_method a, ra_amount a)) rows = facts) \<and>
    (\<forall>m. bucket (previous_of w' sale) m = bucket (previous_of w sale) m + bucket facts m) \<and>
    (\<forall>(m, d) \<in> set facts. bucket (previous_of w' sale) m \<le> bucket (effective_of w' sale) m)"
proof -
  let ?ef = "effective_of w sale" and ?pr = "previous_of w sale"
  have S: "split_refund ?ef ?pr r (sa_total sale) w = (Inr facts, w)"
    and ins: "for_each facts (insert_allocation sale refund user) w = (Inr (), w')"
    using assms(1) by (simp_all add: create_for_refund_Inr)
  note F = split_refund_Inr [OF effective_distinct S]
  obtain rows where w': "w' = w\<lparr>uuid_next := uuid_next w + length facts, t_refund_alloc := t_refund_alloc w @ rows\<rparr>"
    and rows: "map (\<lambda>a. (ra_method a, ra_amount a)) rows = map (\<lambda>(m, d). (m, round4 d)) facts"
    and mine: "\<forall>a \<in> set rows. ra_company a = sa_company sale \<and> ra_refund a = refund \<and> ra_deleted a = None \<and>
      ra_currency a = sa_currency sale"
    using insert_allocations_run [of facts sale refund user w] ins by auto
  have s4: "scale4 d" if "(m, d) \<in> set facts" for m d
    using bucket_in [OF _ that] F by (auto simp: nonneg_amounts_def)
  have exact: "map (\<lambda>(m, d). (m, round4 d)) facts = facts"
    by (rule map_idI) (use s4 in \<open>auto simp: round4_id\<close>)
  have "allocation_rows_of w' sale = allocation_rows_of w sale @ rows"
    using mine assms(2) by (auto simp: allocation_rows_of_def w' find_many_def filter_id_conv)
  then have b: "bucket (previous_of w' sale) m = bucket ?pr m + bucket facts m" for m
  proof -
    have "(\<Sum>a\<leftarrow>rows. if ra_method a = m then ra_amount a else 0) =
        (\<Sum>(k, d)\<leftarrow>map (\<lambda>a. (ra_method a, ra_amount a)) rows. if k = m then d else 0)"
      by (simp add: comp_def)
    also have "\<dots> = bucket facts m"
      unfolding rows exact by (rule bucket_as_sum) (use F in blast)
    finally show ?thesis using \<open>allocation_rows_of w' sale = _\<close> by (simp add: previous_bucket)
  qed
  have "effective_of w' sale = ?ef" by (simp add: effective_of_def w')
  moreover have "bucket facts m = d" if "(m, d) \<in> set facts" for m d using bucket_in [OF _ that] F by blast
  ultimately show ?thesis using F w' rows exact b by auto
qed

text \<open>
  A refund can be split exactly when every method still has room for its own share.
  For a sale whose buckets reconcile with its total and a refund that, with the earlier ones, stays
  within the total, the allocation succeeds if and only if for each method the amount refunded so far
  plus the rounded-down proportional share of this refund fits the method's bucket. In particular the
  first refund of such a sale is never refused, and the distribution of the remainder always finishes.
\<close>

theorem refund_split_succeeds_iff_shares_fit:
  assumes "\<forall>x. down4 (dec_div w x (sa_total sale)) = down4 (x / sa_total sale)"
    and "0 < r" and "scale4 r" and "0 < sa_total sale" and "refund_money_ok w sale"
    and "amounts_total (effective_of w sale) = sa_total sale"
    and "amounts_total (previous_of w sale) + r \<le> sa_total sale"
  shows "((\<exists>facts w'. create_for_refund sale refund r user w = (Inr facts, w')) \<longleftrightarrow>
      (\<forall>m. bucket (previous_of w sale) m + refund_share (effective_of w sale) r (sa_total sale) m
         \<le> bucket (effective_of w sale) m)) \<and>
    (previous_of w sale = [] \<longrightarrow> (\<exists>facts w'. create_for_refund sale refund r user w = (Inr facts, w')))"
proof -
  let ?ef = "effective_of w sale" and ?pr = "previous_of w sale" and ?t = "sa_total sale"
  note N = refund_money_nonneg [OF assms(5)]
  note S = first_pass_share [where q = "dec_div w", OF effective_distinct N(1) assms(2,4,1)]
  have ok: "(\<exists>facts w'. create_for_refund sale refund r user w = (Inr facts, w'))"
    if room: "\<forall>m. bucket ?pr m + refund_share ?ef r ?t m \<le> bucket ?ef m"
  proof -
    obtain facts where f: "split_refund ?ef ?pr r ?t w = (Inr facts, w)"
      using split_refund_total [OF effective_distinct previous_distinct N assms(1-4,6,7) room] by blast
    obtain w' where "for_each facts (insert_allocation sale refund user) w = (Inr (), w')"
      using insert_allocations_run [of facts sale refund user w] by blast
    with f assms(2,4,6) show ?thesis by (auto simp: create_for_refund_Inr)
  qed
  have room: "\<forall>m. bucket ?pr m + refund_share ?ef r ?t m \<le> bucket ?ef m"
    if run: "create_for_refund sale refund r user w = (Inr facts, w')" for facts w'
  proof
    fix m
    have F: "split_refund ?ef ?pr r ?t w = (Inr facts, w)" using run by (simp add: create_for_refund_Inr)
    note F = split_refund_Inr [OF effective_distinct F]
    have le: "refund_share ?ef r ?t m \<le> bucket facts m" using F S(1) by simp
    show "bucket ?pr m + refund_share ?ef r ?t m \<le> bucket ?ef m"
    proof (cases "map_of facts m")
      case None
      then have "refund_share ?ef r ?t m = 0" using le S(2) [of m] by (simp add: bucket_def)
      moreover have "bucket ?pr m \<le> bucket ?ef m"
      proof (cases "map_of ?pr m")
        case None
        then show ?thesis using N(1) by (simp add: nonneg_amounts_def bucket_def [of ?pr])
      next
        case (Some d)
        then have "(m, d) \<in> set ?pr" by (rule map_of_SomeD)
        with F Some show ?thesis by (auto simp: bucket_def [of ?pr])
      qed
      ultimately show ?thesis by simp
    next
      case (Some d)
      then have "(m, d) \<in> set facts" and "bucket facts m = d" by (auto dest: map_of_SomeD simp: bucket_def)
      with F le show ?thesis by fastforce
    qed
  qed
  have first: "\<forall>m. bucket ?pr m + refund_share ?ef r ?t m \<le> bucket ?ef m" if "?pr = []"
  proof
    fix m
    have b: "0 \<le> bucket ?ef m" using N(1) by (simp add: nonneg_amounts_def)
    have r: "r \<le> ?t" using assms(7) that by (simp add: amounts_total_def)
    have "r * bucket ?ef m \<le> bucket ?ef m * ?t"
      using mult_right_mono [OF r b] by (simp add: mult.commute)
    then have "r * bucket ?ef m / ?t \<le> bucket ?ef m" using assms(4) by (simp add: pos_divide_le_eq)
    moreover have "0 \<le> r * bucket ?ef m / ?t" using b assms(2,4) by simp
    ultimately have "refund_share ?ef r ?t m \<le> bucket ?ef m"
      using down4_nonneg [of "r * bucket ?ef m / ?t"] by (simp add: refund_share_def)
    then show "bucket ?pr m + refund_share ?ef r ?t m \<le> bucket ?ef m" by (simp add: that)
  qed
  show ?thesis using ok room first by blast
qed

text \<open>A sale of one line, three units at 100 in all, paid half in cash and half by card.\<close>

definition half_sale :: sale_row where
  "half_sale = \<lparr>sa_id = ''S'', sa_company = ''C'', sa_warehouse = ''W'', sa_cashier = ''U'', sa_customer = None,
     sa_number = ''n'', sa_status = SaleCompletedStatus, sa_subtotal = 100, sa_discount = 0, sa_tax = 0, sa_total = 100,
     sa_paid = 100, sa_change = 0, sa_currency = ''KZT'', sa_notes = None, sa_shift = None, sa_version = 0,
     sa_createdAt = 0, sa_deleted = None\<rparr>"

definition refund_stub :: "string \<Rightarrow> refund_row" where
  "refund_stub i = \<lparr>rf_id = i, rf_company = ''C'', rf_sale = ''S'', rf_warehouse = ''W'', rf_number = i,
     rf_status = RefundCompleted, rf_total = 0, rf_currency = ''KZT'', rf_reason = None, rf_reference = None,
     rf_createdBy = ''U'', rf_createdAt = 0, rf_deleted = None\<rparr>"

definition half_paid :: world where
  "half_paid = empty_world\<lparr>
     t_payment := [\<lparr>pm_id = ''a'', pm_sale = ''S'', pm_method = CASH, pm_amount = 50, pm_reference = None, pm_createdAt = 0\<rparr>,
       \<lparr>pm_id = ''b'', pm_sale = ''S'', pm_method = CARD, pm_amount = 50, pm_reference = None, pm_createdAt = 0\<rparr>],
     t_refund := [refund_stub ''1'', refund_stub ''2'', refund_stub ''3'']\<rparr>"

definition third :: decimal where
  "third = 333333 / 10000"

definition half_buckets :: method_amounts where
  "half_buckets = [(CASH, 50), (CARD, 50)]"

definition first_shares :: method_amounts where
  "first_shares = [(CASH, 166666 / 10000), (CARD, 166666 / 10000)]"

definition cent_to_cash :: method_amounts where
  "cent_to_cash = [(CASH, 166667 / 10000), (CARD, 166666 / 10000)]"

lemma half_evals:
  "first_pass (/) third 100 half_buckets = first_shares"
  "third - amounts_total first_shares = 1 / 10000"
  "distribute_remainder half_buckets [] first_shares (1 / 10000) = Some cent_to_cash"
  "distribute_remainder half_buckets cent_to_cash first_shares (1 / 10000) = Some cent_to_cash"
  "filter (\<lambda>(_, d). 0 < d) cent_to_cash = cent_to_cash" "amounts_total cent_to_cash = third"
  "(\<forall>(m, d) \<in> set cent_to_cash. \<not> d > bucket half_buckets m)"
  "amounts_total half_buckets = 100" 
  by code_simp+

lemma half_last:
  "first_pass (/) (100 - third - third) 100 half_buckets = [(CASH, 166667 / 10000), (CARD, 166667 / 10000)]"
  "100 - third - third - amounts_total [(CASH, 166667 / 10000), (CARD, 166667 / 10000)] = 0"
  "amounts_total [(CASH, 166667 / 10000), (CARD, 166667 / 10000)] = 100 - third - third"
  "bucket half_buckets CASH = 50"
  by code_simp+
lemma half_checks:
  "\<forall>f \<in> set cent_to_cash. 0 < snd f \<and> bucket [] (fst f) + snd f \<le> bucket half_buckets (fst f)"
  "\<forall>f \<in> set cent_to_cash. 0 < snd f \<and> bucket cent_to_cash (fst f) + snd f \<le> bucket half_buckets (fst f)"
  by code_simp+

definition alloc_stub :: "nat \<Rightarrow> string \<Rightarrow> payment_method \<Rightarrow> decimal \<Rightarrow> refund_alloc_row" where
  "alloc_stub n refund m d = \<lparr>ra_id = replicate n (CHR ''u''), ra_company = ''C'', ra_refund = refund, ra_method = m,
     ra_amount = d, ra_currency = ''KZT'', ra_createdBy = ''U'', ra_deleted = None\<rparr>"

definition half_with :: "nat \<Rightarrow> refund_alloc_row list \<Rightarrow> world" where
  "half_with n rows = half_paid\<lparr>uuid_next := n, t_refund_alloc := rows\<rparr>"

lemma half_with_facts:
  "dec_div (half_with n rows) = (/)" "effective_of (half_with n rows) half_sale = half_buckets"
  "sa_total half_sale = 100" "half_paid = half_with 0 []"
  by (simp_all add: half_with_def half_paid_def empty_world_def effective_of_def half_sale_def compute_effective_buckets_def
      find_many_def add_to_def bucket_def half_buckets_def)

lemma cents_exact: "round4 (166667 / 10000) = 166667 / 10000" "round4 (166666 / 10000) = 166666 / 10000"
  by code_simp+

lemma half_insert:
  "for_each cent_to_cash (insert_allocation half_sale i ''U'') (half_with n rows) =
     (Inr (), half_with (n + 2) (rows @ [alloc_stub n i CASH (166667 / 10000), alloc_stub (Suc n) i CARD (166666 / 10000)]))"
  by (simp add: cent_to_cash_def insert_allocation_def half_with_def half_paid_def empty_world_def alloc_stub_def half_sale_def
      cents_exact [simplified])

lemma half_step:
  assumes "previous_of (half_with n rows) half_sale = pr" and "pr = [] \<or> pr = cent_to_cash"
  shows "create_for_refund half_sale i third ''U'' (half_with n rows) =
    (Inr cent_to_cash, half_with (n + 2) (rows @ [alloc_stub n i CASH (166667 / 10000), alloc_stub (Suc n) i CARD (166666 / 10000)]))"
proof -
  have pos: "0 < third" by (simp add: third_def)
  have e: "split_refund half_buckets pr third 100 (half_with n rows) =
      bind (for_each cent_to_cash (check_fact half_buckets pr)) (\<lambda>_. ret cent_to_cash) (half_with n rows)"
    by (rule split_refund_eval [where al = first_shares and rest = "1 / 10000" and final = cent_to_cash])
      (use assms(2) half_evals half_with_facts in auto)
  have "for_each cent_to_cash (check_fact half_buckets pr) (half_with n rows) = (Inr (), half_with n rows)"
    using assms(2) half_checks by (auto simp: for_each_check_fact)
  with e have "split_refund half_buckets pr third 100 (half_with n rows) = (Inr cent_to_cash, half_with n rows)" by simp
  then show ?thesis
    using create_for_refund_eval [of third half_sale "half_with n rows" i "''U''"] pos
    by (simp add: half_with_facts half_evals(8) assms(1) half_insert)
qed

lemma half_previous:
  "previous_of (half_with 0 []) half_sale = []"
  "previous_of (half_with 2 [alloc_stub 0 ''1'' CASH (166667 / 10000), alloc_stub 1 ''1'' CARD (166666 / 10000)]) half_sale = cent_to_cash"
  "previous_of (half_with 4 [alloc_stub 0 ''1'' CASH (166667 / 10000), alloc_stub 1 ''1'' CARD (166666 / 10000),
      alloc_stub 2 ''2'' CASH (166667 / 10000), alloc_stub 3 ''2'' CARD (166666 / 10000)]) half_sale =
    [(CASH, 333334 / 10000), (CARD, 333332 / 10000)]"
  by (simp_all add: previous_of_def allocation_rows_of_def find_many_def half_with_def half_paid_def half_sale_def refund_stub_def
      alloc_stub_def add_to_def bucket_def cent_to_cash_def)

lemma half_refused:
  "create_for_refund half_sale ''3'' (100 - third - third) ''U'' (half_with 4 rows) =
     (Inl (BadRequest ''Refund allocation would exceed the effective payment bucket''), half_with 4 rows)"
  if "previous_of (half_with 4 rows) half_sale = [(CASH, 333334 / 10000), (CARD, 333332 / 10000)]"
proof -
  let ?w = "half_with 4 rows" and ?pr = "[(CASH, 333334 / 10000), (CARD, 333332 / 10000)] :: method_amounts"
    and ?last = "[(CASH, 166667 / 10000), (CARD, 166667 / 10000)] :: method_amounts"
  have pos: "0 < 100 - third - third" by (simp add: third_def)
  have e: "split_refund half_buckets ?pr (100 - third - third) 100 ?w =
      bind (for_each ?last (check_fact half_buckets ?pr)) (\<lambda>_. ret ?last) ?w"
  proof (rule split_refund_eval [where al = ?last and rest = 0 and final = ?last])
    show "distribute_remainder half_buckets ?pr ?last 0 = Some ?last" by (simp add: distribute_remainder.simps)
    show "first_pass (dec_div ?w) (100 - third - third) 100 half_buckets = ?last"
      using half_last(1) by (simp only: half_with_facts)
    show "100 - third - third - amounts_total ?last = 0" by (rule half_last(2))
    show "amounts_total ?last = 100 - third - third" by (rule half_last(3))
  qed (simp_all add: half_buckets_def bucket_def)
  have "check_fact half_buckets ?pr (CASH, 166667 / 10000) ?w =
      (Inl (BadRequest ''Refund allocation would exceed the effective payment bucket''), ?w)"
    by (simp add: check_fact_def half_buckets_def bucket_def)
  with e have "split_refund half_buckets ?pr (100 - third - third) 100 ?w =
      (Inl (BadRequest ''Refund allocation would exceed the effective payment bucket''), ?w)" by simp
  then show ?thesis
    using create_for_refund_eval [of "100 - third - third" half_sale ?w "''3''" "''U''"] pos
    by (simp add: half_with_facts half_evals(8) that)
qed

text \<open>
  Refunding a sale unit by unit can get stuck. The first pass gives every method its
  proportional share whatever was refunded before, while the remainder of a cent always went to cash; so
  after the first two units of a sale of three at 100.00, paid half in cash and half by card, have been
  refunded (33.3333 each, the server's own amounts), the last unit (33.3334) is refused, with 33.3334
  still unrefunded and 16.6666 of room for cash against a share of 16.6667.
\<close>

theorem unit_refunds_get_stuck:
  "\<exists>w1 w2. create_for_refund half_sale ''1'' third ''U'' half_paid = (Inr cent_to_cash, w1) \<and>
     create_for_refund half_sale ''2'' third ''U'' w1 = (Inr cent_to_cash, w2) \<and>
     create_for_refund half_sale ''3'' (sa_total half_sale - third - third) ''U'' w2 =
       (Inl (BadRequest ''Refund allocation would exceed the effective payment bucket''), w2)"
proof -
  have one: "create_for_refund half_sale ''1'' third ''U'' half_paid =
      (Inr cent_to_cash, half_with 2 [alloc_stub 0 ''1'' CASH (166667 / 10000), alloc_stub 1 ''1'' CARD (166666 / 10000)])"
    using half_step [OF half_previous(1), of "''1''"] by (simp add: half_with_facts(4) numeral_2_eq_2)
  show ?thesis
    using one half_step [OF half_previous(2), of "''2''"] half_refused [OF half_previous(3)]
    unfolding half_with_facts(3) by (intro exI conjI; assumption | simp)
qed

lemma half_paid_facts:
  "refund_money_ok half_paid half_sale" "scale4 third" "0 < third" "third \<le> 100"
  by code_simp+

lemma refund_split_succeeds_iff_shares_fit_witness:
  "\<exists>facts w'. create_for_refund half_sale ''1'' third ''U'' half_paid = (Inr facts, w')"
proof -
  note H = half_with_facts(1,2) [of 0 "[]", folded half_with_facts(4)] half_previous(1) [folded half_with_facts(4)]
  have "previous_of half_paid half_sale = [] \<longrightarrow>
      (\<exists>facts w'. create_for_refund half_sale ''1'' third ''U'' half_paid = (Inr facts, w'))"
    by (rule conjunct2 [OF refund_split_succeeds_iff_shares_fit])
      (simp_all add: H half_paid_facts half_with_facts(3) half_evals(8) amounts_total_def [of "[]"])
  then show ?thesis using H(3) by blast
qed

lemma refund_split_conserves_and_caps_witness:
  "\<exists>w'. create_for_refund half_sale ''1'' third ''U'' half_paid = (Inr cent_to_cash, w') \<and> amounts_total cent_to_cash = third"
proof -
  obtain w' where run: "create_for_refund half_sale ''1'' third ''U'' half_paid = (Inr cent_to_cash, w')"
    using half_step [OF half_previous(1), of "''1''"] by (simp add: half_with_facts)
  have "\<exists>x \<in> set (t_refund half_paid). rf_id x = ''1'' \<and> rf_sale x = sa_id half_sale \<and> rf_company x = sa_company half_sale"
    by (simp add: half_paid_def refund_stub_def half_sale_def)
  with refund_split_conserves_and_caps [OF run] run show ?thesis by blast
qed

end
