(* ===== verification/SaleInventory.thy ===== *)
theory SaleInventory
  imports StockFlow Payments "HOL-Library.Sublist"
begin

text \<open>
  The inventory side of the sales and purchasing events, \<^verbatim>\<open>inventory/events/*.handler.ts\<close>: a completed sale
  takes its items out of stock and prices them from the cost layers, a goods receipt brings stock and a
  layer in, a refund --- of the whole sale or of some of its items --- brings stock and cost back. Each
  handler runs inside the publisher's transaction and first looks for the movements of an earlier
  delivery of the same event. \<open>in_tx\<close> says whether the context carries the transaction client.
\<close>

section \<open>A completed sale\<close>

definition movement_marker :: "string \<Rightarrow> string \<Rightarrow> string \<Rightarrow> movement_row option wtx" where
  "movement_marker c refType refId =
     ask (\<lambda>w. find_first (\<lambda>m. mv_company m = c \<and> mv_refType m = Some refType \<and> mv_refId m = Some refId) (t_movement w))"

text \<open>The guarded \<^verbatim>\<open>updateMany\<close>: the row must still hold what was reserved and what is sold.\<close>

definition take_from_stock :: "stock_row \<Rightarrow> string \<Rightarrow> int \<Rightarrow> unit wtx" where
  "take_from_stock s c quantity =
     bind (ask t_stock) (\<lambda>t.
     let hit = (\<lambda>r. st_id r = st_id s \<and> st_company r = c \<and> quantity + st_reserved s \<le> st_quantity r) in
     bind (change (\<lambda>w. w\<lparr>t_stock := update_rows hit (\<lambda>r. r\<lparr>st_quantity := st_quantity r - quantity,
        st_available := st_available r - quantity, st_version := st_version r + 1\<rparr>) (t_stock w)\<rparr>)) (\<lambda>_.
     require (count_rows hit t \<noteq> 0) (BadRequest ''Insufficient stock'')))"

text \<open>An absent \<^verbatim>\<open>saleItemId\<close> is an absent condition to Prisma.\<close>

definition persist_fifo_cost :: "string \<Rightarrow> string option \<Rightarrow> decimal \<Rightarrow> unit wtx" where
  "persist_fifo_cost sale item cost =
     bind (ask t_sale_item) (\<lambda>t.
     let hit = (\<lambda>r. (case item of None \<Rightarrow> True | Some i \<Rightarrow> si_id r = i) \<and> si_sale r = sale) in
     bind (change (\<lambda>w. w\<lparr>t_sale_item := update_rows hit (\<lambda>r. r\<lparr>si_fifoCost := Some (round4 cost)\<rparr>) (t_sale_item w)\<rparr>)) (\<lambda>_.
     require (count_rows hit t = 1) (BadRequest ''SaleItem not found while persisting FIFO cost'')))"

definition sell_item :: "sale_payload \<Rightarrow> sale_item_event \<Rightarrow> unit wtx" where
  "sell_item p item =
     bind (find_stock_by_product_and_warehouse (se_product item) (sp_warehouse p) (sp_company p)) (\<lambda>stock.
     let beforeQty = (case stock of None \<Rightarrow> 0 | Some s \<Rightarrow> st_quantity s);
         reservedQty = (case stock of None \<Rightarrow> 0 | Some s \<Rightarrow> st_reserved s) in
     bind (require (\<not> beforeQty - reservedQty < se_quantity item) (BadRequest ''Insufficient stock'')) (\<lambda>_.
     bind (case stock of None \<Rightarrow> ret () | Some s \<Rightarrow> take_from_stock s (sp_company p) (se_quantity item)) (\<lambda>_.
     bind (create_stock_movement
       \<lparr>md_company = sp_company p, md_product = se_product item, md_warehouse = sp_warehouse p, md_type = SALE,
        md_quantity = - se_quantity item, md_before = beforeQty, md_after = beforeQty - se_quantity item,
        md_refType = Some ''SALE'', md_refId = Some (sp_sale p), md_comment = Some (''Sale '' @ sp_number p),
        md_clientOp = None, md_user = Some (sp_cashier p)\<rparr>) (\<lambda>_.
     bind (consume_fifo_layers (se_product item) (sp_company p) (se_quantity item) ''SALE'' (sp_sale p)) (\<lambda>fifo.
     persist_fifo_cost (sp_sale p) (se_saleItem item) (fr_totalCost fifo))))))"

definition handle_sale_completed :: "bool \<Rightarrow> sale_payload \<Rightarrow> unit wtx" where
  "handle_sale_completed in_tx p =
     bind (require in_tx (JsError ''No transaction context for sale.completed event'')) (\<lambda>_.
     bind (movement_marker (sp_company p) ''SALE'' (sp_sale p)) (\<lambda>alreadyApplied.
     if alreadyApplied \<noteq> None then ret () else for_each (sp_items p) (sell_item p)))"

section \<open>Bringing stock back in\<close>

text \<open>The two branches both refund handlers share: raise the row under its lock, or create it.\<close>

definition put_into_stock :: "stock_row option \<Rightarrow> string \<Rightarrow> string \<Rightarrow> string \<Rightarrow> int \<Rightarrow> stock_row wtx" where
  "put_into_stock stock p wh c afterQty =
     (case stock of
        Some s \<Rightarrow> update_stock (st_id s) (\<lambda>r. r\<lparr>st_quantity := afterQty, st_available := afterQty - st_reserved s\<rparr>) c (st_version s)
      | None \<Rightarrow> create_stock p wh c afterQty 0 afterQty)"

definition quantity_before :: "stock_row option \<Rightarrow> int" where
  "quantity_before stock = (case stock of None \<Rightarrow> 0 | Some s \<Rightarrow> st_quantity s)"

section \<open>A goods receipt\<close>

text \<open>\<^verbatim>\<open>tx.batch.create\<close> under the unique key (companyId, batchNumber).\<close>

definition create_batch :: "string \<Rightarrow> received_item \<Rightarrow> string \<Rightarrow> string wtx" where
  "create_batch c item number =
     bind (ask t_batch) (\<lambda>t.
     bind (require (find_first (\<lambda>b. ba_company b = c \<and> ba_number b = number) t = None)
       (UniqueViolation [''companyId'', ''batchNumber''])) (\<lambda>_.
     bind fresh_uuid (\<lambda>u.
     bind (ask now) (\<lambda>clock.
     bind (change (\<lambda>w. w\<lparr>t_batch := t_batch w @ [\<lparr>ba_id = u, ba_company = c, ba_product = ui_product item, ba_number = number,
        ba_quantity = ui_quantity item, ba_available = ui_quantity item, ba_unitCost = round4 (ui_unitCost item),
        ba_expiry = ui_expiry item, ba_received = clock, ba_status = ''AVAILABLE''\<rparr>]\<rparr>)) (\<lambda>_.
     ret u)))))"

definition receipt_prefix :: "received_payload \<Rightarrow> string" where
  "receipt_prefix p = ''PURCHASE_RECEIPT:'' @ pu_receipt p @ '':''"

definition receive_item :: "received_payload \<Rightarrow> nat \<times> received_item \<Rightarrow> unit wtx" where
  "receive_item p x = (case x of (itemIndex, item) \<Rightarrow>
     bind (find_stock_by_product_and_warehouse (ui_product item) (pu_warehouse p) (pu_company p)) (\<lambda>stock.
     let beforeQty = quantity_before stock; afterQty = beforeQty + ui_quantity item in
     bind (put_into_stock stock (ui_product item) (pu_warehouse p) (pu_company p) afterQty) (\<lambda>_.
     bind (case ui_batch item of
         None \<Rightarrow> ret None
       | Some number \<Rightarrow> if number = '''' then ret None else bind (create_batch (pu_company p) item number) (\<lambda>b. ret (Some b))) (\<lambda>batchId.
     bind (create_cost_layer (pu_company p) (ui_product item) batchId ''IN'' (ui_quantity item) (ui_quantity item)
       (ui_unitCost item) (ui_unitCost item * of_int (ui_quantity item)) (Some ''PURCHASE'') (Some (pu_order p))) (\<lambda>_.
     bind (ask num_str) (\<lambda>ns.
     bind (create_stock_movement
       \<lparr>md_company = pu_company p, md_product = ui_product item, md_warehouse = pu_warehouse p, md_type = PURCHASE,
        md_quantity = ui_quantity item, md_before = beforeQty, md_after = afterQty,
        md_refType = Some ''PURCHASE_RECEIPT'', md_refId = Some (pu_order p),
        md_comment = Some (''Goods receipt '' @ pu_receipt p),
        md_clientOp = Some (receipt_prefix p @ ns (of_nat itemIndex)), md_user = Some (pu_by p)\<rparr>) (\<lambda>_. ret ())))))))"

definition receipt_marker :: "received_payload \<Rightarrow> movement_row option wtx" where
  "receipt_marker p = ask (\<lambda>w. find_first (\<lambda>m. mv_company m = pu_company p \<and>
     (case mv_clientOp m of None \<Rightarrow> False | Some op \<Rightarrow> prefix (receipt_prefix p) op)) (t_movement w))"

definition handle_purchase_received :: "bool \<Rightarrow> received_payload \<Rightarrow> unit wtx" where
  "handle_purchase_received in_tx p =
     bind (require in_tx (JsError ''No transaction context for purchase.received event'')) (\<lambda>_.
     bind (receipt_marker p) (\<lambda>alreadyApplied.
     if alreadyApplied \<noteq> None then ret ()
     else for_each (zip [0..<length (pu_items p)] (pu_items p)) (receive_item p)))"

section \<open>Refunds\<close>

definition return_movement ::
  "string \<Rightarrow> string \<Rightarrow> string \<Rightarrow> int \<Rightarrow> int \<Rightarrow> string \<Rightarrow> string \<Rightarrow> string \<Rightarrow> movement_row wtx" where
  "return_movement c p wh quantity beforeQty refId comment user =
     create_stock_movement
       \<lparr>md_company = c, md_product = p, md_warehouse = wh, md_type = RETURN, md_quantity = quantity,
        md_before = beforeQty, md_after = beforeQty + quantity, md_refType = Some ''REFUND'', md_refId = Some refId,
        md_comment = Some comment, md_clientOp = None, md_user = Some user\<rparr>"

definition return_partial_item :: "partial_payload \<Rightarrow> partial_item_event \<Rightarrow> unit wtx" where
  "return_partial_item p item =
     bind (require (\<not> xi_quantity item \<le> 0) (JsError ''Invalid refund item quantity'')) (\<lambda>_.
     bind (require_some (xi_fifoCost item) (JsError ''Invalid refund fifoCost'')) (\<lambda>refundCost.
     bind (find_stock_by_product_and_warehouse (xi_product item) (px_warehouse p) (px_company p)) (\<lambda>stock.
     let beforeQty = quantity_before stock; afterQty = beforeQty + xi_quantity item in
     bind (put_into_stock stock (xi_product item) (px_warehouse p) (px_company p) afterQty) (\<lambda>_.
     bind (return_movement (px_company p) (xi_product item) (px_warehouse p) (xi_quantity item) beforeQty (px_refund p)
       (''Partial refund '' @ px_refundNumber p @ '' for sale '' @ px_number p) (px_by p)) (\<lambda>_.
     restore_refund_layer (xi_product item) (px_company p) (xi_quantity item) refundCost ''REFUND'' (px_refund p))))))"

definition handle_sale_partially_refunded :: "bool \<Rightarrow> partial_payload \<Rightarrow> unit wtx" where
  "handle_sale_partially_refunded in_tx p =
     bind (require in_tx (JsError ''No transaction context for sale.partially_refunded event'')) (\<lambda>_.
     bind (movement_marker (px_company p) ''REFUND'' (px_refund p)) (\<lambda>alreadyApplied.
     if alreadyApplied \<noteq> None then ret () else for_each (px_items p) (return_partial_item p)))"

definition return_item :: "refunded_payload \<Rightarrow> sale_item_event \<Rightarrow> unit wtx" where
  "return_item p item =
     bind (find_stock_by_product_and_warehouse (se_product item) (sr_warehouse p) (sr_company p)) (\<lambda>stock.
     let beforeQty = quantity_before stock; afterQty = beforeQty + se_quantity item in
     bind (put_into_stock stock (se_product item) (sr_warehouse p) (sr_company p) afterQty) (\<lambda>_.
     bind (return_movement (sr_company p) (se_product item) (sr_warehouse p) (se_quantity item) beforeQty (sr_sale p)
       (''Refund for sale '' @ sr_number p) (sr_cashier p)) (\<lambda>_. ret ())))"

text \<open>\<^verbatim>\<open>expectedQtyByProduct\<close>, a \<^verbatim>\<open>Map\<close> in insertion order.\<close>

definition expected_by_product :: "sale_item_event list \<Rightarrow> (string \<times> int) list" where
  "expected_by_product items = fold (\<lambda>i m. AList.update (se_product i)
     ((case map_of m (se_product i) of None \<Rightarrow> 0 | Some n \<Rightarrow> n) + se_quantity i) m) items []"

definition restore_product :: "refunded_payload \<Rightarrow> string \<times> int \<Rightarrow> unit wtx" where
  "restore_product p x = (case x of (productId, expectedQuantity) \<Rightarrow>
     bind (find_out_layers_for (sr_company p) ''SALE'' (sr_sale p) productId) (\<lambda>outLayers.
     if outLayers = [] then ret ()
     else
       let layerQuantity = (\<Sum>l\<leftarrow>outLayers. cl_quantity l); layerTotalCost = (\<Sum>l\<leftarrow>outLayers. cl_totalCost l) in
       if layerQuantity \<noteq> expectedQuantity then ret ()
       else
         bind (ask dec_div) (\<lambda>quot.
         restore_layer productId (sr_company p) expectedQuantity (quot layerTotalCost (of_int layerQuantity))
           ''REFUND_RESTORE'' (sr_sale p))))"

definition restore_cost_layers :: "refunded_payload \<Rightarrow> unit wtx" where
  "restore_cost_layers p = for_each (expected_by_product (sr_items p)) (restore_product p)"

definition handle_sale_refunded :: "bool \<Rightarrow> refunded_payload \<Rightarrow> unit wtx" where
  "handle_sale_refunded in_tx p =
     bind (require in_tx (JsError ''No transaction context for sale.refunded event'')) (\<lambda>_.
     bind (movement_marker (sr_company p) ''REFUND'' (sr_sale p)) (\<lambda>alreadyApplied.
     if alreadyApplied \<noteq> None then ret ()
     else bind (for_each (sr_items p) (return_item p)) (\<lambda>_. restore_cost_layers p)))"

section \<open>What each write does to the stock and the layers\<close>

definition reserved_nonneg :: "world \<Rightarrow> bool" where
  "reserved_nonneg w \<longleftrightarrow> (\<forall>r \<in> set (t_stock w). 0 \<le> st_reserved r)"

definition shop_inv :: "world \<Rightarrow> bool" where
  "shop_inv w \<longleftrightarrow> inventory_inv w \<and> reserved_nonneg w"

lemma shop_inv_frame:
  assumes "shop_inv w" and "t_stock w' = t_stock w" and "t_layer w' = t_layer w"
    and "uuid_gen w' = uuid_gen w \<and> uuid_next w \<le> uuid_next w'"
  shows "shop_inv w'"
  using assms inventory_inv_frame [OF _ assms(2-4)] by (simp add: shop_inv_def reserved_nonneg_def)

lemma take_from_stock_as_update:
  assumes "stock_wf w" and "s \<in> set (t_stock w)" and "st_company s = c" and "q + st_reserved s \<le> st_quantity s"
  shows "\<exists>x w'. take_from_stock s c q w = (Inr (), w') \<and> w' = w\<lparr>t_stock := t_stock w'\<rparr> \<and>
    update_stock (st_id s) (\<lambda>r. r\<lparr>st_quantity := st_quantity s - q, st_available := st_available s - q\<rparr>) c (st_version s) w = (Inr x, w')"
proof -
  let ?f = "\<lambda>r. r\<lparr>st_quantity := st_quantity s - q, st_available := st_available s - q\<rparr>"
  let ?hit = "\<lambda>r. st_id r = st_id s \<and> st_company r = c \<and> q + st_reserved s \<le> st_quantity r"
  have ids: "distinct (map st_id (t_stock w))" using assms(1) by (simp add: stock_wf_def)
  have hit: "st_id r = st_id s \<longleftrightarrow> r = s" if "r \<in> set (t_stock w)" for r
    using distinct_map_eq [OF ids that assms(2)] by auto
  obtain x w' where run: "update_stock (st_id s) ?f c (st_version s) w = (Inr x, w')"
    using update_stock_hit [OF assms(2,3), of ?f] by auto
  have w': "w' = w\<lparr>t_stock := update_rows (\<lambda>r. st_id r = st_id s \<and> st_company r = c \<and> st_version r = st_version s)
        (\<lambda>r. (?f r)\<lparr>st_version := st_version (?f r) + 1\<rparr>) (t_stock w)\<rparr>"
    using update_stock_Inr [OF run] by simp
  have "update_rows ?hit (\<lambda>r. r\<lparr>st_quantity := st_quantity r - q, st_available := st_available r - q,
      st_version := st_version r + 1\<rparr>) (t_stock w) = t_stock w'"
    using hit assms(3,4) by (auto simp: w' update_rows_def)
  moreover have "count_rows ?hit (t_stock w) \<noteq> 0" using assms(2-4) by (auto simp: count_rows_0_iff)
  ultimately have "take_from_stock s c q w = (Inr (), w\<lparr>t_stock := t_stock w'\<rparr>)"
    by (simp add: take_from_stock_def Let_def)
  moreover have "w' = w\<lparr>t_stock := t_stock w'\<rparr>" by (simp add: w')
  ultimately show ?thesis using run by auto
qed

lemma take_from_stock_Inr:
  assumes "stock_wf w" and "find_first (stock_at p wh c) (t_stock w) = Some s" and "q + st_reserved s \<le> st_quantity s"
    and "take_from_stock s c q w = (Inr u, w')"
  shows "stock_wf w'"
    and "balance w' p' wh' c' = balance w p' wh' c' - (if (p', wh', c') = (p, wh, c) then q else 0)"
    and "stock_total w' p' c' = stock_total w p' c' - (if (p', c') = (p, c) then q else 0)"
    and "stock_nonneg w \<Longrightarrow> 0 \<le> st_reserved s \<Longrightarrow> stock_nonneg w'"
    and "reserved_nonneg w \<Longrightarrow> reserved_nonneg w'" and "w' = w\<lparr>t_stock := t_stock w'\<rparr>"
proof -
  have s: "s \<in> set (t_stock w)" "stock_at p wh c s" using find_first_SomeD [OF assms(2)] by simp_all
  then have c: "st_company s = c" by (simp add: stock_at_def)
  obtain x where run: "update_stock (st_id s) (\<lambda>r. r\<lparr>st_quantity := st_quantity s - q, st_available := st_available s - q\<rparr>)
      c (st_version s) w = (Inr x, w')" and w': "w' = w\<lparr>t_stock := t_stock w'\<rparr>"
    using take_from_stock_as_update [OF assms(1) s(1) c assms(3)] assms(4) by auto
  note W = write_balance [OF assms(1) s run]
  show "stock_wf w'" "w' = w\<lparr>t_stock := t_stock w'\<rparr>" by (rule W(1), rule w')
  have b: "balance w p wh c = st_quantity s" by (simp add: balance_def assms(2))
  show "balance w' p' wh' c' = balance w p' wh' c' - (if (p', wh', c') = (p, wh, c) then q else 0)"
    using W(2) [of p' wh' c'] b by auto
  show "stock_total w' p' c' = stock_total w p' c' - (if (p', c') = (p, c) then q else 0)"
    using W(3) [of p' c'] by auto
  show "stock_nonneg w'" if "stock_nonneg w" "0 \<le> st_reserved s" using W(4) that assms(3) by simp
  show "reserved_nonneg w'" if "reserved_nonneg w"
    using that update_stock_Inr [OF run] by (auto simp: reserved_nonneg_def set_update_rows)
qed

lemma put_into_stock_Inr:
  assumes "stock_wf w" and "stock = find_first (stock_at p wh c) (t_stock w)"
    and "put_into_stock stock p wh c (quantity_before stock + q) w = (Inr x, w')"
  shows "stock_wf w'"
    and "balance w' p' wh' c' = balance w p' wh' c' + (if (p', wh', c') = (p, wh, c) then q else 0)"
    and "stock_total w' p' c' = stock_total w p' c' + (if (p', c') = (p, c) then q else 0)"
    and "stock_nonneg w \<Longrightarrow> 0 \<le> q \<Longrightarrow> stock_nonneg w'"
    and "reserved_nonneg w \<Longrightarrow> reserved_nonneg w'"
    and "t_layer w' = t_layer w" and "t_movement w' = t_movement w" and "uuid_gen w' = uuid_gen w \<and> uuid_next w \<le> uuid_next w'"
proof -
  have "stock_wf w' \<and>
    balance w' p' wh' c' = balance w p' wh' c' + (if (p', wh', c') = (p, wh, c) then q else 0) \<and>
    stock_total w' p' c' = stock_total w p' c' + (if (p', c') = (p, c) then q else 0) \<and>
    (stock_nonneg w \<longrightarrow> 0 \<le> q \<longrightarrow> stock_nonneg w') \<and> (reserved_nonneg w \<longrightarrow> reserved_nonneg w') \<and>
    t_layer w' = t_layer w \<and> t_movement w' = t_movement w \<and> (uuid_gen w' = uuid_gen w \<and> uuid_next w \<le> uuid_next w')"
  proof (cases stock)
    case None
    then have run: "create_stock p wh c q 0 q w = (Inr x, w')" using assms(3) by (simp add: put_into_stock_def quantity_before_def)
    note N = create_empty_stock [OF assms(1) run]
    have "balance w p wh c = 0" using None assms(2) by (simp add: balance_def)
    moreover have "\<exists>row. st_quantity row = q \<and> st_reserved row = 0 \<and> w' = w\<lparr>uuid_next := Suc (uuid_next w), t_stock := t_stock w @ [row]\<rparr>"
      by (intro exI [of _ x]) (use iffD1 [OF create_stock_Inr run] in simp)
    ultimately show ?thesis using N(1) N(6) [of p' wh' c'] N(7) [of p' c']
      by (auto simp: stock_nonneg_def reserved_nonneg_def)
  next
    case (Some s)
    have found: "find_first (stock_at p wh c) (t_stock w) = Some s" using Some assms(2) by simp
    then have s: "s \<in> set (t_stock w)" "stock_at p wh c s" using find_first_SomeD [OF found] by simp_all
    have run: "update_stock (st_id s) (\<lambda>r. r\<lparr>st_quantity := st_quantity s + q, st_available := st_quantity s + q - st_reserved s\<rparr>)
        c (st_version s) w = (Inr x, w')"
      using assms(3) Some by (simp add: put_into_stock_def quantity_before_def)
    note W = write_balance [OF assms(1) s run]
    have "balance w p wh c = st_quantity s" by (simp add: balance_def found)
    moreover have "0 \<le> st_quantity s" if "stock_nonneg w" using that s(1) by (simp add: stock_nonneg_def)
    moreover have "reserved_nonneg w \<longrightarrow> reserved_nonneg w'"
      using update_stock_Inr [OF run] by (auto simp: reserved_nonneg_def set_update_rows)
    ultimately show ?thesis
      using W(1,4) W(2) [of p' wh' c'] W(3) [of p' c'] update_stock_Inr [OF run] by auto
  qed
  then show "stock_wf w'"
    and "balance w' p' wh' c' = balance w p' wh' c' + (if (p', wh', c') = (p, wh, c) then q else 0)"
    and "stock_total w' p' c' = stock_total w p' c' + (if (p', c') = (p, c) then q else 0)"
    and "stock_nonneg w \<Longrightarrow> 0 \<le> q \<Longrightarrow> stock_nonneg w'"
    and "reserved_nonneg w \<Longrightarrow> reserved_nonneg w'"
    and "t_layer w' = t_layer w" and "t_movement w' = t_movement w" and "uuid_gen w' = uuid_gen w \<and> uuid_next w \<le> uuid_next w'"
    by blast+
qed

text \<open>An IN layer adds its units to the pool, whatever it costs.\<close>

lemma in_layer_Inr:
  assumes ok: "layers_ok w" and q: "0 < q"
    and run: "create_cost_layer c p b ''IN'' q q u t rt ri w = (Inr x, w')"
  shows "layers_ok w'" and "pool_units w' p' c' = pool_units w p' c' + (if (p', c') = (p, c) then q else 0)"
    and "t_stock w' = t_stock w" and "t_movement w' = t_movement w" and "uuid_gen w' = uuid_gen w \<and> uuid_next w \<le> uuid_next w'"
    and "t_layer w' = t_layer w @ [x]" and "cl_direction x = ''IN''"
proof -
  have ids: "distinct (map cl_id (t_layer w))" and fresh: "uuid_fresh w (set (map cl_id (t_layer w)))"
    using ok by (simp_all add: layers_ok_def)
  have w': "w' = w\<lparr>uuid_next := Suc (uuid_next w), t_layer := t_layer w @ [x]\<rparr>"
    and x: "cl_id x = uuid_gen w (uuid_next w)" "cl_company x = c" "cl_product x = p"
      "cl_direction x = ''IN''" "cl_remaining x = q"
    using run by (auto simp: create_cost_layer_def Let_def bind_def)
  show "layers_ok w'"
    using ids uuid_fresh_now [OF fresh] uuid_fresh_step [OF fresh, of w'] by (simp add: layers_ok_def w' x)
  have "active_layer p' c' x \<longleftrightarrow> (p', c') = (p, c)" using q by (auto simp: active_layer_def x)
  then show "pool_units w' p' c' = pool_units w p' c' + (if (p', c') = (p, c) then q else 0)"
    by (simp add: pool_units_def layer_units_def active_sum w' x)
  show "t_stock w' = t_stock w" "t_movement w' = t_movement w" "uuid_gen w' = uuid_gen w \<and> uuid_next w \<le> uuid_next w'"
    "t_layer w' = t_layer w @ [x]" "cl_direction x = ''IN''"
    by (simp_all add: w' x)
qed

section \<open>One item of each event\<close>

definition sold_row :: "world \<Rightarrow> sale_payload \<Rightarrow> sale_item_event \<Rightarrow> stock_row option" where
  "sold_row w p item = find_first (stock_at (se_product item) (sp_warehouse p) (sp_company p)) (t_stock w)"

definition free_units :: "stock_row option \<Rightarrow> int" where
  "free_units stock = (case stock of None \<Rightarrow> 0 | Some s \<Rightarrow> st_quantity s - st_reserved s)"

lemma persist_fifo_cost_Inr:
  "persist_fifo_cost sale i cost w = (Inr u, w') \<longleftrightarrow>
     count_rows (\<lambda>r. (case i of None \<Rightarrow> True | Some k \<Rightarrow> si_id r = k) \<and> si_sale r = sale) (t_sale_item w) = 1 \<and>
     w' = w\<lparr>t_sale_item := update_rows (\<lambda>r. (case i of None \<Rightarrow> True | Some k \<Rightarrow> si_id r = k) \<and> si_sale r = sale)
       (\<lambda>r. r\<lparr>si_fifoCost := Some (round4 cost)\<rparr>) (t_sale_item w)\<rparr>"
  by (auto simp: persist_fifo_cost_def Let_def)

lemma sell_item_steps:
  assumes "sell_item p item w = (Inr u, w')"
  obtains w1 w2 w3 m fifo where "se_quantity item \<le> free_units (sold_row w p item)"
    and "case sold_row w p item of None \<Rightarrow> w1 = w | Some s \<Rightarrow> take_from_stock s (sp_company p) (se_quantity item) w = (Inr (), w1)"
    and "w2 = w1\<lparr>uuid_next := Suc (uuid_next w1), t_movement := t_movement w1 @ [m]\<rparr>"
    and "mv_company m = sp_company p \<and> mv_product m = se_product item \<and> mv_warehouse m = sp_warehouse p \<and> mv_type m = SALE \<and>
      mv_quantity m = - se_quantity item \<and> mv_before m = quantity_before (sold_row w p item) \<and>
      mv_after m = quantity_before (sold_row w p item) - se_quantity item \<and>
      mv_refType m = Some ''SALE'' \<and> mv_refId m = Some (sp_sale p)"
    and "consume_fifo_layers (se_product item) (sp_company p) (se_quantity item) ''SALE'' (sp_sale p) w2 = (Inr fifo, w3)"
    and "persist_fifo_cost (sp_sale p) (se_saleItem item) (fr_totalCost fifo) w3 = (Inr (), w')"
proof -
  let ?stock = "sold_row w p item"
  from assms obtain w1 m w2 fifo w3 where free: "se_quantity item \<le> free_units ?stock"
    and take: "(case ?stock of None \<Rightarrow> ret () | Some s \<Rightarrow> take_from_stock s (sp_company p) (se_quantity item)) w = (Inr (), w1)"
    and mv: "create_stock_movement
       \<lparr>md_company = sp_company p, md_product = se_product item, md_warehouse = sp_warehouse p, md_type = SALE,
        md_quantity = - se_quantity item, md_before = quantity_before ?stock,
        md_after = quantity_before ?stock - se_quantity item,
        md_refType = Some ''SALE'', md_refId = Some (sp_sale p), md_comment = Some (''Sale '' @ sp_number p),
        md_clientOp = None, md_user = Some (sp_cashier p)\<rparr> w1 = (Inr m, w2)"
    and fifo: "consume_fifo_layers (se_product item) (sp_company p) (se_quantity item) ''SALE'' (sp_sale p) w2 = (Inr fifo, w3)"
    and persist: "persist_fifo_cost (sp_sale p) (se_saleItem item) (fr_totalCost fifo) w3 = (Inr (), w')"
    unfolding sell_item_def find_stock_by_product_and_warehouse_def Let_def bind_Inr_iff require_Inr_iff
    by (cases ?stock) (auto simp: sold_row_def quantity_before_def free_units_def)
  show thesis
    by (rule that [OF free _ _ _ fifo persist]) (use take mv in \<open>auto simp: create_stock_movement_Inr split: option.splits\<close>)
qed

lemma consume_tables:
  assumes "consume_fifo_layers p c q rt ri w = (Inr r, w')"
  shows "t_stock w' = t_stock w" and "t_movement w' = t_movement w" and "t_sale_item w' = t_sale_item w"
    and "uuid_gen w' = uuid_gen w \<and> uuid_next w \<le> uuid_next w'"
proof -
  have F: "frame t_stock (consume_fifo_layers p c q rt ri)" "frame t_movement (consume_fifo_layers p c q rt ri)"
    "frame t_sale_item (consume_fifo_layers p c q rt ri)" "advances (consume_fifo_layers p c q rt ri)"
    by (intro frame_intros; simp)+
  show "t_stock w' = t_stock w" "t_movement w' = t_movement w" "t_sale_item w' = t_sale_item w"
    using F(1-3) assms by (auto dest: frameD)
  show "uuid_gen w' = uuid_gen w \<and> uuid_next w \<le> uuid_next w'" using F(4) assms by (rule advancesD)
qed

lemma sell_item_Inr:
  assumes inv: "shop_inv w" and q: "0 \<le> se_quantity item" and run: "sell_item p item w = (Inr u, w')"
  shows "shop_inv w'"
    and "balance w' p' wh' c' = balance w p' wh' c' -
      (if (p', wh', c') = (se_product item, sp_warehouse p, sp_company p) then se_quantity item else 0)"
    and "\<exists>m. t_movement w' = t_movement w @ [m] \<and> mv_company m = sp_company p \<and> mv_refType m = Some ''SALE'' \<and>
      mv_refId m = Some (sp_sale p) \<and> mv_product m = se_product item \<and> mv_quantity m = - se_quantity item"
proof -
  have wf: "stock_wf w" and lay: "layers_ok w" and nn: "stock_nonneg w" and rn: "reserved_nonneg w"
    and val: "\<And>p c. stock_total w p c = pool_units w p c"
    using inv by (simp_all add: shop_inv_def inventory_inv_def)
  obtain w1 w2 w3 m fifo where S: "se_quantity item \<le> free_units (sold_row w p item)"
    "case sold_row w p item of None \<Rightarrow> w1 = w | Some s \<Rightarrow> take_from_stock s (sp_company p) (se_quantity item) w = (Inr (), w1)"
    "w2 = w1\<lparr>uuid_next := Suc (uuid_next w1), t_movement := t_movement w1 @ [m]\<rparr>"
    "mv_company m = sp_company p \<and> mv_product m = se_product item \<and> mv_warehouse m = sp_warehouse p \<and> mv_type m = SALE \<and>
      mv_quantity m = - se_quantity item \<and> mv_before m = quantity_before (sold_row w p item) \<and>
      mv_after m = quantity_before (sold_row w p item) - se_quantity item \<and>
      mv_refType m = Some ''SALE'' \<and> mv_refId m = Some (sp_sale p)"
    "consume_fifo_layers (se_product item) (sp_company p) (se_quantity item) ''SALE'' (sp_sale p) w2 = (Inr fifo, w3)"
    "persist_fifo_cost (sp_sale p) (se_saleItem item) (fr_totalCost fifo) w3 = (Inr (), w')"
    by (rule sell_item_steps [OF run])
  let ?q = "se_quantity item" and ?p = "se_product item" and ?c = "sp_company p" and ?wh = "sp_warehouse p"
  have T: "stock_wf w1 \<and> balance w1 p' wh' c' = balance w p' wh' c' - (if (p', wh', c') = (?p, ?wh, ?c) then ?q else 0) \<and>
      stock_total w1 p'' c'' = stock_total w p'' c'' - (if (p'', c'') = (?p, ?c) then ?q else 0) \<and> stock_nonneg w1 \<and>
      reserved_nonneg w1 \<and> w1 = w\<lparr>t_stock := t_stock w1\<rparr> \<and> ?q \<le> balance w ?p ?wh ?c" for p'' c''
  proof (cases "sold_row w p item")
    case None
    with S(1,2) q have "?q = 0" "w1 = w" by (simp_all add: free_units_def)
    with wf nn rn None show ?thesis by (simp add: balance_def sold_row_def)
  next
    case (Some s)
    then have f: "find_first (stock_at ?p ?wh ?c) (t_stock w) = Some s" by (simp add: sold_row_def)
    have t: "take_from_stock s ?c ?q w = (Inr (), w1)" and le: "?q + st_reserved s \<le> st_quantity s"
      using S(1,2) Some by (simp_all add: free_units_def)
    have r: "0 \<le> st_reserved s" using find_first_SomeD [OF f] rn by (simp add: reserved_nonneg_def)
    note K = take_from_stock_Inr [OF wf f le t]
    show ?thesis using K(1,5,6) K(4) [OF nn r] rn K(2) [of p' wh' c'] K(3) [of p'' c''] le r
      by (simp add: balance_def f)
  qed
  then obtain t1 where w1: "w1 = w\<lparr>t_stock := t1\<rparr>" by blast
  have lay2: "layers_ok w2" by (rule layers_ok_frame [OF lay]) (simp_all add: S(3) w1)
  have pool2: "pool_units w2 p'' c'' = pool_units w p'' c''" for p'' c'' by (rule pool_frame) (simp add: S(3) w1)
  have "?q \<le> balance w ?p ?wh ?c" using T by blast
  also have "\<dots> \<le> pool_units w2 ?p ?c" using inventory_inv_covers inv by (simp add: shop_inv_def pool2)
  finally have "shortfall (active_layers w2 ?p ?c) ?q = 0" by (simp add: shortfall_def pool_units_def)
  note C = consume_fifo_layers_Inr [OF lay2 q S(5), unfolded this]
  note D = consume_tables [OF S(5)]
  obtain t where w': "w' = w3\<lparr>t_sale_item := t\<rparr>" using S(6) by (auto simp: persist_fifo_cost_Inr)
  have st': "t_stock w' = t_stock w1" by (simp add: w' D S(3))
  have adv: "uuid_gen w' = uuid_gen w1 \<and> uuid_next w1 \<le> uuid_next w'" using D(4) by (simp add: w' S(3))
  note V = stock_views_frame [OF st']
  have "pool_units w' p'' c'' = stock_total w' p'' c''" for p'' c''
  proof -
    have "pool_units w' p'' c'' = pool_units w3 p'' c''" by (rule pool_frame) (simp add: w')
    then show ?thesis using C(5) [of p'' c''] T [of p'' c''] val [of p'' c''] by (simp add: V pool2)
  qed
  moreover have "layers_ok w'" by (rule layers_ok_frame [OF C(1)]) (simp_all add: w')
  moreover have "stock_wf w'" using T by (intro stock_wf_frame [OF _ st' adv]) blast
  moreover have "stock_nonneg w'" "reserved_nonneg w'" using T V by (simp_all add: reserved_nonneg_def st')
  ultimately show "shop_inv w'" by (simp add: shop_inv_def inventory_inv_def)
  show "balance w' p' wh' c' = balance w p' wh' c' - (if (p', wh', c') = (?p, ?wh, ?c) then ?q else 0)"
    using T V by simp
  show "\<exists>m. t_movement w' = t_movement w @ [m] \<and> mv_company m = sp_company p \<and> mv_refType m = Some ''SALE'' \<and>
      mv_refId m = Some (sp_sale p) \<and> mv_product m = se_product item \<and> mv_quantity m = - se_quantity item"
    using S(4) by (intro exI [of _ m]) (simp add: w' D S(3) w1)
qed

text \<open>The cost that left the layers for a sale, and the cost written on its items.\<close>

definition out_cost :: "world \<Rightarrow> string \<Rightarrow> string \<Rightarrow> decimal" where
  "out_cost w c sale = (\<Sum>l\<leftarrow>t_layer w. if cl_company l = c \<and> cl_direction l = ''OUT'' \<and> cl_refType l = Some ''SALE'' \<and>
     cl_refId l = Some sale then cl_totalCost l else 0)"

definition cost_of_item :: "sale_item_row \<Rightarrow> decimal" where
  "cost_of_item r = (case si_fifoCost r of None \<Rightarrow> 0 | Some d \<Rightarrow> d)"

definition items_cost :: "world \<Rightarrow> string \<Rightarrow> decimal" where
  "items_cost w sale = (\<Sum>r\<leftarrow>t_sale_item w. if si_sale r = sale then cost_of_item r else 0)"

lemma frame_take_from_stock [frame_intros]:
  "(\<And>h w. g (t_stock_update h w) = g w) \<Longrightarrow> frame g (take_from_stock s c q)"
  unfolding take_from_stock_def Let_def by (intro frame_intros) auto

lemma drain_refs [simp]:
  "cl_refType (drain f l) = cl_refType l" "cl_refId (drain f l) = cl_refId l" "cl_totalCost (drain f l) = cl_totalCost l"
  by (simp_all add: drain_def)

lemma consume_out_cost:
  assumes "layers_ok w" and "0 \<le> q" and "consume_fifo_layers p c q ''SALE'' sale w = (Inr r, w')"
  shows "out_cost w' c sale = out_cost w c sale + round4 (fr_totalCost r)"
proof -
  have ids: "distinct (map cl_id (t_layer w))" using assms(1) by (simp add: layers_ok_def)
  from assms(3) [unfolded consume_fifo_layers_run [OF ids assms(2)] Let_def]
  have "t_layer w' = map (drain (fifo_share (active_layers w p c) q)) (t_layer w) @
      [out_layer w p c q (fr_totalCost r) ''SALE'' sale]"
    by (auto split: if_splits)
  then show ?thesis by (simp add: out_cost_def comp_def out_layer_def cong: if_cong)
qed

lemma sell_item_costs:
  assumes lay: "layers_ok w" and q: "0 \<le> se_quantity item" and id: "se_saleItem item = Some i"
    and run: "sell_item p item w = (Inr u, w')"
  obtains cost where "out_cost w' (sp_company p) (sp_sale p) = out_cost w (sp_company p) (sp_sale p) + cost"
    and "count_rows (\<lambda>r. si_id r = i \<and> si_sale r = sp_sale p) (t_sale_item w) = 1"
    and "t_sale_item w' = update_rows (\<lambda>r. si_id r = i \<and> si_sale r = sp_sale p) (\<lambda>r. r\<lparr>si_fifoCost := Some cost\<rparr>) (t_sale_item w)"
proof -
  obtain w1 w2 w3 m fifo where S: "se_quantity item \<le> free_units (sold_row w p item)"
    "case sold_row w p item of None \<Rightarrow> w1 = w | Some s \<Rightarrow> take_from_stock s (sp_company p) (se_quantity item) w = (Inr (), w1)"
    "w2 = w1\<lparr>uuid_next := Suc (uuid_next w1), t_movement := t_movement w1 @ [m]\<rparr>"
    "consume_fifo_layers (se_product item) (sp_company p) (se_quantity item) ''SALE'' (sp_sale p) w2 = (Inr fifo, w3)"
    "persist_fifo_cost (sp_sale p) (se_saleItem item) (fr_totalCost fifo) w3 = (Inr (), w')"
    by (rule sell_item_steps [OF run])
  have F: "frame t_layer (take_from_stock s c n)" "frame t_sale_item (take_from_stock s c n)"
    "frame uuid_gen (take_from_stock s c n)" "frame uuid_next (take_from_stock s c n)" for s c n
    by (intro frame_intros; simp)+
  have w1: "t_layer w1 = t_layer w" "t_sale_item w1 = t_sale_item w" "uuid_gen w1 = uuid_gen w" "uuid_next w1 = uuid_next w"
    using S(2) F [THEN frameD] by (auto split: option.splits)
  have lay2: "layers_ok w2" by (rule layers_ok_frame [OF lay]) (simp_all add: S(3) w1)
  have "out_cost w2 c s = out_cost w c s" for c s by (simp add: out_cost_def S(3) w1)
  then have "out_cost w' (sp_company p) (sp_sale p) = out_cost w (sp_company p) (sp_sale p) + round4 (fr_totalCost fifo)"
    using consume_out_cost [OF lay2 q S(4)] S(5) by (auto simp: persist_fifo_cost_Inr out_cost_def)
  moreover have "t_sale_item w3 = t_sale_item w" using consume_tables(3) [OF S(4)] by (simp add: S(3) w1)
  ultimately show thesis using S(5) by (auto intro: that simp: persist_fifo_cost_Inr id)
qed

lemma items_cost_update:
  assumes "count_rows (\<lambda>r. si_id r = i \<and> si_sale r = sale) t = 1"
    and "\<forall>r \<in> set t. si_id r = i \<and> si_sale r = sale \<longrightarrow> si_fifoCost r = None"
  shows "(\<Sum>r\<leftarrow>update_rows (\<lambda>r. si_id r = i \<and> si_sale r = sale) (\<lambda>r. r\<lparr>si_fifoCost := Some cost\<rparr>) t.
      if si_sale r = sale then cost_of_item r else 0) = (\<Sum>r\<leftarrow>t. if si_sale r = sale then cost_of_item r else 0) + cost"
proof -
  let ?hit = "\<lambda>r. si_id r = i \<and> si_sale r = sale"
  have "length (filter ?hit t) = 1" using assms(1) by (simp add: count_rows_def)
  then obtain r where f: "filter ?hit t = [r]" by (auto simp: length_Suc_conv)
  then have "r \<in> set (filter ?hit t)" by simp
  then have "si_fifoCost r = None" "si_sale r = sale" using assms(2) by auto
  then show ?thesis unfolding sum_list_update_rows f by (simp add: cost_of_item_def)
qed

text \<open>The items of a sale, one after the other.\<close>

definition sold_units :: "sale_item_event list \<Rightarrow> string \<Rightarrow> int" where
  "sold_units items p = (\<Sum>i\<leftarrow>items. if se_product i = p then se_quantity i else 0)"

definition sale_movement :: "sale_payload \<Rightarrow> movement_row \<Rightarrow> bool" where
  "sale_movement p m \<longleftrightarrow> mv_company m = sp_company p \<and> mv_refType m = Some ''SALE'' \<and> mv_refId m = Some (sp_sale p)"

lemma sell_items_Inr:
  assumes "shop_inv w" and "\<forall>i \<in> set items. 0 \<le> se_quantity i" and "for_each items (sell_item p) w = (Inr u, w')"
  shows "shop_inv w' \<and> (\<exists>ms. t_movement w' = t_movement w @ ms \<and> length ms = length items \<and> (\<forall>m \<in> set ms. sale_movement p m)) \<and>
    balance w' p' wh' c' = balance w p' wh' c' - (if wh' = sp_warehouse p \<and> c' = sp_company p then sold_units items p' else 0)"
  using assms
proof (induction items arbitrary: w)
  case Nil
  then show ?case by (simp add: sold_units_def)
next
  case (Cons i items)
  from Cons.prems(3) obtain w1 where one: "sell_item p i w = (Inr (), w1)" and rest: "for_each items (sell_item p) w1 = (Inr u, w')"
    by (auto simp: bind_Inr_iff)
  have q: "0 \<le> se_quantity i" using Cons.prems(2) by simp
  note S = sell_item_Inr [OF Cons.prems(1) q one]
  from S(3) obtain m where m: "t_movement w1 = t_movement w @ [m]" "sale_movement p m" by (auto simp: sale_movement_def)
  from Cons.IH [OF S(1) _ rest] Cons.prems(2) obtain ms where
    ms: "t_movement w' = t_movement w1 @ ms" "length ms = length items" "\<forall>m \<in> set ms. sale_movement p m" and
    inv: "shop_inv w'" and
    b: "balance w' p' wh' c' = balance w1 p' wh' c' - (if wh' = sp_warehouse p \<and> c' = sp_company p then sold_units items p' else 0)"
    by auto
  have "t_movement w' = t_movement w @ m # ms" using m ms by simp
  moreover have "balance w' p' wh' c' = balance w p' wh' c' -
      (if wh' = sp_warehouse p \<and> c' = sp_company p then sold_units (i # items) p' else 0)"
    using b S(2) [of p' wh' c'] by (auto simp: sold_units_def)
  ultimately show ?case using inv m(2) ms(2,3) by (intro conjI exI [of _ "m # ms"]) auto
qed

lemma sell_items_costs:
  assumes "shop_inv w" and "\<forall>i \<in> set items. 0 \<le> se_quantity i \<and> se_saleItem i \<noteq> None"
    and "distinct (map se_saleItem items)"
    and "\<forall>r \<in> set (t_sale_item w). si_sale r = sp_sale p \<and> Some (si_id r) \<in> se_saleItem ` set items \<longrightarrow> si_fifoCost r = None"
    and "for_each items (sell_item p) w = (Inr u, w')"
  shows "items_cost w' (sp_sale p) - items_cost w (sp_sale p) =
      out_cost w' (sp_company p) (sp_sale p) - out_cost w (sp_company p) (sp_sale p)"
  using assms
proof (induction items arbitrary: w)
  case Nil
  then show ?case by simp
next
  case (Cons i items)
  from Cons.prems(5) obtain w1 where one: "sell_item p i w = (Inr (), w1)" and rest: "for_each items (sell_item p) w1 = (Inr u, w')"
    by (auto simp: bind_Inr_iff)
  have q: "0 \<le> se_quantity i" using Cons.prems(2) by simp
  obtain k where k: "se_saleItem i = Some k" using Cons.prems(2) by auto
  have lay: "layers_ok w" using Cons.prems(1) by (simp add: shop_inv_def inventory_inv_def)
  obtain cost where O: "out_cost w1 (sp_company p) (sp_sale p) = out_cost w (sp_company p) (sp_sale p) + cost"
    and n: "count_rows (\<lambda>r. si_id r = k \<and> si_sale r = sp_sale p) (t_sale_item w) = 1"
    and t: "t_sale_item w1 = update_rows (\<lambda>r. si_id r = k \<and> si_sale r = sp_sale p) (\<lambda>r. r\<lparr>si_fifoCost := Some cost\<rparr>) (t_sale_item w)"
    by (rule sell_item_costs [OF lay q k one])
  have none: "\<forall>r \<in> set (t_sale_item w). si_id r = k \<and> si_sale r = sp_sale p \<longrightarrow> si_fifoCost r = None"
    using Cons.prems(4) k by force
  have "items_cost w1 (sp_sale p) = items_cost w (sp_sale p) + cost"
    unfolding items_cost_def t by (rule items_cost_update [OF n none])
  moreover have "Some k \<notin> se_saleItem ` set items" using Cons.prems(3) k by force
  then have "\<forall>r \<in> set (t_sale_item w1). si_sale r = sp_sale p \<and> Some (si_id r) \<in> se_saleItem ` set items \<longrightarrow> si_fifoCost r = None"
    using Cons.prems(4) by (auto simp: t set_update_rows)
  then have "items_cost w' (sp_sale p) - items_cost w1 (sp_sale p) =
      out_cost w' (sp_company p) (sp_sale p) - out_cost w1 (sp_company p) (sp_sale p)"
    using Cons.IH [OF sell_item_Inr(1) [OF Cons.prems(1) q one] _ _ _ rest] Cons.prems(2,3) by simp
  ultimately show ?case using O by simp
qed

text \<open>The items that come in.\<close>

lemma goods_in:
  assumes inv: "shop_inv w" and q: "0 < q" and stock: "stock = find_first (stock_at p wh c) (t_stock w)"
    and put: "put_into_stock stock p wh c (quantity_before stock + q) w = (Inr x, w1)"
    and mid: "t_stock w2 = t_stock w1" "t_layer w2 = t_layer w1" "uuid_gen w2 = uuid_gen w1 \<and> uuid_next w1 \<le> uuid_next w2"
    and lay: "create_cost_layer c p b ''IN'' q q u t rt ri w2 = (Inr l, w3)"
    and tail: "t_stock w' = t_stock w3" "t_layer w' = t_layer w3" "uuid_gen w' = uuid_gen w3 \<and> uuid_next w3 \<le> uuid_next w'"
  shows "shop_inv w'"
    and "balance w' p' wh' c' = balance w p' wh' c' + (if (p', wh', c') = (p, wh, c) then q else 0)"
proof -
  have wf: "stock_wf w" and lok: "layers_ok w" and nn: "stock_nonneg w" and rn: "reserved_nonneg w"
    and val: "\<And>p c. stock_total w p c = pool_units w p c"
    using inv by (simp_all add: shop_inv_def inventory_inv_def)
  note P = put_into_stock_Inr [OF wf stock put]
  have adv: "uuid_gen w2 = uuid_gen w \<and> uuid_next w \<le> uuid_next w2" using P(8) mid(3) by simp
  have "t_layer w2 = t_layer w" using mid(2) P(6) by simp
  then have lok2: "layers_ok w2" and pool2: "\<And>p c. pool_units w2 p c = pool_units w p c"
    by (rule layers_ok_frame [OF lok _ adv], rule pool_frame)
  note L = in_layer_Inr [OF lok2 q lay]
  have st: "t_stock w' = t_stock w1" using tail(1) L(3) mid(1) by simp
  have adv': "uuid_gen w' = uuid_gen w1 \<and> uuid_next w1 \<le> uuid_next w'" using tail(3) L(5) mid(3) by simp
  note V = stock_views_frame [OF st]
  have "stock_total w' p'' c'' = pool_units w' p'' c''" for p'' c''
    using P(3) [of p'' c''] L(2) [of p'' c''] val [of p'' c''] pool_frame [OF tail(2), of p'' c''] by (simp add: V pool2)
  moreover have "layers_ok w'" by (rule layers_ok_frame [OF L(1) tail(2,3)])
  moreover have "stock_wf w'" by (rule stock_wf_frame [OF P(1) st adv'])
  ultimately show "shop_inv w'"
    using P(4) [OF nn] P(5) [OF rn] q by (simp add: shop_inv_def inventory_inv_def V reserved_nonneg_def st)
  show "balance w' p' wh' c' = balance w p' wh' c' + (if (p', wh', c') = (p, wh, c) then q else 0)"
    using P(2) by (simp add: V)
qed

lemma frame_batch [frame_intros]:
  "(\<And>h w. g (t_batch_update h w) = g w) \<Longrightarrow> (\<And>h w. g (uuid_next_update h w) = g w) \<Longrightarrow> frame g (create_batch c item n)"
  unfolding create_batch_def by (intro frame_intros) auto

lemma advances_batch [frame_intros]: "advances (create_batch c item n)"
  unfolding create_batch_def by (intro frame_intros) auto

lemma receive_item_Inr:
  assumes inv: "shop_inv w" and q: "0 < ui_quantity item" and run: "receive_item p (n, item) w = (Inr u, w')"
  shows "shop_inv w'"
    and "balance w' p' wh' c' = balance w p' wh' c' +
      (if (p', wh', c') = (ui_product item, pu_warehouse p, pu_company p) then ui_quantity item else 0)"
    and "\<exists>m. t_movement w' = t_movement w @ [m] \<and> mv_company m = pu_company p \<and>
      mv_clientOp m = Some (receipt_prefix p @ num_str w (of_nat n))"
proof -
  define stock where "stock = find_first (stock_at (ui_product item) (pu_warehouse p) (pu_company p)) (t_stock w)"
  let ?q = "ui_quantity item" and ?p = "ui_product item" and ?c = "pu_company p" and ?wh = "pu_warehouse p"
  from run obtain x w1 b w2 l w3 m where
    put: "put_into_stock stock ?p ?wh ?c (quantity_before stock + ?q) w = (Inr x, w1)" and
    batch: "(case ui_batch item of None \<Rightarrow> ret None
       | Some number \<Rightarrow> if number = '''' then ret None else bind (create_batch ?c item number) (\<lambda>b. ret (Some b))) w1 = (Inr b, w2)" and
    layer: "create_cost_layer ?c ?p b ''IN'' ?q ?q (ui_unitCost item) (ui_unitCost item * of_int ?q) (Some ''PURCHASE'')
       (Some (pu_order p)) w2 = (Inr l, w3)" and
    mv: "w' = w3\<lparr>uuid_next := Suc (uuid_next w3), t_movement := t_movement w3 @ [m]\<rparr>" "mv_company m = ?c"
       "mv_clientOp m = Some (receipt_prefix p @ num_str w3 (of_nat n))"
    by (auto simp: receive_item_def find_stock_by_product_and_warehouse_def bind_Inr_iff Let_def create_stock_movement_Inr
      stock_def [symmetric])
  let ?batch = "case ui_batch item of None \<Rightarrow> ret None
       | Some number \<Rightarrow> if number = '''' then ret None else bind (create_batch ?c item number) (\<lambda>b. ret (Some b))"
  have F: "frame t_stock ?batch" "frame t_layer ?batch" "frame t_movement ?batch" "frame num_str ?batch" "advances ?batch"
    by (intro frame_intros; simp)+
  have G: "frame t_movement (put_into_stock stock p' wh' c' a)" "frame num_str (put_into_stock stock p' wh' c' a)" for p' wh' c' a
    unfolding put_into_stock_def by (intro frame_intros; simp)+
  have H: "frame t_movement (create_cost_layer c' p' b d q r u t rt ri)" "frame num_str (create_cost_layer c' p' b d q r u t rt ri)"
    for c' p' b d q r u t rt ri by (intro frame_intros; simp)+
  have mid: "t_stock w2 = t_stock w1" "t_layer w2 = t_layer w1" "uuid_gen w2 = uuid_gen w1 \<and> uuid_next w1 \<le> uuid_next w2"
    using frameD [OF F(1) batch] frameD [OF F(2) batch] advancesD [OF F(5) batch] by simp_all
  note K = goods_in [OF inv q stock_def put mid layer]
  show "shop_inv w'" by (rule K(1)) (simp_all add: mv(1))
  show "balance w' p' wh' c' = balance w p' wh' c' + (if (p', wh', c') = (?p, ?wh, ?c) then ?q else 0)"
    by (rule K(2)) (simp_all add: mv(1))
  have "t_movement w3 = t_movement w" "num_str w3 = num_str w"
    using frameD [OF G(1) put] frameD [OF F(3) batch] frameD [OF H(1) layer] frameD [OF G(2) put] frameD [OF F(4) batch]
      frameD [OF H(2) layer] by simp_all
  then show "\<exists>m. t_movement w' = t_movement w @ [m] \<and> mv_company m = ?c \<and>
      mv_clientOp m = Some (receipt_prefix p @ num_str w (of_nat n))"
    using mv by (intro exI [of _ m]) simp
qed

lemma return_partial_item_Inr:
  assumes inv: "shop_inv w" and run: "return_partial_item p item w = (Inr u, w')"
  shows "shop_inv w'"
    and "balance w' p' wh' c' = balance w p' wh' c' +
      (if (p', wh', c') = (xi_product item, px_warehouse p, px_company p) then xi_quantity item else 0)"
    and "\<exists>m. t_movement w' = t_movement w @ [m] \<and> mv_company m = px_company p \<and> mv_refType m = Some ''REFUND'' \<and>
      mv_refId m = Some (px_refund p)"
    and "0 < xi_quantity item"
proof -
  define stock where "stock = find_first (stock_at (xi_product item) (px_warehouse p) (px_company p)) (t_stock w)"
  let ?q = "xi_quantity item" and ?p = "xi_product item" and ?c = "px_company p" and ?wh = "px_warehouse p"
  from run obtain cost x w1 m w2 l k where
    q: "0 < ?q" and put: "put_into_stock stock ?p ?wh ?c (quantity_before stock + ?q) w = (Inr x, w1)" and
    ret: "return_movement ?c ?p ?wh ?q (quantity_before stock) (px_refund p)
       (''Partial refund '' @ px_refundNumber p @ '' for sale '' @ px_number p) (px_by p) w1 = (Inr m, w2)" and
    layer: "create_cost_layer ?c ?p None ''IN'' ?q ?q k cost (Some ''REFUND'') (Some (px_refund p)) w2 = (Inr l, w')"
    unfolding return_partial_item_def find_stock_by_product_and_warehouse_def bind_Inr_iff Let_def
      restore_refund_layer_def require_Inr_iff require_some_Inr_iff
    by (auto simp: stock_def [symmetric])
  have mv: "w2 = w1\<lparr>uuid_next := Suc (uuid_next w1), t_movement := t_movement w1 @ [m]\<rparr>" "mv_company m = ?c"
       "mv_refType m = Some ''REFUND''" "mv_refId m = Some (px_refund p)"
    using ret by (auto simp: return_movement_def create_stock_movement_Inr)
  have mid: "t_stock w2 = t_stock w1" "t_layer w2 = t_layer w1" "uuid_gen w2 = uuid_gen w1 \<and> uuid_next w1 \<le> uuid_next w2"
    by (simp_all add: mv(1))
  note K = goods_in [OF inv q stock_def put mid layer refl refl]
  show "shop_inv w'" by (rule K(1)) simp
  show "balance w' p' wh' c' = balance w p' wh' c' + (if (p', wh', c') = (?p, ?wh, ?c) then ?q else 0)"
    by (rule K(2)) simp
  have H: "frame t_movement (create_cost_layer c' p' b d q r u t rt ri)" for c' p' b d q r u t rt ri
    by (intro frame_intros; simp)
  have wf: "stock_wf w" using inv by (simp add: shop_inv_def inventory_inv_def)
  show "\<exists>m. t_movement w' = t_movement w @ [m] \<and> mv_company m = ?c \<and> mv_refType m = Some ''REFUND'' \<and>
      mv_refId m = Some (px_refund p)"
    using mv frameD [OF H layer] put_into_stock_Inr(7) [OF wf stock_def put] by (intro exI [of _ m]) simp
  show "0 < ?q" by (rule q)
qed

lemma items_movements:
  assumes step: "\<And>w x w'. I w \<Longrightarrow> x \<in> set xs \<Longrightarrow> f x w = (Inr (), w') \<Longrightarrow>
      I w' \<and> (\<exists>m. t_movement w' = t_movement w @ [m] \<and> M m)"
    and "I w" and "for_each xs f w = (Inr u, w')"
  shows "I w' \<and> (\<exists>ms. t_movement w' = t_movement w @ ms \<and> length ms = length xs \<and> (\<forall>m \<in> set ms. M m))"
  using assms
proof (induction xs arbitrary: w)
  case Nil
  then show ?case by simp
next
  case (Cons x xs)
  from Cons.prems(3) obtain w1 where one: "f x w = (Inr (), w1)" and rest: "for_each xs f w1 = (Inr u, w')"
    by (auto simp: bind_Inr_iff)
  have "I w1 \<and> (\<exists>m. t_movement w1 = t_movement w @ [m] \<and> M m)" by (rule Cons.prems(1) [OF Cons.prems(2) _ one]) simp
  then obtain m where i1: "I w1" and m: "t_movement w1 = t_movement w @ [m]" "M m" by blast
  have "I w' \<and> (\<exists>ms. t_movement w' = t_movement w1 @ ms \<and> length ms = length xs \<and> (\<forall>m \<in> set ms. M m))"
    by (rule Cons.IH [OF _ i1 rest]) (use Cons.prems(1) in auto)
  then obtain ms where "I w'" "t_movement w' = t_movement w @ m # ms" "length ms = length xs" "\<forall>m \<in> set ms. M m"
    using m by auto
  then show ?case using m(2) by (intro conjI exI [of _ "m # ms"]) auto
qed

section \<open>The full refund\<close>

definition return_marker :: "string \<Rightarrow> string \<Rightarrow> movement_row \<Rightarrow> bool" where
  "return_marker c i m \<longleftrightarrow> mv_company m = c \<and> mv_refType m = Some ''REFUND'' \<and> mv_refId m = Some i"

lemma return_item_Inr:
  assumes wf: "stock_wf w" and run: "return_item p item w = (Inr u, w')"
  shows "stock_wf w'"
    and "balance w' p' wh' c' = balance w p' wh' c' +
      (if (p', wh', c') = (se_product item, sr_warehouse p, sr_company p) then se_quantity item else 0)"
    and "stock_total w' p' c' = stock_total w p' c' + (if (p', c') = (se_product item, sr_company p) then se_quantity item else 0)"
    and "stock_nonneg w \<Longrightarrow> 0 \<le> se_quantity item \<Longrightarrow> stock_nonneg w'" and "reserved_nonneg w \<Longrightarrow> reserved_nonneg w'"
    and "t_layer w' = t_layer w" and "uuid_gen w' = uuid_gen w \<and> uuid_next w \<le> uuid_next w'"
    and "\<exists>m. t_movement w' = t_movement w @ [m] \<and> return_marker (sr_company p) (sr_sale p) m"
proof -
  define stock where "stock = find_first (stock_at (se_product item) (sr_warehouse p) (sr_company p)) (t_stock w)"
  from run obtain x w1 m where
    put: "put_into_stock stock (se_product item) (sr_warehouse p) (sr_company p) (quantity_before stock + se_quantity item) w = (Inr x, w1)"
    and mv: "w' = w1\<lparr>uuid_next := Suc (uuid_next w1), t_movement := t_movement w1 @ [m]\<rparr>"
      "return_marker (sr_company p) (sr_sale p) m"
    unfolding return_item_def find_stock_by_product_and_warehouse_def bind_Inr_iff Let_def return_movement_def
      create_stock_movement_Inr
    by (auto simp: stock_def [symmetric] return_marker_def)
  note P = put_into_stock_Inr [OF wf stock_def put]
  have st: "t_stock w' = t_stock w1" and adv: "uuid_gen w' = uuid_gen w1 \<and> uuid_next w1 \<le> uuid_next w'"
    by (simp_all add: mv(1))
  note V = stock_views_frame [OF st]
  show "stock_wf w'" by (rule stock_wf_frame [OF P(1) st adv])
  show "balance w' p' wh' c' = balance w p' wh' c' +
      (if (p', wh', c') = (se_product item, sr_warehouse p, sr_company p) then se_quantity item else 0)"
    and "stock_total w' p' c' = stock_total w p' c' + (if (p', c') = (se_product item, sr_company p) then se_quantity item else 0)"
    using P(2) [of p' wh' c'] P(3) [of p' c'] by (simp_all add: V)
  show "stock_nonneg w \<Longrightarrow> 0 \<le> se_quantity item \<Longrightarrow> stock_nonneg w'" "reserved_nonneg w \<Longrightarrow> reserved_nonneg w'"
    using P(4,5) by (simp_all add: V reserved_nonneg_def st)
  show "t_layer w' = t_layer w" "uuid_gen w' = uuid_gen w \<and> uuid_next w \<le> uuid_next w'"
    using P(6,8) adv by (simp_all add: mv(1))
  show "\<exists>m. t_movement w' = t_movement w @ [m] \<and> return_marker (sr_company p) (sr_sale p) m"
    using mv P(7) by (intro exI [of _ m]) simp
qed

lemma return_items_Inr:
  assumes "stock_wf w" and "\<forall>i \<in> set items. 0 \<le> se_quantity i" and "for_each items (return_item p) w = (Inr u, w')"
  shows "stock_wf w' \<and> t_layer w' = t_layer w \<and> uuid_gen w' = uuid_gen w \<and> uuid_next w \<le> uuid_next w' \<and>
    (stock_nonneg w \<longrightarrow> stock_nonneg w') \<and> (reserved_nonneg w \<longrightarrow> reserved_nonneg w') \<and>
    (\<forall>p' c'. stock_total w' p' c' = stock_total w p' c' + (if c' = sr_company p then sold_units items p' else 0)) \<and>
    (\<forall>p' wh' c'. balance w' p' wh' c' =
      balance w p' wh' c' + (if wh' = sr_warehouse p \<and> c' = sr_company p then sold_units items p' else 0))"
  using assms
proof (induction items arbitrary: w)
  case Nil
  then show ?case by (simp add: sold_units_def)
next
  case (Cons i items)
  from Cons.prems(3) obtain w1 where one: "return_item p i w = (Inr (), w1)" and rest: "for_each items (return_item p) w1 = (Inr u, w')"
    by (auto simp: bind_Inr_iff)
  note R = return_item_Inr [OF Cons.prems(1) one]
  have q: "0 \<le> se_quantity i" using Cons.prems(2) by simp
  have IH: "stock_wf w' \<and> t_layer w' = t_layer w1 \<and> uuid_gen w' = uuid_gen w1 \<and> uuid_next w1 \<le> uuid_next w' \<and>
    (stock_nonneg w1 \<longrightarrow> stock_nonneg w') \<and> (reserved_nonneg w1 \<longrightarrow> reserved_nonneg w') \<and>
    (\<forall>p' c'. stock_total w' p' c' = stock_total w1 p' c' + (if c' = sr_company p then sold_units items p' else 0)) \<and>
    (\<forall>p' wh' c'. balance w' p' wh' c' =
      balance w1 p' wh' c' + (if wh' = sr_warehouse p \<and> c' = sr_company p then sold_units items p' else 0))"
    by (rule Cons.IH [OF R(1) _ rest]) (use Cons.prems(2) in simp)
  then show ?case
    using R(4-7) q R(2) R(3) by (auto simp: sold_units_def)
qed

text \<open>The units per product, in the order of the \<^verbatim>\<open>Map\<close>.\<close>

definition add_expected :: "sale_item_event \<Rightarrow> (string \<times> int) list \<Rightarrow> (string \<times> int) list" where
  "add_expected i m = AList.update (se_product i) ((case map_of m (se_product i) of None \<Rightarrow> 0 | Some n \<Rightarrow> n) + se_quantity i) m"

lemma fold_add_expected:
  "distinct (map fst m) \<Longrightarrow> distinct (map fst (fold add_expected items m)) \<and>
     map_of (fold add_expected items m) p = (if p \<in> se_product ` set items \<or> map_of m p \<noteq> None
       then Some ((case map_of m p of None \<Rightarrow> 0 | Some n \<Rightarrow> n) + sold_units items p) else None)"
proof (induction items arbitrary: m)
  case Nil
  then show ?case by (simp add: sold_units_def del: map_of_eq_Some_iff split: option.split)
next
  case (Cons i items)
  have "distinct (map fst (add_expected i m))" using Cons.prems by (simp add: add_expected_def distinct_update)
  from Cons.IH [OF this] show ?case
    by (auto simp: add_expected_def update_conv' sold_units_def split: option.splits)
qed

lemma expected_by_product_facts:
  "distinct (map fst (expected_by_product items))"
  "map_of (expected_by_product items) p = (if p \<in> se_product ` set items then Some (sold_units items p) else None)"
proof -
  have "expected_by_product items = fold add_expected items []"
    by (simp add: expected_by_product_def add_expected_def [abs_def])
  then show "distinct (map fst (expected_by_product items))"
    "map_of (expected_by_product items) p = (if p \<in> se_product ` set items then Some (sold_units items p) else None)"
    using fold_add_expected [of "[]" items p] by simp_all
qed

lemma sold_units_absent: "p \<notin> se_product ` set items \<Longrightarrow> sold_units items p = 0"
  by (induction items) (auto simp: sold_units_def)

lemma sold_units_pos:
  assumes "\<forall>i \<in> set items. 1 \<le> se_quantity i" and "p \<in> se_product ` set items"
  shows "1 \<le> sold_units items p"
proof -
  obtain i where i: "i \<in> set items" "se_product i = p" using assms(2) by auto
  then have "se_quantity i \<le> sold_units items p"
    unfolding sold_units_def using assms(1) member_le_sum_list [of "se_quantity i" "map (\<lambda>i. if se_product i = p then se_quantity i else 0) items"]
    by force
  then show ?thesis using assms(1) i(1) by fastforce
qed

definition out_units :: "world \<Rightarrow> string \<Rightarrow> string \<Rightarrow> string \<Rightarrow> int" where
  "out_units w c sale p = (\<Sum>l\<leftarrow>t_layer w. if cl_company l = c \<and> cl_product l = p \<and> cl_direction l = ''OUT'' \<and>
     cl_refType l = Some ''SALE'' \<and> cl_refId l = Some sale then cl_quantity l else 0)"

lemma find_out_layers_units:
  assumes "find_out_layers_for c ''SALE'' sale p w = (Inr ls, w')"
  shows "w' = w \<and> (\<Sum>l\<leftarrow>ls. cl_quantity l) = out_units w c sale p"
  using assms
  by (auto simp: find_out_layers_for_def find_out_layers_by_reference_and_product_def out_units_def sum_list_sort_key
    find_many_def sum_list_map_filter')

lemma restore_product_Inr:
  assumes lay: "layers_ok w" and n: "0 < n" "out_units w (sr_company p) (sr_sale p) k = n"
    and run: "restore_product p (k, n) w = (Inr u, w')"
  shows "layers_ok w'" and "pool_units w' p' c' = pool_units w p' c' + (if (p', c') = (k, sr_company p) then n else 0)"
    and "t_stock w' = t_stock w" and "t_movement w' = t_movement w" and "uuid_gen w' = uuid_gen w \<and> uuid_next w \<le> uuid_next w'"
    and "out_units w' c'' s'' p'' = out_units w c'' s'' p''"
proof -
  from run obtain ls w1 where f: "find_out_layers_for (sr_company p) ''SALE'' (sr_sale p) k w = (Inr ls, w1)"
    by (auto simp: restore_product_def bind_Inr_iff)
  note U = find_out_layers_units [OF f]
  have "ls \<noteq> []" using U n by auto
  with run f U n obtain u t rt ri x where
    c: "create_cost_layer (sr_company p) k None ''IN'' n n u t rt ri w = (Inr x, w')"
    by (auto simp: restore_product_def restore_layer_def bind_Inr_iff Let_def require_Inr_iff)
  note L = in_layer_Inr [OF lay n(1) c]
  show "layers_ok w'" "pool_units w' p' c' = pool_units w p' c' + (if (p', c') = (k, sr_company p) then n else 0)"
    "t_stock w' = t_stock w" "t_movement w' = t_movement w" "uuid_gen w' = uuid_gen w \<and> uuid_next w \<le> uuid_next w'"
    by (rule L)+
  show "out_units w' c'' s'' p'' = out_units w c'' s'' p''" by (simp add: out_units_def L(6,7))
qed

lemma restore_products_Inr:
  assumes "layers_ok w" and "distinct (map fst ps)"
    and "\<forall>(k, n) \<in> set ps. 0 < n \<and> out_units w (sr_company p) (sr_sale p) k = n"
    and "for_each ps (restore_product p) w = (Inr u, w')"
  shows "layers_ok w' \<and> t_stock w' = t_stock w \<and> t_movement w' = t_movement w \<and>
    uuid_gen w' = uuid_gen w \<and> uuid_next w \<le> uuid_next w' \<and>
    (\<forall>p' c'. pool_units w' p' c' =
      pool_units w p' c' + (if c' = sr_company p then case map_of ps p' of None \<Rightarrow> 0 | Some n \<Rightarrow> n else 0))"
  using assms
proof (induction ps arbitrary: w)
  case Nil
  then show ?case by simp
next
  case (Cons x ps)
  obtain k n where x: "x = (k, n)" by (cases x)
  from Cons.prems(4) obtain w1 where one: "restore_product p (k, n) w = (Inr (), w1)" and
    rest: "for_each ps (restore_product p) w1 = (Inr u, w')"
    by (auto simp: bind_Inr_iff x)
  have n: "0 < n" "out_units w (sr_company p) (sr_sale p) k = n" using Cons.prems(3) x by auto
  note R = restore_product_Inr [OF Cons.prems(1) n one]
  have "k \<notin> fst ` set ps" using Cons.prems(2) x by simp
  then have k: "map_of ps k = None" by (simp add: map_of_eq_None_iff)
  have IH: "layers_ok w' \<and> t_stock w' = t_stock w1 \<and> t_movement w' = t_movement w1 \<and>
    uuid_gen w' = uuid_gen w1 \<and> uuid_next w1 \<le> uuid_next w' \<and>
    (\<forall>p' c'. pool_units w' p' c' =
      pool_units w1 p' c' + (if c' = sr_company p then case map_of ps p' of None \<Rightarrow> 0 | Some n \<Rightarrow> n else 0))"
    by (rule Cons.IH [OF R(1) _ _ rest]) (use Cons.prems(2,3) R(6) in auto)
  then show ?case using R(2-5) k by (auto simp: x)
qed

section \<open>The handlers\<close>

text \<open>
  What every handler does first: look for a movement of an earlier delivery and stop there. The contract
  of such a handler, and what it gives: the second delivery of an event changes nothing.
\<close>

locale marked_delivery =
  fixes log :: "'w \<Rightarrow> 'm list"
    and mark :: "'m \<Rightarrow> bool"
    and body handle :: "('w, unit) tx"
    and ready :: "'w \<Rightarrow> bool"
  assumes delivered: "\<exists>m \<in> set (log w). mark m \<Longrightarrow> handle w = (Inr (), w)"
    and undelivered: "\<forall>m \<in> set (log w). \<not> mark m \<Longrightarrow> handle w = body w"
    and body_marks: "ready w \<Longrightarrow> body w = (Inr (), w') \<Longrightarrow> ready w' \<and> (\<exists>m \<in> set (log w'). mark m)"
begin

lemma delivery_marks:
  assumes "ready w" and "handle w = (Inr (), w')"
  shows "ready w' \<and> (\<exists>m \<in> set (log w'). mark m)"
proof (cases "\<exists>m \<in> set (log w). mark m")
  case True
  with delivered [OF True] assms show ?thesis by simp
next
  case False
  then have "body w = (Inr (), w')" using undelivered [of w] assms(2) by simp
  with assms(1) show ?thesis by (rule body_marks)
qed

lemma redelivery: "ready w \<Longrightarrow> handle w = (Inr (), w') \<Longrightarrow> handle w' = (Inr (), w')"
  using delivery_marks delivered by blast

end

lemma gated_run:
  assumes "marker w = (Inr (find_first mark (t_movement w)), w)"
  shows "bind (require True e) (\<lambda>_. bind marker (\<lambda>a. if a \<noteq> None then ret () else body)) w =
    (if \<exists>m \<in> set (t_movement w). mark m then (Inr (), w) else body w)"
  using assms
  by (cases "find_first mark (t_movement w)") (auto simp: find_first_None_iff dest: find_first_SomeD)

lemma gated_needs_tx: "bind (require tx (JsError s)) f w = (Inr u, w') \<Longrightarrow> tx"
  by (cases tx) auto

lemma appended_mark:
  assumes "\<exists>ms. t_movement w' = t_movement w @ ms \<and> length ms = length xs \<and> (\<forall>m \<in> set ms. mark m)" and "xs \<noteq> []"
  shows "\<exists>m \<in> set (t_movement w'). mark m"
proof -
  from assms(1) obtain ms where ms: "t_movement w' = t_movement w @ ms" "length ms = length xs" "\<forall>m \<in> set ms. mark m"
    by blast
  with assms(2) show ?thesis by (cases ms) auto
qed

text \<open>Sales.\<close>

definition sale_ready :: "sale_payload \<Rightarrow> world \<Rightarrow> bool" where
  "sale_ready p w \<longleftrightarrow> shop_inv w \<and> sp_items p \<noteq> [] \<and> (\<forall>i \<in> set (sp_items p). 0 \<le> se_quantity i)"

lemma handle_sale_completed_run:
  "handle_sale_completed True p w = (if \<exists>m \<in> set (t_movement w). sale_movement p m then (Inr (), w)
     else for_each (sp_items p) (sell_item p) w)"
  unfolding handle_sale_completed_def by (rule gated_run) (simp add: movement_marker_def sale_movement_def [abs_def])

interpretation sale_delivery: marked_delivery t_movement "sale_movement p" "for_each (sp_items p) (sell_item p)"
  "handle_sale_completed True p" "sale_ready p" for p
proof (unfold_locales, goal_cases)
  case (3 w w')
  then have "shop_inv w" "\<forall>i \<in> set (sp_items p). 0 \<le> se_quantity i" "sp_items p \<noteq> []" by (simp_all add: sale_ready_def)
  then show ?case
    using sell_items_Inr [OF _ _ 3(2)] appended_mark [of w' w "sp_items p" "sale_movement p"] by (simp add: sale_ready_def)
qed (auto simp: handle_sale_completed_run)

text \<open>Goods receipts.\<close>

definition receipt_movement :: "received_payload \<Rightarrow> movement_row \<Rightarrow> bool" where
  "receipt_movement p m \<longleftrightarrow> mv_company m = pu_company p \<and>
     (case mv_clientOp m of None \<Rightarrow> False | Some op \<Rightarrow> prefix (receipt_prefix p) op)"

definition receipt_ready :: "received_payload \<Rightarrow> world \<Rightarrow> bool" where
  "receipt_ready p w \<longleftrightarrow> shop_inv w \<and> pu_items p \<noteq> [] \<and> (\<forall>i \<in> set (pu_items p). 0 < ui_quantity i)"

lemma handle_purchase_received_run:
  "handle_purchase_received True p w = (if \<exists>m \<in> set (t_movement w). receipt_movement p m then (Inr (), w)
     else for_each (zip [0..<length (pu_items p)] (pu_items p)) (receive_item p) w)"
  unfolding handle_purchase_received_def by (rule gated_run) (simp add: receipt_marker_def receipt_movement_def [abs_def])

lemma receive_items_Inr:
  assumes "shop_inv w" and "\<forall>i \<in> set (pu_items p). 0 < ui_quantity i"
    and "for_each (zip [0..<length (pu_items p)] (pu_items p)) (receive_item p) w = (Inr u, w')"
  shows "shop_inv w' \<and> (\<exists>ms. t_movement w' = t_movement w @ ms \<and> length ms = length (pu_items p) \<and>
    (\<forall>m \<in> set ms. receipt_movement p m))"
proof -
  let ?xs = "zip [0..<length (pu_items p)] (pu_items p)"
  have "shop_inv w' \<and> (\<exists>ms. t_movement w' = t_movement w @ ms \<and> length ms = length ?xs \<and> (\<forall>m \<in> set ms. receipt_movement p m))"
  proof (rule items_movements [where f = "receive_item p" and I = shop_inv and xs = ?xs, OF _ assms(1,3)])
    fix w x w'
    assume inv: "shop_inv w" and x: "x \<in> set ?xs" and run: "receive_item p x w = (Inr (), w')"
    obtain n item where xn: "x = (n, item)" by (cases x)
    then have "item \<in> set (pu_items p)" using x by (auto dest: set_zip_rightD)
    then have q: "0 < ui_quantity item" using assms(2) by simp
    show "shop_inv w' \<and> (\<exists>m. t_movement w' = t_movement w @ [m] \<and> receipt_movement p m)"
      using receive_item_Inr(1,3) [OF inv q run [unfolded xn]] by (auto simp: receipt_movement_def)
  qed
  then show ?thesis by simp
qed

interpretation receipt_delivery: marked_delivery t_movement "receipt_movement p"
  "for_each (zip [0..<length (pu_items p)] (pu_items p)) (receive_item p)" "handle_purchase_received True p" "receipt_ready p" for p
proof (unfold_locales, goal_cases)
  case (3 w w')
  then have "shop_inv w" "\<forall>i \<in> set (pu_items p). 0 < ui_quantity i" "pu_items p \<noteq> []" by (simp_all add: receipt_ready_def)
  then show ?case
    using receive_items_Inr [OF _ _ 3(2)] appended_mark [of w' w "pu_items p" "receipt_movement p"] by (simp add: receipt_ready_def)
qed (auto simp: handle_purchase_received_run)

text \<open>Partial refunds.\<close>

definition partial_ready :: "partial_payload \<Rightarrow> world \<Rightarrow> bool" where
  "partial_ready p w \<longleftrightarrow> shop_inv w \<and> px_items p \<noteq> []"

lemma handle_sale_partially_refunded_run:
  "handle_sale_partially_refunded True p w = (if \<exists>m \<in> set (t_movement w). return_marker (px_company p) (px_refund p) m
     then (Inr (), w) else for_each (px_items p) (return_partial_item p) w)"
  unfolding handle_sale_partially_refunded_def
  by (rule gated_run) (simp add: movement_marker_def return_marker_def [abs_def])

lemma return_partial_items_Inr:
  assumes "shop_inv w" and "for_each (px_items p) (return_partial_item p) w = (Inr u, w')"
  shows "shop_inv w' \<and> (\<exists>ms. t_movement w' = t_movement w @ ms \<and> length ms = length (px_items p) \<and>
    (\<forall>m \<in> set ms. return_marker (px_company p) (px_refund p) m))"
proof (rule items_movements [where f = "return_partial_item p" and I = shop_inv, OF _ assms])
  fix w x w'
  assume "shop_inv w" and "return_partial_item p x w = (Inr (), w')"
  from return_partial_item_Inr(1,3) [OF this]
  show "shop_inv w' \<and> (\<exists>m. t_movement w' = t_movement w @ [m] \<and> return_marker (px_company p) (px_refund p) m)"
    by (auto simp: return_marker_def)
qed

interpretation partial_delivery: marked_delivery t_movement "return_marker (px_company p) (px_refund p)"
  "for_each (px_items p) (return_partial_item p)" "handle_sale_partially_refunded True p" "partial_ready p" for p
proof (unfold_locales, goal_cases)
  case (3 w w')
  then have "shop_inv w" "px_items p \<noteq> []" by (simp_all add: partial_ready_def)
  then show ?case
    using return_partial_items_Inr [OF _ 3(2)] appended_mark [of w' w "px_items p" "return_marker (px_company p) (px_refund p)"]
    by (simp add: partial_ready_def)
qed (auto simp: handle_sale_partially_refunded_run)

text \<open>
  Full refunds. The cost is restored when the sale's consumption layers cover exactly the refunded units
  (\<open>refund_covered\<close>).
\<close>

definition refund_covered :: "world \<Rightarrow> refunded_payload \<Rightarrow> bool" where
  "refund_covered w p \<longleftrightarrow> (\<forall>i \<in> set (sr_items p).
     out_units w (sr_company p) (sr_sale p) (se_product i) = sold_units (sr_items p) (se_product i))"

definition refund_ready :: "refunded_payload \<Rightarrow> world \<Rightarrow> bool" where
  "refund_ready p w \<longleftrightarrow> shop_inv w \<and> sr_items p \<noteq> [] \<and> (\<forall>i \<in> set (sr_items p). 1 \<le> se_quantity i) \<and> refund_covered w p"

definition refund_body :: "refunded_payload \<Rightarrow> unit wtx" where
  "refund_body p = bind (for_each (sr_items p) (return_item p)) (\<lambda>_. restore_cost_layers p)"

lemma handle_sale_refunded_run:
  "handle_sale_refunded True p w = (if \<exists>m \<in> set (t_movement w). return_marker (sr_company p) (sr_sale p) m
     then (Inr (), w) else refund_body p w)"
  unfolding handle_sale_refunded_def refund_body_def
  by (rule gated_run) (simp add: movement_marker_def return_marker_def [abs_def])

lemma restore_products_out_units:
  assumes "layers_ok w" and "distinct (map fst ps)"
    and "\<forall>(k, n) \<in> set ps. 0 < n \<and> out_units w (sr_company p) (sr_sale p) k = n"
    and "for_each ps (restore_product p) w = (Inr u, w')"
  shows "out_units w' c s k = out_units w c s k"
  using assms
proof (induction ps arbitrary: w)
  case Nil
  then show ?case by simp
next
  case (Cons x ps)
  obtain k' n where x: "x = (k', n)" by (cases x)
  from Cons.prems(4) obtain w1 where one: "restore_product p (k', n) w = (Inr (), w1)" and
    rest: "for_each ps (restore_product p) w1 = (Inr u, w')"
    by (auto simp: bind_Inr_iff x)
  have n: "0 < n" "out_units w (sr_company p) (sr_sale p) k' = n" using Cons.prems(3) x by auto
  note R = restore_product_Inr [OF Cons.prems(1) n one]
  have "out_units w' c s k = out_units w1 c s k"
    by (rule Cons.IH [OF R(1) _ _ rest]) (use Cons.prems(2,3) R(6) in auto)
  then show ?case using R(6) by simp
qed

lemma refund_body_Inr:
  assumes "shop_inv w" and "\<forall>i \<in> set (sr_items p). 1 \<le> se_quantity i" and "refund_covered w p"
    and "refund_body p w = (Inr u, w')"
  shows "shop_inv w'" and "refund_covered w' p"
    and "\<exists>ms. t_movement w' = t_movement w @ ms \<and> length ms = length (sr_items p) \<and>
      (\<forall>m \<in> set ms. return_marker (sr_company p) (sr_sale p) m)"
    and "balance w' k wh c = balance w k wh c + (if wh = sr_warehouse p \<and> c = sr_company p then sold_units (sr_items p) k else 0)"
    and "pool_units w' k c = pool_units w k c + (if c = sr_company p then sold_units (sr_items p) k else 0)"
proof -
  have inv: "stock_wf w" "layers_ok w" "stock_nonneg w" "reserved_nonneg w" "\<And>p c. stock_total w p c = pool_units w p c"
    using assms(1) by (simp_all add: shop_inv_def inventory_inv_def)
  have q0: "\<forall>i \<in> set (sr_items p). 0 \<le> se_quantity i" using assms(2) by fastforce
  from assms(4) obtain w1 where items: "for_each (sr_items p) (return_item p) w = (Inr (), w1)"
    and rest: "for_each (expected_by_product (sr_items p)) (restore_product p) w1 = (Inr u, w')"
    by (auto simp: refund_body_def restore_cost_layers_def bind_Inr_iff)
  note A = return_items_Inr [OF inv(1) q0 items]
  have out: "out_units w1 c s k = out_units w c s k" for c s k using A by (simp add: out_units_def)
  have lay1: "layers_ok w1" using A by (intro layers_ok_frame [OF inv(2)]) simp_all
  note E = expected_by_product_facts [of "sr_items p"]
  have cov: "\<forall>(k, n) \<in> set (expected_by_product (sr_items p)). 0 < n \<and> out_units w1 (sr_company p) (sr_sale p) k = n"
  proof clarify
    fix k n
    assume "(k, n) \<in> set (expected_by_product (sr_items p))"
    then have "map_of (expected_by_product (sr_items p)) k = Some n" using E(1) by simp
    then have k: "k \<in> se_product ` set (sr_items p)" "n = sold_units (sr_items p) k"
      unfolding E(2) by (auto split: if_splits)
    then show "0 < n \<and> out_units w1 (sr_company p) (sr_sale p) k = n"
      using assms(3) sold_units_pos [OF assms(2) k(1)] by (auto simp: refund_covered_def out)
  qed
  note B = restore_products_Inr [OF lay1 E(1) cov rest]
  have units: "(case map_of (expected_by_product (sr_items p)) k of None \<Rightarrow> 0 | Some n \<Rightarrow> n) = sold_units (sr_items p) k" for k
    unfolding E(2) by (simp add: sold_units_absent)
  have st: "t_stock w' = t_stock w1" and adv: "uuid_gen w' = uuid_gen w1 \<and> uuid_next w1 \<le> uuid_next w'" using B by simp_all
  note V = stock_views_frame [OF st]
  have pool1: "pool_units w1 k c = pool_units w k c" for k c by (rule pool_frame) (use A in simp)
  show pool: "pool_units w' k c = pool_units w k c + (if c = sr_company p then sold_units (sr_items p) k else 0)" for k c
    using B by (simp add: units pool1)
  have "stock_wf w'" using A by (intro stock_wf_frame [OF _ st adv]) simp
  then show "shop_inv w'"
    using A B inv(3-5) by (simp add: shop_inv_def inventory_inv_def V pool reserved_nonneg_def st)
  show "balance w' k wh c = balance w k wh c + (if wh = sr_warehouse p \<and> c = sr_company p then sold_units (sr_items p) k else 0)"
    using A by (simp add: V)
  show "refund_covered w' p"
    using assms(3) restore_products_out_units [OF lay1 E(1) cov rest] out by (simp add: refund_covered_def)
  have "stock_wf w1 \<and> (\<exists>ms. t_movement w1 = t_movement w @ ms \<and> length ms = length (sr_items p) \<and>
      (\<forall>m \<in> set ms. return_marker (sr_company p) (sr_sale p) m))"
    by (rule items_movements [where f = "return_item p" and I = stock_wf, OF _ inv(1) items]) (use return_item_Inr(1,8) in blast)
  then show "\<exists>ms. t_movement w' = t_movement w @ ms \<and> length ms = length (sr_items p) \<and>
      (\<forall>m \<in> set ms. return_marker (sr_company p) (sr_sale p) m)"
    using B by simp
qed

interpretation refund_delivery: marked_delivery t_movement "return_marker (sr_company p) (sr_sale p)"
  "refund_body p" "handle_sale_refunded True p" "refund_ready p" for p
proof (unfold_locales, goal_cases)
  case (3 w w')
  then have A: "shop_inv w" "\<forall>i \<in> set (sr_items p). 1 \<le> se_quantity i" "sr_items p \<noteq> []" "refund_covered w p"
    by (simp_all add: refund_ready_def)
  note B = refund_body_Inr [OF A(1,2,4) 3(2)]
  from B(1,2) A appended_mark [OF B(3) A(3)] show ?case by (simp add: refund_ready_def)
qed (auto simp: handle_sale_refunded_run)

section \<open>The shop as a state machine\<close>

lemma keeps_reserved_writes [inv_intros]:
  "(\<And>r. 0 \<le> st_reserved r \<Longrightarrow> 0 \<le> st_reserved (f r)) \<Longrightarrow> keeps_ok reserved_nonneg (update_stock i f c v)"
  "0 \<le> k \<Longrightarrow> keeps_ok reserved_nonneg (create_stock p wh c q k a)"
  by (auto simp: keeps_ok_def reserved_nonneg_def create_stock_Inr set_update_rows dest!: update_stock_Inr)

lemma keeps_reserved_frame: "frame t_stock m \<Longrightarrow> keeps_ok reserved_nonneg m"
  by (rule keeps_ok_frame [where J = "\<lambda>t. \<forall>r \<in> set t. 0 \<le> st_reserved r"]) (simp_all add: reserved_nonneg_def)

lemma keeps_reserved_publish: "tame_bus bus \<Longrightarrow> keeps_ok reserved_nonneg (publish_event bus ev)"
  by (auto simp: keeps_ok_def reserved_nonneg_def dest: tame_busD)

lemma adjust_keeps_reserved:
  assumes "tame_bus bus"
  shows "keeps_ok reserved_nonneg (apply_adjust_stock bus d c user)"
proof -
  have F: "frame t_stock (adjust_references d c)" "\<And>s. frame t_stock (adjust_movement d c user s)"
    "\<And>x. frame t_stock (adjust_unit_cost d c x)" "\<And>s u. frame t_stock (adjust_layers d c s u)"
    "frame t_stock (find_stock_by_product_and_warehouse p wh c)" "frame t_stock fresh_uuid" "\<And>e. frame t_stock (audit_log e)"
    for p wh
    unfolding adjust_references_def adjust_movement_def adjust_unit_cost_def
    by (intro frame_intros frame_adjust_layers; simp)+
  show ?thesis
    unfolding apply_adjust_stock_def stock_or_zero_def Let_def
    by (intro inv_intros F [THEN keeps_reserved_frame] keeps_reserved_publish assms) simp_all
qed

lemma transfer_keeps_reserved:
  assumes "tame_bus bus"
  shows "keeps_ok reserved_nonneg (apply_transfer_stock bus d c user)"
proof -
  have F: "frame t_stock (transfer_references d c)" "\<And>wh ty b a. frame t_stock (transfer_movement d c user wh ty b a)"
    "frame t_stock (find_stock_by_product_and_warehouse p wh c)" "frame t_stock fresh_uuid" for p wh
    unfolding transfer_references_def transfer_movement_def by (intro frame_intros; simp)+
  show ?thesis
    unfolding apply_transfer_stock_def transfer_destination_def Let_def
    by (intro inv_intros F [THEN keeps_reserved_frame] keeps_reserved_publish assms) simp_all
qed

lemma shop_keeps:
  assumes "tame_bus bus"
  shows "keeps_ok shop_inv (apply_adjust_stock bus d c user)"
    and "tr_from t \<noteq> tr_to t \<Longrightarrow> 0 \<le> tr_quantity t \<Longrightarrow> keeps_ok shop_inv (apply_transfer_stock bus t c user)"
proof -
  have both: "keeps_ok inventory_inv m \<Longrightarrow> keeps_ok reserved_nonneg m \<Longrightarrow> keeps_ok shop_inv m" for m :: "json wtx"
    unfolding keeps_ok_def shop_inv_def by blast
  show "keeps_ok shop_inv (apply_adjust_stock bus d c user)"
    by (rule both [OF adjust_keeps_inv [OF assms] adjust_keeps_reserved [OF assms]])
  show "keeps_ok shop_inv (apply_transfer_stock bus t c user)" if "tr_from t \<noteq> tr_to t" "0 \<le> tr_quantity t"
    by (rule both [OF transfer_keeps_inv [OF assms that] transfer_keeps_reserved [OF assms]])
qed

lemma shop_inv_env:
  assumes "shop_inv w"
  shows "shop_inv (t_idem_update h w)" and "shop_inv (w\<lparr>uuid_next := Suc (uuid_next w)\<rparr>)" and "shop_inv (w\<lparr>now := t\<rparr>)"
  using assms by (auto intro!: shop_inv_frame [OF assms])

lemma reservation_keeps_reserved:
  assumes "shop_inv w"
  shows "0 \<le> rs_quantity d \<Longrightarrow> reserve_stock d c user w = (r, w') \<Longrightarrow> reserved_nonneg w'"
    and "release_stock d c user w = (r, w') \<Longrightarrow> reserved_nonneg w'"
proof -
  have wf: "stock_wf w" and rn: "reserved_nonneg w" using assms by (simp_all add: shop_inv_def inventory_inv_def)
  have put: "reserved_nonneg w'" if "t_stock w' = map (with_reserved i a b) (t_stock w)" "0 \<le> a" for i a b
    using that rn by (auto simp: reserved_nonneg_def with_reserved_def)
  show "reserved_nonneg w'" if q: "0 \<le> rs_quantity d" and run: "reserve_stock d c user w = (r, w')"
  proof (cases r)
    case (Inl e)
    with run rn show ?thesis by (auto simp: reserve_stock_def dest: transaction_rollback)
  next
    case (Inr x)
    from reserve_stock_Inr [OF wf run [unfolded Inr]] obtain s where
      s: "find_first (stock_at (rs_product d) (rs_warehouse d) c) (t_stock w) = Some s" and
      t: "t_stock w' = map (with_reserved (st_id s) (st_reserved s + rs_quantity d)
        (st_quantity s - st_reserved s - rs_quantity d)) (t_stock w)" by blast
    have "0 \<le> st_reserved s" using find_first_SomeD [OF s] rn by (simp add: reserved_nonneg_def)
    then show ?thesis using put [OF t] q by simp
  qed
  show "reserved_nonneg w'" if run: "release_stock d c user w = (r, w')"
  proof (cases r)
    case (Inl e)
    with run rn show ?thesis by (auto simp: release_stock_def dest: transaction_rollback)
  next
    case (Inr x)
    from release_stock_Inr [OF wf run [unfolded Inr]] obtain s where
      s: "find_first (stock_at (rs_product d) (rs_warehouse d) c) (t_stock w) = Some s" and
      t: "t_stock w' = map (with_reserved (st_id s) (st_reserved s - min (rs_quantity d) (st_reserved s))
        (st_quantity s - (st_reserved s - min (rs_quantity d) (st_reserved s)))) (t_stock w)" by blast
    show ?thesis by (rule put [OF t]) simp
  qed
qed

text \<open>
  One request or event, whatever its outcome. The quantities have passed the DTOs (\<^verbatim>\<open>@Min(1)\<close>); a full
  refund arrives for a sale whose consumption layers cover it.
\<close>

inductive shop_step :: "event_bus \<Rightarrow> world \<Rightarrow> world \<Rightarrow> bool" for bus :: event_bus where
  shop_adjust: "adjust_stock bus d c user key w = (r, w') \<Longrightarrow> shop_step bus w w'"
| shop_transfer: "1 \<le> tr_quantity t \<Longrightarrow> transfer_stock bus t c user key w = (r, w') \<Longrightarrow> shop_step bus w w'"
| shop_reserve: "1 \<le> rs_quantity s \<Longrightarrow> reserve_stock s c user w = (r', w') \<Longrightarrow> shop_step bus w w'"
| shop_release: "release_stock s c user w = (r', w') \<Longrightarrow> shop_step bus w w'"
| shop_clock: "shop_step bus w (w\<lparr>now := t\<rparr>)"
| shop_sale: "\<forall>i \<in> set (sp_items p). 1 \<le> se_quantity i \<Longrightarrow> transaction (handle_sale_completed tx p) w = (u, w') \<Longrightarrow> shop_step bus w w'"
| shop_receipt: "\<forall>i \<in> set (pu_items g). 1 \<le> ui_quantity i \<Longrightarrow> transaction (handle_purchase_received tx g) w = (u, w') \<Longrightarrow>
    shop_step bus w w'"
| shop_partial: "transaction (handle_sale_partially_refunded tx x) w = (u, w') \<Longrightarrow> shop_step bus w w'"
| shop_refund: "\<forall>i \<in> set (sr_items f). 1 \<le> se_quantity i \<Longrightarrow> refund_covered w f \<Longrightarrow>
    transaction (handle_sale_refunded tx f) w = (u, w') \<Longrightarrow> shop_step bus w w'"

inductive shop_reachable :: "event_bus \<Rightarrow> world \<Rightarrow> world \<Rightarrow> bool" for bus :: event_bus and w0 :: world where
  shop_start: "shop_reachable bus w0 w0"
| shop_next: "shop_reachable bus w0 w \<Longrightarrow> shop_step bus w w' \<Longrightarrow> shop_reachable bus w0 w'"

lemma handler_keeps:
  assumes "shop_inv w" and "transaction m w = (u, w')" and "\<And>x. m w = (Inr x, w') \<Longrightarrow> shop_inv w'"
  shows "shop_inv w'"
  using assms by (cases u) (auto simp: transaction_Inr_iff dest: transaction_rollback)

lemma no_tx_fails:
  "handle_sale_completed False p w = (Inl (JsError ''No transaction context for sale.completed event''), w)"
  "handle_purchase_received False g w = (Inl (JsError ''No transaction context for purchase.received event''), w)"
  "handle_sale_partially_refunded False x w = (Inl (JsError ''No transaction context for sale.partially_refunded event''), w)"
  "handle_sale_refunded False f w = (Inl (JsError ''No transaction context for sale.refunded event''), w)"
  by (simp_all add: handle_sale_completed_def handle_purchase_received_def handle_sale_partially_refunded_def
    handle_sale_refunded_def)

lemma shop_step_keeps_inv:
  assumes "tame_bus bus" and inv: "shop_inv w" and "shop_step bus w w'"
  shows "shop_inv w'"
  using assms(3)
proof cases
  case (shop_adjust d c user key r)
  have "keeps shop_inv (adjust_stock bus d c user key)"
    unfolding adjust_stock_def by (intro keeps_run_with_idempotency shop_inv_env shop_keeps assms(1))
  then show ?thesis using inv shop_adjust by (rule keepsD)
next
  case (shop_transfer t c user key r)
  show ?thesis
  proof (cases "tr_from t = tr_to t")
    case True
    with shop_transfer inv show ?thesis by (simp add: transfer_stock_def)
  next
    case False
    have "keeps shop_inv (run_with_idempotency c key ''inventory-transfer'' (transfer_request t user) 201
        (apply_transfer_stock bus t c user))"
      using shop_transfer(1) by (intro keeps_run_with_idempotency shop_inv_env shop_keeps assms(1) False) simp_all
    moreover have "run_with_idempotency c key ''inventory-transfer'' (transfer_request t user) 201
        (apply_transfer_stock bus t c user) w = (r, w')"
      using shop_transfer(2) False by (simp add: transfer_stock_def)
    ultimately show ?thesis using inv by (blast dest: keepsD)
  qed
next
  case (shop_reserve s c user r')
  then have "0 \<le> rs_quantity s" by simp
  from reservation_keeps_reserved(1) [OF inv this shop_reserve(2)] show ?thesis
    using inv reservation_keeps_inv(1) [OF _ shop_reserve(2)] by (simp add: shop_inv_def)
next
  case (shop_release s c user r')
  then show ?thesis using inv reservation_keeps_inv(2) [of w] reservation_keeps_reserved(2) [OF inv] by (simp add: shop_inv_def)
next
  case (shop_clock t)
  then show ?thesis using shop_inv_env(3) [OF inv] by simp
next
  case (shop_sale p tx u)
  from inv shop_sale(2) show ?thesis
  proof (rule handler_keeps)
    fix x
    assume run: "handle_sale_completed tx p w = (Inr x, w')"
    have "\<forall>i \<in> set (sp_items p). 0 \<le> se_quantity i" using shop_sale(1) by fastforce
    note S = sell_items_Inr [OF inv this]
    from run show "shop_inv w'"
      using inv S by (cases tx) (auto simp: no_tx_fails handle_sale_completed_run split: if_splits)
  qed
next
  case (shop_receipt g tx u)
  from inv shop_receipt(2) show ?thesis
  proof (rule handler_keeps)
    fix x
    assume run: "handle_purchase_received tx g w = (Inr x, w')"
    have "\<forall>i \<in> set (pu_items g). 0 < ui_quantity i" using shop_receipt(1) by fastforce
    note S = receive_items_Inr [OF inv this]
    from run show "shop_inv w'"
      using inv S by (cases tx) (auto simp: no_tx_fails handle_purchase_received_run split: if_splits)
  qed
next
  case (shop_partial tx x u)
  from inv shop_partial(1) show ?thesis
    by (rule handler_keeps, cases tx)
       (use inv return_partial_items_Inr in \<open>auto simp: no_tx_fails handle_sale_partially_refunded_run split: if_splits\<close>)
next
  case (shop_refund f tx u)
  from inv shop_refund(3) show ?thesis
    by (rule handler_keeps, cases tx)
       (use inv refund_body_Inr(1) [OF inv shop_refund(1,2)] in \<open>auto simp: no_tx_fails handle_sale_refunded_run split: if_splits\<close>)
qed

section \<open>Properties\<close>


text \<open>
  Property C10: a completed sale takes exactly its items, at their cost. The first delivery of a
  sale.completed event lowers the balance of each product in the sale's warehouse by the units sold and
  touches no other balance, never sells what is not there, and writes on the sale's items the same total
  cost that it books as leaving the cost layers.
\<close>

theorem completed_sale_takes_its_items_at_cost:
  assumes "shop_inv w" and "\<forall>i \<in> set (sp_items p). 0 \<le> se_quantity i \<and> se_saleItem i \<noteq> None"
    and "distinct (map se_saleItem (sp_items p))"
    and "\<forall>r \<in> set (t_sale_item w). si_sale r = sp_sale p \<longrightarrow> si_fifoCost r = None"
    and "\<forall>m \<in> set (t_movement w). \<not> sale_movement p m" and "handle_sale_completed True p w = (Inr u, w')"
  shows "balance w' k wh c = balance w k wh c - (if wh = sp_warehouse p \<and> c = sp_company p then sold_units (sp_items p) k else 0) \<and>
    stock_nonneg w' \<and> stock_total w' k c = pool_units w' k c \<and>
    items_cost w' (sp_sale p) - items_cost w (sp_sale p) =
      out_cost w' (sp_company p) (sp_sale p) - out_cost w (sp_company p) (sp_sale p)"
proof -
  have run: "for_each (sp_items p) (sell_item p) w = (Inr u, w')"
    using assms(5,6) by (auto simp: handle_sale_completed_run split: if_splits)
  have q: "\<forall>i \<in> set (sp_items p). 0 \<le> se_quantity i" using assms(2) by simp
  from sell_items_Inr [OF assms(1) q run, of k wh c] sell_items_costs [OF assms(1-3) _ run] assms(4)
  show ?thesis by (auto simp: shop_inv_def inventory_inv_def)
qed

text \<open>
  Property C14: delivering an event twice changes nothing the second time. After a successful delivery
  of a completed sale, a goods receipt, a partial refund or a covered full refund with at least one item,
  delivering the same event again succeeds and leaves the whole database as it is.
\<close>

theorem second_delivery_changes_nothing:
  "(sale_ready p w \<longrightarrow> handle_sale_completed True p w = (Inr (), w') \<longrightarrow> handle_sale_completed True p w' = (Inr (), w')) \<and>
   (receipt_ready g w \<longrightarrow> handle_purchase_received True g w = (Inr (), w') \<longrightarrow> handle_purchase_received True g w' = (Inr (), w')) \<and>
   (partial_ready x w \<longrightarrow> handle_sale_partially_refunded True x w = (Inr (), w') \<longrightarrow>
     handle_sale_partially_refunded True x w' = (Inr (), w')) \<and>
   (refund_ready f w \<longrightarrow> handle_sale_refunded True f w = (Inr (), w') \<longrightarrow> handle_sale_refunded True f w' = (Inr (), w'))"
  using sale_delivery.redelivery receipt_delivery.redelivery partial_delivery.redelivery refund_delivery.redelivery
  by blast

text \<open>What a sale books as gone from the layers is what its refund needs.\<close>

lemma consume_out_units:
  assumes "layers_ok w" and "0 \<le> q" and "consume_fifo_layers p c q ''SALE'' sale w = (Inr r, w')"
  shows "out_units w' c sale k = out_units w c sale k + (if k = p then q else 0)"
proof -
  have ids: "distinct (map cl_id (t_layer w))" using assms(1) by (simp add: layers_ok_def)
  from assms(3) [unfolded consume_fifo_layers_run [OF ids assms(2)] Let_def]
  have "t_layer w' = map (drain (fifo_share (active_layers w p c) q)) (t_layer w) @
      [out_layer w p c q (fr_totalCost r) ''SALE'' sale]"
    by (auto split: if_splits)
  then show ?thesis by (simp add: out_units_def comp_def out_layer_def cong: if_cong)
qed

lemma sell_item_out_units:
  assumes lay: "layers_ok w" and q: "0 \<le> se_quantity item" and run: "sell_item p item w = (Inr u, w')"
  shows "out_units w' (sp_company p) (sp_sale p) k = out_units w (sp_company p) (sp_sale p) k +
    (if k = se_product item then se_quantity item else 0)"
proof -
  obtain w1 w2 w3 m fifo where S:
    "case sold_row w p item of None \<Rightarrow> w1 = w | Some s \<Rightarrow> take_from_stock s (sp_company p) (se_quantity item) w = (Inr (), w1)"
    "w2 = w1\<lparr>uuid_next := Suc (uuid_next w1), t_movement := t_movement w1 @ [m]\<rparr>"
    "consume_fifo_layers (se_product item) (sp_company p) (se_quantity item) ''SALE'' (sp_sale p) w2 = (Inr fifo, w3)"
    "persist_fifo_cost (sp_sale p) (se_saleItem item) (fr_totalCost fifo) w3 = (Inr (), w')"
    by (rule sell_item_steps [OF run])
  have F: "frame t_layer (take_from_stock s c n)" "frame uuid_gen (take_from_stock s c n)"
    "frame uuid_next (take_from_stock s c n)" for s c n
    by (intro frame_intros; simp)+
  have w1: "t_layer w1 = t_layer w" "uuid_gen w1 = uuid_gen w" "uuid_next w1 = uuid_next w"
    using S(1) F [THEN frameD] by (auto split: option.splits)
  have lay2: "layers_ok w2" by (rule layers_ok_frame [OF lay]) (simp_all add: S(2) w1)
  have "t_layer w' = t_layer w3" using S(4) by (auto simp: persist_fifo_cost_Inr)
  then show ?thesis using consume_out_units [OF lay2 q S(3), of k] by (simp add: out_units_def S(2) w1)
qed

lemma sell_items_out_units:
  assumes "shop_inv w" and "\<forall>i \<in> set items. 0 \<le> se_quantity i" and "for_each items (sell_item p) w = (Inr u, w')"
  shows "out_units w' (sp_company p) (sp_sale p) k = out_units w (sp_company p) (sp_sale p) k + sold_units items k"
  using assms
proof (induction items arbitrary: w)
  case Nil
  then show ?case by (simp add: sold_units_def)
next
  case (Cons i items)
  from Cons.prems(3) obtain w1 where one: "sell_item p i w = (Inr (), w1)" and rest: "for_each items (sell_item p) w1 = (Inr u, w')"
    by (auto simp: bind_Inr_iff)
  have q: "0 \<le> se_quantity i" and lay: "layers_ok w" using Cons.prems(1,2) by (simp_all add: shop_inv_def inventory_inv_def)
  from Cons.IH [OF sell_item_Inr(1) [OF Cons.prems(1) q one] _ rest] Cons.prems(2) sell_item_out_units [OF lay q one, of k]
  show ?case by (simp add: sold_units_def)
qed

text \<open>
  Property C11: a full refund puts back exactly what the sale took. Let a sale be completed in \<open>w\<close>, and
  later --- in any state \<open>v\<close> in which stock and layers agree and the sale's consumption layers are still as
  the sale left them --- be refunded in full for the first time. Then the cost restore always applies, the
  balance of every product gains in \<open>v\<close> precisely what it lost in \<open>w\<close>, in the same warehouse, the active layers
  gain the same units, and stock and layers agree again.
\<close>

theorem full_refund_returns_what_was_sold:
  assumes "shop_inv w" and "\<forall>i \<in> set (sp_items p). 1 \<le> se_quantity i"
    and "\<forall>m \<in> set (t_movement w). \<not> sale_movement p m" and "\<forall>k. out_units w (sp_company p) (sp_sale p) k = 0"
    and "handle_sale_completed True p w = (Inr u, w')"
    and "shop_inv v" and "\<forall>k. out_units v (sp_company p) (sp_sale p) k = out_units w' (sp_company p) (sp_sale p) k"
    and "sr_sale f = sp_sale p \<and> sr_company f = sp_company p \<and> sr_warehouse f = sp_warehouse p \<and> sr_items f = sp_items p"
    and "\<forall>m \<in> set (t_movement v). \<not> return_marker (sr_company f) (sr_sale f) m" and "handle_sale_refunded True f v = (Inr u', v')"
  shows "balance v' k wh c - balance v k wh c = balance w k wh c - balance w' k wh c \<and>
    pool_units v' k c - pool_units v k c = (if c = sp_company p then sold_units (sp_items p) k else 0) \<and>
    stock_total v' k c = pool_units v' k c"
proof -
  have sell: "for_each (sp_items p) (sell_item p) w = (Inr u, w')"
    using assms(3,5) by (auto simp: handle_sale_completed_run split: if_splits)
  have returned: "refund_body f v = (Inr u', v')"
    using assms(9,10) by (auto simp: handle_sale_refunded_run split: if_splits)
  have q: "\<forall>i \<in> set (sp_items p). 0 \<le> se_quantity i" using assms(2) by fastforce
  have cov: "refund_covered v f"
    using sell_items_out_units [OF assms(1) q sell] assms(4,7,8) by (simp add: refund_covered_def)
  have q': "\<forall>i \<in> set (sr_items f). 1 \<le> se_quantity i" using assms(2,8) by simp
  note R = refund_body_Inr [OF assms(6) q' cov returned]
  from R(1) R(4) [of k wh c] R(5) [of k c] sell_items_Inr [OF assms(1) q sell, of k wh c] assms(8)
  show ?thesis by (auto simp: shop_inv_def inventory_inv_def)
qed

section \<open>Concrete runs\<close>

definition demo_item :: sale_item_event where
  "demo_item = \<lparr>se_product = ''p'', se_quantity = 3, se_unitPrice = 9, se_costPrice = 4, se_discount = 0,
     se_subtotal = 27, se_total = 27, se_margin = 15, se_saleItem = Some ''i1''\<rparr>"

definition demo_sale :: sale_payload where
  "demo_sale = \<lparr>sp_sale = ''s1'', sp_company = ''c'', sp_warehouse = ''A'', sp_cashier = ''u'', sp_customer = None,
     sp_number = ''S-1'', sp_subtotal = 27, sp_discount = 0, sp_total = 27, sp_paid = 27, sp_change = 0,
     sp_currency = ''KZT'', sp_items = [demo_item], sp_payments = []\<rparr>"

definition demo_refund :: refunded_payload where
  "demo_refund = \<lparr>sr_sale = ''s1'', sr_company = ''c'', sr_warehouse = ''A'', sr_cashier = ''u'', sr_number = ''S-1'',
     sr_total = 27, sr_currency = ''KZT'', sr_items = [demo_item], sr_payments = []\<rparr>"

definition demo_sale_item :: sale_item_row where
  "demo_sale_item = \<lparr>si_id = ''i1'', si_sale = ''s1'', si_product = ''p'', si_quantity = 3, si_unitPrice = 9, si_costPrice = 4,
     si_fifoCost = None, si_discount = 0, si_subtotal = 27, si_total = 27, si_margin = 15, si_createdAt = 0\<rparr>"

definition demo_shop :: world where
  "demo_shop = demo_world\<lparr>t_sale_item := [demo_sale_item]\<rparr>"

lemma demo_shop_inv: "shop_inv demo_shop"
proof -
  have "inventory_inv demo_world"
    using demo_world_ok
    by (auto simp: inventory_inv_def stock_total_def pool_units_def layer_units_def active_layers_def find_many_def
      demo_world_def demo_stock_row_def demo_layer_def active_layer_def)
  then have "shop_inv demo_world"
    by (simp add: shop_inv_def reserved_nonneg_def demo_world_def demo_stock_row_def)
  then show ?thesis by (rule shop_inv_frame) (simp_all add: demo_shop_def)
qed

definition demo_sold :: world where
  "demo_sold = snd (handle_sale_completed True demo_sale demo_shop)"

lemma demo_runs:
  "\<not> isl (fst (handle_sale_completed True demo_sale demo_shop))"
  "\<not> isl (fst (handle_sale_refunded True demo_refund demo_sold))"
  by code_simp+

lemma demo_sold_run: "handle_sale_completed True demo_sale demo_shop = (Inr (), demo_sold)"
  using run_succeeds [OF demo_runs(1)] by (auto simp: demo_sold_def)

lemma demo_facts:
  "\<forall>m \<in> set (t_movement demo_shop). \<not> sale_movement demo_sale m"
  "out_units demo_shop (sp_company demo_sale) (sp_sale demo_sale) k = 0"
  "balance demo_shop ''p'' ''A'' ''c'' = 10"
  by (simp_all add: demo_shop_def demo_world_def empty_world_def out_units_def demo_layer_def balance_def stock_at_def
    demo_stock_row_def)

lemma demo_sold_unreturned: "\<forall>m \<in> set (t_movement demo_sold). \<not> return_marker (sr_company demo_refund) (sr_sale demo_refund) m"
  by code_simp

lemma demo_sold_inv: "shop_inv demo_sold"
proof -
  have "shop_step (\<lambda>_. None) demo_shop demo_sold"
    by (rule shop_sale [where p = demo_sale and tx = True and u = "Inr ()"])
       (simp_all add: demo_sale_def demo_item_def transaction_Inr_iff demo_sold_run [unfolded demo_sale_def demo_item_def])
  then show ?thesis using shop_step_keeps_inv [OF tame_bus_empty demo_shop_inv] by blast
qed


theorem completed_sale_takes_its_items_at_cost_witness:
  "balance demo_sold ''p'' ''A'' ''c'' = 7 \<and> items_cost demo_sold ''s1'' - items_cost demo_shop ''s1'' =
    out_cost demo_sold ''c'' ''s1'' - out_cost demo_shop ''c'' ''s1''"
proof -
  have items: "\<forall>i \<in> set (sp_items demo_sale). 0 \<le> se_quantity i \<and> se_saleItem i \<noteq> None"
    "distinct (map se_saleItem (sp_items demo_sale))" "sold_units (sp_items demo_sale) ''p'' = 3"
    "sp_sale demo_sale = ''s1''" "sp_company demo_sale = ''c''" "sp_warehouse demo_sale = ''A''"
    by (simp_all add: demo_sale_def demo_item_def sold_units_def)
  have rows: "\<forall>r \<in> set (t_sale_item demo_shop). si_sale r = sp_sale demo_sale \<longrightarrow> si_fifoCost r = None"
    by (simp add: demo_shop_def demo_sale_item_def)
  show ?thesis
    using completed_sale_takes_its_items_at_cost [OF demo_shop_inv items(1,2) rows demo_facts(1) demo_sold_run,
        of "''p''" "''A''" "''c''"]
    by (simp add: items demo_facts)
qed

theorem second_delivery_changes_nothing_witness:
  "handle_sale_completed True demo_sale demo_sold = (Inr (), demo_sold)"
proof -
  have "sale_ready demo_sale demo_shop" using demo_shop_inv by (simp add: sale_ready_def demo_sale_def demo_item_def)
  with second_delivery_changes_nothing [of demo_sale demo_shop demo_sold] demo_sold_run show ?thesis by simp
qed

theorem full_refund_returns_what_was_sold_witness:
  "\<exists>v'. handle_sale_refunded True demo_refund demo_sold = (Inr (), v') \<and>
     balance v' ''p'' ''A'' ''c'' = balance demo_shop ''p'' ''A'' ''c''"
proof -
  obtain v' where run: "handle_sale_refunded True demo_refund demo_sold = (Inr (), v')"
    using run_succeeds [OF demo_runs(2)] by auto
  have items: "\<forall>i \<in> set (sp_items demo_sale). 1 \<le> se_quantity i"
    "sr_sale demo_refund = sp_sale demo_sale \<and> sr_company demo_refund = sp_company demo_sale \<and>
     sr_warehouse demo_refund = sp_warehouse demo_sale \<and> sr_items demo_refund = sp_items demo_sale"
    by (simp_all add: demo_sale_def demo_refund_def demo_item_def)
  have none: "\<forall>k. out_units demo_shop (sp_company demo_sale) (sp_sale demo_sale) k = 0" using demo_facts(2) by blast
  show ?thesis
    using full_refund_returns_what_was_sold [OF demo_shop_inv items(1) demo_facts(1) none demo_sold_run demo_sold_inv _
        items(2) demo_sold_unreturned run, of "''p''" "''A''" "''c''"] run
    by auto
qed

end
