(* ===== verification/SaleFinance.thy ===== *)
theory SaleFinance
  imports SaleInventory InventoryFinance
begin

text \<open>
  The ledger side of the sales events: \<^verbatim>\<open>finance/services/finance-integration.service.ts\<close> and the three
  \<^verbatim>\<open>finance/events/sale-*.handler.ts\<close> that call it with the event's id as operation identity, inside the
  publisher's transaction; and the subscriptions the modules make for these events. A description holds
  the UTF-8 bytes of its string. The payment methods are those of the schema's enum, so the amount of other
  methods, which the code keeps, is always zero and is left out.
\<close>

section \<open>Accounts and payments\<close>

definition DEFAULT_ACCOUNT_CODES :: "string list" where
  "DEFAULT_ACCOUNT_CODES = [''1010'', ''1020'', ''1200'', ''4000'', ''5000'', ''1300'']"

definition em_dash :: string where
  "em_dash = '' '' @ [CHR 0xE2, CHR 0x80, CHR 0x94] @ '' ''"

record sales_accounts =
  sx_cash :: "string option"
  sx_bank :: "string option"
  sx_receivable :: "string option"
  sx_revenue :: "string option"
  sx_cogs :: "string option"
  sx_inventory :: "string option"

definition find_sales_accounts :: "string \<Rightarrow> sales_accounts wtx" where
  "find_sales_accounts c = ask (\<lambda>w.
     let m = account_map (find_many (\<lambda>a. ac_code a \<in> set DEFAULT_ACCOUNT_CODES \<and> live_account c a) (t_account w)) in
     \<lparr>sx_cash = m ''1010'', sx_bank = m ''1020'', sx_receivable = m ''1200'', sx_revenue = m ''4000'',
      sx_cogs = m ''5000'', sx_inventory = m ''1300''\<rparr>)"

definition is_card_method :: "payment_method \<Rightarrow> bool" where
  "is_card_method m = (case m of CARD \<Rightarrow> True | QR \<Rightarrow> True | BANK_TRANSFER \<Rightarrow> True | MOBILE_WALLET \<Rightarrow> True | _ \<Rightarrow> False)"

text \<open>The composition of the payments: cash, card-like, customer credit.\<close>

definition add_composition :: "payment_event \<Rightarrow> decimal \<times> decimal \<times> decimal \<Rightarrow> decimal \<times> decimal \<times> decimal" where
  "add_composition p x = (case x of (cash, cards, credit) \<Rightarrow>
     (case pe_method p of
        CASH \<Rightarrow> (cash + pe_amount p, cards, credit)
      | CARD \<Rightarrow> (cash, cards + pe_amount p, credit)
      | QR \<Rightarrow> (cash, cards + pe_amount p, credit)
      | BANK_TRANSFER \<Rightarrow> (cash, cards + pe_amount p, credit)
      | MOBILE_WALLET \<Rightarrow> (cash, cards + pe_amount p, credit)
      | STORE_CREDIT \<Rightarrow> (cash, cards, credit + pe_amount p)
      | GIFT_CARD \<Rightarrow> (cash, cards, credit + pe_amount p)))"

definition payment_composition :: "payment_event list \<Rightarrow> decimal \<times> decimal \<times> decimal" where
  "payment_composition ps = fold add_composition ps (0, 0, 0)"

definition gl_line :: "string \<Rightarrow> decimal \<Rightarrow> decimal \<Rightarrow> string \<Rightarrow> post_line" where
  "gl_line a debit credit description =
     \<lparr>pl_account = a, pl_debit = Amount debit, pl_credit = Amount credit, pl_description = Some description\<rparr>"

section \<open>A completed sale\<close>

definition already_posted :: "string \<Rightarrow> string option \<Rightarrow> bool wtx" where
  "already_posted c op = (case truthy op of
       None \<Rightarrow> ret False
     | Some i \<Rightarrow> ask (\<lambda>w. find_first (\<lambda>e. je_company e = c \<and> je_clientOp e = Some i) (t_entry w) \<noteq> None))"

definition sale_out_layers :: "string \<Rightarrow> string \<Rightarrow> layer_row list wtx" where
  "sale_out_layers c sale = ask (\<lambda>w. find_many (\<lambda>l. cl_company l = c \<and> cl_direction l = ''OUT'' \<and>
     cl_refType l = Some ''SALE'' \<and> cl_refId l = Some sale) (t_layer w))"

definition legacy_total :: "sale_item_event list \<Rightarrow> decimal" where
  "legacy_total items = (\<Sum>i\<leftarrow>items. se_costPrice i * of_int (se_quantity i))"

text \<open>\<^verbatim>\<open>resolveSaleCogs\<close>; its log lines and the name of the source are left out.\<close>

definition resolve_sale_cogs :: "sale_item_event list \<Rightarrow> layer_row list \<Rightarrow> decimal" where
  "resolve_sale_cogs items layers =
     (if layers = [] then legacy_total items
      else if length layers < length items then legacy_total items
      else (\<Sum>l\<leftarrow>layers. cl_totalCost l))"

definition sale_lines :: "sales_accounts \<Rightarrow> sale_payload \<Rightarrow> decimal \<Rightarrow> post_line list" where
  "sale_lines a p cost = (case payment_composition (sp_payments p) of (cash, cards, credit) \<Rightarrow>
     let sale = ''Sale '' @ sp_number p; cashNet = cash - sp_change p in
     (case sx_cash a of
        None \<Rightarrow> []
      | Some i \<Rightarrow>
          if 0 < cashNet then [gl_line i cashNet 0 (''Cash payment (net of change)'' @ em_dash @ sale)]
          else if cashNet < 0 then [gl_line i 0 \<bar>cashNet\<bar> (''Change dispensed from float'' @ em_dash @ sale)]
          else []) @
     (if 0 < cards then
        (case sx_bank a of
           Some i \<Rightarrow> [gl_line i cards 0 (''Card/QR/Bank payment'' @ em_dash @ sale)]
         | None \<Rightarrow> (case sx_cash a of
             Some i \<Rightarrow> [gl_line i cards 0 (''Card/QR/Bank payment (via cash acct)'' @ em_dash @ sale)]
           | None \<Rightarrow> []))
      else []) @
     (case sx_receivable a of
        None \<Rightarrow> []
      | Some i \<Rightarrow> if 0 < credit then [gl_line i credit 0 (''Store credit / Gift card'' @ em_dash @ sale)] else []) @
     (case sx_revenue a of
        None \<Rightarrow> []
      | Some i \<Rightarrow> [gl_line i 0 (sp_total p) (''Sales revenue'' @ em_dash @ sale)]) @
     (case (sx_cogs a, sx_inventory a) of
        (Some g, Some i) \<Rightarrow>
          if 0 < cost then [gl_line g cost 0 (''COGS'' @ em_dash @ sale), gl_line i 0 cost (''Inventory reduction'' @ em_dash @ sale)]
          else []
      | _ \<Rightarrow> []))"

definition on_sale_completed :: "event_bus \<Rightarrow> sale_payload \<Rightarrow> string option \<Rightarrow> unit wtx" where
  "on_sale_completed bus p op =
     bind (already_posted (sp_company p) op) (\<lambda>posted.
     if posted then ret ()
     else
       bind (ensure_current_calendar (sp_company p)) (\<lambda>(_, period, postable).
       bind (require postable (BadRequest ''Financial period is not OPEN. Cannot create accounting entries for sale'')) (\<lambda>_.
       bind (find_sales_accounts (sp_company p)) (\<lambda>accounts.
       bind (ask now) (\<lambda>entryDate.
       bind (sale_out_layers (sp_company p) (sp_sale p)) (\<lambda>layers.
       bind (execute_post bus
         \<lparr>pi_company = sp_company p, pi_period = fp_id period, pi_date = entryDate,
          pi_description = Some (''Sales journal'' @ em_dash @ ''Sale '' @ sp_number p), pi_refType = Some ''SALE'',
          pi_refId = Some (sp_sale p), pi_createdBy = sp_cashier p, pi_clientOp = op,
          pi_lines = sale_lines accounts p (resolve_sale_cogs (sp_items p) layers)\<rparr>) (\<lambda>_. ret ())))))))"

section \<open>A fully refunded sale\<close>

definition refund_lines :: "sales_accounts \<Rightarrow> refunded_payload \<Rightarrow> decimal \<Rightarrow> post_line list" where
  "refund_lines a p cost = (case payment_composition (sr_payments p) of (cash, cards, credit) \<Rightarrow>
     let refund = ''Refund'' @ em_dash @ sr_number p; cashNet = sr_total p - cards - credit in
     (case sx_revenue a of
        None \<Rightarrow> []
      | Some i \<Rightarrow> [gl_line i (sr_total p) 0 (''Revenue reversal'' @ em_dash @ refund)]) @
     (case sx_cash a of
        None \<Rightarrow> []
      | Some i \<Rightarrow>
          if 0 < cashNet then [gl_line i 0 cashNet (''Cash refund'' @ em_dash @ refund)]
          else if cashNet < 0 then [gl_line i \<bar>cashNet\<bar> 0 (''Change drawn from float'' @ em_dash @ refund)]
          else []) @
     (if 0 < cards then
        (case sx_bank a of
           Some i \<Rightarrow> [gl_line i 0 cards (''Card/QR/Bank refund'' @ em_dash @ refund)]
         | None \<Rightarrow> (case sx_cash a of
             Some i \<Rightarrow> [gl_line i 0 cards (''Card/QR/Bank refund (via cash acct)'' @ em_dash @ refund)]
           | None \<Rightarrow> []))
      else []) @
     (case sx_receivable a of
        None \<Rightarrow> []
      | Some i \<Rightarrow> if 0 < credit then [gl_line i 0 credit (''Store credit / Gift card refund'' @ em_dash @ refund)] else []) @
     (case (sx_cogs a, sx_inventory a) of
        (Some g, Some i) \<Rightarrow>
          if 0 < cost then [gl_line i cost 0 (''Inventory restore'' @ em_dash @ refund), gl_line g 0 cost (''COGS reversal'' @ em_dash @ refund)]
          else []
      | _ \<Rightarrow> []))"

definition on_sale_refunded :: "event_bus \<Rightarrow> refunded_payload \<Rightarrow> string option \<Rightarrow> unit wtx" where
  "on_sale_refunded bus p op =
     bind (already_posted (sr_company p) op) (\<lambda>posted.
     if posted then ret ()
     else
       bind (ensure_current_calendar (sr_company p)) (\<lambda>(_, period, postable).
       bind (require postable (BadRequest ''Financial period is not OPEN. Cannot create reversal entries for refund of sale'')) (\<lambda>_.
       bind (find_sales_accounts (sr_company p)) (\<lambda>accounts.
       bind (ask now) (\<lambda>entryDate.
       bind (sale_out_layers (sr_company p) (sr_sale p)) (\<lambda>layers.
       bind (execute_post bus
         \<lparr>pi_company = sr_company p, pi_period = fp_id period, pi_date = entryDate,
          pi_description = Some (''Sales refund journal'' @ em_dash @ ''Refund'' @ em_dash @ sr_number p),
          pi_refType = Some ''REFUND'', pi_refId = Some (sr_sale p), pi_createdBy = sr_cashier p, pi_clientOp = op,
          pi_lines = refund_lines accounts p (resolve_sale_cogs (sr_items p) layers)\<rparr>) (\<lambda>_. ret ())))))))"

section \<open>A partial refund\<close>

definition refund_allocations :: "string \<Rightarrow> string \<Rightarrow> refund_alloc_row list wtx" where
  "refund_allocations c refund = ask (\<lambda>w. find_many (\<lambda>a. ra_company a = c \<and> ra_refund a = refund \<and> ra_deleted a = None)
     (t_refund_alloc w))"

definition payment_account :: "sales_accounts \<Rightarrow> payment_method \<Rightarrow> string option" where
  "payment_account a m =
     (if m = CASH then sx_cash a else if is_card_method m then sx_bank a else sx_receivable a)"

text \<open>\<^verbatim>\<open>byAccount\<close>, keyed by an account id that may be undefined.\<close>

primrec by_account ::
  "sales_accounts \<Rightarrow> refund_alloc_row list \<Rightarrow> (string option \<times> decimal) list \<Rightarrow> (string option \<times> decimal) list wtx" where
  "by_account a [] m = ret m"
| "by_account a (r # rs) m =
     bind (require (\<not> ra_amount r \<le> 0) (BadRequest ''Invalid refund payment allocation: amount must be positive.'')) (\<lambda>_.
     let i = payment_account a (ra_method r) in
     by_account a rs (AList.update i ((case map_of m i of None \<Rightarrow> 0 | Some d \<Rightarrow> d) + ra_amount r) m))"

definition payout_lines :: "sales_accounts \<Rightarrow> string \<Rightarrow> decimal \<Rightarrow> string \<Rightarrow> refund_alloc_row list \<Rightarrow> post_line list wtx" where
  "payout_lines a cash refundTotal description rows =
     (if rows = [] then ret [gl_line cash 0 refundTotal (''Refund payout'' @ em_dash @ description)]
      else
        bind (by_account a rows []) (\<lambda>m.
        bind (require (\<forall>(i, d) \<in> set m. i \<noteq> None) (BadRequest ''Missing required Chart of Accounts for partial refund (payment side)'')) (\<lambda>_.
        let lines = map (\<lambda>(i, d). gl_line (the i) 0 d (''Refund payout'' @ em_dash @ description)) m in
        bind (require ((\<Sum>(i, d)\<leftarrow>m. d) = refundTotal)
          (BadRequest ''Refund payment allocations do not sum to the refund total. Refusing to post an unbalanced journal.'')) (\<lambda>_.
        ret lines))))"

text \<open>\<^verbatim>\<open>new Decimal(item.fifoCost)\<close> throws on a string that is no number.\<close>

primrec fifo_total :: "partial_item_event list \<Rightarrow> decimal \<Rightarrow> decimal wtx" where
  "fifo_total [] acc = ret acc"
| "fifo_total (i # items) acc = bind (require_some (xi_fifoCost i) DecimalError) (\<lambda>d. fifo_total items (acc + d))"

definition partial_refund_lines :: "sales_accounts \<Rightarrow> partial_payload \<Rightarrow> refund_alloc_row list \<Rightarrow> decimal \<Rightarrow> post_line list wtx" where
  "partial_refund_lines a p rows fifoTotal =
     (let description = ''Partial refund'' @ em_dash @ px_number p @ '' ('' @ px_refundNumber p @ '')'' in
      case (sx_revenue a, sx_cash a, sx_cogs a, sx_inventory a) of
        (Some revenue, Some cash, Some cogs, Some inventory) \<Rightarrow>
          bind (payout_lines a cash (px_total p) description rows) (\<lambda>payouts.
          ret ([gl_line revenue (px_total p) 0 (''Revenue reversal'' @ em_dash @ description)] @ payouts @
            (if 0 < fifoTotal then [gl_line inventory fifoTotal 0 (''Inventory restore'' @ em_dash @ description),
               gl_line cogs 0 fifoTotal (''COGS reversal'' @ em_dash @ description)] else [])))
      | _ \<Rightarrow> throw (BadRequest ''Missing required Chart of Accounts for partial refund. Cannot post journal.''))"

definition on_sale_partially_refunded :: "event_bus \<Rightarrow> partial_payload \<Rightarrow> string option \<Rightarrow> unit wtx" where
  "on_sale_partially_refunded bus p op =
     bind (already_posted (px_company p) op) (\<lambda>posted.
     if posted then ret ()
     else
       bind (ensure_current_calendar (px_company p)) (\<lambda>(_, period, postable).
       bind (require postable (BadRequest ''Financial period is not OPEN. Cannot create journal entries for partial refund'')) (\<lambda>_.
       bind (find_sales_accounts (px_company p)) (\<lambda>a.
       bind (require (sx_revenue a \<noteq> None \<and> sx_cash a \<noteq> None \<and> sx_cogs a \<noteq> None \<and> sx_inventory a \<noteq> None)
         (BadRequest ''Missing required Chart of Accounts for partial refund. Cannot post journal.'')) (\<lambda>_.
       bind (fifo_total (px_items p) 0) (\<lambda>fifoTotal.
       bind (ask now) (\<lambda>entryDate.
       bind (refund_allocations (px_company p) (px_refund p)) (\<lambda>rows.
       bind (partial_refund_lines a p rows fifoTotal) (\<lambda>lines.
       bind (execute_post bus
         \<lparr>pi_company = px_company p, pi_period = fp_id period, pi_date = entryDate,
          pi_description = Some (''Sales partial refund journal'' @ em_dash @ ''Partial refund'' @ em_dash @ px_number p @
            '' ('' @ px_refundNumber p @ '')''),
          pi_refType = Some ''REFUND'', pi_refId = Some (px_refund p), pi_createdBy = px_by p, pi_clientOp = op,
          pi_lines = lines\<rparr>) (\<lambda>_. ret ()))))))))))"

section \<open>The handlers and their subscriptions\<close>

definition finance_sale_handler :: "event_bus \<Rightarrow> bool \<Rightarrow> domain_event \<Rightarrow> unit wtx" where
  "finance_sale_handler bus in_tx ev = (case ev of
       SaleCompleted i p \<Rightarrow> bind (require in_tx (JsError ''No transaction context for sale.completed event'')) (\<lambda>_. on_sale_completed bus p (Some i))
     | SaleRefunded i p \<Rightarrow> bind (require in_tx (JsError ''No transaction context for sale.refunded event'')) (\<lambda>_. on_sale_refunded bus p (Some i))
     | SalePartiallyRefunded i p \<Rightarrow>
         bind (require in_tx (JsError ''No transaction context for sale.partially_refunded event'')) (\<lambda>_. on_sale_partially_refunded bus p (Some i))
     | _ \<Rightarrow> ret ())"

definition inventory_sale_handler :: "bool \<Rightarrow> domain_event \<Rightarrow> unit wtx" where
  "inventory_sale_handler in_tx ev = (case ev of
       SaleCompleted i p \<Rightarrow> handle_sale_completed in_tx p
     | SaleRefunded i p \<Rightarrow> handle_sale_refunded in_tx p
     | SalePartiallyRefunded i p \<Rightarrow> handle_sale_partially_refunded in_tx p
     | PurchaseReceived i p \<Rightarrow> handle_purchase_received in_tx p
     | _ \<Rightarrow> ret ())"

text \<open>
  \<^verbatim>\<open>onModuleInit\<close> of the inventory, finance and notifications modules, each on the bus it finds; the
  subscribers of the notifications module are arguments.
\<close>

definition inventory_init :: "event_bus \<Rightarrow> event_bus \<Rightarrow> event_bus" where
  "inventory_init ledger_events b =
     subscribe ''inventory.adjusted'' 0 (adjusted_handler ledger_events) None
     (subscribe ''purchase.received'' 1 (inventory_sale_handler True) None
     (subscribe ''sale.partially_refunded'' 2 (inventory_sale_handler True) None
     (subscribe ''sale.refunded'' 3 (inventory_sale_handler True) None
     (subscribe ''sale.completed'' 4 (inventory_sale_handler True) (Some 10) b))))"

definition finance_init :: "event_bus \<Rightarrow> event_bus \<Rightarrow> event_bus" where
  "finance_init ledger_events b =
     subscribe ''sale.partially_refunded'' 5 (finance_sale_handler ledger_events True) None
     (subscribe ''sale.refunded'' 6 (finance_sale_handler ledger_events True) None
     (subscribe ''sale.completed'' 7 (finance_sale_handler ledger_events True) (Some 20) b))"

definition notifications_init :: "(domain_event \<Rightarrow> unit wtx) \<Rightarrow> (domain_event \<Rightarrow> unit wtx) \<Rightarrow> event_bus \<Rightarrow> event_bus" where
  "notifications_init low_stock po_status b =
     subscribe ''purchase.order.status.changed'' 9 po_status None
     (subscribe ''inventory.transferred'' 8 low_stock None
     (subscribe ''inventory.adjusted'' 8 low_stock None
     (subscribe ''sale.completed'' 8 low_stock (Some 30) b)))"

section \<open>What the lines add up to\<close>

definition paid_with :: "(payment_method \<Rightarrow> bool) \<Rightarrow> payment_event list \<Rightarrow> decimal" where
  "paid_with P ps = (\<Sum>p\<leftarrow>ps. if P (pe_method p) then pe_amount p else 0)"

abbreviation cash_paid :: "payment_event list \<Rightarrow> decimal" where
  "cash_paid \<equiv> paid_with (\<lambda>m. m = CASH)"

abbreviation card_paid :: "payment_event list \<Rightarrow> decimal" where
  "card_paid \<equiv> paid_with is_card_method"

abbreviation credit_paid :: "payment_event list \<Rightarrow> decimal" where
  "credit_paid \<equiv> paid_with is_credit_method"

lemma payment_composition_sums: "payment_composition ps = (cash_paid ps, card_paid ps, credit_paid ps)"
proof -
  have "fold add_composition ps (x, y, z) = (x + cash_paid ps, y + card_paid ps, z + credit_paid ps)" for x y z
    by (induction ps arbitrary: x y z)
       (auto simp: paid_with_def add_composition_def is_card_method_def is_credit_method_def CREDIT_PAYMENT_METHODS_def
          split: payment_method.splits)
  then show ?thesis by (simp add: payment_composition_def)
qed

lemma paid_total_split: "cash_paid ps + card_paid ps + credit_paid ps = (\<Sum>p\<leftarrow>ps. pe_amount p)"
  by (induction ps)
     (auto simp: paid_with_def is_card_method_def is_credit_method_def CREDIT_PAYMENT_METHODS_def split: payment_method.splits)

definition sound_payments :: "payment_event list \<Rightarrow> bool" where
  "sound_payments ps \<longleftrightarrow> (\<forall>p \<in> set ps. 0 \<le> pe_amount p \<and> scale4 (pe_amount p))"

lemma paid_with_sound: "sound_payments ps \<Longrightarrow> 0 \<le> paid_with P ps \<and> scale4 (paid_with P ps)"
  by (induction ps) (auto simp: sound_payments_def paid_with_def)

definition configured :: "sales_accounts \<Rightarrow> bool" where
  "configured a \<longleftrightarrow> sx_cash a \<noteq> None \<and> sx_bank a \<noteq> None \<and> sx_receivable a \<noteq> None \<and> sx_revenue a \<noteq> None \<and>
     sx_cogs a \<noteq> None \<and> sx_inventory a \<noteq> None"

definition account_ids :: "sales_accounts \<Rightarrow> string set" where
  "account_ids a = {i. Some i \<in> {sx_cash a, sx_bank a, sx_receivable a, sx_revenue a, sx_cogs a, sx_inventory a}}"

lemma gl_line_simps [simp]:
  "pl_account (gl_line i d c s) = i" "pl_debit (gl_line i d c s) = Amount d" "pl_credit (gl_line i d c s) = Amount c"
  by (simp_all add: gl_line_def)

lemma sale_lines_accounts: "l \<in> set (sale_lines a p cost) \<Longrightarrow> pl_account l \<in> account_ids a"
  by (auto simp: sale_lines_def payment_composition_sums Let_def account_ids_def split: option.splits if_splits)

lemma refund_lines_accounts: "l \<in> set (refund_lines a p cost) \<Longrightarrow> pl_account l \<in> account_ids a"
  by (auto simp: refund_lines_def payment_composition_sums Let_def account_ids_def split: option.splits if_splits)

lemma sale_lines_facts:
  assumes cfg: "configured a" and pay: "sound_payments (sp_payments p)" and bal: "(\<Sum>x\<leftarrow>sp_payments p. pe_amount x) - sp_change p = sp_total p"
    and s4: "scale4 (sp_change p)" "scale4 cost" and pos: "0 < sp_total p"
  shows "debit_sum (sale_lines a p cost) = credit_sum (sale_lines a p cost)" and "0 \<le> debit_sum (sale_lines a p cost)"
    and "2 \<le> length (sale_lines a p cost)" and "\<forall>l \<in> set (sale_lines a p cost). nonzero_line l" and "scale4_lines (sale_lines a p cost)"
proof -
  let ?ps = "sp_payments p"
  obtain c b r v g i where a: "sx_cash a = Some c" "sx_bank a = Some b" "sx_receivable a = Some r" "sx_revenue a = Some v"
    "sx_cogs a = Some g" "sx_inventory a = Some i"
    using cfg by (auto simp: configured_def)
  have nn: "0 \<le> card_paid ?ps" "0 \<le> credit_paid ?ps" "scale4 (cash_paid ?ps)" "scale4 (card_paid ?ps)" "scale4 (credit_paid ?ps)"
    using paid_with_sound [OF pay] by simp_all
  have eq: "cash_paid ?ps - sp_change p + card_paid ?ps + credit_paid ?ps = sp_total p"
    using bal paid_total_split [of ?ps] by simp
  have "scale4 (sp_total p)" unfolding eq [symmetric] using nn s4 by (intro scale4_add scale4_diff)
  note facts = sale_lines_def payment_composition_sums Let_def a debit_sum_def credit_sum_def nonzero_line_def readable_def scale4_lines_def
  show "debit_sum (sale_lines a p cost) = credit_sum (sale_lines a p cost)" "0 \<le> debit_sum (sale_lines a p cost)"
    using nn eq pos by (auto simp: facts)
  show "2 \<le> length (sale_lines a p cost)" using nn eq pos by (auto simp: facts)
  show "\<forall>l \<in> set (sale_lines a p cost). nonzero_line l" using pos by (auto simp: facts)
  show "scale4_lines (sale_lines a p cost)" using nn s4 \<open>scale4 (sp_total p)\<close> by (auto simp: facts)
qed

lemma refund_lines_facts:
  assumes cfg: "configured a" and pay: "sound_payments (sr_payments p)" and s4: "scale4 (sr_total p)" "scale4 cost" and pos: "0 < sr_total p"
  shows "debit_sum (refund_lines a p cost) = credit_sum (refund_lines a p cost)" and "0 \<le> debit_sum (refund_lines a p cost)"
    and "2 \<le> length (refund_lines a p cost)" and "\<forall>l \<in> set (refund_lines a p cost). nonzero_line l" and "scale4_lines (refund_lines a p cost)"
proof -
  let ?ps = "sr_payments p"
  obtain c b r v g i where a: "sx_cash a = Some c" "sx_bank a = Some b" "sx_receivable a = Some r" "sx_revenue a = Some v"
    "sx_cogs a = Some g" "sx_inventory a = Some i"
    using cfg by (auto simp: configured_def)
  have nn: "0 \<le> card_paid ?ps" "0 \<le> credit_paid ?ps" "scale4 (card_paid ?ps)" "scale4 (credit_paid ?ps)"
    using paid_with_sound [OF pay] by simp_all
  note facts = refund_lines_def payment_composition_sums Let_def a debit_sum_def credit_sum_def nonzero_line_def readable_def scale4_lines_def
  show "debit_sum (refund_lines a p cost) = credit_sum (refund_lines a p cost)" "0 \<le> debit_sum (refund_lines a p cost)"
    using nn pos by (auto simp: facts)
  show "2 \<le> length (refund_lines a p cost)" using nn pos by (auto simp: facts)
  show "\<forall>l \<in> set (refund_lines a p cost). nonzero_line l" using pos by (auto simp: facts)
  show "scale4_lines (refund_lines a p cost)" using nn s4 by (auto simp: facts)
qed

text \<open>Account by account, the refund's lines are the sale's lines with the sides exchanged.\<close>

lemma lines_on_parts:
  "lines_on f [] i = 0" "lines_on f (l # ls) i = (if pl_account l = i then f l else 0) + lines_on f ls i"
  "lines_on f (xs @ ys) i = lines_on f xs i + lines_on f ys i"
  "lines_on f (if b then xs else ys) i = (if b then lines_on f xs i else lines_on f ys i)"
  "lines_on f (case v of None \<Rightarrow> xs | Some x \<Rightarrow> g x) i = (case v of None \<Rightarrow> lines_on f xs i | Some x \<Rightarrow> lines_on f (g x) i)"
  by (simp_all add: lines_on_def split: option.split)

lemma case_option_zero: "(case v of None \<Rightarrow> 0 | Some x \<Rightarrow> 0) = 0"
  by (cases v) simp_all

lemma refund_mirrors_sale:
  assumes "sr_payments f = sp_payments p" and "sr_total f = sp_total p" and "(\<Sum>x\<leftarrow>sp_payments p. pe_amount x) - sp_change p = sp_total p"
  shows "lines_on (\<lambda>l. amount_val (pl_debit l)) (refund_lines a f cost) i = lines_on (\<lambda>l. amount_val (pl_credit l)) (sale_lines a p cost) i"
    and "lines_on (\<lambda>l. amount_val (pl_credit l)) (refund_lines a f cost) i = lines_on (\<lambda>l. amount_val (pl_debit l)) (sale_lines a p cost) i"
proof -
  let ?ps = "sp_payments p"
  obtain n where net: "sp_total p = card_paid ?ps + credit_paid ?ps + n" "sp_change p = cash_paid ?ps - n"
    using assms(3) paid_total_split [of ?ps] that [of "cash_paid ?ps - sp_change p"] by simp
  note facts = refund_lines_def sale_lines_def payment_composition_sums assms(1,2) net lines_on_parts case_option_zero
  show "lines_on (\<lambda>l. amount_val (pl_debit l)) (refund_lines a f cost) i = lines_on (\<lambda>l. amount_val (pl_credit l)) (sale_lines a p cost) i"
    by (simp add: facts Let_def cong: if_cong option.case_cong)
  show "lines_on (\<lambda>l. amount_val (pl_credit l)) (refund_lines a f cost) i = lines_on (\<lambda>l. amount_val (pl_debit l)) (sale_lines a p cost) i"
    by (simp add: facts Let_def cong: if_cong option.case_cong)
qed

section \<open>Posting in the current month\<close>

definition period_ids_ok :: "world \<Rightarrow> bool" where
  "period_ids_ok w \<longleftrightarrow> distinct (map fp_id (t_period w)) \<and> uuid_fresh w (set (map fp_id (t_period w)))"

text \<open>The period of the current month is missing, or it is OPEN and holds the current instant.\<close>

definition month_open :: "world \<Rightarrow> string \<Rightarrow> bool" where
  "month_open w c \<longleftrightarrow> (case find_first (period_is c (utc_year (now w)) (utc_month (now w))) (t_period w) of
       None \<Rightarrow> True
     | Some r \<Rightarrow> fp_status r = Open \<and> fp_start r \<le> now w \<and> now w \<le> fp_end r)"

definition books_view :: "world \<Rightarrow> _" where
  "books_view w = (now w, t_entry w, t_balance w, t_seq w, t_account w, t_layer w, t_refund_alloc w, dec_str w)"

lemma calendar_books:
  assumes "ensure_current_calendar c w = (r, w1)"
  shows "now w1 = now w" "t_entry w1 = t_entry w" "t_balance w1 = t_balance w" "t_seq w1 = t_seq w" "t_account w1 = t_account w"
    "t_layer w1 = t_layer w" "t_refund_alloc w1 = t_refund_alloc w"
    "uuid_gen w1 = uuid_gen w \<and> uuid_next w \<le> uuid_next w1"
proof -
  have "frame books_view (ensure_current_calendar c)" by (intro frame_intros) (simp_all add: books_view_def)
  from frameD [OF this assms] show "now w1 = now w" "t_entry w1 = t_entry w" "t_balance w1 = t_balance w" "t_seq w1 = t_seq w"
    "t_account w1 = t_account w" "t_layer w1 = t_layer w" "t_refund_alloc w1 = t_refund_alloc w"
    by (simp_all add: books_view_def)
  show "uuid_gen w1 = uuid_gen w \<and> uuid_next w \<le> uuid_next w1" by (rule advancesD [OF advances_ensure_current_calendar assms])
qed

lemma calendar_period_ids:
  assumes "period_ids_ok w" and "ensure_current_calendar c w = (r, w1)"
  shows "period_ids_ok w1"
proof -
  obtain fy w0 where y: "upsert_fiscal_year c (utc_year (now w)) w = (Inr fy, w0)" "t_period w0 = t_period w"
    "uuid_gen w0 = uuid_gen w" "uuid_next w \<le> uuid_next w0"
    by (cases "find_first (fiscal_year_is c (utc_year (now w))) (t_fiscal_year w)") (simp_all add: upsert_fiscal_year_def Let_def bind_def)
  have ok0: "distinct (map fp_id (t_period w0))" "uuid_fresh w0 (set (map fp_id (t_period w0)))"
    using assms(1) y uuid_fresh_later [of w "set (map fp_id (t_period w))" w0] by (simp_all add: period_ids_ok_def)
  show ?thesis
  proof (cases "find_first (period_is c (utc_year (now w)) (utc_month (now w))) (t_period w0)")
    case None
    then show ?thesis
      using assms(2) ok0 uuid_fresh_now [OF ok0(2)] uuid_fresh_step [OF ok0(2), of w1]
      by (auto simp: ensure_current_calendar_def y(1) upsert_period_def Let_def period_ids_ok_def)
  next
    case (Some p)
    then show ?thesis using assms(2) ok0 by (auto simp: ensure_current_calendar_def y(1) upsert_period_def Let_def period_ids_ok_def)
  qed
qed

lemma current_month:
  assumes "period_ids_ok w" and "month_open w c"
  obtains fy per w1 where "ensure_current_calendar c w = (Inr (fy, per, True), w1)"
    and "find_first (\<lambda>r. fp_id r = fp_id per \<and> fp_company r = c) (t_period w1) = Some per"
    and "fp_status per = Open" and "fp_start per \<le> now w" and "now w \<le> fp_end per"
proof -
  let ?is = "period_is c (utc_year (now w)) (utc_month (now w))"
  obtain fy per w1 where run: "ensure_current_calendar c w = (Inr (fy, per, fp_status per = Open), w1)"
    and found: "find_first ?is (t_period w1) = Some per"
    and cs: "case find_first ?is (t_period w) of Some r \<Rightarrow> per = r \<and> t_period w1 = t_period w
      | None \<Rightarrow> t_period w1 = t_period w @ [per] \<and> fp_status per = Open \<and> fp_start per \<le> now w \<and> now w \<le> fp_end per"
    using ensure_current_calendar_run by blast
  have open_per: "fp_status per = Open" "fp_start per \<le> now w" "now w \<le> fp_end per"
    using cs assms(2) by (auto simp: month_open_def split: option.splits)
  have per: "per \<in> set (t_period w1)" "fp_company per = c"
    using find_first_SomeD [OF found] by (simp_all add: period_is_def)
  have "distinct (map fp_id (t_period w1))" using calendar_period_ids [OF assms(1) run] by (simp add: period_ids_ok_def)
  then have "filter (\<lambda>r. fp_id r = fp_id per) (t_period w1) = [per]" using per(1) by (rule filter_key)
  moreover have "filter (\<lambda>r. fp_id r = fp_id per \<and> fp_company r = c) (t_period w1) =
      filter (\<lambda>r. fp_company r = c) (filter (\<lambda>r. fp_id r = fp_id per) (t_period w1))" by (simp add: conj_ac)
  ultimately have "find_first (\<lambda>r. fp_id r = fp_id per \<and> fp_company r = c) (t_period w1) = Some per"
    using per(2) by (intro find_first_filter) simp
  with run open_per that show thesis by simp
qed

lemma calendar_keeps_ledger:
  assumes "ledger_inv w" and "ensure_current_calendar c w = (r, w1)"
  shows "ledger_inv w1"
  by (rule ledger_inv_cong [OF assms(1)]) (use calendar_books [OF assms(2)] assms(1) in \<open>simp_all add: ledger_inv_def\<close>)

definition live_ids :: "world \<Rightarrow> string \<Rightarrow> string set \<Rightarrow> bool" where
  "live_ids w c is \<longleftrightarrow> (\<forall>i \<in> is. \<exists>a \<in> set (t_account w). ac_id a = i \<and> live_account c a)"

lemma sales_accounts_live:
  assumes "find_sales_accounts c w = (Inr a, w')"
  shows "w' = w" and "live_ids w c (account_ids a)"
proof -
  let ?m = "account_map (find_many (\<lambda>a. ac_code a \<in> set DEFAULT_ACCOUNT_CODES \<and> live_account c a) (t_account w))"
  have "\<exists>x \<in> set (t_account w). ac_id x = i \<and> live_account c x" if "?m k = Some i" for k i
    using account_map_in [OF that] by (auto simp: find_many_def)
  then show "live_ids w c (account_ids a)" "w' = w"
    using assms by (auto simp: find_sales_accounts_def Let_def live_ids_def account_ids_def)
qed

text \<open>Valid lines post, in the period the calendar service returned.\<close>

definition good_lines :: "post_line list \<Rightarrow> bool" where
  "good_lines ls \<longleftrightarrow> debit_sum ls = credit_sum ls \<and> 0 \<le> debit_sum ls \<and> 2 \<le> length ls \<and> (\<forall>l \<in> set ls. nonzero_line l) \<and> scale4_lines ls"

lemma post_in_month:
  assumes bus: "ledger_bus bus" and inv: "ledger_inv w" and ids: "period_ids_ok w"
    and cal: "ensure_current_calendar c w = (Inr (fy, per, True), w1)"
    and per: "find_first (\<lambda>r. fp_id r = fp_id per \<and> fp_company r = c) (t_period w1) = Some per" "fp_status per = Open"
      "fp_start per \<le> now w" "now w \<le> fp_end per"
    and i: "pi_company i = c" "pi_period i = fp_id per" "pi_date i = now w" "good_lines (pi_lines i)"
      "live_ids w c (pl_account ` set (pi_lines i))" "unused_operation w c (pi_clientOp i)"
  shows "\<exists>r w' e n. execute_post bus i w1 = (Inr r, w') \<and> t_entry w' = t_entry w @ [e] \<and> posted_row i n (now w) e"
proof -
  note B = calendar_books [OF cal]
  have inv1: "ledger_inv w1" by (rule calendar_keeps_ledger [OF inv cal])
  have post: "postable w1 (pi_company i) (pi_date i) (pi_period i) (pi_lines i)"
    using per i by (auto simp: postable_def good_lines_def live_ids_def B)
  have op: "unused_operation w1 (pi_company i) (pi_clientOp i)" using i by (simp add: unused_operation_def B)
  have s4: "scale4_lines (pi_lines i)" using i by (simp add: good_lines_def)
  have I: "distinct (map ac_id (t_account w1))" "entry_ids_ok w1" "entry_numbers_ok w1" "balances_ok (t_balance w1)"
    using inv1 by (simp_all add: ledger_inv_def)
  from execute_post_run [OF bus I post op s4] show ?thesis by (auto simp: B)
qed

section \<open>The runs of the service\<close>

lemma already_posted_run:
  "already_posted c op w = (Inr (case truthy op of None \<Rightarrow> False
     | Some i \<Rightarrow> \<exists>e \<in> set (t_entry w). je_company e = c \<and> je_clientOp e = Some i), w)"
  by (auto simp: already_posted_def find_first_None_iff split: option.split)

definition fresh_operation :: "world \<Rightarrow> string \<Rightarrow> string \<Rightarrow> bool" where
  "fresh_operation w c op \<longleftrightarrow> op \<noteq> '''' \<and> (\<forall>e \<in> set (t_entry w). \<not> (je_company e = c \<and> je_clientOp e = Some op))"

lemma fresh_operation_facts:
  assumes "fresh_operation w c op"
  shows "already_posted c (Some op) w = (Inr False, w)" and "unused_operation w c (Some op)"
  using assms by (auto simp: fresh_operation_def already_posted_run truthy_def unused_operation_def)

lemma posted_again:
  assumes "e \<in> set (t_entry w)" and "je_company e = c" and "je_clientOp e = Some op" and "op \<noteq> ''''"
  shows "already_posted c (Some op) w = (Inr True, w)"
  using assms by (auto simp: already_posted_run truthy_def)

lemma sale_out_layers_run: "sale_out_layers c sale w = (Inr (find_many (\<lambda>l. cl_company l = c \<and> cl_direction l = ''OUT'' \<and>
     cl_refType l = Some ''SALE'' \<and> cl_refId l = Some sale) (t_layer w)), w)"
  by (simp add: sale_out_layers_def)

text \<open>The cost the service books for the sale, read from the layers.\<close>

definition sale_cost :: "world \<Rightarrow> string \<Rightarrow> string \<Rightarrow> sale_item_event list \<Rightarrow> decimal" where
  "sale_cost w c sale items = resolve_sale_cogs items (find_many (\<lambda>l. cl_company l = c \<and> cl_direction l = ''OUT'' \<and>
     cl_refType l = Some ''SALE'' \<and> cl_refId l = Some sale) (t_layer w))"

definition sale_input :: "sale_payload \<Rightarrow> string \<Rightarrow> int \<Rightarrow> period_row \<Rightarrow> post_line list \<Rightarrow> post_input" where
  "sale_input p op clock per ls =
     \<lparr>pi_company = sp_company p, pi_period = fp_id per, pi_date = clock,
      pi_description = Some (''Sales journal'' @ em_dash @ ''Sale '' @ sp_number p), pi_refType = Some ''SALE'',
      pi_refId = Some (sp_sale p), pi_createdBy = sp_cashier p, pi_clientOp = Some op, pi_lines = ls\<rparr>"

definition refund_input :: "refunded_payload \<Rightarrow> string \<Rightarrow> int \<Rightarrow> period_row \<Rightarrow> post_line list \<Rightarrow> post_input" where
  "refund_input p op clock per ls =
     \<lparr>pi_company = sr_company p, pi_period = fp_id per, pi_date = clock,
      pi_description = Some (''Sales refund journal'' @ em_dash @ ''Refund'' @ em_dash @ sr_number p),
      pi_refType = Some ''REFUND'', pi_refId = Some (sr_sale p), pi_createdBy = sr_cashier p, pi_clientOp = Some op,
      pi_lines = ls\<rparr>"

lemma find_sales_accounts_cong:
  assumes "find_sales_accounts c w = (Inr a, w)" and "t_account w1 = t_account w"
  shows "find_sales_accounts c w1 = (Inr a, w1)"
  using assms by (simp add: find_sales_accounts_def Let_def)

lemma on_sale_completed_run:
  assumes "fresh_operation w (sp_company p) op" and "ensure_current_calendar (sp_company p) w = (Inr (fy, per, ok), w1)"
    and "find_sales_accounts (sp_company p) w = (Inr a, w)"
  shows "on_sale_completed bus p (Some op) w =
    (if ok then bind (execute_post bus (sale_input p op (now w) per
       (sale_lines a p (sale_cost w (sp_company p) (sp_sale p) (sp_items p))))) (\<lambda>_. ret ()) w1
     else (Inl (BadRequest ''Financial period is not OPEN. Cannot create accounting entries for sale''), w1))"
proof -
  note B = calendar_books [OF assms(2)]
  show ?thesis
    using find_sales_accounts_cong [OF assms(3) B(5)]
    by (simp add: on_sale_completed_def bind_def fresh_operation_facts(1) [OF assms(1)] assms(2) sale_out_layers_run sale_input_def
      sale_cost_def B)
qed

lemma on_sale_refunded_run:
  assumes "fresh_operation w (sr_company p) op" and "ensure_current_calendar (sr_company p) w = (Inr (fy, per, ok), w1)"
    and "find_sales_accounts (sr_company p) w = (Inr a, w)"
  shows "on_sale_refunded bus p (Some op) w =
    (if ok then bind (execute_post bus (refund_input p op (now w) per
       (refund_lines a p (sale_cost w (sr_company p) (sr_sale p) (sr_items p))))) (\<lambda>_. ret ()) w1
     else (Inl (BadRequest ''Financial period is not OPEN. Cannot create reversal entries for refund of sale''), w1))"
proof -
  note B = calendar_books [OF assms(2)]
  show ?thesis
    using find_sales_accounts_cong [OF assms(3) B(5)]
    by (simp add: on_sale_refunded_def bind_def fresh_operation_facts(1) [OF assms(1)] assms(2) sale_out_layers_run refund_input_def
      sale_cost_def B)
qed

text \<open>What the books need for a sale or a refund to be posted: a sound ledger and an open month.\<close>

definition books_ready :: "event_bus \<Rightarrow> world \<Rightarrow> string \<Rightarrow> bool" where
  "books_ready bus w c \<longleftrightarrow> ledger_bus bus \<and> ledger_inv w \<and> period_ids_ok w \<and> month_open w c"

lemma post_when_ready:
  assumes "books_ready bus w c" and "good_lines ls" and "live_ids w c (pl_account ` set ls)" and "fresh_operation w c op"
    and run: "\<forall>fy per w1. ensure_current_calendar c w = (Inr (fy, per, True), w1) \<longrightarrow>
      m w = bind (execute_post bus (i per)) (\<lambda>_. ret ()) w1"
    and i: "\<forall>per. pi_company (i per) = c \<and> pi_period (i per) = fp_id per \<and> pi_date (i per) = now w \<and> pi_lines (i per) = ls \<and>
      pi_clientOp (i per) = Some op \<and> pi_refType (i per) = rt \<and> pi_refId (i per) = ri"
  shows "\<exists>w' e. m w = (Inr (), w') \<and> t_entry w' = t_entry w @ [e] \<and> je_company e = c \<and> je_status e = Posted \<and>
    je_clientOp e = Some op \<and> je_refType e = rt \<and> je_refId e = ri \<and> je_date e = now w \<and> stored_lines ls (je_lines e)"
proof -
  have B: "ledger_bus bus" "ledger_inv w" "period_ids_ok w" "month_open w c" using assms(1) by (simp_all add: books_ready_def)
  obtain fy per w1 where cal: "ensure_current_calendar c w = (Inr (fy, per, True), w1)"
    and per: "find_first (\<lambda>r. fp_id r = fp_id per \<and> fp_company r = c) (t_period w1) = Some per" "fp_status per = Open"
      "fp_start per \<le> now w" "now w \<le> fp_end per"
    by (rule current_month [OF B(3,4)])
  have op: "unused_operation w c (pi_clientOp (i per))" using fresh_operation_facts(2) [OF assms(4)] i by simp
  obtain r w' e n where post: "execute_post bus (i per) w1 = (Inr r, w')" "t_entry w' = t_entry w @ [e]" "posted_row (i per) n (now w) e"
    using post_in_month [OF B(1-3) cal per _ _ _ _ _ op] assms(2,3) i by auto
  have "m w = (Inr (), w')" using run cal post(1) by simp
  then show ?thesis using post(2,3) i by (auto simp: posted_row_def)
qed

lemma stored_triples:
  assumes "stored_lines ls rows" and "scale4_lines ls"
  shows "map (\<lambda>l. (jl_account l, jl_debit l, jl_credit l)) rows = map (\<lambda>l. (pl_account l, amount_val (pl_debit l), amount_val (pl_credit l))) ls"
proof -
  have "map (\<lambda>l. (jl_account l, jl_debit l, jl_credit l)) rows =
      zip (map jl_account rows) (zip (map jl_debit rows) (map jl_credit rows))"
    by (simp only: zip_map_map_same)
  also have "\<dots> = map (\<lambda>l. (pl_account l, amount_val (pl_debit l), amount_val (pl_credit l))) ls"
    by (simp only: stored_lines_exact [OF assms] zip_map_map_same)
  finally show ?thesis .
qed

lemma good_sale_lines:
  assumes "configured a" and "sound_payments (sp_payments p)" and "(\<Sum>x\<leftarrow>sp_payments p. pe_amount x) - sp_change p = sp_total p"
    and "scale4 (sp_change p)" "scale4 cost" and "0 < sp_total p"
  shows "good_lines (sale_lines a p cost)"
  using sale_lines_facts [OF assms] by (simp add: good_lines_def)

lemma good_refund_lines:
  assumes "configured a" and "sound_payments (sr_payments p)" and "scale4 (sr_total p)" "scale4 cost" and "0 < sr_total p"
  shows "good_lines (refund_lines a p cost)"
  using refund_lines_facts [OF assms] by (simp add: good_lines_def)

lemma live_sale_lines:
  assumes "find_sales_accounts c w = (Inr a, w)"
  shows "live_ids w c (pl_account ` set (sale_lines a p cost))" and "live_ids w c (pl_account ` set (refund_lines a f cost))"
  using sales_accounts_live(2) [OF assms] sale_lines_accounts refund_lines_accounts by (auto simp: live_ids_def)

section \<open>The payouts of a partial refund\<close>

definition val :: "('k \<times> decimal) list \<Rightarrow> 'k \<Rightarrow> decimal" where
  "val m k = (case map_of m k of None \<Rightarrow> 0 | Some d \<Rightarrow> d)"

lemma val_simps [simp]: "val [] k = 0" "val ((k, d) # m) k' = (if k = k' then d else val m k')"
  by (auto simp: val_def)

lemma val_update: "val (AList.update i x m) k = (if k = i then x else val m k)"
  by (simp add: val_def update_conv')

lemma sum_update: "(\<Sum>(k, d)\<leftarrow>AList.update i x m. d) = (\<Sum>(k, d)\<leftarrow>m. d) - val m i + x"
  by (induction m) auto

lemma all_update: "(\<forall>(k, d) \<in> set m. P d) \<Longrightarrow> P x \<Longrightarrow> \<forall>(k, d) \<in> set (AList.update i x m). P d"
  by (induction m) auto

lemma val_in: "(\<forall>(k, d) \<in> set m. P d) \<Longrightarrow> P 0 \<Longrightarrow> P (val m i)"
  by (induction m) auto

lemma val_absent: "k \<notin> fst ` set m \<Longrightarrow> val m k = 0"
  by (induction m) auto

definition sound_allocations :: "refund_alloc_row list \<Rightarrow> bool" where
  "sound_allocations rows \<longleftrightarrow> (\<forall>r \<in> set rows. 0 < ra_amount r \<and> scale4 (ra_amount r))"

lemma by_account_run:
  assumes "sound_allocations rows" and "distinct (map fst m)" and "\<forall>(i, d) \<in> set m. 0 < d \<and> scale4 d"
  shows "\<exists>m'. (\<forall>w. by_account a rows m w = (Inr m', w)) \<and> distinct (map fst m') \<and> (\<forall>(i, d) \<in> set m'. 0 < d \<and> scale4 d) \<and>
    fst ` set m' = fst ` set m \<union> (\<lambda>r. payment_account a (ra_method r)) ` set rows \<and>
    (\<Sum>(i, d)\<leftarrow>m'. d) = (\<Sum>(i, d)\<leftarrow>m. d) + (\<Sum>r\<leftarrow>rows. ra_amount r) \<and>
    (\<forall>i. val m' i = val m i + (\<Sum>r\<leftarrow>rows. if payment_account a (ra_method r) = i then ra_amount r else 0))"
  using assms
proof (induction rows arbitrary: m)
  case Nil
  then show ?case by simp
next
  case (Cons r rows)
  let ?i = "payment_account a (ra_method r)"
  let ?m = "AList.update ?i (val m ?i + ra_amount r) m"
  have r: "0 < ra_amount r" "scale4 (ra_amount r)" and rows: "sound_allocations rows" using Cons.prems(1) by (auto simp: sound_allocations_def)
  have v: "0 \<le> val m ?i" "scale4 (val m ?i)"
    using val_in [of m "\<lambda>d. 0 \<le> d" ?i] val_in [of m scale4 ?i] Cons.prems(3) by force+
  have pos: "\<forall>(i, d) \<in> set ?m. 0 < d \<and> scale4 d"
    by (rule all_update) (use Cons.prems(3) v r in auto)
  have step: "by_account a (r # rows) m w = by_account a rows ?m w" for w
    using r by (simp add: Let_def val_def [symmetric])
  obtain m' where M: "\<forall>w. by_account a rows ?m w = (Inr m', w)" "distinct (map fst m')" "\<forall>(i, d) \<in> set m'. 0 < d \<and> scale4 d"
    "fst ` set m' = fst ` set ?m \<union> (\<lambda>r. payment_account a (ra_method r)) ` set rows"
    "(\<Sum>(i, d)\<leftarrow>m'. d) = (\<Sum>(i, d)\<leftarrow>?m. d) + (\<Sum>r\<leftarrow>rows. ra_amount r)"
    "\<forall>i. val m' i = val ?m i + (\<Sum>r\<leftarrow>rows. if payment_account a (ra_method r) = i then ra_amount r else 0)"
    using Cons.IH [OF rows distinct_update [OF Cons.prems(2)] pos] by blast
  have "fst ` set ?m = insert ?i (fst ` set m)" by (simp add: dom_update)
  with M step show ?case by (intro exI [of _ m']) (auto simp: sum_update val_update)
qed

lemma payout_credits:
  "distinct (map fst m) \<Longrightarrow> None \<notin> fst ` set m \<Longrightarrow>
     lines_on (\<lambda>l. amount_val (pl_credit l)) (map (\<lambda>(i, d). gl_line (the i) 0 d s) m) x = val m (Some x)"
proof (induction m)
  case Nil
  then show ?case by (simp add: lines_on_def)
next
  case (Cons y m)
  obtain k d where kd: "y = (k, d)" by (cases y)
  then obtain i where y: "y = (Some i, d)" using Cons.prems(2) by (cases k) auto
  have "val m (Some i) = 0" using Cons.prems(1) y by (intro val_absent) simp
  with Cons y show ?case by (auto simp: lines_on_def)
qed

definition payout_of :: "sales_accounts \<Rightarrow> decimal \<Rightarrow> refund_alloc_row list \<Rightarrow> string \<Rightarrow> decimal" where
  "payout_of a due rows i =
     (if rows = [] then (if sx_cash a = Some i then due else 0)
      else (\<Sum>r\<leftarrow>rows. if payment_account a (ra_method r) = Some i then ra_amount r else 0))"

lemma payout_lines_run:
  assumes cfg: "configured a" "sx_cash a = Some cash" and rows: "sound_allocations rows" and due: "0 < due" "scale4 due"
    and sum: "rows \<noteq> [] \<Longrightarrow> (\<Sum>r\<leftarrow>rows. ra_amount r) = due"
  shows "\<exists>ls. (\<forall>w. payout_lines a cash due s rows w = (Inr ls, w)) \<and> ls \<noteq> [] \<and> credit_sum ls = due \<and>
    (\<forall>l \<in> set ls. \<exists>d. pl_debit l = Amount 0 \<and> pl_credit l = Amount d \<and> 0 < d \<and> scale4 d \<and> pl_account l \<in> account_ids a) \<and>
    (\<forall>i. lines_on (\<lambda>l. amount_val (pl_credit l)) ls i = payout_of a due rows i)"
proof (cases "rows = []")
  case True
  then show ?thesis using cfg due
    by (simp add: payout_lines_def payout_of_def credit_sum_def lines_on_def account_ids_def)
next
  case False
  obtain m where M: "\<forall>w. by_account a rows [] w = (Inr m, w)" "distinct (map fst m)" "\<forall>(i, d) \<in> set m. 0 < d \<and> scale4 d"
    "fst ` set m = (\<lambda>r. payment_account a (ra_method r)) ` set rows" "(\<Sum>(i, d)\<leftarrow>m. d) = (\<Sum>r\<leftarrow>rows. ra_amount r)"
    "\<forall>i. val m i = (\<Sum>r\<leftarrow>rows. if payment_account a (ra_method r) = i then ra_amount r else 0)"
    using by_account_run [OF rows, of "[]" a] by auto
  have acc: "\<exists>j. payment_account a k = Some j \<and> j \<in> account_ids a" for k
    using cfg(1) by (auto simp: payment_account_def configured_def account_ids_def)
  have key: "\<exists>j. i = Some j \<and> j \<in> account_ids a" if "i \<in> fst ` set m" for i
    using that acc unfolding M(4) by force
  then have none: "None \<notin> fst ` set m" by blast
  have ids: "the i \<in> account_ids a" if "(i, d) \<in> set m" for i d
    using key [of i] that by force
  let ?ls = "map (\<lambda>(i, d). gl_line (the i) 0 d (''Refund payout'' @ em_dash @ s)) m"
  have "\<forall>w. payout_lines a cash due s rows w = (Inr ?ls, w)"
  proof -
    have "\<forall>(i, d) \<in> set m. i \<noteq> None" using none by force
    then show ?thesis using M(1,5) sum [OF False] False by (simp add: payout_lines_def bind_def)
  qed
  moreover have "?ls \<noteq> []" using M(4) False by auto
  moreover have "credit_sum ?ls = (\<Sum>(i, d)\<leftarrow>m. d)" by (simp add: credit_sum_def comp_def case_prod_unfold)
  moreover have "\<forall>l \<in> set ?ls. \<exists>d. pl_debit l = Amount 0 \<and> pl_credit l = Amount d \<and> 0 < d \<and> scale4 d \<and> pl_account l \<in> account_ids a"
    using M(3) ids by fastforce
  ultimately show ?thesis using payout_credits [OF M(2) none] M(5,6) sum [OF False] False by (simp add: payout_of_def)
qed

lemma fifo_total_run:
  "\<forall>i \<in> set items. xi_fifoCost i \<noteq> None \<Longrightarrow> fifo_total items acc w = (Inr (acc + (\<Sum>i\<leftarrow>items. the (xi_fifoCost i))), w)"
  by (induction items arbitrary: acc) (auto simp: add.assoc)

definition partial_input :: "partial_payload \<Rightarrow> string \<Rightarrow> int \<Rightarrow> period_row \<Rightarrow> post_line list \<Rightarrow> post_input" where
  "partial_input p op clock per ls =
     \<lparr>pi_company = px_company p, pi_period = fp_id per, pi_date = clock,
      pi_description = Some (''Sales partial refund journal'' @ em_dash @ ''Partial refund'' @ em_dash @ px_number p @
        '' ('' @ px_refundNumber p @ '')''),
      pi_refType = Some ''REFUND'', pi_refId = Some (px_refund p), pi_createdBy = px_by p, pi_clientOp = Some op,
      pi_lines = ls\<rparr>"

definition refund_rows :: "world \<Rightarrow> partial_payload \<Rightarrow> refund_alloc_row list" where
  "refund_rows w p = find_many (\<lambda>a. ra_company a = px_company p \<and> ra_refund a = px_refund p \<and> ra_deleted a = None) (t_refund_alloc w)"

definition refund_cost :: "partial_payload \<Rightarrow> decimal" where
  "refund_cost p = (\<Sum>i\<leftarrow>px_items p. the (xi_fifoCost i))"

definition partial_journal :: "sales_accounts \<Rightarrow> partial_payload \<Rightarrow> refund_alloc_row list \<Rightarrow> decimal \<Rightarrow> post_line list \<Rightarrow> bool" where
  "partial_journal a p rows cost ls \<longleftrightarrow> (\<forall>w. partial_refund_lines a p rows cost w = (Inr ls, w)) \<and> good_lines ls \<and> pl_account ` set ls \<subseteq> account_ids a \<and>
    (\<forall>i. lines_on (\<lambda>l. amount_val (pl_debit l)) ls i =
        (if sx_revenue a = Some i then px_total p else 0) + (if sx_inventory a = Some i \<and> 0 < cost then cost else 0)) \<and>
    (\<forall>i. lines_on (\<lambda>l. amount_val (pl_credit l)) ls i =
        payout_of a (px_total p) rows i + (if sx_cogs a = Some i \<and> 0 < cost then cost else 0))"

lemma partial_lines_run:
  assumes cfg: "configured a" and rows: "sound_allocations rows" and due: "0 < px_total p" "scale4 (px_total p)"
    and sum: "rows \<noteq> [] \<longrightarrow> (\<Sum>r\<leftarrow>rows. ra_amount r) = px_total p" and cost: "scale4 cost"
  shows "\<exists>ls. partial_journal a p rows cost ls"
proof -
  obtain cash v g i where a: "sx_cash a = Some cash" "sx_revenue a = Some v" "sx_cogs a = Some g" "sx_inventory a = Some i"
    using cfg by (auto simp: configured_def)
  let ?s = "''Partial refund'' @ em_dash @ px_number p @ '' ('' @ px_refundNumber p @ '')''"
  obtain ls where L: "\<forall>w. payout_lines a cash (px_total p) ?s rows w = (Inr ls, w)" "ls \<noteq> []" "credit_sum ls = px_total p"
    "\<forall>l \<in> set ls. \<exists>d. pl_debit l = Amount 0 \<and> pl_credit l = Amount d \<and> 0 < d \<and> scale4 d \<and> pl_account l \<in> account_ids a"
    "\<forall>i. lines_on (\<lambda>l. amount_val (pl_credit l)) ls i = payout_of a (px_total p) rows i"
    using payout_lines_run [OF cfg a(1) rows due sum [THEN mp], of ?s] by blast
  define tail where "tail = (if 0 < cost then [gl_line i cost 0 (''Inventory restore'' @ em_dash @ ?s),
    gl_line g 0 cost (''COGS reversal'' @ em_dash @ ?s)] else [])"
  define all where "all = [gl_line v (px_total p) 0 (''Revenue reversal'' @ em_dash @ ?s)] @ ls @ tail"
  have run: "\<forall>w. partial_refund_lines a p rows cost w = (Inr all, w)"
    using L(1) by (simp add: partial_refund_lines_def a Let_def all_def tail_def)
  have zero: "(\<Sum>l\<leftarrow>ls. f (pl_debit l)) = 0" if "f (Amount 0) = 0" for f :: "amount \<Rightarrow> decimal"
    using L(4) that by (intro sum_list_all_0) auto
  have dsum: "debit_sum ls = 0" using zero [of amount_val] by (simp add: debit_sum_def)
  have don: "lines_on (\<lambda>l. amount_val (pl_debit l)) ls x = 0" for x
    unfolding lines_on_def using L(4) by (intro sum_list_all_0) auto
  have good_ls: "\<forall>l \<in> set ls. nonzero_line l" "scale4_lines ls" "pl_account ` set ls \<subseteq> account_ids a"
    using L(4) by (fastforce simp: nonzero_line_def readable_def scale4_lines_def)+
  have "good_lines all"
    using L(2,3) dsum due good_ls cost
    by (auto simp: good_lines_def all_def tail_def debit_sum_def credit_sum_def nonzero_line_def readable_def scale4_lines_def
      neq_Nil_conv)
  moreover have "pl_account ` set all \<subseteq> account_ids a"
    using good_ls(3) a by (auto simp: all_def tail_def account_ids_def)
  moreover have "lines_on (\<lambda>l. amount_val (pl_debit l)) all x =
      (if sx_revenue a = Some x then px_total p else 0) + (if sx_inventory a = Some x \<and> 0 < cost then cost else 0)" for x
    by (simp add: all_def tail_def lines_on_parts don a)
  moreover have "lines_on (\<lambda>l. amount_val (pl_credit l)) all x =
      payout_of a (px_total p) rows x + (if sx_cogs a = Some x \<and> 0 < cost then cost else 0)" for x
    using L(5) by (simp add: all_def tail_def lines_on_parts a)
  ultimately have "partial_journal a p rows cost all" using run by (simp add: partial_journal_def)
  then show ?thesis ..
qed

lemma on_sale_partially_refunded_run:
  assumes "fresh_operation w (px_company p) op" and "ensure_current_calendar (px_company p) w = (Inr (fy, per, True), w1)"
    and "find_sales_accounts (px_company p) w = (Inr a, w)" and "configured a" and "\<forall>i \<in> set (px_items p). xi_fifoCost i \<noteq> None"
    and "\<forall>w. partial_refund_lines a p (refund_rows w1 p) (refund_cost p) w = (Inr ls, w)"
  shows "on_sale_partially_refunded bus p (Some op) w = bind (execute_post bus (partial_input p op (now w) per ls)) (\<lambda>_. ret ()) w1"
proof -
  note B = calendar_books [OF assms(2)]
  have "sx_revenue a \<noteq> None \<and> sx_cash a \<noteq> None \<and> sx_cogs a \<noteq> None \<and> sx_inventory a \<noteq> None"
    using assms(4) by (simp add: configured_def)
  then show ?thesis
    using find_sales_accounts_cong [OF assms(3) B(5)] assms(6)
    by (simp add: on_sale_partially_refunded_def bind_def fresh_operation_facts(1) [OF assms(1)] assms(2) partial_input_def
      fifo_total_run [OF assms(5)] refund_allocations_def refund_rows_def refund_cost_def B)
qed

section \<open>Properties\<close>

text \<open>
  Property C9: a completed sale is booked once, to the cent. With an open current month and the six
  default accounts configured, a sale of positive total whose payments less the change are its total is
  posted as exactly one balanced entry under the event's id: the money received per kind of payment (cash
  net of change) on the debit side, the total on the revenue account, and the cost that the inventory side
  took from the layers from inventory to cost of goods sold. Delivering the event again changes nothing.
\<close>

theorem sale_is_booked_once_to_the_cent:
  fixes p :: sale_payload
  defines "ps \<equiv> sp_payments p" and "c \<equiv> sp_company p"
  assumes "books_ready bus w c" and "fresh_operation w c op" and "find_sales_accounts c w = (Inr a, w)" and "configured a"
    and "sound_payments ps" and "scale4 (sp_change p)" and "0 < sp_total p" and "(\<Sum>x\<leftarrow>ps. pe_amount x) - sp_change p = sp_total p"
    and "cost = sale_cost w c (sp_sale p) (sp_items p)" and "scale4 cost"
  shows "\<exists>w' e. on_sale_completed bus p (Some op) w = (Inr (), w') \<and> t_entry w' = t_entry w @ [e] \<and>
    je_status e = Posted \<and> je_company e = c \<and> je_refType e = Some ''SALE'' \<and> je_refId e = Some (sp_sale p) \<and>
    je_clientOp e = Some op \<and>
    map (\<lambda>l. (jl_account l, jl_debit l, jl_credit l)) (je_lines e) =
      (let net = cash_paid ps - sp_change p in
        (if 0 < net then [(the (sx_cash a), net, 0)] else if net < 0 then [(the (sx_cash a), 0, - net)] else []) @
        (if 0 < card_paid ps then [(the (sx_bank a), card_paid ps, 0)] else []) @
        (if 0 < credit_paid ps then [(the (sx_receivable a), credit_paid ps, 0)] else []) @
        [(the (sx_revenue a), 0, sp_total p)] @
        (if 0 < cost then [(the (sx_cogs a), cost, 0), (the (sx_inventory a), 0, cost)] else [])) \<and>
    (\<Sum>l\<leftarrow>je_lines e. jl_debit l) = (\<Sum>l\<leftarrow>je_lines e. jl_credit l) \<and>
    (\<forall>q. sp_company q = c \<longrightarrow> on_sale_completed bus q (Some op) w' = (Inr (), w'))"
proof -
  let ?ls = "sale_lines a p cost"
  have good: "good_lines ?ls" by (rule good_sale_lines) (use assms in simp_all)
  have run: "\<forall>fy per w1. ensure_current_calendar c w = (Inr (fy, per, True), w1) \<longrightarrow>
      on_sale_completed bus p (Some op) w = bind (execute_post bus (sale_input p op (now w) per ?ls)) (\<lambda>_. ret ()) w1"
    using on_sale_completed_run [of w p op _ _ True _ a bus] assms by simp
  obtain w' e where E: "on_sale_completed bus p (Some op) w = (Inr (), w')" "t_entry w' = t_entry w @ [e]" "je_company e = c"
    "je_status e = Posted" "je_clientOp e = Some op" "je_refType e = Some ''SALE''" "je_refId e = Some (sp_sale p)"
    "stored_lines ?ls (je_lines e)"
    using post_when_ready [where m = "on_sale_completed bus p (Some op)" and i = "\<lambda>per. sale_input p op (now w) per ?ls",
        OF assms(3) good live_sale_lines(1) [OF assms(5)] assms(4) run] by (auto simp: sale_input_def c_def)
  have s4: "scale4_lines ?ls" using good by (simp add: good_lines_def)
  obtain a1 a2 a3 a4 a5 a6 where a: "sx_cash a = Some a1" "sx_bank a = Some a2" "sx_receivable a = Some a3" "sx_revenue a = Some a4"
    "sx_cogs a = Some a5" "sx_inventory a = Some a6"
    using assms(6) by (auto simp: configured_def)
  have lines: "map (\<lambda>l. (jl_account l, jl_debit l, jl_credit l)) (je_lines e) =
      (let net = cash_paid ps - sp_change p in
        (if 0 < net then [(the (sx_cash a), net, 0)] else if net < 0 then [(the (sx_cash a), 0, - net)] else []) @
        (if 0 < card_paid ps then [(the (sx_bank a), card_paid ps, 0)] else []) @
        (if 0 < credit_paid ps then [(the (sx_receivable a), credit_paid ps, 0)] else []) @
        [(the (sx_revenue a), 0, sp_total p)] @
        (if 0 < cost then [(the (sx_cogs a), cost, 0), (the (sx_inventory a), 0, cost)] else []))"
    unfolding stored_triples [OF E(8) s4]
    by (simp add: sale_lines_def payment_composition_sums a Let_def ps_def)
  have sums: "(\<Sum>l\<leftarrow>je_lines e. jl_debit l) = (\<Sum>l\<leftarrow>je_lines e. jl_credit l)"
    using stored_lines_exact(2,3) [OF E(8) s4] good by (simp add: good_lines_def debit_sum_def credit_sum_def)
  have "op \<noteq> ''''" using assms(4) by (simp add: fresh_operation_def)
  then have again: "on_sale_completed bus q (Some op) w' = (Inr (), w')" if "sp_company q = c" for q
    using posted_again [of e w' c op] E(2,3,5) that by (simp add: on_sale_completed_def)
  show ?thesis using E(1-7) lines sums again by blast
qed

text \<open>
  Property C12: the journal of a full refund cancels the journal of the sale. When a completed sale and,
  later, its full refund with the same payments have both been posted, with the same accounts configured
  and the sale's cost layers unchanged, then on every account the refund debits exactly what the sale
  credited and credits exactly what the sale debited.
\<close>

theorem refund_journal_cancels_the_sale:
  assumes "books_ready bus w (sp_company p)" and "fresh_operation w (sp_company p) op"
    and "books_ready bus v (sp_company p)" and "fresh_operation v (sp_company p) op'"
    and "find_sales_accounts (sp_company p) w = (Inr a, w)" and "find_sales_accounts (sp_company p) v = (Inr a, v)" and "configured a"
    and "sound_payments (sp_payments p)" and "scale4 (sp_change p)" and "0 < sp_total p"
    and "(\<Sum>x\<leftarrow>sp_payments p. pe_amount x) - sp_change p = sp_total p"
    and "sr_sale f = sp_sale p \<and> sr_company f = sp_company p \<and> sr_total f = sp_total p \<and> sr_payments f = sp_payments p"
    and "sale_cost v (sp_company p) (sp_sale p) (sr_items f) = sale_cost w (sp_company p) (sp_sale p) (sp_items p)"
    and "scale4 (sale_cost w (sp_company p) (sp_sale p) (sp_items p))"
  shows "\<exists>w' e v' e'. on_sale_completed bus p (Some op) w = (Inr (), w') \<and> t_entry w' = t_entry w @ [e] \<and>
    on_sale_refunded bus f (Some op') v = (Inr (), v') \<and> t_entry v' = t_entry v @ [e'] \<and> je_refType e' = Some ''REFUND'' \<and>
    (\<forall>i. entry_on jl_debit i e' = entry_on jl_credit i e \<and> entry_on jl_credit i e' = entry_on jl_debit i e)"
proof -
  let ?c = "sp_company p"
  define cost where "cost = sale_cost w ?c (sp_sale p) (sp_items p)"
  let ?ls = "sale_lines a p cost" and ?rs = "refund_lines a f cost"
  have pay: "scale4 (\<Sum>x\<leftarrow>sp_payments p. pe_amount x)"
    using assms(8) by (intro scale4_sum_list) (auto simp: sound_payments_def)
  have tot: "scale4 (sp_total p)" unfolding assms(11) [symmetric] using pay assms(9) by (rule scale4_diff)
  have good: "good_lines ?ls" by (rule good_sale_lines) (use assms in \<open>simp_all add: cost_def\<close>)
  have good': "good_lines ?rs" by (rule good_refund_lines) (use assms tot in \<open>simp_all add: cost_def\<close>)
  have run: "\<forall>fy per w1. ensure_current_calendar ?c w = (Inr (fy, per, True), w1) \<longrightarrow>
      on_sale_completed bus p (Some op) w = bind (execute_post bus (sale_input p op (now w) per ?ls)) (\<lambda>_. ret ()) w1"
    using on_sale_completed_run [of w p op _ _ True _ a bus] assms by (simp add: cost_def)
  have run': "\<forall>fy per v1. ensure_current_calendar ?c v = (Inr (fy, per, True), v1) \<longrightarrow>
      on_sale_refunded bus f (Some op') v = bind (execute_post bus (refund_input f op' (now v) per ?rs)) (\<lambda>_. ret ()) v1"
    using on_sale_refunded_run [of v f op' _ _ True _ a bus] assms by (simp add: cost_def)
  obtain w' e where E: "on_sale_completed bus p (Some op) w = (Inr (), w')" "t_entry w' = t_entry w @ [e]" "stored_lines ?ls (je_lines e)"
    using post_when_ready [where m = "on_sale_completed bus p (Some op)" and i = "\<lambda>per. sale_input p op (now w) per ?ls",
        OF assms(1) good live_sale_lines(1) [OF assms(5)] assms(2) run] by (auto simp: sale_input_def)
  obtain v' e' where E': "on_sale_refunded bus f (Some op') v = (Inr (), v')" "t_entry v' = t_entry v @ [e']"
    "je_refType e' = Some ''REFUND''" "stored_lines ?rs (je_lines e')"
    using post_when_ready [where m = "on_sale_refunded bus f (Some op')" and i = "\<lambda>per. refund_input f op' (now v) per ?rs",
        OF assms(3) good' live_sale_lines(2) [OF assms(6)] assms(4) run'] assms(12) by (auto simp: refund_input_def)
  have s4: "scale4_lines ?ls" "scale4_lines ?rs" using good good' by (simp_all add: good_lines_def)
  have "entry_on jl_debit i e' = entry_on jl_credit i e \<and> entry_on jl_credit i e' = entry_on jl_debit i e" for i
    using refund_mirrors_sale [of f p a cost i] assms(11,12) stored_lines_on [OF E(3) s4(1), of i] stored_lines_on [OF E'(4) s4(2), of i]
    by simp
  then show ?thesis using E E' by blast
qed

text \<open>
  Property C13: a partial refund is booked as it was paid out. With an open current month, the accounts
  configured and allocation rows that add up to the refund (or no rows at all), the event is posted as
  exactly one balanced REFUND entry: the refund total is debited to revenue and each account is credited
  with the allocations of its payment methods (cash, when there are no rows); the FIFO cost of the returned
  items moves from cost of goods sold back to inventory. A second delivery changes nothing.
\<close>

theorem partial_refund_is_booked_as_allocated:
  fixes p :: partial_payload
  defines "c \<equiv> px_company p" and "cost \<equiv> refund_cost p"
  assumes "books_ready bus w c" and "fresh_operation w c op" and "find_sales_accounts c w = (Inr a, w)" and "configured a"
    and "sound_allocations (refund_rows w p)" and "0 < px_total p" and "scale4 (px_total p)"
    and "refund_rows w p \<noteq> [] \<longrightarrow> (\<Sum>r\<leftarrow>refund_rows w p. ra_amount r) = px_total p"
    and "\<forall>i \<in> set (px_items p). xi_fifoCost i \<noteq> None" and "scale4 cost"
  shows "\<exists>w' e. on_sale_partially_refunded bus p (Some op) w = (Inr (), w') \<and> t_entry w' = t_entry w @ [e] \<and>
    je_status e = Posted \<and> je_company e = c \<and> je_refType e = Some ''REFUND'' \<and> je_refId e = Some (px_refund p) \<and>
    (\<forall>i. entry_on jl_debit i e =
      (if sx_revenue a = Some i then px_total p else 0) + (if sx_inventory a = Some i \<and> 0 < cost then cost else 0)) \<and>
    (\<forall>i. entry_on jl_credit i e =
      payout_of a (px_total p) (refund_rows w p) i + (if sx_cogs a = Some i \<and> 0 < cost then cost else 0)) \<and>
    (\<Sum>l\<leftarrow>je_lines e. jl_debit l) = (\<Sum>l\<leftarrow>je_lines e. jl_credit l) \<and>
    (\<forall>q. px_company q = c \<longrightarrow> on_sale_partially_refunded bus q (Some op) w' = (Inr (), w'))"
proof -
  obtain ls where "partial_journal a p (refund_rows w p) cost ls"
    using partial_lines_run [OF assms(6-9,10,12)] by blast
  note L = this [unfolded partial_journal_def]
  have live: "live_ids w c (pl_account ` set ls)"
    using sales_accounts_live(2) [OF assms(5)] L by (auto simp: live_ids_def)
  have run: "\<forall>fy per w1. ensure_current_calendar c w = (Inr (fy, per, True), w1) \<longrightarrow>
      on_sale_partially_refunded bus p (Some op) w = bind (execute_post bus (partial_input p op (now w) per ls)) (\<lambda>_. ret ()) w1"
  proof (intro allI impI)
    fix fy per w1 assume cal: "ensure_current_calendar c w = (Inr (fy, per, True), w1)"
    have "refund_rows w1 p = refund_rows w p" using calendar_books [OF cal] by (simp add: refund_rows_def)
    then show "on_sale_partially_refunded bus p (Some op) w = bind (execute_post bus (partial_input p op (now w) per ls)) (\<lambda>_. ret ()) w1"
      using on_sale_partially_refunded_run [of w p op fy per w1 a ls bus] assms cal L by (simp add: cost_def)
  qed
  obtain w' e where E: "on_sale_partially_refunded bus p (Some op) w = (Inr (), w')" "t_entry w' = t_entry w @ [e]" "je_company e = c"
    "je_status e = Posted" "je_clientOp e = Some op" "je_refType e = Some ''REFUND''" "je_refId e = Some (px_refund p)"
    "stored_lines ls (je_lines e)"
    using post_when_ready [where m = "on_sale_partially_refunded bus p (Some op)" and i = "\<lambda>per. partial_input p op (now w) per ls",
        OF assms(3) L [THEN conjunct2, THEN conjunct1] live assms(4) run] by (auto simp: partial_input_def c_def)
  have s4: "scale4_lines ls" using L by (simp add: good_lines_def)
  have sums: "(\<Sum>l\<leftarrow>je_lines e. jl_debit l) = (\<Sum>l\<leftarrow>je_lines e. jl_credit l)"
    using stored_lines_exact(2,3) [OF E(8) s4] L by (simp add: good_lines_def debit_sum_def credit_sum_def)
  have "op \<noteq> ''''" using assms(4) by (simp add: fresh_operation_def)
  then have again: "on_sale_partially_refunded bus q (Some op) w' = (Inr (), w')" if "px_company q = c" for q
    using posted_again [of e w' c op] E(2,3,5) that by (simp add: on_sale_partially_refunded_def)
  have on: "entry_on jl_debit i e = lines_on (\<lambda>l. amount_val (pl_debit l)) ls i \<and>
      entry_on jl_credit i e = lines_on (\<lambda>l. amount_val (pl_credit l)) ls i" for i
    using stored_lines_on [OF E(8) s4] by simp
  have sides: "\<forall>i. entry_on jl_debit i e =
      (if sx_revenue a = Some i then px_total p else 0) + (if sx_inventory a = Some i \<and> 0 < cost then cost else 0)"
    "\<forall>i. entry_on jl_credit i e =
      payout_of a (px_total p) (refund_rows w p) i + (if sx_cogs a = Some i \<and> 0 < cost then cost else 0)"
    using on L by simp_all
  show ?thesis using E(1-4,6,7) sums again sides by blast
qed

text \<open>
  Property C15: a completed sale reaches the stock before the ledger, and the ledger before the
  notifications, whatever the order in which the modules start. The cost that the ledger books is read
  from layers that the inventory handler has written in the same transaction, and the first handler that
  fails ends the delivery.
\<close>

theorem sale_reaches_stock_then_ledger:
  assumes "mset ms = mset [inventory_init lb, finance_init lb, notifications_init low_stock po_status]"
  shows "publish_event (fold (\<lambda>init b. init b) ms (\<lambda>_. None)) (SaleCompleted i p) =
    bind (handle_sale_completed True p) (\<lambda>_. bind (on_sale_completed lb p (Some i)) (\<lambda>_. low_stock (SaleCompleted i p)))"
proof -
  let ?a = "inventory_init lb" and ?b = "finance_init lb" and ?c = "notifications_init low_stock po_status"
  have "length ms = 3" using arg_cong [OF assms, of size] by simp
  then obtain x y z where ms: "ms = [x, y, z]" by (auto simp: length_Suc_conv numeral_3_eq_3)
  have "ms \<in> {[?a, ?b, ?c], [?a, ?c, ?b], [?b, ?a, ?c], [?b, ?c, ?a], [?c, ?a, ?b], [?c, ?b, ?a]}"
    using assms by (auto simp: ms add_eq_conv_ex)
  moreover have "publish_event (fold (\<lambda>init b. init b) ms (\<lambda>_. None)) (SaleCompleted i p) =
      for_each [inventory_sale_handler True, finance_sale_handler lb True, low_stock] (\<lambda>h. h (SaleCompleted i p))"
    if "ms \<in> {[?a, ?b, ?c], [?a, ?c, ?b], [?b, ?a, ?c], [?b, ?c, ?a], [?c, ?a, ?b], [?c, ?b, ?a]}"
    using that
    by (auto simp: publish_event_def publish_def ordered_handlers_stable_sort inventory_init_def finance_init_def notifications_init_def
      subscribe_def subscribed_def Let_def)
  moreover have "bind (require True e) f = f ()" "bind m ret = m" for e :: exn and f :: "unit \<Rightarrow> unit wtx" and m :: "unit wtx"
    by (auto simp: fun_eq_iff bind_def split: prod.splits sum.splits)
  ultimately show ?thesis by (simp add: inventory_sale_handler_def finance_sale_handler_def)
qed

text \<open>
  A sale of total zero can never be completed. With a revenue account configured the service
  always adds a revenue line, and the posting validator refuses a line without an amount; so the journal
  of a fully discounted sale fails, and the publisher's transaction with it.
\<close>

theorem free_sale_is_refused:
  assumes "books_ready bus w (sp_company p)" and "fresh_operation w (sp_company p) op"
    and "find_sales_accounts (sp_company p) w = (Inr a, w)" and "sx_revenue a \<noteq> None" and "sp_total p = 0"
  shows "\<exists>x w'. on_sale_completed bus p (Some op) w = (Inl x, w')"
proof -
  have B: "period_ids_ok w" "month_open w (sp_company p)" "ledger_inv w" using assms(1) by (simp_all add: books_ready_def)
  obtain fy per w1 where cal: "ensure_current_calendar (sp_company p) w = (Inr (fy, per, True), w1)"
    by (rule current_month [OF B(1,2)])
  obtain i where i: "sx_revenue a = Some i" using assms(4) by auto
  let ?in = "sale_input p op (now w) per (sale_lines a p (sale_cost w (sp_company p) (sp_sale p) (sp_items p)))"
  have "gl_line i 0 (sp_total p) (''Sales revenue'' @ em_dash @ ''Sale '' @ sp_number p) \<in> set (pi_lines ?in)"
    by (simp add: sale_input_def sale_lines_def payment_composition_sums Let_def i)
  then have "\<exists>l \<in> set (pi_lines ?in). \<not> nonzero_line l"
    by (rule bexI [rotated]) (simp add: nonzero_line_def readable_def assms(5))
  then have "\<not> postable w1 (pi_company ?in) (pi_date ?in) (pi_period ?in) (pi_lines ?in)" by (auto simp: postable_def)
  moreover have "distinct (map ac_id (t_account w1))" using calendar_keeps_ledger [OF B(3) cal] by (simp add: ledger_inv_def)
  ultimately have fails: "execute_post bus ?in w1 \<noteq> (Inr r, w2)" for r w2 using execute_post_Inr(1) by blast
  obtain x w2 where "execute_post bus ?in w1 = (x, w2)" by fastforce
  with fails obtain y where "execute_post bus ?in w1 = (Inl y, w2)" by (cases x) auto
  then show ?thesis using on_sale_completed_run [OF assms(2) cal assms(3), of bus] by simp
qed


section \<open>Witnesses\<close>

definition demo_account :: "string \<Rightarrow> string \<Rightarrow> account_type \<Rightarrow> account_row" where
  "demo_account i code k = \<lparr>ac_id = i, ac_company = ''C'', ac_code = code, ac_name = code, ac_type = k, ac_normal = DebitNormal, ac_active = True, ac_cashOrBank = False,
     ac_deleted = None\<rparr>"

definition shop_books :: world where
  "shop_books = empty_world\<lparr>now := 5,
     t_account := [demo_account ''A'' ''1010'' ASSET, demo_account ''B'' ''1020'' ASSET, demo_account ''R'' ''1200'' ASSET,
       demo_account ''V'' ''4000'' REVENUE, demo_account ''G'' ''5000'' EXPENSE, demo_account ''I'' ''1300'' ASSET],
     t_refund_alloc := [\<lparr>ra_id = ''x'', ra_company = ''C'', ra_refund = ''F'', ra_method = CASH, ra_amount = 4, ra_currency = ''KZT'', ra_createdBy = ''U'', ra_deleted = None\<rparr>,
       \<lparr>ra_id = ''y'', ra_company = ''C'', ra_refund = ''F'', ra_method = CARD, ra_amount = 6, ra_currency = ''KZT'', ra_createdBy = ''U'', ra_deleted = None\<rparr>]\<rparr>"

definition shop_accounts :: sales_accounts where
  "shop_accounts = \<lparr>sx_cash = Some ''A'', sx_bank = Some ''B'', sx_receivable = Some ''R'', sx_revenue = Some ''V'',
     sx_cogs = Some ''G'', sx_inventory = Some ''I''\<rparr>"

definition one_item :: sale_item_event where
  "one_item = \<lparr>se_product = ''p'', se_quantity = 2, se_unitPrice = 10, se_costPrice = 3, se_discount = 0, se_subtotal = 20,
     se_total = 20, se_margin = 14, se_saleItem = Some ''s''\<rparr>"

definition shop_sale :: "decimal \<Rightarrow> sale_payload" where
  "shop_sale t = \<lparr>sp_sale = ''S'', sp_company = ''C'', sp_warehouse = ''w'', sp_cashier = ''U'', sp_customer = None, sp_number = ''1'',
     sp_subtotal = 20, sp_discount = 20 - t, sp_total = t, sp_paid = t + 5, sp_change = 5, sp_currency = ''KZT'',
     sp_items = [one_item], sp_payments = [\<lparr>pe_method = CASH, pe_amount = t - 7\<rparr>, \<lparr>pe_method = CARD, pe_amount = 12\<rparr>]\<rparr>"

definition shop_refund :: refunded_payload where
  "shop_refund = \<lparr>sr_sale = ''S'', sr_company = ''C'', sr_warehouse = ''w'', sr_cashier = ''U'', sr_number = ''1'', sr_total = 20,
     sr_currency = ''KZT'', sr_items = [one_item], sr_payments = sp_payments (shop_sale 20)\<rparr>"

definition shop_partial :: partial_payload where
  "shop_partial = \<lparr>px_sale = ''S'', px_company = ''C'', px_warehouse = ''w'', px_refund = ''F'', px_refundNumber = ''2'', px_number = ''1'',
     px_total = 10, px_currency = ''KZT'', px_by = ''U'',
     px_items = [\<lparr>xi_product = ''p'', xi_saleItem = ''s'', xi_quantity = 1, xi_unitPrice = 10, xi_total = 10, xi_fifoCost = Some 3\<rparr>]\<rparr>"

lemma shop_books_ready: "books_ready (\<lambda>_. None) shop_books c"
proof -
  have "fresh_books shop_books"
    using books0_fresh by (simp add: fresh_books_def shop_books_def books0_def empty_world_def demo_account_def)
  then have inj: "inj (uuid_gen shop_books)" and "ledger_reachable (\<lambda>_. None) shop_books"
    by (simp_all add: fresh_books_def ledger_reachable.start)
  then have "ledger_inv shop_books" using ledger_reachable_inv ledger_bus_empty by blast
  then show ?thesis
    using inj ledger_bus_empty
    by (simp add: books_ready_def period_ids_ok_def month_open_def shop_books_def empty_world_def uuid_fresh_def find_first_def)
qed

lemma shop_books_facts:
  "fresh_operation shop_books c ''E''" "find_sales_accounts ''C'' shop_books = (Inr shop_accounts, shop_books)" "configured shop_accounts"
  "sale_cost shop_books ''C'' ''S'' [one_item] = 6" "sp_company (shop_sale t) = ''C''" "px_company shop_partial = ''C''"
  by (simp_all add: fresh_operation_def shop_books_def empty_world_def find_sales_accounts_def Let_def find_many_def demo_account_def
      DEFAULT_ACCOUNT_CODES_def live_account_def account_map_def shop_accounts_def configured_def sale_cost_def resolve_sale_cogs_def
      legacy_total_def one_item_def shop_sale_def shop_partial_def)

lemma shop_scale4: "scale4 (5 :: decimal)" "scale4 (13 :: decimal)" "scale4 (12 :: decimal)" "scale4 (6 :: decimal)"
  "scale4 (4 :: decimal)" "scale4 (10 :: decimal)" "scale4 (3 :: decimal)" "scale4 (20 :: decimal)"
  by code_simp+

lemma sale_is_booked_once_to_the_cent_witness:
  "\<exists>w' e. on_sale_completed (\<lambda>_. None) (shop_sale 20) (Some ''E'') shop_books = (Inr (), w') \<and> t_entry w' = [e] \<and>
    map (\<lambda>l. (jl_account l, jl_debit l, jl_credit l)) (je_lines e) =
      [(''A'', 8, 0), (''B'', 12, 0), (''V'', 0, 20), (''G'', 6, 0), (''I'', 0, 6)]"
proof -
  have t: "t_entry shop_books = []" by (simp add: shop_books_def empty_world_def)
  have S: "sp_payments (shop_sale 20) = [\<lparr>pe_method = CASH, pe_amount = 13\<rparr>, \<lparr>pe_method = CARD, pe_amount = 12\<rparr>]"
    "sp_change (shop_sale 20) = 5" "sp_total (shop_sale 20) = 20" "sp_sale (shop_sale 20) = ''S''" "sp_items (shop_sale 20) = [one_item]"
    by (simp_all add: shop_sale_def)
  have pay: "sound_payments (sp_payments (shop_sale 20))" using shop_scale4 by (simp add: S sound_payments_def)
  have bal: "(\<Sum>x\<leftarrow>sp_payments (shop_sale 20). pe_amount x) - sp_change (shop_sale 20) = sp_total (shop_sale 20)" by (simp add: S)
  have "\<exists>w' e. on_sale_completed (\<lambda>_. None) (shop_sale 20) (Some ''E'') shop_books = (Inr (), w') \<and> t_entry w' = t_entry shop_books @ [e] \<and>
    map (\<lambda>l. (jl_account l, jl_debit l, jl_credit l)) (je_lines e) =
      [(''A'', 8, 0), (''B'', 12, 0), (''V'', 0, 20), (''G'', 6, 0), (''I'', 0, 6)]"
    using sale_is_booked_once_to_the_cent [of "\<lambda>_. None" shop_books "shop_sale 20" "''E''" shop_accounts 6, unfolded shop_books_facts(5),
        OF shop_books_ready shop_books_facts(1-3) pay _ _ bal] shop_scale4(1,4)
    by (auto simp: S shop_books_facts(4) paid_with_def is_card_method_def is_credit_method_def CREDIT_PAYMENT_METHODS_def
        shop_accounts_def Let_def)
  then show ?thesis by (simp add: t)
qed

lemma refund_journal_cancels_the_sale_witness:
  "\<exists>w' e v' e'. on_sale_completed (\<lambda>_. None) (shop_sale 20) (Some ''E'') shop_books = (Inr (), w') \<and> t_entry w' = [e] \<and>
    on_sale_refunded (\<lambda>_. None) shop_refund (Some ''E'') shop_books = (Inr (), v') \<and> t_entry v' = [e'] \<and>
    (\<forall>i. entry_on jl_debit i e' = entry_on jl_credit i e)"
proof -
  have t: "t_entry shop_books = []" by (simp add: shop_books_def empty_world_def)
  have S: "sp_company (shop_sale 20) = ''C''" "sp_sale (shop_sale 20) = ''S''" "sp_items (shop_sale 20) = [one_item]"
    "sr_items shop_refund = [one_item]" "sp_total (shop_sale 20) = 20" "sp_change (shop_sale 20) = 5"
    "(\<Sum>x\<leftarrow>sp_payments (shop_sale 20). pe_amount x) - 5 = 20"
    "sr_sale shop_refund = ''S'' \<and> sr_company shop_refund = ''C'' \<and> sr_total shop_refund = 20 \<and>
      sr_payments shop_refund = sp_payments (shop_sale 20)"
    by (simp_all add: shop_sale_def shop_refund_def)
  have P: "sound_payments (sp_payments (shop_sale 20))" using shop_scale4 by (simp add: shop_sale_def sound_payments_def)
  show ?thesis
    using refund_journal_cancels_the_sale [of "\<lambda>_. None" shop_books "shop_sale 20" "''E''" shop_books "''E''" shop_accounts shop_refund,
        unfolded S shop_books_facts(4), OF shop_books_ready shop_books_facts(1) shop_books_ready shop_books_facts(1,2,2,3) P shop_scale4(1)]
      shop_scale4(4) S(8)
    by (simp add: t) blast
qed

lemma partial_refund_is_booked_as_allocated_witness:
  "\<exists>w' e. on_sale_partially_refunded (\<lambda>_. None) shop_partial (Some ''E'') shop_books = (Inr (), w') \<and> t_entry w' = [e] \<and>
    entry_on jl_debit ''V'' e = 10 \<and> entry_on jl_credit ''A'' e = 4 \<and> entry_on jl_credit ''B'' e = 6 \<and> entry_on jl_credit ''G'' e = 3"
proof -
  have t: "t_entry shop_books = []" by (simp add: shop_books_def empty_world_def)
  have rows: "refund_rows shop_books shop_partial = t_refund_alloc shop_books"
    by (simp add: refund_rows_def shop_partial_def shop_books_def find_many_def empty_world_def)
  have sound: "sound_allocations (t_refund_alloc shop_books)" "(\<Sum>r\<leftarrow>t_refund_alloc shop_books. ra_amount r) = 10"
    using shop_scale4 by (simp_all add: sound_allocations_def shop_books_def)
  have S: "px_total shop_partial = 10" "refund_cost shop_partial = 3" "\<forall>i \<in> set (px_items shop_partial). xi_fifoCost i \<noteq> None"
    by (simp_all add: shop_partial_def refund_cost_def)
  obtain w' e where E: "on_sale_partially_refunded (\<lambda>_. None) shop_partial (Some ''E'') shop_books = (Inr (), w')"
    "t_entry w' = t_entry shop_books @ [e]"
    "\<forall>i. entry_on jl_debit i e = (if sx_revenue shop_accounts = Some i then 10 else 0) + (if sx_inventory shop_accounts = Some i \<and> 0 < (3::decimal) then 3 else 0)"
    "\<forall>i. entry_on jl_credit i e = payout_of shop_accounts 10 (t_refund_alloc shop_books) i + (if sx_cogs shop_accounts = Some i \<and> 0 < (3::decimal) then 3 else 0)"
    using partial_refund_is_booked_as_allocated [of "\<lambda>_. None" shop_books shop_partial "''E''" shop_accounts,
      unfolded shop_books_facts(6) rows S(1,2), OF shop_books_ready shop_books_facts(1-3) sound(1) _ shop_scale4(6) _ S(3) shop_scale4(7)] sound(2)
    by auto
  have rs: "map (\<lambda>r. (ra_method r, ra_amount r)) (t_refund_alloc shop_books) = [(CASH, 4), (CARD, 6)]" by (simp add: shop_books_def)
  then obtain x y where xy: "t_refund_alloc shop_books = [x, y]" "ra_method x = CASH" "ra_amount x = 4" "ra_method y = CARD" "ra_amount y = 6"
    by (auto simp: map_eq_Cons_conv)
  show ?thesis using E by (intro exI [of _ w'] exI [of _ e])
    (simp add: t shop_accounts_def payout_of_def payment_account_def is_card_method_def xy)
qed

lemma sale_reaches_stock_then_ledger_witness:
  "publish_event (finance_init (\<lambda>_. None) (inventory_init (\<lambda>_. None) (notifications_init (\<lambda>_. ret ()) (\<lambda>_. ret ()) (\<lambda>_. None))))
      (SaleCompleted ''E'' (shop_sale 20)) =
    bind (handle_sale_completed True (shop_sale 20)) (\<lambda>_. bind (on_sale_completed (\<lambda>_. None) (shop_sale 20) (Some ''E'')) (\<lambda>_. ret ()))"
  using sale_reaches_stock_then_ledger [of "[notifications_init (\<lambda>_. ret ()) (\<lambda>_. ret ()), inventory_init (\<lambda>_. None), finance_init (\<lambda>_. None)]"
    "\<lambda>_. None" "\<lambda>_. ret ()" "\<lambda>_. ret ()" "''E''" "shop_sale 20"] by (simp add: add_mset_commute)

lemma free_sale_is_refused_witness:
  "\<exists>x w'. on_sale_completed (\<lambda>_. None) (shop_sale 0) (Some ''E'') shop_books = (Inl x, w')"
  using free_sale_is_refused [of "\<lambda>_. None" shop_books "shop_sale 0" "''E''" shop_accounts, OF shop_books_ready shop_books_facts(1)]
  by (simp add: shop_books_facts(2,5)) (simp add: shop_accounts_def shop_sale_def)

end
