(* ===== verification/Text.thy ===== *)
theory Text
  imports Schema "HOL-Library.Char_ord"
begin

text \<open>
  The string operations the sales services use: decimal numerals, \<^verbatim>\<open>Decimal.toFixed(4)\<close> of a non-negative
  number, \<^verbatim>\<open>padStart\<close>, \<^verbatim>\<open>toUpperCase\<close> on the ASCII letters and \<^verbatim>\<open>trim\<close>. Strings hold UTF-8 bytes, so the
  white space of ECMAScript is a list of byte sequences.
\<close>

section \<open>Numerals\<close>

function digits :: "nat \<Rightarrow> string" where
  "digits n = (if n < 10 then [char_of (48 + n)] else digits (n div 10) @ [char_of (48 + n mod 10)])"
  by pat_completeness auto

termination
  by (relation "measure (\<lambda>n. n)") simp_all

declare digits.simps [simp del]

definition pad_start :: "nat \<Rightarrow> string \<Rightarrow> string" where
  "pad_start k s = replicate (k - length s) (CHR ''0'') @ s"

definition to_fixed4 :: "decimal \<Rightarrow> string" where
  "to_fixed4 x = (let n = nat \<lfloor>x * 10000 + 1 / 2\<rfloor> in digits (n div 10000) @ ''.'' @ pad_start 4 (digits (n mod 10000)))"

definition upper_char :: "char \<Rightarrow> char" where
  "upper_char ch = (let n = of_char ch :: nat in if 97 \<le> n \<and> n \<le> 122 then char_of (n - 32) else ch)"

definition to_upper_ascii :: "string \<Rightarrow> string" where
  "to_upper_ascii s = map upper_char s"

section \<open>Trimming\<close>

definition js_spaces :: "string list" where
  "js_spaces = map (map char_of) ([[0x20], [0x09], [0x0A], [0x0B], [0x0C], [0x0D], [0xC2, 0xA0], [0xE1, 0x9A, 0x80],
     [0xE2, 0x80, 0xA8], [0xE2, 0x80, 0xA9], [0xE2, 0x80, 0xAF], [0xE2, 0x81, 0x9F], [0xE3, 0x80, 0x80], [0xEF, 0xBB, 0xBF]] @
     map (\<lambda>k. [0xE2, 0x80, 0x80 + k]) [0..<11] :: nat list list)"

function strip_start :: "string list \<Rightarrow> string \<Rightarrow> string" where
  "strip_start sp s = (case find (\<lambda>x. x \<noteq> [] \<and> take (length x) s = x) sp of
       None \<Rightarrow> s
     | Some x \<Rightarrow> strip_start sp (drop (length x) s))"
  by pat_completeness auto

termination
proof (relation "measure (\<lambda>(sp, s). length s)", simp, goal_cases)
  case (1 sp s x)
  then have "x \<noteq> []" "take (length x) s = x" by (auto simp: find_Some_iff)
  then have "length x \<le> length s" "0 < length x" by (metis length_take min.absorb_iff2 min.commute, simp)
  with \<open>x \<noteq> []\<close> show ?case by (cases s) auto
qed

declare strip_start.simps [simp del]

definition trim :: "string \<Rightarrow> string" where
  "trim s = rev (strip_start (map rev js_spaces) (rev (strip_start js_spaces s)))"

text \<open>What trimming leaves starts with no white space.\<close>

lemma strip_start_done: "x \<in> set sp \<Longrightarrow> x \<noteq> [] \<Longrightarrow> take (length x) (strip_start sp s) \<noteq> x"
proof (induction sp s rule: strip_start.induct)
  case (1 sp s)
  show ?case
  proof (cases "find (\<lambda>x. x \<noteq> [] \<and> take (length x) s = x) sp")
    case None
    then have "strip_start sp s = s" by (subst strip_start.simps) simp
    with None 1(2,3) show ?thesis by (auto simp: find_None_iff)
  next
    case (Some y)
    then have "strip_start sp s = strip_start sp (drop (length y) s)" by (subst strip_start.simps) simp
    with 1(1) [OF Some 1(2,3)] show ?thesis by simp
  qed
qed

end
