(* ===== verification/CashShift.thy ===== *)
theory CashShift
  imports SaleFinance Text
begin

text \<open>
  The cash shift of a till: \<^verbatim>\<open>sales/services/cash-shift.service.ts\<close>, its repository and its mapper. One open
  shift per warehouse, cashier and company; cash brought in and taken out during the shift; the close with
  its expected balance and the journal of the difference. The cash refunded during the shift is read from
  the allocation facts of the partial refunds.
\<close>

section \<open>The repository and the mapper\<close>

record shift_data =
  sd_company :: string
  sd_warehouse :: string
  sd_cashier :: string
  sd_currency :: string
  sd_opening :: decimal
  sd_closing :: decimal
  sd_expected :: decimal
  sd_notes :: "string option"

text \<open>
  \<^verbatim>\<open>create\<close>, under the partial unique index \<^verbatim>\<open>CashShift_open_shift_unique\<close> on (warehouseId, cashierId,
  companyId) \<^verbatim>\<open>WHERE status = 'OPEN'\<close>.
\<close>

definition open_shift_of :: "string \<Rightarrow> string \<Rightarrow> string \<Rightarrow> shift_row \<Rightarrow> bool" where
  "open_shift_of wh cashier c r \<longleftrightarrow> cs_warehouse r = wh \<and> cs_cashier r = cashier \<and> cs_company r = c \<and> cs_status r = ShiftOpen"

definition insert_shift :: "shift_data \<Rightarrow> shift_row wtx" where
  "insert_shift d =
     bind (ask t_shift) (\<lambda>t.
     bind (require (find_first (open_shift_of (sd_warehouse d) (sd_cashier d) (sd_company d)) t = None)
             (UniqueViolation [''warehouseId'', ''cashierId'', ''companyId''])) (\<lambda>_.
     bind fresh_uuid (\<lambda>u.
     bind (ask now) (\<lambda>clock.
     let row = \<lparr>cs_id = u, cs_company = sd_company d, cs_warehouse = sd_warehouse d, cs_cashier = sd_cashier d,
                cs_status = ShiftOpen, cs_currency = sd_currency d, cs_openedAt = clock, cs_closedAt = None,
                cs_opening = round4 (sd_opening d), cs_closing = round4 (sd_closing d), cs_cashSales = 0, cs_cardSales = 0,
                cs_qrSales = 0, cs_bankSales = 0, cs_mobileSales = 0, cs_totalSales = 0, cs_cashIn = 0, cs_cashOut = 0,
                cs_expected = round4 (sd_expected d), cs_difference = 0, cs_notes = sd_notes d, cs_version = 0,
                cs_createdAt = clock\<rparr> in
     bind (change (\<lambda>w. w\<lparr>t_shift := t_shift w @ [row]\<rparr>)) (\<lambda>_. ret row)))))"

definition find_shift :: "string \<Rightarrow> string \<Rightarrow> shift_row option wtx" where
  "find_shift i c = ask (\<lambda>w. find_first (\<lambda>r. cs_id r = i \<and> cs_company r = c) (t_shift w))"

definition find_open_shift :: "string \<Rightarrow> string \<Rightarrow> string \<Rightarrow> shift_row option wtx" where
  "find_open_shift wh cashier c = ask (\<lambda>w. find_first (open_shift_of wh cashier c) (t_shift w))"

definition update_shift :: "string \<Rightarrow> (shift_row \<Rightarrow> shift_row) \<Rightarrow> string \<Rightarrow> int \<Rightarrow> shift_row wtx" where
  "update_shift i f c v =
     cas_write t_shift t_shift_update
       (\<lambda>r. cs_id r = i \<and> cs_company r = c \<and> cs_version r = v)
       (\<lambda>r. cs_id r = i \<and> cs_company r = c) (\<lambda>r. cs_id r = i)
       (bump_ver (\<lambda>r. r\<lparr>cs_version := cs_version r + 1\<rparr>) f)
       (NotFound ''Cash shift not found'')
       (Conflict ''Cash shift was modified by another user'')"

interpretation shift_table: optimistic_table t_shift cs_id cs_company cs_version
    "\<lambda>f. \<forall>r. cs_id (f r) = cs_id r \<and> cs_company (f r) = cs_company r \<and> cs_version (f r) = cs_version r"
    update_shift
  unfolding update_shift_def [abs_def] by (rule cas_optimistic_table) simp_all

record shift_query =
  shq_warehouse :: "string option"
  shq_cashier :: "string option"
  shq_status :: "shift_status option"
  shq_page :: "int option"
  shq_limit :: "int option"

text \<open>\<^verbatim>\<open>listByCompany\<close>: newest first; the filters are those that are present and not empty.\<close>

definition list_by_company :: "string \<Rightarrow> shift_query \<Rightarrow> int \<Rightarrow> int \<Rightarrow> (shift_row list \<times> nat) wtx" where
  "list_by_company c q page limit = ask (\<lambda>w.
     let hits = find_many (\<lambda>r. cs_company r = c \<and> (case truthy (shq_warehouse q) of None \<Rightarrow> True | Some x \<Rightarrow> cs_warehouse r = x) \<and>
           (case truthy (shq_cashier q) of None \<Rightarrow> True | Some x \<Rightarrow> cs_cashier r = x) \<and>
           (case shq_status q of None \<Rightarrow> True | Some x \<Rightarrow> cs_status r = x)) (t_shift w) in
     (take (nat limit) (drop (nat ((page - 1) * limit)) (sort_key (\<lambda>r. - cs_createdAt r) hits)), length hits))"

definition shift_status_name :: "shift_status \<Rightarrow> string" where
  "shift_status_name s = (case s of ShiftOpen \<Rightarrow> ''OPEN'' | ShiftClosed \<Rightarrow> ''CLOSED'')"

text \<open>\<^verbatim>\<open>CashShiftMapper.toEntity\<close>; \<open>ds\<close> is \<^verbatim>\<open>Decimal.toString\<close>.\<close>

definition shift_entity :: "(decimal \<Rightarrow> string) \<Rightarrow> shift_row \<Rightarrow> json" where
  "shift_entity ds r = JObj
     [(''id'', JStr (cs_id r)), (''companyId'', JStr (cs_company r)), (''warehouseId'', JStr (cs_warehouse r)),
      (''cashierId'', JStr (cs_cashier r)), (''status'', JStr (shift_status_name (cs_status r))),
      (''currency'', JStr (cs_currency r)), (''openedAt'', JDate (cs_openedAt r)), (''closedAt'', jopt JDate (cs_closedAt r)),
      (''openingBalance'', JStr (ds (cs_opening r))), (''closingBalance'', JStr (ds (cs_closing r))),
      (''cashSales'', JStr (ds (cs_cashSales r))), (''cardSales'', JStr (ds (cs_cardSales r))),
      (''qrSales'', JStr (ds (cs_qrSales r))), (''bankTransferSales'', JStr (ds (cs_bankSales r))),
      (''mobileWalletSales'', JStr (ds (cs_mobileSales r))), (''totalSales'', JStr (ds (cs_totalSales r))),
      (''cashIn'', JStr (ds (cs_cashIn r))), (''cashOut'', JStr (ds (cs_cashOut r))),
      (''expectedClosing'', JStr (ds (cs_expected r))), (''difference'', JStr (ds (cs_difference r))),
      (''notes'', jopt JStr (cs_notes r)), (''createdAt'', JDate (cs_createdAt r)), (''rowVersion'', jint (cs_version r))]"

definition shift_view :: "shift_row \<Rightarrow> json wtx" where
  "shift_view r = ask (\<lambda>w. shift_entity (dec_str w) r)"

section \<open>The accounts and the period of a cash movement\<close>

definition CASH_SHIFT_POSTING_REFERENCE_TYPE :: string where
  "CASH_SHIFT_POSTING_REFERENCE_TYPE = ''CASH_SHIFT''"

definition DRAWER_FALLBACK_CODE :: string where "DRAWER_FALLBACK_CODE = ''1010''"

definition SHORTAGE_CODE :: string where "SHORTAGE_CODE = ''6200''"

definition OVERAGE_CODE :: string where "OVERAGE_CODE = ''4210''"

definition FORBIDDEN_COUNTERPART_CODES :: "string list" where
  "FORBIDDEN_COUNTERPART_CODES = [''3200'', ''3000'']"

text \<open>\<^verbatim>\<open>CompaniesService.getBaseCurrency\<close>.\<close>

definition get_base_currency :: "string \<Rightarrow> string wtx" where
  "get_base_currency c = ask (\<lambda>w. case find_first (\<lambda>r. co_id r = c) (t_company w) of None \<Rightarrow> ''KZT'' | Some r \<Rightarrow> co_currency r)"

definition assert_drawer_account :: "account_row \<Rightarrow> unit wtx" where
  "assert_drawer_account a = require (ac_type a = ASSET) (BadRequest ''Cash drawer account must be of type ASSET'')"

definition live_registers :: "string \<Rightarrow> string \<Rightarrow> register_row list wtx" where
  "live_registers c wh = ask (\<lambda>w. sort_key ca_createdAt (find_many (\<lambda>r. ca_company r = c \<and> ca_warehouse r = Some wh \<and>
     ca_active r \<and> ca_deleted r = None) (t_register w)))"

text \<open>The account linked to the register, when it is alive; a dead link is no link.\<close>

definition linked_drawer :: "string \<Rightarrow> string \<Rightarrow> register_row \<Rightarrow> account_row option wtx" where
  "linked_drawer c currency r =
     bind (require (ca_currency r = currency) (BadRequest ''Cash register currency does not match shift currency'')) (\<lambda>_.
     case truthy (ca_chart r) of
       None \<Rightarrow> ret None
     | Some i \<Rightarrow> ask (\<lambda>w. find_first (\<lambda>a. ac_id a = i \<and> live_account c a) (t_account w)))"

text \<open>The linked account, or else the family fallback.\<close>

definition drawer_or_fallback :: "string \<Rightarrow> account_row option \<Rightarrow> string wtx" where
  "drawer_or_fallback c linked =
     (case linked of
       Some a \<Rightarrow> bind (assert_drawer_account a) (\<lambda>_. ret (ac_id a))
     | None \<Rightarrow>
         bind (ask (\<lambda>w. find_first (\<lambda>a. ac_code a = DRAWER_FALLBACK_CODE \<and> live_account c a) (t_account w))) (\<lambda>fallback.
         bind (require_some fallback (BadRequest ''Chart of Accounts not configured - cash account 1010 not found'')) (\<lambda>a.
         bind (assert_drawer_account a) (\<lambda>_. ret (ac_id a)))))"

definition resolve_drawer_account :: "string \<Rightarrow> string \<Rightarrow> string \<Rightarrow> string wtx" where
  "resolve_drawer_account c wh currency =
     bind (live_registers c wh) (\<lambda>registers.
     bind (require (\<not> 1 < length registers) (BadRequest ''Cash drawer is ambiguous'')) (\<lambda>_.
     bind (case registers of [] \<Rightarrow> ret None | r # _ \<Rightarrow> linked_drawer c currency r) (\<lambda>linked.
     drawer_or_fallback c linked)))"

definition resolve_counterpart_account :: "string \<Rightarrow> string option \<Rightarrow> string \<Rightarrow> string wtx" where
  "resolve_counterpart_account c counterpart drawer =
     bind (require_some (truthy counterpart) (BadRequest ''Cash movement requires an explicit counterpart account'')) (\<lambda>i.
     bind (ask (\<lambda>w. find_first (\<lambda>a. ac_id a = i \<and> ac_company a = c) (t_account w))) (\<lambda>found.
     bind (require_some found (BadRequest ''Counterpart account is not available'')) (\<lambda>a.
     bind (require (ac_active a \<and> ac_deleted a = None) (BadRequest ''Counterpart account is not available'')) (\<lambda>_.
     bind (require (ac_type a = EXPENSE \<or> ac_type a = REVENUE) (BadRequest ''Counterpart account must be an EXPENSE or REVENUE account'')) (\<lambda>_.
     bind (require (ac_code a \<notin> set FORBIDDEN_COUNTERPART_CODES) (BadRequest ''Counterpart account is a system equity account'')) (\<lambda>_.
     bind (require (\<not> ac_cashOrBank a) (BadRequest ''Counterpart account is a cash/bank account'')) (\<lambda>_.
     bind (require (ac_id a \<noteq> drawer) (BadRequest ''Counterpart account must differ from the cash drawer account'')) (\<lambda>_.
     ret (ac_id a)))))))))"

definition resolve_system_account :: "string \<Rightarrow> string \<Rightarrow> string wtx" where
  "resolve_system_account c code =
     bind (ask (\<lambda>w. find_first (\<lambda>a. ac_code a = code \<and> live_account c a) (t_account w))) (\<lambda>found.
     bind (require_some found (BadRequest ''Chart of Accounts not configured'')) (\<lambda>a. ret (ac_id a)))"

definition resolve_open_period :: "string \<Rightarrow> int \<Rightarrow> string wtx" where
  "resolve_open_period c d =
     bind (ask (\<lambda>w. sort_key (\<lambda>r. - fp_start r) (find_many (\<lambda>r. fp_company r = c \<and> fp_status r = Open \<and>
        fp_start r \<le> d \<and> d \<le> fp_end r) (t_period w)))) (\<lambda>periods.
     case periods of
       [] \<Rightarrow> throw (BadRequest ''No OPEN financial period covers the date'')
     | p # _ \<Rightarrow> ret (fp_id p))"

section \<open>Opening\<close>

record open_dto =
  od_warehouse :: string
  od_opening :: decimal
  od_currency :: "string option"
  od_notes :: "string option"

text \<open>The \<^verbatim>\<open>catch\<close> of \<^verbatim>\<open>openShift\<close>: any unique violation of the insert is a second open shift.\<close>

definition open_conflict :: "exn \<Rightarrow> exn" where
  "open_conflict e = (case e of
       UniqueViolation _ \<Rightarrow> Conflict ''An open shift already exists for this warehouse and cashier''
     | _ \<Rightarrow> e)"

definition open_shift :: "open_dto \<Rightarrow> string \<Rightarrow> string \<Rightarrow> json wtx" where
  "open_shift d user c = transaction (
     bind (find_open_shift (od_warehouse d) user c) (\<lambda>existing.
     bind (require (existing = None) (Conflict ''An open shift already exists for this warehouse and cashier'')) (\<lambda>_.
     bind (ask (\<lambda>w. find_first (\<lambda>r. wh_id r = od_warehouse d \<and> wh_company r = c \<and> wh_deleted r = None \<and> wh_active r) (t_warehouse w))) (\<lambda>warehouse.
     bind (require (warehouse \<noteq> None) (NotFound ''Warehouse not found'')) (\<lambda>_.
     bind (get_base_currency c) (\<lambda>companyCurrency.
     bind (require (case truthy (od_currency d) of None \<Rightarrow> True | Some x \<Rightarrow> x = companyCurrency)
       (BadRequest ''Currency does not match company currency'')) (\<lambda>_.
     bind (catch (insert_shift
       \<lparr>sd_company = c, sd_warehouse = od_warehouse d, sd_cashier = user, sd_currency = companyCurrency,
        sd_opening = od_opening d, sd_closing = od_opening d, sd_expected = od_opening d, sd_notes = od_notes d\<rparr>)
       (\<lambda>e. throw (open_conflict e))) shift_view)))))))"

section \<open>Closing\<close>

record close_dto =
  cd_actual :: "decimal option"
  cd_notes :: "string option"

text \<open>\<^verbatim>\<open>_sum\<close> of the cash allocations of the completed partial refunds of sales of the shift.\<close>

definition partial_cash_refunds :: "string \<Rightarrow> string \<Rightarrow> decimal wtx" where
  "partial_cash_refunds c shift = ask (\<lambda>w.
     (\<Sum>a\<leftarrow>find_many (\<lambda>a. ra_company a = c \<and> ra_method a = CASH \<and> ra_deleted a = None \<and>
        (\<exists>f \<in> set (t_refund w). rf_id f = ra_refund a \<and> rf_status f = RefundCompleted \<and> rf_deleted f = None \<and>
           (\<exists>s \<in> set (t_sale w). sa_id s = rf_sale f \<and> sa_shift s = Some shift))) (t_refund_alloc w). ra_amount a))"

definition expected_closing :: "shift_row \<Rightarrow> decimal \<Rightarrow> decimal" where
  "expected_closing s refunded = cs_opening s + cs_cashSales s + cs_cashIn s - cs_cashOut s - refunded"

definition gap_lines :: "bool \<Rightarrow> string \<Rightarrow> string \<Rightarrow> decimal \<Rightarrow> post_line list" where
  "gap_lines shortage gap drawer amount =
     (if shortage
      then [gl_line gap amount 0 ''Cash shortage on shift close'', gl_line drawer 0 amount ''Cash shortage on shift close'']
      else [gl_line drawer amount 0 ''Cash overage on shift close'', gl_line gap 0 amount ''Cash overage on shift close''])"

text \<open>The journal and the audit record of a difference; \<^verbatim>\<open>difference.abs().toFixed(4)\<close> is posted.\<close>

definition gap_input ::
  "close_dto \<Rightarrow> string \<Rightarrow> string \<Rightarrow> shift_row \<Rightarrow> string \<Rightarrow> string \<Rightarrow> int \<Rightarrow> string \<Rightarrow> decimal \<Rightarrow> post_input" where
  "gap_input d user c shift drawer period clock gap difference =
     (let shortage = difference < 0 in
      \<lparr>pi_company = c, pi_period = period, pi_date = clock,
       pi_description = Some (''Cash shift '' @ (if shortage then ''shortage'' else ''overage'') @ '' '' @ to_fixed4 \<bar>difference\<bar> @
         '' on close of shift '' @ cs_id shift @ (case truthy (cd_notes d) of None \<Rightarrow> '''' | Some s \<Rightarrow> '': '' @ s)),
       pi_refType = Some CASH_SHIFT_POSTING_REFERENCE_TYPE, pi_refId = Some (cs_id shift), pi_createdBy = user,
       pi_clientOp = None, pi_lines = gap_lines shortage gap drawer (round4 \<bar>difference\<bar>)\<rparr>)"

definition gap_audit :: "string \<Rightarrow> string \<Rightarrow> shift_row \<Rightarrow> decimal \<Rightarrow> decimal \<Rightarrow> post_result \<Rightarrow> unit wtx" where
  "gap_audit user c shift expected actual posted =
     bind (ask dec_str) (\<lambda>ds.
     audit_log \<lparr>au_company = Some c, au_user = user, au_entity = ''CashShift'', au_entityId = cs_id shift,
       au_action = (if actual - expected < 0 then ''SHORTAGE'' else ''OVERAGE''),
       au_before = Some (JObj [(''status'', JStr ''OPEN''), (''expectedClosing'', JStr (ds expected))]),
       au_after = Some (JObj [(''status'', JStr ''CLOSED''), (''actualClosing'', JStr (ds actual)),
         (''difference'', JStr (ds (actual - expected))), (''journalEntryId'', JStr (gp_id posted))])\<rparr>)"

lemma gap_audit_run: "\<exists>a. gap_audit user c s x y p w = (Inr (), w\<lparr>t_audit := a\<rparr>)"
  by (cases "y < x") (simp_all add: gap_audit_def, (rule exI, rule refl)+)

definition post_difference ::
  "event_bus \<Rightarrow> close_dto \<Rightarrow> string \<Rightarrow> string \<Rightarrow> shift_row \<Rightarrow> string \<Rightarrow> string \<Rightarrow> int \<Rightarrow> decimal \<Rightarrow> decimal \<Rightarrow> unit wtx" where
  "post_difference bus d user c shift drawer period clock expected actual =
     (let difference = actual - expected in
      if difference = 0 then ret ()
      else
        let shortage = difference < 0 in
        bind (resolve_system_account c (if shortage then SHORTAGE_CODE else OVERAGE_CODE)) (\<lambda>gap.
        bind (execute_post bus (gap_input d user c shift drawer period clock gap difference)) (\<lambda>posted.
        gap_audit user c shift expected actual posted)))"

definition close_columns :: "close_dto \<Rightarrow> shift_row \<Rightarrow> int \<Rightarrow> decimal \<Rightarrow> decimal \<Rightarrow> shift_row \<Rightarrow> shift_row" where
  "close_columns d shift clock expected actual r =
     r\<lparr>cs_status := ShiftClosed, cs_closedAt := Some clock, cs_closing := round4 actual,
       cs_expected := round4 expected, cs_difference := round4 (actual - expected),
       cs_notes := (case cd_notes d of None \<Rightarrow> cs_notes shift | Some s \<Rightarrow> Some s)\<rparr>"

definition close_shift :: "event_bus \<Rightarrow> close_dto \<Rightarrow> string \<Rightarrow> string \<Rightarrow> string \<Rightarrow> json wtx" where
  "close_shift bus d user c wh = transaction (
     bind (find_open_shift wh user c) (\<lambda>found.
     bind (require_some found (NotFound ''No open shift found'')) (\<lambda>shift.
     bind (partial_cash_refunds c (cs_id shift)) (\<lambda>refunded.
     let expected = expected_closing shift refunded;
         actual = (case cd_actual d of None \<Rightarrow> expected | Some x \<Rightarrow> x) in
     bind (resolve_drawer_account c wh (cs_currency shift)) (\<lambda>drawer.
     bind (ensure_current_calendar c) (\<lambda>_.
     bind (ask now) (\<lambda>clock.
     bind (resolve_open_period c clock) (\<lambda>period.
     bind (update_shift (cs_id shift) (close_columns d shift clock expected actual) c (cs_version shift)) (\<lambda>updated.
     bind (post_difference bus d user c shift drawer period clock expected actual) (\<lambda>_.
     shift_view updated))))))))))"

section \<open>Cash in and cash out\<close>

datatype cash_kind = CashIn | CashOut

record cash_dto =
  ci_amount :: decimal
  ci_reason :: "string option"
  ci_counterpart :: "string option"
  ci_clientOp :: "string option"

definition kind_name :: "cash_kind \<Rightarrow> string" where
  "kind_name k = (case k of CashIn \<Rightarrow> ''cashIn'' | CashOut \<Rightarrow> ''cashOut'')"

definition moved :: "cash_kind \<Rightarrow> shift_row \<Rightarrow> decimal" where
  "moved k s = (case k of CashIn \<Rightarrow> cs_cashIn s | CashOut \<Rightarrow> cs_cashOut s)"

definition set_moved :: "cash_kind \<Rightarrow> decimal \<Rightarrow> shift_row \<Rightarrow> shift_row" where
  "set_moved k x r = (case k of CashIn \<Rightarrow> r\<lparr>cs_cashIn := round4 x\<rparr> | CashOut \<Rightarrow> r\<lparr>cs_cashOut := round4 x\<rparr>)"

definition movement_notes :: "cash_kind \<Rightarrow> string option \<Rightarrow> string option \<Rightarrow> string option" where
  "movement_notes k notes reason = (case truthy reason of
       None \<Rightarrow> notes
     | Some s \<Rightarrow> Some (trim ((case notes of None \<Rightarrow> '''' | Some n \<Rightarrow> n) @ '' '' @ (case k of CashIn \<Rightarrow> ''In'' | CashOut \<Rightarrow> ''Out'') @ '': '' @ s)))"

text \<open>The columns a movement writes, from the shift as it was read.\<close>

definition cash_change :: "cash_kind \<Rightarrow> cash_dto \<Rightarrow> shift_row \<Rightarrow> shift_row \<Rightarrow> shift_row" where
  "cash_change k d s r = set_moved k (moved k s + ci_amount d) (r\<lparr>cs_notes := movement_notes k (cs_notes s) (ci_reason d)\<rparr>)"

definition cash_lines :: "cash_kind \<Rightarrow> string \<Rightarrow> string \<Rightarrow> decimal \<Rightarrow> post_line list" where
  "cash_lines k drawer counterpart amount =
     (let s = ''Cash '' @ kind_name k @ '' '' @ to_fixed4 amount; x = round4 amount in
      case k of
        CashIn \<Rightarrow> [gl_line drawer x 0 s, gl_line counterpart 0 x s]
      | CashOut \<Rightarrow> [gl_line counterpart x 0 s, gl_line drawer 0 x s])"

definition cash_operation_conflict :: "exn \<Rightarrow> exn" where
  "cash_operation_conflict e = (case e of
       UniqueViolation target \<Rightarrow>
         if ''clientOperationId'' \<in> set target then Conflict ''Cash operation already applied (unique operation identity). Please refresh and retry.''
         else e
     | _ \<Rightarrow> e)"

definition cash_input ::
  "cash_dto \<Rightarrow> string \<Rightarrow> string \<Rightarrow> cash_kind \<Rightarrow> string option \<Rightarrow> shift_row \<Rightarrow> string \<Rightarrow> int \<Rightarrow> string \<Rightarrow> string \<Rightarrow> post_input" where
  "cash_input d user c k key shift period clock drawer counterpart =
     \<lparr>pi_company = c, pi_period = period, pi_date = clock,
      pi_description = Some (''Cash shift '' @ (case k of CashIn \<Rightarrow> ''cash-in'' | CashOut \<Rightarrow> ''cash-out'') @ '' '' @ to_fixed4 (ci_amount d) @
        '' on shift '' @ cs_id shift @ (case truthy (ci_reason d) of None \<Rightarrow> '''' | Some s \<Rightarrow> '': '' @ s) @
        (case truthy key of None \<Rightarrow> '''' | Some x \<Rightarrow> '' [key '' @ x @ '']'')),
      pi_refType = Some CASH_SHIFT_POSTING_REFERENCE_TYPE, pi_refId = Some (cs_id shift), pi_createdBy = user,
      pi_clientOp = ci_clientOp d, pi_lines = cash_lines k drawer counterpart (ci_amount d)\<rparr>"

definition cash_audit ::
  "cash_dto \<Rightarrow> string \<Rightarrow> string \<Rightarrow> cash_kind \<Rightarrow> string option \<Rightarrow> shift_row \<Rightarrow> string \<Rightarrow> string \<Rightarrow> post_result \<Rightarrow> unit wtx" where
  "cash_audit d user c k key shift drawer counterpart posted =
     bind (ask dec_str) (\<lambda>ds.
     audit_log \<lparr>au_company = Some c, au_user = user, au_entity = ''CashShift'', au_entityId = cs_id shift,
       au_action = (case k of CashIn \<Rightarrow> ''CASH_IN'' | CashOut \<Rightarrow> ''CASH_OUT''),
       au_before = Some (JObj [(kind_name k, JStr (ds (moved k shift))), (''currency'', JStr (cs_currency shift))]),
       au_after = Some (JObj [(kind_name k, JStr (ds (moved k shift + ci_amount d))), (''currency'', JStr (cs_currency shift)),
         (''reason'', jopt JStr (ci_reason d)), (''counterpartAccountId'', JStr counterpart), (''drawerAccountId'', JStr drawer),
         (''journalEntryId'', JStr (gp_id posted)), (''idempotencyKey'', jopt JStr key)])\<rparr>)"

lemma cash_audit_run: "\<exists>a. cash_audit d user c k key s dr cp p w = (Inr (), w\<lparr>t_audit := a\<rparr>)"
  by (simp add: cash_audit_def) (rule exI, rule refl)

definition apply_cash_mutation ::
  "event_bus \<Rightarrow> cash_dto \<Rightarrow> string \<Rightarrow> string \<Rightarrow> string \<Rightarrow> cash_kind \<Rightarrow> string option \<Rightarrow> json wtx" where
  "apply_cash_mutation bus d user c wh k key =
     bind (find_open_shift wh user c) (\<lambda>found.
     bind (require_some found (NotFound ''No open shift found'')) (\<lambda>shift.
     let amount = ci_amount d in
     bind (require (\<not> (amount < 0 \<or> amount = 0)) (BadRequest ''Amount must be positive'')) (\<lambda>_.
     bind (resolve_drawer_account c wh (cs_currency shift)) (\<lambda>drawer.
     bind (resolve_counterpart_account c (ci_counterpart d) drawer) (\<lambda>counterpart.
     bind (ensure_current_calendar c) (\<lambda>_.
     bind (ask now) (\<lambda>clock.
     bind (resolve_open_period c clock) (\<lambda>period.
     bind (update_shift (cs_id shift) (cash_change k d shift) c (cs_version shift)) (\<lambda>updated.
     bind (catch (execute_post bus (cash_input d user c k key shift period clock drawer counterpart))
       (\<lambda>e. throw (cash_operation_conflict e))) (\<lambda>posted.
     bind (cash_audit d user c k key shift drawer counterpart posted) (\<lambda>_.
     shift_view updated)))))))))))"

definition cash_request :: "cash_dto \<Rightarrow> string \<Rightarrow> string \<Rightarrow> json" where
  "cash_request d wh user = JObj ([(''amount'', JNum (ci_amount d))] @
     (case ci_reason d of None \<Rightarrow> [] | Some s \<Rightarrow> [(''reason'', JStr s)]) @
     (case ci_counterpart d of None \<Rightarrow> [] | Some s \<Rightarrow> [(''counterpartAccountId'', JStr s)]) @
     (case ci_clientOp d of None \<Rightarrow> [] | Some s \<Rightarrow> [(''clientOperationId'', JStr s)]) @
     [(''warehouseId'', JStr wh), (''userId'', JStr user)])"

definition cash_mutation ::
  "event_bus \<Rightarrow> cash_dto \<Rightarrow> string \<Rightarrow> string \<Rightarrow> string \<Rightarrow> cash_kind \<Rightarrow> string option \<Rightarrow> (int \<times> json) wtx" where
  "cash_mutation bus d user c wh k key =
     run_with_idempotency c key (case k of CashIn \<Rightarrow> ''cash-in'' | CashOut \<Rightarrow> ''cash-out'') (cash_request d wh user) 200
       (apply_cash_mutation bus d user c wh k key)"

section \<open>Reports\<close>

definition get_x_report :: "string \<Rightarrow> string \<Rightarrow> string \<Rightarrow> json wtx" where
  "get_x_report user c wh =
     bind (find_open_shift wh user c) (\<lambda>found. bind (require_some found (NotFound ''No open shift found'')) shift_view)"

definition get_z_report :: "string \<Rightarrow> string \<Rightarrow> json wtx" where
  "get_z_report i c =
     bind (find_shift i c) (\<lambda>found. bind (require_some found (NotFound ''Cash shift not found'')) shift_view)"

definition list_shifts :: "string \<Rightarrow> shift_query \<Rightarrow> (json list \<times> nat \<times> int \<times> int) wtx" where
  "list_shifts c q =
     (let page = (case shq_page q of None \<Rightarrow> 1 | Some p \<Rightarrow> p); limit = (case shq_limit q of None \<Rightarrow> 20 | Some l \<Rightarrow> l) in
      bind (require (\<not> (page < 1 \<or> limit < 1)) (BadRequest ''Page and limit must be positive'')) (\<lambda>_.
      bind (list_by_company c q page limit) (\<lambda>(rows, n).
      bind (ask dec_str) (\<lambda>ds. ret (map (shift_entity ds) rows, n, page, limit)))))"

section \<open>What the resolutions return\<close>

definition asset_ids :: "world \<Rightarrow> string set" where
  "asset_ids w = ac_id ` {a \<in> set (t_account w). ac_type a = ASSET}"

lemma linked_drawer_Inr:
  "linked_drawer c cur r w = (Inr v, w') \<Longrightarrow> w' = w \<and> (\<forall>a. v = Some a \<longrightarrow> a \<in> set (t_account w) \<and> live_account c a)"
  by (auto simp: linked_drawer_def bind_Inr_iff split: option.splits if_splits dest: find_first_SomeD)

lemma resolve_drawer_Inr:
  assumes "resolve_drawer_account c wh cur w = (Inr i, w')"
  shows "w' = w" and "i \<in> asset_ids w" and "live_ids w c {i}"
proof -
  obtain registers v w1 where v: "(case registers of [] \<Rightarrow> ret None | r # _ \<Rightarrow> linked_drawer c cur r) w = (Inr v, w1)"
    and rest: "drawer_or_fallback c v w1 = (Inr i, w')"
    using assms by (auto simp: resolve_drawer_account_def live_registers_def bind_Inr_iff split: if_splits)
  have v1: "w1 = w" "\<And>a. v = Some a \<Longrightarrow> a \<in> set (t_account w) \<and> live_account c a"
    using v linked_drawer_Inr by (cases registers; fastforce)+
  have "w' = w \<and> (\<exists>a \<in> set (t_account w). ac_id a = i \<and> ac_type a = ASSET \<and> live_account c a)"
  proof (cases v)
    case (Some a)
    then show ?thesis using rest v1 by (auto simp: drawer_or_fallback_def assert_drawer_account_def bind_Inr_iff split: if_splits)
  next
    case None
    then show ?thesis using rest v1(1)
      by (cases "find_first (\<lambda>a. ac_code a = DRAWER_FALLBACK_CODE \<and> live_account c a) (t_account w)")
         (auto simp: drawer_or_fallback_def assert_drawer_account_def bind_Inr_iff split: if_splits dest!: find_first_SomeD)
  qed
  then show "w' = w" "i \<in> asset_ids w" "live_ids w c {i}" by (auto simp: asset_ids_def live_ids_def)
qed

lemma resolve_counterpart_same: "resolve_counterpart_account c v drawer w = (r, w') \<Longrightarrow> w' = w"
  by (auto simp: resolve_counterpart_account_def bind_def split: option.splits if_splits)

lemma resolve_counterpart_Inr:
  assumes "resolve_counterpart_account c v drawer w = (Inr i, w')" and "distinct (map ac_id (t_account w))"
  shows "w' = w" and "i \<notin> asset_ids w" and "live_ids w c {i}"
proof -
  have "\<exists>k a. find_first (\<lambda>a. ac_id a = k \<and> ac_company a = c) (t_account w) = Some a \<and> w' = w \<and> ac_id a = i \<and>
      ac_active a \<and> ac_deleted a = None \<and> (ac_type a = EXPENSE \<or> ac_type a = REVENUE)"
    using assms(1) by (auto simp add: resolve_counterpart_account_def bind_Inr_iff split: option.splits if_splits)
  then obtain a where a: "w' = w" "a \<in> set (t_account w)" "ac_id a = i" "ac_type a \<noteq> ASSET" "live_account c a"
    by (auto simp: live_account_def dest!: find_first_SomeD)
  then show "w' = w" "live_ids w c {i}" by (auto simp: live_ids_def)
  show "i \<notin> asset_ids w"
    using distinct_map_eq [OF assms(2) a(2)] a(3,4) by (auto simp: asset_ids_def)
qed

definition gap_accounts_ok :: "world \<Rightarrow> bool" where
  "gap_accounts_ok w \<longleftrightarrow> (\<forall>a \<in> set (t_account w). ac_code a = SHORTAGE_CODE \<or> ac_code a = OVERAGE_CODE \<longrightarrow> ac_type a \<noteq> ASSET)"

lemma resolve_system_Inr:
  assumes "resolve_system_account c code w = (Inr i, w')" and "distinct (map ac_id (t_account w))"
    and "gap_accounts_ok w" and "code = SHORTAGE_CODE \<or> code = OVERAGE_CODE"
  shows "w' = w" and "i \<notin> asset_ids w" and "live_ids w c {i}"
proof -
  have "w' = w \<and> (\<exists>a \<in> set (t_account w). ac_id a = i \<and> ac_type a \<noteq> ASSET \<and> live_account c a)"
    using assms(1,3,4)
    by (cases "find_first (\<lambda>a. ac_code a = code \<and> live_account c a) (t_account w)")
       (auto simp: resolve_system_account_def gap_accounts_ok_def dest!: find_first_SomeD)
  then obtain a where a: "w' = w" "a \<in> set (t_account w)" "ac_id a = i" "ac_type a \<noteq> ASSET" "live_account c a" by blast
  then show "w' = w" "live_ids w c {i}" by (auto simp: live_ids_def)
  show "i \<notin> asset_ids w"
    using distinct_map_eq [OF assms(2) a(2)] a(3,4) by (auto simp: asset_ids_def)
qed

lemma resolve_period_same: "resolve_open_period c d w = (r, w') \<Longrightarrow> w' = w"
  by (auto simp: resolve_open_period_def bind_def split: list.splits)

lemma find_open_shift_Inr:
  "find_open_shift wh user c w = (Inr (Some s), w') \<Longrightarrow>
     w' = w \<and> s \<in> set (t_shift w) \<and> cs_company s = c \<and> cs_status s = ShiftOpen \<and> cs_warehouse s = wh \<and> cs_cashier s = user"
  by (auto simp: find_open_shift_def open_shift_of_def dest!: find_first_SomeD)

lemma update_shift_run:
  assumes "distinct (map cs_id (t_shift w))" and "s \<in> set (t_shift w)" and f: "\<And>r. cs_id (f r) = cs_id r"
  shows "update_shift (cs_id s) f (cs_company s) (cs_version s) w =
    (Inr ((f s)\<lparr>cs_version := cs_version (f s) + 1\<rparr>),
     w\<lparr>t_shift := update_rows (\<lambda>r. cs_id r = cs_id s) (\<lambda>r. (f r)\<lparr>cs_version := cs_version (f r) + 1\<rparr>) (t_shift w)\<rparr>)"
  unfolding update_shift_def
  by (subst cas_write_here [where rows = t_shift and rid = cs_id and r = s, OF assms(1,2)]; cases w)
     (simp_all add: f bump_ver_def [abs_def])

section \<open>The shift and its journals\<close>

text \<open>The net movement of the asset accounts, on one entry and over the journals of one shift.\<close>

definition asset_move :: "string set \<Rightarrow> entry_row \<Rightarrow> decimal" where
  "asset_move A e = (\<Sum>l\<leftarrow>je_lines e. if jl_account l \<in> A then jl_debit l - jl_credit l else 0)"

definition shift_entry :: "string \<Rightarrow> entry_row \<Rightarrow> bool" where
  "shift_entry i e \<longleftrightarrow> je_refType e = Some CASH_SHIFT_POSTING_REFERENCE_TYPE \<and> je_refId e = Some i"

definition drawer_net :: "string set \<Rightarrow> entry_row list \<Rightarrow> string \<Rightarrow> decimal" where
  "drawer_net A t i = (\<Sum>e\<leftarrow>filter (shift_entry i) t. asset_move A e)"

lemma drawer_net_append [simp]:
  "drawer_net A (t @ u) i = drawer_net A t i + drawer_net A u i" "drawer_net A [] i = 0"
  "drawer_net A [e] i = (if shift_entry i e then asset_move A e else 0)"
  by (simp_all add: drawer_net_def)

lemma asset_move_two:
  assumes "stored_lines [gl_line x d 0 s, gl_line y 0 d s'] (je_lines e)" and "scale4 d"
  shows "asset_move A e = (if x \<in> A then d else 0) - (if y \<in> A then d else 0)"
proof -
  obtain l m where "je_lines e = [l, m]" "jl_account l = x" "jl_account m = y" "jl_debit l = d" "jl_credit l = 0" "jl_debit m = 0" "jl_credit m = d"
    using assms by (auto simp: stored_lines_def round4_id map_eq_Cons_conv)
  then show ?thesis by (simp add: asset_move_def)
qed

definition shift_books :: "shift_row \<Rightarrow> decimal" where
  "shift_books s = cs_cashIn s - cs_cashOut s + cs_difference s"

definition shift_sound :: "shift_row \<Rightarrow> bool" where
  "shift_sound s \<longleftrightarrow> scale4 (cs_opening s) \<and> scale4 (cs_cashSales s) \<and> scale4 (cs_cashIn s) \<and> scale4 (cs_cashOut s) \<and>
     0 \<le> cs_cashIn s \<and> 0 \<le> cs_cashOut s \<and> (cs_status s = ShiftOpen \<longrightarrow> cs_difference s = 0)"

definition one_open :: "shift_row list \<Rightarrow> bool" where
  "one_open t \<longleftrightarrow> (\<forall>wh k c. length (filter (open_shift_of wh k c) t) \<le> 1)"

definition till_inv :: "world \<Rightarrow> bool" where
  "till_inv w \<longleftrightarrow> ledger_inv w \<and> gap_accounts_ok w \<and> distinct (map cs_id (t_shift w)) \<and>
     uuid_fresh w (set (map cs_id (t_shift w))) \<and> one_open (t_shift w) \<and>
     (\<forall>e \<in> set (t_entry w). \<forall>i. shift_entry i e \<longrightarrow> i \<in> cs_id ` set (t_shift w)) \<and>
     (\<forall>s \<in> set (t_shift w). shift_sound s \<and> drawer_net (asset_ids w) (t_entry w) (cs_id s) = shift_books s) \<and>
     (\<forall>a \<in> set (t_refund_alloc w). scale4 (ra_amount a))"

lemma till_inv_cong:
  assumes "till_inv w" and "ledger_inv w'" and "t_account w' = t_account w" "t_shift w' = t_shift w" "t_entry w' = t_entry w"
    "t_refund_alloc w' = t_refund_alloc w" "uuid_gen w' = uuid_gen w" "uuid_next w \<le> uuid_next w'"
  shows "till_inv w'"
  using assms uuid_fresh_later [of w "set (map cs_id (t_shift w))" w']
  by (simp add: till_inv_def gap_accounts_ok_def asset_ids_def)

text \<open>The open shifts only become fewer when shifts are rewritten without being reopened.\<close>

lemma filter_update_le:
  "(\<And>r. p (f r) \<Longrightarrow> p r) \<Longrightarrow> length (filter p (update_rows q f t)) \<le> length (filter p t)"
  by (induction t) (auto simp: le_SucI)

lemma till_move:
  assumes inv: "till_inv w" and s: "s \<in> set (t_shift w)" and led: "ledger_inv w'"
    and tab: "t_account w' = t_account w" "t_shift w' = update_rows (\<lambda>r. cs_id r = cs_id s) f (t_shift w)"
      "t_entry w' = t_entry w @ es" "t_refund_alloc w' = t_refund_alloc w" "uuid_gen w' = uuid_gen w" "uuid_next w \<le> uuid_next w'"
    and f: "\<And>r. cs_id (f r) = cs_id r" "\<And>r wh k c. open_shift_of wh k c (f r) \<Longrightarrow> open_shift_of wh k c r"
    and es: "\<And>e i. e \<in> set es \<Longrightarrow> shift_entry i e \<longleftrightarrow> i = cs_id s"
    and books: "shift_sound (f s)" "shift_books (f s) = shift_books s + (\<Sum>e\<leftarrow>es. asset_move (asset_ids w) e)"
  shows "till_inv w'"
proof -
  have I: "distinct (map cs_id (t_shift w))" "uuid_fresh w (set (map cs_id (t_shift w)))" "one_open (t_shift w)"
    using inv by (simp_all add: till_inv_def)
  have ids: "map cs_id (t_shift w') = map cs_id (t_shift w)" by (simp add: tab map_update_rows f)
  have rows: "set (t_shift w') = {r \<in> set (t_shift w). cs_id r \<noteq> cs_id s} \<union> {f s}"
    unfolding tab set_update_rows using distinct_map_eq [OF I(1) _ s] s by blast
  have A: "asset_ids w' = asset_ids w" by (simp add: asset_ids_def tab)
  have net: "drawer_net (asset_ids w) es i = (if i = cs_id s then \<Sum>e\<leftarrow>es. asset_move (asset_ids w) e else 0)" for i
  proof -
    have "filter (shift_entry i) es = (if i = cs_id s then es else [])"
      using es by (auto simp: filter_empty_conv intro: filter_True)
    then show ?thesis by (simp add: drawer_net_def)
  qed
  have "one_open (t_shift w')"
    unfolding one_open_def
  proof (intro allI)
    fix wh k c
    have "length (filter (open_shift_of wh k c) (t_shift w')) \<le> length (filter (open_shift_of wh k c) (t_shift w))"
      unfolding tab using f(2) by (rule filter_update_le)
    also have "\<dots> \<le> 1" using I(3) by (simp add: one_open_def)
    finally show "length (filter (open_shift_of wh k c) (t_shift w')) \<le> 1" .
  qed
  moreover have "\<forall>e \<in> set (t_entry w'). \<forall>i. shift_entry i e \<longrightarrow> i \<in> cs_id ` set (t_shift w')"
  proof -
    have "cs_id ` set (t_shift w') = cs_id ` set (t_shift w)" using ids by (metis list.set_map)
    then show ?thesis using inv es s by (auto simp: till_inv_def tab)
  qed
  moreover have "shift_sound r \<and> drawer_net (asset_ids w') (t_entry w') (cs_id r) = shift_books r" if r: "r \<in> set (t_shift w')" for r
  proof (cases "cs_id r = cs_id s")
    case True
    then have "r = f s" using r rows by auto
    moreover have "drawer_net (asset_ids w) (t_entry w) (cs_id s) = shift_books s" using inv s by (simp add: till_inv_def)
    ultimately show ?thesis using books by (simp add: A tab net f)
  next
    case False
    then have "r \<in> set (t_shift w)" using r rows f by auto
    then show ?thesis using inv False by (simp add: till_inv_def A tab net)
  qed
  moreover have "distinct (map cs_id (t_shift w'))" "uuid_fresh w' (set (map cs_id (t_shift w')))"
    unfolding ids using I(1) uuid_fresh_later [OF I(2) tab(5,6)] by simp_all
  moreover have "gap_accounts_ok w'" "\<forall>a \<in> set (t_refund_alloc w'). scale4 (ra_amount a)"
    using inv by (simp_all add: till_inv_def gap_accounts_ok_def tab)
  ultimately show ?thesis using led unfolding till_inv_def by blast
qed

section \<open>Every operation keeps the till\<close>

definition till_view :: "world \<Rightarrow> shift_row list \<times> refund_alloc_row list \<times> account_row list" where
  "till_view w = (t_shift w, t_refund_alloc w, t_account w)"

definition till_bus :: "event_bus \<Rightarrow> bool" where
  "till_bus bus \<longleftrightarrow> ledger_bus bus \<and> bus_frame till_view bus"

lemma till_bus_empty: "till_bus (\<lambda>_. None)"
  by (simp add: till_bus_def ledger_bus_empty)

lemma post_till:
  assumes "till_bus bus" and "ledger_inv w" and "scale4_lines (pi_lines i)" and "execute_post bus i w = (Inr r, w')"
  shows "ledger_inv w'" and "till_view w' = till_view w" and "uuid_gen w' = uuid_gen w" and "uuid_next w \<le> uuid_next w'"
    and "\<exists>e n. t_entry w' = t_entry w @ [e] \<and> posted_row i n (now w) e"
proof -
  have B: "ledger_bus bus" "bus_frame till_view bus" using assms(1) by (simp_all add: till_bus_def)
  note K = execute_post_keeps [OF B(1) assms(2-4)]
  show "ledger_inv w'" "uuid_gen w' = uuid_gen w" "uuid_next w \<le> uuid_next w'" using K by simp_all
  show "\<exists>e n. t_entry w' = t_entry w @ [e] \<and> posted_row i n (now w) e" using K(2) by blast
  have "frame till_view (execute_post bus i)" using B(2) by (intro frame_intros) (simp_all add: till_view_def)
  from frameD [OF this assms(4)] show "till_view w' = till_view w" .
qed

lemma calendar_till:
  assumes "till_inv w" and "ensure_current_calendar c w = (r, w1)"
  shows "till_inv w1" and "till_view w1 = till_view w" and "t_entry w1 = t_entry w" and "now w1 = now w"
proof -
  note B = calendar_books [OF assms(2)]
  have "frame till_view (ensure_current_calendar c)" by (intro frame_intros) (simp_all add: till_view_def)
  from frameD [OF this assms(2)] show V: "till_view w1 = till_view w" .
  show "t_entry w1 = t_entry w" "now w1 = now w" by (simp_all add: B)
  have "ledger_inv w1" using calendar_keeps_ledger [OF _ assms(2)] assms(1) by (simp add: till_inv_def)
  then show "till_inv w1" by (rule till_inv_cong [OF assms(1)]) (use B V in \<open>simp_all add: till_view_def\<close>)
qed

lemma round4_add:
  assumes "scale4 x" and "0 \<le> x" and "0 < y"
  shows "round4 (x + y) = x + round4 y"
proof -
  obtain k :: int where k: "x = of_int k / 10000" using assms(1) by (auto simp: scale4_iff)
  have "(x + y) * 10000 + 1 / 2 = of_int k + (y * 10000 + 1 / 2)" by (simp add: k algebra_simps)
  then have "\<lfloor>(x + y) * 10000 + 1 / 2\<rfloor> = k + \<lfloor>y * 10000 + 1 / 2\<rfloor>" by (metis floor_add_int add.commute)
  then show ?thesis using assms(2,3) by (simp add: round4_def k add_divide_distrib)
qed

lemma round4_abs: "round4 x = (if x < 0 then - round4 \<bar>x\<bar> else round4 \<bar>x\<bar>)"
  by (auto simp: round4_def sgn_if)

lemma till_journal:
  assumes inv: "till_inv w" and bus: "till_bus bus" and s: "s \<in> set (t_shift w)"
    and upd: "update_shift (cs_id s) f (cs_company s) (cs_version s) w = (Inr x, w1)"
    and post: "execute_post bus i w1 = (Inr r, w2)" and tail: "till_view w' = till_view w2" "t_entry w' = t_entry w2"
      "ledger_inv w2 \<Longrightarrow> ledger_inv w'" "uuid_gen w' = uuid_gen w2" "uuid_next w' = uuid_next w2"
    and f: "\<And>r. cs_id (f r) = cs_id r" "\<And>r wh k c. open_shift_of wh k c (f r) \<Longrightarrow> open_shift_of wh k c r"
    and i: "pi_refType i = Some CASH_SHIFT_POSTING_REFERENCE_TYPE" "pi_refId i = Some (cs_id s)"
      "pi_lines i = [gl_line a d 0 t, gl_line b 0 d t]" "scale4 d" "a \<in> asset_ids w \<longleftrightarrow> b \<notin> asset_ids w"
    and books: "shift_sound (f s)" "shift_books (f s) = shift_books s + (if a \<in> asset_ids w then d else - d)"
  shows "till_inv w'"
proof -
  have ids: "distinct (map cs_id (t_shift w))" using inv by (simp add: till_inv_def)
  let ?g = "\<lambda>r. (f r)\<lparr>cs_version := cs_version (f r) + 1\<rparr>"
  have w1: "w1 = w\<lparr>t_shift := update_rows (\<lambda>r. cs_id r = cs_id s) ?g (t_shift w)\<rparr>"
    using upd update_shift_run [OF ids s, of f] f(1) by simp
  have "ledger_inv w1" by (rule ledger_inv_cong [of w]) (use inv in \<open>simp_all add: w1 till_inv_def ledger_inv_def\<close>)
  moreover have "scale4_lines (pi_lines i)" by (simp add: i scale4_lines_def)
  ultimately have P: "ledger_inv w2" "till_view w2 = till_view w1" "uuid_gen w2 = uuid_gen w1" "uuid_next w1 \<le> uuid_next w2"
      "\<exists>e n. t_entry w2 = t_entry w1 @ [e] \<and> posted_row i n (now w1) e"
    using post_till [OF bus _ _ post] by blast+
  then obtain e n where e: "t_entry w2 = t_entry w1 @ [e]" "posted_row i n (now w1) e" by blast
  have ent: "shift_entry j e \<longleftrightarrow> j = cs_id s" for j using e(2) i by (auto simp: shift_entry_def posted_row_def)
  have "stored_lines [gl_line a d 0 t, gl_line b 0 d t] (je_lines e)" using e(2) i by (simp add: posted_row_def)
  from asset_move_two [OF this i(4)] have move: "asset_move (asset_ids w) e = (if a \<in> asset_ids w then d else - d)" using i(5) by auto
  show ?thesis
  proof (rule till_move [OF inv s tail(3) [OF P(1)], where f = ?g and es = "[e]"])
    show "shift_sound (?g s)" "shift_books (?g s) = shift_books s + (\<Sum>e\<leftarrow>[e]. asset_move (asset_ids w) e)"
      using books move by (simp_all add: shift_sound_def shift_books_def)
    show "open_shift_of wh k c r" if "open_shift_of wh k c (?g r)" for r wh k c
      using f(2) [of wh k c r] that by (simp add: open_shift_of_def)
  qed (use tail P e ent f(1) in \<open>auto simp: till_view_def w1\<close>)
qed

text \<open>The successful runs of the three operations, step by step.\<close>

lemma cash_run_Inr:
  assumes "apply_cash_mutation bus d user c wh k key w = (Inr b, w')"
  obtains s drawer counter cal w1 period x w2 post w3 a where "find_open_shift wh user c w = (Inr (Some s), w)" and "0 < ci_amount d"
    and "resolve_drawer_account c wh (cs_currency s) w = (Inr drawer, w)"
    and "resolve_counterpart_account c (ci_counterpart d) drawer w = (Inr counter, w)"
    and "ensure_current_calendar c w = (Inr cal, w1)" and "resolve_open_period c (now w1) w1 = (Inr period, w1)"
    and "update_shift (cs_id s) (cash_change k d s) c (cs_version s) w1 = (Inr x, w2)"
    and "execute_post bus (cash_input d user c k key s period (now w1) drawer counter) w2 = (Inr post, w3)"
    and "w' = w3\<lparr>t_audit := a\<rparr>" and "b = shift_entity (dec_str w3) x"
proof -
  from assms obtain s where s: "find_open_shift wh user c w = (Inr (Some s), w)" and pos: "0 < ci_amount d" and
    body: "bind (resolve_drawer_account c wh (cs_currency s)) (\<lambda>drawer.
     bind (resolve_counterpart_account c (ci_counterpart d) drawer) (\<lambda>counterpart.
     bind (ensure_current_calendar c) (\<lambda>_.
     bind (ask now) (\<lambda>clock.
     bind (resolve_open_period c clock) (\<lambda>period.
     bind (update_shift (cs_id s) (cash_change k d s) c (cs_version s)) (\<lambda>updated.
     bind (catch (execute_post bus (cash_input d user c k key s period clock drawer counterpart))
       (\<lambda>e. throw (cash_operation_conflict e))) (\<lambda>posted.
     bind (cash_audit d user c k key s drawer counterpart posted) (\<lambda>_.
     shift_view updated)))))))) w = (Inr b, w')"
    by (auto simp: apply_cash_mutation_def find_open_shift_def bind_def Let_def split: option.splits if_splits)
  from body obtain drawer wd counter wc cal w1 period wp x w2 post w3 w4 where
    R: "resolve_drawer_account c wh (cs_currency s) w = (Inr drawer, wd)"
      "resolve_counterpart_account c (ci_counterpart d) drawer wd = (Inr counter, wc)"
      "ensure_current_calendar c wc = (Inr cal, w1)" "resolve_open_period c (now w1) w1 = (Inr period, wp)"
      "update_shift (cs_id s) (cash_change k d s) c (cs_version s) wp = (Inr x, w2)"
      "execute_post bus (cash_input d user c k key s period (now w1) drawer counter) w2 = (Inr post, w3)"
      "cash_audit d user c k key s drawer counter post w3 = (Inr (), w4)" "w' = w4" "b = shift_entity (dec_str w4) x"
    by (auto simp: bind_Inr_iff catch_rethrow_Inr_iff shift_view_def)
  have "wd = w" using R(1) by (rule resolve_drawer_Inr(1))
  moreover have "wc = wd" using R(2) by (rule resolve_counterpart_same)
  moreover have "wp = w1" using R(4) by (rule resolve_period_same)
  moreover obtain a where "w4 = w3\<lparr>t_audit := a\<rparr>" using cash_audit_run [of d user c k key s drawer counter post w3] R(7) by auto
  ultimately show thesis using that [OF s pos, of drawer counter cal w1 period x w2 post w3 a] R by simp
qed

lemma cash_keeps: "till_bus bus \<Longrightarrow> keeps_ok till_inv (apply_cash_mutation bus d user c wh k key)"
proof (rule keeps_okI)
  fix w b w'
  assume bus: "till_bus bus" and inv: "till_inv w" and run: "apply_cash_mutation bus d user c wh k key w = (Inr b, w')"
  from run obtain s drawer counter cal w1 period x w2 post w3 a where
    R: "find_open_shift wh user c w = (Inr (Some s), w)" "0 < ci_amount d"
    "resolve_drawer_account c wh (cs_currency s) w = (Inr drawer, w)"
    "resolve_counterpart_account c (ci_counterpart d) drawer w = (Inr counter, w)"
    "ensure_current_calendar c w = (Inr cal, w1)"
    "update_shift (cs_id s) (cash_change k d s) c (cs_version s) w1 = (Inr x, w2)"
    "execute_post bus (cash_input d user c k key s period (now w1) drawer counter) w2 = (Inr post, w3)"
    "w' = w3\<lparr>t_audit := a\<rparr>"
    by (rule cash_run_Inr)
  note C = calendar_till [OF inv R(5)]
  have s: "s \<in> set (t_shift w1)" "cs_company s = c" "cs_status s = ShiftOpen"
    using find_open_shift_Inr [OF R(1)] C(2) by (simp_all add: till_view_def)
  have acc: "distinct (map ac_id (t_account w))" using inv by (simp add: till_inv_def ledger_inv_def)
  have A: "asset_ids w1 = asset_ids w" using C(2) by (simp add: asset_ids_def till_view_def)
  have ids: "drawer \<in> asset_ids w1" "counter \<notin> asset_ids w1"
    using resolve_drawer_Inr(2) [OF R(3)] resolve_counterpart_Inr(2) [OF R(4) acc] by (simp_all add: A)
  have old: "shift_sound s" using C(1) s(1) by (simp add: till_inv_def)
  have mv: "round4 (moved k s + ci_amount d) = moved k s + round4 (ci_amount d)" "0 \<le> moved k s" "scale4 (moved k s)"
    using old R(2) by (auto simp: shift_sound_def moved_def intro!: round4_add split: cash_kind.splits)
  have q: "0 \<le> round4 (ci_amount d)" using R(2) by (intro round4_nonneg) simp
  let ?t = "''Cash '' @ kind_name k @ '' '' @ to_fixed4 (ci_amount d)"
  define y where "y = (case k of CashIn \<Rightarrow> drawer | CashOut \<Rightarrow> counter)"
  define z where "z = (case k of CashIn \<Rightarrow> counter | CashOut \<Rightarrow> drawer)"
  show "till_inv w'"
  proof (rule till_journal [OF C(1) bus s(1) _ R(7), where a = y and b = z and d = "round4 (ci_amount d)" and t = ?t
        and f = "cash_change k d s"])
    show "update_shift (cs_id s) (cash_change k d s) (cs_company s) (cs_version s) w1 = (Inr x, w2)" using R(6) s(2) by simp
    show "pi_lines (cash_input d user c k key s period (now w1) drawer counter) =
        [gl_line y (round4 (ci_amount d)) 0 ?t, gl_line z 0 (round4 (ci_amount d)) ?t]"
      by (simp add: cash_input_def cash_lines_def Let_def y_def z_def split: cash_kind.split)
    show "y \<in> asset_ids w1 \<longleftrightarrow> z \<notin> asset_ids w1" using ids by (simp add: y_def z_def split: cash_kind.split)
    show "shift_sound (cash_change k d s s)"
      using old mv q s(3) by (cases k) (auto simp: shift_sound_def cash_change_def set_moved_def moved_def)
    show "shift_books (cash_change k d s s) = shift_books s + (if y \<in> asset_ids w1 then round4 (ci_amount d) else - round4 (ci_amount d))"
      using ids mv by (cases k) (simp_all add: shift_books_def cash_change_def set_moved_def moved_def y_def)
    show "till_view w' = till_view w3" "t_entry w' = t_entry w3" "uuid_gen w' = uuid_gen w3" "uuid_next w' = uuid_next w3"
      by (simp_all add: R(8) till_view_def)
    show "ledger_inv w3 \<Longrightarrow> ledger_inv w'" by (rule ledger_inv_cong [of w3]) (simp_all add: R(8) ledger_inv_def)
  qed (simp_all add: cash_input_def cash_change_def set_moved_def open_shift_of_def split: cash_kind.splits)
qed

definition gap_code :: "decimal \<Rightarrow> string" where
  "gap_code difference = (if difference < 0 then SHORTAGE_CODE else OVERAGE_CODE)"

lemma post_difference_Inr:
  assumes "post_difference bus d user c s drawer period clock expected actual w = (Inr u, w')"
  shows "(actual = expected \<and> w' = w) \<or>
    (actual \<noteq> expected \<and> (\<exists>gap posted w1 a. resolve_system_account c (gap_code (actual - expected)) w = (Inr gap, w) \<and>
       execute_post bus (gap_input d user c s drawer period clock gap (actual - expected)) w = (Inr posted, w1) \<and> w' = w1\<lparr>t_audit := a\<rparr>))"
proof (cases "actual = expected")
  case True
  with assms show ?thesis by (simp add: post_difference_def)
next
  case False
  from False assms obtain gap w0 posted w1 where
    R: "resolve_system_account c (gap_code (actual - expected)) w = (Inr gap, w0)"
      "execute_post bus (gap_input d user c s drawer period clock gap (actual - expected)) w0 = (Inr posted, w1)"
      "gap_audit user c s expected actual posted w1 = (Inr (), w')"
    by (auto simp: post_difference_def Let_def bind_Inr_iff gap_code_def split: if_splits)
  have "w0 = w" using R(1) by (auto simp: resolve_system_account_def bind_def split: option.splits)
  then show ?thesis using R False gap_audit_run [of user c s expected actual posted w1] by auto
qed

text \<open>The balance the service expects and the one it takes as counted.\<close>

definition refunded_cash :: "world \<Rightarrow> string \<Rightarrow> string \<Rightarrow> decimal" where
  "refunded_cash w c shift = (case partial_cash_refunds c shift w of (Inr x, _) \<Rightarrow> x | _ \<Rightarrow> 0)"

lemma partial_cash_refunds_run [simp]: "partial_cash_refunds c i w = (Inr (refunded_cash w c i), w)"
  by (simp add: partial_cash_refunds_def refunded_cash_def)

definition counted :: "close_dto \<Rightarrow> decimal \<Rightarrow> decimal" where
  "counted d expected = (case cd_actual d of None \<Rightarrow> expected | Some x \<Rightarrow> x)"

lemma close_run_Inr:
  assumes "close_shift bus d user c wh w = (Inr b, w')"
  obtains s drawer cal w1 period x w2 where "find_open_shift wh user c w = (Inr (Some s), w)"
    and "resolve_drawer_account c wh (cs_currency s) w = (Inr drawer, w)"
    and "ensure_current_calendar c w = (Inr cal, w1)" and "resolve_open_period c (now w1) w1 = (Inr period, w1)"
    and "update_shift (cs_id s) (close_columns d s (now w1) (expected_closing s (refunded_cash w c (cs_id s)))
      (counted d (expected_closing s (refunded_cash w c (cs_id s))))) c (cs_version s) w1 = (Inr x, w2)"
    and "post_difference bus d user c s drawer period (now w1) (expected_closing s (refunded_cash w c (cs_id s)))
      (counted d (expected_closing s (refunded_cash w c (cs_id s)))) w2 = (Inr (), w')"
    and "b = shift_entity (dec_str w') x"
proof -
  from assms obtain s where s: "find_open_shift wh user c w = (Inr (Some s), w)" and
    body: "(let expected = expected_closing s (refunded_cash w c (cs_id s)); actual = counted d expected in
     bind (resolve_drawer_account c wh (cs_currency s)) (\<lambda>drawer.
     bind (ensure_current_calendar c) (\<lambda>_.
     bind (ask now) (\<lambda>clock.
     bind (resolve_open_period c clock) (\<lambda>period.
     bind (update_shift (cs_id s) (close_columns d s clock expected actual) c (cs_version s)) (\<lambda>updated.
     bind (post_difference bus d user c s drawer period clock expected actual) (\<lambda>_.
     shift_view updated))))))) w = (Inr b, w')"
    by (auto simp: close_shift_def transaction_Inr_iff find_open_shift_def bind_def [of "ask _"] bind_def [of "require_some _ _"]
      bind_def [of "partial_cash_refunds _ _"] counted_def split: option.splits)
  define x0 where "x0 = expected_closing s (refunded_cash w c (cs_id s))"
  from body obtain drawer wd cal w1 period wp x w2 where
    R: "resolve_drawer_account c wh (cs_currency s) w = (Inr drawer, wd)" "ensure_current_calendar c wd = (Inr cal, w1)"
      "resolve_open_period c (now w1) w1 = (Inr period, wp)"
      "update_shift (cs_id s) (close_columns d s (now w1) x0 (counted d x0)) c (cs_version s) wp = (Inr x, w2)"
      "post_difference bus d user c s drawer period (now w1) x0 (counted d x0) w2 = (Inr (), w')" "b = shift_entity (dec_str w') x"
    by (auto simp: bind_Inr_iff shift_view_def Let_def x0_def [symmetric])
  have "wd = w" using R(1) by (rule resolve_drawer_Inr(1))
  moreover have "wp = w1" using R(3) by (rule resolve_period_same)
  ultimately show thesis using that [OF s, of drawer cal w1 period x w2] R by (simp add: x0_def)
qed

lemma close_columns_simps [simp]:
  "cs_id (close_columns d s t x y r) = cs_id r" "cs_status (close_columns d s t x y r) = ShiftClosed"
  "cs_cashIn (close_columns d s t x y r) = cs_cashIn r" "cs_cashOut (close_columns d s t x y r) = cs_cashOut r"
  "cs_difference (close_columns d s t x y r) = round4 (y - x)"
  by (simp_all add: close_columns_def)

lemma close_keeps:
  assumes bus: "till_bus bus" and inv: "till_inv w" and run: "close_shift bus d user c wh w = (Inr b, w')"
  shows "till_inv w'"
proof -
  from run obtain s drawer cal w1 period x w2 where
    R: "find_open_shift wh user c w = (Inr (Some s), w)" "resolve_drawer_account c wh (cs_currency s) w = (Inr drawer, w)"
    "ensure_current_calendar c w = (Inr cal, w1)"
    "update_shift (cs_id s) (close_columns d s (now w1) (expected_closing s (refunded_cash w c (cs_id s)))
      (counted d (expected_closing s (refunded_cash w c (cs_id s))))) c (cs_version s) w1 = (Inr x, w2)"
    "post_difference bus d user c s drawer period (now w1) (expected_closing s (refunded_cash w c (cs_id s)))
      (counted d (expected_closing s (refunded_cash w c (cs_id s)))) w2 = (Inr (), w')"
    by (rule close_run_Inr)
  define ex where "ex = expected_closing s (refunded_cash w c (cs_id s))"
  define f where "f = close_columns d s (now w1) ex (counted d ex)"
  define gap where "gap = counted d ex - ex"
  note C = calendar_till [OF inv R(3)]
  have s: "s \<in> set (t_shift w1)" "cs_company s = c" "cs_status s = ShiftOpen"
    using find_open_shift_Inr [OF R(1)] C(2) by (simp_all add: till_view_def)
  have I: "distinct (map cs_id (t_shift w1))" "gap_accounts_ok w1" "distinct (map ac_id (t_account w1))" "ledger_inv w1"
    using C(1) by (simp_all add: till_inv_def ledger_inv_def)
  have fs: "cs_id (f r) = cs_id r" "\<not> open_shift_of wh k c (f r)" for r wh k c by (simp_all add: f_def open_shift_of_def)
  have w2: "w2 = w1\<lparr>t_shift := update_rows (\<lambda>r. cs_id r = cs_id s) (\<lambda>r. (f r)\<lparr>cs_version := cs_version (f r) + 1\<rparr>) (t_shift w1)\<rparr>"
    using R(4) update_shift_run [OF I(1) s(1), of f] s(2) by (simp add: f_def ex_def)
  have "shift_sound s" using C(1) s(1) by (simp add: till_inv_def)
  then have sound: "shift_sound (f s)" and books: "shift_books (f s) = shift_books s + round4 gap"
    using s(3) by (simp_all add: shift_sound_def shift_books_def f_def gap_def) (simp add: close_columns_def)
  have drawer: "drawer \<in> asset_ids w1"
    using resolve_drawer_Inr(2) [OF R(2)] C(2) by (simp add: asset_ids_def till_view_def)
  from post_difference_Inr [OF R(5)] consider
      (none) "gap = 0" "w' = w2"
    | (posted) g post w3 a where "resolve_system_account c (gap_code gap) w2 = (Inr g, w2)"
      "execute_post bus (gap_input d user c s drawer period (now w1) g gap) w2 = (Inr post, w3)" "w' = w3\<lparr>t_audit := a\<rparr>"
    unfolding ex_def [symmetric] gap_def [symmetric] by (auto simp: gap_def)
  then show ?thesis
  proof cases
    case none
    show ?thesis
    proof (rule till_move [OF C(1) s(1), where f = "\<lambda>r. (f r)\<lparr>cs_version := cs_version (f r) + 1\<rparr>" and es = "[]"])
      show "ledger_inv w'" by (rule ledger_inv_cong [OF I(4)]) (use I(4) in \<open>simp_all add: none(2) w2 ledger_inv_def\<close>)
      show "shift_books ((f s)\<lparr>cs_version := cs_version (f s) + 1\<rparr>) = shift_books s + (\<Sum>e\<leftarrow>[]. asset_move (asset_ids w1) e)"
        "shift_sound ((f s)\<lparr>cs_version := cs_version (f s) + 1\<rparr>)"
        using books sound none(1) by (simp_all add: shift_books_def shift_sound_def)
      show "open_shift_of wh k c r" if "open_shift_of wh k c ((f r)\<lparr>cs_version := cs_version (f r) + 1\<rparr>)" for r wh k c
        using that fs(2) [of wh k c r] by (simp add: open_shift_of_def)
    qed (simp_all add: none(2) w2 fs(1))
  next
    case posted
    have "gap_accounts_ok w2" "distinct (map ac_id (t_account w2))" using I(2,3) by (simp_all add: w2 gap_accounts_ok_def)
    from resolve_system_Inr(2) [OF posted(1) this(2,1)] have g: "g \<notin> asset_ids w1"
      by (simp add: gap_code_def w2 asset_ids_def)
    let ?t = "if gap < 0 then ''Cash shortage on shift close'' else ''Cash overage on shift close''"
    show ?thesis
    proof (rule till_journal [OF C(1) bus s(1) _ posted(2), where a = "if gap < 0 then g else drawer" and
          b = "if gap < 0 then drawer else g" and d = "round4 \<bar>gap\<bar>" and t = ?t and f = f])
      show "update_shift (cs_id s) f (cs_company s) (cs_version s) w1 = (Inr x, w2)" using R(4) s(2) by (simp add: f_def ex_def)
      show "shift_books (f s) = shift_books s + (if (if gap < 0 then g else drawer) \<in> asset_ids w1 then round4 \<bar>gap\<bar> else - round4 \<bar>gap\<bar>)"
        using g drawer unfolding books by (cases "gap < 0") (simp_all add: round4_def sgn_if)
      show "ledger_inv w3 \<Longrightarrow> ledger_inv w'" by (rule ledger_inv_cong [of w3]) (simp_all add: posted(3) ledger_inv_def)
    qed (use sound fs g drawer in \<open>auto simp: gap_input_def gap_lines_def Let_def posted(3) till_view_def\<close>)
  qed
qed

lemma open_keeps:
  assumes inv: "till_inv w" and run: "open_shift d user c w = (Inr b, w')"
  shows "till_inv w'"
proof -
  from run obtain cur row u where row: "w' = w\<lparr>uuid_next := Suc (uuid_next w), t_shift := t_shift w @ [row]\<rparr>"
    and none: "find_first (open_shift_of (od_warehouse d) user c) (t_shift w) = None" and u: "u = uuid_gen w (uuid_next w)"
    and row_def: "row = \<lparr>cs_id = u, cs_company = c, cs_warehouse = od_warehouse d, cs_cashier = user,
                cs_status = ShiftOpen, cs_currency = cur, cs_openedAt = now w, cs_closedAt = None,
                cs_opening = round4 (od_opening d), cs_closing = round4 (od_opening d), cs_cashSales = 0, cs_cardSales = 0,
                cs_qrSales = 0, cs_bankSales = 0, cs_mobileSales = 0, cs_totalSales = 0, cs_cashIn = 0, cs_cashOut = 0,
                cs_expected = round4 (od_opening d), cs_difference = 0, cs_notes = od_notes d, cs_version = 0, cs_createdAt = now w\<rparr>"
    by (auto simp: open_shift_def transaction_Inr_iff bind_Inr_iff catch_rethrow_Inr_iff insert_shift_def find_open_shift_def Let_def
      shift_view_def get_base_currency_def split: if_splits option.splits)
  have I: "distinct (map cs_id (t_shift w))" "uuid_fresh w (set (map cs_id (t_shift w)))" "one_open (t_shift w)" "ledger_inv w"
    using inv by (simp_all add: till_inv_def)
  have new: "u \<notin> cs_id ` set (t_shift w)" using uuid_fresh_now [OF I(2)] by (simp add: u)
  have fresh: "uuid_fresh w' (insert u (cs_id ` set (t_shift w)))"
    using uuid_fresh_step [OF I(2), of w'] by (simp add: row u)
  have net: "drawer_net (asset_ids w) (t_entry w) u = 0"
  proof -
    have "filter (shift_entry u) (t_entry w) = []" using inv new by (auto simp: till_inv_def filter_empty_conv)
    then show ?thesis by (simp add: drawer_net_def)
  qed
  have "one_open (t_shift w')"
    unfolding one_open_def
  proof (intro allI)
    fix wh k c'
    have "length (filter (open_shift_of wh k c') (t_shift w)) \<le> 1" using I(3) by (simp add: one_open_def)
    moreover have "filter (open_shift_of wh k c') (t_shift w) = []" if "open_shift_of wh k c' row"
      using none that by (auto simp: find_first_None_iff filter_empty_conv row_def open_shift_of_def)
    ultimately show "length (filter (open_shift_of wh k c') (t_shift w')) \<le> 1" by (simp add: row)
  qed
  moreover have "ledger_inv w'"
    by (rule ledger_inv_cong [OF I(4)]) (use I(4) uuid_fresh_later [of w _ w'] in \<open>auto simp: row ledger_inv_def entry_ids_ok_def\<close>)
  moreover have "shift_sound row" "shift_books row = 0" by (simp_all add: row_def shift_sound_def shift_books_def)
  moreover have "distinct (map cs_id (t_shift w'))" "uuid_fresh w' (set (map cs_id (t_shift w')))" "cs_id row = u"
    using I(1) new fresh by (simp_all add: row row_def)
  moreover have "gap_accounts_ok w'" "asset_ids w' = asset_ids w" "t_entry w' = t_entry w" "t_refund_alloc w' = t_refund_alloc w"
    using inv by (simp_all add: row till_inv_def gap_accounts_ok_def asset_ids_def)
  ultimately show ?thesis using inv net unfolding till_inv_def by (auto simp: row)
qed

section \<open>Reachable tills\<close>

inductive till_step :: "event_bus \<Rightarrow> world \<Rightarrow> world \<Rightarrow> bool" for bus :: event_bus where
  till_opened: "open_shift d user c w = (r, w') \<Longrightarrow> till_step bus w w'"
| till_closed: "close_shift bus cd user c wh w = (r, w') \<Longrightarrow> till_step bus w w'"
| till_cash: "cash_mutation bus cm user c wh k key w = (r', w') \<Longrightarrow> till_step bus w w'"
| till_clock: "till_step bus w (w\<lparr>now := t\<rparr>)"

inductive till_reachable :: "event_bus \<Rightarrow> world \<Rightarrow> world \<Rightarrow> bool" for bus :: event_bus and w0 :: world where
  till_start: "till_reachable bus w0 w0"
| till_next: "till_reachable bus w0 w \<Longrightarrow> till_step bus w w' \<Longrightarrow> till_reachable bus w0 w'"

lemma till_inv_env:
  "till_inv w \<Longrightarrow> till_inv (t_idem_update h w)" "till_inv w \<Longrightarrow> till_inv (w\<lparr>uuid_next := Suc (uuid_next w)\<rparr>)"
  "till_inv w \<Longrightarrow> till_inv (w\<lparr>now := t\<rparr>)"
proof -
  assume inv: "till_inv w"
  then have L: "ledger_inv w" by (simp add: till_inv_def)
  show "till_inv (t_idem_update h w)" "till_inv (w\<lparr>uuid_next := Suc (uuid_next w)\<rparr>)" "till_inv (w\<lparr>now := t\<rparr>)"
    by (rule till_inv_cong [OF inv ledger_inv_cong [OF L]];
        use L uuid_fresh_later in \<open>fastforce simp: ledger_inv_def entry_ids_ok_def\<close>)+
qed

lemma till_step_keeps:
  assumes "till_bus bus" and inv: "till_inv w" and "till_step bus w w'"
  shows "till_inv w'"
  using assms(3)
proof cases
  case (till_opened d user c r)
  then show ?thesis
    using inv open_keeps [OF inv] by (cases r) (auto simp: open_shift_def dest!: transaction_rollback)
next
  case (till_closed cd user c wh r)
  then show ?thesis
    using inv close_keeps [OF assms(1) inv] by (cases r) (auto simp: close_shift_def dest!: transaction_rollback)
next
  case (till_cash cm user c wh k key r')
  have "keeps till_inv (cash_mutation bus cm user c wh k key)"
    unfolding cash_mutation_def by (intro keeps_run_with_idempotency till_inv_env cash_keeps assms(1))
  then show ?thesis using inv till_cash by (rule keepsD)
next
  case (till_clock t)
  then show ?thesis using till_inv_env(3) [OF inv] by simp
qed

section \<open>Runs that succeed\<close>

lemma period_ready:
  assumes "books_ready bus w c"
  obtains cal w1 q where "ensure_current_calendar c w = (Inr cal, w1)" and "resolve_open_period c (now w1) w1 = (Inr (fp_id q), w1)"
    and "find_first (\<lambda>r. fp_id r = fp_id q \<and> fp_company r = c) (t_period w1) = Some q" and "fp_status q = Open"
    and "fp_start q \<le> now w" and "now w \<le> fp_end q"
proof -
  have B: "period_ids_ok w" "month_open w c" using assms by (simp_all add: books_ready_def)
  obtain fy per w1 where cal: "ensure_current_calendar c w = (Inr (fy, per, True), w1)"
    and per: "find_first (\<lambda>r. fp_id r = fp_id per \<and> fp_company r = c) (t_period w1) = Some per" "fp_status per = Open"
      "fp_start per \<le> now w" "now w \<le> fp_end per"
    by (rule current_month [OF B])
  have n: "now w1 = now w" by (rule calendar_books(1) [OF cal])
  let ?hit = "\<lambda>r. fp_company r = c \<and> fp_status r = Open \<and> fp_start r \<le> now w1 \<and> now w1 \<le> fp_end r"
  let ?ps = "sort_key (\<lambda>r. - fp_start r) (find_many ?hit (t_period w1))"
  have "per \<in> set ?ps" using per find_first_SomeD [OF per(1)] n by (simp add: find_many_def)
  then obtain q qs where q: "?ps = q # qs" by (cases ?ps) auto
  then have "q \<in> set ?ps" by simp
  then have mem: "q \<in> set (t_period w1)" "?hit q" by (simp_all add: find_many_def)
  have run: "resolve_open_period c (now w1) w1 = (Inr (fp_id q), w1)" unfolding resolve_open_period_def using q by simp
  have "distinct (map fp_id (t_period w1))" using calendar_period_ids [OF B(1) cal] by (simp add: period_ids_ok_def)
  then have "filter (\<lambda>r. fp_id r = fp_id q) (t_period w1) = [q]" using mem(1) by (rule filter_key)
  moreover have "filter (\<lambda>r. fp_id r = fp_id q \<and> fp_company r = c) (t_period w1) =
      filter (\<lambda>r. fp_company r = c) (filter (\<lambda>r. fp_id r = fp_id q) (t_period w1))" by (simp add: conj_ac)
  ultimately have "find_first (\<lambda>r. fp_id r = fp_id q \<and> fp_company r = c) (t_period w1) = Some q"
    using mem(2) by (intro find_first_filter) simp
  with cal run mem n show thesis by (intro that [of "(fy, per, True)" w1 q]) simp_all
qed

lemma post_two:
  assumes bus: "till_bus bus" and inv: "ledger_inv w"
    and per: "find_first (\<lambda>r. fp_id r = pi_period i \<and> fp_company r = pi_company i) (t_period w) = Some q" "fp_status q = Open"
      "fp_start q \<le> pi_date i" "pi_date i \<le> fp_end q"
    and ls: "pi_lines i = [gl_line a d 0 t, gl_line b 0 d t]" "0 < d" "scale4 d" "live_ids w (pi_company i) {a}" "live_ids w (pi_company i) {b}"
    and op: "unused_operation w (pi_company i) (pi_clientOp i)"
  obtains r w' e where "execute_post bus i w = (Inr r, w')" and "t_entry w' = t_entry w @ [e]" and "je_status e = Posted"
    and "je_company e = pi_company i" and "je_clientOp e = pi_clientOp i" and "je_refType e = pi_refType i" and "je_refId e = pi_refId i"
    and "map (\<lambda>l. (jl_account l, jl_debit l, jl_credit l)) (je_lines e) = [(a, d, 0), (b, 0, d)]" and "till_view w' = till_view w"
    and "ledger_inv w'"
proof -
  have good: "good_lines (pi_lines i)"
    using ls by (auto simp: good_lines_def debit_sum_def credit_sum_def nonzero_line_def readable_def scale4_lines_def)
  then have s4: "scale4_lines (pi_lines i)" by (simp add: good_lines_def)
  have post: "postable w (pi_company i) (pi_date i) (pi_period i) (pi_lines i)"
    using per good ls by (auto simp: postable_def good_lines_def live_ids_def)
  have I: "distinct (map ac_id (t_account w))" "entry_ids_ok w" "entry_numbers_ok w" "balances_ok (t_balance w)"
    using inv by (simp_all add: ledger_inv_def)
  have "ledger_bus bus" using bus by (simp add: till_bus_def)
  from execute_post_run [OF this I post op s4] obtain r w' e n where
    E: "execute_post bus i w = (Inr r, w')" "t_entry w' = t_entry w @ [e]" "posted_row i n (now w) e" by blast
  have "stored_lines (pi_lines i) (je_lines e)" using E(3) by (simp add: posted_row_def)
  from stored_triples [OF this s4] have "map (\<lambda>l. (jl_account l, jl_debit l, jl_credit l)) (je_lines e) = [(a, d, 0), (b, 0, d)]"
    by (simp add: ls)
  with E post_till(1,2) [OF bus inv s4 E(1)] show thesis by (intro that [of r w' e]) (simp_all add: posted_row_def)
qed

lemma one_open_unique:
  assumes "one_open t" and "r \<in> set t" "s \<in> set t" and "open_shift_of wh k c r" "open_shift_of wh k c s"
  shows "r = s"
proof -
  have "length (filter (open_shift_of wh k c) t) \<le> 1" using assms(1) by (simp add: one_open_def)
  moreover have "r \<in> set (filter (open_shift_of wh k c) t)" "s \<in> set (filter (open_shift_of wh k c) t)" using assms by simp_all
  ultimately show ?thesis by (cases "filter (open_shift_of wh k c) t" rule: list.exhaust; cases "tl (filter (open_shift_of wh k c) t)") auto
qed

lemma resolve_system_cong:
  "resolve_system_account c code w = (Inr i, w) \<Longrightarrow> t_account w' = t_account w \<Longrightarrow> resolve_system_account c code w' = (Inr i, w')"
  by (auto simp: resolve_system_account_def bind_def split: option.splits)

lemma resolve_system_live:
  "resolve_system_account c code w = (Inr i, w') \<Longrightarrow> live_ids w c {i}"
  by (cases "find_first (\<lambda>a. ac_code a = code \<and> live_account c a) (t_account w)")
     (auto simp: resolve_system_account_def live_ids_def dest!: find_first_SomeD)

text \<open>What closing does to the shift row, and running the parts before the difference is posted.\<close>

lemma close_prefix:
  assumes inv: "till_inv w" and ready: "books_ready bus w c" and s: "find_open_shift wh user c w = (Inr (Some s), w)"
    and drawer: "resolve_drawer_account c wh (cs_currency s) w = (Inr drawer, w)"
  defines "x \<equiv> expected_closing s (refunded_cash w c (cs_id s))"
  obtains q w2 row where "close_shift bus d user c wh w =
      transaction (\<lambda>_. bind (post_difference bus d user c s drawer (fp_id q) (now w) x (counted d x)) (\<lambda>_. shift_view row) w2) w"
    and "find_first (\<lambda>r. fp_id r = fp_id q \<and> fp_company r = c) (t_period w2) = Some q" and "fp_status q = Open"
    and "fp_start q \<le> now w" and "now w \<le> fp_end q" and "t_entry w2 = t_entry w" and "ledger_inv w2" and "t_account w2 = t_account w"
    and "row = (close_columns d s (now w) x (counted d x) s)\<lparr>cs_version := cs_version s + 1\<rparr>"
    and "row \<in> set (t_shift w2)" and "find_first (open_shift_of wh user c) (t_shift w2) = None"
proof -
  obtain cal w1 q where cal: "ensure_current_calendar c w = (Inr cal, w1)" and period: "resolve_open_period c (now w1) w1 = (Inr (fp_id q), w1)"
    and q: "find_first (\<lambda>r. fp_id r = fp_id q \<and> fp_company r = c) (t_period w1) = Some q" "fp_status q = Open"
      "fp_start q \<le> now w" "now w \<le> fp_end q"
    by (rule period_ready [OF ready])
  note C = calendar_till [OF inv cal]
  have I: "distinct (map cs_id (t_shift w1))" "one_open (t_shift w1)" "ledger_inv w1" using C(1) by (simp_all add: till_inv_def)
  have S: "s \<in> set (t_shift w1)" "cs_company s = c" "open_shift_of wh user c s"
    using find_open_shift_Inr [OF s] C(2) by (simp_all add: till_view_def open_shift_of_def)
  let ?f = "close_columns d s (now w) x (counted d x)"
  let ?g = "\<lambda>r. (?f r)\<lparr>cs_version := cs_version (?f r) + 1\<rparr>"
  define w2 where "w2 = w1\<lparr>t_shift := update_rows (\<lambda>r. cs_id r = cs_id s) ?g (t_shift w1)\<rparr>"
  have upd: "update_shift (cs_id s) ?f c (cs_version s) w1 = (Inr (?g s), w2)"
    using update_shift_run [OF I(1) S(1), of ?f] S(2) by (simp add: w2_def)
  have run: "close_shift bus d user c wh w =
      transaction (\<lambda>_. bind (post_difference bus d user c s drawer (fp_id q) (now w) x (counted d x)) (\<lambda>_. shift_view (?g s)) w2) w"
    using cal period upd drawer s C(4)
    by (simp add: close_shift_def transaction_def bind_def [of "find_open_shift _ _ _"] Let_def x_def [symmetric] counted_def [symmetric])
  have "?g s \<in> set (t_shift w2)" using S(1) by (auto simp: w2_def set_update_rows)
  moreover have "\<not> open_shift_of wh user c r" if r: "r \<in> set (t_shift w2)" for r
  proof
    assume "open_shift_of wh user c r"
    then have "r \<in> set (t_shift w1)" "cs_id r \<noteq> cs_id s" using r by (auto simp: w2_def set_update_rows open_shift_of_def)
    with one_open_unique [OF I(2) _ S(1) _ S(3)] \<open>open_shift_of wh user c r\<close> show False by blast
  qed
  then have "find_first (open_shift_of wh user c) (t_shift w2) = None" by (simp add: find_first_None_iff)
  moreover have "ledger_inv w2" by (rule ledger_inv_cong [OF I(3)]) (use I(3) in \<open>simp_all add: w2_def ledger_inv_def\<close>)
  moreover have "t_account w2 = t_account w" using C(2) by (simp add: w2_def till_view_def)
  ultimately show thesis
    using that [OF run] q C(3) by (simp add: w2_def close_columns_def)
qed

section \<open>Properties\<close>

text \<open>
  Property C16: a till always reconciles with the ledger. In every state reached by opening and closing
  shifts, cash in and cash out --- of any cashiers and companies, keyed or not, successful or not --- the
  journals that refer to a shift have moved the asset accounts by exactly its cash in less its cash out plus
  the difference counted at its close; and no till has two open shifts. The shortage and overage accounts are
  taken not to be assets.
\<close>

theorem reachable_tills_reconcile:
  assumes "till_bus bus" and "till_inv w0" and "till_reachable bus w0 w" and "s \<in> set (t_shift w)"
  shows "drawer_net (asset_ids w) (t_entry w) (cs_id s) = cs_cashIn s - cs_cashOut s + cs_difference s \<and>
    (cs_status s = ShiftOpen \<longrightarrow> (\<forall>r \<in> set (t_shift w). cs_status r = ShiftOpen \<and> cs_warehouse r = cs_warehouse s \<and>
       cs_cashier r = cs_cashier s \<and> cs_company r = cs_company s \<longrightarrow> r = s))"
proof -
  from assms(3) have inv: "till_inv w"
    by induction (auto intro: assms(2) till_step_keeps [OF assms(1)])
  then have "one_open (t_shift w)" by (simp add: till_inv_def)
  then have "r = s" if "cs_status s = ShiftOpen" "r \<in> set (t_shift w)" "cs_status r = ShiftOpen" "cs_warehouse r = cs_warehouse s"
      "cs_cashier r = cs_cashier s" "cs_company r = cs_company s" for r
    using that assms(4) by (intro one_open_unique [of "t_shift w" r s "cs_warehouse s" "cs_cashier s" "cs_company s"])
      (simp_all add: open_shift_of_def)
  moreover have "drawer_net (asset_ids w) (t_entry w) (cs_id s) = shift_books s" using inv assms(4) by (simp add: till_inv_def)
  ultimately show ?thesis by (auto simp: shift_books_def)
qed

text \<open>
  Property C17: closing a shift books exactly the counted difference. With an open current month and the
  accounts resolved, the close succeeds: the expected balance is the opening balance plus cash sales and cash
  in, less cash out and the cash paid back by partial refunds of the shift's sales; a shortage is debited to
  its account and credited to the drawer, an overage the other way round, and no difference posts nothing.
  Afterwards the till has no open shift.
\<close>

theorem closing_books_the_difference:
  assumes "till_bus bus" and "till_inv w" and "books_ready bus w c" and "find_open_shift wh user c w = (Inr (Some s), w)"
    and "resolve_drawer_account c wh (cs_currency s) w = (Inr drawer, w)"
    and "expected = cs_opening s + cs_cashSales s + cs_cashIn s - cs_cashOut s - refunded_cash w c (cs_id s)"
    and "actual = (case cd_actual d of None \<Rightarrow> expected | Some x \<Rightarrow> x)" and "x = round4 \<bar>actual - expected\<bar>"
    and "actual = expected \<or> 0 < x \<and> resolve_system_account c (gap_code (actual - expected)) w = (Inr gap, w)"
  shows "\<exists>b w' row. close_shift bus d user c wh w = (Inr b, w') \<and> row \<in> set (t_shift w') \<and> cs_id row = cs_id s \<and>
    cs_status row = ShiftClosed \<and> cs_closing row = round4 actual \<and> cs_expected row = round4 expected \<and>
    cs_difference row = round4 (actual - expected) \<and> find_first (open_shift_of wh user c) (t_shift w') = None \<and>
    (if actual = expected then t_entry w' = t_entry w
     else \<exists>e. t_entry w' = t_entry w @ [e] \<and> je_status e = Posted \<and> je_company e = c \<and>
       je_refType e = Some ''CASH_SHIFT'' \<and> je_refId e = Some (cs_id s) \<and>
       map (\<lambda>l. (jl_account l, jl_debit l, jl_credit l)) (je_lines e) =
         (if actual < expected then [(gap, x, 0), (drawer, 0, x)] else [(drawer, x, 0), (gap, 0, x)]))"
proof -
  have ex: "expected_closing s (refunded_cash w c (cs_id s)) = expected" "counted d expected = actual"
    unfolding assms(7) by (simp_all add: expected_closing_def counted_def assms(6) split: option.split)
  obtain q w2 row where
    run: "close_shift bus d user c wh w =
      transaction (\<lambda>_. bind (post_difference bus d user c s drawer (fp_id q) (now w) expected actual) (\<lambda>_. shift_view row) w2) w"
    and q: "find_first (\<lambda>r. fp_id r = fp_id q \<and> fp_company r = c) (t_period w2) = Some q" "fp_status q = Open"
      "fp_start q \<le> now w" "now w \<le> fp_end q"
    and w2: "t_entry w2 = t_entry w" "ledger_inv w2" "t_account w2 = t_account w"
    and row: "row = (close_columns d s (now w) expected actual s)\<lparr>cs_version := cs_version s + 1\<rparr>" "row \<in> set (t_shift w2)"
      "find_first (open_shift_of wh user c) (t_shift w2) = None"
    by (rule close_prefix [OF assms(2-5), of d, unfolded ex])
  have cols: "cs_id row = cs_id s" "cs_status row = ShiftClosed" "cs_closing row = round4 actual" "cs_expected row = round4 expected"
    "cs_difference row = round4 (actual - expected)"
    by (simp_all add: row(1) close_columns_def)
  show ?thesis
  proof (cases "actual = expected")
    case True
    then have "close_shift bus d user c wh w = (Inr (shift_entity (dec_str w2) row), w2)"
      by (simp add: run post_difference_def transaction_def shift_view_def)
    with row w2 cols True show ?thesis by auto
  next
    case False
    let ?i = "gap_input d user c s drawer (fp_id q) (now w) gap (actual - expected)"
    let ?a = "if actual < expected then gap else drawer" and ?b = "if actual < expected then drawer else gap"
    have gap: "0 < x" "resolve_system_account c (gap_code (actual - expected)) w = (Inr gap, w)" using assms(9) False by simp_all
    have sys: "resolve_system_account c (gap_code (actual - expected)) w2 = (Inr gap, w2)"
      by (rule resolve_system_cong [OF gap(2) w2(3)])
    have live: "live_ids w2 c {gap}" "live_ids w2 c {drawer}"
      using resolve_system_live [OF gap(2)] resolve_drawer_Inr(3) [OF assms(5)] by (simp_all add: live_ids_def w2(3))
    have ls: "pi_lines ?i = [gl_line ?a x 0 (if actual < expected then ''Cash shortage on shift close'' else ''Cash overage on shift close''),
        gl_line ?b 0 x (if actual < expected then ''Cash shortage on shift close'' else ''Cash overage on shift close'')]"
      by (simp add: gap_input_def gap_lines_def Let_def assms(8))
    have i: "pi_company ?i = c" "pi_period ?i = fp_id q" "pi_date ?i = now w" "pi_clientOp ?i = None"
      "pi_refType ?i = Some ''CASH_SHIFT''" "pi_refId ?i = Some (cs_id s)"
      by (simp_all add: gap_input_def Let_def CASH_SHIFT_POSTING_REFERENCE_TYPE_def)
    obtain r w3 e where E: "execute_post bus ?i w2 = (Inr r, w3)" "t_entry w3 = t_entry w2 @ [e]" "je_status e = Posted"
      "je_company e = c" "je_refType e = Some ''CASH_SHIFT''" "je_refId e = Some (cs_id s)"
      "map (\<lambda>l. (jl_account l, jl_debit l, jl_credit l)) (je_lines e) = [(?a, x, 0), (?b, 0, x)]" "till_view w3 = till_view w2"
      by (rule post_two [OF assms(1) w2(2), of ?i q ?a x _ ?b])
         (use q ls live i gap(1) in \<open>auto simp: assms(8) unused_operation_def\<close>)
    obtain a where aud: "gap_audit user c s expected actual r w3 = (Inr (), w3\<lparr>t_audit := a\<rparr>)" using gap_audit_run by blast
    have "post_difference bus d user c s drawer (fp_id q) (now w) expected actual w2 = (Inr (), w3\<lparr>t_audit := a\<rparr>)"
      using False sys E(1) aud by (simp add: post_difference_def Let_def gap_code_def bind_def)
    then have "close_shift bus d user c wh w = (Inr (shift_entity (dec_str w3) row), w3\<lparr>t_audit := a\<rparr>)"
      by (simp add: run transaction_def shift_view_def)
    moreover have "t_shift w3 = t_shift w2" using E(8) by (simp add: till_view_def)
    ultimately show ?thesis using E row w2(1) cols False by auto
  qed
qed

text \<open>
  Property C18: cash brought into or taken out of the till is booked once. The movement raises the shift's
  counter by the amount and posts one balanced entry between the drawer and the counterpart, on the sides of
  its kind; and any later movement without a key under the same operation identity --- by anyone, at any
  till of the company, with any amount --- fails and changes nothing.
\<close>

theorem cash_movement_is_booked_once:
  assumes "till_bus bus" and "till_inv w" and "books_ready bus w c" and "find_open_shift wh user c w = (Inr (Some s), w)"
    and "resolve_drawer_account c wh (cs_currency s) w = (Inr drawer, w)"
    and "resolve_counterpart_account c (ci_counterpart d) drawer w = (Inr counter, w)"
    and "x = round4 (ci_amount d)" and "0 < x" and "ci_clientOp d = Some op" and "unused_operation w c (Some op)"
  shows "\<exists>b w' row e. cash_mutation bus d user c wh k None w = (Inr (200, b), w') \<and> row \<in> set (t_shift w') \<and>
    cs_id row = cs_id s \<and> moved k row = moved k s + x \<and> t_entry w' = t_entry w @ [e] \<and> je_status e = Posted \<and>
    map (\<lambda>l. (jl_account l, jl_debit l, jl_credit l)) (je_lines e) =
      (case k of CashIn \<Rightarrow> [(drawer, x, 0), (counter, 0, x)] | CashOut \<Rightarrow> [(counter, x, 0), (drawer, 0, x)]) \<and>
    (\<forall>d' user' wh' k' r v. ci_clientOp d' = Some op \<longrightarrow> cash_mutation bus d' user' c wh' k' None w' = (r, v) \<longrightarrow>
       (\<exists>err. r = Inl err) \<and> v = w')"
proof -
  obtain cal w1 q where cal: "ensure_current_calendar c w = (Inr cal, w1)" and period: "resolve_open_period c (now w1) w1 = (Inr (fp_id q), w1)"
    and q: "find_first (\<lambda>r. fp_id r = fp_id q \<and> fp_company r = c) (t_period w1) = Some q" "fp_status q = Open"
      "fp_start q \<le> now w" "now w \<le> fp_end q"
    by (rule period_ready [OF assms(3)])
  note C = calendar_till [OF assms(2) cal]
  have I: "distinct (map cs_id (t_shift w1))" "ledger_inv w1" using C(1) by (simp_all add: till_inv_def)
  have S: "s \<in> set (t_shift w1)" "cs_company s = c" using find_open_shift_Inr [OF assms(4)] C(2) by (simp_all add: till_view_def)
  let ?f = "cash_change k d s"
  let ?g = "\<lambda>r. (?f r)\<lparr>cs_version := cs_version (?f r) + 1\<rparr>"
  define w2 where "w2 = w1\<lparr>t_shift := update_rows (\<lambda>r. cs_id r = cs_id s) ?g (t_shift w1)\<rparr>"
  have fid: "cs_id (?f r) = cs_id r" for r by (simp add: cash_change_def set_moved_def split: cash_kind.split)
  have upd: "update_shift (cs_id s) ?f c (cs_version s) w1 = (Inr (?g s), w2)"
    using update_shift_run [OF I(1) S(1), of ?f] S(2) fid by (simp add: w2_def)
  have led: "ledger_inv w2" by (rule ledger_inv_cong [OF I(2)]) (use I(2) in \<open>simp_all add: w2_def ledger_inv_def\<close>)
  have acc: "t_account w2 = t_account w" "t_entry w2 = t_entry w" using C(2,3) by (simp_all add: w2_def till_view_def)
  let ?i = "cash_input d user c k None s (fp_id q) (now w) drawer counter"
  let ?a = "case k of CashIn \<Rightarrow> drawer | CashOut \<Rightarrow> counter" and ?b = "case k of CashIn \<Rightarrow> counter | CashOut \<Rightarrow> drawer"
  let ?t = "''Cash '' @ kind_name k @ '' '' @ to_fixed4 (ci_amount d)"
  have ids: "distinct (map ac_id (t_account w))" using assms(2) by (simp add: till_inv_def ledger_inv_def)
  have live: "live_ids w2 c {?a}" "live_ids w2 c {?b}"
    using resolve_counterpart_Inr(3) [OF assms(6) ids] resolve_drawer_Inr(3) [OF assms(5)]
    by (simp_all add: live_ids_def acc split: cash_kind.split)
  have ls: "pi_lines ?i = [gl_line ?a x 0 ?t, gl_line ?b 0 x ?t]"
    by (simp add: cash_input_def cash_lines_def Let_def assms(7) split: cash_kind.split)
  have i: "pi_company ?i = c" "pi_period ?i = fp_id q" "pi_date ?i = now w" "pi_clientOp ?i = Some op"
    by (simp_all add: cash_input_def assms(9))
  have used: "unused_operation w2 (pi_company ?i) (pi_clientOp ?i)" using assms(10) by (simp add: i unused_operation_def acc)
  obtain r w3 e where E: "execute_post bus ?i w2 = (Inr r, w3)" "t_entry w3 = t_entry w2 @ [e]" "je_status e = Posted"
    "je_company e = c" "je_clientOp e = Some op"
    "map (\<lambda>l. (jl_account l, jl_debit l, jl_credit l)) (je_lines e) = [(?a, x, 0), (?b, 0, x)]" "till_view w3 = till_view w2" "ledger_inv w3"
    by (rule post_two [OF assms(1) led, of ?i q ?a x ?t ?b])
       (use q ls live i assms(7,8) used in \<open>auto simp: w2_def\<close>)
  obtain a where aud: "cash_audit d user c k None s drawer counter r w3 = (Inr (), w3\<lparr>t_audit := a\<rparr>)" using cash_audit_run by blast
  let ?w = "w3\<lparr>t_audit := a\<rparr>"
  have pos: "\<not> (ci_amount d < 0 \<or> ci_amount d = 0)"
  proof
    assume "ci_amount d < 0 \<or> ci_amount d = 0"
    then have "round4 (ci_amount d) \<le> 0" using round4_nonneg [of "- ci_amount d"] by (auto simp: round4_def sgn_if)
    with assms(7,8) show False by simp
  qed
  have "apply_cash_mutation bus d user c wh k None w = (Inr (shift_entity (dec_str w3) (?g s)), ?w)"
    using assms(4-6) pos cal period C(4) upd E(1) aud
    by (simp add: apply_cash_mutation_def bind_def [of "find_open_shift _ _ _"] Let_def shift_view_def)
  then have run: "cash_mutation bus d user c wh k None w = (Inr (200, shift_entity (dec_str w3) (?g s)), ?w)"
    by (simp add: cash_mutation_def run_with_idempotency_def transaction_def)
  have old: "shift_sound s" using C(1) S(1) by (simp add: till_inv_def)
  have mv: "moved k (?g s) = moved k s + x"
    using old pos assms(7) round4_add [of "moved k s" "ci_amount d"]
    by (cases k) (simp_all add: cash_change_def set_moved_def moved_def shift_sound_def)
  have again: "(\<exists>err. r' = Inl err) \<and> v = ?w"
    if op: "ci_clientOp d' = Some op" and run': "cash_mutation bus d' user' c wh' k' None ?w = (r', v)" for d' user' wh' k' r' v
  proof -
    have "apply_cash_mutation bus d' user' c wh' k' None ?w \<noteq> (Inr b, v')" for b v'
    proof
      assume "apply_cash_mutation bus d' user' c wh' k' None ?w = (Inr b, v')"
      then obtain s' drawer' counter' cal' v1 p' y v2 post' v3 a' where
        V: "ensure_current_calendar c ?w = (Inr cal', v1)"
        "update_shift (cs_id s') (cash_change k' d' s') c (cs_version s') v1 = (Inr y, v2)"
        "execute_post bus (cash_input d' user' c k' None s' p' (now v1) drawer' counter') v2 = (Inr post', v3)"
        by (rule cash_run_Inr)
      have v2: "t_entry v2 = t_entry v1" "t_account v2 = t_account v1"
        using cas_write_Inr [OF V(2) [unfolded update_shift_def]] by simp_all
      have v1: "t_entry v1 = t_entry ?w" "t_account v1 = t_account ?w" using calendar_books [OF V(1)] by simp_all
      have "distinct (map ac_id (t_account v2))" using E(8) by (simp add: v1 v2 ledger_inv_def)
      from execute_post_Inr(2) [OF this V(3)] show False
        using E(2,4,5) by (auto simp: unused_operation_def v1 v2 cash_input_def op)
    qed
    then obtain err v' where "apply_cash_mutation bus d' user' c wh' k' None ?w = (Inl err, v')"
      by (metis surj_pair sum.exhaust)
    then show ?thesis using run' by (auto simp: cash_mutation_def run_with_idempotency_def transaction_def)
  qed
  have row: "?g s \<in> set (t_shift ?w)" using S(1) E(7) by (auto simp: till_view_def w2_def set_update_rows)
  have sides: "map (\<lambda>l. (jl_account l, jl_debit l, jl_credit l)) (je_lines e) =
      (case k of CashIn \<Rightarrow> [(drawer, x, 0), (counter, 0, x)] | CashOut \<Rightarrow> [(counter, x, 0), (drawer, 0, x)])"
    using E(6) by (cases k) simp_all
  show ?thesis
    by (intro exI [of _ "shift_entity (dec_str w3) (?g s)"] exI [of _ ?w] exI [of _ "?g s"] exI [of _ e] conjI)
       (use run row mv sides E(2,3) acc again fid in \<open>simp_all\<close>)
qed

text \<open>
  A count that differs from the expected balance by less than half of the last stored digit can never be
  closed: the difference is not zero, but its amount is posted as 0.0000, which the validator refuses.
\<close>

theorem tiny_difference_cannot_be_closed:
  assumes "till_inv w" and "find_open_shift wh user c w = (Inr (Some s), w)"
    and "cd_actual d = Some actual" and "actual \<noteq> expected_closing s (refunded_cash w c (cs_id s))"
    and "round4 \<bar>actual - expected_closing s (refunded_cash w c (cs_id s))\<bar> = 0"
  shows "\<exists>e. close_shift bus d user c wh w = (Inl e, w)"
proof -
  have "close_shift bus d user c wh w \<noteq> (Inr b, w')" for b w'
  proof
    assume "close_shift bus d user c wh w = (Inr b, w')"
    then obtain s' drawer cal w1 period x w2 where
      R: "find_open_shift wh user c w = (Inr (Some s'), w)" "ensure_current_calendar c w = (Inr cal, w1)"
      "update_shift (cs_id s') (close_columns d s' (now w1) (expected_closing s' (refunded_cash w c (cs_id s')))
        (counted d (expected_closing s' (refunded_cash w c (cs_id s'))))) c (cs_version s') w1 = (Inr x, w2)"
      "post_difference bus d user c s' drawer period (now w1) (expected_closing s' (refunded_cash w c (cs_id s')))
        (counted d (expected_closing s' (refunded_cash w c (cs_id s')))) w2 = (Inr (), w')"
      by (rule close_run_Inr)
    have s': "s' = s" using R(1) assms(2) by simp
    define gap where "gap = actual - expected_closing s (refunded_cash w c (cs_id s))"
    have z: "gap \<noteq> 0" "round4 \<bar>gap\<bar> = 0" using assms(4,5) by (simp_all add: gap_def)
    obtain g posted w3 where post: "execute_post bus (gap_input d user c s drawer period (now w1) g gap) w2 = (Inr posted, w3)"
      using post_difference_Inr [OF R(4)] assms(3) z(1) by (auto simp: s' counted_def gap_def)
    have "t_account w2 = t_account w1" using cas_write_Inr [OF R(3) [unfolded update_shift_def]] by simp
    moreover have "distinct (map ac_id (t_account w1))" using calendar_till(1) [OF assms(1) R(2)] by (simp add: till_inv_def ledger_inv_def)
    ultimately have "\<forall>l \<in> set (pi_lines (gap_input d user c s drawer period (now w1) g gap)). nonzero_line l"
      using execute_post_Inr(1) [OF _ post] by (simp add: postable_def)
    then show False using z(2) by (auto simp: gap_input_def gap_lines_def Let_def nonzero_line_def readable_def split: if_splits)
  qed
  then obtain e w' where "close_shift bus d user c wh w = (Inl e, w')" by (metis (no_types) surj_pair sum.exhaust)
  then show ?thesis unfolding close_shift_def by (auto dest: transaction_rollback)
qed

section \<open>Witnesses\<close>

definition demo_shift :: shift_row where
  "demo_shift = \<lparr>cs_id = ''T'', cs_company = ''C'', cs_warehouse = ''W'', cs_cashier = ''U'', cs_status = ShiftOpen, cs_currency = ''KZT'',
     cs_openedAt = 0, cs_closedAt = None, cs_opening = 100, cs_closing = 100, cs_cashSales = 20, cs_cardSales = 0, cs_qrSales = 0,
     cs_bankSales = 0, cs_mobileSales = 0, cs_totalSales = 20, cs_cashIn = 0, cs_cashOut = 0, cs_expected = 100, cs_difference = 0,
     cs_notes = None, cs_version = 1, cs_createdAt = 0\<rparr>"

definition demo_till :: world where
  "demo_till = empty_world\<lparr>now := 5, t_shift := [demo_shift],
     t_warehouse := [\<lparr>wh_id = ''W'', wh_company = ''C'', wh_active = True, wh_deleted = None, wh_version = 0\<rparr>],
     t_account := [demo_account ''A'' ''1010'' ASSET, demo_account ''S'' ''6200'' EXPENSE, demo_account ''O'' ''4210'' REVENUE,
       demo_account ''X'' ''7000'' EXPENSE]\<rparr>"

definition demo_cash :: cash_dto where
  "demo_cash = \<lparr>ci_amount = 30, ci_reason = Some ''float'', ci_counterpart = Some ''X'', ci_clientOp = Some ''E''\<rparr>"

lemma demo_till_inv: "till_inv demo_till" and demo_till_ready: "books_ready (\<lambda>_. None) demo_till c"
proof -
  have "fresh_books demo_till"
    using books0_fresh by (simp add: fresh_books_def demo_till_def books0_def empty_world_def demo_account_def)
  then have inj: "inj (uuid_gen demo_till)" and "ledger_reachable (\<lambda>_. None) demo_till"
    by (simp_all add: fresh_books_def ledger_reachable.start)
  then have L: "ledger_inv demo_till" using ledger_reachable_inv ledger_bus_empty by blast
  then show "books_ready (\<lambda>_. None) demo_till c"
    using inj ledger_bus_empty
    by (simp add: books_ready_def period_ids_ok_def month_open_def demo_till_def empty_world_def uuid_fresh_def find_first_def)
  have "replicate n (CHR ''u'') \<noteq> ''T''" for n by (cases n) simp_all
  then have "uuid_fresh demo_till {''T''}" using inj by (simp add: uuid_fresh_def demo_till_def empty_world_def)
  moreover have "scale4 (100 :: decimal)" by code_simp
  ultimately show "till_inv demo_till"
    using L shop_scale4
    by (simp add: till_inv_def demo_till_def gap_accounts_ok_def one_open_def demo_shift_def empty_world_def demo_account_def
        SHORTAGE_CODE_def OVERAGE_CODE_def shift_sound_def shift_books_def)
qed

lemma demo_till_facts:
  "find_open_shift ''W'' ''U'' ''C'' demo_till = (Inr (Some demo_shift), demo_till)"
  "resolve_drawer_account ''C'' ''W'' (cs_currency demo_shift) demo_till = (Inr ''A'', demo_till)"
  "resolve_counterpart_account ''C'' (ci_counterpart demo_cash) ''A'' demo_till = (Inr ''X'', demo_till)"
  "resolve_system_account ''C'' (gap_code (- 2)) demo_till = (Inr ''S'', demo_till)"
  "refunded_cash demo_till ''C'' ''T'' = 0" "t_entry demo_till = []"
  by (simp_all add: demo_till_def demo_shift_def demo_cash_def empty_world_def find_open_shift_def open_shift_of_def resolve_drawer_account_def
      live_registers_def drawer_or_fallback_def DRAWER_FALLBACK_CODE_def demo_account_def live_account_def assert_drawer_account_def
      resolve_counterpart_account_def FORBIDDEN_COUNTERPART_CODES_def resolve_system_account_def gap_code_def SHORTAGE_CODE_def
      refunded_cash_def partial_cash_refunds_def find_many_def truthy_def)

lemma cash_movement_is_booked_once_witness:
  "\<exists>b w' e. cash_mutation (\<lambda>_. None) demo_cash ''U'' ''C'' ''W'' CashIn None demo_till = (Inr (200, b), w') \<and> t_entry w' = [e] \<and>
    map (\<lambda>l. (jl_account l, jl_debit l, jl_credit l)) (je_lines e) = [(''A'', 30, 0), (''X'', 0, 30)] \<and>
    snd (cash_mutation (\<lambda>_. None) (demo_cash\<lparr>ci_amount := 7\<rparr>) ''V'' ''C'' ''W2'' CashOut None w') = w'"
proof -
  have r: "round4 (30 :: decimal) = 30" by code_simp
  have "unused_operation demo_till ''C'' (Some ''E'')" by (simp add: unused_operation_def demo_till_facts)
  from cash_movement_is_booked_once [OF till_bus_empty demo_till_inv demo_till_ready demo_till_facts(1-3) refl _ _ this, where k = CashIn] r
  obtain b w' row e where E: "cash_mutation (\<lambda>_. None) demo_cash ''U'' ''C'' ''W'' CashIn None demo_till = (Inr (200, b), w')"
    "t_entry w' = [e]" "map (\<lambda>l. (jl_account l, jl_debit l, jl_credit l)) (je_lines e) = [(''A'', 30, 0), (''X'', 0, 30)]"
    "\<forall>d' user' wh' k' r v. ci_clientOp d' = Some ''E'' \<longrightarrow> cash_mutation (\<lambda>_. None) d' user' ''C'' wh' k' None w' = (r, v) \<longrightarrow>
       (\<exists>err. r = Inl err) \<and> v = w'"
    by (auto simp: demo_cash_def demo_till_facts)
  have op: "ci_clientOp (demo_cash\<lparr>ci_amount := 7\<rparr>) = Some ''E''" by (simp add: demo_cash_def)
  have "snd (cash_mutation (\<lambda>_. None) (demo_cash\<lparr>ci_amount := 7\<rparr>) ''V'' ''C'' ''W2'' CashOut None w') = w'"
    using E(4) [rule_format, OF op surjective_pairing] by simp
  with E(1-3) show ?thesis by (intro exI [of _ b] exI [of _ w'] exI [of _ e] conjI)
qed

lemma closing_books_the_difference_witness:
  "\<exists>b w' e. close_shift (\<lambda>_. None) \<lparr>cd_actual = Some 118, cd_notes = None\<rparr> ''U'' ''C'' ''W'' demo_till = (Inr b, w') \<and> t_entry w' = [e] \<and>
    map (\<lambda>l. (jl_account l, jl_debit l, jl_credit l)) (je_lines e) = [(''S'', 2, 0), (''A'', 0, 2)]"
proof -
  have r: "round4 (2 :: decimal) = 2" by code_simp
  have x: "(120 :: decimal) = cs_opening demo_shift + cs_cashSales demo_shift + cs_cashIn demo_shift - cs_cashOut demo_shift -
      refunded_cash demo_till ''C'' (cs_id demo_shift)"
    "cs_id demo_shift = ''T''"
    by (simp_all add: demo_shift_def demo_till_facts)
  let ?d = "\<lparr>cd_actual = Some 118, cd_notes = None\<rparr>"
  have count: "(118 :: decimal) = (case cd_actual ?d of None \<Rightarrow> 120 | Some x \<Rightarrow> x)" "(2 :: decimal) = round4 \<bar>118 - 120\<bar>"
    using r by simp_all
  have gap: "(118 :: decimal) = 120 \<or> 0 < (2 :: decimal) \<and> resolve_system_account ''C'' (gap_code (118 - 120)) demo_till = (Inr ''S'', demo_till)"
    using demo_till_facts(4) by simp
  from closing_books_the_difference [OF till_bus_empty demo_till_inv demo_till_ready demo_till_facts(1,2) x(1) count gap]
  obtain b w' where "close_shift (\<lambda>_. None) ?d ''U'' ''C'' ''W'' demo_till = (Inr b, w')"
    "if (118 :: decimal) = 120 then t_entry w' = t_entry demo_till
     else \<exists>e. t_entry w' = t_entry demo_till @ [e] \<and> je_status e = Posted \<and> je_company e = ''C'' \<and>
       je_refType e = Some ''CASH_SHIFT'' \<and> je_refId e = Some (cs_id demo_shift) \<and>
       map (\<lambda>l. (jl_account l, jl_debit l, jl_credit l)) (je_lines e) =
         (if (118 :: decimal) < 120 then [(''S'', 2, 0), (''A'', 0, 2)] else [(''A'', 2, 0), (''S'', 0, 2)])"
    by (elim exE conjE) (rule that)
  moreover from this(2) obtain e where "t_entry w' = [e]"
    "map (\<lambda>l. (jl_account l, jl_debit l, jl_credit l)) (je_lines e) = [(''S'', 2, 0), (''A'', 0, 2)]"
    by (auto simp: demo_till_facts(6))
  ultimately show ?thesis by (intro exI [of _ b] exI [of _ w'] exI [of _ e] conjI)
qed

definition demo_open :: open_dto where
  "demo_open = \<lparr>od_warehouse = ''W'', od_opening = 50, od_currency = Some ''KZT'', od_notes = None\<rparr>"

lemma reachable_tills_reconcile_witness:
  "\<exists>b w' s. open_shift demo_open ''V'' ''C'' demo_till = (Inr b, w') \<and> s \<in> set (t_shift w') \<and> cs_opening s = 100 \<and>
    drawer_net (asset_ids w') (t_entry w') (cs_id s) = cs_cashIn s - cs_cashOut s + cs_difference s"
proof -
  have "\<not> isl (fst (open_shift demo_open ''V'' ''C'' demo_till)) \<and> hd (t_shift (snd (open_shift demo_open ''V'' ''C'' demo_till))) = demo_shift \<and>
      t_shift (snd (open_shift demo_open ''V'' ''C'' demo_till)) \<noteq> []" by code_simp
  then obtain b w' where run: "open_shift demo_open ''V'' ''C'' demo_till = (Inr b, w')" and s: "demo_shift \<in> set (t_shift w')"
    by (metis run_succeeds list.set_sel(1) snd_conv)
  have "till_reachable (\<lambda>_. None) demo_till w'" by (rule till_next [OF till_start till_opened [OF run]])
  from reachable_tills_reconcile [OF till_bus_empty demo_till_inv this s] have
    "drawer_net (asset_ids w') (t_entry w') (cs_id demo_shift) = cs_cashIn demo_shift - cs_cashOut demo_shift + cs_difference demo_shift"
    by (rule conjunct1)
  moreover have "cs_opening demo_shift = 100" by (simp add: demo_shift_def)
  ultimately show ?thesis using run s by (intro exI [of _ b] exI [of _ w'] exI [of _ demo_shift] conjI)
qed

end
