(* ===== verification/FiscalClose.thy ===== *)
theory FiscalClose
  imports CashShift
begin

text \<open>
  The close of a fiscal year, \<^verbatim>\<open>finance/services/fiscal-year-close.service.ts\<close>: the claim on the year, the close
  of its periods, the closing journal that empties the income statement into retained earnings, and the
  marking of the year. Then what the close does to the books.
\<close>

section \<open>Retained earnings\<close>

definition RETAINED_EARNINGS_CODE :: string where
  "RETAINED_EARNINGS_CODE = ''3200''"

definition assert_valid_retained_earnings_account :: "account_row \<Rightarrow> unit wtx" where
  "assert_valid_retained_earnings_account a =
     bind (require (ac_type a = EQUITY) (BadRequest ''Retained earnings account must be of type EQUITY'')) (\<lambda>_.
     require (ac_normal a = CreditNormal) (BadRequest ''Retained earnings account must have a CREDIT normal balance''))"

definition retained_earnings_account :: "string \<Rightarrow> fiscal_year_row \<Rightarrow> string wtx" where
  "retained_earnings_account c fy =
     (case truthy (fy_retained fy) of
       Some i \<Rightarrow>
         bind (ask (\<lambda>w. find_first (\<lambda>a. ac_id a = i \<and> live_account c a) (t_account w))) (\<lambda>found.
         bind (require_some found (BadRequest ''The configured retained earnings account was not found'')) (\<lambda>a.
         bind (assert_valid_retained_earnings_account a) (\<lambda>_. ret (ac_id a))))
     | None \<Rightarrow>
         bind (ask (\<lambda>w. find_first (\<lambda>a. ac_code a = RETAINED_EARNINGS_CODE \<and> live_account c a) (t_account w))) (\<lambda>found.
         bind (require_some found (BadRequest ''No retained earnings account found'')) (\<lambda>a.
         bind (assert_valid_retained_earnings_account a) (\<lambda>_. ret (ac_id a)))))"

definition income_accounts :: "string \<Rightarrow> account_row list wtx" where
  "income_accounts c = ask (\<lambda>w.
     find_many (\<lambda>a. ac_type a = REVENUE \<and> live_account c a) (t_account w) @
     find_many (\<lambda>a. ac_type a = EXPENSE \<and> live_account c a) (t_account w))"

section \<open>The periods of the year\<close>

primrec close_periods :: "string \<Rightarrow> string \<Rightarrow> period_row list \<Rightarrow> string list wtx" where
  "close_periods c user [] = ret []"
| "close_periods c user (p # ps) =
     (if fp_status p \<noteq> Open then close_periods c user ps
      else
        bind (ask now) (\<lambda>clock.
        bind (update_period (fp_id p) (\<lambda>r. r\<lparr>fp_status := Closed, fp_closedAt := Some clock, fp_closedBy := Some user\<rparr>)
                c (fp_version p)) (\<lambda>_.
        bind (close_periods c user ps) (\<lambda>rest. ret (fp_id p # rest)))))"

definition posting_period :: "period_row list \<Rightarrow> period_row option" where
  "posting_period periods = (case rev (filter (\<lambda>p. fp_status p = Open) periods) of [] \<Rightarrow> None | p # _ \<Rightarrow> Some p)"

section \<open>The closing journal\<close>

text \<open>The balances grouped by account, credit less debit.\<close>

definition signed_nets :: "string \<Rightarrow> string list \<Rightarrow> string list \<Rightarrow> (string \<times> decimal) list wtx" where
  "signed_nets c accounts periods = ask (\<lambda>w.
     let rows = find_many (\<lambda>b. ab_company b = c \<and> ab_account b \<in> set accounts \<and> ab_period b \<in> set periods) (t_balance w) in
     map (\<lambda>a. (a, (\<Sum>b\<leftarrow>filter (\<lambda>b. ab_account b = a) rows. ab_closingCredit b) -
                   (\<Sum>b\<leftarrow>filter (\<lambda>b. ab_account b = a) rows. ab_closingDebit b))) (remdups (map ab_account rows)))"

definition closing_line :: "(string \<times> decimal) list \<Rightarrow> account_row \<Rightarrow> post_line list" where
  "closing_line nets a =
     (case map_of nets (ac_id a) of
       None \<Rightarrow> []
     | Some n \<Rightarrow>
         if n = 0 then []
         else [gl_line (ac_id a) (if 0 < n then round4 n else 0) (if n < 0 then round4 \<bar>n\<bar> else 0)
                (''Close '' @ (if ac_type a = REVENUE then ''revenue'' else ''expense'') @ '': '' @ ac_name a)])"

definition retained_line :: "string \<Rightarrow> decimal \<Rightarrow> string \<Rightarrow> post_line list" where
  "retained_line i profit year =
     (if 0 < profit then [gl_line i 0 (round4 profit) (''Net profit transfer for year '' @ year)]
      else if profit < 0 then [gl_line i (round4 \<bar>profit\<bar>) 0 (''Net loss transfer for year '' @ year)]
      else [])"

definition closing_lines :: "(string \<times> decimal) list \<Rightarrow> account_row list \<Rightarrow> string \<Rightarrow> string \<Rightarrow> post_line list" where
  "closing_lines nets accounts i year =
     concat (map (closing_line nets) accounts) @ retained_line i (\<Sum>n\<leftarrow>nets. snd n) year"

definition closing_input :: "string \<Rightarrow> string \<Rightarrow> string \<Rightarrow> string \<Rightarrow> period_row \<Rightarrow> post_line list \<Rightarrow> post_input" where
  "closing_input c user fy year p lines =
     \<lparr>pi_company = c, pi_period = fp_id p, pi_date = fp_end p,
      pi_description = Some (''Fiscal year '' @ year @ '' closing entry''), pi_refType = Some ''FISCAL_YEAR_CLOSE'',
      pi_refId = Some fy, pi_createdBy = user, pi_clientOp = None, pi_lines = lines\<rparr>"

definition post_closing ::
  "event_bus \<Rightarrow> string \<Rightarrow> string \<Rightarrow> string \<Rightarrow> string \<Rightarrow> period_row option \<Rightarrow> post_line list \<Rightarrow> string wtx" where
  "post_closing bus c user fy year posting lines =
     (if lines = [] then ret ''''
      else
        bind (require_some posting (BadRequest ''Cannot close fiscal year: all periods are already CLOSED'')) (\<lambda>p.
        bind (execute_post bus (closing_input c user fy year p lines)) (\<lambda>result.
        ret (gp_id result))))"

section \<open>The close\<close>

record year_close_result =
  yc_fiscalYear :: string
  yc_year :: int
  yc_closedAt :: int
  yc_entry :: string
  yc_periods :: "string list"

definition claim_year :: "fiscal_year_row \<Rightarrow> string \<Rightarrow> unit wtx" where
  "claim_year fy c =
     bind (ask (\<lambda>w. count_rows (\<lambda>r. fy_id r = fy_id fy \<and> fy_company r = c \<and> \<not> fy_closed r) (t_fiscal_year w))) (\<lambda>claimed.
     bind (change (\<lambda>w. w\<lparr>t_fiscal_year := update_rows (\<lambda>r. fy_id r = fy_id fy \<and> fy_company r = c \<and> \<not> fy_closed r)
       (\<lambda>r. r\<lparr>fy_version := fy_version r + 1\<rparr>) (t_fiscal_year w)\<rparr>)) (\<lambda>_.
     require (claimed \<noteq> 0) (Conflict ''Fiscal year is already closed or is being closed concurrently'')))"

definition mark_year :: "fiscal_year_row \<Rightarrow> (fiscal_year_row \<Rightarrow> fiscal_year_row) \<Rightarrow> unit wtx" where
  "mark_year fy f =
     bind (ask (\<lambda>w. find_first (\<lambda>r. fy_id r = fy_id fy) (t_fiscal_year w))) (\<lambda>found.
     bind (require_some found RecordMissing) (\<lambda>_.
     change (\<lambda>w. w\<lparr>t_fiscal_year := update_rows (\<lambda>r. fy_id r = fy_id fy) f (t_fiscal_year w)\<rparr>)))"

definition closed_year :: "string \<Rightarrow> int \<Rightarrow> fiscal_year_row \<Rightarrow> fiscal_year_row" where
  "closed_year user clock r =
     r\<lparr>fy_closed := True, fy_closedAt := Some clock, fy_closedBy := Some user, fy_version := fy_version r + 1\<rparr>"

definition close_audit :: "string \<Rightarrow> string \<Rightarrow> string \<Rightarrow> string \<Rightarrow> nat \<Rightarrow> unit wtx" where
  "close_audit c user fy entry n =
     audit_log \<lparr>au_company = Some c, au_user = user, au_entity = ''FiscalYear'', au_entityId = fy, au_action = ''CLOSE'',
       au_before = Some (JObj [(''isClosed'', JBool False)]),
       au_after = Some (JObj [(''isClosed'', JBool True), (''retainedEarningsEntryId'', JStr entry), (''closedPeriods'', jint (int n))])\<rparr>"

text \<open>A year with income accounts: the journal, the posting period last, the mark and the audit record.\<close>

definition close_books ::
  "event_bus \<Rightarrow> string \<Rightarrow> int \<Rightarrow> string \<Rightarrow> fiscal_year_row \<Rightarrow> period_row list \<Rightarrow> string \<Rightarrow> account_row list \<Rightarrow> year_close_result wtx" where
  "close_books bus c year user fy periods re accounts =
     (let posting = posting_period periods in
      bind (close_periods c user (case posting of None \<Rightarrow> periods | Some p \<Rightarrow> filter (\<lambda>r. fp_id r \<noteq> fp_id p) periods)) (\<lambda>ids.
      bind (signed_nets c (map ac_id accounts) (map fp_id periods)) (\<lambda>nets.
      bind (ask num_str) (\<lambda>ns.
      bind (post_closing bus c user (fy_id fy) (ns (of_int year)) posting (closing_lines nets accounts re (ns (of_int year)))) (\<lambda>entry.
      bind (case posting of None \<Rightarrow> ret [] | Some p \<Rightarrow> close_periods c user [p]) (\<lambda>last.
      bind (ask now) (\<lambda>clock.
      bind (mark_year fy (\<lambda>r. (closed_year user clock r)\<lparr>fy_retained := Some re\<rparr>)) (\<lambda>_.
      bind (close_audit c user (fy_id fy) entry (length (ids @ last))) (\<lambda>_.
      ret \<lparr>yc_fiscalYear = fy_id fy, yc_year = year, yc_closedAt = clock, yc_entry = entry, yc_periods = ids @ last\<rparr>)))))))))"

definition close_fiscal_year :: "event_bus \<Rightarrow> string \<Rightarrow> int \<Rightarrow> string \<Rightarrow> year_close_result wtx" where
  "close_fiscal_year bus c year user = transaction (
     bind (ask (\<lambda>w. find_first (\<lambda>r. fy_company r = c \<and> fy_year r = year) (t_fiscal_year w))) (\<lambda>found.
     bind (require_some found (NotFound ''Fiscal year not found'')) (\<lambda>fy.
     bind (require (\<not> fy_closed fy) (BadRequest ''Fiscal year is already closed'')) (\<lambda>_.
     bind (claim_year fy c) (\<lambda>_.
     bind (ask (\<lambda>w. sort_key fp_month (find_many (\<lambda>r. fp_company r = c \<and> fp_year r = year) (t_period w)))) (\<lambda>periods.
     bind (require (periods \<noteq> []) (BadRequest ''No financial periods found for year'')) (\<lambda>_.
     bind (retained_earnings_account c fy) (\<lambda>re.
     bind (income_accounts c) (\<lambda>accounts.
     if accounts = [] then
       bind (close_periods c user periods) (\<lambda>ids.
       bind (ask now) (\<lambda>clock.
       bind (mark_year fy (closed_year user clock)) (\<lambda>_.
       ret \<lparr>yc_fiscalYear = fy_id fy, yc_year = year, yc_closedAt = clock, yc_entry = '''', yc_periods = ids\<rparr>)))
     else close_books bus c year user fy periods re accounts)))))))))"

section \<open>The books of a year\<close>

text \<open>Debit less credit of an account over some periods.\<close>

definition net_over :: "world \<Rightarrow> string \<Rightarrow> string \<Rightarrow> string list \<Rightarrow> decimal" where
  "net_over w c a ps = (\<Sum>p\<leftarrow>ps. net_balance w c a p)"

definition year_periods :: "world \<Rightarrow> string \<Rightarrow> int \<Rightarrow> string list" where
  "year_periods w c year = map fp_id (sort_key fp_month (find_many (\<lambda>r. fp_company r = c \<and> fp_year r = year) (t_period w)))"

lemma net_balance_periods [simp]: "net_balance (t_period_update f w) = net_balance w"
  by (intro ext) (simp add: net_balance_def)

lemma balance_sum:
  fixes f :: "balance_row \<Rightarrow> decimal"
  assumes d: "distinct (map balance_key t)" and ps: "distinct ps" and a: "a \<in> A"
  shows "(\<Sum>b\<leftarrow>filter (\<lambda>b. ab_account b = a) (find_many (\<lambda>b. ab_company b = c \<and> ab_account b \<in> A \<and> ab_period b \<in> set ps) t). f b) =
    (\<Sum>p\<leftarrow>ps. snap f t c a p)"
  using d
proof (induction t)
  case Nil
  then show ?case by (simp add: find_many_def snap_def sum_list_0)
next
  case (Cons r t)
  have one: "snap f (r # t) c a p = (if balance_is c a p r then f r else 0) + snap f t c a p" for p
  proof (cases "balance_is c a p r")
    case True
    then have "\<not> balance_is c a p x" if "x \<in> set t" for x
      using Cons.prems(1) that by (auto simp: balance_is_key) (metis image_eqI)
    then have "find_first (balance_is c a p) t = None" by (simp add: find_first_None_iff)
    with True show ?thesis by (simp add: snap_def)
  qed (simp add: snap_def)
  have "(\<Sum>p\<leftarrow>ps. if balance_is c a p r then f r else 0) =
      (if ab_company r = c \<and> ab_account r = a \<and> ab_period r \<in> set ps then f r else 0)"
    using ps by (induction ps) (auto simp: balance_is_def)
  then have "(\<Sum>p\<leftarrow>ps. snap f (r # t) c a p) =
      (if ab_company r = c \<and> ab_account r = a \<and> ab_period r \<in> set ps then f r else 0) + (\<Sum>p\<leftarrow>ps. snap f t c a p)"
    by (simp only: one sum_list_addf)
  with Cons a show ?case by (auto simp: find_many_def)
qed

lemma update_period_run:
  assumes "distinct (map fp_id (t_period w))" and "p \<in> set (t_period w)" and f: "\<And>r. fp_id (f r) = fp_id r"
  shows "update_period (fp_id p) f (fp_company p) (fp_version p) w =
    (Inr ((f p)\<lparr>fp_version := fp_version (f p) + 1\<rparr>),
     w\<lparr>t_period := update_rows (\<lambda>r. fp_id r = fp_id p) (\<lambda>r. (f r)\<lparr>fp_version := fp_version (f r) + 1\<rparr>) (t_period w)\<rparr>)"
  unfolding update_period_def
  by (subst cas_write_here [where rows = t_period and rid = fp_id and r = p, OF assms(1,2)]; cases w)
     (simp_all add: f bump_ver_def [abs_def])

definition closed_row :: "string \<Rightarrow> int \<Rightarrow> period_row \<Rightarrow> period_row" where
  "closed_row user clock r =
     r\<lparr>fp_status := Closed, fp_closedAt := Some clock, fp_closedBy := Some user, fp_version := fp_version r + 1\<rparr>"

lemma closed_row_sel [simp]:
  "fp_id (closed_row user clock r) = fp_id r" "fp_company (closed_row user clock r) = fp_company r"
  "fp_status (closed_row user clock r) = Closed" "fp_year (closed_row user clock r) = fp_year r"
  "fp_month (closed_row user clock r) = fp_month r"
  by (simp_all add: closed_row_def)

definition open_ids :: "period_row list \<Rightarrow> string list" where
  "open_ids ps = map fp_id (filter (\<lambda>p. fp_status p = Open) ps)"

text \<open>Closing periods that are rows of the table closes exactly the open ones among them.\<close>

lemma close_periods_run:
  assumes "distinct (map fp_id (t_period w))" and "distinct (map fp_id ps)"
    and "\<And>p. p \<in> set ps \<Longrightarrow> p \<in> set (t_period w) \<and> fp_company p = c"
  shows "close_periods c user ps w = (Inr (open_ids ps),
    w\<lparr>t_period := update_rows (\<lambda>r. fp_id r \<in> set (open_ids ps)) (closed_row user (now w)) (t_period w)\<rparr>)"
  using assms
proof (induction ps arbitrary: w)
  case Nil
  then show ?case by (simp add: open_ids_def update_rows_none)
next
  case (Cons p ps)
  show ?case
  proof (cases "fp_status p = Open")
    case False
    then have "open_ids (p # ps) = open_ids ps" by (simp add: open_ids_def)
    with False Cons show ?thesis by simp
  next
    case True
    then have o: "open_ids (p # ps) = fp_id p # open_ids ps" by (simp add: open_ids_def)
    have p: "p \<in> set (t_period w)" "fp_company p = c" using Cons.prems(3) [of p] by simp_all
    let ?t = "update_rows (\<lambda>r. fp_id r = fp_id p) (closed_row user (now w)) (t_period w)"
    let ?w = "w\<lparr>t_period := ?t\<rparr>"
    have one: "update_period (fp_id p) (\<lambda>r. r\<lparr>fp_status := Closed, fp_closedAt := Some (now w), fp_closedBy := Some user\<rparr>)
        c (fp_version p) w = (Inr (closed_row user (now w) p), ?w)"
      using update_period_run [OF Cons.prems(1) p(1)] p(2) by (simp add: closed_row_def [abs_def])
    have ids: "distinct (map fp_id (t_period ?w))" using Cons.prems(1) by (simp add: map_update_rows)
    have rest: "q \<in> set (t_period ?w) \<and> fp_company q = c" if "q \<in> set ps" for q
    proof -
      have "fp_id p \<notin> fp_id ` set ps" using Cons.prems(2) by simp
      then have "fp_id q \<noteq> fp_id p" using that by (metis imageI)
      then show ?thesis using Cons.prems(3) [of q] that by (simp add: set_update_rows)
    qed
    have "distinct (map fp_id ps)" using Cons.prems(2) by simp
    from Cons.IH [OF ids this rest] have "close_periods c user ps ?w = (Inr (open_ids ps),
        ?w\<lparr>t_period := update_rows (\<lambda>r. fp_id r \<in> set (open_ids ps)) (closed_row user (now w)) ?t\<rparr>)" by simp
    moreover have "fp_id p \<notin> set (open_ids ps)" using Cons.prems(2) by (auto simp: open_ids_def)
    then have "update_rows (\<lambda>r. fp_id r \<in> set (open_ids ps)) (closed_row user (now w)) ?t =
        update_rows (\<lambda>r. fp_id r \<in> set (open_ids (p # ps))) (closed_row user (now w)) (t_period w)"
      unfolding o by (simp add: update_rows_def)
    ultimately show ?thesis using True one by (simp add: bind_def o)
  qed
qed

text \<open>What a posting does to the net balances.\<close>

definition net_on :: "post_line list \<Rightarrow> string \<Rightarrow> decimal" where
  "net_on ls a = lines_on (\<lambda>l. amount_val (pl_debit l)) ls a - lines_on (\<lambda>l. amount_val (pl_credit l)) ls a"

lemma post_moves:
  assumes bus: "ledger_bus bus" and inv: "ledger_inv w" and s4: "scale4_lines (pi_lines i)"
    and run: "execute_post bus i w = (Inr r, w')"
  shows "net_balance w' c a p = net_balance w c a p + (if (c, p) = (pi_company i, pi_period i) then net_on (pi_lines i) a else 0)"
proof -
  obtain e n where e: "t_entry w' = t_entry w @ [e]" "posted_row i n (now w) e"
    using execute_post_keeps(2) [OF bus inv s4 run] by blast
  have "stored_lines (pi_lines i) (je_lines e)" using e(2) by (simp add: posted_row_def)
  note on = stored_lines_on [OF this s4]
  have "ledger_inv w'" by (rule execute_post_keeps(1) [OF bus inv s4 run])
  then show ?thesis using net_balance_inv [of w] net_balance_inv [of w'] inv e on
    by (auto simp: posted_row_def in_ledger_def net_on_def)
qed

lemma net_over_move:
  assumes "\<And>p. net_balance w' c a p = net_balance w c a p + (if p = q then x else 0)" and "distinct ps"
  shows "net_over w' c a ps = net_over w c a ps + (if q \<in> set ps then x else 0)"
  using assms(2) by (induction ps) (auto simp: net_over_def assms(1))

lemma net_on_append [simp]: "net_on (ls @ ks) a = net_on ls a + net_on ks a"
  by (simp add: net_on_def lines_on_def)

lemma net_on_Nil [simp]: "net_on [] a = 0"
  by (simp add: net_on_def lines_on_def)

lemma net_on_line [simp]: "net_on (gl_line b d k s # ls) a = (if b = a then d - k else 0) + net_on ls a"
  by (simp add: net_on_def lines_on_def gl_line_def)

definition value_of :: "(string \<times> decimal) list \<Rightarrow> string \<Rightarrow> decimal" where
  "value_of nets a = (case map_of nets a of None \<Rightarrow> 0 | Some n \<Rightarrow> n)"

text \<open>The nets of the income accounts are their balances over the periods, with the sign turned.\<close>

lemma net_over_scale4: "ledger_inv w \<Longrightarrow> scale4 (net_over w c a ps)"
proof -
  assume "ledger_inv w"
  then have "balances_ok (t_balance w)" by (simp add: ledger_inv_def)
  then have "scale4 (snap ab_periodDebit (t_balance w) c a p)" "scale4 (snap ab_periodCredit (t_balance w) c a p)" for p
    by (auto simp: snap_def balances_ok_def split: option.split dest!: find_first_SomeD)
  then show ?thesis by (auto simp: net_over_def net_balance_def intro!: scale4_sum_list)
qed

lemma signed_nets_run:
  assumes inv: "ledger_inv w" and ps: "distinct ps" and A: "distinct A"
  obtains nets where "signed_nets c A ps w = (Inr nets, w)"
    and "\<And>a. value_of nets a = (if a \<in> set A then - net_over w c a ps else 0)"
    and "(\<Sum>n\<leftarrow>nets. snd n) = (\<Sum>a\<leftarrow>A. - net_over w c a ps)" and "\<And>n. n \<in> set nets \<Longrightarrow> scale4 (snd n)"
proof -
  let ?rows = "find_many (\<lambda>b. ab_company b = c \<and> ab_account b \<in> set A \<and> ab_period b \<in> set ps) (t_balance w)"
  let ?as = "remdups (map ab_account ?rows)" and ?g = "\<lambda>a. - net_over w c a ps"
  have B: "balances_ok (t_balance w)" using inv by (simp add: ledger_inv_def)
  then have d: "distinct (map balance_key (t_balance w))" by (simp add: balances_ok_def)
  have as: "set ?as \<subseteq> set A" by (auto simp: find_many_def)
  have sums: "(\<Sum>b\<leftarrow>filter (\<lambda>b. ab_account b = a) ?rows. ab_closingCredit b) -
      (\<Sum>b\<leftarrow>filter (\<lambda>b. ab_account b = a) ?rows. ab_closingDebit b) = ?g a" if "a \<in> set A" for a
  proof -
    have eqs: "map ab_closingCredit (filter (\<lambda>b. ab_account b = a) ?rows) = map ab_periodCredit (filter (\<lambda>b. ab_account b = a) ?rows)"
      "map ab_closingDebit (filter (\<lambda>b. ab_account b = a) ?rows) = map ab_periodDebit (filter (\<lambda>b. ab_account b = a) ?rows)"
      using B by (auto simp: balances_ok_def find_many_def)
    show ?thesis
      unfolding eqs balance_sum [OF d ps that, where c = c and f = ab_periodCredit] balance_sum [OF d ps that, where c = c and f = ab_periodDebit]
      by (simp add: net_over_def net_balance_def sum_list_subtractf)
  qed
  have none: "?g a = 0" if "a \<in> set A" "a \<notin> set ?as" for a
  proof -
    have "filter (\<lambda>b. ab_account b = a) ?rows = []" using that(2) by (auto simp: filter_empty_conv)
    then show ?thesis using sums [OF that(1)] by simp
  qed
  have nets: "signed_nets c A ps w = (Inr (map (\<lambda>a. (a, ?g a)) ?as), w)"
  proof -
    have "map (\<lambda>a. (a, (\<Sum>b\<leftarrow>filter (\<lambda>b. ab_account b = a) ?rows. ab_closingCredit b) -
        (\<Sum>b\<leftarrow>filter (\<lambda>b. ab_account b = a) ?rows. ab_closingDebit b))) ?as = map (\<lambda>a. (a, ?g a)) ?as"
      using sums as by (intro map_cong) auto
    then show ?thesis by (simp add: signed_nets_def Let_def)
  qed
  have "map_of (map (\<lambda>a. (a, ?g a)) ?as) a = (if a \<in> set ?as then Some (?g a) else None)" for a
    by (simp add: map_of_map_restrict restrict_map_def)
  then have val: "value_of (map (\<lambda>a. (a, ?g a)) ?as) a = (if a \<in> set A then ?g a else 0)" for a
    using none [of a] as by (auto simp: value_of_def)
  have "(\<Sum>a\<leftarrow>?as. ?g a) = sum ?g (set ?as)" by (rule sum_list_distinct_conv_sum_set) (rule distinct_remdups)
  also have "\<dots> = sum ?g (set A)" using as none by (intro sum.mono_neutral_left) auto
  also have "\<dots> = (\<Sum>a\<leftarrow>A. ?g a)" using A by (simp add: sum_list_distinct_conv_sum_set)
  finally have "(\<Sum>n\<leftarrow>map (\<lambda>a. (a, ?g a)) ?as. snd n) = (\<Sum>a\<leftarrow>A. ?g a)" by (simp add: comp_def)
  moreover have "scale4 (snd n)" if "n \<in> set (map (\<lambda>a. (a, ?g a)) ?as)" for n using that net_over_scale4 [OF inv] by auto
  ultimately show thesis by (rule that [OF nets val])
qed

lemma closing_lines_net:
  assumes "distinct (map ac_id accounts)" and s4: "\<And>n. n \<in> set nets \<Longrightarrow> scale4 (snd n)"
  shows "net_on (closing_lines nets accounts re year) a =
      (if a \<in> ac_id ` set accounts then value_of nets a else 0) - (if a = re then (\<Sum>n\<leftarrow>nets. snd n) else 0)"
    and "scale4_lines (closing_lines nets accounts re year)"
proof -
  have fits: "scale4 n" if "map_of nets i = Some n" for i n using s4 [OF map_of_SomeD [OF that]] by simp
  have one: "net_on (closing_line nets x) a = (if ac_id x = a then value_of nets a else 0)" for x
    by (auto simp: closing_line_def value_of_def round4_id fits split: option.split)
  have "net_on (concat (map (closing_line nets) accounts)) a = (if a \<in> ac_id ` set accounts then value_of nets a else 0)"
    using assms(1) by (induction accounts) (auto simp: one)
  moreover have tot: "scale4 (\<Sum>n\<leftarrow>nets. snd n)" by (rule scale4_sum_list) (rule s4)
  have "net_on (retained_line re (\<Sum>n\<leftarrow>nets. snd n) year) a = - (if a = re then (\<Sum>n\<leftarrow>nets. snd n) else 0)"
    by (auto simp: retained_line_def round4_id tot)
  ultimately show "net_on (closing_lines nets accounts re year) a =
      (if a \<in> ac_id ` set accounts then value_of nets a else 0) - (if a = re then (\<Sum>n\<leftarrow>nets. snd n) else 0)"
    by (simp add: closing_lines_def)
  show "scale4_lines (closing_lines nets accounts re year)"
    by (auto simp: scale4_lines_def closing_lines_def closing_line_def retained_line_def gl_line_def split: option.splits if_splits)
qed

section \<open>A successful close\<close>

lemma posting_period_Some: "posting_period ps = Some p \<Longrightarrow> p \<in> set ps \<and> fp_status p = Open"
proof -
  assume "posting_period ps = Some p"
  then obtain qs where "rev (filter (\<lambda>p. fp_status p = Open) ps) = p # qs" by (auto simp: posting_period_def split: list.splits)
  then have "p \<in> set (rev (filter (\<lambda>p. fp_status p = Open) ps))" by simp
  then show ?thesis by simp
qed

lemma posting_period_None: "posting_period ps = None \<Longrightarrow> p \<in> set ps \<Longrightarrow> fp_status p \<noteq> Open"
  by (auto simp: posting_period_def filter_empty_conv split: list.splits)

lemma period_found:
  "distinct (map fp_id t) \<Longrightarrow> q \<in> set t \<Longrightarrow> find_first (\<lambda>r. fp_id r = fp_id q \<and> fp_company r = fp_company q) t = Some q"
  by (rule find_first_unique [where k = fp_id]) simp_all

lemma closed_not_open:
  assumes "distinct (map fp_id t)" and "q \<in> set t" and "fp_status q \<noteq> Open \<or> fp_id q \<in> S"
  shows "not_open (fp_company q) (fp_id q) (update_rows (\<lambda>r. fp_id r \<in> S) (closed_row user n) t)"
  using period_found [OF assms(1,2)] assms(3) unfolding not_open_def by (subst find_first_update_rows) auto

lemma post_closing_Inr:
  assumes "post_closing bus c user fy year posting lines w = (Inr e, w')"
  shows "(lines = [] \<and> w' = w) \<or> (\<exists>p r. posting = Some p \<and> execute_post bus (closing_input c user fy year p lines) w = (Inr r, w'))"
  using assms by (auto simp: post_closing_def bind_Inr_iff split: if_splits option.splits)

lemma mark_year_Inr:
  "mark_year fy f w = (Inr u, w') \<longleftrightarrow> find_first (\<lambda>r. fy_id r = fy_id fy) (t_fiscal_year w) \<noteq> None \<and>
     w' = w\<lparr>t_fiscal_year := update_rows (\<lambda>r. fy_id r = fy_id fy) f (t_fiscal_year w)\<rparr>"
  by (auto simp: mark_year_def bind_Inr_iff split: option.splits)

lemma close_audit_run: "\<exists>a. close_audit c user fy e n w = (Inr (), w\<lparr>t_audit := a\<rparr>)"
  by (auto simp: close_audit_def)

definition close_bus :: "event_bus \<Rightarrow> bool" where
  "close_bus bus \<longleftrightarrow> ledger_bus bus \<and> bus_frame t_fiscal_year bus"

lemma close_bus_empty: "close_bus (\<lambda>_. None)"
  by (simp add: close_bus_def ledger_bus_empty)

text \<open>The closing journal moves the balances as its lines say; the periods are closed around it.\<close>

lemma close_books_effect:
  assumes cb: "close_bus bus" and inv: "ledger_inv v" and ids: "distinct (map fp_id (t_period v))"
    and ps0: "distinct (map fp_id periods)" "\<forall>p \<in> set periods. p \<in> set (t_period v) \<and> fp_company p = c"
    and acc: "distinct (map ac_id accounts)"
    and run: "close_books bus c year user fy periods re accounts v = (Inr r, w')"
  shows "ledger_inv w'"
    and "\<And>p. p \<in> set periods \<Longrightarrow> not_open c (fp_id p) (t_period w')"
    and "net_over w' c a (map fp_id periods) = (if a \<in> ac_id ` set accounts then 0 else net_over v c a (map fp_id periods)) +
      (if a = re then (\<Sum>x\<leftarrow>accounts. net_over v c (ac_id x) (map fp_id periods)) else 0)"
    and "a \<noteq> re \<and> a \<notin> ac_id ` set accounts \<or> c' \<noteq> c \<Longrightarrow> net_balance w' c' a p = net_balance v c' a p"
    and "\<exists>clock. t_fiscal_year w' =
      update_rows (\<lambda>r. fy_id r = fy_id fy) (\<lambda>r. (closed_year user clock r)\<lparr>fy_retained := Some re\<rparr>) (t_fiscal_year v)"
proof -
  have ps: "distinct (map fp_id periods)" "\<And>p. p \<in> set periods \<Longrightarrow> p \<in> set (t_period v) \<and> fp_company p = c"
    using ps0 by blast+
  let ?ps = "map fp_id periods" and ?cr = "closed_row user (now v)"
  let ?targets = "case posting_period periods of None \<Rightarrow> periods | Some p \<Rightarrow> filter (\<lambda>r. fp_id r \<noteq> fp_id p) periods"
  have targets: "set ?targets \<subseteq> set periods" "distinct (map fp_id ?targets)"
    using ps(1) by (auto simp: distinct_map_filter split: option.splits)
  let ?S = "set (open_ids ?targets)"
  let ?t1 = "update_rows (\<lambda>r. fp_id r \<in> ?S) ?cr (t_period v)"
  let ?v1 = "v\<lparr>t_period := ?t1\<rparr>"
  have c1: "close_periods c user ?targets v = (Inr (open_ids ?targets), ?v1)"
    using targets ps(2) by (intro close_periods_run [OF ids]) auto
  have no1: "net_over ?v1 = net_over v" by (intro ext) (simp add: net_over_def)
  have inv1: "ledger_inv ?v1" by (rule ledger_inv_cong [OF inv]) (use inv in \<open>simp_all add: ledger_inv_def\<close>)
  obtain nets where nets: "signed_nets c (map ac_id accounts) ?ps ?v1 = (Inr nets, ?v1)"
    "\<And>a. value_of nets a = (if a \<in> set (map ac_id accounts) then - net_over v c a ?ps else 0)"
    "(\<Sum>n\<leftarrow>nets. snd n) = (\<Sum>a\<leftarrow>map ac_id accounts. - net_over v c a ?ps)" "\<And>n. n \<in> set nets \<Longrightarrow> scale4 (snd n)"
    using signed_nets_run [OF inv1 ps(1) acc, of c] unfolding no1 by blast
  define y where "y = num_str v (of_int year)"
  let ?lines = "closing_lines nets accounts re y"
  from run c1 nets(1) obtain e v2 last v3 clock v4 where
    post: "post_closing bus c user (fy_id fy) y (posting_period periods) ?lines ?v1 = (Inr e, v2)" and
    last: "(case posting_period periods of None \<Rightarrow> ret [] | Some p \<Rightarrow> close_periods c user [p]) v2 = (Inr last, v3)" and
    mark: "mark_year fy (\<lambda>r. (closed_year user clock r)\<lparr>fy_retained := Some re\<rparr>) v3 = (Inr (), v4)" and
    aud: "(bind (close_audit c user (fy_id fy) e (length (open_ids ?targets @ last))) (\<lambda>_. ret r)) v4 = (Inr r, w')"
    unfolding close_books_def Let_def by (auto simp: bind_Inr_iff y_def)
  note L = closing_lines_net [where nets = nets and re = re and year = y, OF acc nets(4)]
  have bus: "ledger_bus bus" "bus_frame t_fiscal_year bus" using cb by (simp_all add: close_bus_def)
  have P: "ledger_inv v2 \<and> t_period v2 = ?t1 \<and> t_fiscal_year v2 = t_fiscal_year v \<and>
    net_balance v2 c' b p = net_balance v c' b p +
      (if c' = c \<and> (\<exists>q. posting_period periods = Some q \<and> p = fp_id q) then net_on ?lines b else 0)" for c' b p
    using post_closing_Inr [OF post]
  proof (elim disjE conjE exE)
    assume "?lines = []" "v2 = ?v1"
    then show ?thesis using inv1 by simp
  next
    fix q res
    assume q: "posting_period periods = Some q" and x: "execute_post bus (closing_input c user (fy_id fy) y q ?lines) ?v1 = (Inr res, v2)"
    have s4: "scale4_lines (pi_lines (closing_input c user (fy_id fy) y q ?lines))" by (simp add: closing_input_def L(2))
    have "frame t_fiscal_year (execute_post bus (closing_input c user (fy_id fy) y q ?lines))"
      by (rule frame_execute_post [OF bus(2)]) simp_all
    from frameD [OF this x] post_moves [OF bus(1) inv1 s4 x, of c' b p] execute_post_keeps(1,4) [OF bus(1) inv1 s4 x] q
    show ?thesis by (auto simp: closing_input_def)
  qed
  obtain t3 where v3: "v3 = v2\<lparr>t_period := t3\<rparr>" and t3: "\<And>p. p \<in> set periods \<Longrightarrow> not_open c (fp_id p) t3"
  proof (cases "posting_period periods")
    case None
    then have "v3 = v2\<lparr>t_period := ?t1\<rparr>" using last P by simp
    moreover have "not_open c (fp_id p) ?t1" if "p \<in> set periods" for p
      using closed_not_open [OF ids, of p] ps(2) [OF that] posting_period_None [OF None that] by blast
    ultimately show thesis by (rule that)
  next
    case (Some q)
    then have q: "q \<in> set periods" "fp_status q = Open" by (simp_all add: posting_period_Some)
    then have qt: "q \<in> set (t_period v)" "fp_company q = c" using ps(2) by simp_all
    have "fp_id q \<notin> ?S" using Some by (auto simp: open_ids_def)
    then have q1: "q \<in> set (t_period v2)" using qt P by (simp add: set_update_rows)
    have ids2: "distinct (map fp_id (t_period v2))" using P ids by (simp add: map_update_rows)
    have "close_periods c user [q] v2 = (Inr (open_ids [q]),
        v2\<lparr>t_period := update_rows (\<lambda>r. fp_id r \<in> set (open_ids [q])) (closed_row user (now v2)) (t_period v2)\<rparr>)"
      by (rule close_periods_run [OF ids2]) (use q1 qt in auto)
    then have "v3 = v2\<lparr>t_period := update_rows (\<lambda>r. fp_id r \<in> set (open_ids [q])) (closed_row user (now v2)) (t_period v2)\<rparr>"
      using last Some by (auto simp del: close_periods.simps)
    moreover have "not_open c (fp_id p) (update_rows (\<lambda>r. fp_id r \<in> set (open_ids [q])) (closed_row user (now v2)) (t_period v2))"
      if p: "p \<in> set periods" for p
    proof (cases "fp_id p = fp_id q")
      case True
      then show ?thesis using closed_not_open [OF ids2 q1, of "set (open_ids [q])"] qt q(2) by (simp add: open_ids_def)
    next
      case False
      then have "fp_status p \<noteq> Open \<or> fp_id p \<in> ?S" using p Some by (auto simp: open_ids_def)
      then have "not_open c (fp_id p) (t_period v2)" using closed_not_open [OF ids, of p ?S] ps(2) [OF p] P by auto
      then show ?thesis by (rule not_open_update_rows) simp_all
    qed
    ultimately show thesis by (rule that)
  qed
  obtain au where w': "w' = v4\<lparr>t_audit := au\<rparr>"
    using aud close_audit_run [of c user "fy_id fy" e "length (open_ids ?targets @ last)" v4] by (auto simp: bind_def)
  have v4: "v4 = v3\<lparr>t_fiscal_year := update_rows (\<lambda>r. fy_id r = fy_id fy) (\<lambda>r. (closed_year user clock r)\<lparr>fy_retained := Some re\<rparr>) (t_fiscal_year v)\<rparr>"
    using mark P by (simp add: mark_year_Inr v3)
  have nb: "net_balance w' = net_balance v2" by (intro ext) (simp add: net_balance_def w' v4 v3)
  show "ledger_inv w'"
    by (rule ledger_inv_cong [of v2]) (use P in \<open>simp_all add: w' v4 v3 ledger_inv_def\<close>)
  show "not_open c (fp_id p) (t_period w')" if "p \<in> set periods" for p using t3 [OF that] by (simp add: w' v4 v3)
  show "\<exists>clock. t_fiscal_year w' =
      update_rows (\<lambda>r. fy_id r = fy_id fy) (\<lambda>r. (closed_year user clock r)\<lparr>fy_retained := Some re\<rparr>) (t_fiscal_year v)"
    by (rule exI [of _ clock]) (simp add: w' v4)
  show "net_balance w' c' a p = net_balance v c' a p" if "a \<noteq> re \<and> a \<notin> ac_id ` set accounts \<or> c' \<noteq> c"
    using P [of c' a p] that L(1) by (auto simp: nb)
  show "net_over w' c a (map fp_id periods) = (if a \<in> ac_id ` set accounts then 0 else net_over v c a (map fp_id periods)) +
      (if a = re then (\<Sum>x\<leftarrow>accounts. net_over v c (ac_id x) (map fp_id periods)) else 0)"
  proof -
    have sums: "(\<Sum>a\<leftarrow>map ac_id accounts. - net_over v c a ?ps) = - (\<Sum>x\<leftarrow>accounts. net_over v c (ac_id x) ?ps)"
      by (induction accounts) simp_all
    have moved: "net_over w' c a ?ps = net_over v c a ?ps + net_on ?lines a"
    proof (cases "posting_period periods")
      case None
      then have "net_over w' c a ?ps = net_over v c a ?ps" using P by (simp add: net_over_def nb)
      moreover have "?lines = []" using post_closing_Inr [OF post] None by simp
      ultimately show ?thesis by simp
    next
      case (Some q)
      then have "fp_id q \<in> set ?ps" by (simp add: posting_period_Some)
      then show ?thesis using net_over_move [of w' c a v "fp_id q" "net_on ?lines a" ?ps] P Some ps(1) by (auto simp: nb)
    qed
    show ?thesis using L(1) [where a = a] nets(2) [of a] nets(3) unfolding moved sums by auto
  qed
qed

definition income_of :: "world \<Rightarrow> string \<Rightarrow> account_row list" where
  "income_of w c = find_many (\<lambda>a. ac_type a = REVENUE \<and> live_account c a) (t_account w) @
     find_many (\<lambda>a. ac_type a = EXPENSE \<and> live_account c a) (t_account w)"

lemma income_accounts_run [simp]: "income_accounts c w = (Inr (income_of w c), w)"
  by (simp add: income_accounts_def income_of_def)

lemma income_of_iff:
  "a \<in> set (income_of w c) \<longleftrightarrow> a \<in> set (t_account w) \<and> live_account c a \<and> (ac_type a = REVENUE \<or> ac_type a = EXPENSE)"
  by (auto simp: income_of_def find_many_def)

lemma income_of_ids: "distinct (map ac_id (t_account w)) \<Longrightarrow> distinct (map ac_id (income_of w c))"
proof -
  assume d: "distinct (map ac_id (t_account w))"
  have "ac_id a \<noteq> ac_id b" if "a \<in> set (t_account w)" "b \<in> set (t_account w)" "ac_type a = REVENUE" "ac_type b = EXPENSE" for a b
    using distinct_map_eq [OF d that(1,2)] that(3,4) by auto
  then show ?thesis using d by (auto simp: income_of_def find_many_def distinct_map_filter)
qed

lemma retained_earnings_Inr:
  assumes "retained_earnings_account c fy w = (Inr i, w')"
  shows "w' = w \<and> (\<exists>a \<in> set (t_account w). ac_id a = i \<and> live_account c a \<and> ac_type a = EQUITY \<and> ac_normal a = CreditNormal)"
  using assms by (auto simp: retained_earnings_account_def assert_valid_retained_earnings_account_def bind_Inr_iff
      dest!: find_first_SomeD split: option.splits if_splits)

lemma claim_year_Inr:
  "claim_year fy c w = (Inr u, w') \<Longrightarrow> w' = w\<lparr>t_fiscal_year := update_rows (\<lambda>r. fy_id r = fy_id fy \<and> fy_company r = c \<and> \<not> fy_closed r)
     (\<lambda>r. r\<lparr>fy_version := fy_version r + 1\<rparr>) (t_fiscal_year w)\<rparr>"
  by (auto simp: claim_year_def bind_Inr_iff split: if_splits)

lemma close_year_Inr:
  assumes run: "close_fiscal_year bus c year user w = (Inr r, w')"
  obtains fy v re where "find_first (\<lambda>r. fy_company r = c \<and> fy_year r = year) (t_fiscal_year w) = Some fy" and "\<not> fy_closed fy"
    and "claim_year fy c w = (Inr (), v)" and "retained_earnings_account c fy v = (Inr re, v)"
    and "let periods = sort_key fp_month (find_many (\<lambda>r. fp_company r = c \<and> fp_year r = year) (t_period v)) in
      (income_of v c = [] \<and> (\<exists>ids u clock. close_periods c user periods v = (Inr ids, u) \<and> mark_year fy (closed_year user clock) u = (Inr (), w'))) \<or>
      (income_of v c \<noteq> [] \<and> close_books bus c year user fy periods re (income_of v c) v = (Inr r, w'))"
proof -
  from run obtain fy v re u where fy: "find_first (\<lambda>r. fy_company r = c \<and> fy_year r = year) (t_fiscal_year w) = Some fy" "\<not> fy_closed fy"
    and claim: "claim_year fy c w = (Inr (), v)" and re: "retained_earnings_account c fy v = (Inr re, u)"
    and rest: "(let periods = sort_key fp_month (find_many (\<lambda>r. fp_company r = c \<and> fp_year r = year) (t_period v)); accounts = income_of u c in
      if accounts = [] then bind (close_periods c user periods) (\<lambda>ids.
        bind (ask now) (\<lambda>clock.
        bind (mark_year fy (closed_year user clock)) (\<lambda>_.
        ret \<lparr>yc_fiscalYear = fy_id fy, yc_year = year, yc_closedAt = clock, yc_entry = '''', yc_periods = ids\<rparr>)))
      else close_books bus c year user fy periods re accounts) u = (Inr r, w')"
    unfolding close_fiscal_year_def transaction_Inr_iff bind_Inr_iff require_Inr_iff require_some_Inr_iff ask_run Let_def by auto
  have "u = v" using retained_earnings_Inr [OF re] by simp
  with fy claim re rest show thesis
    by (intro that [of fy v re]) (auto simp: Let_def bind_Inr_iff split: if_splits)
qed

lemma closed_year_found:
  assumes "find_first (\<lambda>r. fy_company r = c \<and> fy_year r = year) t = Some fy"
    and "\<And>r. fy_company (f r) = fy_company r \<and> fy_year (f r) = fy_year r \<and> fy_closed (f r)"
    and "\<And>r. fy_id (g r) = fy_id r \<and> fy_company (g r) = fy_company r \<and> fy_year (g r) = fy_year r"
  shows "\<exists>r. find_first (\<lambda>r. fy_company r = c \<and> fy_year r = year)
    (update_rows (\<lambda>r. fy_id r = fy_id fy) f (update_rows hit g t)) = Some r \<and> fy_closed r"
  by (subst find_first_update_rows, simp add: assms(2), subst find_first_update_rows) (simp_all add: assms)

lemma closed_year_stays:
  assumes "find_first (\<lambda>r. fy_company r = c \<and> fy_year r = year) (t_fiscal_year w) = Some fy" and "fy_closed fy"
  shows "close_fiscal_year bus c year user w = (Inl (BadRequest ''Fiscal year is already closed''), w)"
  using assms by (simp add: close_fiscal_year_def transaction_def bind_def)

lemma year_close_summary:
  assumes cb: "close_bus bus" and inv: "ledger_inv w" and ids: "distinct (map fp_id (t_period w))"
    and run: "close_fiscal_year bus c year user w = (Inr r, w')"
  obtains re where "\<exists>a \<in> set (t_account w). ac_id a = re \<and> live_account c a \<and> ac_type a = EQUITY \<and> ac_normal a = CreditNormal"
    and "\<And>a. net_over w' c a (year_periods w c year) =
      (if a \<in> ac_id ` set (income_of w c) then 0 else net_over w c a (year_periods w c year)) +
      (if a = re then (\<Sum>x\<leftarrow>income_of w c. net_over w c (ac_id x) (year_periods w c year)) else 0)"
    and "\<And>c' a p. a \<noteq> re \<and> a \<notin> ac_id ` set (income_of w c) \<or> c' \<noteq> c \<Longrightarrow> net_balance w' c' a p = net_balance w c' a p"
    and "\<And>p. p \<in> set (year_periods w c year) \<Longrightarrow> not_open c p (t_period w')" and "ledger_inv w'"
    and "\<exists>fy. find_first (\<lambda>r. fy_company r = c \<and> fy_year r = year) (t_fiscal_year w') = Some fy \<and> fy_closed fy"
proof -
  let ?rows = "sort_key fp_month (find_many (\<lambda>r. fp_company r = c \<and> fp_year r = year) (t_period w))"
  obtain fy v re where fy: "find_first (\<lambda>r. fy_company r = c \<and> fy_year r = year) (t_fiscal_year w) = Some fy"
    and claim: "claim_year fy c w = (Inr (), v)" and re: "retained_earnings_account c fy v = (Inr re, v)"
    and body: "let periods = sort_key fp_month (find_many (\<lambda>r. fp_company r = c \<and> fp_year r = year) (t_period v)) in
      (income_of v c = [] \<and> (\<exists>ids u clock. close_periods c user periods v = (Inr ids, u) \<and> mark_year fy (closed_year user clock) u = (Inr (), w'))) \<or>
      (income_of v c \<noteq> [] \<and> close_books bus c year user fy periods re (income_of v c) v = (Inr r, w'))"
    by (rule close_year_Inr [OF run])
  note v = claim_year_Inr [OF claim]
  have same: "t_period v = t_period w" "income_of v c = income_of w c" "net_balance v = net_balance w" "t_account v = t_account w"
    by (auto simp: v income_of_def net_balance_def fun_eq_iff)
  then have over: "net_over v = net_over w" by (simp add: net_over_def fun_eq_iff)
  have invv: "ledger_inv v" by (rule ledger_inv_cong [OF inv]) (use inv in \<open>simp_all add: v ledger_inv_def\<close>)
  have acc: "distinct (map ac_id (income_of w c))" using inv by (intro income_of_ids) (simp add: ledger_inv_def)
  have rows: "distinct (map fp_id ?rows)" "\<And>p. p \<in> set ?rows \<Longrightarrow> p \<in> set (t_period w) \<and> fp_company p = c"
    using ids by (auto simp: find_many_def distinct_map intro: inj_on_subset)
  have ps: "year_periods w c year = map fp_id ?rows" by (simp add: year_periods_def)
  obtain a where a: "a \<in> set (t_account w)" "ac_id a = re" "live_account c a" "ac_type a = EQUITY" "ac_normal a = CreditNormal"
    using retained_earnings_Inr [OF re] same by auto
  show thesis
  proof (cases "income_of w c = []")
    case True
    then obtain xs u clock where cl: "close_periods c user ?rows v = (Inr xs, u)" "mark_year fy (closed_year user clock) u = (Inr (), w')"
      using body same by (auto simp: Let_def)
    have "u = v\<lparr>t_period := update_rows (\<lambda>r. fp_id r \<in> set (open_ids ?rows)) (closed_row user (now v)) (t_period v)\<rparr>"
      using close_periods_run [of v ?rows c user] ids rows cl(1) by (simp add: same)
    then have w': "w' = v\<lparr>t_period := update_rows (\<lambda>r. fp_id r \<in> set (open_ids ?rows)) (closed_row user (now v)) (t_period w),
        t_fiscal_year := update_rows (\<lambda>r. fy_id r = fy_id fy) (closed_year user clock) (t_fiscal_year v)\<rparr>"
      using cl(2) by (simp add: mark_year_Inr same)
    have nb: "net_balance w' = net_balance w" by (auto simp: w' v net_balance_def fun_eq_iff)
    show thesis
    proof (rule that)
      show "\<exists>a \<in> set (t_account w). ac_id a = re \<and> live_account c a \<and> ac_type a = EQUITY \<and> ac_normal a = CreditNormal" using a by blast
      show "not_open c p (t_period w')" if p: "p \<in> set (year_periods w c year)" for p
      proof -
        obtain q where q: "q \<in> set ?rows" "p = fp_id q" using p ps by auto
        then have "fp_status q \<noteq> Open \<or> fp_id q \<in> set (open_ids ?rows)" by (auto simp: open_ids_def)
        then show ?thesis using closed_not_open [OF ids, of q] rows(2) [OF q(1)] q(2) by (auto simp: w')
      qed
      show "ledger_inv w'" by (rule ledger_inv_cong [OF invv]) (use invv in \<open>simp_all add: w' ledger_inv_def\<close>)
      show "\<exists>fy. find_first (\<lambda>r. fy_company r = c \<and> fy_year r = year) (t_fiscal_year w') = Some fy \<and> fy_closed fy"
        unfolding w' v by simp (rule closed_year_found [OF fy]; simp add: closed_year_def)
    qed (simp_all add: nb True net_over_def)
  next
    case False
    then have cl: "close_books bus c year user fy ?rows re (income_of w c) v = (Inr r, w')" using body same by (simp add: Let_def)
    have rowsv: "distinct (map fp_id (t_period v))" "\<forall>p \<in> set ?rows. p \<in> set (t_period v) \<and> fp_company p = c"
      using ids rows(2) same by simp_all
    note E = close_books_effect [OF cb invv rowsv(1) rows(1) rowsv(2) acc cl]
    show thesis
    proof (rule that)
      show "\<exists>a \<in> set (t_account w). ac_id a = re \<and> live_account c a \<and> ac_type a = EQUITY \<and> ac_normal a = CreditNormal" using a by blast
      show "not_open c p (t_period w')" if "p \<in> set (year_periods w c year)" for p using that E(2) ps by auto
      show "\<exists>fy. find_first (\<lambda>r. fy_company r = c \<and> fy_year r = year) (t_fiscal_year w') = Some fy \<and> fy_closed fy"
        using E(5) unfolding v by (elim exE) (simp, rule closed_year_found [OF fy]; simp add: closed_year_def)
    qed (use E(1,3,4) over ps same in \<open>simp_all\<close>)
  qed
qed

section \<open>A close that must succeed\<close>

lemma close_year_rows_run:
  assumes ids: "distinct (map fp_id (t_period v))" and t: "t = t_period v"
  shows "close_periods c user (filter P (sort_key fp_month (find_many (\<lambda>r. fp_company r = c \<and> fp_year r = year) t))) v =
    (Inr (open_ids (filter P (sort_key fp_month (find_many (\<lambda>r. fp_company r = c \<and> fp_year r = year) t)))),
      v\<lparr>t_period := update_rows (\<lambda>r. fp_id r \<in> set (open_ids (filter P (sort_key fp_month
        (find_many (\<lambda>r. fp_company r = c \<and> fp_year r = year) t))))) (closed_row user (now v)) (t_period v)\<rparr>)"
proof (rule close_periods_run [OF ids])
  have "distinct (map fp_id (sort_key fp_month (find_many (\<lambda>r. fp_company r = c \<and> fp_year r = year) t)))"
    using ids by (auto simp: t find_many_def distinct_map intro: inj_on_subset)
  then show "distinct (map fp_id (filter P (sort_key fp_month (find_many (\<lambda>r. fp_company r = c \<and> fp_year r = year) t))))"
    by (rule distinct_map_filter)
qed (simp add: t find_many_def)

definition one_sided :: "post_line \<Rightarrow> bool" where
  "one_sided l \<longleftrightarrow> readable l \<and> (amount_val (pl_debit l) = 0 \<and> 0 < amount_val (pl_credit l) \<or>
     0 < amount_val (pl_debit l) \<and> amount_val (pl_credit l) = 0)"

lemma one_sided_line: "one_sided (gl_line a d k s) \<longleftrightarrow> d = 0 \<and> 0 < k \<or> 0 < d \<and> k = 0"
  by (simp add: one_sided_def gl_line_def readable_def)

text \<open>Balanced one-sided lines come in twos or more.\<close>

lemma one_sided_two:
  assumes "\<forall>l \<in> set ls. one_sided l" and "debit_sum ls = credit_sum ls" and "ls \<noteq> []"
  shows "2 \<le> length ls" and "0 \<le> debit_sum ls" and "\<forall>l \<in> set ls. nonzero_line l"
proof -
  show "2 \<le> length ls"
  proof (rule ccontr)
    assume "\<not> 2 \<le> length ls"
    moreover obtain l ks where l: "ls = l # ks" using assms(3) by (cases ls) auto
    ultimately have "ks = []" by (cases ks) auto
    with l assms show False by (auto simp: one_sided_def debit_sum_def credit_sum_def)
  qed
  have "0 \<le> amount_val (pl_debit l)" if "l \<in> set ls" for l using assms(1) that by (auto simp: one_sided_def)
  then show "0 \<le> debit_sum ls" unfolding debit_sum_def by (intro sum_list_nonneg) auto
  show "\<forall>l \<in> set ls. nonzero_line l" using assms(1) by (auto simp: one_sided_def nonzero_line_def)
qed

lemma closing_lines_sided:
  assumes "\<And>n. n \<in> set nets \<Longrightarrow> scale4 (snd n)" and "l \<in> set (closing_lines nets accounts re year)"
  shows "one_sided l" and "pl_account l = re \<or> pl_account l \<in> ac_id ` set accounts"
proof -
  have fits: "scale4 n" if "map_of nets i = Some n" for i n using assms(1) [OF map_of_SomeD [OF that]] by simp
  have tot: "scale4 (\<Sum>n\<leftarrow>nets. snd n)" by (rule scale4_sum_list) (rule assms(1))
  then have ret: "one_sided l" if "l \<in> set (retained_line re (\<Sum>n\<leftarrow>nets. snd n) year)"
    using that by (auto simp: retained_line_def one_sided_line round4_id split: if_splits)
  have acc: "one_sided l" if "l \<in> set (closing_line nets a)" for a
    using that fits by (auto simp: closing_line_def one_sided_line round4_id split: option.splits if_splits)
  show "one_sided l" using assms(2) ret acc by (auto simp: closing_lines_def)
  show "pl_account l = re \<or> pl_account l \<in> ac_id ` set accounts"
    using assms(2) by (auto simp: closing_lines_def closing_line_def retained_line_def gl_line_def split: option.splits if_splits)
qed

lemma closing_lines_balanced:
  assumes "\<And>n. n \<in> set nets \<Longrightarrow> scale4 (snd n)"
    and "(\<Sum>n\<leftarrow>nets. snd n) = (\<Sum>a\<leftarrow>accounts. value_of nets (ac_id a))"
  shows "debit_sum (closing_lines nets accounts re year) = credit_sum (closing_lines nets accounts re year)"
proof -
  have fits: "scale4 n" if "map_of nets i = Some n" for i n using assms(1) [OF map_of_SomeD [OF that]] by simp
  have tot: "scale4 (\<Sum>n\<leftarrow>nets. snd n)" by (rule scale4_sum_list) (rule assms(1))
  have app: "debit_sum (xs @ ys) - credit_sum (xs @ ys) = (debit_sum xs - credit_sum xs) + (debit_sum ys - credit_sum ys)" for xs ys
    by (simp add: debit_sum_def credit_sum_def)
  have "debit_sum (closing_line nets a) - credit_sum (closing_line nets a) = value_of nets (ac_id a)" for a
    by (auto simp: closing_line_def value_of_def gl_line_def debit_sum_def credit_sum_def round4_id fits split: option.split)
  then have "debit_sum (concat (map (closing_line nets) xs)) - credit_sum (concat (map (closing_line nets) xs)) =
      (\<Sum>a\<leftarrow>xs. value_of nets (ac_id a))" for xs
    by (induction xs) (simp_all add: app, simp add: debit_sum_def credit_sum_def)
  moreover have "debit_sum (retained_line re (\<Sum>n\<leftarrow>nets. snd n) year) - credit_sum (retained_line re (\<Sum>n\<leftarrow>nets. snd n) year) =
      - (\<Sum>n\<leftarrow>nets. snd n)"
    by (auto simp: retained_line_def gl_line_def debit_sum_def credit_sum_def round4_id tot)
  ultimately have "debit_sum (closing_lines nets accounts re year) - credit_sum (closing_lines nets accounts re year) = 0"
    unfolding closing_lines_def app using assms(2) by simp
  then show ?thesis by simp
qed

section \<open>Properties\<close>

text \<open>
  Property C33: closing a fiscal year empties its income statement into retained earnings. When the close
  succeeds, every live revenue and expense account nets to zero over the periods of the year; the retained
  earnings account, a live EQUITY account with a credit normal balance, takes up exactly their total; no other
  account moves; the books are still consistent; no period of the year is open; and the year cannot be
  closed a second time.
\<close>

theorem year_close_empties_the_income_statement:
  assumes "close_bus bus" and "ledger_inv w" and "distinct (map fp_id (t_period w))"
    and "close_fiscal_year bus c year user w = (Inr r, w')"
  shows "(\<forall>a \<in> set (income_of w c). net_over w' c (ac_id a) (year_periods w c year) = 0) \<and>
    (\<exists>re. (\<exists>a \<in> set (t_account w). ac_id a = re \<and> live_account c a \<and> ac_type a = EQUITY \<and> ac_normal a = CreditNormal) \<and>
      net_over w' c re (year_periods w c year) = net_over w c re (year_periods w c year) +
        (\<Sum>x\<leftarrow>income_of w c. net_over w c (ac_id x) (year_periods w c year)) \<and>
      (\<forall>c' a p. a \<noteq> re \<and> a \<notin> ac_id ` set (income_of w c) \<or> c' \<noteq> c \<longrightarrow> net_balance w' c' a p = net_balance w c' a p)) \<and>
    ledger_inv w' \<and> (\<forall>p \<in> set (year_periods w c year). not_open c p (t_period w')) \<and>
    (\<forall>bus' user'. close_fiscal_year bus' c year user' w' = (Inl (BadRequest ''Fiscal year is already closed''), w'))"
proof (rule year_close_summary [OF assms])
  fix re
  assume re: "\<exists>a \<in> set (t_account w). ac_id a = re \<and> live_account c a \<and> ac_type a = EQUITY \<and> ac_normal a = CreditNormal"
    and net: "\<And>a. net_over w' c a (year_periods w c year) =
      (if a \<in> ac_id ` set (income_of w c) then 0 else net_over w c a (year_periods w c year)) +
      (if a = re then (\<Sum>x\<leftarrow>income_of w c. net_over w c (ac_id x) (year_periods w c year)) else 0)"
    and rest: "\<And>c' a p. a \<noteq> re \<and> a \<notin> ac_id ` set (income_of w c) \<or> c' \<noteq> c \<Longrightarrow> net_balance w' c' a p = net_balance w c' a p"
    and closed: "\<And>p. p \<in> set (year_periods w c year) \<Longrightarrow> not_open c p (t_period w')" and inv: "ledger_inv w'"
    and fy: "\<exists>fy. find_first (\<lambda>r. fy_company r = c \<and> fy_year r = year) (t_fiscal_year w') = Some fy \<and> fy_closed fy"
  have "re \<notin> ac_id ` set (income_of w c)"
  proof
    assume "re \<in> ac_id ` set (income_of w c)"
    then obtain x where x: "x \<in> set (income_of w c)" "ac_id x = re" by auto
    obtain a where a: "a \<in> set (t_account w)" "ac_id a = re" "ac_type a = EQUITY" using re by blast
    have "distinct (map ac_id (t_account w))" using assms(2) by (simp add: ledger_inv_def)
    then have "x = a" using distinct_map_eq [of ac_id "t_account w" x a] x a by (simp add: income_of_iff)
    then show False using x(1) a(3) by (simp add: income_of_iff)
  qed
  note out = this
  show ?thesis
  proof (intro conjI exI [of _ re] ballI allI impI)
    show "net_over w' c (ac_id a) (year_periods w c year) = 0" if "a \<in> set (income_of w c)" for a
      using that out net [of "ac_id a"] by (auto split: if_splits)
    show "close_fiscal_year bus' c year user' w' = (Inl (BadRequest ''Fiscal year is already closed''), w')" for bus' user'
      using fy closed_year_stays by blast
  qed (use re out net [of re] rest closed inv in \<open>simp_all\<close>)
qed

text \<open>
  Property C34: a fiscal year with an open period can always be closed. When the year exists and is not closed,
  its retained earnings account is valid, and the periods of the year have their ends after their starts, one
  of them being open, the close succeeds: the closing journal it builds is one the ledger accepts.
\<close>

theorem open_year_can_be_closed:
  assumes cb: "close_bus bus" and inv: "ledger_inv w" and ids: "distinct (map fp_id (t_period w))"
    and fy: "find_first (\<lambda>r. fy_company r = c \<and> fy_year r = year) (t_fiscal_year w) = Some fy" "\<not> fy_closed fy"
    and re: "retained_earnings_account c fy w = (Inr re, w)"
    and spans: "\<forall>p \<in> set (t_period w). fp_company p = c \<and> fp_year p = year \<longrightarrow> fp_start p \<le> fp_end p"
    and some: "\<exists>p \<in> set (t_period w). fp_company p = c \<and> fp_year p = year \<and> fp_status p = Open"
  shows "\<exists>r w'. close_fiscal_year bus c year user w = (Inr r, w')"
proof -
  let ?hit = "\<lambda>r. fy_id r = fy_id fy \<and> fy_company r = c \<and> \<not> fy_closed r"
  let ?rows = "sort_key fp_month (find_many (\<lambda>r. fp_company r = c \<and> fp_year r = year) (t_period w))"
  define rows where "rows = ?rows"
  define v where "v = w\<lparr>t_fiscal_year := update_rows ?hit (\<lambda>r. r\<lparr>fy_version := fy_version r + 1\<rparr>) (t_fiscal_year w)\<rparr>"
  have fyin: "fy \<in> set (t_fiscal_year w)" "fy_company fy = c" using find_first_SomeD [OF fy(1)] by simp_all
  then have "count_rows ?hit (t_fiscal_year w) \<noteq> 0" using fy(2) by (auto simp: count_rows_0_iff)
  then have claim: "claim_year fy c w = (Inr (), v)" by (simp add: claim_year_def bind_def v_def)
  have tv: "t_period v = t_period w" "now v = now w" "t_account v = t_account w" by (simp_all add: v_def)
  have bus: "ledger_bus bus" "bus_frame t_fiscal_year bus" using cb by (simp_all add: close_bus_def)
  have invv: "ledger_inv v" by (rule ledger_inv_cong [OF inv]) (use inv in \<open>simp_all add: v_def ledger_inv_def\<close>)
  have rev: "retained_earnings_account c fy v = (Inr re, v)"
    using re by (auto simp: retained_earnings_account_def assert_valid_retained_earnings_account_def bind_def v_def split: option.splits if_splits)
  have acc: "distinct (map ac_id (income_of w c))" using inv by (intro income_of_ids) (simp add: ledger_inv_def)
  have rows: "distinct (map fp_id rows)" "\<And>p. p \<in> set rows \<Longrightarrow> p \<in> set (t_period w) \<and> fp_company p = c"
    using ids by (auto simp: rows_def find_many_def distinct_map intro: inj_on_subset)
  obtain p where p: "p \<in> set rows" "fp_status p = Open" using some by (auto simp: rows_def find_many_def)
  then have ne: "rows \<noteq> []" by force
  have incv: "income_of v c = income_of w c" by (simp add: v_def income_of_def)
  have mark: "\<exists>u'. mark_year fy f u = (Inr (), u')" if "t_fiscal_year u = t_fiscal_year v" for f u
  proof -
    have "\<exists>r. find_first (\<lambda>r. fy_id r = fy_id fy) (t_fiscal_year u) = Some r"
      unfolding that v_def using fyin by (intro find_first_memI [of "if ?hit fy then fy\<lparr>fy_version := fy_version fy + 1\<rparr> else fy"]) (auto simp: set_update_rows)
    then show ?thesis by (auto simp: mark_year_def bind_def)
  qed
  obtain q where q: "posting_period rows = Some q"
  proof (cases "posting_period rows")
    case None
    with posting_period_None [OF None] p show thesis by blast
  qed (rule that)
  then have qr: "q \<in> set rows" "fp_status q = Open" using posting_period_Some [OF q] by auto
  then have qw: "q \<in> set (t_period w)" "fp_company q = c" "fp_start q \<le> fp_end q"
    using spans by (simp_all add: rows_def find_many_def)
  have "\<exists>r w'. (if income_of w c = [] then bind (close_periods c user rows) (\<lambda>ids. bind (ask now) (\<lambda>clock.
        bind (mark_year fy (closed_year user clock)) (\<lambda>_.
        ret \<lparr>yc_fiscalYear = fy_id fy, yc_year = year, yc_closedAt = clock, yc_entry = '''', yc_periods = ids\<rparr>)))
      else close_books bus c year user fy rows re (income_of w c)) v = (Inr r, w')"
  proof (cases "income_of w c = []")
    case True
    let ?u = "v\<lparr>t_period := update_rows (\<lambda>r. fp_id r \<in> set (open_ids rows)) (closed_row user (now w)) (t_period w)\<rparr>"
    have "close_periods c user rows v = (Inr (open_ids rows), ?u)" using close_year_rows_run [of v "t_period v" c user "\<lambda>_. True"] ids by (simp add: tv rows_def)
    moreover obtain u' where "mark_year fy (closed_year user (now w)) ?u = (Inr (), u')" using mark [of ?u] by auto
    ultimately show ?thesis using True by (simp add: bind_def tv)
  next
    case False
    let ?targets = "filter (\<lambda>r. fp_id r \<noteq> fp_id q) rows"
    let ?v1 = "v\<lparr>t_period := update_rows (\<lambda>r. fp_id r \<in> set (open_ids ?targets)) (closed_row user (now w)) (t_period w)\<rparr>"
    have c1: "close_periods c user ?targets v = (Inr (open_ids ?targets), ?v1)"
      using close_year_rows_run [of v "t_period v"] ids by (simp add: tv rows_def)
    have inv1: "ledger_inv ?v1" by (rule ledger_inv_cong [OF invv]) (use invv in \<open>simp_all add: ledger_inv_def\<close>)
    have "fp_id q \<notin> set (open_ids ?targets)" by (auto simp: open_ids_def)
    then have q1: "q \<in> set (t_period ?v1)" using qw(1) by (auto simp: set_update_rows tv)
    have ids1: "distinct (map fp_id (t_period ?v1))" using ids by (simp add: map_update_rows tv)
    obtain nets where nets: "signed_nets c (map ac_id (income_of w c)) (map fp_id rows) ?v1 = (Inr nets, ?v1)"
      "\<And>a. value_of nets a = (if a \<in> set (map ac_id (income_of w c)) then - net_over ?v1 c a (map fp_id rows) else 0)"
      "(\<Sum>n\<leftarrow>nets. snd n) = (\<Sum>a\<leftarrow>map ac_id (income_of w c). - net_over ?v1 c a (map fp_id rows))"
      "\<And>n. n \<in> set nets \<Longrightarrow> scale4 (snd n)"
      by (rule signed_nets_run [OF inv1 rows(1) acc, of c], rule that, assumption+)
    define y where "y = num_str v (of_int year)"
    let ?lines = "closing_lines nets (income_of w c) re y"
    have "\<exists>e v2. post_closing bus c user (fy_id fy) y (Some q) ?lines ?v1 = (Inr e, v2) \<and> t_period v2 = t_period ?v1 \<and>
      t_fiscal_year v2 = t_fiscal_year v"
    proof (cases "?lines = []")
      case True
      then show ?thesis by (simp add: post_closing_def)
    next
      case False
      let ?i = "closing_input c user (fy_id fy) y q ?lines"
      have "map (\<lambda>a. value_of nets (ac_id a)) (income_of w c) = map (\<lambda>a. - net_over ?v1 c (ac_id a) (map fp_id rows)) (income_of w c)"
        by (rule map_cong [OF refl]) (simp add: nets(2))
      moreover have "map ((\<lambda>a. - net_over ?v1 c a (map fp_id rows)) \<circ> ac_id) (income_of w c) =
          map (\<lambda>a. - net_over ?v1 c (ac_id a) (map fp_id rows)) (income_of w c)" by (simp add: comp_def)
      ultimately have "(\<Sum>n\<leftarrow>nets. snd n) = (\<Sum>a\<leftarrow>income_of w c. value_of nets (ac_id a))" using nets(3) by (simp only: map_map)
      note bal = closing_lines_balanced [OF nets(4) this, where re = re and year = y]
      note S = closing_lines_sided [OF nets(4), where accounts = "income_of w c" and re = re and year = y]
      note two = one_sided_two [OF _ bal False]
      have live: "\<exists>a \<in> set (t_account ?v1). ac_id a = pl_account l \<and> live_account c a" if "l \<in> set ?lines" for l
        using S(2) [OF _ that] retained_earnings_Inr [OF re] by (auto simp: income_of_iff tv)
      have "postable ?v1 (pi_company ?i) (pi_date ?i) (pi_period ?i) (pi_lines ?i)"
        using period_found [OF ids1 q1] qw qr(2) two S(1) bal live by (simp add: postable_def closing_input_def)
      moreover have "unused_operation ?v1 (pi_company ?i) (pi_clientOp ?i)" by (simp add: unused_operation_def closing_input_def)
      moreover have "scale4_lines (pi_lines ?i)" using closing_lines_net(2) [OF acc nets(4)] by (simp add: closing_input_def)
      ultimately obtain res v2 where x: "execute_post bus ?i ?v1 = (Inr res, v2)" "t_period v2 = t_period ?v1"
        using execute_post_run [OF bus(1), of ?v1 ?i] inv1 by (auto simp: ledger_inv_def)
      have "frame t_fiscal_year (execute_post bus ?i)" by (rule frame_execute_post [OF bus(2)]) simp_all
      from frameD [OF this x(1)] x False show ?thesis by (simp add: post_closing_def bind_def)
    qed
    then obtain e v2 where post: "post_closing bus c user (fy_id fy) y (Some q) ?lines ?v1 = (Inr e, v2)"
      and v2: "t_period v2 = t_period ?v1" "t_fiscal_year v2 = t_fiscal_year v" by blast
    let ?v3 = "v2\<lparr>t_period := update_rows (\<lambda>r. fp_id r \<in> set (open_ids [q])) (closed_row user (now v2)) (t_period v2)\<rparr>"
    have c2: "close_periods c user [q] v2 = (Inr (open_ids [q]), ?v3)"
      by (rule close_periods_run) (use ids1 q1 qw v2 in auto)
    obtain v4 where m: "mark_year fy (\<lambda>r. (closed_year user (now v2) r)\<lparr>fy_retained := Some re\<rparr>) ?v3 = (Inr (), v4)"
      using mark [of ?v3] v2 by auto
    obtain v5 where "close_audit c user (fy_id fy) e (length (open_ids ?targets @ open_ids [q])) v4 = (Inr (), v5)"
      using close_audit_run by blast
    then show ?thesis using False c1 nets(1) post c2 m q
      by (simp add: close_books_def bind_def y_def tv del: close_periods.simps)
  qed
  then obtain r w' where "(if income_of w c = [] then bind (close_periods c user rows) (\<lambda>ids. bind (ask now) (\<lambda>clock.
        bind (mark_year fy (closed_year user clock)) (\<lambda>_.
        ret \<lparr>yc_fiscalYear = fy_id fy, yc_year = year, yc_closedAt = clock, yc_entry = '''', yc_periods = ids\<rparr>)))
      else close_books bus c year user fy rows re (income_of w c)) v = (Inr r, w')" by blast
  then have "close_fiscal_year bus c year user w = (Inr r, w')"
    using fy claim rev ne incv by (simp add: rows_def tv close_fiscal_year_def transaction_def bind_def cong: if_cong)
  then show ?thesis by blast
qed

section \<open>Witnesses\<close>

text \<open>A year of one period with a sale booked in it, and a retained earnings account.\<close>

definition year_start :: world where
  "year_start = books0\<lparr>t_account := t_account books0 @ [\<lparr>ac_id = ''R'', ac_company = ''C'', ac_code = ''3200'', ac_name = ''Retained'',
        ac_type = EQUITY, ac_normal = CreditNormal, ac_active = True, ac_cashOrBank = False, ac_deleted = None\<rparr>],
     t_fiscal_year := [\<lparr>fy_id = ''Y'', fy_company = ''C'', fy_year = 1970, fy_start = 0, fy_end = 10, fy_closed = False,
       fy_closedAt = None, fy_closedBy = None, fy_retained = None, fy_version = 0\<rparr>]\<rparr>"

definition year_books :: world where
  "year_books = snd (gl_post (\<lambda>_. None) (input0 (two_lines (Amount 10) (Amount 10))) year_start)"

lemma year_start_fresh: "fresh_books year_start"
  using books0_fresh by (simp add: fresh_books_def year_start_def) (simp add: books0_def)

lemma year_books_reachable: "ledger_reachable (\<lambda>_. None) year_books"
  unfolding year_books_def
  by (intro ledger_reachable.step [OF ledger_reachable.start [OF year_start_fresh]] ledger_step.post)
     (simp add: input0_def scale4_two_lines)

lemmas year_books_inv = ledger_reachable_inv [OF year_books_reachable ledger_bus_empty]

lemma year_books_facts:
  "distinct (map fp_id (t_period year_books))" "map ac_id (income_of year_books ''C'') = [''B'']"
  "find_first (\<lambda>r. fy_company r = ''C'' \<and> fy_year r = 1970) (t_fiscal_year year_books) =
    Some \<lparr>fy_id = ''Y'', fy_company = ''C'', fy_year = 1970, fy_start = 0, fy_end = 10, fy_closed = False,
      fy_closedAt = None, fy_closedBy = None, fy_retained = None, fy_version = 0\<rparr>"
  "\<forall>p \<in> set (t_period year_books). fp_company p = ''C'' \<and> fp_year p = 1970 \<longrightarrow> fp_start p \<le> fp_end p"
  "\<exists>p \<in> set (t_period year_books). fp_company p = ''C'' \<and> fp_year p = 1970 \<and> fp_status p = Open"
  "net_over year_books ''C'' ''B'' (year_periods year_books ''C'' 1970) = - 10"
  by code_simp+

lemma year_books_retained:
  "retained_earnings_account ''C'' \<lparr>fy_id = ''Y'', fy_company = ''C'', fy_year = 1970, fy_start = 0, fy_end = 10, fy_closed = False,
     fy_closedAt = None, fy_closedBy = None, fy_retained = None, fy_version = 0\<rparr> year_books = (Inr ''R'', year_books)"
proof -
  have "find_first (\<lambda>a. ac_code a = RETAINED_EARNINGS_CODE \<and> live_account ''C'' a) (t_account year_books) =
      Some \<lparr>ac_id = ''R'', ac_company = ''C'', ac_code = ''3200'', ac_name = ''Retained'', ac_type = EQUITY,
          ac_normal = CreditNormal, ac_active = True, ac_cashOrBank = False, ac_deleted = None\<rparr>" by code_simp
  then show ?thesis by (simp add: retained_earnings_account_def assert_valid_retained_earnings_account_def bind_def truthy_def)
qed

lemma open_year_can_be_closed_witness:
  "\<exists>r w'. close_fiscal_year (\<lambda>_. None) ''C'' 1970 ''U'' year_books = (Inr r, w')"
  by (rule open_year_can_be_closed [OF close_bus_empty year_books_inv year_books_facts(1) year_books_facts(3) _ year_books_retained
    year_books_facts(4,5)]) simp

lemma year_close_empties_the_income_statement_witness:
  "\<exists>w'. (\<forall>a \<in> set (income_of year_books ''C''). net_over w' ''C'' (ac_id a) (year_periods year_books ''C'' 1970) = 0) \<and>
    net_over year_books ''C'' ''B'' (year_periods year_books ''C'' 1970) = - 10"
proof -
  have "\<not> isl (fst (close_fiscal_year (\<lambda>_. None) ''C'' 1970 ''U'' year_books))" by code_simp
  then obtain r w' where "close_fiscal_year (\<lambda>_. None) ''C'' 1970 ''U'' year_books = (Inr r, w')" using run_succeeds by blast
  from year_close_empties_the_income_statement [OF close_bus_empty year_books_inv year_books_facts(1) this] year_books_facts(6)
  show ?thesis by (intro exI [of _ w']) simp
qed

text \<open>
  Only the close itself reads \<^verbatim>\<open>isClosed\<close>: the calendar, which every sale and till journal asks for its period, opens
  the period of the current month in a closed year as in any other, and posts into it.
\<close>

theorem closed_year_gets_open_periods:
  assumes "find_first (fiscal_year_is c (utc_year (now w))) (t_fiscal_year w) = Some fy" and "fy_closed fy"
    and "find_first (period_is c (utc_year (now w)) (utc_month (now w))) (t_period w) = None"
  shows "\<exists>p w'. ensure_current_calendar c w = (Inr (fy, p, True), w') \<and> p \<in> set (t_period w') \<and>
    fp_year p = fy_year fy \<and> fp_status p = Open \<and> fp_start p \<le> now w \<and> now w \<le> fp_end p"
proof -
  obtain fy' p w' where run: "ensure_current_calendar c w = (Inr (fy', p, fp_status p = Open), w')"
    and p: "find_first (period_is c (utc_year (now w)) (utc_month (now w))) (t_period w') = Some p"
    "fp_status p = Open" "fp_start p \<le> now w" "now w \<le> fp_end p"
    using ensure_current_calendar_run [of c w] assms(3) by auto
  have "fy' = fy"
    using run assms(1) by (auto simp: ensure_current_calendar_def upsert_fiscal_year_def Let_def bind_Inr_iff)
  moreover have "fy_year fy = utc_year (now w)" using find_first_SomeD [OF assms(1)] by (simp add: fiscal_year_is_def)
  moreover have "p \<in> set (t_period w')" "fp_year p = utc_year (now w)" using find_first_SomeD [OF p(1)] by (simp_all add: period_is_def)
  ultimately show ?thesis using run p by (intro exI [of _ p] exI [of _ w']) simp
qed

end
