(* ===== verification/MoneyPolicy.thy ===== *)
theory MoneyPolicy
  imports Ledger Text
begin

text \<open>
  The posting policy of financial transactions, \<^verbatim>\<open>finance/services/financial-transaction-posting.policy.ts\<close>: which
  transactions may reach the ledger and which two legs they post. It is pure; the service resolves the legs to
  accounts. Then what the policy promises: the side of the register follows the direction of the money.
\<close>

section \<open>The policy\<close>

datatype posting_leg = CashLeg | BankLeg | DestBankLeg | ChartLeg string

datatype posting_deny_code = DEFERRED_TYPE | UNRESOLVABLE_COUNTERPART | SALE_LINKED_REFUND | DIRECTION_MISMATCH | MISSING_LEG

datatype posting_activity = OPERATING | TRANSFER

datatype posting_plan =
    Postable (plan_debit: posting_leg) (plan_credit: posting_leg) (plan_activity: posting_activity)
  | NotPostable posting_deny_code string

definition money_type_name :: "money_type \<Rightarrow> string" where
  "money_type_name t = (case t of
       FT_CASH_IN \<Rightarrow> ''CASH_IN'' | FT_CASH_OUT \<Rightarrow> ''CASH_OUT'' | FT_BANK_DEPOSIT \<Rightarrow> ''BANK_DEPOSIT''
     | FT_BANK_WITHDRAWAL \<Rightarrow> ''BANK_WITHDRAWAL'' | FT_BANK_TRANSFER \<Rightarrow> ''BANK_TRANSFER'' | FT_CARD_DEPOSIT \<Rightarrow> ''CARD_DEPOSIT''
     | FT_CARD_WITHDRAWAL \<Rightarrow> ''CARD_WITHDRAWAL'' | FT_INTERNAL_TRANSFER \<Rightarrow> ''INTERNAL_TRANSFER'' | FT_FEE \<Rightarrow> ''FEE''
     | FT_INTEREST \<Rightarrow> ''INTEREST'' | FT_REFUND \<Rightarrow> ''REFUND'' | FT_LOAN_DISBURSEMENT \<Rightarrow> ''LOAN_DISBURSEMENT''
     | FT_LOAN_REPAYMENT \<Rightarrow> ''LOAN_REPAYMENT'' | FT_DIVIDEND \<Rightarrow> ''DIVIDEND'' | FT_TAX_PAYMENT \<Rightarrow> ''TAX_PAYMENT'')"

definition direction_name :: "money_direction \<Rightarrow> string" where
  "direction_name d = (case d of INFLOW \<Rightarrow> ''INFLOW'' | OUTFLOW \<Rightarrow> ''OUTFLOW'')"

definition DEFERRED_POSTING_TYPES :: "money_type list" where
  "DEFERRED_POSTING_TYPES = [FT_LOAN_DISBURSEMENT, FT_LOAN_REPAYMENT, FT_DIVIDEND, FT_TAX_PAYMENT]"

definition SALE_REFUND_OWNERSHIP :: "string list" where
  "SALE_REFUND_OWNERSHIP = [''SALE'', ''REFUND'', ''SALESREFUND'']"

text \<open>Upper case on the ASCII letters; everything that is not a letter A to Z is dropped.\<close>

definition claims_sale_refund_ownership :: "string option \<Rightarrow> bool" where
  "claims_sale_refund_ownership t = (case truthy t of
       None \<Rightarrow> False
     | Some s \<Rightarrow> filter (\<lambda>ch. 65 \<le> (of_char ch :: nat) \<and> (of_char ch :: nat) \<le> 90) (to_upper_ascii s) \<in> set SALE_REFUND_OWNERSHIP)"

definition REQUIRED_DIRECTION :: "money_type \<Rightarrow> money_direction option" where
  "REQUIRED_DIRECTION t = (case t of
       FT_CASH_IN \<Rightarrow> Some INFLOW | FT_CASH_OUT \<Rightarrow> Some OUTFLOW | FT_CARD_DEPOSIT \<Rightarrow> Some INFLOW
     | FT_CARD_WITHDRAWAL \<Rightarrow> Some OUTFLOW | FT_FEE \<Rightarrow> Some OUTFLOW | FT_INTEREST \<Rightarrow> Some INFLOW | _ \<Rightarrow> None)"

record plan_input =
  pn_type :: money_type
  pn_direction :: money_direction
  pn_cash :: "string option"
  pn_bank :: "string option"
  pn_destination :: "string option"
  pn_counterpart :: bool

definition DOMAIN_CODE :: string where "DOMAIN_CODE = ''__DOMAIN__''"

definition missing_leg :: "string \<Rightarrow> posting_plan" where
  "missing_leg which = NotPostable MISSING_LEG which"

definition needs_counterpart :: posting_plan where
  "needs_counterpart = NotPostable UNRESOLVABLE_COUNTERPART ''no resolvable economic counterpart''"

definition plan_posting :: "plan_input \<Rightarrow> posting_plan" where
  "plan_posting i =
     (let hasCash = truthy (pn_cash i) \<noteq> None; hasBank = truthy (pn_bank i) \<noteq> None;
          hasDestBank = truthy (pn_destination i) \<noteq> None; register = (if hasCash then CashLeg else BankLeg) in
      if pn_type i \<in> set DEFERRED_POSTING_TYPES then NotPostable DEFERRED_TYPE ''belongs to a deferred domain''
      else if REQUIRED_DIRECTION (pn_type i) \<notin> {None, Some (pn_direction i)} then NotPostable DIRECTION_MISMATCH ''requires the other direction''
      else case pn_type i of
        FT_BANK_DEPOSIT \<Rightarrow>
          if \<not> hasCash then missing_leg ''cashAccountId (source drawer)''
          else if \<not> hasBank then missing_leg ''bankAccountId (destination bank)''
          else Postable BankLeg CashLeg TRANSFER
      | FT_BANK_WITHDRAWAL \<Rightarrow>
          if \<not> hasBank then missing_leg ''bankAccountId (source bank)''
          else if \<not> hasCash then missing_leg ''cashAccountId (destination drawer)''
          else Postable CashLeg BankLeg TRANSFER
      | FT_BANK_TRANSFER \<Rightarrow>
          if \<not> hasBank then missing_leg ''bankAccountId (source bank)''
          else if \<not> hasDestBank then missing_leg ''destinationBankAccountId (destination bank)''
          else if pn_bank i = pn_destination i then NotPostable MISSING_LEG ''source and destination bank accounts must differ''
          else Postable DestBankLeg BankLeg TRANSFER
      | FT_INTERNAL_TRANSFER \<Rightarrow>
          if \<not> hasCash then missing_leg ''cashAccountId (one transfer leg)''
          else if \<not> hasBank then missing_leg ''bankAccountId (one transfer leg)''
          else if pn_direction i = INFLOW then Postable CashLeg BankLeg TRANSFER
          else Postable BankLeg CashLeg TRANSFER
      | FT_FEE \<Rightarrow>
          if hasCash = hasBank then missing_leg ''exactly one of cashAccountId / bankAccountId''
          else Postable (ChartLeg ''6100'') register OPERATING
      | FT_INTEREST \<Rightarrow>
          if hasCash = hasBank then missing_leg ''exactly one of cashAccountId / bankAccountId''
          else Postable register (ChartLeg ''4200'') OPERATING
      | FT_CASH_IN \<Rightarrow>
          if \<not> pn_counterpart i then needs_counterpart
          else if \<not> hasCash then missing_leg ''cashAccountId'' else Postable CashLeg (ChartLeg DOMAIN_CODE) OPERATING
      | FT_CARD_DEPOSIT \<Rightarrow>
          if \<not> pn_counterpart i then needs_counterpart
          else if \<not> hasBank then missing_leg ''bankAccountId'' else Postable BankLeg (ChartLeg DOMAIN_CODE) OPERATING
      | FT_CASH_OUT \<Rightarrow>
          if \<not> pn_counterpart i then needs_counterpart
          else if \<not> hasCash then missing_leg ''cashAccountId'' else Postable (ChartLeg DOMAIN_CODE) CashLeg OPERATING
      | FT_CARD_WITHDRAWAL \<Rightarrow>
          if \<not> pn_counterpart i then needs_counterpart
          else if \<not> hasBank then missing_leg ''bankAccountId'' else Postable (ChartLeg DOMAIN_CODE) BankLeg OPERATING
      | FT_REFUND \<Rightarrow>
          if \<not> pn_counterpart i then needs_counterpart
          else if hasCash = hasBank then missing_leg ''exactly one of cashAccountId / bankAccountId''
          else if pn_direction i = INFLOW then Postable register (ChartLeg DOMAIN_CODE) OPERATING
          else Postable (ChartLeg DOMAIN_CODE) register OPERATING
      | _ \<Rightarrow> NotPostable UNRESOLVABLE_COUNTERPART ''has no posting rule'')"

definition FT_POSTING_REFERENCE_TYPE :: string where
  "FT_POSTING_REFERENCE_TYPE = ''FINANCIAL_TRANSACTION''"

definition FT_REVERSAL_REFERENCE_TYPE :: string where
  "FT_REVERSAL_REFERENCE_TYPE = ''FINANCIAL_TRANSACTION_REVERSAL''"

section \<open>What the policy promises\<close>

definition register_leg :: "posting_leg \<Rightarrow> bool" where
  "register_leg l \<longleftrightarrow> (\<forall>code. l \<noteq> ChartLeg code)"

text \<open>The register a leg is about.\<close>

definition leg_register :: "posting_leg \<Rightarrow> plan_input \<Rightarrow> string option" where
  "leg_register l i = (case l of CashLeg \<Rightarrow> truthy (pn_cash i) | BankLeg \<Rightarrow> truthy (pn_bank i)
     | DestBankLeg \<Rightarrow> truthy (pn_destination i) | ChartLeg _ \<Rightarrow> None)"



end
