(* ===== verification/Money.thy ===== *)
theory Money
  imports CashShift MoneyPolicy
begin

text \<open>
  Financial transactions, \<^verbatim>\<open>finance/services/financial-transactions.service.ts\<close> with its repository, mapper and
  requests: money in and out of cash registers and bank accounts, recorded as a draft, posted to the ledger by
  the policy, frozen from then on, and reversed by a compensating transaction. The domain resolvers are
  registered by other modules (the sources register none): they are an argument of the operations.
\<close>

section \<open>Mapper and repository\<close>

definition posting_status_name :: "posting_status \<Rightarrow> string" where
  "posting_status_name s = (case s of MoneyDraft \<Rightarrow> ''DRAFT'' | MoneyPosted \<Rightarrow> ''POSTED'' | MoneyReversed \<Rightarrow> ''REVERSED'')"

definition money_entity :: "(decimal \<Rightarrow> string) \<Rightarrow> money_row \<Rightarrow> json" where
  "money_entity ds r = JObj
     [(''id'', JStr (mt_id r)), (''companyId'', JStr (mt_company r)), (''type'', JStr (money_type_name (mt_type r))),
      (''direction'', JStr (direction_name (mt_direction r))), (''amount'', JStr (ds (mt_amount r))),
      (''fee'', JStr (ds (mt_fee r))), (''netAmount'', JStr (ds (mt_net r))), (''currency'', JStr (mt_currency r)),
      (''exchangeRate'', JStr (ds (mt_rate r))), (''transactionDate'', JDate (mt_date r)),
      (''description'', jopt JStr (mt_description r)), (''referenceNumber'', jopt JStr (mt_number r)),
      (''isReconciled'', JBool (mt_reconciled r)), (''reconciledAt'', jopt JDate (mt_reconciledAt r)),
      (''cashAccountId'', jopt JStr (mt_cash r)), (''bankAccountId'', jopt JStr (mt_bank r)),
      (''destinationBankAccountId'', jopt JStr (mt_destination r)), (''postingStatus'', JStr (posting_status_name (mt_status r))),
      (''journalEntryId'', jopt JStr (mt_entry r)), (''idempotencyKey'', jopt JStr (mt_key r)),
      (''referenceType'', jopt JStr (mt_refType r)), (''referenceId'', jopt JStr (mt_refId r)),
      (''createdBy'', jopt JStr (mt_createdBy r)), (''rowVersion'', jint (mt_version r)), (''createdAt'', JDate (mt_createdAt r))]"

definition money_view :: "money_row \<Rightarrow> json wtx" where
  "money_view r = ask (\<lambda>w. money_entity (dec_str w) r)"

text \<open>The money columns, as \<^verbatim>\<open>Decimal(18,4)\<close> stores them.\<close>

definition normalize_money :: "money_row \<Rightarrow> money_row" where
  "normalize_money r = r\<lparr>mt_amount := round4 (mt_amount r), mt_fee := round4 (mt_fee r), mt_net := round4 (mt_net r)\<rparr>"

text \<open>\<^verbatim>\<open>create\<close>: the row from the data, its identifier and its time stamp.\<close>

definition insert_money :: "(string \<Rightarrow> int \<Rightarrow> money_row) \<Rightarrow> money_row wtx" where
  "insert_money data =
     bind fresh_uuid (\<lambda>u.
     bind (ask now) (\<lambda>clock.
     let row = normalize_money (data u clock) in
     bind (change (\<lambda>w. w\<lparr>t_money := t_money w @ [row]\<rparr>)) (\<lambda>_. ret row)))"

definition find_money :: "string \<Rightarrow> string \<Rightarrow> money_row option wtx" where
  "find_money i c = ask (\<lambda>w. find_first (\<lambda>r. mt_id r = i \<and> mt_company r = c) (t_money w))"

text \<open>Orders by a column and \<^verbatim>\<open>ILIKE\<close> are the database's.\<close>

record money_query =
  mq_from :: "int option"
  mq_to :: "int option"
  mq_type :: "string option"
  mq_direction :: "string option"
  mq_cash :: "string option"
  mq_bank :: "string option"
  mq_status :: "string option"
  mq_reconciled :: "bool option"
  mq_search :: "string option"
  mq_page :: "int option"
  mq_limit :: "int option"
  mq_sortBy :: "string option"
  mq_sortOrder :: "string option"

definition money_query_hit :: "(string \<Rightarrow> string \<Rightarrow> bool) \<Rightarrow> string \<Rightarrow> money_query \<Rightarrow> money_row \<Rightarrow> bool" where
  "money_query_hit ilike c q r \<longleftrightarrow> mt_company r = c \<and>
     (case truthy (mq_type q) of None \<Rightarrow> True | Some s \<Rightarrow> money_type_name (mt_type r) = s) \<and>
     (case truthy (mq_direction q) of None \<Rightarrow> True | Some s \<Rightarrow> direction_name (mt_direction r) = s) \<and>
     (case truthy (mq_cash q) of None \<Rightarrow> True | Some s \<Rightarrow> mt_cash r = Some s) \<and>
     (case truthy (mq_bank q) of None \<Rightarrow> True | Some s \<Rightarrow> mt_bank r = Some s) \<and>
     (case mq_reconciled q of None \<Rightarrow> True | Some b \<Rightarrow> mt_reconciled r = b) \<and>
     (case truthy (mq_status q) of None \<Rightarrow> True | Some s \<Rightarrow> posting_status_name (mt_status r) = s) \<and>
     (case mq_from q of None \<Rightarrow> True | Some t \<Rightarrow> t \<le> mt_date r) \<and>
     (case mq_to q of None \<Rightarrow> True | Some t \<Rightarrow> mt_date r \<le> t) \<and>
     (case truthy (mq_search q) of None \<Rightarrow> True | Some s \<Rightarrow> (case mt_description r of None \<Rightarrow> False | Some d \<Rightarrow> ilike s d))"

definition find_money_page ::
  "(string \<Rightarrow> string \<Rightarrow> bool) \<Rightarrow> (string \<Rightarrow> string \<Rightarrow> money_row list \<Rightarrow> money_row list) \<Rightarrow> string \<Rightarrow> money_query \<Rightarrow> int \<Rightarrow> int \<Rightarrow>
     (money_row list \<times> nat) wtx" where
  "find_money_page ilike ordered c q page limit = ask (\<lambda>w.
     let hits = find_many (money_query_hit ilike c q) (t_money w);
         sortBy = (case truthy (mq_sortBy q) of None \<Rightarrow> ''createdAt'' | Some s \<Rightarrow> s);
         sortOrder = (case truthy (mq_sortOrder q) of None \<Rightarrow> ''desc'' | Some s \<Rightarrow> s) in
     (take (nat limit) (drop (nat ((page - 1) * limit)) (ordered sortBy sortOrder hits)), length hits))"

text \<open>
  \<^verbatim>\<open>update\<close> hands its data to \<^verbatim>\<open>updateMany\<close>, which has no relation fields: a \<^verbatim>\<open>connect\<close> or \<^verbatim>\<open>disconnect\<close> in the data is
  an unknown argument.
\<close>

definition update_money :: "string \<Rightarrow> bool \<Rightarrow> (money_row \<Rightarrow> money_row) \<Rightarrow> string \<Rightarrow> int \<Rightarrow> money_row wtx" where
  "update_money i relations f c v =
     bind (require (\<not> relations) (JsError ''Unknown argument'')) (\<lambda>_.
     cas_write t_money t_money_update
       (\<lambda>r. mt_id r = i \<and> mt_company r = c \<and> mt_version r = v)
       (\<lambda>r. mt_id r = i \<and> mt_company r = c) (\<lambda>r. mt_id r = i)
       (bump_ver (\<lambda>r. r\<lparr>mt_version := mt_version r + 1\<rparr>) (normalize_money \<circ> f))
       (NotFound ''Financial transaction not found'')
       (Conflict ''Financial transaction was modified by another user''))"

interpretation money_table: optimistic_table t_money mt_id mt_company mt_version
    "\<lambda>f. \<forall>r. mt_id (f r) = mt_id r \<and> mt_company (f r) = mt_company r \<and> mt_version (f r) = mt_version r"
    "\<lambda>i. update_money i False"
proof (unfold_locales, goal_cases)
  case (1 f r)
  then show ?case by simp
next
  case (2 f i c v w r' w')
  then show ?case by (auto simp: update_money_def bind_def dest: cas_write_Inr)
next
  case (3 f i c v w r' w')
  have "t_money w' = update_rows (\<lambda>r. mt_id r = i \<and> mt_company r = c \<and> mt_version r = v)
      (bump_ver (\<lambda>r. r\<lparr>mt_version := mt_version r + 1\<rparr>) (normalize_money \<circ> f)) (t_money w)"
    using 3(2) by (auto simp: update_money_def bind_def dest!: cas_write_Inr)
  moreover have "\<forall>r. mt_id (normalize_money (f r)) = mt_id r \<and> mt_company (normalize_money (f r)) = mt_company r \<and>
      mt_version (normalize_money (f r)) = mt_version r"
    using 3(1) by (simp add: normalize_money_def)
  ultimately show ?case
    by - (rule exI [of _ "bump_ver (\<lambda>r. r\<lparr>mt_version := mt_version r + 1\<rparr>) (normalize_money \<circ> f)"], simp add: bump_ver_def)
next
  case (4 w i c v f)
  then show ?case
    by (simp add: update_money_def bind_def) (rule exI, rule cas_write_miss [where hit = "\<lambda>r. mt_id r = i \<and> mt_company r = c \<and> mt_version r = v"], blast)
qed

definition claim_posting_status :: "string \<Rightarrow> string \<Rightarrow> posting_status \<Rightarrow> posting_status \<Rightarrow> int \<Rightarrow> nat wtx" where
  "claim_posting_status i c before after v =
     bind (ask (\<lambda>w. count_rows (\<lambda>r. mt_id r = i \<and> mt_company r = c \<and> mt_status r = before \<and> mt_version r = v) (t_money w))) (\<lambda>n.
     bind (change (\<lambda>w. w\<lparr>t_money := update_rows (\<lambda>r. mt_id r = i \<and> mt_company r = c \<and> mt_status r = before \<and> mt_version r = v)
       (\<lambda>r. r\<lparr>mt_status := after, mt_version := mt_version r + 1\<rparr>) (t_money w)\<rparr>)) (\<lambda>_. ret n))"

definition link_journal_entry :: "string \<Rightarrow> string \<Rightarrow> string \<Rightarrow> unit wtx" where
  "link_journal_entry i c entry =
     change (\<lambda>w. w\<lparr>t_money := update_rows (\<lambda>r. mt_id r = i \<and> mt_company r = c)
       (\<lambda>r. r\<lparr>mt_entry := Some entry, mt_version := mt_version r + 1\<rparr>) (t_money w)\<rparr>)"

definition find_types_by_ids :: "string \<Rightarrow> string list \<Rightarrow> (string \<times> money_type) list wtx" where
  "find_types_by_ids c is = (if is = [] then ret []
     else ask (\<lambda>w. map (\<lambda>r. (mt_id r, mt_type r)) (find_many (\<lambda>r. mt_company r = c \<and> mt_id r \<in> set is) (t_money w))))"

section \<open>The accounts of a posting\<close>

type_synonym counterpart_resolver = "string \<Rightarrow> string \<Rightarrow> string \<Rightarrow> string option wtx"
type_synonym counterparts = "string \<rightharpoonup> counterpart_resolver"

definition register_counterpart_resolver :: "string \<Rightarrow> counterpart_resolver \<Rightarrow> counterparts \<Rightarrow> counterparts" where
  "register_counterpart_resolver refType resolver cps = cps(to_upper_ascii refType \<mapsto> resolver)"

definition live_account_id :: "string \<Rightarrow> string \<Rightarrow> string option wtx" where
  "live_account_id c i = ask (\<lambda>w. map_option ac_id (find_first (\<lambda>a. ac_id a = i \<and> live_account c a) (t_account w)))"

definition assert_registers_belong :: "string option \<Rightarrow> string option \<Rightarrow> string option \<Rightarrow> string \<Rightarrow> unit wtx" where
  "assert_registers_belong cash bank destination c =
     bind (case truthy cash of None \<Rightarrow> ret ()
         | Some i \<Rightarrow> bind (ask (\<lambda>w. find_first (\<lambda>r. ca_id r = i \<and> ca_company r = c \<and> ca_active r \<and> ca_deleted r = None) (t_register w)))
             (\<lambda>found. require (found \<noteq> None) (NotFound ''Cash account not found''))) (\<lambda>_.
     bind (case truthy bank of None \<Rightarrow> ret ()
         | Some i \<Rightarrow> bind (ask (\<lambda>w. find_first (\<lambda>r. bk_id r = i \<and> bk_company r = c \<and> bk_active r \<and> bk_deleted r = None) (t_bank w)))
             (\<lambda>found. require (found \<noteq> None) (NotFound ''Bank account not found''))) (\<lambda>_.
     case truthy destination of None \<Rightarrow> ret ()
       | Some i \<Rightarrow> bind (ask (\<lambda>w. find_first (\<lambda>r. bk_id r = i \<and> bk_company r = c \<and> bk_active r \<and> bk_deleted r = None) (t_bank w)))
           (\<lambda>found. require (found \<noteq> None) (NotFound ''Destination bank account not found''))))"

definition resolve_domain_counterpart :: "counterparts \<Rightarrow> money_row \<Rightarrow> string \<Rightarrow> string option wtx" where
  "resolve_domain_counterpart cps ft c =
     (case (truthy (mt_refType ft), truthy (mt_refId ft)) of
       (Some t, Some i) \<Rightarrow>
         (case cps (to_upper_ascii t) of
           None \<Rightarrow> ret None
         | Some resolver \<Rightarrow>
             bind (resolver t i c) (\<lambda>resolved.
             case resolved of None \<Rightarrow> ret None | Some a \<Rightarrow> live_account_id c a))
     | _ \<Rightarrow> ret None)"

definition sale_link_exists :: "money_row \<Rightarrow> string \<Rightarrow> bool wtx" where
  "sale_link_exists ft c =
     (case truthy (mt_refId ft) of
       None \<Rightarrow> ret False
     | Some i \<Rightarrow> ask (\<lambda>w. find_first (\<lambda>s. sa_id s = i \<and> sa_company s = c) (t_sale w) \<noteq> None \<or>
         find_first (\<lambda>r. rf_id r = i \<and> rf_company r = c) (t_refund w) \<noteq> None))"

definition assert_not_sale_linked :: "money_row \<Rightarrow> bool \<Rightarrow> unit wtx" where
  "assert_not_sale_linked ft linked =
     bind (require (\<not> claims_sale_refund_ownership (mt_refType ft)) (BadRequest ''REFUND claims sale/refund-domain ownership'')) (\<lambda>_.
     require (\<not> linked) (BadRequest ''REFUND references an existing Sale/SalesRefund''))"

text \<open>The account linked to a live register.\<close>

definition find_linked_chart_account :: "bool \<Rightarrow> string \<Rightarrow> string \<Rightarrow> string option wtx" where
  "find_linked_chart_account isCash i c =
     bind (ask (\<lambda>w. if isCash
       then map_option ca_chart (find_first (\<lambda>r. ca_id r = i \<and> ca_company r = c \<and> ca_active r \<and> ca_deleted r = None) (t_register w))
       else map_option bk_chart (find_first (\<lambda>r. bk_id r = i \<and> bk_company r = c \<and> bk_active r \<and> bk_deleted r = None) (t_bank w)))) (\<lambda>found.
     bind (require_some found (BadRequest ''Cash/bank register is not available for posting'')) (\<lambda>chart.
     case truthy chart of None \<Rightarrow> ret None | Some a \<Rightarrow> live_account_id c a))"

definition FAMILY_FALLBACK_CODE :: "bool \<Rightarrow> string" where
  "FAMILY_FALLBACK_CODE isCash = (if isCash then ''1010'' else ''1020'')"

definition resolve_leg_account :: "posting_leg \<Rightarrow> money_row \<Rightarrow> string \<Rightarrow> string wtx" where
  "resolve_leg_account leg ft c =
     (case leg of
       ChartLeg code \<Rightarrow>
         bind (require (code \<noteq> '''' \<and> code \<noteq> DOMAIN_CODE) (BadRequest ''FinancialTransaction has no resolvable economic counterpart.'')) (\<lambda>_.
         resolve_system_account c code)
     | _ \<Rightarrow>
         bind (require_some (truthy (case leg of CashLeg \<Rightarrow> mt_cash ft | BankLeg \<Rightarrow> mt_bank ft | _ \<Rightarrow> mt_destination ft))
           (BadRequest ''FinancialTransaction is missing the cash/bank register for posting.'')) (\<lambda>i.
         bind (find_linked_chart_account (leg = CashLeg) i c) (\<lambda>linked.
         case linked of Some a \<Rightarrow> ret a | None \<Rightarrow> resolve_system_account c (FAMILY_FALLBACK_CODE (leg = CashLeg)))))"

definition resolve_plan_leg :: "posting_leg \<Rightarrow> string option \<Rightarrow> money_row \<Rightarrow> string \<Rightarrow> string wtx" where
  "resolve_plan_leg leg counterpart ft c =
     (if leg = ChartLeg DOMAIN_CODE then
        bind (require_some (truthy counterpart) (BadRequest ''FinancialTransaction has no resolvable economic counterpart.'')) (\<lambda>i.
        bind (live_account_id c i) (\<lambda>found.
        require_some found (BadRequest ''Resolved counterpart account is not available for this company.'')))
      else resolve_leg_account leg ft c)"

section \<open>Creating a draft\<close>

text \<open>The texts of amounts are numerals in canonical form (\<open>Amount\<close>), empty (\<open>Blank\<close>) or no numeral (\<open>Garbled\<close>).\<close>

record money_dto =
  md_type :: money_type
  md_direction :: money_direction
  md_amount :: amount
  md_fee :: "amount option"
  md_currency :: "string option"
  md_date :: "int option"
  md_description :: "string option"
  md_number :: "string option"
  md_cash :: "string option"
  md_bank :: "string option"
  md_destination :: "string option"
  md_refType :: "string option"
  md_refId :: "string option"
  md_reconciled :: "bool option"

definition new_decimal :: "amount \<Rightarrow> decimal wtx" where
  "new_decimal a = (case a of Amount d \<Rightarrow> ret d | _ \<Rightarrow> throw DecimalError)"

definition or_zero :: "amount option \<Rightarrow> amount" where
  "or_zero fee = (case fee of None \<Rightarrow> Amount 0 | Some Blank \<Rightarrow> Amount 0 | Some a \<Rightarrow> a)"

definition amount_json :: "(decimal \<Rightarrow> string) \<Rightarrow> amount \<Rightarrow> json" where
  "amount_json ds a = JStr (case a of Blank \<Rightarrow> '''' | Amount d \<Rightarrow> ds d | Garbled \<Rightarrow> ''?'')"

definition money_request :: "(decimal \<Rightarrow> string) \<Rightarrow> money_dto \<Rightarrow> string \<Rightarrow> json" where
  "money_request ds d user = JObj [(''dto'', JObj ([(''type'', JStr (money_type_name (md_type d))),
      (''direction'', JStr (direction_name (md_direction d))), (''amount'', amount_json ds (md_amount d))] @
     (case md_fee d of None \<Rightarrow> [] | Some x \<Rightarrow> [(''fee'', amount_json ds x)]) @
     (case md_currency d of None \<Rightarrow> [] | Some s \<Rightarrow> [(''currency'', JStr s)]) @
     (case md_date d of None \<Rightarrow> [] | Some t \<Rightarrow> [(''transactionDate'', JDate t)]) @
     (case md_description d of None \<Rightarrow> [] | Some s \<Rightarrow> [(''description'', JStr s)]) @
     (case md_number d of None \<Rightarrow> [] | Some s \<Rightarrow> [(''referenceNumber'', JStr s)]) @
     (case md_cash d of None \<Rightarrow> [] | Some s \<Rightarrow> [(''cashAccountId'', JStr s)]) @
     (case md_bank d of None \<Rightarrow> [] | Some s \<Rightarrow> [(''bankAccountId'', JStr s)]) @
     (case md_destination d of None \<Rightarrow> [] | Some s \<Rightarrow> [(''destinationBankAccountId'', JStr s)]) @
     (case md_refType d of None \<Rightarrow> [] | Some s \<Rightarrow> [(''referenceType'', JStr s)]) @
     (case md_refId d of None \<Rightarrow> [] | Some s \<Rightarrow> [(''referenceId'', JStr s)]) @
     (case md_reconciled d of None \<Rightarrow> [] | Some b \<Rightarrow> [(''isReconciled'', JBool b)]))), (''userId'', JStr user)]"

definition draft_money ::
  "money_dto \<Rightarrow> string \<Rightarrow> string \<Rightarrow> string option \<Rightarrow> decimal \<Rightarrow> decimal \<Rightarrow> decimal \<Rightarrow> string \<Rightarrow> string \<Rightarrow> int \<Rightarrow> money_row" where
  "draft_money d user c key amount fee net companyCurrency u clock =
     \<lparr>mt_id = u, mt_company = c, mt_type = md_type d, mt_direction = md_direction d, mt_amount = amount, mt_fee = fee,
      mt_net = net, mt_currency = (case truthy (md_currency d) of None \<Rightarrow> companyCurrency | Some s \<Rightarrow> s), mt_rate = 1,
      mt_date = (case md_date d of None \<Rightarrow> clock | Some t \<Rightarrow> t), mt_description = truthy (md_description d),
      mt_number = truthy (md_number d), mt_reconciled = (case md_reconciled d of None \<Rightarrow> False | Some b \<Rightarrow> b),
      mt_reconciledAt = None, mt_cash = truthy (md_cash d), mt_bank = truthy (md_bank d),
      mt_destination = truthy (md_destination d), mt_refType = truthy (md_refType d), mt_refId = truthy (md_refId d),
      mt_status = MoneyDraft, mt_entry = None, mt_key = truthy key, mt_createdBy = Some user, mt_version = 0, mt_createdAt = clock\<rparr>"

definition money_audit :: "string \<Rightarrow> string \<Rightarrow> string \<Rightarrow> string \<Rightarrow> money_row option \<Rightarrow> money_row \<Rightarrow> unit wtx" where
  "money_audit c user i action before after =
     bind (ask (\<lambda>w. (map_option (money_entity (dec_str w)) before, money_entity (dec_str w) after))) (\<lambda>(old, new).
     audit_log \<lparr>au_company = Some c, au_user = user, au_entity = ''FinancialTransaction'', au_entityId = i,
       au_action = action, au_before = old, au_after = Some new\<rparr>)"

definition create_money_work :: "money_dto \<Rightarrow> string \<Rightarrow> string \<Rightarrow> string option \<Rightarrow> json wtx" where
  "create_money_work d user c key =
     bind (new_decimal (md_amount d)) (\<lambda>amount.
     bind (new_decimal (or_zero (md_fee d))) (\<lambda>fee.
     bind (get_base_currency c) (\<lambda>companyCurrency.
     bind (require (truthy (md_currency d) \<in> {None, Some companyCurrency}) (BadRequest ''Currency does not match company currency'')) (\<lambda>_.
     bind (assert_registers_belong (md_cash d) (md_bank d) (md_destination d) c) (\<lambda>_.
     bind (insert_money (draft_money d user c key amount fee (amount - fee) companyCurrency)) (\<lambda>created.
     bind (money_audit c user (mt_id created) ''CREATE'' None created) (\<lambda>_.
     money_view created)))))))"

definition create_money :: "money_dto \<Rightarrow> string \<Rightarrow> string \<Rightarrow> string option \<Rightarrow> (int \<times> json) wtx" where
  "create_money d user c key =
     bind (ask dec_str) (\<lambda>ds.
     run_with_idempotency c key ''financial-transactions.create'' (money_request ds d user) 201 (create_money_work d user c key))"

section \<open>Posting\<close>

definition plan_input_of :: "money_row \<Rightarrow> bool \<Rightarrow> plan_input" where
  "plan_input_of ft has = \<lparr>pn_type = mt_type ft, pn_direction = mt_direction ft, pn_cash = mt_cash ft, pn_bank = mt_bank ft,
     pn_destination = mt_destination ft, pn_counterpart = has\<rparr>"

definition money_lines :: "money_row \<Rightarrow> string \<Rightarrow> string \<Rightarrow> post_line list" where
  "money_lines ft debit credit =
     (let x = round4 (mt_amount ft); s = money_type_name (mt_type ft) @ '' '' @ direction_name (mt_direction ft) in
      [gl_line debit x 0 s, gl_line credit 0 x s])"

definition money_input :: "money_row \<Rightarrow> string \<Rightarrow> string \<Rightarrow> string \<Rightarrow> string \<Rightarrow> string \<Rightarrow> post_input" where
  "money_input ft user c period debit credit =
     \<lparr>pi_company = c, pi_period = period, pi_date = mt_date ft,
      pi_description = Some (case mt_description ft of Some s \<Rightarrow> s
        | None \<Rightarrow> ''FinancialTransaction '' @ money_type_name (mt_type ft) @ '' '' @ mt_id ft),
      pi_refType = Some FT_POSTING_REFERENCE_TYPE, pi_refId = Some (mt_id ft), pi_createdBy = user, pi_clientOp = None,
      pi_lines = money_lines ft debit credit\<rparr>"

definition status_audit :: "string \<Rightarrow> string \<Rightarrow> string \<Rightarrow> string \<Rightarrow> posting_status \<Rightarrow> posting_status \<Rightarrow> (string \<times> json) list \<Rightarrow> unit wtx" where
  "status_audit c user i action before after extra =
     audit_log \<lparr>au_company = Some c, au_user = user, au_entity = ''FinancialTransaction'', au_entityId = i, au_action = action,
       au_before = Some (JObj [(''postingStatus'', JStr (posting_status_name before))]),
       au_after = Some (JObj ((''postingStatus'', JStr (posting_status_name after)) # extra))\<rparr>"

text \<open>The checks before the claim, which only read.\<close>

definition money_plan :: "counterparts \<Rightarrow> money_row \<Rightarrow> string \<Rightarrow> (string option \<times> posting_plan) wtx" where
  "money_plan cps ft c =
     bind (get_base_currency c) (\<lambda>companyCurrency.
     bind (require (mt_currency ft = companyCurrency) (BadRequest ''Cannot post in another currency than the base currency'')) (\<lambda>_.
     bind (require (0 < mt_amount ft) (BadRequest ''Cannot post a FinancialTransaction with a non-positive amount'')) (\<lambda>_.
     bind (if mt_type ft = FT_REFUND then bind (sale_link_exists ft c) (assert_not_sale_linked ft) else ret ()) (\<lambda>_.
     bind (resolve_domain_counterpart cps ft c) (\<lambda>counterpart.
     ret (counterpart, plan_posting (plan_input_of ft (counterpart \<noteq> None))))))))"

text \<open>After the claim: calendar, period, accounts, journal and link.\<close>

definition book_money ::
  "event_bus \<Rightarrow> string \<Rightarrow> string \<Rightarrow> money_row \<Rightarrow> string option \<Rightarrow> posting_leg \<Rightarrow> posting_leg \<Rightarrow> string wtx" where
  "book_money bus user c ft counterpart debit credit =
     bind (ensure_current_calendar c) (\<lambda>_.
     bind (resolve_open_period c (mt_date ft)) (\<lambda>period.
     bind (resolve_plan_leg debit counterpart ft c) (\<lambda>debitAccount.
     bind (resolve_plan_leg credit counterpart ft c) (\<lambda>creditAccount.
     bind (execute_post bus (money_input ft user c period debitAccount creditAccount)) (\<lambda>posted.
     bind (link_journal_entry (mt_id ft) c (gp_id posted)) (\<lambda>_. ret (gp_id posted)))))))"

definition post_planned ::
  "event_bus \<Rightarrow> string \<Rightarrow> string \<Rightarrow> string \<Rightarrow> money_row \<Rightarrow> string option \<Rightarrow> posting_leg \<Rightarrow> posting_leg \<Rightarrow> json wtx" where
  "post_planned bus i user c ft counterpart debit credit =
     bind (claim_posting_status i c MoneyDraft MoneyPosted (mt_version ft)) (\<lambda>claimed.
     bind (require (claimed \<noteq> 0) (Conflict ''Financial transaction was posted or modified concurrently'')) (\<lambda>_.
     bind (book_money bus user c ft counterpart debit credit) (\<lambda>entry.
     bind (status_audit c user i ''POST'' MoneyDraft MoneyPosted [(''journalEntryId'', JStr entry)]) (\<lambda>_.
     bind (find_money i c) (\<lambda>updated.
     bind (require_some updated (JsError ''null'')) money_view)))))"

definition apply_post :: "event_bus \<Rightarrow> counterparts \<Rightarrow> string \<Rightarrow> string \<Rightarrow> string \<Rightarrow> json wtx" where
  "apply_post bus cps i user c =
     bind (find_money i c) (\<lambda>found.
     bind (require_some found (NotFound ''Financial transaction not found'')) (\<lambda>ft.
     bind (require (mt_status ft = MoneyDraft) (Conflict ''Financial transaction cannot be posted again'')) (\<lambda>_.
     bind (money_plan cps ft c) (\<lambda>(counterpart, plan).
     case plan of
       NotPostable code message \<Rightarrow> throw (BadRequest (''FinancialTransaction cannot be posted: '' @ message))
     | Postable debit credit activity \<Rightarrow> post_planned bus i user c ft counterpart debit credit))))"

definition post_money :: "event_bus \<Rightarrow> counterparts \<Rightarrow> string \<Rightarrow> string \<Rightarrow> string \<Rightarrow> string option \<Rightarrow> (int \<times> json) wtx" where
  "post_money bus cps i user c key =
     run_with_idempotency c key ''financial-transactions.post'' (JObj [(''id'', JStr i), (''userId'', JStr user)]) 200 (apply_post bus cps i user c)"

section \<open>Reversing\<close>

definition reason_text :: "string option \<Rightarrow> string" where
  "reason_text reason = (case reason of Some s \<Rightarrow> s | None \<Rightarrow> ''manual reversal'')"

definition money_reversal_input :: "money_row \<Rightarrow> entry_row \<Rightarrow> string \<Rightarrow> string \<Rightarrow> string option \<Rightarrow> string \<Rightarrow> int \<Rightarrow> post_input" where
  "money_reversal_input ft original user c reason period clock =
     \<lparr>pi_company = c, pi_period = period, pi_date = clock,
      pi_description = Some (''Reversal of FinancialTransaction '' @ mt_id ft @ '': '' @ reason_text reason),
      pi_refType = Some FT_REVERSAL_REFERENCE_TYPE, pi_refId = mt_entry ft, pi_createdBy = user, pi_clientOp = None,
      pi_lines = map (\<lambda>l. \<lparr>pl_account = jl_account l, pl_debit = Amount (jl_credit l), pl_credit = Amount (jl_debit l),
        pl_description = Some (''REVERSAL: '' @ (case reason of Some s \<Rightarrow> s | None \<Rightarrow> ''FinancialTransaction '' @ mt_id ft))\<rparr>) (je_lines original)\<rparr>"

definition other_direction :: "money_direction \<Rightarrow> money_direction" where
  "other_direction d = (if d = INFLOW then OUTFLOW else INFLOW)"

text \<open>The compensating transaction, posted from the start.\<close>

definition compensating_money :: "money_row \<Rightarrow> string \<Rightarrow> string \<Rightarrow> string option \<Rightarrow> string \<Rightarrow> int \<Rightarrow> string \<Rightarrow> int \<Rightarrow> money_row" where
  "compensating_money ft user c reason entry clock u created =
     \<lparr>mt_id = u, mt_company = c, mt_type = mt_type ft, mt_direction = other_direction (mt_direction ft),
      mt_amount = mt_amount ft, mt_fee = 0, mt_net = mt_amount ft, mt_currency = mt_currency ft, mt_rate = 1, mt_date = clock,
      mt_description = Some (''Reversal of '' @ mt_id ft @ '': '' @ reason_text reason), mt_number = None,
      mt_reconciled = False, mt_reconciledAt = None, mt_cash = mt_cash ft, mt_bank = mt_bank ft,
      mt_destination = mt_destination ft, mt_refType = Some FT_REVERSAL_REFERENCE_TYPE, mt_refId = Some (mt_id ft),
      mt_status = MoneyPosted, mt_entry = Some entry, mt_key = None, mt_createdBy = Some user, mt_version = 0, mt_createdAt = created\<rparr>"

definition apply_reverse :: "event_bus \<Rightarrow> string \<Rightarrow> string \<Rightarrow> string \<Rightarrow> string option \<Rightarrow> json wtx" where
  "apply_reverse bus i user c reason =
     bind (find_money i c) (\<lambda>found.
     bind (require_some found (NotFound ''Financial transaction not found'')) (\<lambda>ft.
     bind (require (mt_status ft = MoneyPosted \<and> truthy (mt_entry ft) \<noteq> None)
       (Conflict ''Only a POSTED FinancialTransaction with a journal entry can be reversed'')) (\<lambda>_.
     bind (claim_posting_status i c MoneyPosted MoneyReversed (mt_version ft)) (\<lambda>claimed.
     bind (require (claimed \<noteq> 0) (Conflict ''Financial transaction was reversed or modified concurrently'')) (\<lambda>_.
     bind (ask (\<lambda>w. find_first (\<lambda>e. Some (je_id e) = mt_entry ft \<and> je_company e = c) (t_entry w))) (\<lambda>original.
     bind (require (case original of None \<Rightarrow> False | Some e \<Rightarrow> je_status e = Posted)
       (BadRequest ''Original journal entry is not available for reversal'')) (\<lambda>_.
     bind (ensure_current_calendar c) (\<lambda>_.
     bind (ask now) (\<lambda>clock.
     bind (resolve_open_period c clock) (\<lambda>period.
     bind (execute_post bus (money_reversal_input ft (the original) user c reason period clock)) (\<lambda>reversal.
     bind (insert_money (compensating_money ft user c reason (gp_id reversal) clock)) (\<lambda>compensating.
     bind (status_audit c user i ''REVERSE'' MoneyPosted MoneyReversed
       [(''compensatingId'', JStr (mt_id compensating)), (''reversalEntryId'', JStr (gp_id reversal))]) (\<lambda>_.
     money_view compensating)))))))))))))"

definition reverse_money :: "event_bus \<Rightarrow> string \<Rightarrow> string \<Rightarrow> string \<Rightarrow> string option \<Rightarrow> string option \<Rightarrow> (int \<times> json) wtx" where
  "reverse_money bus i user c reason key =
     run_with_idempotency c key ''financial-transactions.reverse''
       (JObj ([(''id'', JStr i), (''userId'', JStr user)] @ (case reason of None \<Rightarrow> [] | Some s \<Rightarrow> [(''reason'', JStr s)]))) 200
       (apply_reverse bus i user c reason)"

section \<open>Reading and editing\<close>

definition find_all_money ::
  "(string \<Rightarrow> string \<Rightarrow> bool) \<Rightarrow> (string \<Rightarrow> string \<Rightarrow> money_row list \<Rightarrow> money_row list) \<Rightarrow> money_query \<Rightarrow> string \<Rightarrow>
     (json list \<times> nat \<times> int \<times> int) wtx" where
  "find_all_money ilike ordered q c =
     (let page = (case mq_page q of None \<Rightarrow> 1 | Some p \<Rightarrow> p); limit = (case mq_limit q of None \<Rightarrow> 20 | Some l \<Rightarrow> l) in
      bind (require (\<not> (page < 1 \<or> limit < 1)) (BadRequest ''Page and limit must be positive'')) (\<lambda>_.
      bind (find_money_page ilike ordered c q page limit) (\<lambda>(rows, n).
      bind (ask dec_str) (\<lambda>ds. ret (map (money_entity ds) rows, n, page, limit)))))"

definition find_money_by_id :: "string \<Rightarrow> string \<Rightarrow> json wtx" where
  "find_money_by_id i c =
     bind (find_money i c) (\<lambda>found. bind (require_some found (NotFound ''Financial transaction not found'')) money_view)"

text \<open>
  A field of an edit is absent, or present with a value; a nullable column can be set to null. The validation
  of the request refuses nothing else that matters here.
\<close>

record money_edit =
  me_type :: "money_type option"
  me_direction :: "money_direction option"
  me_amount :: "amount option"
  me_fee :: "amount option"
  me_currency :: "string option"
  me_date :: "int option"
  me_description :: "string option option"
  me_number :: "string option option"
  me_cash :: "string option option"
  me_bank :: "string option option"
  me_destination :: "string option option"
  me_refType :: "string option option"
  me_refId :: "string option option"
  me_reconciled :: "bool option"

text \<open>Whether an edit touches a financial field (\<^verbatim>\<open>FROZEN_FIELDS\<close>), and whether it writes a relation.\<close>

definition FROZEN_FIELDS :: "money_edit \<Rightarrow> bool" where
  "FROZEN_FIELDS d \<longleftrightarrow> me_amount d \<noteq> None \<or> me_type d \<noteq> None \<or> me_direction d \<noteq> None \<or> me_currency d \<noteq> None \<or> me_fee d \<noteq> None \<or>
     me_cash d \<noteq> None \<or> me_bank d \<noteq> None \<or> me_destination d \<noteq> None \<or> me_date d \<noteq> None \<or> me_refType d \<noteq> None \<or> me_refId d \<noteq> None"

definition writes_relation :: "money_edit \<Rightarrow> bool" where
  "writes_relation d \<longleftrightarrow> me_cash d \<noteq> None \<or> me_bank d \<noteq> None \<or> me_destination d \<noteq> None"

definition given :: "'a option \<Rightarrow> 'a \<Rightarrow> 'a" where
  "given v old = (case v of None \<Rightarrow> old | Some x \<Rightarrow> x)"

definition normalized :: "amount option \<Rightarrow> decimal option wtx" where
  "normalized v = (case v of None \<Rightarrow> ret None | Some a \<Rightarrow> bind (new_decimal a) (\<lambda>x. ret (Some x)))"

text \<open>With a new fee the net amount is computed from the amount as it was.\<close>

definition edited_net :: "money_edit \<Rightarrow> money_row \<Rightarrow> decimal option wtx" where
  "edited_net d before = (case me_fee d of
       None \<Rightarrow> ret None
     | Some _ \<Rightarrow> bind (new_decimal (or_zero (me_fee d))) (\<lambda>fee. ret (Some (mt_amount before - fee))))"

definition edited_money :: "money_edit \<Rightarrow> decimal option \<Rightarrow> decimal option \<Rightarrow> decimal option \<Rightarrow> money_row \<Rightarrow> money_row" where
  "edited_money d amount fee net r =
     r\<lparr>mt_description := given (me_description d) (mt_description r), mt_number := given (me_number d) (mt_number r),
       mt_refType := given (me_refType d) (mt_refType r), mt_refId := given (me_refId d) (mt_refId r),
       mt_reconciled := given (me_reconciled d) (mt_reconciled r), mt_type := given (me_type d) (mt_type r),
       mt_direction := given (me_direction d) (mt_direction r), mt_currency := given (me_currency d) (mt_currency r),
       mt_date := given (me_date d) (mt_date r), mt_amount := given amount (mt_amount r), mt_fee := given fee (mt_fee r),
       mt_net := given net (mt_net r)\<rparr>"

definition edit_money :: "string \<Rightarrow> money_edit \<Rightarrow> string \<Rightarrow> string \<Rightarrow> json wtx" where
  "edit_money i d user c =
     bind (find_money i c) (\<lambda>found.
     bind (require_some found (NotFound ''Financial transaction not found'')) (\<lambda>before.
     bind (require (mt_status before = MoneyDraft \<or> \<not> FROZEN_FIELDS d) (Conflict ''Financial transaction: financial fields are immutable'')) (\<lambda>_.
     bind (edited_net d before) (\<lambda>net.
     bind (transaction (
       bind (assert_registers_belong (given (me_cash d) None) (given (me_bank d) None) (given (me_destination d) None) c) (\<lambda>_.
       bind (normalized (me_amount d)) (\<lambda>amount.
       bind (normalized (me_fee d)) (\<lambda>fee.
       bind (update_money i (writes_relation d) (edited_money d amount fee net) c (mt_version before)) (\<lambda>updated.
       bind (money_audit c user i ''UPDATE'' (Some before) updated) (\<lambda>_. ret updated)))))))
     money_view))))"

end
