(* ===== verification/MoneyFlow.thy ===== *)
theory MoneyFlow
  imports FiscalClose Money
begin

text \<open>
  What financial transactions do to the books: what a successful posting and reversal reads and writes, the
  invariant that every transaction out of its draft is backed by a journal entry of its own over exactly its
  amount, the life of a row, and the runs that must succeed.
\<close>

section \<open>Reading\<close>

text \<open>The resolvers of other modules only read.\<close>

definition quiet_counterparts :: "counterparts \<Rightarrow> bool" where
  "quiet_counterparts cps \<longleftrightarrow> (\<forall>t r a b c w. cps t = Some r \<longrightarrow> snd (r a b c w) = w)"

lemma live_account_id_Inr:
  "live_account_id c i w = (x, w') \<Longrightarrow> w' = w \<and> (\<forall>a. x = Inr (Some a) \<longrightarrow> live_ids w c {a})"
  by (auto simp: live_account_id_def live_ids_def dest!: find_first_SomeD)

lemma resolve_system_Inr_same: "resolve_system_account c code w = (x, w') \<Longrightarrow> w' = w"
  by (auto simp: resolve_system_account_def bind_def split: option.splits)

lemma find_linked_Inr:
  "find_linked_chart_account k i c w = (Inr x, w') \<Longrightarrow> w' = w \<and> (\<forall>a. x = Some a \<longrightarrow> live_ids w c {a})"
  by (auto simp: find_linked_chart_account_def bind_Inr_iff split: option.splits dest!: live_account_id_Inr)

lemma register_leg_Inr:
  "bind (find_linked_chart_account k i c) (\<lambda>linked. case linked of Some a \<Rightarrow> ret a | None \<Rightarrow> resolve_system_account c code) w = (Inr a, w') \<Longrightarrow>
    w' = w \<and> live_ids w c {a}"
  by (auto simp: bind_Inr_iff split: option.splits dest!: find_linked_Inr dest: resolve_system_Inr_same resolve_system_live)

lemma resolve_leg_Inr:
  assumes "resolve_leg_account leg ft c w = (Inr a, w')"
  shows "w' = w \<and> live_ids w c {a}"
proof (cases leg)
  case (ChartLeg code)
  with assms have "resolve_system_account c code w = (Inr a, w')" by (auto simp: resolve_leg_account_def bind_Inr_iff split: if_splits)
  then show ?thesis using resolve_system_Inr_same resolve_system_live by blast
qed (use assms register_leg_Inr in \<open>auto simp: resolve_leg_account_def bind_Inr_iff [of "require_some _ _"] split: option.splits\<close>)

lemma resolve_plan_leg_Inr:
  "resolve_plan_leg leg counterpart ft c w = (Inr a, w') \<Longrightarrow> w' = w \<and> live_ids w c {a}"
  by (auto simp: resolve_plan_leg_def bind_Inr_iff split: if_splits option.splits dest!: live_account_id_Inr resolve_leg_Inr)

lemma resolve_domain_same:
  "quiet_counterparts cps \<Longrightarrow> resolve_domain_counterpart cps ft c w = (x, w') \<Longrightarrow> w' = w"
  by (auto simp: resolve_domain_counterpart_def quiet_counterparts_def bind_def live_account_id_def split: option.splits prod.splits sum.splits)
     (metis snd_conv)+

lemma money_plan_Inr:
  assumes q: "quiet_counterparts cps" and run: "money_plan cps ft c w = (Inr (counterpart, plan), w')"
  shows "w' = w \<and> 0 < mt_amount ft \<and> plan = plan_posting (plan_input_of ft (counterpart \<noteq> None)) \<and>
    resolve_domain_counterpart cps ft c w = (Inr counterpart, w)"
proof -
  from run obtain w1 where "resolve_domain_counterpart cps ft c w = (Inr counterpart, w1)" "w' = w1" "0 < mt_amount ft"
    "plan = plan_posting (plan_input_of ft (counterpart \<noteq> None))"
    by (auto simp: money_plan_def get_base_currency_def sale_link_exists_def assert_not_sale_linked_def bind_Inr_iff split: if_splits option.splits)
  with resolve_domain_same [OF q] show ?thesis by blast
qed

section \<open>Posting\<close>

definition money_bus :: "event_bus \<Rightarrow> bool" where
  "money_bus bus \<longleftrightarrow> ledger_bus bus \<and> bus_frame t_money bus"

lemma money_bus_empty: "money_bus (\<lambda>_. None)"
  by (simp add: money_bus_def ledger_bus_empty)

text \<open>One journal entry over \<open>x\<close>: \<open>a\<close> is debited and \<open>b\<close> credited.\<close>

definition entry_moves :: "entry_row \<Rightarrow> string \<Rightarrow> string \<Rightarrow> decimal \<Rightarrow> bool" where
  "entry_moves e a b x \<longleftrightarrow> map (\<lambda>l. (jl_account l, jl_debit l, jl_credit l)) (je_lines e) = [(a, x, 0), (b, 0, x)] \<or>
     map (\<lambda>l. (jl_account l, jl_debit l, jl_credit l)) (je_lines e) = [(b, 0, x), (a, x, 0)]"

definition hit_money :: "money_row \<Rightarrow> money_row \<Rightarrow> bool" where
  "hit_money ft r \<longleftrightarrow> mt_id r = mt_id ft \<and> mt_company r = mt_company ft \<and> mt_status r = mt_status ft \<and> mt_version r = mt_version ft"

definition claimed_money :: "posting_status \<Rightarrow> money_row \<Rightarrow> money_row" where
  "claimed_money s r = r\<lparr>mt_status := s, mt_version := mt_version r + 1\<rparr>"

definition linked_money :: "string \<Rightarrow> money_row \<Rightarrow> money_row" where
  "linked_money e r = r\<lparr>mt_entry := Some e, mt_version := mt_version r + 1\<rparr>"

lemma claim_run:
  "claim_posting_status (mt_id ft) (mt_company ft) (mt_status ft) s (mt_version ft) w =
    (Inr (count_rows (hit_money ft) (t_money w)), w\<lparr>t_money := update_rows (hit_money ft) (claimed_money s) (t_money w)\<rparr>)"
  by (simp add: claim_posting_status_def bind_def hit_money_def [abs_def] claimed_money_def [abs_def])

lemma link_run:
  "link_journal_entry i c e w = (Inr (), w\<lparr>t_money := update_rows (\<lambda>r. mt_id r = i \<and> mt_company r = c) (linked_money e) (t_money w)\<rparr>)"
  by (simp add: link_journal_entry_def linked_money_def [abs_def])

lemma find_money_run: "find_money i c w = (Inr (find_first (\<lambda>r. mt_id r = i \<and> mt_company r = c) (t_money w)), w)"
  by (simp add: find_money_def)

lemma status_audit_run: "\<exists>a. status_audit c user i action x y extra w = (Inr (), w\<lparr>t_audit := a\<rparr>)"
  by (simp add: status_audit_def) (rule exI, rule refl)

lemma money_view_run: "money_view r w = (Inr (money_entity (dec_str w) r), w)"
  by (simp add: money_view_def)

lemma money_scale: "scale4_lines (money_lines ft a b)"
  by (simp add: money_lines_def Let_def scale4_lines_def gl_line_def)

lemma calendar_money: "ensure_current_calendar c w = (r, w') \<Longrightarrow> t_money w' = t_money w"
proof -
  assume run: "ensure_current_calendar c w = (r, w')"
  have "frame t_money (ensure_current_calendar c)" by (intro frame_intros) simp_all
  from frameD [OF this run] show ?thesis .
qed

lemma post_money_rows:
  assumes "money_bus bus" and "execute_post bus i w = (r, w')"
  shows "t_money w' = t_money w"
proof -
  have "frame t_money (execute_post bus i)" using assms(1) by (intro frame_intros) (simp_all add: money_bus_def)
  from frameD [OF this assms(2)] show ?thesis .
qed

text \<open>A successful posting, in its steps.\<close>

lemma apply_post_Inr:
  assumes bus: "money_bus bus" and q: "quiet_counterparts cps" and inv: "ledger_inv w"
    and run: "apply_post bus cps i user c w = (Inr j, w')"
  obtains ft counterpart d k act w1 w2 w3 period da ca cal r adt where
    "find_first (\<lambda>r. mt_id r = i \<and> mt_company r = c) (t_money w) = Some ft" and "mt_status ft = MoneyDraft" and "0 < mt_amount ft"
    and "resolve_domain_counterpart cps ft c w = (Inr counterpart, w)"
    and "plan_posting (plan_input_of ft (counterpart \<noteq> None)) = Postable d k act"
    and "w1 = w\<lparr>t_money := update_rows (hit_money ft) (claimed_money MoneyPosted) (t_money w)\<rparr>"
    and "ensure_current_calendar c w1 = (Inr cal, w2)" and "resolve_open_period c (mt_date ft) w2 = (Inr period, w2)"
    and "resolve_plan_leg d counterpart ft c w2 = (Inr da, w2)" and "resolve_plan_leg k counterpart ft c w2 = (Inr ca, w2)"
    and "execute_post bus (money_input ft user c period da ca) w2 = (Inr r, w3)" and "ledger_inv w2" and "t_money w3 = t_money w1"
    and "w' = w3\<lparr>t_money := update_rows (\<lambda>r. mt_id r = i \<and> mt_company r = c) (linked_money (gp_id r)) (t_money w1), t_audit := adt\<rparr>"
proof -
  from run obtain ft counterpart plan wp where ft: "find_first (\<lambda>r. mt_id r = i \<and> mt_company r = c) (t_money w) = Some ft" "mt_status ft = MoneyDraft"
    and plan: "money_plan cps ft c w = (Inr (counterpart, plan), wp)"
    and rest: "(case plan of NotPostable code message \<Rightarrow> throw (BadRequest (''FinancialTransaction cannot be posted: '' @ message))
     | Postable debit credit activity \<Rightarrow> post_planned bus i user c ft counterpart debit credit) wp = (Inr j, w')"
    unfolding apply_post_def bind_Inr_iff find_money_run require_some_Inr_iff require_Inr_iff by (auto simp del: append.simps)
  have key: "mt_id ft = i" "mt_company ft = c" using find_first_SomeD [OF ft(1)] by simp_all
  note P = money_plan_Inr [OF q plan]
  define w1 where "w1 = w\<lparr>t_money := update_rows (hit_money ft) (claimed_money MoneyPosted) (t_money w)\<rparr>"
  have "wp = w" using P by simp
  with rest obtain d k act where Pl: "plan = Postable d k act" and "post_planned bus i user c ft counterpart d k w = (Inr j, w')"
    by (cases plan) simp_all
  then obtain entry w4 where book: "book_money bus user c ft counterpart d k w1 = (Inr entry, w4)"
    and last: "bind (status_audit c user i ''POST'' MoneyDraft MoneyPosted [(''journalEntryId'', JStr entry)]) (\<lambda>_.
         bind (find_money i c) (\<lambda>updated. bind (require_some updated (JsError ''null'')) money_view)) w4 = (Inr j, w')"
    using claim_run [of ft MoneyPosted w] unfolding post_planned_def by (auto simp: bind_Inr_iff [of "claim_posting_status _ _ _ _ _"]
      bind_Inr_iff [of "require _ _"] bind_Inr_iff [of "book_money _ _ _ _ _ _ _"] key ft(2) w1_def split: if_splits)
  from book obtain cal w2 period w2a da w2b ca w2c r w3 where B: "ensure_current_calendar c w1 = (Inr cal, w2)"
    "resolve_open_period c (mt_date ft) w2 = (Inr period, w2a)" "resolve_plan_leg d counterpart ft c w2a = (Inr da, w2b)"
    "resolve_plan_leg k counterpart ft c w2b = (Inr ca, w2c)" "execute_post bus (money_input ft user c period da ca) w2c = (Inr r, w3)"
    "link_journal_entry i c (gp_id r) w3 = (Inr (), w4)" "entry = gp_id r"
    unfolding book_money_def by (auto simp: bind_Inr_iff key)
  have same: "w2a = w2" "w2b = w2" "w2c = w2"
    using resolve_period_same [OF B(2)] resolve_plan_leg_Inr [OF B(3)] resolve_plan_leg_Inr [OF B(4)] by simp_all
  have inv1: "ledger_inv w1" by (rule ledger_inv_cong [OF inv]) (use inv in \<open>simp_all add: w1_def ledger_inv_def\<close>)
  have rows: "t_money w3 = t_money w1" using post_money_rows [OF bus B(5)] calendar_money [OF B(1)] same by simp
  obtain adt where "status_audit c user i ''POST'' MoneyDraft MoneyPosted [(''journalEntryId'', JStr entry)] w4 = (Inr (), w4\<lparr>t_audit := adt\<rparr>)"
    using status_audit_run by blast
  with last have "w' = w4\<lparr>t_audit := adt\<rparr>"
    by (auto simp: bind_Inr_iff find_money_run money_view_run require_some_Inr_iff simp del: require_some_run split: option.splits)
  then have "w' = w3\<lparr>t_money := update_rows (\<lambda>r. mt_id r = i \<and> mt_company r = c) (linked_money (gp_id r)) (t_money w1), t_audit := adt\<rparr>"
    using B(6) rows by (simp add: link_run)
  then show thesis
    using ft P Pl B same calendar_keeps_ledger [OF inv1 B(1)] rows w1_def
    by (intro that [of ft counterpart d k act w1 cal w2 period da ca r w3 adt]) auto
qed

section \<open>Reversing\<close>

lemma insert_money_run:
  "insert_money f w = (Inr (normalize_money (f (uuid_gen w (uuid_next w)) (now w))),
     w\<lparr>uuid_next := Suc (uuid_next w), t_money := t_money w @ [normalize_money (f (uuid_gen w (uuid_next w)) (now w))]\<rparr>)"
  by (simp add: insert_money_def Let_def bind_def)

lemma apply_reverse_Inr:
  assumes bus: "money_bus bus" and inv: "ledger_inv w" and run: "apply_reverse bus i user c reason w = (Inr j, w')"
  obtains ft e w1 w2 w3 cal period r adt comp where
    "find_first (\<lambda>r. mt_id r = i \<and> mt_company r = c) (t_money w) = Some ft" and "mt_status ft = MoneyPosted"
    and "find_first (\<lambda>e. Some (je_id e) = mt_entry ft \<and> je_company e = c) (t_entry w) = Some e" and "je_status e = Posted"
    and "w1 = w\<lparr>t_money := update_rows (hit_money ft) (claimed_money MoneyReversed) (t_money w)\<rparr>"
    and "ensure_current_calendar c w1 = (Inr cal, w2)" and "resolve_open_period c (now w) w2 = (Inr period, w2)"
    and "execute_post bus (money_reversal_input ft e user c reason period (now w)) w2 = (Inr r, w3)" and "ledger_inv w2"
    and "t_money w3 = t_money w1"
    and "comp = normalize_money (compensating_money ft user c reason (gp_id r) (now w) (uuid_gen w3 (uuid_next w3)) (now w3))"
    and "w' = w3\<lparr>uuid_next := Suc (uuid_next w3), t_money := t_money w1 @ [comp], t_audit := adt\<rparr>"
proof -
  from run obtain ft where ft: "find_first (\<lambda>r. mt_id r = i \<and> mt_company r = c) (t_money w) = Some ft" "mt_status ft = MoneyPosted"
    and rest: "bind (claim_posting_status i c MoneyPosted MoneyReversed (mt_version ft)) (\<lambda>claimed.
     bind (require (claimed \<noteq> 0) (Conflict ''Financial transaction was reversed or modified concurrently'')) (\<lambda>_.
     bind (ask (\<lambda>w. find_first (\<lambda>e. Some (je_id e) = mt_entry ft \<and> je_company e = c) (t_entry w))) (\<lambda>original.
     bind (require (case original of None \<Rightarrow> False | Some e \<Rightarrow> je_status e = Posted)
       (BadRequest ''Original journal entry is not available for reversal'')) (\<lambda>_.
     bind (ensure_current_calendar c) (\<lambda>_.
     bind (ask now) (\<lambda>clock.
     bind (resolve_open_period c clock) (\<lambda>period.
     bind (execute_post bus (money_reversal_input ft (the original) user c reason period clock)) (\<lambda>reversal.
     bind (insert_money (compensating_money ft user c reason (gp_id reversal) clock)) (\<lambda>compensating.
     bind (status_audit c user i ''REVERSE'' MoneyPosted MoneyReversed
       [(''compensatingId'', JStr (mt_id compensating)), (''reversalEntryId'', JStr (gp_id reversal))]) (\<lambda>_.
     money_view compensating)))))))))) w = (Inr j, w')"
    unfolding apply_reverse_def bind_Inr_iff [of "find_money _ _"] bind_Inr_iff [of "require_some _ _"] bind_Inr_iff [of "require (mt_status _ = _ \<and> _) _"]
      find_money_run require_some_Inr_iff require_Inr_iff by blast
  have key: "mt_id ft = i" "mt_company ft = c" using find_first_SomeD [OF ft(1)] by simp_all
  define w1 where "w1 = w\<lparr>t_money := update_rows (hit_money ft) (claimed_money MoneyReversed) (t_money w)\<rparr>"
  from rest obtain original cal w2 period w2a r w3 comp w4 where
    e: "case original of None \<Rightarrow> False | Some e \<Rightarrow> je_status e = Posted"
    "original = find_first (\<lambda>e. Some (je_id e) = mt_entry ft \<and> je_company e = c) (t_entry w1)"
    and B: "ensure_current_calendar c w1 = (Inr cal, w2)" "resolve_open_period c (now w2) w2 = (Inr period, w2a)"
    "execute_post bus (money_reversal_input ft (the original) user c reason period (now w2)) w2a = (Inr r, w3)"
    "insert_money (compensating_money ft user c reason (gp_id r) (now w2)) w3 = (Inr comp, w4)"
    and last: "bind (status_audit c user i ''REVERSE'' MoneyPosted MoneyReversed
       [(''compensatingId'', JStr (mt_id comp)), (''reversalEntryId'', JStr (gp_id r))]) (\<lambda>_. money_view comp) w4 = (Inr j, w')"
    using claim_run [of ft MoneyReversed w] unfolding key ft(2)
    by (auto simp: bind_Inr_iff [of "claim_posting_status _ _ _ _ _"] bind_Inr_iff [of "require _ _"] bind_Inr_iff [of "ask _"]
      bind_Inr_iff [of "ensure_current_calendar _"] bind_Inr_iff [of "resolve_open_period _ _"] bind_Inr_iff [of "execute_post _ _"]
      bind_Inr_iff [of "insert_money _"] w1_def split: if_splits option.splits)
  have same: "w2a = w2" using resolve_period_same [OF B(2)] by simp
  have clock: "now w2 = now w" using calendar_books(1) [OF B(1)] by (simp add: w1_def)
  obtain x where x: "original = Some x" "je_status x = Posted" using e(1) by (auto split: option.splits)
  have inv1: "ledger_inv w1" by (rule ledger_inv_cong [OF inv]) (use inv in \<open>simp_all add: w1_def ledger_inv_def\<close>)
  have rows: "t_money w3 = t_money w1" using post_money_rows [OF bus B(3)] calendar_money [OF B(1)] same by simp
  obtain adt where "status_audit c user i ''REVERSE'' MoneyPosted MoneyReversed
      [(''compensatingId'', JStr (mt_id comp)), (''reversalEntryId'', JStr (gp_id r))] w4 = (Inr (), w4\<lparr>t_audit := adt\<rparr>)"
    using status_audit_run by blast
  with last have "w' = w4\<lparr>t_audit := adt\<rparr>" by (auto simp: bind_Inr_iff money_view_run)
  then have "w' = w3\<lparr>uuid_next := Suc (uuid_next w3), t_money := t_money w1 @ [comp], t_audit := adt\<rparr>"
    and "comp = normalize_money (compensating_money ft user c reason (gp_id r) (now w) (uuid_gen w3 (uuid_next w3)) (now w3))"
    using B(4) rows clock by (auto simp: insert_money_run)
  moreover have "find_first (\<lambda>e. Some (je_id e) = mt_entry ft \<and> je_company e = c) (t_entry w) = Some x" using e(2) x(1) by (simp add: w1_def)
  ultimately show thesis
    using ft x B same clock calendar_keeps_ledger [OF inv1 B(1)] rows w1_def
    by (intro that [of ft x w1 cal w2 period r w3 comp adt]) auto
qed

section \<open>The invariant\<close>

definition backed :: "world \<Rightarrow> money_row \<Rightarrow> bool" where
  "backed w r \<longleftrightarrow> 0 < mt_amount r \<and> (\<exists>e \<in> set (t_entry w). \<exists>a b. mt_entry r = Some (je_id e) \<and> je_company e = mt_company r \<and>
     je_status e \<noteq> Draft \<and> je_refType e \<in> {Some FT_POSTING_REFERENCE_TYPE, Some FT_REVERSAL_REFERENCE_TYPE} \<and>
     entry_moves e a b (mt_amount r))"

definition money_row_ok :: "world \<Rightarrow> money_row \<Rightarrow> bool" where
  "money_row_ok w r \<longleftrightarrow> scale4 (mt_amount r) \<and> scale4 (mt_fee r) \<and> scale4 (mt_net r) \<and> (mt_status r \<noteq> MoneyDraft \<longrightarrow> backed w r)"

definition left_draft :: "money_row list \<Rightarrow> money_row list" where
  "left_draft t = filter (\<lambda>r. mt_status r \<noteq> MoneyDraft) t"

definition money_inv :: "world \<Rightarrow> bool" where
  "money_inv w \<longleftrightarrow> ledger_inv w \<and> distinct (map mt_id (t_money w)) \<and> uuid_fresh w (set (map mt_id (t_money w))) \<and>
     (\<forall>r \<in> set (t_money w). money_row_ok w r) \<and> distinct (map mt_entry (left_draft (t_money w)))"

text \<open>Entries that stay, with their lines; a posted one does not become a draft.\<close>

definition entries_kept :: "world \<Rightarrow> world \<Rightarrow> bool" where
  "entries_kept w w' \<longleftrightarrow> (\<forall>e \<in> set (t_entry w). \<exists>e' \<in> set (t_entry w'). je_id e' = je_id e \<and> je_company e' = je_company e \<and>
     je_lines e' = je_lines e \<and> je_refType e' = je_refType e \<and> (je_status e \<noteq> Draft \<longrightarrow> je_status e' \<noteq> Draft))"

lemma backed_kept: "backed w r \<Longrightarrow> entries_kept w w' \<Longrightarrow> backed w' r"
proof -
  assume b: "backed w r" and k: "entries_kept w w'"
  then obtain e a b where e: "e \<in> set (t_entry w)" "0 < mt_amount r" "mt_entry r = Some (je_id e)" "je_company e = mt_company r"
    "je_status e \<noteq> Draft" "entry_moves e a b (mt_amount r)" "je_refType e \<in> {Some FT_POSTING_REFERENCE_TYPE, Some FT_REVERSAL_REFERENCE_TYPE}"
    unfolding backed_def by blast
  with k obtain e' where "e' \<in> set (t_entry w')" "je_id e' = je_id e" "je_company e' = je_company e" "je_lines e' = je_lines e"
    "je_status e' \<noteq> Draft" "je_refType e' = je_refType e" unfolding entries_kept_def by blast
  with e show ?thesis unfolding backed_def entry_moves_def by (intro conjI bexI [of _ e']) auto
qed

lemma entries_kept_append: "t_entry w' = t_entry w @ es \<Longrightarrow> entries_kept w w'"
  by (auto simp: entries_kept_def)

lemma money_rows_kept:
  "\<forall>r \<in> set t. money_row_ok w r \<Longrightarrow> entries_kept w w' \<Longrightarrow> \<forall>r \<in> set t. money_row_ok w' r"
  using backed_kept by (auto simp: money_row_ok_def)

text \<open>What may happen to a row.\<close>

definition same_terms :: "money_row \<Rightarrow> money_row \<Rightarrow> bool" where
  "same_terms r s \<longleftrightarrow> (mt_amount s, mt_type s, mt_direction s, mt_currency s, mt_fee s, mt_net s, mt_date s) =
       (mt_amount r, mt_type r, mt_direction r, mt_currency r, mt_fee r, mt_net r, mt_date r) \<and>
     (mt_cash s, mt_bank s, mt_destination s, mt_refType s, mt_refId s, mt_entry s) =
       (mt_cash r, mt_bank r, mt_destination r, mt_refType r, mt_refId r, mt_entry r)"

definition money_life :: "money_row \<Rightarrow> money_row \<Rightarrow> bool" where
  "money_life r s \<longleftrightarrow> mt_id s = mt_id r \<and> mt_company s = mt_company r \<and>
     (mt_status r \<noteq> MoneyDraft \<longrightarrow> same_terms r s \<and> (mt_status s = mt_status r \<or> mt_status r = MoneyPosted \<and> mt_status s = MoneyReversed))"

definition rows_live :: "money_row list \<Rightarrow> money_row list \<Rightarrow> bool" where
  "rows_live t t' \<longleftrightarrow> (\<exists>t1 u. t' = t1 @ u \<and> list_all2 money_life t t1)"

lemma money_life_refl [simp]: "money_life r r"
  by (simp add: money_life_def same_terms_def)

lemma money_life_trans: "money_life r s \<Longrightarrow> money_life s t \<Longrightarrow> money_life r t"
  by (auto simp: money_life_def same_terms_def)

lemma rows_live_refl [simp]: "rows_live t t"
  unfolding rows_live_def by (rule exI [of _ t]) (simp add: list_all2_same)

lemma rows_live_append: "rows_live t t' \<Longrightarrow> rows_live t (t' @ u)"
  unfolding rows_live_def by (metis append.assoc)

lemma rows_live_trans: "rows_live t t' \<Longrightarrow> rows_live t' t'' \<Longrightarrow> rows_live t t''"
proof -
  assume "rows_live t t'" "rows_live t' t''"
  then obtain t1 u t2 v where a: "t' = t1 @ u" "list_all2 money_life t t1" "t'' = t2 @ v" "list_all2 money_life (t1 @ u) t2"
    by (auto simp: rows_live_def)
  from a(4) obtain x y where b: "t2 = x @ y" "list_all2 money_life t1 x" by (auto simp: list_all2_append1)
  have "list_all2 money_life t x" by (rule list_all2_trans [OF _ a(2) b(2)]) (rule money_life_trans)
  then show ?thesis unfolding rows_live_def a(3) b(1) by (intro exI [of _ x] exI [of _ "y @ v"]) simp
qed

lemma update_rows_live:
  "(\<And>r. r \<in> set t \<Longrightarrow> p r \<Longrightarrow> money_life r (f r)) \<Longrightarrow> rows_live t (update_rows p f t)"
  unfolding rows_live_def by (rule exI [of _ "update_rows p f t"]) (auto simp: update_rows_def list_all2_conv_all_nth)

section \<open>What posting and reversing do\<close>

lemma row_split:
  assumes d: "distinct (map mt_id t)" and f: "find_first (\<lambda>r. mt_id r = i \<and> mt_company r = c) t = Some ft"
  obtains xs ys where "t = xs @ ft # ys" and "mt_id ft = i" and "mt_company ft = c" and "\<And>r. r \<in> set xs \<union> set ys \<Longrightarrow> mt_id r \<noteq> i"
proof -
  note F = find_first_SomeD [OF f]
  then obtain xs ys where t: "t = xs @ ft # ys" using split_list by metis
  show thesis using d F by (intro that [OF t]) (auto simp: t rev_image_eqI)
qed

lemma update_rows_middle:
  "(\<And>r. r \<in> set xs \<union> set ys \<Longrightarrow> \<not> p r) \<Longrightarrow> p x \<Longrightarrow> update_rows p f (xs @ x # ys) = xs @ f x # ys"
  using update_rows_none [of xs p f] update_rows_none [of ys p f] by (simp add: update_rows_def)

lemma net_balance_cong: "t_balance w' = t_balance w \<Longrightarrow> net_balance w' = net_balance w"
  by (intro ext) (simp add: net_balance_def)

lemma ledger_inv_money:
  assumes "ledger_inv w"
  shows "ledger_inv (w\<lparr>t_money := t, t_audit := a\<rparr>)"
  by (rule ledger_inv_cong [OF assms]) (use assms in \<open>simp_all add: ledger_inv_def\<close>)

lemma ledger_inv_money_new:
  assumes "ledger_inv w"
  shows "ledger_inv (w\<lparr>uuid_next := Suc (uuid_next w), t_money := t, t_audit := a\<rparr>)"
  by (rule ledger_inv_cong [OF assms]) (use assms in \<open>simp_all add: ledger_inv_def\<close>)

text \<open>What the journal of a posting moves.\<close>

definition moves :: "string \<Rightarrow> string \<Rightarrow> decimal \<Rightarrow> string \<Rightarrow> decimal" where
  "moves debit credit x a = (if a = debit then x else 0) - (if a = credit then x else 0)"

lemma apply_post_effect:
  assumes bus: "money_bus bus" and q: "quiet_counterparts cps" and inv: "money_inv w"
    and run: "apply_post bus cps i user c w = (Inr j, w')"
  obtains ft xs ys counterpart d k act w2 period da ca e where
    "t_money w = xs @ ft # ys" and "mt_id ft = i" and "mt_company ft = c" and "\<And>r. r \<in> set xs \<union> set ys \<Longrightarrow> mt_id r \<noteq> i"
    and "mt_status ft = MoneyDraft" and "0 < mt_amount ft"
    and "resolve_domain_counterpart cps ft c w = (Inr counterpart, w)"
    and "plan_posting (plan_input_of ft (counterpart \<noteq> None)) = Postable d k act"
    and "t_money w' = xs @ linked_money (je_id e) (claimed_money MoneyPosted ft) # ys"
    and "t_entry w' = t_entry w @ [e]" and "je_company e = c" and "je_status e = Posted" and "je_date e = mt_date ft"
    and "je_period e = period" and "map (\<lambda>l. (jl_account l, jl_debit l, jl_credit l)) (je_lines e) = [(da, mt_amount ft, 0), (ca, 0, mt_amount ft)]"
    and "je_refType e = Some FT_POSTING_REFERENCE_TYPE" and "je_refId e = Some i"
    and "ledger_inv w'" and "uuid_gen w' = uuid_gen w" and "uuid_next w \<le> uuid_next w'"
    and "t_account w2 = t_account w" and "t_register w2 = t_register w" and "t_bank w2 = t_bank w"
    and "resolve_plan_leg d counterpart ft c w2 = (Inr da, w2)" and "resolve_plan_leg k counterpart ft c w2 = (Inr ca, w2)"
    and "\<And>c' a p. net_balance w' c' a p = net_balance w c' a p + (if (c', p) = (c, period) then moves da ca (mt_amount ft) a else 0)"
proof -
  have linv: "ledger_inv w" and d: "distinct (map mt_id (t_money w))" and rows: "\<forall>r \<in> set (t_money w). money_row_ok w r"
    using inv by (simp_all add: money_inv_def)
  have lb: "ledger_bus bus" using bus by (simp add: money_bus_def)
  obtain ft counterpart dl k act w1 w2 w3 period da ca cal r adt where
    P: "find_first (\<lambda>r. mt_id r = i \<and> mt_company r = c) (t_money w) = Some ft" "mt_status ft = MoneyDraft" "0 < mt_amount ft"
    "resolve_domain_counterpart cps ft c w = (Inr counterpart, w)" "plan_posting (plan_input_of ft (counterpart \<noteq> None)) = Postable dl k act"
    and w1: "w1 = w\<lparr>t_money := update_rows (hit_money ft) (claimed_money MoneyPosted) (t_money w)\<rparr>"
    and B: "ensure_current_calendar c w1 = (Inr cal, w2)" "resolve_open_period c (mt_date ft) w2 = (Inr period, w2)"
    "resolve_plan_leg dl counterpart ft c w2 = (Inr da, w2)" "resolve_plan_leg k counterpart ft c w2 = (Inr ca, w2)"
    "execute_post bus (money_input ft user c period da ca) w2 = (Inr r, w3)" "ledger_inv w2" "t_money w3 = t_money w1"
    and w': "w' = w3\<lparr>t_money := update_rows (\<lambda>r. mt_id r = i \<and> mt_company r = c) (linked_money (gp_id r)) (t_money w1), t_audit := adt\<rparr>"
    by (rule apply_post_Inr [OF bus q linv run])
  obtain xs ys where S: "t_money w = xs @ ft # ys" "mt_id ft = i" "mt_company ft = c" "\<And>r. r \<in> set xs \<union> set ys \<Longrightarrow> mt_id r \<noteq> i"
    by (rule row_split [OF d P(1)]) blast
  have t1: "t_money w1 = xs @ claimed_money MoneyPosted ft # ys"
    unfolding w1 S(1) using S(2,4) by (simp, intro update_rows_middle) (auto simp: hit_money_def)
  have t': "t_money w' = xs @ linked_money (gp_id r) (claimed_money MoneyPosted ft) # ys"
    unfolding w' t1 using S(2-4) by (simp, intro update_rows_middle) (auto simp: claimed_money_def)
  have s4: "scale4_lines (pi_lines (money_input ft user c period da ca))" by (simp add: money_input_def money_scale)
  note K = execute_post_keeps [OF lb B(6) s4 B(5)]
  obtain e n where e: "t_entry w3 = t_entry w2 @ [e]" "gp_id r = je_id e" "posted_row (money_input ft user c period da ca) n (now w2) e"
    using K(2) by blast
  note C = calendar_books [OF B(1)]
  have amt: "round4 (mt_amount ft) = mt_amount ft" using rows S(1) by (simp add: money_row_ok_def round4_id)
  have sl: "stored_lines (money_lines ft da ca) (je_lines e)" using e(3) by (simp add: posted_row_def money_input_def)
  have lines: "map (\<lambda>l. (jl_account l, jl_debit l, jl_credit l)) (je_lines e) = [(da, mt_amount ft, 0), (ca, 0, mt_amount ft)]"
    using stored_triples [OF sl money_scale] by (simp add: money_lines_def Let_def amt)
  have fr: "t_register w2 = t_register w \<and> t_bank w2 = t_bank w"
  proof -
    have "frame (\<lambda>w. (t_register w, t_bank w)) (ensure_current_calendar c)" by (intro frame_intros) simp_all
    from frameD [OF this B(1)] show ?thesis by (simp add: w1)
  qed
  have nb: "net_balance w' c' a p = net_balance w c' a p + (if (c', p) = (c, period) then moves da ca (mt_amount ft) a else 0)" for c' a p
  proof -
    have "net_balance w' = net_balance w3" by (rule net_balance_cong) (simp add: w')
    moreover have "net_balance w2 = net_balance w" by (rule net_balance_cong) (simp add: C w1)
    ultimately show ?thesis using post_moves [OF lb B(6) s4 B(5), of c' a p]
      by (simp add: money_input_def money_lines_def Let_def amt moves_def)
  qed
  have "ledger_inv w'" unfolding w' by (rule ledger_inv_money) (rule K(1))
  moreover have "uuid_gen w' = uuid_gen w" "uuid_next w \<le> uuid_next w'" using K(4) C(8) by (auto simp: w' w1)
  ultimately show thesis
    using P(2-5) t' e C(2,5) lines fr B(3,4) nb S
    by (intro that [of xs ft ys counterpart dl k act e period da ca w2]) (simp_all add: w' w1 posted_row_def money_input_def)
qed

lemma reversal_pair:
  assumes "entry_moves e a b x"
  obtains l k where "pi_lines (money_reversal_input ft e user c reason p t) = [l, k]"
    and "pl_account l = a \<and> amount_val (pl_debit l) = 0 \<and> amount_val (pl_credit l) = x \<and>
      pl_account k = b \<and> amount_val (pl_debit k) = x \<and> amount_val (pl_credit k) = 0 \<or>
    pl_account l = b \<and> amount_val (pl_debit l) = x \<and> amount_val (pl_credit l) = 0 \<and>
      pl_account k = a \<and> amount_val (pl_debit k) = 0 \<and> amount_val (pl_credit k) = x"
    and "readable l" and "readable k"
proof -
  define ls where "ls = pi_lines (money_reversal_input ft e user c reason p t)"
  have tr: "map (\<lambda>l. (pl_account l, amount_val (pl_debit l), amount_val (pl_credit l))) ls =
      map (\<lambda>(i, d, k). (i, k, d)) (map (\<lambda>l. (jl_account l, jl_debit l, jl_credit l)) (je_lines e))"
    by (simp add: ls_def money_reversal_input_def comp_def)
  have two: "map (\<lambda>l. (pl_account l, amount_val (pl_debit l), amount_val (pl_credit l))) ls \<in> {[(a, 0, x), (b, x, 0)], [(b, x, 0), (a, 0, x)]}"
    unfolding tr using assms(1) unfolding entry_moves_def by (elim disjE) (simp_all del: map_map)
  obtain l k where l: "ls = [l, k]" using two by (auto simp: map_eq_Cons_conv)
  have "readable l" if "l \<in> set ls" for l using that by (auto simp: ls_def money_reversal_input_def readable_def)
  then show thesis using two that [of l k] unfolding ls_def [symmetric] l by simp
qed

lemma moved_lines:
  assumes m: "entry_moves e a b x" and "scale4 x"
  shows "scale4_lines (pi_lines (money_reversal_input ft e user c reason p t))"
    and "net_on (pi_lines (money_reversal_input ft e user c reason p t)) z = moves b a x z"
    and "stored_lines (pi_lines (money_reversal_input ft e user c reason p t)) rows \<Longrightarrow> je_lines e' = rows \<Longrightarrow> entry_moves e' b a x"
proof -
  define ls where "ls = pi_lines (money_reversal_input ft e user c reason p t)"
  obtain l k where l: "ls = [l, k]" and t2: "pl_account l = a \<and> amount_val (pl_debit l) = 0 \<and> amount_val (pl_credit l) = x \<and>
      pl_account k = b \<and> amount_val (pl_debit k) = x \<and> amount_val (pl_credit k) = 0 \<or>
    pl_account l = b \<and> amount_val (pl_debit l) = x \<and> amount_val (pl_credit l) = 0 \<and>
      pl_account k = a \<and> amount_val (pl_debit k) = 0 \<and> amount_val (pl_credit k) = x"
    unfolding ls_def by (rule reversal_pair [OF m])
  show s4: "scale4_lines (pi_lines (money_reversal_input ft e user c reason p t))"
    unfolding ls_def [symmetric] l using t2 assms(2) by (elim disjE) (simp_all add: scale4_lines_def)
  show "net_on (pi_lines (money_reversal_input ft e user c reason p t)) z = moves b a x z"
    unfolding ls_def [symmetric] l using t2 by (elim disjE) (simp_all add: net_on_def lines_on_def moves_def)
  show "entry_moves e' b a x" if "stored_lines (pi_lines (money_reversal_input ft e user c reason p t)) rows" "je_lines e' = rows"
    using stored_triples [OF that(1) s4] that(2) t2 unfolding ls_def [symmetric] l entry_moves_def by (elim disjE) simp_all
qed

lemma backed_entry:
  assumes inv: "money_inv w" and r: "r \<in> set (t_money w)" "mt_status r \<noteq> MoneyDraft"
    and e: "find_first (\<lambda>e. Some (je_id e) = mt_entry r \<and> je_company e = c) (t_entry w) = Some e"
  obtains a b where "entry_moves e a b (mt_amount r)" and "0 < mt_amount r" and "scale4 (mt_amount r)"
proof -
  have "backed w r" "scale4 (mt_amount r)" using inv r by (auto simp: money_inv_def money_row_ok_def)
  then obtain x a b where x: "x \<in> set (t_entry w)" "mt_entry r = Some (je_id x)" "entry_moves x a b (mt_amount r)" "0 < mt_amount r"
    by (auto simp: backed_def)
  have "distinct (map je_id (t_entry w))" using inv by (simp add: money_inv_def ledger_inv_def entry_ids_ok_def)
  moreover have "e \<in> set (t_entry w)" "je_id x = je_id e" using find_first_SomeD [OF e] x(2) by simp_all
  ultimately have "x = e" using distinct_map_eq [of je_id "t_entry w" x e] x(1) by blast
  then show thesis using x \<open>scale4 (mt_amount r)\<close> that by blast
qed

lemma apply_reverse_effect:
  assumes bus: "money_bus bus" and inv: "money_inv w" and run: "apply_reverse bus i user c reason w = (Inr j, w')"
  obtains ft xs ys e a b period e' n clock where
    "t_money w = xs @ ft # ys" and "mt_id ft = i" and "mt_company ft = c" and "\<And>r. r \<in> set xs \<union> set ys \<Longrightarrow> mt_id r \<noteq> i"
    and "mt_status ft = MoneyPosted" and "find_first (\<lambda>e. Some (je_id e) = mt_entry ft \<and> je_company e = c) (t_entry w) = Some e"
    and "je_status e = Posted" and "entry_moves e a b (mt_amount ft)"
    and "t_money w' = (xs @ claimed_money MoneyReversed ft # ys) @
      [normalize_money (compensating_money ft user c reason (je_id e') (now w) (uuid_gen w n) clock)]"
    and "t_entry w' = t_entry w @ [e']" and "je_company e' = c" and "je_status e' = Posted" and "je_period e' = period"
    and "entry_moves e' b a (mt_amount ft)" and "je_refType e' = Some FT_REVERSAL_REFERENCE_TYPE"
    and "ledger_inv w'" and "uuid_gen w' = uuid_gen w" and "uuid_next w \<le> n" and "uuid_next w' = Suc n"
    and "\<And>c' z p. net_balance w' c' z p = net_balance w c' z p + (if (c', p) = (c, period) then moves b a (mt_amount ft) z else 0)"
proof -
  have linv: "ledger_inv w" and d: "distinct (map mt_id (t_money w))" using inv by (simp_all add: money_inv_def)
  have lb: "ledger_bus bus" using bus by (simp add: money_bus_def)
  obtain ft e w1 w2 w3 cal period r adt comp where
    P: "find_first (\<lambda>r. mt_id r = i \<and> mt_company r = c) (t_money w) = Some ft" "mt_status ft = MoneyPosted"
    "find_first (\<lambda>e. Some (je_id e) = mt_entry ft \<and> je_company e = c) (t_entry w) = Some e" "je_status e = Posted"
    and w1: "w1 = w\<lparr>t_money := update_rows (hit_money ft) (claimed_money MoneyReversed) (t_money w)\<rparr>"
    and B: "ensure_current_calendar c w1 = (Inr cal, w2)" "resolve_open_period c (now w) w2 = (Inr period, w2)"
    "execute_post bus (money_reversal_input ft e user c reason period (now w)) w2 = (Inr r, w3)" "ledger_inv w2" "t_money w3 = t_money w1"
    and comp: "comp = normalize_money (compensating_money ft user c reason (gp_id r) (now w) (uuid_gen w3 (uuid_next w3)) (now w3))"
    and w': "w' = w3\<lparr>uuid_next := Suc (uuid_next w3), t_money := t_money w1 @ [comp], t_audit := adt\<rparr>"
    by (rule apply_reverse_Inr [OF bus linv run])
  obtain xs ys where S: "t_money w = xs @ ft # ys" "mt_id ft = i" "mt_company ft = c" "\<And>r. r \<in> set xs \<union> set ys \<Longrightarrow> mt_id r \<noteq> i"
    by (rule row_split [OF d P(1)]) blast
  obtain a b where m: "entry_moves e a b (mt_amount ft)" "scale4 (mt_amount ft)"
    by (rule backed_entry [OF inv _ _ P(3)]) (use S P(2) in auto)
  note M = moved_lines [OF m, where ft = ft and user = user and c = c and reason = reason and p = period and t = "now w"]
  have t1: "t_money w1 = xs @ claimed_money MoneyReversed ft # ys"
    unfolding w1 S(1) using S(2,4) by (simp, intro update_rows_middle) (auto simp: hit_money_def)
  note K = execute_post_keeps [OF lb B(4) M(1) B(3)]
  obtain e' n where e': "t_entry w3 = t_entry w2 @ [e']" "gp_id r = je_id e'"
    "posted_row (money_reversal_input ft e user c reason period (now w)) n (now w2) e'"
    using K(2) by blast
  note C = calendar_books [OF B(1)]
  have mv: "entry_moves e' b a (mt_amount ft)" using e'(3) by (intro M(3)) (simp_all add: posted_row_def)
  have nb: "net_balance w' c' z p = net_balance w c' z p + (if (c', p) = (c, period) then moves b a (mt_amount ft) z else 0)" for c' z p
  proof -
    have "net_balance w' = net_balance w3" by (rule net_balance_cong) (simp add: w')
    moreover have "net_balance w2 = net_balance w" by (rule net_balance_cong) (simp add: C w1)
    ultimately show ?thesis using post_moves [OF lb B(4) M(1) B(3), of c' z p] M(2)
      by (simp add: money_reversal_input_def)
  qed
  have "ledger_inv w'" unfolding w' by (rule ledger_inv_money_new) (rule K(1))
  moreover have "uuid_gen w3 = uuid_gen w" "uuid_next w \<le> uuid_next w3" using K(4) C(8) by (auto simp: w1)
  ultimately show thesis
    using P(2-4) e' C(2) mv nb S m(1) t1 comp
    by (intro that [of xs ft ys e a b e' "uuid_next w3" "now w3" period]) (simp_all add: w' w1 posted_row_def money_reversal_input_def)
qed

section \<open>Every operation keeps the invariant\<close>

lemma left_draft_simps [simp]:
  "left_draft (t @ u) = left_draft t @ left_draft u" "left_draft [] = []"
  "left_draft (r # t) = (if mt_status r \<noteq> MoneyDraft then r # left_draft t else left_draft t)"
  by (simp_all add: left_draft_def)

lemma new_entry_unlinked:
  assumes inv: "money_inv w" and t: "t_entry w' = t_entry w @ [e]" and l: "ledger_inv w'"
  shows "Some (je_id e) \<notin> mt_entry ` set (left_draft (t_money w))"
proof
  assume "Some (je_id e) \<in> mt_entry ` set (left_draft (t_money w))"
  then obtain r where r: "r \<in> set (t_money w)" "mt_status r \<noteq> MoneyDraft" "mt_entry r = Some (je_id e)"
    by (auto simp: left_draft_def)
  then have "backed w r" using inv by (simp add: money_inv_def money_row_ok_def)
  then obtain x where "x \<in> set (t_entry w)" "je_id x = je_id e" using r(3) by (auto simp: backed_def)
  moreover have "distinct (map je_id (t_entry w @ [e]))" using l t by (simp add: ledger_inv_def entry_ids_ok_def)
  ultimately show False by (auto simp: rev_image_eqI)
qed

lemma post_keeps:
  assumes bus: "money_bus bus" and q: "quiet_counterparts cps" and inv: "money_inv w"
    and run: "apply_post bus cps i user c w = (Inr j, w')"
  shows "money_inv w' \<and> rows_live (t_money w) (t_money w')"
proof -
  obtain ft xs ys da ca e where t: "t_money w = xs @ ft # ys" and ft: "mt_status ft = MoneyDraft" "mt_company ft = c" "0 < mt_amount ft"
    and t': "t_money w' = xs @ linked_money (je_id e) (claimed_money MoneyPosted ft) # ys"
    and e: "t_entry w' = t_entry w @ [e]" "je_company e = c" "je_status e = Posted" "je_refType e = Some FT_POSTING_REFERENCE_TYPE"
      "map (\<lambda>l. (jl_account l, jl_debit l, jl_credit l)) (je_lines e) = [(da, mt_amount ft, 0), (ca, 0, mt_amount ft)]"
    and l: "ledger_inv w'" and u: "uuid_gen w' = uuid_gen w" "uuid_next w \<le> uuid_next w'"
    by (rule apply_post_effect [OF assms], rule that, assumption+)
  let ?ft = "linked_money (je_id e) (claimed_money MoneyPosted ft)"
  have new: "mt_id ?ft = mt_id ft" "mt_company ?ft = c" "mt_amount ?ft = mt_amount ft" "mt_fee ?ft = mt_fee ft" "mt_net ?ft = mt_net ft"
    "mt_status ?ft = MoneyPosted" "mt_entry ?ft = Some (je_id e)" by (simp_all add: linked_money_def claimed_money_def ft)
  have I: "distinct (map mt_id (t_money w))" "uuid_fresh w (set (map mt_id (t_money w)))" "\<forall>r \<in> set (t_money w). money_row_ok w r"
    "distinct (map mt_entry (left_draft (t_money w)))" using inv by (simp_all add: money_inv_def)
  have ids: "map mt_id (t_money w') = map mt_id (t_money w)" by (simp add: t t' new)
  have "backed w' ?ft" unfolding backed_def entry_moves_def using e ft(3) new by (intro conjI bexI [of _ e]) auto
  then have "money_row_ok w' ?ft" using I(3) by (simp add: t money_row_ok_def new)
  then have ok: "\<forall>r \<in> set (t_money w'). money_row_ok w' r"
    using money_rows_kept [OF I(3) entries_kept_append [OF e(1)]] by (auto simp: t t')
  have "distinct (map mt_entry (left_draft (t_money w')))"
    using I(4) new_entry_unlinked [OF inv e(1) l] by (auto simp: t t' new ft)
  then have "money_inv w'" using l ids I(1) uuid_fresh_later [OF I(2) u] ok by (simp add: money_inv_def)
  moreover have "rows_live (t_money w) (t_money w')"
    unfolding rows_live_def t t' by (intro exI [of _ "xs @ ?ft # ys"] exI [of _ "[]"])
      (simp add: list_all2_append list_all2_same money_life_def [of ft] ft new)
  ultimately show ?thesis by blast
qed

lemma reverse_keeps:
  assumes bus: "money_bus bus" and inv: "money_inv w" and run: "apply_reverse bus i user c reason w = (Inr j, w')"
  shows "money_inv w' \<and> rows_live (t_money w) (t_money w')"
proof -
  obtain ft xs ys e a b e' n clock where t: "t_money w = xs @ ft # ys" and ft: "mt_status ft = MoneyPosted" "mt_company ft = c"
    and t': "t_money w' = (xs @ claimed_money MoneyReversed ft # ys) @
      [normalize_money (compensating_money ft user c reason (je_id e') (now w) (uuid_gen w n) clock)]"
    and e: "t_entry w' = t_entry w @ [e']" "je_company e' = c" "je_status e' = Posted" "entry_moves e' b a (mt_amount ft)"
      "je_refType e' = Some FT_REVERSAL_REFERENCE_TYPE"
    and l: "ledger_inv w'" and u: "uuid_gen w' = uuid_gen w" "uuid_next w \<le> n" "uuid_next w' = Suc n"
    by (rule apply_reverse_effect [OF assms], rule that, assumption+)
  define comp where "comp = normalize_money (compensating_money ft user c reason (je_id e') (now w) (uuid_gen w n) clock)"
  let ?ft = "claimed_money MoneyReversed ft"
  have I: "distinct (map mt_id (t_money w))" "uuid_fresh w (set (map mt_id (t_money w)))" "\<forall>r \<in> set (t_money w). money_row_ok w r"
    "distinct (map mt_entry (left_draft (t_money w)))" using inv by (simp_all add: money_inv_def)
  have bk: "backed w ft" "scale4 (mt_amount ft)" using I(3) ft by (auto simp: t money_row_ok_def)
  have new: "mt_id comp = uuid_gen w n" "mt_company comp = c" "mt_amount comp = mt_amount ft" "mt_status comp = MoneyPosted"
    "mt_entry comp = Some (je_id e')" "scale4 (mt_amount comp)" "scale4 (mt_fee comp)" "scale4 (mt_net comp)"
    using bk(2) by (simp_all add: comp_def normalize_money_def compensating_money_def round4_id)
  have old: "mt_id ?ft = mt_id ft" "mt_status ?ft = MoneyReversed" "mt_entry ?ft = mt_entry ft" "mt_amount ?ft = mt_amount ft"
    "mt_company ?ft = mt_company ft" "mt_fee ?ft = mt_fee ft" "mt_net ?ft = mt_net ft" "same_terms ft ?ft"
    by (simp_all add: claimed_money_def same_terms_def)
  have T': "t_money w' = (xs @ ?ft # ys) @ [comp]" by (simp add: t' comp_def)
  have ids: "map mt_id (t_money w') = map mt_id (t_money w) @ [uuid_gen w n]" by (simp add: t T' old new)
  have kept: "entries_kept w w'" by (rule entries_kept_append [OF e(1)])
  have "backed w' comp" unfolding backed_def using e bk(1) new by (intro conjI bexI [of _ e']) (auto simp: backed_def)
  moreover have "backed w' ?ft" using backed_kept [OF bk(1) kept] by (simp add: backed_def old)
  moreover have "scale4 (mt_fee ft)" "scale4 (mt_net ft)" using I(3) by (simp_all add: t money_row_ok_def)
  ultimately have ok: "\<forall>r \<in> set (t_money w'). money_row_ok w' r"
    using money_rows_kept [OF I(3) kept] bk(2) new by (auto simp: t T' money_row_ok_def old)
  have fresh: "uuid_gen w n \<notin> set (map mt_id (t_money w))" "uuid_fresh w' (set (map mt_id (t_money w')))"
    using I(2) u by (auto simp: uuid_fresh_def ids inj_eq)
  have "distinct (map mt_entry (left_draft (t_money w')))"
    using I(4) new_entry_unlinked [OF inv e(1) l] by (auto simp: t T' new old ft)
  then have "money_inv w'" using l ids I(1) fresh ok by (simp add: money_inv_def)
  moreover have "rows_live (t_money w) (t_money w')"
    unfolding rows_live_def t T' by (intro exI [of _ "xs @ ?ft # ys"] exI [of _ "[comp]"])
      (simp add: list_all2_append list_all2_same money_life_def [of ft] ft old)
  ultimately show ?thesis by blast
qed

lemma money_inv_grow:
  assumes inv: "money_inv w" and l: "ledger_inv w'" and t: "t_money w' = t_money w" and e: "entries_kept w w'"
    and u: "uuid_gen w' = uuid_gen w" "uuid_next w \<le> uuid_next w'"
  shows "money_inv w'"
proof -
  have I: "distinct (map mt_id (t_money w))" "uuid_fresh w (set (map mt_id (t_money w)))"
    "\<forall>r \<in> set (t_money w). money_row_ok w r" "distinct (map mt_entry (left_draft (t_money w)))" using inv by (simp_all add: money_inv_def)
  show ?thesis using I l money_rows_kept [OF I(3) e] uuid_fresh_later [OF I(2) u] by (simp add: money_inv_def t)
qed

lemma audited: "money_audit c user i a b r w = (Inr (), w') \<Longrightarrow> \<exists>x. w' = w\<lparr>t_audit := x\<rparr>"
  by (auto simp: money_audit_def bind_Inr_iff)

lemma assert_registers_same: "assert_registers_belong a b d c w = (x, w') \<Longrightarrow> w' = w"
proof -
  assume run: "assert_registers_belong a b d c w = (x, w')"
  have "frame id (assert_registers_belong a b d c)" unfolding assert_registers_belong_def by (intro frame_intros)
  from frameD [OF this run] show ?thesis by simp
qed

lemma new_decimal_same: "new_decimal a w = (x, w') \<Longrightarrow> w' = w"
  by (cases a) (simp_all add: new_decimal_def)

lemma normalized_same: "normalized v w = (Inr x, w') \<Longrightarrow> w' = w \<and> (v = None \<longrightarrow> x = None)"
  by (auto simp: normalized_def bind_Inr_iff split: option.splits dest!: new_decimal_same)

lemma create_money_Inr:
  assumes "create_money_work d user c key w = (Inr j, w')"
  shows "\<exists>row a. mt_id row = uuid_gen w (uuid_next w) \<and> mt_status row = MoneyDraft \<and>
    w' = w\<lparr>uuid_next := Suc (uuid_next w), t_money := t_money w @ [normalize_money row], t_audit := a\<rparr>"
proof -
  from assms obtain amount fee cur w2 w3 created where
    ins: "insert_money (draft_money d user c key amount fee (amount - fee) cur) w = (Inr created, w2)"
    and au: "money_audit c user (mt_id created) ''CREATE'' None created w2 = (Inr (), w3)" and w': "w' = w3"
    by (auto simp: create_money_work_def bind_Inr_iff get_base_currency_def money_view_def split: if_splits
        dest!: new_decimal_same assert_registers_same)
  let ?row = "draft_money d user c key amount fee (amount - fee) cur (uuid_gen w (uuid_next w)) (now w)"
  have "mt_id ?row = uuid_gen w (uuid_next w)" "mt_status ?row = MoneyDraft" by (simp_all add: draft_money_def)
  moreover obtain x where "w3 = w2\<lparr>t_audit := x\<rparr>" using audited [OF au] by blast
  ultimately show ?thesis using ins unfolding w' insert_money_run by (intro exI [of _ ?row] exI [of _ x]) auto
qed

lemma create_money_keeps:
  assumes inv: "money_inv w" and run: "create_money_work d user c key w = (Inr j, w')"
  shows "money_inv w' \<and> rows_live (t_money w) (t_money w')"
proof -
  obtain row a where row: "mt_id row = uuid_gen w (uuid_next w)" "mt_status row = MoneyDraft"
    and w': "w' = w\<lparr>uuid_next := Suc (uuid_next w), t_money := t_money w @ [normalize_money row], t_audit := a\<rparr>"
    using create_money_Inr [OF run] by blast
  have I: "ledger_inv w" "distinct (map mt_id (t_money w))" "uuid_fresh w (set (map mt_id (t_money w)))"
    "\<forall>r \<in> set (t_money w). money_row_ok w r" "distinct (map mt_entry (left_draft (t_money w)))" using inv by (simp_all add: money_inv_def)
  have k: "entries_kept w w'" by (rule entries_kept_append [of _ _ "[]"]) (simp add: w')
  have "money_row_ok w' (normalize_money row)" using row by (simp add: money_row_ok_def normalize_money_def)
  moreover have "\<forall>r \<in> set (t_money w). money_row_ok w' r" by (rule money_rows_kept [OF I(4) k])
  moreover have "uuid_fresh w' (insert (uuid_gen w (uuid_next w)) (set (map mt_id (t_money w))))"
    by (rule uuid_fresh_step [OF I(3)]) (simp_all add: w')
  moreover have "mt_id (normalize_money row) = uuid_gen w (uuid_next w)" "mt_status (normalize_money row) = MoneyDraft"
    using row by (simp_all add: normalize_money_def)
  moreover have "ledger_inv w'" unfolding w' by (rule ledger_inv_money_new [OF I(1)])
  ultimately have "money_inv w'" using I uuid_fresh_now [OF I(3)] by (simp add: money_inv_def w')
  then show ?thesis by (simp add: w' rows_live_append)
qed

definition edit_column :: "money_edit \<Rightarrow> decimal option \<Rightarrow> decimal option \<Rightarrow> decimal option \<Rightarrow> money_row \<Rightarrow> money_row" where
  "edit_column d amount fee net r = (normalize_money (edited_money d amount fee net r))\<lparr>mt_version := mt_version r + 1\<rparr>"

lemma edit_column_bump:
  "bump_ver (\<lambda>r. r\<lparr>mt_version := mt_version r + 1\<rparr>) (normalize_money \<circ> edited_money d x y z) = edit_column d x y z"
  by (rule ext) (simp add: bump_ver_def edit_column_def normalize_money_def edited_money_def)

lemma put_money: "t_money_update h w = w\<lparr>t_money := h (t_money w)\<rparr>"
  by (cases w) simp

lemma edit_column_simps:
  "mt_id (edit_column d x y z r) = mt_id r" "mt_company (edit_column d x y z r) = mt_company r"
  "mt_status (edit_column d x y z r) = mt_status r" "mt_entry (edit_column d x y z r) = mt_entry r"
  by (simp_all add: edit_column_def normalize_money_def edited_money_def)

lemma edit_column_live:
  assumes "scale4 (mt_amount r)" "scale4 (mt_fee r)" "scale4 (mt_net r)" and "mt_status r = MoneyDraft \<or> \<not> FROZEN_FIELDS d \<and> x = None \<and> y = None \<and> z = None"
  shows "money_life r (edit_column d x y z r)" and "mt_status r \<noteq> MoneyDraft \<Longrightarrow> mt_amount (edit_column d x y z r) = mt_amount r"
  using assms by (auto simp: money_life_def same_terms_def edit_column_def normalize_money_def edited_money_def given_def FROZEN_FIELDS_def round4_id)

lemma edit_keeps:
  assumes inv: "money_inv w" and run: "edit_money i d user c w = (Inr j, w')"
  shows "money_inv w' \<and> rows_live (t_money w) (t_money w')"
proof -
  from run obtain before net w1 w2 up where b: "find_first (\<lambda>r. mt_id r = i \<and> mt_company r = c) (t_money w) = Some before"
    and f: "mt_status before = MoneyDraft \<or> \<not> FROZEN_FIELDS d"
    and n: "edited_net d before w = (Inr net, w1)"
    and tr: "transaction (
       bind (assert_registers_belong (given (me_cash d) None) (given (me_bank d) None) (given (me_destination d) None) c) (\<lambda>_.
       bind (normalized (me_amount d)) (\<lambda>amount.
       bind (normalized (me_fee d)) (\<lambda>fee.
       bind (update_money i (writes_relation d) (edited_money d amount fee net) c (mt_version before)) (\<lambda>updated.
       bind (money_audit c user i ''UPDATE'' (Some before) updated) (\<lambda>_. ret updated)))))) w1 = (Inr up, w2)"
    and w': "w' = w2"
    unfolding edit_money_def bind_Inr_iff [of "find_money _ _"] bind_Inr_iff [of "require_some _ _"] bind_Inr_iff [of "require _ _"]
      bind_Inr_iff [of "edited_net _ _"] bind_Inr_iff [of "transaction _"] find_money_run require_some_Inr_iff require_Inr_iff money_view_run by blast
  have n': "w1 = w \<and> (me_fee d = None \<longrightarrow> net = None)"
    using n by (auto simp: edited_net_def bind_Inr_iff split: option.splits dest!: new_decimal_same)
  from tr obtain amount fee updated w3 wa wb wc where reg: "assert_registers_belong (given (me_cash d) None) (given (me_bank d) None) (given (me_destination d) None) c w1 = (Inr (), wc)"
    and vals0: "normalized (me_amount d) wc = (Inr amount, wa)" "normalized (me_fee d) wa = (Inr fee, wb)"
    and up0: "update_money i (writes_relation d) (edited_money d amount fee net) c (mt_version before) wb = (Inr updated, w3)"
    and au: "money_audit c user i ''UPDATE'' (Some before) updated w3 = (Inr (), w')"
    unfolding transaction_Inr_iff bind_Inr_iff using w' by auto
  have same: "w1 = w" "wc = w" "wa = w" "wb = w"
    using n' assert_registers_same [OF reg] normalized_same [OF vals0(1)] normalized_same [OF vals0(2)] by simp_all
  note vals = vals0 [unfolded same] and up = up0 [unfolded same]
  let ?hit = "\<lambda>r. mt_id r = i \<and> mt_company r = c \<and> mt_version r = mt_version before"
  have "w3 = t_money_update (update_rows ?hit (edit_column d amount fee net)) w"
    using up unfolding update_money_def bind_Inr_iff require_Inr_iff edit_column_bump by (auto dest!: cas_write_Inr)
  then have w3: "w3 = w\<lparr>t_money := update_rows ?hit (edit_column d amount fee net) (t_money w)\<rparr>" by (simp only: put_money [of "update_rows _ _"])
  obtain a where W: "w' = w\<lparr>t_money := update_rows ?hit (edit_column d amount fee net) (t_money w), t_audit := a\<rparr>"
    using audited [OF au] w3 by auto
  have I: "ledger_inv w" "distinct (map mt_id (t_money w))" "uuid_fresh w (set (map mt_id (t_money w)))"
    "\<forall>r \<in> set (t_money w). money_row_ok w r" "distinct (map mt_entry (left_draft (t_money w)))" using inv by (simp_all add: money_inv_def)
  have only: "r = before" if "r \<in> set (t_money w)" "?hit r" for r
    using distinct_map_eq [OF I(2), of r before] that find_first_SomeD [OF b] by simp
  have ok: "mt_status before = MoneyDraft \<or> \<not> FROZEN_FIELDS d \<and> amount = None \<and> fee = None \<and> net = None"
    using f vals n' normalized_same by (auto simp: FROZEN_FIELDS_def)
  have sc: "scale4 (mt_amount before)" "scale4 (mt_fee before)" "scale4 (mt_net before)" "money_row_ok w before"
    using I(4) find_first_SomeD [OF b] by (auto simp: money_row_ok_def)
  note live = edit_column_live [OF sc(1-3) ok]
  have k: "entries_kept w w'" by (rule entries_kept_append [of _ _ "[]"]) (simp add: W)
  have "money_row_ok w' (edit_column d amount fee net before)"
    using sc(4) live(2) backed_kept [OF _ k, of before] unfolding money_row_ok_def backed_def
    by (auto simp: edit_column_simps) (auto simp: edit_column_def normalize_money_def)
  then have "\<forall>r \<in> set (t_money w'). money_row_ok w' r"
    using money_rows_kept [OF I(4) k] only by (auto simp: W set_update_rows)
  moreover have "map mt_id (t_money w') = map mt_id (t_money w)" by (simp add: W map_update_rows edit_column_simps)
  moreover have "map mt_entry (left_draft (t_money w')) = map mt_entry (left_draft (t_money w))"
    unfolding W left_draft_def by (simp, subst filter_update_rows) (simp_all add: edit_column_simps map_update_rows)
  moreover have "ledger_inv w'" unfolding W by (rule ledger_inv_money [OF I(1)])
  moreover have "uuid_fresh w' (set (map mt_id (t_money w)))" by (rule uuid_fresh_later [OF I(3)]) (simp_all add: W)
  ultimately have "money_inv w'" using I by (simp add: money_inv_def)
  moreover have "rows_live (t_money w) (t_money w')" unfolding W by (simp, rule update_rows_live) (use only live(1) in blast)
  ultimately show ?thesis by blast
qed

section \<open>Reachable states\<close>

text \<open>
  \<open>elsewhere\<close> is any operation of another module that keeps the ledger consistent, the journal entries with
  their lines, and the table of financial transactions.
\<close>

inductive money_step :: "event_bus \<Rightarrow> counterparts \<Rightarrow> world \<Rightarrow> world \<Rightarrow> bool" for bus cps where
  create: "money_step bus cps w (snd (create_money d user c key w))"
| post: "money_step bus cps w (snd (post_money bus cps i user c key w))"
| reverse: "money_step bus cps w (snd (reverse_money bus i user c reason key w))"
| edit: "money_step bus cps w (snd (edit_money i ed user c w))"
| elsewhere: "ledger_inv w' \<Longrightarrow> t_money w' = t_money w \<Longrightarrow> entries_kept w w' \<Longrightarrow> uuid_gen w' = uuid_gen w \<Longrightarrow>
    uuid_next w \<le> uuid_next w' \<Longrightarrow> money_step bus cps w w'"

inductive money_reachable :: "event_bus \<Rightarrow> counterparts \<Rightarrow> world \<Rightarrow> bool" for bus cps where
  start: "ledger_inv w \<Longrightarrow> t_money w = [] \<Longrightarrow> inj (uuid_gen w) \<Longrightarrow> money_reachable bus cps w"
| step: "money_reachable bus cps w \<Longrightarrow> money_step bus cps w w' \<Longrightarrow> money_reachable bus cps w'"

lemma keys_money:
  assumes "money_inv w" and "same_but_keys w v"
  shows "money_inv v \<and> t_money v = t_money w"
proof -
  obtain h n where v: "v = w\<lparr>t_idem := h, uuid_next := n\<rparr>" "uuid_next w \<le> n" using assms(2) by (auto simp: same_but_keys_def)
  have w: "ledger_inv w" using assms(1) by (simp add: money_inv_def)
  then have "distinct (map ac_id (t_account w))" by (simp add: ledger_inv_def)
  with v(2) have "ledger_inv v" unfolding v(1) by (intro ledger_inv_cong [OF w]) simp_all
  then show ?thesis using money_inv_grow [OF assms(1), of v] v by (simp add: entries_kept_append [of _ _ "[]"])
qed

lemma keyed_money:
  assumes inv: "money_inv w"
    and work: "\<And>v b v'. money_inv v \<Longrightarrow> f v = (Inr b, v') \<Longrightarrow> money_inv v' \<and> rows_live (t_money v) (t_money v')"
  shows "money_inv (snd (run_with_idempotency c key ep pl st f w)) \<and>
    rows_live (t_money w) (t_money (snd (run_with_idempotency c key ep pl st f w)))"
proof -
  obtain r w' where run: "run_with_idempotency c key ep pl st f w = (r, w')" by fastforce
  from run show ?thesis
  proof (cases rule: keyed_run_cases)
    case quiet
    then show ?thesis using keys_money [OF inv, of w'] unfolding run by simp
  next
    case (worked w0 b w1)
    have a: "money_inv w0" "t_money w0 = t_money w" using keys_money [OF inv worked(1)] by simp_all
    have b: "money_inv w1" "rows_live (t_money w0) (t_money w1)" using work [OF a(1) worked(2)] by simp_all
    show ?thesis using keys_money [OF b(1) worked(3)] b(2) a(2) unfolding run by simp
  qed
qed

lemma money_step_keeps:
  assumes bus: "money_bus bus" and q: "quiet_counterparts cps" and inv: "money_inv w" and step: "money_step bus cps w w'"
  shows "money_inv w' \<and> rows_live (t_money w) (t_money w')"
  using step
proof cases
  case (create d user c key)
  show ?thesis unfolding create create_money_def by (simp add: bind_def, rule keyed_money [OF inv create_money_keeps])
next
  case (post i user c key)
  show ?thesis unfolding post post_money_def by (rule keyed_money [OF inv post_keeps [OF bus q]])
next
  case (reverse i user c reason key)
  show ?thesis unfolding reverse reverse_money_def by (rule keyed_money [OF inv reverse_keeps [OF bus]])
next
  case (edit i d user c)
  obtain r v where run: "edit_money i d user c w = (r, v)" by fastforce
  show ?thesis
  proof (cases r)
    case (Inl x)
    have "v = w" using run unfolding Inl edit_money_def
      by (auto simp: bind_Inl_iff find_money_run money_view_run edited_net_def new_decimal_def dest!: transaction_rollback split: option.splits amount.splits if_splits)
    then show ?thesis using inv by (simp add: edit run)
  next
    case (Inr x)
    then show ?thesis using edit_keeps [OF inv] run by (simp add: edit)
  qed
next
  case elsewhere
  then show ?thesis using money_inv_grow [OF inv] by simp
qed

lemma money_reachable_inv:
  assumes "money_bus bus" and "quiet_counterparts cps" and "money_reachable bus cps w"
  shows "money_inv w"
  using assms(3)
proof induction
  case (start w)
  then show ?case by (simp add: money_inv_def uuid_fresh_def)
next
  case (step w w')
  then show ?case using money_step_keeps [OF assms(1,2)] by blast
qed

section \<open>Properties\<close>

text \<open>
  Property C35: every transaction that was ever posted is in the books. After any sequence of creating, posting,
  reversing and editing transactions, mixed with operations of other modules, each transaction that has left
  its draft has a positive amount and a posted journal entry of its company that moves exactly this amount
  from one account to another, and no two transactions share an entry.
\<close>

theorem posted_money_is_backed:
  assumes "money_bus bus" and "quiet_counterparts cps" and "money_reachable bus cps w"
  shows "ledger_inv w \<and> distinct (map mt_entry (left_draft (t_money w))) \<and>
    (\<forall>r \<in> set (t_money w). mt_status r \<noteq> MoneyDraft \<longrightarrow> 0 < mt_amount r \<and>
      (\<exists>e \<in> set (t_entry w). mt_entry r = Some (je_id e) \<and> je_company e = mt_company r \<and> je_status e \<noteq> Draft \<and>
        (\<exists>a b. entry_moves e a b (mt_amount r))))"
  using money_reachable_inv [OF assms] unfolding money_inv_def money_row_ok_def backed_def by blast

text \<open>
  Property C36: what has been posted is frozen. Whatever happens later, a transaction keeps its place, identifier
  and company, and once it has left its draft its amount, fee, type, direction, currency, date, registers,
  reference and journal entry never change, and its status only goes from POSTED to REVERSED.
\<close>

theorem posted_money_is_frozen:
  assumes "money_bus bus" and "quiet_counterparts cps" and "money_reachable bus cps w" and "(money_step bus cps)\<^sup>*\<^sup>* w w'"
    and "k < length (t_money w)" and "r = t_money w ! k"
  shows "\<exists>s. k < length (t_money w') \<and> s = t_money w' ! k \<and> mt_id s = mt_id r \<and> mt_company s = mt_company r \<and>
    (mt_status r \<noteq> MoneyDraft \<longrightarrow> same_terms r s \<and> mt_status s \<noteq> MoneyDraft \<and> (mt_status r = MoneyReversed \<longrightarrow> mt_status s = MoneyReversed))"
proof -
  have "money_inv w' \<and> rows_live (t_money w) (t_money w')" using assms(4)
  proof induction
    case base
    then show ?case using money_reachable_inv [OF assms(1-3)] by simp
  next
    case (step x y)
    then show ?case using money_step_keeps [OF assms(1,2), of x y] rows_live_trans by blast
  qed
  then obtain t1 u where t: "t_money w' = t1 @ u" "list_all2 money_life (t_money w) t1" by (auto simp: rows_live_def)
  have "length t1 = length (t_money w)" using t(2) by (simp add: list_all2_lengthD)
  moreover have "money_life r (t1 ! k)" using list_all2_nthD [OF t(2) assms(5)] assms(6) by simp
  ultimately show ?thesis using assms(5) by (auto simp: t(1) nth_append money_life_def)
qed

text \<open>The accounts of the legs do not depend on what posting changes.\<close>

lemma resolve_plan_leg_cong:
  assumes "resolve_plan_leg leg cp ft c v = (Inr a, v)" and "t_account w = t_account v" "t_register w = t_register v" "t_bank w = t_bank v"
  shows "resolve_plan_leg leg cp ft c w = (Inr a, w)"
proof -
  have "fst (resolve_plan_leg leg cp ft c w) = fst (resolve_plan_leg leg cp ft c v)"
    by (cases leg) (simp_all add: resolve_plan_leg_def resolve_leg_account_def find_linked_chart_account_def live_account_id_def
      resolve_system_account_def bind_def assms(2-4) split: option.splits)
  then have "resolve_plan_leg leg cp ft c w = (Inr a, snd (resolve_plan_leg leg cp ft c w))" using assms(1) by (cases "resolve_plan_leg leg cp ft c w") simp
  with resolve_plan_leg_Inr show ?thesis by (metis)
qed

lemma post_money_plain: "post_money bus cps i user c None w = (Inr x, w') \<longleftrightarrow> (\<exists>j. x = (200, j) \<and> apply_post bus cps i user c w = (Inr j, w'))"
  by (auto simp: post_money_def run_with_idempotency_def bind_Inr_iff transaction_Inr_iff)

lemma reverse_money_plain:
  "reverse_money bus i user c reason None w = (Inr x, w') \<longleftrightarrow> (\<exists>j. x = (200, j) \<and> apply_reverse bus i user c reason w = (Inr j, w'))"
  by (auto simp: reverse_money_def run_with_idempotency_def bind_Inr_iff transaction_Inr_iff)

lemma money_posted_again:
  assumes "find_first (\<lambda>r. mt_id r = i \<and> mt_company r = c) (t_money w) = Some ft" and "mt_status ft \<noteq> MoneyDraft"
  shows "post_money bus cps i user c None w = (Inl (Conflict ''Financial transaction cannot be posted again''), w)"
  using assms by (simp add: post_money_def run_with_idempotency_def transaction_def apply_post_def find_money_run bind_def)

lemma reversed_again:
  assumes "find_first (\<lambda>r. mt_id r = i \<and> mt_company r = c) (t_money w) = Some ft" and "mt_status ft = MoneyReversed"
  shows "reverse_money bus i user c reason None w =
    (Inl (Conflict ''Only a POSTED FinancialTransaction with a journal entry can be reversed''), w)"
  using assms by (simp add: reverse_money_def run_with_idempotency_def transaction_def apply_reverse_def find_money_run bind_def)

lemma found_middle:
  assumes "\<And>r. r \<in> set xs \<union> set ys \<Longrightarrow> mt_id r \<noteq> i" and "mt_id x = i" and "mt_company x = c"
  shows "find_first (\<lambda>r. mt_id r = i \<and> mt_company r = c) (xs @ x # ys @ zs) = Some x"
proof -
  have "find_first (\<lambda>r. mt_id r = i \<and> mt_company r = c) xs = None" using assms(1) by (auto simp: find_first_None_iff)
  then show ?thesis using assms(2,3) by (simp add: find_first_append)
qed

text \<open>
  Property C37: a posting books exactly what the policy planned, once. A successful posting takes a draft the
  policy plans to post, appends one journal entry, dated like the transaction, that debits the account of the
  debit leg and credits the account of the credit leg with its amount, moves these two accounts and nothing
  else, marks the row POSTED with the entry; and the transaction can never be posted again.
\<close>

theorem posting_books_the_plan_once:
  assumes "money_bus bus" and "quiet_counterparts cps" and "money_reachable bus cps w"
    and "post_money bus cps i user c None w = (Inr x, w')"
  shows "\<exists>ft cp d k act e da ca. find_first (\<lambda>r. mt_id r = i \<and> mt_company r = c) (t_money w) = Some ft \<and> mt_status ft = MoneyDraft \<and>
    resolve_domain_counterpart cps ft c w = (Inr cp, w) \<and> plan_posting (plan_input_of ft (cp \<noteq> None)) = Postable d k act \<and>
    resolve_plan_leg d cp ft c w = (Inr da, w) \<and> resolve_plan_leg k cp ft c w = (Inr ca, w) \<and>
    t_entry w' = t_entry w @ [e] \<and> je_status e = Posted \<and> je_date e = mt_date ft \<and>
    map (\<lambda>l. (jl_account l, jl_debit l, jl_credit l)) (je_lines e) = [(da, mt_amount ft, 0), (ca, 0, mt_amount ft)] \<and>
    (\<forall>c' a p. net_balance w' c' a p = net_balance w c' a p + (if (c', p) = (c, je_period e) then moves da ca (mt_amount ft) a else 0)) \<and>
    find_first (\<lambda>r. mt_id r = i \<and> mt_company r = c) (t_money w') = Some (linked_money (je_id e) (claimed_money MoneyPosted ft)) \<and>
    (\<forall>bus' cps' user'. post_money bus' cps' i user' c None w' = (Inl (Conflict ''Financial transaction cannot be posted again''), w'))"
proof -
  have inv: "money_inv w" by (rule money_reachable_inv [OF assms(1-3)])
  obtain j where run: "apply_post bus cps i user c w = (Inr j, w')" using assms(4) by (auto simp: post_money_plain)
  show ?thesis
  proof (rule apply_post_effect [OF assms(1,2) inv run], goal_cases)
    case (1 ft xs ys cp d k act w2 period da ca e)
    have "find_first (\<lambda>r. mt_id r = i \<and> mt_company r = c) (t_money w) = Some ft" using found_middle [of xs ys i ft c "[]"] 1 by simp
    moreover have new: "find_first (\<lambda>r. mt_id r = i \<and> mt_company r = c) (t_money w') = Some (linked_money (je_id e) (claimed_money MoneyPosted ft))"
      using found_middle [of xs ys i "linked_money (je_id e) (claimed_money MoneyPosted ft)" c "[]"] 1 by (simp add: linked_money_def claimed_money_def)
    moreover have "resolve_plan_leg d cp ft c w = (Inr da, w)" "resolve_plan_leg k cp ft c w = (Inr ca, w)"
      using 1 by (auto intro!: resolve_plan_leg_cong [of _ _ _ _ w2])
    moreover have "post_money bus' cps' i user' c None w' = (Inl (Conflict ''Financial transaction cannot be posted again''), w')" for bus' cps' user'
      by (rule money_posted_again [OF new]) (simp add: linked_money_def claimed_money_def)
    ultimately show ?case using 1
      by (intro exI [of _ ft] exI [of _ cp] exI [of _ d] exI [of _ k] exI [of _ act] exI [of _ e] exI [of _ da] exI [of _ ca]) simp
  qed
qed

text \<open>
  Property C38: a reversal takes back what was posted. Posting a transaction and reversing it appends two entries
  that move the same amount between the same accounts in opposite directions, so the two together change the
  balances only by moving the amount between their periods; the transaction ends REVERSED, a POSTED compensating
  transaction of the opposite direction and the same amount refers to it, and it can be neither reversed nor
  posted again.
\<close>

theorem money_reversal_cancels_the_posting:
  assumes bus: "money_bus bus" and q: "quiet_counterparts cps" and re: "money_reachable bus cps w"
    and p: "post_money bus cps i user c None w = (Inr x, w1)" and r: "reverse_money bus i user' c reason None w1 = (Inr y, w2)"
  shows "\<exists>e e' a b v. t_entry w2 = t_entry w @ [e, e'] \<and> entry_moves e a b v \<and> entry_moves e' b a v \<and>
    (\<forall>c' z p. net_balance w2 c' z p = net_balance w c' z p +
      (if (c', p) = (c, je_period e) then moves a b v z else 0) - (if (c', p) = (c, je_period e') then moves a b v z else 0)) \<and>
    (\<exists>ft comp. find_first (\<lambda>r. mt_id r = i \<and> mt_company r = c) (t_money w2) = Some ft \<and> mt_status ft = MoneyReversed \<and> mt_amount ft = v \<and>
      comp \<in> set (t_money w2) \<and> mt_status comp = MoneyPosted \<and> mt_refId comp = Some i \<and> mt_entry comp = Some (je_id e') \<and> mt_amount comp = v \<and>
      mt_direction comp \<noteq> mt_direction ft) \<and>
    (\<forall>bus' cps' k. (\<exists>m. reverse_money bus' i k c reason None w2 = (Inl (Conflict m), w2)) \<and> (\<exists>m. post_money bus' cps' i k c None w2 = (Inl (Conflict m), w2)))"
proof -
  have inv: "money_inv w" by (rule money_reachable_inv [OF bus q re])
  obtain j where run: "apply_post bus cps i user c w = (Inr j, w1)" using p by (auto simp: post_money_plain)
  obtain j' where run': "apply_reverse bus i user' c reason w1 = (Inr j', w2)" using r by (auto simp: reverse_money_plain)
  have inv1: "money_inv w1" using post_keeps [OF bus q inv run] by simp
  show ?thesis
  proof (rule apply_post_effect [OF bus q inv run], goal_cases)
    case (1 ft xs ys cp d k act v2 period da ca e)
    note P = 1
    let ?ft = "linked_money (je_id e) (claimed_money MoneyPosted ft)"
    have at1: "find_first (\<lambda>r. mt_id r = i \<and> mt_company r = c) (t_money w1) = Some ?ft"
      using found_middle [of xs ys i ?ft c "[]"] P by (simp add: linked_money_def claimed_money_def)
    have ids: "distinct (map mt_id (t_money w1))" "distinct (map je_id (t_entry w1))" using inv1 by (simp_all add: money_inv_def ledger_inv_def entry_ids_ok_def)
    show ?case
    proof (rule apply_reverse_effect [OF bus inv1 run'], goal_cases)
      case (1 gt us vs f a b period' e' n clock)
      have same: "gt = ?ft" using distinct_map_eq [OF ids(1), of gt ?ft] find_first_SomeD [OF at1] 1 by simp
      have "f = e" using distinct_map_eq [OF ids(2), of f e] find_first_SomeD [OF 1(6)] P(10) by (simp add: same linked_money_def)
      then have lines: "entry_moves e a b (mt_amount ft)" using 1(8) same by (simp add: linked_money_def claimed_money_def)
      have sc: "scale4 (mt_amount ft)" using inv P(1) by (simp add: money_inv_def money_row_ok_def)
      have ab: "moves da ca (mt_amount ft) = moves a b (mt_amount ft)"
        using lines P(6) unfolding entry_moves_def P(15) by (auto simp: moves_def)
      have neg: "moves b a v z = - moves a b v z" for v z by (simp add: moves_def)
      let ?rt = "claimed_money MoneyReversed ?ft"
      let ?comp = "normalize_money (compensating_money ?ft user' c reason (je_id e') (now w1) (uuid_gen w1 n) clock)"
      have t2: "t_money w2 = us @ ?rt # vs @ [?comp]" using 1(9) same by simp
      have at2: "find_first (\<lambda>r. mt_id r = i \<and> mt_company r = c) (t_money w2) = Some ?rt"
        unfolding t2 using 1(2-4) same by (intro found_middle) (auto simp: claimed_money_def)
      have stat: "mt_status ?rt = MoneyReversed" "mt_amount ?rt = mt_amount ft" "mt_direction ?rt = mt_direction ft"
        by (simp_all add: linked_money_def claimed_money_def)
      have comp: "?comp \<in> set (t_money w2)" "mt_status ?comp = MoneyPosted" "mt_refId ?comp = Some i" "mt_entry ?comp = Some (je_id e')"
        "mt_amount ?comp = mt_amount ft" "mt_direction ?comp \<noteq> mt_direction ft"
        using sc P(2) by (auto simp: t2 normalize_money_def compensating_money_def linked_money_def claimed_money_def round4_id other_direction_def)
      have "\<exists>m. reverse_money bus' i k c reason None w2 = (Inl (Conflict m), w2)" for bus' k
        using reversed_again [OF at2 stat(1)] by blast
      moreover have "\<exists>m. post_money bus' cps' i k c None w2 = (Inl (Conflict m), w2)" for bus' cps' k
        using money_posted_again [OF at2] stat(1) by simp
      moreover have net: "net_balance w2 c' z p = net_balance w c' z p + (if (c', p) = (c, je_period e) then moves a b (mt_amount ft) z else 0) -
          (if (c', p) = (c, je_period e') then moves a b (mt_amount ft) z else 0)" for c' z p
        using 1(20) [of c' z p] P(26) [of c' z p] 1(13) P(14) by (simp add: ab neg same linked_money_def claimed_money_def)
      moreover have "t_entry w2 = t_entry w @ [e, e']" using 1(10) P(10) by simp
      moreover have "entry_moves e' b a (mt_amount ft)" using 1(14) same by (simp add: linked_money_def claimed_money_def)
      moreover have "\<exists>ft' comp. find_first (\<lambda>r. mt_id r = i \<and> mt_company r = c) (t_money w2) = Some ft' \<and> mt_status ft' = MoneyReversed \<and>
          mt_amount ft' = mt_amount ft \<and> comp \<in> set (t_money w2) \<and> mt_status comp = MoneyPosted \<and> mt_refId comp = Some i \<and>
          mt_entry comp = Some (je_id e') \<and> mt_amount comp = mt_amount ft \<and> mt_direction comp \<noteq> mt_direction ft'"
        using at2 stat comp by (intro exI [of _ ?rt] exI [of _ ?comp]) simp
      ultimately show ?case using lines
        by - (rule exI [of _ e], rule exI [of _ e'], rule exI [of _ a], rule exI [of _ b], rule exI [of _ "mt_amount ft"], blast)
    qed
  qed
qed

section \<open>A posting that must succeed\<close>

lemma open_period_run:
  assumes ids: "distinct (map fp_id (t_period w))" and p: "p \<in> set (t_period w)" "fp_company p = c" "fp_status p = Open" "fp_start p \<le> t" "t \<le> fp_end p"
  obtains q where "resolve_open_period c t w = (Inr (fp_id q), w)" and "find_first (\<lambda>r. fp_id r = fp_id q \<and> fp_company r = c) (t_period w) = Some q"
    and "fp_status q = Open" and "fp_start q \<le> t" and "t \<le> fp_end q"
proof -
  let ?hit = "\<lambda>r. fp_company r = c \<and> fp_status r = Open \<and> fp_start r \<le> t \<and> t \<le> fp_end r"
  let ?ps = "sort_key (\<lambda>r. - fp_start r) (find_many ?hit (t_period w))"
  have "p \<in> set ?ps" using p by (simp add: find_many_def)
  then obtain q qs where q: "?ps = q # qs" by (cases ?ps) auto
  then have "q \<in> set ?ps" by simp
  then have mem: "q \<in> set (t_period w)" "?hit q" by (simp_all add: find_many_def)
  have "resolve_open_period c t w = (Inr (fp_id q), w)" unfolding resolve_open_period_def using q by simp
  moreover have "find_first (\<lambda>r. fp_id r = fp_id q \<and> fp_company r = c) (t_period w) = Some q"
    by (rule find_first_unique [OF ids mem(1)]) (use mem(2) in auto)
  ultimately show thesis using mem(2) that by blast
qed

lemma calendar_registers:
  "ensure_current_calendar c w = (r, w') \<Longrightarrow> t_register w' = t_register w \<and> t_bank w' = t_bank w"
proof -
  assume run: "ensure_current_calendar c w = (r, w')"
  have "frame (\<lambda>w. (t_register w, t_bank w)) (ensure_current_calendar c)" by (intro frame_intros) simp_all
  from frameD [OF this run] show ?thesis by simp
qed

lemma calendar_runs:
  assumes "period_ids_ok w"
  obtains cal w' where "ensure_current_calendar c w = (Inr cal, w')" and "set (t_period w) \<subseteq> set (t_period w')" and "distinct (map fp_id (t_period w'))"
proof -
  obtain fy p w' where run: "ensure_current_calendar c w = (Inr (fy, p, fp_status p = Open), w')"
    and cs: "case find_first (period_is c (utc_year (now w)) (utc_month (now w))) (t_period w) of
        Some r \<Rightarrow> p = r \<and> t_period w' = t_period w
      | None \<Rightarrow> t_period w' = t_period w @ [p] \<and> fp_status p = Open \<and> fp_start p \<le> now w \<and> now w \<le> fp_end p"
    using ensure_current_calendar_run by blast
  have "set (t_period w) \<subseteq> set (t_period w')" using cs by (auto split: option.splits)
  moreover have "distinct (map fp_id (t_period w'))" using calendar_period_ids [OF assms run] by (simp add: period_ids_ok_def)
  ultimately show thesis using run that by blast
qed

lemma planned_draft_posts:
  assumes bus: "money_bus bus" and q: "quiet_counterparts cps" and inv: "money_inv w"
    and ft: "find_first (\<lambda>r. mt_id r = i \<and> mt_company r = c) (t_money w) = Some ft" "mt_status ft = MoneyDraft" "0 < mt_amount ft"
      "get_base_currency c w = (Inr (mt_currency ft), w)" "mt_type ft \<noteq> FT_REFUND"
    and plan: "resolve_domain_counterpart cps ft c w = (Inr cp, w)" "plan_posting (plan_input_of ft (cp \<noteq> None)) = Postable d k act"
    and legs: "resolve_plan_leg d cp ft c w = (Inr da, w)" "resolve_plan_leg k cp ft c w = (Inr ca, w)"
    and per: "period_ids_ok w" "p \<in> set (t_period w)" "fp_company p = c" "fp_status p = Open" "fp_start p \<le> mt_date ft" "mt_date ft \<le> fp_end p"
  shows "\<exists>x w'. post_money bus cps i user c None w = (Inr x, w')"
proof -
  have key: "mt_id ft = i" "mt_company ft = c" "ft \<in> set (t_money w)" using find_first_SomeD [OF ft(1)] by simp_all
  define w1 where "w1 = w\<lparr>t_money := update_rows (hit_money ft) (claimed_money MoneyPosted) (t_money w)\<rparr>"
  have claim: "claim_posting_status i c MoneyDraft MoneyPosted (mt_version ft) w = (Inr (count_rows (hit_money ft) (t_money w)), w1)"
    using claim_run [of ft MoneyPosted w] by (simp add: key ft(2) w1_def)
  have hit: "count_rows (hit_money ft) (t_money w) \<noteq> 0" using key by (auto simp: count_rows_0_iff hit_money_def)
  have "period_ids_ok w1" using per(1) by (simp add: period_ids_ok_def w1_def uuid_fresh_def)
  then obtain cal w2 where cal: "ensure_current_calendar c w1 = (Inr cal, w2)" "set (t_period w1) \<subseteq> set (t_period w2)" "distinct (map fp_id (t_period w2))"
    by (rule calendar_runs)
  have pin: "p \<in> set (t_period w2)" using per(2) cal(2) by (auto simp: w1_def)
  obtain qq where per2: "resolve_open_period c (mt_date ft) w2 = (Inr (fp_id qq), w2)"
    "find_first (\<lambda>r. fp_id r = fp_id qq \<and> fp_company r = c) (t_period w2) = Some qq" "fp_status qq = Open" "fp_start qq \<le> mt_date ft" "mt_date ft \<le> fp_end qq"
    by (rule open_period_run [OF cal(3) pin per(3-6)])
  have acc: "t_account w2 = t_account w" "t_register w2 = t_register w" "t_bank w2 = t_bank w"
    using calendar_books(5) [OF cal(1)] calendar_registers [OF cal(1)] by (simp_all add: w1_def)
  note legs2 = resolve_plan_leg_cong [OF legs(1) acc] resolve_plan_leg_cong [OF legs(2) acc]
  have live: "live_ids w2 c {da}" "live_ids w2 c {ca}" using resolve_plan_leg_Inr [OF legs2(1)] resolve_plan_leg_Inr [OF legs2(2)] by simp_all
  have linv: "ledger_inv w" using inv by (simp add: money_inv_def)
  then have "ledger_inv w1" by (intro ledger_inv_cong [OF linv]) (simp_all add: w1_def ledger_inv_def)
  then have inv2: "ledger_inv w2" by (rule calendar_keeps_ledger [OF _ cal(1)])
  let ?in = "money_input ft user c (fp_id qq) da ca"
  have amt: "round4 (mt_amount ft) = mt_amount ft" using inv key(3) by (simp add: money_inv_def money_row_ok_def round4_id)
  have "postable w2 (pi_company ?in) (pi_date ?in) (pi_period ?in) (pi_lines ?in)"
    using per2 live ft(3) by (simp add: postable_def money_input_def money_lines_def Let_def amt debit_sum_def credit_sum_def
      nonzero_line_def readable_def gl_line_def live_ids_def)
  moreover have "unused_operation w2 (pi_company ?in) (pi_clientOp ?in)" by (simp add: unused_operation_def money_input_def)
  moreover have "scale4_lines (pi_lines ?in)" by (simp add: money_input_def money_scale)
  moreover have "ledger_bus bus" using bus by (simp add: money_bus_def)
  ultimately obtain r w3 where post: "execute_post bus ?in w2 = (Inr r, w3)"
    using execute_post_run [of bus w2 ?in] inv2 by (auto simp: ledger_inv_def)
  have t3: "t_money w3 = t_money w1" using post_money_rows [OF bus post] calendar_money [OF cal(1)] by simp
  let ?w4 = "w3\<lparr>t_money := update_rows (\<lambda>r. mt_id r = i \<and> mt_company r = c) (linked_money (gp_id r)) (t_money w3)\<rparr>"
  have book: "book_money bus user c ft cp d k w1 = (Inr (gp_id r), ?w4)"
    using cal(1) per2(1) legs2 post by (simp add: book_money_def bind_def key link_run)
  obtain a where aud: "status_audit c user i ''POST'' MoneyDraft MoneyPosted [(''journalEntryId'', JStr (gp_id r))] ?w4 = (Inr (), ?w4\<lparr>t_audit := a\<rparr>)"
    using status_audit_run by blast
  have "\<exists>x. find_first (\<lambda>r. mt_id r = i \<and> mt_company r = c) (t_money ?w4) = Some x"
    using ft(1) by (simp add: t3 w1_def find_first_update_rows linked_money_def claimed_money_def)
  then have "\<exists>j. post_planned bus i user c ft cp d k w = (Inr j, ?w4\<lparr>t_audit := a\<rparr>)"
    using claim hit book aud by (auto simp: post_planned_def bind_def find_money_run money_view_run)
  then obtain j where "post_planned bus i user c ft cp d k w = (Inr j, ?w4\<lparr>t_audit := a\<rparr>)" by blast
  moreover have "money_plan cps ft c w = (Inr (cp, Postable d k act), w)"
    using ft plan by (simp add: money_plan_def bind_def)
  ultimately have "apply_post bus cps i user c w = (Inr j, ?w4\<lparr>t_audit := a\<rparr>)" using ft by (simp add: apply_post_def bind_def find_money_run)
  then show ?thesis using post_money_plain by blast
qed


text \<open>The registers of a draft cannot be edited at all: the repository refuses relation fields.\<close>

theorem registers_of_a_draft_cannot_be_edited:
  assumes "writes_relation d"
  shows "\<exists>e. edit_money i d user c w = (Inl e, w)"
proof (cases "edit_money i d user c w")
  case (Pair r w')
  show ?thesis
  proof (cases r)
    case (Inl e)
    have "w' = w" using Pair unfolding Inl edit_money_def
      by (auto simp: bind_Inl_iff find_money_run money_view_run edited_net_def new_decimal_def dest!: transaction_rollback split: option.splits amount.splits if_splits)
    then show ?thesis using Pair Inl by simp
  next
    case (Inr j)
    have "\<not> (\<exists>y v. update_money i (writes_relation d) f c n u = (Inr y, v))" for f n u
      using assms by (simp add: update_money_def bind_def)
    then show ?thesis using Pair unfolding Inr edit_money_def bind_Inr_iff transaction_Inr_iff by blast
  qed
qed

lemma posted_money_can_be_reversed:
  assumes bus: "money_bus bus" and inv: "money_inv w"
    and ft: "find_first (\<lambda>r. mt_id r = i \<and> mt_company r = c) (t_money w) = Some ft" "mt_status ft = MoneyPosted" "truthy (mt_entry ft) \<noteq> None"
    and e: "find_first (\<lambda>e. Some (je_id e) = mt_entry ft \<and> je_company e = c) (t_entry w) = Some e" "je_status e = Posted"
      "live_ids w c (jl_account ` set (je_lines e))"
    and per: "period_ids_ok w" "p \<in> set (t_period w)" "fp_company p = c" "fp_status p = Open" "fp_start p \<le> now w" "now w \<le> fp_end p"
  shows "\<exists>x w'. reverse_money bus i user c reason None w = (Inr x, w')"
proof -
  have key: "mt_id ft = i" "mt_company ft = c" "ft \<in> set (t_money w)" using find_first_SomeD [OF ft(1)] by simp_all
  define w1 where "w1 = w\<lparr>t_money := update_rows (hit_money ft) (claimed_money MoneyReversed) (t_money w)\<rparr>"
  have claim: "claim_posting_status i c MoneyPosted MoneyReversed (mt_version ft) w = (Inr (count_rows (hit_money ft) (t_money w)), w1)"
    using claim_run [of ft MoneyReversed w] by (simp add: key ft(2) w1_def)
  have hit: "count_rows (hit_money ft) (t_money w) \<noteq> 0" using key by (auto simp: count_rows_0_iff hit_money_def)
  have "period_ids_ok w1" using per(1) by (simp add: period_ids_ok_def w1_def uuid_fresh_def)
  then obtain cal w2 where cal: "ensure_current_calendar c w1 = (Inr cal, w2)" "set (t_period w1) \<subseteq> set (t_period w2)" "distinct (map fp_id (t_period w2))"
    by (rule calendar_runs)
  have pin: "p \<in> set (t_period w2)" using per(2) cal(2) by (auto simp: w1_def)
  obtain qq where per2: "resolve_open_period c (now w) w2 = (Inr (fp_id qq), w2)"
    "find_first (\<lambda>r. fp_id r = fp_id qq \<and> fp_company r = c) (t_period w2) = Some qq" "fp_status qq = Open" "fp_start qq \<le> now w" "now w \<le> fp_end qq"
    by (rule open_period_run [OF cal(3) pin per(3-6)])
  have C: "t_account w2 = t_account w" "t_entry w1 = t_entry w" "now w2 = now w"
    using calendar_books(1,5) [OF cal(1)] by (simp_all add: w1_def)
  have linv: "ledger_inv w" using inv by (simp add: money_inv_def)
  then have "ledger_inv w1" by (intro ledger_inv_cong [OF linv]) (simp_all add: w1_def ledger_inv_def)
  then have inv2: "ledger_inv w2" by (rule calendar_keeps_ledger [OF _ cal(1)])
  let ?in = "money_reversal_input ft e user c reason (fp_id qq) (now w)"
  have nd: "mt_status ft \<noteq> MoneyDraft" by (simp add: ft(2))
  obtain a b where m: "entry_moves e a b (mt_amount ft)" "0 < mt_amount ft" "scale4 (mt_amount ft)" by (rule backed_entry [OF inv key(3) nd e(1)])
  obtain l k where lk: "pi_lines ?in = [l, k]" and two: "pl_account l = a \<and> amount_val (pl_debit l) = 0 \<and> amount_val (pl_credit l) = mt_amount ft \<and>
      pl_account k = b \<and> amount_val (pl_debit k) = mt_amount ft \<and> amount_val (pl_credit k) = 0 \<or>
    pl_account l = b \<and> amount_val (pl_debit l) = mt_amount ft \<and> amount_val (pl_credit l) = 0 \<and>
      pl_account k = a \<and> amount_val (pl_debit k) = 0 \<and> amount_val (pl_credit k) = mt_amount ft" and rd: "readable l" "readable k"
    by (rule reversal_pair [OF m(1)])
  have good: "debit_sum [l, k] = credit_sum [l, k]" "0 \<le> debit_sum [l, k]" "nonzero_line l" "nonzero_line k"
    using two m(2) rd by (elim disjE; simp add: debit_sum_def credit_sum_def nonzero_line_def)+
  have "map pl_account (pi_lines ?in) = map jl_account (je_lines e)" by (simp add: money_reversal_input_def comp_def)
  then have "set (map jl_account (je_lines e)) = {pl_account l, pl_account k}" by (metis lk list.simps(15) empty_set list.map(1,2))
  then have live: "\<forall>x \<in> {l, k}. \<exists>a \<in> set (t_account w2). ac_id a = pl_account x \<and> live_account c a" using e(3) by (simp add: live_ids_def C)
  have "postable w2 (pi_company ?in) (pi_date ?in) (pi_period ?in) (pi_lines ?in)"
    unfolding postable_def lk using per2 good live by (simp add: money_reversal_input_def)
  moreover have "unused_operation w2 (pi_company ?in) (pi_clientOp ?in)" by (simp add: unused_operation_def money_reversal_input_def)
  moreover have "scale4_lines (pi_lines ?in)" by (rule moved_lines(1) [OF m(1,3)])
  moreover have "ledger_bus bus" using bus by (simp add: money_bus_def)
  ultimately obtain r w3 where post: "execute_post bus ?in w2 = (Inr r, w3)"
    using execute_post_run [of bus w2 ?in] inv2 by (auto simp: ledger_inv_def)
  have found: "find_first (\<lambda>e. Some (je_id e) = mt_entry ft \<and> je_company e = c) (t_entry w1) = Some e" using e(1) C(2) by simp
  obtain x y v where "insert_money (compensating_money ft user c reason (gp_id r) (now w)) w3 = (Inr x, v)" using insert_money_run by blast
  moreover obtain adt where "status_audit c user i ''REVERSE'' MoneyPosted MoneyReversed
       [(''compensatingId'', JStr (mt_id x)), (''reversalEntryId'', JStr (gp_id r))] v = (Inr (), v\<lparr>t_audit := adt\<rparr>)" using status_audit_run by blast
  ultimately have "\<exists>j w'. apply_reverse bus i user c reason w = (Inr j, w')"
    using ft claim hit found e(2) cal(1) C(3) per2(1) post by (simp add: apply_reverse_def bind_def find_money_run money_view_run)
  then show ?thesis using reverse_money_plain by blast
qed

text \<open>
  Nothing stops the journal module from reversing the entry of a transaction that was reversed here: the entry
  stays POSTED and is no reversal for the journal, and when the journal reverses it, the posting is taken back a
  second time.
\<close>

theorem reversed_money_is_open_to_the_journal:
  assumes bus: "money_bus bus" and inv: "money_inv w" and run: "apply_reverse bus i user c reason w = (Inr j, w')"
  shows "\<exists>e r. e \<in> set (t_entry w') \<and> r \<in> set (t_money w') \<and> mt_id r = i \<and> mt_status r = MoneyReversed \<and> mt_entry r = Some (je_id e) \<and>
    je_company e = c \<and> je_status e = Posted \<and> je_refType e \<noteq> Some ''REVERSAL'' \<and>
    (\<forall>bus' user' why k y w3. ledger_bus bus' \<longrightarrow> reverse_entry bus' (je_id e) c user' why w' = (Inr (k, y), w3) \<longrightarrow>
      (\<exists>e3 \<in> set (t_entry w3). je_id e3 = y \<and> je_status e3 = Posted \<and>
        (\<forall>a. entry_on jl_debit a e3 = entry_on jl_credit a e \<and> entry_on jl_credit a e3 = entry_on jl_debit a e)))"
proof (rule apply_reverse_effect [OF assms], goal_cases)
  case (1 ft xs ys e a b period e' n clock)
  have e: "e \<in> set (t_entry w)" "mt_entry ft = Some (je_id e)" "je_company e = c" using find_first_SomeD [OF 1(6)] by simp_all
  have ids: "distinct (map je_id (t_entry w))" using inv by (simp add: money_inv_def ledger_inv_def entry_ids_ok_def)
  have "backed w ft" using inv 1(1,5) by (simp add: money_inv_def money_row_ok_def)
  then obtain x where x: "x \<in> set (t_entry w)" "je_id x = je_id e" "je_refType x \<in> {Some FT_POSTING_REFERENCE_TYPE, Some FT_REVERSAL_REFERENCE_TYPE}"
    using e(2) by (auto simp: backed_def)
  then have "x = e" using distinct_map_eq [OF ids] e(1) by blast
  then have ref: "je_refType e \<noteq> Some ''REVERSAL''" using x(3) by (auto simp: FT_POSTING_REFERENCE_TYPE_def FT_REVERSAL_REFERENCE_TYPE_def)
  have linv: "ledger_inv w'" by (rule 1(16))
  then have ids': "distinct (map je_id (t_entry w'))" by (simp add: ledger_inv_def entry_ids_ok_def)
  have undo: "\<exists>e3 \<in> set (t_entry w3). je_id e3 = y \<and> je_status e3 = Posted \<and>
      (\<forall>a. entry_on jl_debit a e3 = entry_on jl_credit a e \<and> entry_on jl_credit a e3 = entry_on jl_debit a e)"
    if lb: "ledger_bus bus'" and again: "reverse_entry bus' (je_id e) c user' why w' = (Inr (k, y), w3)" for bus' user' why k y w3
  proof -
    obtain f e3 where f: "find_first (\<lambda>r. je_id r = je_id e \<and> je_company r = c) (t_entry w') = Some f"
      and e3: "t_entry w3 = t_entry (claim (je_id e) c w') @ [e3]" "je_id e3 = y" "je_status e3 = Posted"
      "\<forall>a. entry_on jl_debit a e3 = entry_on jl_credit a f \<and> entry_on jl_credit a e3 = entry_on jl_debit a f"
      using reverse_entry_effect [OF lb linv again] by blast
    have "e \<in> set (t_entry w')" using e(1) 1(10) by simp
    then have "f = e" using distinct_map_eq [OF ids', of f e] find_first_SomeD [OF f] by blast
    moreover have "e3 \<in> set (t_entry w3)" unfolding e3(1) by simp
    ultimately show ?thesis using e3(2-4) by blast
  qed
  show ?case using e ref 1(2,7,9,10) undo
    by (intro exI [of _ e] exI [of _ "claimed_money MoneyReversed ft"]) (auto simp: claimed_money_def)
qed

section \<open>Witnesses\<close>

text \<open>A bank fee paid from a drawer, recorded, posted and reversed.\<close>

definition money_start :: world where
  "money_start = books0\<lparr>uuid_next := 1, t_account := t_account books0 @ [\<lparr>ac_id = ''F'', ac_company = ''C'', ac_code = ''6100'', ac_name = ''Fees'',
        ac_type = EXPENSE, ac_normal = DebitNormal, ac_active = True, ac_cashOrBank = False, ac_deleted = None\<rparr>],
     t_register := [\<lparr>ca_id = ''K'', ca_company = ''C'', ca_warehouse = None, ca_chart = Some ''A'', ca_currency = ''KZT'', ca_active = True,
       ca_deleted = None, ca_createdAt = 0\<rparr>]\<rparr>"

definition fee_dto :: money_dto where
  "fee_dto = \<lparr>md_type = FT_FEE, md_direction = OUTFLOW, md_amount = Amount 7, md_fee = None, md_currency = None, md_date = None,
     md_description = None, md_number = None, md_cash = Some ''K'', md_bank = None, md_destination = None, md_refType = None,
     md_refId = None, md_reconciled = None\<rparr>"

definition money_drafted :: world where "money_drafted = snd (create_money fee_dto ''U'' ''C'' None money_start)"
definition money_booked :: world where "money_booked = snd (post_money (\<lambda>_. None) Map.empty ''u'' ''U'' ''C'' None money_drafted)"
definition money_undone :: world where "money_undone = snd (reverse_money (\<lambda>_. None) ''u'' ''U'' ''C'' None None money_booked)"

lemma quiet_none: "quiet_counterparts Map.empty"
  by (simp add: quiet_counterparts_def)

lemma money_drafted_reachable: "money_reachable (\<lambda>_. None) Map.empty money_drafted"
proof -
  have "inj (uuid_gen books0)" using books0_fresh by (simp add: fresh_books_def)
  then have "fresh_books money_start" by (simp add: fresh_books_def money_start_def books0_def empty_world_def)
  then have "ledger_inv money_start" using ledger_reachable_inv [OF ledger_reachable.start ledger_bus_empty] by blast
  moreover have "t_money money_start = []" by (simp add: money_start_def books0_def empty_world_def)
  moreover have "inj (uuid_gen money_start)" using \<open>inj (uuid_gen books0)\<close> by (simp add: money_start_def)
  ultimately have "money_reachable (\<lambda>_. None) Map.empty money_start" by (rule money_reachable.start)
  then show ?thesis unfolding money_drafted_def by (rule money_reachable.step [OF _ money_step.create])
qed

lemma money_drafted_facts:
  "t_money money_drafted = [\<lparr>mt_id = ''u'', mt_company = ''C'', mt_type = FT_FEE, mt_direction = OUTFLOW, mt_amount = 7, mt_fee = 0, mt_net = 7,
     mt_currency = ''KZT'', mt_rate = 1, mt_date = 5, mt_description = None, mt_number = None, mt_reconciled = False, mt_reconciledAt = None,
     mt_cash = Some ''K'', mt_bank = None, mt_destination = None, mt_refType = None, mt_refId = None, mt_status = MoneyDraft, mt_entry = None,
     mt_key = None, mt_createdBy = Some ''U'', mt_version = 0, mt_createdAt = 5\<rparr>]"
  by code_simp

lemma money_drafted_env: "\<exists>n t a. money_drafted = money_start\<lparr>uuid_next := n, t_money := t, t_audit := a\<rparr>"
proof -
  have "\<not> isl (fst (create_money fee_dto ''U'' ''C'' None money_start))" by code_simp
  then obtain x where "create_money fee_dto ''U'' ''C'' None money_start = (Inr x, money_drafted)"
    unfolding money_drafted_def by (metis run_succeeds snd_conv)
  then obtain j where "create_money_work fee_dto ''U'' ''C'' None money_start = (Inr j, money_drafted)"
    by (auto simp: create_money_def run_with_idempotency_def bind_Inr_iff transaction_Inr_iff)
  then show ?thesis using create_money_Inr by blast
qed

lemma money_drafted_tables:
  "t_account money_drafted = t_account money_start" "t_register money_drafted = t_register money_start" "t_period money_drafted = t_period money_start"
  "t_company money_drafted = t_company money_start" "uuid_gen money_drafted = (\<lambda>n. replicate n (CHR ''u''))" "t_entry money_drafted = []"
proof -
  obtain n t a where E: "money_drafted = money_start\<lparr>uuid_next := n, t_money := t, t_audit := a\<rparr>" using money_drafted_env by blast
  show "t_account money_drafted = t_account money_start" "t_register money_drafted = t_register money_start" "t_period money_drafted = t_period money_start"
    "t_company money_drafted = t_company money_start" "uuid_gen money_drafted = (\<lambda>n. replicate n (CHR ''u''))" "t_entry money_drafted = []"
    unfolding E by (simp_all add: money_start_def books0_def empty_world_def)
qed

lemma money_drafted_ready:
  defines "ft \<equiv> hd (t_money money_drafted)"
  shows "find_first (\<lambda>r. mt_id r = ''u'' \<and> mt_company r = ''C'') (t_money money_drafted) = Some ft" and "mt_status ft = MoneyDraft" and "0 < mt_amount ft"
    and "get_base_currency ''C'' money_drafted = (Inr (mt_currency ft), money_drafted)" and "mt_type ft \<noteq> FT_REFUND"
    and "resolve_domain_counterpart Map.empty ft ''C'' money_drafted = (Inr None, money_drafted)"
    and "plan_posting (plan_input_of ft (None \<noteq> (None :: string option))) = Postable (ChartLeg ''6100'') CashLeg OPERATING"
    and "resolve_plan_leg (ChartLeg ''6100'') None ft ''C'' money_drafted = (Inr ''F'', money_drafted)"
    and "resolve_plan_leg CashLeg None ft ''C'' money_drafted = (Inr ''A'', money_drafted)"
    and "period_ids_ok money_drafted" and "hd (t_period books0) \<in> set (t_period money_drafted)"
    and "fp_company (hd (t_period books0)) = ''C''" and "fp_status (hd (t_period books0)) = Open"
    and "fp_start (hd (t_period books0)) \<le> mt_date ft" and "mt_date ft \<le> fp_end (hd (t_period books0))"
proof -
  note F = money_drafted_facts money_drafted_tables ft_def
  show "resolve_plan_leg (ChartLeg ''6100'') None ft ''C'' money_drafted = (Inr ''F'', money_drafted)"
    "resolve_plan_leg CashLeg None ft ''C'' money_drafted = (Inr ''A'', money_drafted)"
    by (simp_all add: resolve_plan_leg_def resolve_leg_account_def resolve_system_account_def find_linked_chart_account_def live_account_id_def
      bind_def F money_start_def books0_def live_account_def DOMAIN_CODE_def truthy_def)
  show "plan_posting (plan_input_of ft (None \<noteq> (None :: string option))) = Postable (ChartLeg ''6100'') CashLeg OPERATING"
    by (simp add: F plan_input_of_def plan_posting_def Let_def DEFERRED_POSTING_TYPES_def REQUIRED_DIRECTION_def truthy_def)
  have "inj (\<lambda>n. replicate n (CHR ''u''))" by (rule injI) (metis length_replicate)
  moreover have "replicate n (CHR ''u'') \<noteq> ''P''" for n by (cases n) simp_all
  ultimately show "period_ids_ok money_drafted"
    by (simp add: period_ids_ok_def F uuid_fresh_def money_start_def books0_def)
  show "resolve_domain_counterpart Map.empty ft ''C'' money_drafted = (Inr None, money_drafted)"
    by (simp add: resolve_domain_counterpart_def F truthy_def)
  show "get_base_currency ''C'' money_drafted = (Inr (mt_currency ft), money_drafted)"
    by (simp add: get_base_currency_def F money_start_def books0_def empty_world_def)
qed (simp_all add: money_drafted_facts money_drafted_tables ft_def money_start_def books0_def)


lemma money_booked_run: "\<exists>x. post_money (\<lambda>_. None) Map.empty ''u'' ''U'' ''C'' None money_drafted = (Inr x, money_booked)"
proof -
  have "\<exists>x w'. post_money (\<lambda>_. None) Map.empty ''u'' ''U'' ''C'' None money_drafted = (Inr x, w')"
    by (rule planned_draft_posts [OF money_bus_empty quiet_none money_reachable_inv [OF money_bus_empty quiet_none money_drafted_reachable]
        money_drafted_ready])
  then show ?thesis unfolding money_booked_def by auto
qed

lemma money_booked_reachable: "money_reachable (\<lambda>_. None) Map.empty money_booked"
  unfolding money_booked_def by (rule money_reachable.step [OF money_drafted_reachable money_step.post])

definition booked_view :: "world \<Rightarrow> bool list \<times> string list \<times> (string \<times> int \<times> int \<times> period_status) list \<times> int \<times> string list" where
  "booked_view w = (map (\<lambda>e. je_id e = []) (t_entry w), map fp_id (t_period w), map (\<lambda>p. (fp_company p, fp_start p, fp_end p, fp_status p)) (t_period w),
     now w, map ac_id (filter (live_account ''C'') (t_account w)))"

lemma money_booked_view: "booked_view money_booked = ([False], [''P''], [(''C'', 0, 10, Open)], 5, [''A'', ''B'', ''F''])"
  by code_simp


lemma money_booked_rows:
  obtains e where "t_money money_booked = [linked_money (je_id e) (claimed_money MoneyPosted (hd (t_money money_drafted)))]"
    and "t_entry money_booked = [e]" and "je_status e = Posted" and "je_company e = ''C''" and "je_id e \<noteq> []"
    and "uuid_gen money_booked = (\<lambda>n. replicate n (CHR ''u''))" and "live_ids money_booked ''C'' (jl_account ` set (je_lines e))"
proof -
  obtain x where "post_money (\<lambda>_. None) Map.empty ''u'' ''U'' ''C'' None money_drafted = (Inr x, money_booked)" using money_booked_run by blast
  then obtain j where run: "apply_post (\<lambda>_. None) Map.empty ''u'' ''U'' ''C'' money_drafted = (Inr j, money_booked)" by (auto simp: post_money_plain)
  note none = money_drafted_tables(6)
  show thesis
  proof (rule apply_post_effect [OF money_bus_empty quiet_none money_reachable_inv [OF money_bus_empty quiet_none money_drafted_reachable] run], goal_cases)
    case (1 ft xs ys cp d k act w2 period da ca e)
    have ft: "xs = []" "ys = []" "ft = hd (t_money money_drafted)" using 1(1) by (auto simp: money_drafted_facts Cons_eq_append_conv)
    have cp: "cp = None" using 1(7) money_drafted_ready(6) by (simp add: ft)
    have legs: "d = ChartLeg ''6100''" "k = CashLeg" using 1(8) money_drafted_ready(7) by (simp_all add: ft cp)
    have "resolve_plan_leg d cp ft ''C'' money_drafted = (Inr da, money_drafted)" "resolve_plan_leg k cp ft ''C'' money_drafted = (Inr ca, money_drafted)"
      using 1 by (auto intro!: resolve_plan_leg_cong [of _ _ _ _ w2])
    then have ac: "da = ''F''" "ca = ''A''" using money_drafted_ready(8,9) by (simp_all add: ft cp legs)
    have "map jl_account (je_lines e) = [''F'', ''A'']" using arg_cong [OF 1(15), of "map fst"] by (simp add: comp_def ac)
    then have "jl_account ` set (je_lines e) = {''F'', ''A''}" by (metis list.set(1,2) list.set_map)
    moreover have "live_ids money_booked ''C'' {''F'', ''A''}"
    proof -
      have "set (map ac_id (filter (live_account ''C'') (t_account money_booked))) = set [''A'', ''B'', ''F'']"
        using money_booked_view unfolding booked_view_def prod.inject by (elim conjE) (rule arg_cong)
      then have sub: "{''F'', ''A''} \<subseteq> ac_id ` {a \<in> set (t_account money_booked). live_account ''C'' a}" unfolding set_map set_filter by simp
      show ?thesis unfolding live_ids_def
      proof
        fix i assume "i \<in> {''F'', ''A''}"
        from subsetD [OF sub this] show "\<exists>a \<in> set (t_account money_booked). ac_id a = i \<and> live_account ''C'' a" by (elim imageE) auto
      qed
    qed
    moreover have "je_id e \<noteq> []" using money_booked_view 1(10) by (simp add: booked_view_def none)
    moreover have "uuid_gen money_booked = (\<lambda>n. replicate n (CHR ''u''))" using 1(19) money_drafted_tables(5) by simp
    moreover have "t_money money_booked = [linked_money (je_id e) (claimed_money MoneyPosted (hd (t_money money_drafted)))]" using 1(9) ft by simp
    moreover have "t_entry money_booked = [e]" using 1(10) none by simp
    ultimately show ?case using that [of e] 1(11,12) by metis
  qed
qed

lemma money_undone_run: "\<exists>x. reverse_money (\<lambda>_. None) ''u'' ''U'' ''C'' None None money_booked = (Inr x, money_undone)"
proof (rule money_booked_rows, goal_cases)
  case (1 e)
  let ?ft = "linked_money (je_id e) (claimed_money MoneyPosted (hd (t_money money_drafted)))"
  obtain p where p: "t_period money_booked = [p]" "fp_id p = ''P''" "fp_company p = ''C''" "fp_start p = 0" "fp_end p = 10" "fp_status p = Open" "now money_booked = 5"
    using money_booked_view by (auto simp: booked_view_def map_eq_Cons_conv)
  have "replicate n (CHR ''u'') \<noteq> ''P''" for n by (cases n) simp_all
  moreover have "inj (\<lambda>n. replicate n (CHR ''u''))" by (rule injI) (metis length_replicate)
  ultimately have "period_ids_ok money_booked" using p(1,2) 1(6) by (simp add: period_ids_ok_def uuid_fresh_def)
  have inv: "money_inv money_booked" by (rule money_reachable_inv [OF money_bus_empty quiet_none money_booked_reachable])
  have "\<exists>x w'. reverse_money (\<lambda>_. None) ''u'' ''U'' ''C'' None None money_booked = (Inr x, w')"
    using posted_money_can_be_reversed [OF money_bus_empty inv, of "''u''" "''C''" ?ft e p "''U''" None] 1 p \<open>period_ids_ok money_booked\<close>
    by (simp add: linked_money_def claimed_money_def money_drafted_facts truthy_def)
  then show ?case unfolding money_undone_def by auto
qed


lemma posted_money_is_backed_witness:
  "\<exists>r \<in> set (t_money money_booked). 0 < mt_amount r \<and> (\<exists>e \<in> set (t_entry money_booked). mt_entry r = Some (je_id e))"
proof (rule money_booked_rows, goal_cases)
  case (1 e)
  have "hd (t_money money_booked) \<in> set (t_money money_booked)" "mt_status (hd (t_money money_booked)) \<noteq> MoneyDraft"
    by (simp_all add: 1(1) linked_money_def claimed_money_def)
  with posted_money_is_backed [OF money_bus_empty quiet_none money_booked_reachable] show ?case by blast
qed

lemma posted_money_is_frozen_witness:
  "\<exists>s. s = t_money money_undone ! 0 \<and> mt_amount s = 7 \<and> mt_status s \<noteq> MoneyDraft"
proof (rule money_booked_rows, goal_cases)
  case (1 e)
  have "(money_step (\<lambda>_. None) Map.empty)\<^sup>*\<^sup>* money_booked money_undone"
    unfolding money_undone_def by (intro r_into_rtranclp money_step.reverse)
  from posted_money_is_frozen [OF money_bus_empty quiet_none money_booked_reachable this, of 0]
  show ?case by (auto simp: 1(1) same_terms_def linked_money_def claimed_money_def money_drafted_facts)
qed

lemma posting_books_the_plan_once_witness:
  "\<exists>ft e da ca. ft = hd (t_money money_drafted) \<and> t_entry money_booked = t_entry money_drafted @ [e] \<and> je_status e = Posted \<and>
     map (\<lambda>l. (jl_account l, jl_debit l, jl_credit l)) (je_lines e) = [(da, 7, 0), (ca, 0, 7)]"
proof -
  obtain x where run: "post_money (\<lambda>_. None) Map.empty ''u'' ''U'' ''C'' None money_drafted = (Inr x, money_booked)" using money_booked_run by blast
  from posting_books_the_plan_once [OF money_bus_empty quiet_none money_drafted_reachable run]
  obtain ft e da ca where "find_first (\<lambda>r. mt_id r = ''u'' \<and> mt_company r = ''C'') (t_money money_drafted) = Some ft"
    "t_entry money_booked = t_entry money_drafted @ [e]" "je_status e = Posted"
    "map (\<lambda>l. (jl_account l, jl_debit l, jl_credit l)) (je_lines e) = [(da, mt_amount ft, 0), (ca, 0, mt_amount ft)]"
    by (elim exE conjE) (rule that, assumption+)
  moreover have "ft = hd (t_money money_drafted)" using calculation(1) money_drafted_ready(1) by simp
  moreover have "mt_amount (hd (t_money money_drafted)) = 7" by (simp add: money_drafted_facts)
  ultimately show ?thesis by auto
qed

lemma money_reversal_cancels_the_posting_witness:
  "\<exists>e e' a b v. t_entry money_undone = t_entry money_drafted @ [e, e'] \<and> entry_moves e a b v \<and> entry_moves e' b a v"
proof -
  obtain x y where run: "post_money (\<lambda>_. None) Map.empty ''u'' ''U'' ''C'' None money_drafted = (Inr x, money_booked)"
    "reverse_money (\<lambda>_. None) ''u'' ''U'' ''C'' None None money_booked = (Inr y, money_undone)" using money_booked_run money_undone_run by blast
  from money_reversal_cancels_the_posting [OF money_bus_empty quiet_none money_drafted_reachable run] show ?thesis by blast
qed

end
