(* ===== verification/CreditLedger.thy ===== *)
theory CreditLedger
  imports Payments
begin

text \<open>
  The customer credit ledger: \<^verbatim>\<open>crm/repositories/customer-credit-ledger.repository.ts\<close> and
  \<^verbatim>\<open>crm/services/customer-credit-ledger.service.ts\<close>. Insert-only facts; the balance of a customer in a
  currency is issued less spent less adjusted, and a debit is inserted only where the balance covers it.
  The advisory lock of the guarded insert serialises concurrent debits of one balance; a run of the model
  is such a serial order. The locale \<open>guarded_balance\<close> is the contract of the guard, interpreted on it.
\<close>

section \<open>Repository\<close>

definition credit_of :: "string \<Rightarrow> string \<Rightarrow> string \<Rightarrow> credit_row \<Rightarrow> bool" where
  "credit_of c cust cur r \<longleftrightarrow> ct_company r = c \<and> ct_customer r = cust \<and> ct_currency r = cur \<and> ct_deleted r = None"

text \<open>\<^verbatim>\<open>signed\<close>.\<close>

definition signed_credit :: "credit_direction \<Rightarrow> decimal \<Rightarrow> decimal" where
  "signed_credit d amount = (case d of SPENT \<Rightarrow> - amount | ADJUSTED \<Rightarrow> - amount | ISSUED \<Rightarrow> amount)"

text \<open>The sum inside the guarded \<^verbatim>\<open>INSERT\<close>.\<close>

definition credit_balance :: "world \<Rightarrow> string \<Rightarrow> string \<Rightarrow> string \<Rightarrow> decimal" where
  "credit_balance w c cust cur =
     (\<Sum>r\<leftarrow>find_many (credit_of c cust cur) (t_credit w). signed_credit (ct_direction r) (ct_amount r))"

record credit_fact =
  cf_company :: string
  cf_customer :: string
  cf_direction :: credit_direction
  cf_amount :: decimal
  cf_currency :: string
  cf_refType :: string
  cf_refId :: string
  cf_by :: string
  cf_reason :: "string option"

definition credit_clash :: "credit_fact \<Rightarrow> credit_row \<Rightarrow> bool" where
  "credit_clash f r \<longleftrightarrow> ct_company r = cf_company f \<and> ct_customer r = cf_customer f \<and> ct_direction r = cf_direction f \<and>
     ct_refType r = cf_refType f \<and> ct_refId r = cf_refId f \<and> ct_currency r = cf_currency f"

text \<open>The insert under the unique key of the schema; the amount column is \<^verbatim>\<open>decimal(18,4)\<close>.\<close>

definition insert_credit :: "string \<Rightarrow> credit_fact \<Rightarrow> credit_row wtx" where
  "insert_credit i f =
     bind (ask t_credit) (\<lambda>t.
     bind (require (find_first (credit_clash f) t = None)
       (UniqueViolation [''companyId'', ''customerId'', ''direction'', ''referenceType'', ''referenceId'', ''currency''])) (\<lambda>_.
     bind (ask now) (\<lambda>clock.
     let row = \<lparr>ct_id = i, ct_company = cf_company f, ct_customer = cf_customer f, ct_direction = cf_direction f,
        ct_amount = round4 (cf_amount f), ct_currency = cf_currency f, ct_refType = cf_refType f, ct_refId = cf_refId f,
        ct_createdBy = cf_by f, ct_reason = cf_reason f, ct_createdAt = clock, ct_deleted = None\<rparr> in
     bind (change (\<lambda>w. w\<lparr>t_credit := t_credit w @ [row]\<rparr>)) (\<lambda>_. ret row))))"

text \<open>\<^verbatim>\<open>insertWithBalanceGuard\<close>: the amount arrives as \<^verbatim>\<open>toFixed(4)\<close>; no row when the balance does not cover it.\<close>

definition insert_with_balance_guard :: "credit_fact \<Rightarrow> string option \<Rightarrow> credit_row option wtx" where
  "insert_with_balance_guard f explicit_id =
     bind (ask (\<lambda>w. credit_balance w (cf_company f) (cf_customer f) (cf_currency f))) (\<lambda>current.
     if \<not> current \<ge> round4 (cf_amount f) then ret None
     else
       bind (case explicit_id of Some i \<Rightarrow> ret i | None \<Rightarrow> fresh_uuid) (\<lambda>i.
       bind (insert_credit i f) (\<lambda>row. ret (Some row))))"

definition atomic_spend :: "string \<Rightarrow> string \<Rightarrow> string \<Rightarrow> string \<Rightarrow> decimal \<Rightarrow> string \<Rightarrow> credit_row option wtx" where
  "atomic_spend c sale cust cur amount user =
     insert_with_balance_guard \<lparr>cf_company = c, cf_customer = cust, cf_direction = SPENT, cf_amount = amount,
       cf_currency = cur, cf_refType = ''SALE_PAYMENT'', cf_refId = sale, cf_by = user, cf_reason = None\<rparr> None"

definition create_issued :: "string \<Rightarrow> string \<Rightarrow> string \<Rightarrow> decimal \<Rightarrow> string \<Rightarrow> string \<Rightarrow> string \<Rightarrow> credit_row wtx" where
  "create_issued c cust cur amount refType refId user =
     bind fresh_uuid (\<lambda>i.
     insert_credit i \<lparr>cf_company = c, cf_customer = cust, cf_direction = ISSUED, cf_amount = amount,
       cf_currency = cur, cf_refType = refType, cf_refId = refId, cf_by = user, cf_reason = None\<rparr>)"

definition repo_issue_refund_credit :: "string \<Rightarrow> string \<Rightarrow> string \<Rightarrow> string \<Rightarrow> decimal \<Rightarrow> string \<Rightarrow> credit_row wtx" where
  "repo_issue_refund_credit c allocation cust cur amount user =
     create_issued c cust cur amount ''REFUND_ALLOCATION'' allocation user"

definition repo_issue_legacy_refund_credit :: "string \<Rightarrow> string \<Rightarrow> string \<Rightarrow> string \<Rightarrow> decimal \<Rightarrow> string \<Rightarrow> credit_row wtx" where
  "repo_issue_legacy_refund_credit c refund cust cur amount user =
     create_issued c cust cur amount ''REFUND'' refund user"

text \<open>\<^verbatim>\<open>createManualAdjustment\<close>: the row references itself; a write-off goes through the guard.\<close>

definition create_manual_adjustment ::
  "string \<Rightarrow> string \<Rightarrow> string \<Rightarrow> decimal \<Rightarrow> bool \<Rightarrow> string \<Rightarrow> string \<Rightarrow> credit_row option wtx" where
  "create_manual_adjustment c cust cur amount write_off reason user =
     bind fresh_uuid (\<lambda>i.
     let f = \<lparr>cf_company = c, cf_customer = cust, cf_direction = (if write_off then ADJUSTED else ISSUED),
        cf_amount = amount, cf_currency = cur, cf_refType = ''MANUAL_ADJUSTMENT'', cf_refId = i, cf_by = user,
        cf_reason = Some reason\<rparr> in
     if write_off then insert_with_balance_guard f (Some i)
     else bind (insert_credit i f) (\<lambda>row. ret (Some row)))"

definition find_customer_company :: "string \<Rightarrow> string \<Rightarrow> customer_row option wtx" where
  "find_customer_company cust c = ask (\<lambda>w. find_first (\<lambda>r. cu_id r = cust \<and> cu_company r = c) (t_customer w))"

record credit_totals =
  tt_balance :: decimal
  tt_issued :: decimal
  tt_spent :: decimal
  tt_adjusted :: decimal

definition zero_totals :: credit_totals where
  "zero_totals = \<lparr>tt_balance = 0, tt_issued = 0, tt_spent = 0, tt_adjusted = 0\<rparr>"

text \<open>
  \<^verbatim>\<open>getBalances\<close>: \<^verbatim>\<open>groupBy\<close> on (currency, direction) with the sum of each group, folded into the totals
  of each currency. The groups come in order of first appearance.
\<close>

definition credit_groups :: "string \<Rightarrow> string \<Rightarrow> string option \<Rightarrow> world \<Rightarrow> (string \<times> credit_direction \<times> decimal) list" where
  "credit_groups c cust cur w =
     (let rows = find_many (\<lambda>r. ct_company r = c \<and> ct_customer r = cust \<and> ct_deleted r = None \<and>
            (case cur of None \<Rightarrow> True | Some k \<Rightarrow> k = '''' \<or> ct_currency r = k)) (t_credit w) in
      map (\<lambda>(k, d). (k, d, \<Sum>r\<leftarrow>rows. if ct_currency r = k \<and> ct_direction r = d then ct_amount r else 0))
        (remdups (map (\<lambda>r. (ct_currency r, ct_direction r)) rows)))"

definition add_group :: "string \<times> credit_direction \<times> decimal \<Rightarrow> (string \<times> credit_totals) list \<Rightarrow> (string \<times> credit_totals) list" where
  "add_group g m = (case g of (k, d, s) \<Rightarrow>
     let t = (case map_of m k of None \<Rightarrow> zero_totals | Some t \<Rightarrow> t) in
     AList.update k (case d of
         ISSUED \<Rightarrow> t\<lparr>tt_issued := tt_issued t + s, tt_balance := tt_balance t + s\<rparr>
       | SPENT \<Rightarrow> t\<lparr>tt_spent := tt_spent t + s, tt_balance := tt_balance t - s\<rparr>
       | ADJUSTED \<Rightarrow> t\<lparr>tt_adjusted := tt_adjusted t + s, tt_balance := tt_balance t - s\<rparr>) m)"

definition repo_get_balances :: "string \<Rightarrow> string \<Rightarrow> string option \<Rightarrow> (string \<times> credit_totals) list wtx" where
  "repo_get_balances c cust cur = ask (\<lambda>w. fold add_group (credit_groups c cust cur w) [])"

record credit_query =
  cq_page :: "int option"
  cq_limit :: "int option"
  cq_direction :: "credit_direction option"
  cq_currency :: "string option"
  cq_from :: "int option"
  cq_to :: "int option"

definition credit_query_hit :: "string \<Rightarrow> string \<Rightarrow> credit_query \<Rightarrow> credit_row \<Rightarrow> bool" where
  "credit_query_hit c cust q r \<longleftrightarrow> ct_company r = c \<and> ct_customer r = cust \<and> ct_deleted r = None \<and>
     (case cq_direction q of None \<Rightarrow> True | Some d \<Rightarrow> ct_direction r = d) \<and>
     (case cq_currency q of None \<Rightarrow> True | Some k \<Rightarrow> k = '''' \<or> ct_currency r = k) \<and>
     (case cq_from q of None \<Rightarrow> True | Some t \<Rightarrow> t \<le> ct_createdAt r) \<and>
     (case cq_to q of None \<Rightarrow> True | Some t \<Rightarrow> ct_createdAt r \<le> t)"

text \<open>The page of rows and the total; a negative \<^verbatim>\<open>skip\<close> or \<^verbatim>\<open>take\<close> is not allowed by the query DTO.\<close>

definition repo_get_transactions :: "string \<Rightarrow> string \<Rightarrow> credit_query \<Rightarrow> int \<Rightarrow> int \<Rightarrow> (credit_row list \<times> int) wtx" where
  "repo_get_transactions c cust q page limit =
     ask (\<lambda>w. let hits = find_many (credit_query_hit c cust q) (t_credit w) in
       (take (nat limit) (drop (nat ((page - 1) * limit)) (sort_key (\<lambda>r. - ct_createdAt r) hits)), int (length hits)))"

section \<open>Service\<close>

definition credit_amount :: "payment_event list \<Rightarrow> decimal" where
  "credit_amount ps = (\<Sum>p\<leftarrow>ps. if is_credit_method (pe_method p) then pe_amount p else 0)"

record credit_context =
  cc_company :: string
  cc_sale :: string
  cc_customer :: "string option"
  cc_currency :: string
  cc_by :: string

text \<open>\<^verbatim>\<open>!facts.customerId\<close>: absent or empty.\<close>

definition known_customer :: "credit_context \<Rightarrow> string option" where
  "known_customer x = (if cc_customer x = Some '''' then None else cc_customer x)"

definition credit_spend :: "credit_context \<Rightarrow> payment_event list \<Rightarrow> credit_row option wtx" where
  "credit_spend x payments =
     (let amount = credit_amount payments in
      if amount = 0 then ret None
      else
        bind (require_some (known_customer x) (BadRequest ''Sale uses customer credit payment methods but has no customer'')) (\<lambda>cust.
        bind (atomic_spend (cc_company x) (cc_sale x) cust (cc_currency x) amount (cc_by x)) (\<lambda>created.
        bind (require (created \<noteq> None) (BadRequest ''Insufficient customer credit balance'')) (\<lambda>_.
        ret created))))"

primrec issue_each :: "credit_context \<Rightarrow> string \<Rightarrow> refund_alloc_row list \<Rightarrow> credit_row list wtx" where
  "issue_each x cust [] = ret []"
| "issue_each x cust (a # as) =
     bind (repo_issue_refund_credit (cc_company x) (ra_id a) cust (cc_currency x) (ra_amount a) (cc_by x)) (\<lambda>row.
     bind (issue_each x cust as) (\<lambda>rows. ret (row # rows)))"

definition issue_refund_credit :: "credit_context \<Rightarrow> refund_alloc_row list \<Rightarrow> credit_row list wtx" where
  "issue_refund_credit x allocations =
     (let eligible = filter (\<lambda>a. is_credit_method (ra_method a)) allocations in
      if eligible = [] then ret []
      else
        bind (require_some (known_customer x)
          (BadRequest ''Refund contains STORE_CREDIT/GIFT_CARD allocation but the sale has no customer'')) (\<lambda>cust.
        issue_each x cust eligible))"

definition issue_legacy_refund_credit :: "credit_context \<Rightarrow> string \<Rightarrow> payment_event list \<Rightarrow> credit_row option wtx" where
  "issue_legacy_refund_credit x refund payments =
     (let amount = credit_amount payments in
      if amount \<le> 0 then ret None
      else
        (case known_customer x of
           None \<Rightarrow>
             bind (ask dec_str) (\<lambda>ds.
             bind (audit_log \<lparr>au_company = Some (cc_company x), au_user = cc_by x, au_entity = ''CustomerCreditTransaction'',
               au_entityId = refund, au_action = ''SKIPPED'', au_before = None,
               au_after = Some (JObj [(''saleId'', JStr (cc_sale x)), (''refundId'', JStr refund),
                 (''creditAmount'', JStr (ds amount)), (''currency'', JStr (cc_currency x)),
                 (''reason'', JStr ''no customer'')])\<rparr>) (\<lambda>_.
             ret None))
         | Some cust \<Rightarrow>
             bind (repo_issue_legacy_refund_credit (cc_company x) refund cust (cc_currency x) amount (cc_by x)) (\<lambda>row.
             ret (Some row))))"

record credit_adjustment =
  ca_amount :: "decimal option"
  ca_dto_currency :: string
  ca_reason :: string

text \<open>\<^verbatim>\<open>adjust\<close>; an amount that is no number makes the \<^verbatim>\<open>Decimal\<close> constructor throw.\<close>

definition credit_adjust :: "credit_adjustment \<Rightarrow> string \<Rightarrow> string \<Rightarrow> string \<Rightarrow> credit_row wtx" where
  "credit_adjust d cust c user =
     bind (require_some (ca_amount d) DecimalError) (\<lambda>amount.
     bind (require (amount \<noteq> 0) (BadRequest ''Adjustment amount must not be zero'')) (\<lambda>_.
     transaction (
       bind (find_customer_company cust c) (\<lambda>customer.
       bind (require (customer \<noteq> None) (NotFound ''Customer not found'')) (\<lambda>_.
       bind (create_manual_adjustment c cust (ca_dto_currency d) \<bar>amount\<bar> (amount < 0) (ca_reason d) user) (\<lambda>created.
       bind (require_some created (BadRequest ''Insufficient credit balance for adjustment'')) (\<lambda>row.
       bind (ask dec_str) (\<lambda>ds.
       bind (audit_log \<lparr>au_company = Some c, au_user = user, au_entity = ''CustomerCreditTransaction'',
         au_entityId = ct_id row, au_action = (if amount < 0 then ''ADJUSTED'' else ''ISSUED''), au_before = None,
         au_after = Some (JObj [(''customerId'', JStr cust), (''amount'', JStr (ds \<bar>amount\<bar>)),
           (''currency'', JStr (ca_dto_currency d)), (''reason'', JStr (ca_reason d))])\<rparr>) (\<lambda>_.
       ret row)))))))))"

definition assert_customer :: "string \<Rightarrow> string \<Rightarrow> unit wtx" where
  "assert_customer cust c =
     bind (find_customer_company cust c) (\<lambda>customer. require (customer \<noteq> None) (NotFound ''Customer not found''))"

text \<open>A customer without any row gets one zero balance, in KZT when no currency was asked for.\<close>

definition get_credit_balances :: "string \<Rightarrow> string \<Rightarrow> string option \<Rightarrow> (string \<times> credit_totals) list wtx" where
  "get_credit_balances cust c cur =
     bind (assert_customer cust c) (\<lambda>_.
     bind (repo_get_balances c cust cur) (\<lambda>m.
     ret (if m = [] then [(case cur of Some k \<Rightarrow> k | None \<Rightarrow> ''KZT'', zero_totals)] else m)))"

definition get_credit_transactions :: "string \<Rightarrow> string \<Rightarrow> credit_query \<Rightarrow> (credit_row list \<times> int \<times> int \<times> int) wtx" where
  "get_credit_transactions cust c q =
     bind (assert_customer cust c) (\<lambda>_.
     let page = (case cq_page q of Some n \<Rightarrow> n | None \<Rightarrow> 1); limit = (case cq_limit q of Some n \<Rightarrow> n | None \<Rightarrow> 20) in
     bind (repo_get_transactions c cust q page limit) (\<lambda>(items, total). ret (items, total, page, limit)))"

section \<open>The guard\<close>

lemma insert_credit_Inr:
  "insert_credit i f w = (Inr row, w') \<longleftrightarrow>
     (\<forall>r \<in> set (t_credit w). \<not> credit_clash f r) \<and>
     row = \<lparr>ct_id = i, ct_company = cf_company f, ct_customer = cf_customer f, ct_direction = cf_direction f,
        ct_amount = round4 (cf_amount f), ct_currency = cf_currency f, ct_refType = cf_refType f, ct_refId = cf_refId f,
        ct_createdBy = cf_by f, ct_reason = cf_reason f, ct_createdAt = now w, ct_deleted = None\<rparr> \<and>
     w' = w\<lparr>t_credit := t_credit w @ [row]\<rparr>"
  by (auto simp: insert_credit_def Let_def bind_Inr_iff require_Inr_iff find_first_None_iff)

lemma credit_balance_cong: "t_credit w' = t_credit w \<Longrightarrow> credit_balance w' c cust cur = credit_balance w c cust cur"
  by (simp add: credit_balance_def)

lemma credit_balance_insert:
  assumes "insert_credit i f w = (Inr row, w')"
  shows "credit_balance w' c cust cur = credit_balance w c cust cur +
    (if (cf_company f, cf_customer f, cf_currency f) = (c, cust, cur) then signed_credit (cf_direction f) (round4 (cf_amount f)) else 0)"
  using assms by (auto simp: insert_credit_Inr credit_balance_def credit_of_def find_many_def)

lemma insert_with_balance_guard_Inr:
  assumes "insert_with_balance_guard f e w = (Inr row, w')"
  shows "(case row of
      None \<Rightarrow> w' = w \<and> credit_balance w (cf_company f) (cf_customer f) (cf_currency f) < round4 (cf_amount f)
    | Some r \<Rightarrow> round4 (cf_amount f) \<le> credit_balance w (cf_company f) (cf_customer f) (cf_currency f) \<and>
        (\<exists>i n. insert_credit i f (w\<lparr>uuid_next := n\<rparr>) = (Inr r, w') \<and> uuid_next w \<le> n))"
proof (cases "credit_balance w (cf_company f) (cf_customer f) (cf_currency f) \<ge> round4 (cf_amount f)")
  case False
  with assms show ?thesis by (auto simp: insert_with_balance_guard_def)
next
  case True
  with assms obtain i w1 r where i: "(case e of Some i \<Rightarrow> ret i | None \<Rightarrow> fresh_uuid) w = (Inr i, w1)"
    and r: "insert_credit i f w1 = (Inr r, w')" "row = Some r"
    by (auto simp: insert_with_balance_guard_def bind_Inr_iff)
  have "\<exists>n. w1 = w\<lparr>uuid_next := n\<rparr> \<and> uuid_next w \<le> n"
  proof (cases e)
    case None
    with i show ?thesis by (intro exI [of _ "Suc (uuid_next w)"]) simp
  next
    case (Some j)
    with i show ?thesis by (intro exI [of _ "uuid_next w"]) simp
  qed
  then obtain n where "w1 = w\<lparr>uuid_next := n\<rparr>" "uuid_next w \<le> n" by blast
  with r True show ?thesis by auto
qed

locale guarded_balance =
  fixes bal :: "'w \<Rightarrow> 'k \<Rightarrow> decimal"
    and debit :: "'k \<Rightarrow> decimal \<Rightarrow> ('w, 'r option) tx"
  assumes debit_some: "debit k a w = (Inr (Some r), w') \<Longrightarrow>
      round4 a \<le> bal w k \<and> (\<forall>j. bal w' j = bal w j - (if j = k then round4 a else 0))"
    and debit_none: "debit k a w = (Inr None, w') \<Longrightarrow> w' = w \<and> bal w k < round4 a"
begin

lemma debit_keeps_nonneg:
  assumes "\<forall>j. 0 \<le> bal w j" and "debit k a w = (Inr r, w')"
  shows "\<forall>j. 0 \<le> bal w' j"
proof (cases r)
  case None
  with debit_none assms show ?thesis by blast
next
  case (Some x)
  with debit_some [of k a w x w'] assms show ?thesis by (auto split: if_splits)
qed

text \<open>Of two debits of one balance the second gets at most what the first left.\<close>

lemma debits_share_the_balance:
  assumes "debit k a w = (Inr (Some r), w1)" and "debit k b w1 = (Inr (Some s), w2)"
  shows "round4 a + round4 b \<le> bal w k \<and> bal w2 k = bal w k - (round4 a + round4 b)"
  using debit_some [OF assms(1)] debit_some [OF assms(2)] by auto

end

lemma guard_is_guarded:
  assumes "d \<noteq> ISSUED"
  shows "guarded_balance (\<lambda>w (c, cust, cur). credit_balance w c cust cur)
    (\<lambda>(c, cust, cur) a. insert_with_balance_guard \<lparr>cf_company = c, cf_customer = cust, cf_direction = d, cf_amount = a,
       cf_currency = cur, cf_refType = rt, cf_refId = ri, cf_by = user, cf_reason = reason\<rparr> e)"
proof (unfold_locales, goal_cases)
  case (1 k a w r w')
  obtain c cust cur where k: "k = (c, cust, cur)" by (metis prod_cases3)
  let ?f = "\<lparr>cf_company = c, cf_customer = cust, cf_direction = d, cf_amount = a,
       cf_currency = cur, cf_refType = rt, cf_refId = ri, cf_by = user, cf_reason = reason\<rparr>"
  have run: "insert_with_balance_guard ?f e w = (Inr (Some r), w')" using 1 by (simp add: k)
  obtain i n where ins: "insert_credit i ?f (w\<lparr>uuid_next := n\<rparr>) = (Inr r, w')"
    and le: "round4 a \<le> credit_balance w c cust cur"
    using insert_with_balance_guard_Inr [OF run] by auto
  have "credit_balance (w\<lparr>uuid_next := n\<rparr>) c' cust' cur' = credit_balance w c' cust' cur'" for c' cust' cur'
    by (simp add: credit_balance_def)
  with credit_balance_insert [OF ins] le assms show ?case
    by (cases d) (auto simp: k signed_credit_def split: prod.split)
next
  case (2 k a w w')
  obtain c cust cur where k: "k = (c, cust, cur)" by (metis prod_cases3)
  show ?case using insert_with_balance_guard_Inr 2 by (fastforce simp: k)
qed

interpretation spend_guard: guarded_balance "\<lambda>w (c, cust, cur). credit_balance w c cust cur"
    "\<lambda>(c, cust, cur) a. atomic_spend c sale cust cur a user" for sale user
  unfolding atomic_spend_def by (rule guard_is_guarded) simp

interpretation write_off_guard: guarded_balance "\<lambda>w (c, cust, cur). credit_balance w c cust cur"
    "\<lambda>(c, cust, cur) a. insert_with_balance_guard \<lparr>cf_company = c, cf_customer = cust, cf_direction = ADJUSTED,
       cf_amount = a, cf_currency = cur, cf_refType = ''MANUAL_ADJUSTMENT'', cf_refId = i, cf_by = user,
       cf_reason = Some reason\<rparr> (Some i)" for i user reason
  by (rule guard_is_guarded) simp

section \<open>The ledger as a state machine\<close>

definition credit_nonneg :: "world \<Rightarrow> bool" where
  "credit_nonneg w \<longleftrightarrow> (\<forall>c cust cur. 0 \<le> credit_balance w c cust cur)"

lemma credit_nonneg_cong: "t_credit w' = t_credit w \<Longrightarrow> credit_nonneg w' = credit_nonneg w"
  by (simp add: credit_nonneg_def credit_balance_def)

lemma spend_keeps_nonneg: "keeps_ok credit_nonneg (credit_spend x ps)"
proof (rule keeps_okI)
  fix w r w'
  assume inv: "credit_nonneg w" and run: "credit_spend x ps w = (Inr r, w')"
  show "credit_nonneg w'"
  proof (cases "credit_amount ps = 0")
    case True
    with run inv show ?thesis by (simp add: credit_spend_def)
  next
    case False
    with run obtain cust row where "atomic_spend (cc_company x) (cc_sale x) cust (cc_currency x) (credit_amount ps) (cc_by x) w = (Inr row, w')"
      by (auto simp: credit_spend_def bind_Inr_iff split: option.splits if_splits)
    with spend_guard.debit_keeps_nonneg [where w = w and k = "(cc_company x, cust, cc_currency x)"] inv show ?thesis
      by (fastforce simp: credit_nonneg_def)
  qed
qed

lemma create_issued_keeps_nonneg: "0 \<le> amount \<Longrightarrow> keeps_ok credit_nonneg (create_issued c cust cur amount rt ri user)"
proof (rule keeps_okI)
  fix w r w'
  assume pos: "0 \<le> amount" and inv: "credit_nonneg w" and run: "create_issued c cust cur amount rt ri user w = (Inr r, w')"
  let ?w = "w\<lparr>uuid_next := Suc (uuid_next w)\<rparr>"
  obtain i where ins: "insert_credit i \<lparr>cf_company = c, cf_customer = cust, cf_direction = ISSUED, cf_amount = amount,
       cf_currency = cur, cf_refType = rt, cf_refId = ri, cf_by = user, cf_reason = None\<rparr> ?w = (Inr r, w')"
    using run by (auto simp: create_issued_def bind_Inr_iff)
  have "credit_nonneg ?w" using inv by (simp add: credit_nonneg_cong [of ?w w])
  then show "credit_nonneg w'"
    using credit_balance_insert [OF ins] round4_nonneg [OF pos] by (auto simp: credit_nonneg_def signed_credit_def)
qed

lemma issue_each_keeps_nonneg:
  "\<forall>a \<in> set as. 0 \<le> ra_amount a \<Longrightarrow> keeps_ok credit_nonneg (issue_each x cust as)"
  unfolding repo_issue_refund_credit_def
  by (induction as) (auto intro!: inv_intros create_issued_keeps_nonneg simp: repo_issue_refund_credit_def)

lemma issue_keeps_nonneg:
  "\<forall>a \<in> set as. 0 \<le> ra_amount a \<Longrightarrow> keeps_ok credit_nonneg (issue_refund_credit x as)"
  unfolding issue_refund_credit_def Let_def by (intro inv_intros issue_each_keeps_nonneg) auto

lemma legacy_keeps_nonneg: "keeps_ok credit_nonneg (issue_legacy_refund_credit x refund ps)"
proof -
  have "keeps_ok credit_nonneg (audit_log e)" for e
    by (rule keeps_okI) (auto simp: credit_nonneg_def credit_balance_def)
  then show ?thesis
    unfolding issue_legacy_refund_credit_def Let_def repo_issue_legacy_refund_credit_def
    by (intro inv_intros create_issued_keeps_nonneg) auto
qed

lemma adjust_keeps_nonneg: "keeps_ok credit_nonneg (create_manual_adjustment c cust cur \<bar>amount\<bar> neg reason user)"
proof (rule keeps_okI)
  fix w r w'
  assume inv: "credit_nonneg w" and run: "create_manual_adjustment c cust cur \<bar>amount\<bar> neg reason user w = (Inr r, w')"
  let ?w = "w\<lparr>uuid_next := Suc (uuid_next w)\<rparr>" and ?i = "uuid_gen w (uuid_next w)"
  have inv': "credit_nonneg ?w" using inv by (simp add: credit_nonneg_cong [of ?w w])
  show "credit_nonneg w'"
  proof (cases neg)
    case True
    with run have "insert_with_balance_guard \<lparr>cf_company = c, cf_customer = cust, cf_direction = ADJUSTED,
       cf_amount = \<bar>amount\<bar>, cf_currency = cur, cf_refType = ''MANUAL_ADJUSTMENT'', cf_refId = ?i, cf_by = user,
       cf_reason = Some reason\<rparr> (Some ?i) ?w = (Inr r, w')"
      by (simp add: create_manual_adjustment_def Let_def)
    with write_off_guard.debit_keeps_nonneg [where w = ?w and k = "(c, cust, cur)"] inv' show ?thesis
      by (fastforce simp: credit_nonneg_def)
  next
    case False
    with run obtain x where ins: "insert_credit ?i \<lparr>cf_company = c, cf_customer = cust, cf_direction = ISSUED,
       cf_amount = \<bar>amount\<bar>, cf_currency = cur, cf_refType = ''MANUAL_ADJUSTMENT'', cf_refId = ?i, cf_by = user,
       cf_reason = Some reason\<rparr> ?w = (Inr x, w')"
      by (auto simp: create_manual_adjustment_def Let_def bind_Inr_iff)
    have "0 \<le> round4 \<bar>amount\<bar>" by (rule round4_nonneg) simp
    then show ?thesis
      using credit_balance_insert [OF ins] inv' by (auto simp: credit_nonneg_def signed_credit_def)
  qed
qed

lemma credit_adjust_keeps_nonneg: "keeps credit_nonneg (credit_adjust d cust c user)"
proof -
  have audit: "keeps_ok credit_nonneg (audit_log e)" for e
    by (rule keeps_okI) (auto simp: credit_nonneg_def credit_balance_def)
  let ?body = "\<lambda>amount. bind (find_customer_company cust c) (\<lambda>customer.
       bind (require (customer \<noteq> None) (NotFound ''Customer not found'')) (\<lambda>_.
       bind (create_manual_adjustment c cust (ca_dto_currency d) \<bar>amount\<bar> (amount < 0) (ca_reason d) user) (\<lambda>created.
       bind (require_some created (BadRequest ''Insufficient credit balance for adjustment'')) (\<lambda>row.
       bind (ask dec_str) (\<lambda>ds.
       bind (audit_log \<lparr>au_company = Some c, au_user = user, au_entity = ''CustomerCreditTransaction'',
         au_entityId = ct_id row, au_action = (if amount < 0 then ''ADJUSTED'' else ''ISSUED''), au_before = None,
         au_after = Some (JObj [(''customerId'', JStr cust), (''amount'', JStr (ds \<bar>amount\<bar>)),
           (''currency'', JStr (ca_dto_currency d)), (''reason'', JStr (ca_reason d))])\<rparr>) (\<lambda>_.
       ret row))))))"
  have "keeps_ok credit_nonneg (?body amount)" for amount
    unfolding find_customer_company_def by (intro inv_intros adjust_keeps_nonneg audit)
  then have tx: "keeps credit_nonneg (transaction (?body amount))" for amount by (rule keeps_transaction)
  show ?thesis
    unfolding keeps_def
  proof (intro allI impI)
    fix w r w'
    assume "credit_nonneg w" and "credit_adjust d cust c user w = (r, w')"
    then show "credit_nonneg w'"
      using tx [THEN keepsD, of w] by (cases "ca_amount d") (auto simp: credit_adjust_def bind_def split: if_splits)
  qed
qed

text \<open>The operations, each in the transaction of its caller; refund allocations carry positive amounts.\<close>

inductive credit_step :: "world \<Rightarrow> world \<Rightarrow> bool" where
  step_spend: "transaction (credit_spend x ps) w = (r, w') \<Longrightarrow> credit_step w w'"
| step_issue: "\<forall>a \<in> set as. 0 \<le> ra_amount a \<Longrightarrow> transaction (issue_refund_credit x as) w = (r', w') \<Longrightarrow> credit_step w w'"
| step_legacy: "transaction (issue_legacy_refund_credit x refund ps) w = (r, w') \<Longrightarrow> credit_step w w'"
| step_adjust: "credit_adjust d cust c user w = (r'', w') \<Longrightarrow> credit_step w w'"

inductive credit_reachable :: "world \<Rightarrow> bool" where
  credit_start: "t_credit w = [] \<Longrightarrow> credit_reachable w"
| credit_next: "credit_reachable w \<Longrightarrow> credit_step w w' \<Longrightarrow> credit_reachable w'"

lemma credit_step_keeps: "credit_step w w' \<Longrightarrow> credit_nonneg w \<Longrightarrow> credit_nonneg w'"
proof (induction rule: credit_step.induct)
  case step_spend
  then show ?case by (blast dest: keepsD [OF keeps_transaction [OF spend_keeps_nonneg]])
next
  case (step_issue as)
  from keepsD [OF keeps_transaction [OF issue_keeps_nonneg [OF step_issue(1)]] step_issue(3,2)] show ?case .
next
  case step_legacy
  then show ?case by (blast dest: keepsD [OF keeps_transaction [OF legacy_keeps_nonneg]])
next
  case step_adjust
  then show ?case by (blast dest: keepsD [OF credit_adjust_keeps_nonneg])
qed

section \<open>The reported balance\<close>

lemma add_group_balance:
  "(case map_of (add_group (k, d, s) m) j of None \<Rightarrow> 0 | Some t \<Rightarrow> tt_balance t) =
     (case map_of m j of None \<Rightarrow> 0 | Some t \<Rightarrow> tt_balance t) + (if k = j then signed_credit d s else 0)"
  by (cases d) (auto simp: add_group_def Let_def update_conv' signed_credit_def zero_totals_def split: option.splits)

lemma fold_groups_balance:
  "(case map_of (fold add_group gs m) j of None \<Rightarrow> 0 | Some t \<Rightarrow> tt_balance t) =
     (case map_of m j of None \<Rightarrow> 0 | Some t \<Rightarrow> tt_balance t) + (\<Sum>(k, d, s)\<leftarrow>gs. if k = j then signed_credit d s else 0)"
proof (induction gs arbitrary: m)
  case Nil
  then show ?case by simp
next
  case (Cons g gs)
  obtain k d s where "g = (k, d, s)" by (metis prod_cases3)
  with Cons [of "add_group g m"] add_group_balance [of k d s m j] show ?case by (simp add: add.assoc)
qed

text \<open>Summing group by group is summing row by row.\<close>

lemma sum_by_groups:
  fixes f :: "'r \<Rightarrow> decimal"
  shows "(\<Sum>x\<leftarrow>remdups (map key rows). \<Sum>r\<leftarrow>rows. if key r = x then f r else 0) = (\<Sum>r\<leftarrow>rows. f r)"
proof -
  have zero: "(\<Sum>x\<leftarrow>ks. if key r = x then f r else 0) = 0" if "key r \<notin> set ks" for ks r
    using that by (induction ks) auto
  have one: "(\<Sum>x\<leftarrow>ks. if key r = x then f r else 0) = f r" if "distinct ks" "key r \<in> set ks" for ks r
    using that by (induction ks) (auto simp: zero)
  have swap: "(\<Sum>x\<leftarrow>ks. \<Sum>r\<leftarrow>rs. if key r = x then f r else 0) = (\<Sum>r\<leftarrow>rs. \<Sum>x\<leftarrow>ks. if key r = x then f r else 0)" for ks and rs :: "'r list"
    by (induction rs) (simp_all add: sum_list_addf)
  have "(\<Sum>r\<leftarrow>rows. \<Sum>x\<leftarrow>remdups (map key rows). if key r = x then f r else 0) = (\<Sum>r\<leftarrow>rows. f r)"
    by (rule arg_cong [where f = sum_list], rule map_cong [OF refl], rule one) simp_all
  then show ?thesis by (simp only: swap)
qed

lemma fold_groups_keys: "map_of (fold add_group gs m) j \<noteq> None \<Longrightarrow> map_of m j \<noteq> None \<or> j \<in> fst ` set gs"
proof (induction gs arbitrary: m)
  case Nil
  then show ?case by simp
next
  case (Cons g gs)
  obtain k d s where g: "g = (k, d, s)" by (metis prod_cases3)
  have "map_of (add_group g m) j \<noteq> None \<longleftrightarrow> map_of m j \<noteq> None \<or> k = j"
    by (cases d) (auto simp: g add_group_def Let_def update_conv')
  with Cons show ?case by (fastforce simp: g)
qed

lemma if_both: "(if a then if b then x else y else y) = (if a \<and> b then x else y)"
  by simp

lemma credit_groups_balance:
  fixes c cust :: string and cur :: "string option" and w :: world
  defines "rows \<equiv> find_many (\<lambda>r. ct_company r = c \<and> ct_customer r = cust \<and> ct_deleted r = None \<and>
      (case cur of None \<Rightarrow> True | Some k \<Rightarrow> k = '''' \<or> ct_currency r = k)) (t_credit w)"
  shows "(\<Sum>(k, d, s)\<leftarrow>credit_groups c cust cur w. if k = j then signed_credit d s else 0) =
    (\<Sum>r\<leftarrow>rows. if ct_currency r = j then signed_credit (ct_direction r) (ct_amount r) else 0)"
proof -
  let ?key = "\<lambda>r. (ct_currency r, ct_direction r)"
  let ?f = "\<lambda>r. if ct_currency r = j then signed_credit (ct_direction r) (ct_amount r) else 0"
  have sg: "signed_credit d (\<Sum>r\<leftarrow>rs. g r) = (\<Sum>r\<leftarrow>rs. signed_credit d (g r))" for d rs and g :: "credit_row \<Rightarrow> decimal"
    by (induction rs) (cases d; simp add: signed_credit_def)+
  have z: "signed_credit d 0 = 0" for d by (cases d) (simp_all add: signed_credit_def)
  have "(\<Sum>(k, d, s)\<leftarrow>credit_groups c cust cur w. if k = j then signed_credit d s else 0) =
      (\<Sum>(k, d)\<leftarrow>remdups (map ?key rows). if k = j
         then signed_credit d (\<Sum>r\<leftarrow>rows. if ct_currency r = k \<and> ct_direction r = d then ct_amount r else 0) else 0)"
    by (simp add: credit_groups_def Let_def rows_def [symmetric] comp_def case_prod_unfold cong: if_cong)
  also have "\<dots> = (\<Sum>x\<leftarrow>remdups (map ?key rows). \<Sum>r\<leftarrow>rows. if ?key r = x then ?f r else 0)"
  proof (intro arg_cong [where f = sum_list] map_cong refl)
    fix x :: "string \<times> credit_direction"
    obtain k d where x: "x = (k, d)" by (cases x)
    show "(case x of (k, d) \<Rightarrow> if k = j
         then signed_credit d (\<Sum>r\<leftarrow>rows. if ct_currency r = k \<and> ct_direction r = d then ct_amount r else 0) else 0) =
      (\<Sum>r\<leftarrow>rows. if ?key r = x then ?f r else 0)"
    proof (cases "k = j")
      case True
      then show ?thesis unfolding x by (auto simp: sg z intro!: arg_cong [where f = sum_list])
    next
      case False
      then have "(if ?key r = x then ?f r else 0) = 0" for r by (simp add: x)
      then have "(\<Sum>r\<leftarrow>rows. if ?key r = x then ?f r else 0) = (\<Sum>r\<leftarrow>rows. 0)"
        by (intro arg_cong [where f = sum_list] map_cong refl)
      with False show ?thesis by (simp add: x)
    qed
  qed
  also have "\<dots> = (\<Sum>r\<leftarrow>rows. ?f r)" by (rule sum_by_groups)
  finally show ?thesis .
qed

section \<open>Properties\<close>

text \<open>
  Property C32: a customer's credit is never overdrawn. In every state reached from an empty ledger by
  any sequence of sale payments with credit, credit issued for refunds, legacy refund credit and manual
  adjustments --- of any companies, customers and currencies, successful or not --- every balance is at
  least zero.
\<close>

theorem credit_is_never_overdrawn:
  "credit_reachable w \<Longrightarrow> 0 \<le> credit_balance w c cust cur"
proof -
  assume "credit_reachable w"
  then have "credit_nonneg w"
  proof induction
    case (credit_start w)
    then show ?case by (simp add: credit_nonneg_def credit_balance_def find_many_def)
  next
    case credit_next
    then show ?case by (blast dest: credit_step_keeps)
  qed
  then show ?thesis by (simp add: credit_nonneg_def)
qed

text \<open>
  Paying with credit takes exactly the credit part of the payments, once per sale. When a
  sale has no credit payment nothing happens; otherwise the spend succeeds exactly when the sale names a
  customer whose balance in the sale's currency covers the amount and the sale has not been charged
  before, and then that balance alone falls by the amount and a second charge of the same sale fails.
\<close>

theorem credit_spend_is_exact:
  fixes x :: credit_context and ps :: "payment_event list" and w :: world
  defines "amount \<equiv> round4 (credit_amount ps)"
  shows "((\<exists>r w'. credit_spend x ps w = (Inr r, w')) \<longleftrightarrow> credit_amount ps = 0 \<or>
      (\<exists>cust. known_customer x = Some cust \<and> amount \<le> credit_balance w (cc_company x) cust (cc_currency x) \<and>
        (\<forall>r \<in> set (t_credit w). \<not> (ct_company r = cc_company x \<and> ct_customer r = cust \<and> ct_direction r = SPENT \<and>
           ct_refType r = ''SALE_PAYMENT'' \<and> ct_refId r = cc_sale x \<and> ct_currency r = cc_currency x)))) \<and>
    (\<forall>r w' cust. credit_amount ps \<noteq> 0 \<longrightarrow> known_customer x = Some cust \<longrightarrow> credit_spend x ps w = (Inr r, w') \<longrightarrow>
       (\<forall>c cust' cur. credit_balance w' c cust' cur = credit_balance w c cust' cur -
          (if (c, cust', cur) = (cc_company x, cust, cc_currency x) then amount else 0)) \<and>
       (\<forall>qs. credit_amount qs \<noteq> 0 \<longrightarrow> (\<exists>e. fst (credit_spend x qs w') = Inl e)))"
proof -
  let ?f = "\<lambda>cust a. \<lparr>cf_company = cc_company x, cf_customer = cust, cf_direction = SPENT, cf_amount = a,
       cf_currency = cc_currency x, cf_refType = ''SALE_PAYMENT'', cf_refId = cc_sale x, cf_by = cc_by x, cf_reason = None\<rparr>"
  let ?w = "\<lambda>w. w\<lparr>uuid_next := Suc (uuid_next w)\<rparr>"
  have run: "credit_spend x qs v = (case known_customer x of
      None \<Rightarrow> (Inl (BadRequest ''Sale uses customer credit payment methods but has no customer''), v)
    | Some cust \<Rightarrow>
        if \<not> round4 (credit_amount qs) \<le> credit_balance v (cc_company x) cust (cc_currency x)
        then (Inl (BadRequest ''Insufficient customer credit balance''), v)
        else bind (insert_credit (uuid_gen v (uuid_next v)) (?f cust (credit_amount qs))) (\<lambda>row. ret (Some row)) (?w v))"
    if "credit_amount qs \<noteq> 0" for qs v
    using that by (auto simp: credit_spend_def Let_def atomic_spend_def insert_with_balance_guard_def bind_def
        split: option.splits prod.splits sum.splits)
  have ins: "(\<exists>row v'. insert_credit i (?f cust a) v = (Inr row, v')) \<longleftrightarrow> (\<forall>r \<in> set (t_credit v). \<not> credit_clash (?f cust a) r)" for i cust a v
    by (simp add: insert_credit_Inr)
  have iff: "(\<exists>r w'. credit_spend x ps w = (Inr r, w')) \<longleftrightarrow>
      (\<exists>cust. known_customer x = Some cust \<and> amount \<le> credit_balance w (cc_company x) cust (cc_currency x) \<and>
        (\<forall>r \<in> set (t_credit w). \<not> credit_clash (?f cust (credit_amount ps)) r))" if "credit_amount ps \<noteq> 0"
    unfolding run [OF that] amount_def
    by (cases "known_customer x") (auto simp: bind_Inr_iff insert_credit_Inr)
  have eff: "(\<forall>c cust' cur. credit_balance w' c cust' cur = credit_balance w c cust' cur -
          (if (c, cust', cur) = (cc_company x, cust, cc_currency x) then amount else 0)) \<and>
       (\<forall>qs. credit_amount qs \<noteq> 0 \<longrightarrow> (\<exists>e. fst (credit_spend x qs w') = Inl e))"
    if A: "credit_amount ps \<noteq> 0" and K: "known_customer x = Some cust" and R: "credit_spend x ps w = (Inr r, w')" for r w' cust
  proof -
    obtain row where row: "insert_credit (uuid_gen w (uuid_next w)) (?f cust (credit_amount ps)) (?w w) = (Inr row, w')"
      using R K unfolding run [OF A] by (auto simp: bind_Inr_iff split: if_splits)
    have "credit_balance (?w w) c k cur = credit_balance w c k cur" for c k cur by (simp add: credit_balance_def)
    then have bal: "credit_balance w' c cust' cur = credit_balance w c cust' cur -
        (if (c, cust', cur) = (cc_company x, cust, cc_currency x) then amount else 0)" for c cust' cur
      using credit_balance_insert [OF row, of c cust' cur] by (auto simp: signed_credit_def amount_def)
    have "row \<in> set (t_credit w')" and "credit_clash (?f cust a) row" for a
      using row by (auto simp: insert_credit_Inr credit_clash_def)
    then have "\<nexists>r v. credit_spend x qs w' = (Inr r, v)" if "credit_amount qs \<noteq> 0" for qs
      using K unfolding run [OF that] by (auto simp: bind_Inr_iff insert_credit_Inr split: if_splits)
    then have "\<exists>e. fst (credit_spend x qs w') = Inl e" if "credit_amount qs \<noteq> 0" for qs
      using that by (metis old.sum.exhaust prod.collapse)
    with bal show ?thesis by blast
  qed
  have zero: "credit_amount ps = 0 \<Longrightarrow> \<exists>r w'. credit_spend x ps w = (Inr r, w')" by (simp add: credit_spend_def)
  show ?thesis
    using iff eff zero by (auto simp: credit_clash_def)
qed

text \<open>
  A full refund gives back exactly the credit the sale took. If the sale was charged in a
  state and, with the ledger unchanged since, the legacy full refund issues credit from the same
  payments, every balance is what it was before the sale.
\<close>

theorem refund_restores_the_credit:
  assumes "credit_spend x ps w = (Inr r, w1)" and "credit_amount ps \<ge> 0" and "t_credit w2 = t_credit w1"
    and "issue_legacy_refund_credit x refund ps w2 = (Inr r', w3)" and "known_customer x \<noteq> None"
  shows "credit_balance w3 c cust cur = credit_balance w c cust cur"
proof (cases "credit_amount ps = 0")
  case True
  with assms(1,4) have "w1 = w" and "w3 = w2" by (simp_all add: credit_spend_def issue_legacy_refund_credit_def)
  with assms(3) show ?thesis by (simp add: credit_balance_def)
next
  case False
  obtain k where k: "known_customer x = Some k" using assms(5) by auto
  have "atomic_spend (cc_company x) (cc_sale x) k (cc_currency x) (credit_amount ps) (cc_by x) w = (Inr r, w1)" and "r \<noteq> None"
    using assms(1) False k by (auto simp: credit_spend_def bind_Inr_iff split: if_splits)
  then have one: "credit_balance w1 c cust cur = credit_balance w c cust cur -
      (if (c, cust, cur) = (cc_company x, k, cc_currency x) then round4 (credit_amount ps) else 0)"
    using spend_guard.debit_some [where w = w and k = "(cc_company x, k, cc_currency x)"] by fastforce
  have "\<not> credit_amount ps \<le> 0" using assms(2) False by simp
  then obtain row i where "insert_credit i \<lparr>cf_company = cc_company x, cf_customer = k, cf_direction = ISSUED,
      cf_amount = credit_amount ps, cf_currency = cc_currency x, cf_refType = ''REFUND'', cf_refId = refund, cf_by = cc_by x,
      cf_reason = None\<rparr> (w2\<lparr>uuid_next := Suc (uuid_next w2)\<rparr>) = (Inr row, w3)"
    using assms(4) k by (auto simp: issue_legacy_refund_credit_def repo_issue_legacy_refund_credit_def create_issued_def bind_Inr_iff)
  from credit_balance_insert [OF this, of c cust cur]
  have "credit_balance w3 c cust cur = credit_balance (w2\<lparr>uuid_next := Suc (uuid_next w2)\<rparr>) c cust cur +
      (if (c, cust, cur) = (cc_company x, k, cc_currency x) then round4 (credit_amount ps) else 0)"
    by (auto simp: signed_credit_def)
  moreover have "credit_balance (w2\<lparr>uuid_next := Suc (uuid_next w2)\<rparr>) c cust cur = credit_balance w1 c cust cur"
    using assms(3) by (simp add: credit_balance_def)
  ultimately show ?thesis using one by simp
qed

text \<open>
  The balance shown is the balance that can be spent. Every currency that the balance
  query lists carries exactly the amount the guarded insert of a payment would compare against.
\<close>

theorem shown_credit_is_spendable:
  assumes "repo_get_balances c cust cur w = (Inr m, w')" and "map_of m k = Some t"
  shows "tt_balance t = credit_balance w c cust k"
proof -
  let ?hit = "\<lambda>r. ct_company r = c \<and> ct_customer r = cust \<and> ct_deleted r = None \<and>
      (case cur of None \<Rightarrow> True | Some k \<Rightarrow> k = '''' \<or> ct_currency r = k)"
  let ?rows = "find_many ?hit (t_credit w)"
  have m: "m = fold add_group (credit_groups c cust cur w) []" using assms(1) by (auto simp: repo_get_balances_def)
  have "map_of m k \<noteq> None" using assms(2) by simp
  then have "k \<in> fst ` set (credit_groups c cust cur w)" using fold_groups_keys [of "credit_groups c cust cur w" "[]" k] by (simp add: m)
  then obtain r where "r \<in> set ?rows" "ct_currency r = k" by (auto simp: credit_groups_def Let_def image_iff)
  then have pass: "case cur of None \<Rightarrow> True | Some j \<Rightarrow> j = '''' \<or> k = j" by (auto simp: find_many_def split: option.splits)
  have "tt_balance t = (\<Sum>(j, d, s)\<leftarrow>credit_groups c cust cur w. if j = k then signed_credit d s else 0)"
    using fold_groups_balance [of "credit_groups c cust cur w" "[]" k] assms(2) by (simp add: m)
  also have "\<dots> = (\<Sum>r\<leftarrow>?rows. if ct_currency r = k then signed_credit (ct_direction r) (ct_amount r) else 0)"
    by (rule credit_groups_balance)
  also have "\<dots> = (\<Sum>r\<leftarrow>t_credit w. if ?hit r \<and> ct_currency r = k then signed_credit (ct_direction r) (ct_amount r) else 0)"
    by (simp add: find_many_def sum_list_map_filter' if_both)
  also have "\<dots> = (\<Sum>r\<leftarrow>t_credit w. if credit_of c cust k r then signed_credit (ct_direction r) (ct_amount r) else 0)"
    using pass by (intro arg_cong [where f = sum_list] map_cong refl if_cong) (auto simp: credit_of_def split: option.splits)
  also have "\<dots> = credit_balance w c cust k" by (simp add: credit_balance_def find_many_def sum_list_map_filter')
  finally show ?thesis .
qed

section \<open>Witnesses\<close>

definition credit_row_demo :: credit_row where
  "credit_row_demo = \<lparr>ct_id = ''i'', ct_company = ''C'', ct_customer = ''K'', ct_direction = ISSUED, ct_amount = 30,
     ct_currency = ''KZT'', ct_refType = ''REFUND'', ct_refId = ''R'', ct_createdBy = ''U'', ct_reason = None,
     ct_createdAt = 0, ct_deleted = None\<rparr>"

definition credit_world :: world where
  "credit_world = empty_world\<lparr>t_credit := [credit_row_demo], t_customer := [\<lparr>cu_id = ''K'', cu_company = ''C'', cu_deleted = None\<rparr>]\<rparr>"

definition credit_sale :: credit_context where
  "credit_sale = \<lparr>cc_company = ''C'', cc_sale = ''S'', cc_customer = Some ''K'', cc_currency = ''KZT'', cc_by = ''U''\<rparr>"

definition credit_payments :: "payment_event list" where
  "credit_payments = [\<lparr>pe_method = STORE_CREDIT, pe_amount = 20\<rparr>, \<lparr>pe_method = CASH, pe_amount = 7\<rparr>, \<lparr>pe_method = GIFT_CARD, pe_amount = 5\<rparr>]"

lemma credit_demo_facts: "credit_amount credit_payments = 25" "known_customer credit_sale = Some ''K''"
  "credit_balance credit_world ''C'' ''K'' ''KZT'' = 30"
  by (simp_all add: credit_amount_def credit_payments_def is_credit_method_def CREDIT_PAYMENT_METHODS_def known_customer_def
      credit_sale_def credit_balance_def credit_world_def credit_row_demo_def find_many_def credit_of_def signed_credit_def)

lemma credit_spend_runs: "\<exists>r w'. credit_spend credit_sale credit_payments credit_world = (Inr r, w')"
  by (rule run_succeeds) code_simp

lemma credit_is_never_overdrawn_witness:
  "0 \<le> credit_balance (snd (credit_adjust \<lparr>ca_amount = Some 30, ca_dto_currency = ''KZT'', ca_reason = ''r''\<rparr> ''K'' ''C'' ''U''
     (credit_world\<lparr>t_credit := []\<rparr>))) ''C'' ''K'' ''KZT''"
proof -
  have "credit_reachable (credit_world\<lparr>t_credit := []\<rparr>)" by (rule credit_start) simp
  then have "credit_reachable (snd (credit_adjust \<lparr>ca_amount = Some 30, ca_dto_currency = ''KZT'', ca_reason = ''r''\<rparr> ''K'' ''C'' ''U''
     (credit_world\<lparr>t_credit := []\<rparr>)))"
    by (rule credit_next) (rule step_adjust, rule surjective_pairing)
  then show ?thesis by (rule credit_is_never_overdrawn)
qed

lemma credit_spend_is_exact_witness:
  "\<exists>r w'. credit_spend credit_sale credit_payments credit_world = (Inr r, w') \<and> credit_balance w' ''C'' ''K'' ''KZT'' = 5 \<and>
     (\<exists>e. fst (credit_spend credit_sale credit_payments w') = Inl e)"
proof -
  obtain r w' where run: "credit_spend credit_sale credit_payments credit_world = (Inr r, w')" using credit_spend_runs by blast
  have "round4 25 = (25 :: decimal)" by code_simp
  moreover have "cc_company credit_sale = ''C''" "cc_currency credit_sale = ''KZT''" by (simp_all add: credit_sale_def)
  moreover note conjunct2 [OF credit_spend_is_exact [of credit_sale credit_payments credit_world],
      rule_format, OF _ credit_demo_facts(2) run]
  ultimately show ?thesis using run credit_demo_facts by auto
qed

lemma refund_restores_the_credit_witness:
  "\<exists>r w1 r' w3. credit_spend credit_sale credit_payments credit_world = (Inr r, w1) \<and>
     issue_legacy_refund_credit credit_sale ''X'' credit_payments w1 = (Inr r', w3) \<and>
     credit_balance w3 ''C'' ''K'' ''KZT'' = 30"
proof -
  obtain r w1 where run: "credit_spend credit_sale credit_payments credit_world = (Inr r, w1)" using credit_spend_runs by blast
  have "\<not> isl (fst (issue_legacy_refund_credit credit_sale ''X'' credit_payments (snd (credit_spend credit_sale credit_payments credit_world))))"
    by code_simp
  then obtain r' w3 where iss: "issue_legacy_refund_credit credit_sale ''X'' credit_payments w1 = (Inr r', w3)"
    using run_succeeds [of "issue_legacy_refund_credit credit_sale ''X'' credit_payments w1"] run by auto
  have "credit_balance w3 ''C'' ''K'' ''KZT'' = credit_balance credit_world ''C'' ''K'' ''KZT''"
    by (rule refund_restores_the_credit [OF run _ refl iss]) (simp_all add: credit_demo_facts)
  with run iss credit_demo_facts show ?thesis by auto
qed

lemma shown_credit_is_spendable_witness:
  "\<exists>m t. repo_get_balances ''C'' ''K'' None credit_world = (Inr m, credit_world) \<and> map_of m ''KZT'' = Some t \<and> tt_balance t = 30"
proof -
  obtain m where run: "repo_get_balances ''C'' ''K'' None credit_world = (Inr m, credit_world)" by (simp add: repo_get_balances_def)
  have "map_of m ''KZT'' \<noteq> None"
    using run by (auto simp: repo_get_balances_def credit_groups_def credit_world_def credit_row_demo_def find_many_def Let_def
        add_group_def update_conv')
  then obtain t where "map_of m ''KZT'' = Some t" by blast
  with shown_credit_is_spendable [OF run this] run credit_demo_facts show ?thesis by auto
qed

end
