(* ===== verification/Sales.thy ===== *)
theory Sales
  imports CashShift CreditLedger "HOL-Library.List_Lexorder"
begin

text \<open>
  Sales: \<^verbatim>\<open>sales/services/sales.service.ts\<close>, its repository and its mapper. A sale is created as a draft with
  its items and payments, priced by the server; its status moves along \<^verbatim>\<open>VALID_TRANSITIONS\<close>; completing it
  writes a receipt, adds it to the cashier's open shift, spends customer credit and publishes
  \<^verbatim>\<open>sale.completed\<close>, whose subscribers move the stock and post the journal in the same transaction.
\<close>

section \<open>The repository\<close>

text \<open>
  \<^verbatim>\<open>getNextSaleNumber\<close>. It is not handed the transaction client, so the number is drawn on a connection of
  its own and stays drawn when the transaction fails (see \<open>create_sale\<close>).
\<close>

definition sale_number :: "string \<Rightarrow> int \<Rightarrow> string" where
  "sale_number c n = ''SALE-'' @ to_upper_ascii (take 8 c) @ ''-'' @ pad_start 4 (digits (nat n))"

definition get_next_sale_number :: "string \<Rightarrow> string wtx" where
  "get_next_sale_number c = bind (next_number c ''SALE'') (\<lambda>n. ret (sale_number c n))"

record item_data =
  it_product :: string
  it_quantity :: int
  it_unitPrice :: decimal
  it_costPrice :: decimal
  it_discount :: decimal
  it_subtotal :: decimal
  it_total :: decimal
  it_margin :: decimal

record payment_dto =
  np_method :: payment_method
  np_amount :: decimal
  np_reference :: "string option"

record sale_data =
  sn_company :: string
  sn_warehouse :: string
  sn_cashier :: string
  sn_customer :: "string option"
  sn_number :: string
  sn_currency :: string
  sn_notes :: "string option"
  sn_subtotal :: decimal
  sn_discount :: decimal
  sn_total :: decimal
  sn_paid :: decimal
  sn_change :: decimal

text \<open>The rows of the nested \<^verbatim>\<open>create\<close>: the sale, its items, its payments.\<close>

definition sale_of :: "string \<Rightarrow> int \<Rightarrow> sale_data \<Rightarrow> sale_row" where
  "sale_of u clock d =
     \<lparr>sa_id = u, sa_company = sn_company d, sa_warehouse = sn_warehouse d, sa_cashier = sn_cashier d,
      sa_customer = sn_customer d, sa_number = sn_number d, sa_status = SaleDraft, sa_subtotal = round4 (sn_subtotal d),
      sa_discount = round4 (sn_discount d), sa_tax = 0, sa_total = round4 (sn_total d), sa_paid = round4 (sn_paid d),
      sa_change = round4 (sn_change d), sa_currency = sn_currency d, sa_notes = sn_notes d, sa_shift = None,
      sa_version = 0, sa_createdAt = clock, sa_deleted = None\<rparr>"

definition item_of :: "string \<Rightarrow> string \<Rightarrow> int \<Rightarrow> item_data \<Rightarrow> sale_item_row" where
  "item_of u sale clock d =
     \<lparr>si_id = u, si_sale = sale, si_product = it_product d, si_quantity = it_quantity d,
      si_unitPrice = round4 (it_unitPrice d), si_costPrice = round4 (it_costPrice d), si_fifoCost = None,
      si_discount = round4 (it_discount d), si_subtotal = round4 (it_subtotal d), si_total = round4 (it_total d),
      si_margin = round4 (it_margin d), si_createdAt = clock\<rparr>"

definition payment_of :: "string \<Rightarrow> string \<Rightarrow> int \<Rightarrow> payment_dto \<Rightarrow> payment_row" where
  "payment_of u sale clock d =
     \<lparr>pm_id = u, pm_sale = sale, pm_method = np_method d, pm_amount = round4 (np_amount d),
      pm_reference = np_reference d, pm_createdAt = clock\<rparr>"

definition insert_item :: "string \<Rightarrow> item_data \<Rightarrow> unit wtx" where
  "insert_item sale d = bind fresh_uuid (\<lambda>u. change (\<lambda>w. w\<lparr>t_sale_item := t_sale_item w @ [item_of u sale (now w) d]\<rparr>))"

definition insert_payment :: "string \<Rightarrow> payment_dto \<Rightarrow> unit wtx" where
  "insert_payment sale d = bind fresh_uuid (\<lambda>u. change (\<lambda>w. w\<lparr>t_payment := t_payment w @ [payment_of u sale (now w) d]\<rparr>))"

text \<open>\<^verbatim>\<open>@@unique([companyId, saleNumber])\<close>; deleted rows take part.\<close>

definition insert_sale :: "sale_data \<Rightarrow> item_data list \<Rightarrow> payment_dto list \<Rightarrow> sale_row wtx" where
  "insert_sale d items payments =
     bind (ask (\<lambda>w. find_first (\<lambda>r. sa_company r = sn_company d \<and> sa_number r = sn_number d) (t_sale w))) (\<lambda>clash.
     bind (require (clash = None) (UniqueViolation [''companyId'', ''saleNumber''])) (\<lambda>_.
     bind fresh_uuid (\<lambda>u.
     bind (ask now) (\<lambda>clock.
     bind (change (\<lambda>w. w\<lparr>t_sale := t_sale w @ [sale_of u clock d]\<rparr>)) (\<lambda>_.
     bind (for_each items (insert_item u)) (\<lambda>_.
     bind (for_each payments (insert_payment u)) (\<lambda>_.
     ret (sale_of u clock d))))))))"

definition sale_number_conflict :: "exn \<Rightarrow> exn" where
  "sale_number_conflict e = (case e of
       UniqueViolation target \<Rightarrow>
         if ''saleNumber'' \<in> set target then Conflict ''Sale number already exists. Please refresh and retry.'' else e
     | _ \<Rightarrow> e)"

definition create_sale_row :: "sale_data \<Rightarrow> item_data list \<Rightarrow> payment_dto list \<Rightarrow> sale_row wtx" where
  "create_sale_row d items payments = catch (insert_sale d items payments) (\<lambda>e. throw (sale_number_conflict e))"

definition find_sale :: "string \<Rightarrow> string \<Rightarrow> sale_row option wtx" where
  "find_sale i c = ask (\<lambda>w. find_first (\<lambda>r. sa_id r = i \<and> sa_company r = c \<and> sa_deleted r = None) (t_sale w))"

definition find_by_sale_number :: "string \<Rightarrow> string \<Rightarrow> sale_row option wtx" where
  "find_by_sale_number n c = ask (\<lambda>w. find_first (\<lambda>r. sa_number r = n \<and> sa_company r = c \<and> sa_deleted r = None) (t_sale w))"

text \<open>The scalar part of \<^verbatim>\<open>update\<close>, guarded by the row version.\<close>

definition update_sale :: "string \<Rightarrow> (sale_row \<Rightarrow> sale_row) \<Rightarrow> string \<Rightarrow> int \<Rightarrow> sale_row wtx" where
  "update_sale i f c v =
     cas_write t_sale t_sale_update
       (\<lambda>r. sa_id r = i \<and> sa_company r = c \<and> sa_version r = v)
       (\<lambda>r. sa_id r = i \<and> sa_company r = c) (\<lambda>r. sa_id r = i)
       (bump_ver (\<lambda>r. r\<lparr>sa_version := sa_version r + 1\<rparr>) f)
       (NotFound ''Sale not found'')
       (Conflict ''Sale was modified by another user'')"

interpretation sale_table: optimistic_table t_sale sa_id sa_company sa_version
    "\<lambda>f. \<forall>r. sa_id (f r) = sa_id r \<and> sa_company (f r) = sa_company r \<and> sa_version (f r) = sa_version r"
    update_sale
  unfolding update_sale_def [abs_def] by (rule cas_optimistic_table) simp_all

text \<open>
  The relation part: \<^verbatim>\<open>connect\<close> of a row that does not exist is Prisma's P2025; nothing in it compares
  companies.
\<close>

datatype sale_relation = ConnectShift string | ConnectCustomer string | DisconnectCustomer

definition apply_relation :: "string \<Rightarrow> sale_relation \<Rightarrow> unit wtx" where
  "apply_relation i x = (case x of
       ConnectShift s \<Rightarrow>
         bind (ask (\<lambda>w. find_first (\<lambda>r. cs_id r = s) (t_shift w))) (\<lambda>found.
         bind (require (found \<noteq> None) RecordMissing) (\<lambda>_.
         change (\<lambda>w. w\<lparr>t_sale := update_rows (\<lambda>r. sa_id r = i) (\<lambda>r. r\<lparr>sa_shift := Some s\<rparr>) (t_sale w)\<rparr>)))
     | ConnectCustomer k \<Rightarrow>
         bind (ask (\<lambda>w. find_first (\<lambda>r. cu_id r = k) (t_customer w))) (\<lambda>found.
         bind (require (found \<noteq> None) RecordMissing) (\<lambda>_.
         change (\<lambda>w. w\<lparr>t_sale := update_rows (\<lambda>r. sa_id r = i) (\<lambda>r. r\<lparr>sa_customer := Some k\<rparr>) (t_sale w)\<rparr>)))
     | DisconnectCustomer \<Rightarrow>
         change (\<lambda>w. w\<lparr>t_sale := update_rows (\<lambda>r. sa_id r = i) (\<lambda>r. r\<lparr>sa_customer := None\<rparr>) (t_sale w)\<rparr>))"

definition update_sale_row :: "string \<Rightarrow> (sale_row \<Rightarrow> sale_row) \<Rightarrow> sale_relation option \<Rightarrow> string \<Rightarrow> int \<Rightarrow> sale_row wtx" where
  "update_sale_row i f rel c v =
     bind (update_sale i f c v) (\<lambda>updated.
     case rel of
       None \<Rightarrow> ret updated
     | Some x \<Rightarrow>
         bind (apply_relation i x) (\<lambda>_.
         bind (ask (\<lambda>w. find_first (\<lambda>r. sa_id r = i) (t_sale w))) (\<lambda>found.
         require_some found RecordMissing)))"

definition update_status :: "string \<Rightarrow> sale_status \<Rightarrow> string \<Rightarrow> int \<Rightarrow> sale_row wtx" where
  "update_status i st c v = update_sale_row i (\<lambda>r. r\<lparr>sa_status := st\<rparr>) None c v"

definition repo_soft_delete_sale :: "string \<Rightarrow> string \<Rightarrow> int \<Rightarrow> sale_row wtx" where
  "repo_soft_delete_sale i c v = bind (ask now) (\<lambda>clock. update_sale i (\<lambda>r. r\<lparr>sa_deleted := Some clock\<rparr>) c v)"

section \<open>The mapper\<close>

definition sale_status_name :: "sale_status \<Rightarrow> string" where
  "sale_status_name s = (case s of
       SaleDraft \<Rightarrow> ''DRAFT'' | SalePending \<Rightarrow> ''PENDING'' | SaleCompletedStatus \<Rightarrow> ''COMPLETED'' | SaleRefundedStatus \<Rightarrow> ''REFUNDED''
     | SaleCancelled \<Rightarrow> ''CANCELLED'' | SalePartiallyRefundedStatus \<Rightarrow> ''PARTIALLY_REFUNDED'')"

definition method_name :: "payment_method \<Rightarrow> string" where
  "method_name m = (case m of
       CASH \<Rightarrow> ''CASH'' | CARD \<Rightarrow> ''CARD'' | QR \<Rightarrow> ''QR'' | BANK_TRANSFER \<Rightarrow> ''BANK_TRANSFER'' | MOBILE_WALLET \<Rightarrow> ''MOBILE_WALLET''
     | STORE_CREDIT \<Rightarrow> ''STORE_CREDIT'' | GIFT_CARD \<Rightarrow> ''GIFT_CARD'')"

definition item_entity :: "(decimal \<Rightarrow> string) \<Rightarrow> sale_item_row \<Rightarrow> json" where
  "item_entity ds r = JObj
     [(''id'', JStr (si_id r)), (''saleId'', JStr (si_sale r)), (''productId'', JStr (si_product r)),
      (''quantity'', jint (si_quantity r)), (''unitPrice'', JStr (ds (si_unitPrice r))),
      (''costPrice'', JStr (ds (si_costPrice r))), (''discount'', JStr (ds (si_discount r))),
      (''subtotal'', JStr (ds (si_subtotal r))), (''total'', JStr (ds (si_total r))),
      (''margin'', JStr (ds (si_margin r))), (''createdAt'', JDate (si_createdAt r))]"

definition payment_entity :: "(decimal \<Rightarrow> string) \<Rightarrow> payment_row \<Rightarrow> json" where
  "payment_entity ds r = JObj
     [(''id'', JStr (pm_id r)), (''saleId'', JStr (pm_sale r)), (''method'', JStr (method_name (pm_method r))),
      (''amount'', JStr (ds (pm_amount r))), (''reference'', jopt JStr (pm_reference r)), (''createdAt'', JDate (pm_createdAt r))]"

definition receipt_entity :: "receipt_row \<Rightarrow> json" where
  "receipt_entity r = JObj
     [(''id'', JStr (rc_id r)), (''receiptNumber'', JStr (rc_number r)), (''saleId'', JStr (rc_sale r)),
      (''status'', JStr (rc_status r)), (''printed'', JBool (rc_printed r)), (''emailed'', JBool (rc_emailed r)),
      (''pdfUrl'', jopt JStr (rc_pdfUrl r)), (''qrCode'', jopt JStr (rc_qrCode r)), (''createdAt'', JDate (rc_createdAt r))]"

definition sale_entity ::
  "(decimal \<Rightarrow> string) \<Rightarrow> sale_row \<Rightarrow> sale_item_row list \<Rightarrow> payment_row list \<Rightarrow> receipt_row list \<Rightarrow> json" where
  "sale_entity ds r items payments receipts = JObj
     [(''id'', JStr (sa_id r)), (''companyId'', JStr (sa_company r)), (''warehouseId'', JStr (sa_warehouse r)),
      (''cashierId'', JStr (sa_cashier r)), (''customerId'', jopt JStr (sa_customer r)), (''saleNumber'', JStr (sa_number r)),
      (''status'', JStr (sale_status_name (sa_status r))), (''subtotal'', JStr (ds (sa_subtotal r))),
      (''discount'', JStr (ds (sa_discount r))), (''tax'', JStr (ds (sa_tax r))), (''total'', JStr (ds (sa_total r))),
      (''paidAmount'', JStr (ds (sa_paid r))), (''changeAmount'', JStr (ds (sa_change r))), (''currency'', JStr (sa_currency r)),
      (''notes'', jopt JStr (sa_notes r)), (''rowVersion'', jint (sa_version r)), (''createdAt'', JDate (sa_createdAt r)),
      (''deletedAt'', jopt JDate (sa_deleted r)), (''items'', JArr (map (item_entity ds) items)),
      (''payments'', JArr (map (payment_entity ds) payments)), (''receipts'', JArr (map receipt_entity receipts))]"

text \<open>A sale with what \<^verbatim>\<open>saleInclude\<close> reads of it.\<close>

definition sale_view :: "sale_row \<Rightarrow> json wtx" where
  "sale_view r = ask (\<lambda>w. sale_entity (dec_str w) r
     (sort_key si_createdAt (find_many (\<lambda>i. si_sale i = sa_id r) (t_sale_item w)))
     (find_many (\<lambda>p. pm_sale p = sa_id r) (t_payment w)) (find_many (\<lambda>x. rc_sale x = sa_id r) (t_receipt w)))"

section \<open>Creating a sale\<close>

record item_dto =
  ni_product :: string
  ni_quantity :: int
  ni_unitPrice :: decimal
  ni_costPrice :: "decimal option"
  ni_discount :: "decimal option"

record sale_dto =
  nd_warehouse :: string
  nd_customer :: "string option"
  nd_number :: "string option"
  nd_currency :: "string option"
  nd_notes :: "string option"
  nd_items :: "item_dto list"
  nd_payments :: "payment_dto list"

text \<open>\<^verbatim>\<open>toDecimal\<close>: an absent amount is zero.\<close>

definition to_decimal :: "decimal option \<Rightarrow> decimal" where
  "to_decimal v = (case v of None \<Rightarrow> 0 | Some x \<Rightarrow> x)"

definition price_item :: "item_dto \<Rightarrow> product_row \<Rightarrow> item_data" where
  "price_item i product =
     (let qty = of_int (ni_quantity i);
          unitPrice = ni_unitPrice i;
          costPrice = to_decimal (case ni_costPrice i of None \<Rightarrow> pr_costPrice product | Some x \<Rightarrow> Some x);
          itemDiscount = to_decimal (ni_discount i);
          itemSubtotal = unitPrice * qty;
          itemTotal = itemSubtotal - itemDiscount;
          margin = itemTotal - costPrice * qty in
      \<lparr>it_product = ni_product i, it_quantity = ni_quantity i, it_unitPrice = unitPrice, it_costPrice = costPrice,
       it_discount = itemDiscount, it_subtotal = itemSubtotal, it_total = itemTotal, it_margin = margin\<rparr>)"

definition sellable_product :: "string \<Rightarrow> string \<Rightarrow> product_row \<Rightarrow> bool" where
  "sellable_product c i r \<longleftrightarrow> pr_id r = i \<and> pr_company r = c \<and> pr_deleted r = None \<and> pr_active r"

primrec price_items :: "string \<Rightarrow> item_dto list \<Rightarrow> item_data list wtx" where
  "price_items c [] = ret []"
| "price_items c (i # is) =
     bind (ask (\<lambda>w. find_first (sellable_product c (ni_product i)) (t_product w))) (\<lambda>found.
     bind (require_some found (NotFound ''Product not found'')) (\<lambda>product.
     bind (price_items c is) (\<lambda>rest. ret (price_item i product # rest))))"

definition priced_sale :: "sale_dto \<Rightarrow> string \<Rightarrow> string \<Rightarrow> string \<Rightarrow> string \<Rightarrow> item_data list \<Rightarrow> sale_data" where
  "priced_sale d user c number currency items =
     (let subtotal = (\<Sum>i\<leftarrow>items. it_subtotal i); totalDiscount = (\<Sum>i\<leftarrow>items. it_discount i);
          total = subtotal - totalDiscount;
          paid = (\<Sum>p\<leftarrow>nd_payments d. np_amount p) in
      \<lparr>sn_company = c, sn_warehouse = nd_warehouse d, sn_cashier = user, sn_customer = truthy (nd_customer d),
       sn_number = number, sn_currency = currency, sn_notes = nd_notes d, sn_subtotal = subtotal,
       sn_discount = totalDiscount, sn_total = total, sn_paid = paid,
       sn_change = (if total < paid then paid - total else 0)\<rparr>)"

text \<open>The work of \<^verbatim>\<open>create\<close>, with the number it is given or has drawn.\<close>

definition create_work :: "sale_dto \<Rightarrow> string \<Rightarrow> string \<Rightarrow> string \<Rightarrow> json wtx" where
  "create_work d user c number =
     bind (ask (\<lambda>w. find_first (\<lambda>r. wh_id r = nd_warehouse d \<and> wh_company r = c \<and> wh_deleted r = None \<and> wh_active r) (t_warehouse w))) (\<lambda>warehouse.
     bind (require (warehouse \<noteq> None) (NotFound ''Warehouse not found'')) (\<lambda>_.
     bind (case truthy (nd_customer d) of
         None \<Rightarrow> ret ()
       | Some k \<Rightarrow> bind (ask (\<lambda>w. find_first (\<lambda>r. cu_id r = k \<and> cu_company r = c \<and> cu_deleted r = None) (t_customer w))) (\<lambda>customer.
           require (customer \<noteq> None) (NotFound ''Customer not found''))) (\<lambda>_.
     bind (price_items c (nd_items d)) (\<lambda>items.
     bind (require (\<not> (\<Sum>p\<leftarrow>nd_payments d. np_amount p) < (\<Sum>i\<leftarrow>items. it_subtotal i) - (\<Sum>i\<leftarrow>items. it_discount i))
       (BadRequest ''Insufficient payment'')) (\<lambda>_.
     bind (get_base_currency c) (\<lambda>companyCurrency.
     bind (require (case truthy (nd_currency d) of None \<Rightarrow> True | Some x \<Rightarrow> x = companyCurrency)
       (BadRequest ''Currency does not match company currency'')) (\<lambda>_.
     bind (create_sale_row (priced_sale d user c number companyCurrency items) items (nd_payments d)) sale_view)))))))"

definition item_json :: "item_dto \<Rightarrow> json" where
  "item_json i = JObj ([(''productId'', JStr (ni_product i)), (''quantity'', jint (ni_quantity i)), (''unitPrice'', JNum (ni_unitPrice i))] @
     (case ni_costPrice i of None \<Rightarrow> [] | Some x \<Rightarrow> [(''costPrice'', JNum x)]) @
     (case ni_discount i of None \<Rightarrow> [] | Some x \<Rightarrow> [(''discount'', JNum x)]))"

definition payment_json :: "payment_dto \<Rightarrow> json" where
  "payment_json p = JObj ([(''method'', JStr (method_name (np_method p))), (''amount'', JNum (np_amount p))] @
     (case np_reference p of None \<Rightarrow> [] | Some x \<Rightarrow> [(''reference'', JStr x)]))"

definition sale_request :: "sale_dto \<Rightarrow> string \<Rightarrow> json" where
  "sale_request d user = JObj [(''userId'', JStr user), (''body'', JObj ([(''warehouseId'', JStr (nd_warehouse d))] @
     (case nd_customer d of None \<Rightarrow> [] | Some s \<Rightarrow> [(''customerId'', JStr s)]) @
     (case nd_number d of None \<Rightarrow> [] | Some s \<Rightarrow> [(''saleNumber'', JStr s)]) @
     (case nd_currency d of None \<Rightarrow> [] | Some s \<Rightarrow> [(''currency'', JStr s)]) @
     (case nd_notes d of None \<Rightarrow> [] | Some s \<Rightarrow> [(''notes'', JStr s)]) @
     [(''items'', JArr (map item_json (nd_items d))), (''payments'', JArr (map payment_json (nd_payments d)))]))]"

text \<open>
  Whether the work of a keyed mutation is going to run: always without a key, and with one when its
  reservation is won.
\<close>

definition starts_work :: "string \<Rightarrow> string option \<Rightarrow> string \<Rightarrow> json \<Rightarrow> world \<Rightarrow> bool" where
  "starts_work c key endpoint payload w = (case truthy key of
       None \<Rightarrow> True
     | Some k \<Rightarrow>
         (case fst (reserve reserve_fuel \<lparr>rp_company = c, rp_key = k, rp_endpoint = endpoint, rp_hash = hash_request w payload,
             rp_expires = None, rp_now = None\<rparr> w) of
            Inr (Created _) \<Rightarrow> True
          | _ \<Rightarrow> False))"

text \<open>
  \<^verbatim>\<open>create\<close>. The first thing the work does is to draw the number, on another connection; before it the
  transaction has only written its reservation, which the counter does not depend on, so the number is
  drawn here first and survives a failure.
\<close>

definition create_sale :: "sale_dto \<Rightarrow> string \<Rightarrow> string \<Rightarrow> string option \<Rightarrow> (int \<times> json) wtx" where
  "create_sale d user c key =
     bind (ask (starts_work c key ''sales.create'' (sale_request d user))) (\<lambda>starts.
     bind (case nd_number d of
         Some n \<Rightarrow> ret n
       | None \<Rightarrow> if starts then get_next_sale_number c else ret '''') (\<lambda>number.
     run_with_idempotency c key ''sales.create'' (sale_request d user) 201 (create_work d user c number)))"

section \<open>Completing a sale\<close>

definition VALID_TRANSITIONS :: "sale_status \<Rightarrow> sale_status list" where
  "VALID_TRANSITIONS s = (case s of
       SaleDraft \<Rightarrow> [SalePending, SaleCancelled, SaleCompletedStatus]
     | SalePending \<Rightarrow> [SaleCompletedStatus, SaleCancelled]
     | SaleCompletedStatus \<Rightarrow> [] | SaleRefundedStatus \<Rightarrow> [] | SaleCancelled \<Rightarrow> [] | SalePartiallyRefundedStatus \<Rightarrow> [])"

text \<open>\<^verbatim>\<open>receiptNumber\<close> is \<^verbatim>\<open>@unique\<close> over all companies.\<close>

definition receipt_of :: "string \<Rightarrow> sale_row \<Rightarrow> int \<Rightarrow> receipt_row" where
  "receipt_of u sale clock =
     \<lparr>rc_id = u, rc_number = ''RCP-'' @ sa_number sale, rc_sale = sa_id sale, rc_status = ''DRAFT'', rc_printed = False,
      rc_emailed = False, rc_pdfUrl = None, rc_qrCode = None, rc_createdAt = clock\<rparr>"

definition insert_receipt :: "sale_row \<Rightarrow> unit wtx" where
  "insert_receipt sale =
     bind (ask (\<lambda>w. find_first (\<lambda>r. rc_number r = ''RCP-'' @ sa_number sale) (t_receipt w))) (\<lambda>clash.
     bind (require (clash = None) (UniqueViolation [''receiptNumber''])) (\<lambda>_.
     bind fresh_uuid (\<lambda>u. change (\<lambda>w. w\<lparr>t_receipt := t_receipt w @ [receipt_of u sale (now w)]\<rparr>))))"

text \<open>The buckets of the shift grow by the allocation, cash net of change.\<close>

definition add_sale_to_shift :: "shift_alloc \<Rightarrow> sale_row \<Rightarrow> shift_row \<Rightarrow> shift_row \<Rightarrow> shift_row" where
  "add_sale_to_shift a sale s r =
     r\<lparr>cs_cashSales := round4 (cs_cashSales s + (sl_cash a - sa_change sale)), cs_cardSales := round4 (cs_cardSales s + sl_card a),
       cs_qrSales := round4 (cs_qrSales s + sl_qr a), cs_bankSales := round4 (cs_bankSales s + sl_bank a),
       cs_mobileSales := round4 (cs_mobileSales s + sl_mobile a), cs_totalSales := round4 (cs_totalSales s + sa_total sale)\<rparr>"

definition link_shift :: "sale_row \<Rightarrow> string \<Rightarrow> string \<Rightarrow> string option wtx" where
  "link_shift sale user c =
     bind (find_open_shift (sa_warehouse sale) user c) (\<lambda>found.
     case found of
       None \<Rightarrow> ret None
     | Some s \<Rightarrow>
         bind (require (cs_currency s = sa_currency sale) (BadRequest ''Sale currency does not match shift currency'')) (\<lambda>_.
         bind (payments_of (sa_id sale)) (\<lambda>payments.
         bind (allocate_shift_sales payments) (\<lambda>a.
         bind (update_shift (cs_id s) (add_sale_to_shift a sale s) c (cs_version s)) (\<lambda>_.
         ret (Some (cs_id s)))))))"

definition payment_event_of :: "payment_row \<Rightarrow> payment_event" where
  "payment_event_of p = \<lparr>pe_method = pm_method p, pe_amount = pm_amount p\<rparr>"

definition item_event_of :: "sale_item_row \<Rightarrow> sale_item_event" where
  "item_event_of i =
     \<lparr>se_product = si_product i, se_quantity = si_quantity i, se_unitPrice = si_unitPrice i, se_costPrice = si_costPrice i,
      se_discount = si_discount i, se_subtotal = si_subtotal i, se_total = si_total i, se_margin = si_margin i,
      se_saleItem = Some (si_id i)\<rparr>"

definition completed_payload :: "sale_row \<Rightarrow> string \<Rightarrow> string \<Rightarrow> sale_item_row list \<Rightarrow> payment_row list \<Rightarrow> sale_payload" where
  "completed_payload sale user c items payments =
     \<lparr>sp_sale = sa_id sale, sp_company = c, sp_warehouse = sa_warehouse sale, sp_cashier = user, sp_customer = sa_customer sale,
      sp_number = sa_number sale, sp_subtotal = sa_subtotal sale, sp_discount = sa_discount sale, sp_total = sa_total sale,
      sp_paid = sa_paid sale, sp_change = sa_change sale, sp_currency = sa_currency sale,
      sp_items = map item_event_of items, sp_payments = map payment_event_of payments\<rparr>"

definition completed_audit :: "sale_row \<Rightarrow> string \<Rightarrow> string \<Rightarrow> unit wtx" where
  "completed_audit sale user c =
     bind (ask dec_str) (\<lambda>ds.
     audit_log \<lparr>au_company = Some c, au_user = user, au_entity = ''Sale'', au_entityId = sa_id sale, au_action = ''COMPLETED'',
       au_before = None, au_after = Some (JObj [(''status'', JStr ''COMPLETED''), (''saleNumber'', JStr (sa_number sale)),
         (''total'', JStr (ds (sa_total sale)))])\<rparr>)"

text \<open>
  \<^verbatim>\<open>completeSale\<close>. The items go out in the order of their ids: PostgreSQL compares UUIDs as the strings
  of their lower-case digits compare.
\<close>

definition complete_sale :: "event_bus \<Rightarrow> sale_row \<Rightarrow> string \<Rightarrow> string \<Rightarrow> string option wtx" where
  "complete_sale bus sale user c =
     bind (ask (\<lambda>w. sort_key si_id (find_many (\<lambda>i. si_sale i = sa_id sale) (t_sale_item w)))) (\<lambda>items.
     bind (insert_receipt sale) (\<lambda>_.
     bind (link_shift sale user c) (\<lambda>shift.
     bind (payments_of (sa_id sale)) (\<lambda>payments.
     bind (credit_spend \<lparr>cc_company = c, cc_sale = sa_id sale, cc_customer = sa_customer sale, cc_currency = sa_currency sale, cc_by = user\<rparr>
       (map payment_event_of payments)) (\<lambda>_.
     bind fresh_uuid (\<lambda>eventId.
     bind (publish_event bus (SaleCompleted eventId (completed_payload sale user c items payments))) (\<lambda>_.
     bind (completed_audit sale user c) (\<lambda>_.
     ret shift))))))))"

definition transition_work :: "event_bus \<Rightarrow> string \<Rightarrow> sale_status \<Rightarrow> string \<Rightarrow> string \<Rightarrow> json wtx" where
  "transition_work bus i newStatus user c =
     bind (find_sale i c) (\<lambda>found.
     bind (require_some found (NotFound ''Sale not found'')) (\<lambda>sale.
     bind (require (\<not> (newStatus = SaleRefundedStatus \<or> newStatus = SalePartiallyRefundedStatus))
       (BadRequest ''Refund status is derived from the refund workflow'')) (\<lambda>_.
     bind (require (newStatus \<in> set (VALID_TRANSITIONS (sa_status sale))) (BadRequest ''Cannot transition'')) (\<lambda>_.
     bind (if newStatus = SaleCompletedStatus then complete_sale bus sale user c else ret None) (\<lambda>cashShiftId.
     bind (update_sale_row i (\<lambda>r. r\<lparr>sa_status := newStatus\<rparr>) (map_option ConnectShift (truthy cashShiftId)) c (sa_version sale))
       sale_view)))))"

definition transition_endpoint :: "sale_status \<Rightarrow> string" where
  "transition_endpoint st = (if st = SaleCompletedStatus then ''sales.complete'' else if st = SaleCancelled then ''sales.cancel''
     else ''sales.status'')"

definition transition_status :: "event_bus \<Rightarrow> string \<Rightarrow> sale_status \<Rightarrow> string \<Rightarrow> string \<Rightarrow> string option \<Rightarrow> (int \<times> json) wtx" where
  "transition_status bus i newStatus user c key =
     run_with_idempotency c key (transition_endpoint newStatus)
       (JObj [(''userId'', JStr user), (''saleId'', JStr i), (''body'', JObj [(''status'', JStr (sale_status_name newStatus))])]) 200
       (transition_work bus i newStatus user c)"

section \<open>Editing, deleting, reading\<close>

record sale_edit =
  ed_customer :: "string option"
  ed_notes :: "string option"
  ed_currency :: "string option"

definition edit_columns :: "sale_edit \<Rightarrow> sale_row \<Rightarrow> sale_row" where
  "edit_columns d r =
     (let r = (case ed_notes d of None \<Rightarrow> r | Some s \<Rightarrow> r\<lparr>sa_notes := Some s\<rparr>) in
      case ed_currency d of None \<Rightarrow> r | Some s \<Rightarrow> r\<lparr>sa_currency := s\<rparr>)"

definition update_draft :: "string \<Rightarrow> sale_edit \<Rightarrow> string \<Rightarrow> json wtx" where
  "update_draft i d c = transaction (
     bind (find_sale i c) (\<lambda>found.
     bind (require_some found (NotFound ''Sale not found'')) (\<lambda>existing.
     bind (require (sa_status existing = SaleDraft) (BadRequest ''Only DRAFT sales can be edited'')) (\<lambda>_.
     bind (get_base_currency c) (\<lambda>companyCurrency.
     bind (require (case ed_currency d of None \<Rightarrow> True | Some x \<Rightarrow> x = companyCurrency)
       (BadRequest ''Currency does not match company currency'')) (\<lambda>_.
     bind (update_sale_row i (edit_columns d)
       (map_option (\<lambda>k. if k = '''' then DisconnectCustomer else ConnectCustomer k) (ed_customer d)) c (sa_version existing))
       sale_view))))))"

definition soft_delete_sale :: "string \<Rightarrow> string \<Rightarrow> unit wtx" where
  "soft_delete_sale i c =
     bind (find_sale i c) (\<lambda>found.
     bind (require_some found (NotFound ''Sale not found'')) (\<lambda>existing.
     bind (require (sa_status existing = SaleDraft) (BadRequest ''Only DRAFT sales can be deleted'')) (\<lambda>_.
     bind (repo_soft_delete_sale i c (sa_version existing)) (\<lambda>_. ret ()))))"

definition find_sale_by_id :: "string \<Rightarrow> string \<Rightarrow> json wtx" where
  "find_sale_by_id i c = bind (find_sale i c) (\<lambda>found. bind (require_some found (NotFound ''Sale not found'')) sale_view)"

text \<open>\<^verbatim>\<open>getReceipt\<close>: the sale, with its receipts.\<close>

definition get_receipt :: "string \<Rightarrow> string \<Rightarrow> json wtx" where
  "get_receipt i c = bind (find_sale i c) (\<lambda>found. bind (require_some found (NotFound ''Sale not found'')) sale_view)"

text \<open>
  \<^verbatim>\<open>findAll\<close>. Two arguments stand for PostgreSQL: \<open>ilike\<close>, the case-insensitive \<^verbatim>\<open>contains\<close>, and \<open>ordered\<close>, the
  sort by the requested column and direction.
\<close>

record sale_query =
  sq_search :: "string option"
  sq_warehouse :: "string option"
  sq_cashier :: "string option"
  sq_customer :: "string option"
  sq_status :: "sale_status option"
  sq_method :: "payment_method option"
  sq_from :: "int option"
  sq_to :: "int option"
  sq_page :: "int option"
  sq_limit :: "int option"
  sq_sortBy :: "string option"
  sq_sortOrder :: "string option"

definition sale_query_hit :: "(string \<Rightarrow> string \<Rightarrow> bool) \<Rightarrow> string \<Rightarrow> sale_query \<Rightarrow> world \<Rightarrow> sale_row \<Rightarrow> bool" where
  "sale_query_hit ilike c q w r \<longleftrightarrow> sa_company r = c \<and> sa_deleted r = None \<and>
     (case truthy (sq_search q) of None \<Rightarrow> True | Some s \<Rightarrow> ilike s (sa_number r)) \<and>
     (case truthy (sq_warehouse q) of None \<Rightarrow> True | Some s \<Rightarrow> sa_warehouse r = s) \<and>
     (case truthy (sq_cashier q) of None \<Rightarrow> True | Some s \<Rightarrow> sa_cashier r = s) \<and>
     (case truthy (sq_customer q) of None \<Rightarrow> True | Some s \<Rightarrow> sa_customer r = Some s) \<and>
     (case sq_status q of None \<Rightarrow> True | Some s \<Rightarrow> sa_status r = s) \<and>
     (case sq_from q of None \<Rightarrow> True | Some t \<Rightarrow> t \<le> sa_createdAt r) \<and>
     (case sq_to q of None \<Rightarrow> True | Some t \<Rightarrow> sa_createdAt r \<le> t) \<and>
     (case sq_method q of None \<Rightarrow> True | Some m \<Rightarrow> \<exists>p \<in> set (t_payment w). pm_sale p = sa_id r \<and> pm_method p = m)"

definition repo_find_all ::
  "(string \<Rightarrow> string \<Rightarrow> bool) \<Rightarrow> (string \<Rightarrow> string \<Rightarrow> sale_row list \<Rightarrow> sale_row list) \<Rightarrow> string \<Rightarrow> sale_query \<Rightarrow> int \<Rightarrow> int \<Rightarrow>
     (sale_row list \<times> nat) wtx" where
  "repo_find_all ilike ordered c q page limit = ask (\<lambda>w.
     let hits = find_many (sale_query_hit ilike c q w) (t_sale w);
         sortBy = (case sq_sortBy q of None \<Rightarrow> ''createdAt'' | Some s \<Rightarrow> s);
         sortOrder = (case sq_sortOrder q of None \<Rightarrow> ''desc'' | Some s \<Rightarrow> s) in
     (take (nat limit) (drop (nat ((page - 1) * limit)) (ordered sortBy sortOrder hits)), length hits))"

primrec sale_views :: "sale_row list \<Rightarrow> json list wtx" where
  "sale_views [] = ret []"
| "sale_views (r # rs) = bind (sale_view r) (\<lambda>j. bind (sale_views rs) (\<lambda>js. ret (j # js)))"

definition find_all_sales ::
  "(string \<Rightarrow> string \<Rightarrow> bool) \<Rightarrow> (string \<Rightarrow> string \<Rightarrow> sale_row list \<Rightarrow> sale_row list) \<Rightarrow> sale_query \<Rightarrow> string \<Rightarrow>
     (json list \<times> nat \<times> int \<times> int) wtx" where
  "find_all_sales ilike ordered q c =
     (let page = (case sq_page q of None \<Rightarrow> 1 | Some p \<Rightarrow> p); limit = (case sq_limit q of None \<Rightarrow> 20 | Some l \<Rightarrow> l) in
      bind (require (\<not> (page < 1 \<or> limit < 1)) (BadRequest ''Page and limit must be positive'')) (\<lambda>_.
      bind (repo_find_all ilike ordered c q page limit) (\<lambda>(rows, n).
      bind (sale_views rows) (\<lambda>js. ret (js, n, page, limit)))))"

section \<open>What the operations write\<close>

text \<open>Rows inserted one by one take consecutive identifiers.\<close>

primrec numbered :: "(nat \<Rightarrow> string) \<Rightarrow> (string \<Rightarrow> 'd \<Rightarrow> 'r) \<Rightarrow> nat \<Rightarrow> 'd list \<Rightarrow> 'r list" where
  "numbered g f n [] = []"
| "numbered g f n (d # ds) = f (g n) d # numbered g f (Suc n) ds"

lemma length_numbered [simp]: "length (numbered g f n ds) = length ds"
  by (induction ds arbitrary: n) simp_all

lemma map_numbered: "(\<And>u d. h (f u d) = k d) \<Longrightarrow> map h (numbered g f n ds) = map k ds"
  by (induction ds arbitrary: n) simp_all

lemma numbered_ids: "(\<And>u d. h (f u d) = u) \<Longrightarrow> map h (numbered g f n ds) = map g [n..<n + length ds]"
proof (induction ds arbitrary: n)
  case (Cons d ds)
  have "[n..<n + length (d # ds)] = n # [Suc n..<Suc n + length ds]" by (subst upt_conv_Cons) simp_all
  with Cons show ?case by (simp del: upt_Suc)
qed simp

lemma set_numbered: "r \<in> set (numbered g f n ds) \<Longrightarrow> \<exists>k d. n \<le> k \<and> k < n + length ds \<and> d \<in> set ds \<and> r = f (g k) d"
proof (induction ds arbitrary: n)
  case (Cons d ds)
  then consider "r = f (g n) d" | "r \<in> set (numbered g f (Suc n) ds)" by auto
  then show ?case
  proof cases
    case 1
    then show ?thesis by (intro exI [of _ n] exI [of _ d]) simp
  next
    case 2
    from Cons.IH [OF this] obtain k x where "Suc n \<le> k" "k < Suc n + length ds" "x \<in> set ds" "r = f (g k) x" by blast
    then show ?thesis by (intro exI [of _ k] exI [of _ x]) simp
  qed
qed simp

lemma insert_items_run:
  "for_each ds (insert_item s) w = (Inr (), w\<lparr>uuid_next := uuid_next w + length ds,
     t_sale_item := t_sale_item w @ numbered (uuid_gen w) (\<lambda>u. item_of u s (now w)) (uuid_next w) ds\<rparr>)"
  by (induction ds arbitrary: w) (simp_all add: insert_item_def)

lemma insert_payments_run:
  "for_each ds (insert_payment s) w = (Inr (), w\<lparr>uuid_next := uuid_next w + length ds,
     t_payment := t_payment w @ numbered (uuid_gen w) (\<lambda>u. payment_of u s (now w)) (uuid_next w) ds\<rparr>)"
  by (induction ds arbitrary: w) (simp_all add: insert_payment_def)

definition with_sale :: "sale_data \<Rightarrow> item_data list \<Rightarrow> payment_dto list \<Rightarrow> world \<Rightarrow> world" where
  "with_sale d items payments w =
     (let u = uuid_gen w (uuid_next w) in
      w\<lparr>uuid_next := Suc (uuid_next w) + length items + length payments, t_sale := t_sale w @ [sale_of u (now w) d],
        t_sale_item := t_sale_item w @ numbered (uuid_gen w) (\<lambda>x. item_of x u (now w)) (Suc (uuid_next w)) items,
        t_payment := t_payment w @ numbered (uuid_gen w) (\<lambda>x. payment_of x u (now w)) (Suc (uuid_next w) + length items) payments\<rparr>)"

lemma create_sale_row_run:
  "create_sale_row d items payments w =
     (if find_first (\<lambda>r. sa_company r = sn_company d \<and> sa_number r = sn_number d) (t_sale w) = None
      then (Inr (sale_of (uuid_gen w (uuid_next w)) (now w) d), with_sale d items payments w)
      else (Inl (Conflict ''Sale number already exists. Please refresh and retry.''), w))"
  by (simp add: create_sale_row_def insert_sale_def sale_number_conflict_def insert_items_run insert_payments_run with_sale_def Let_def
      bind_def catch_def)

definition priced :: "world \<Rightarrow> string \<Rightarrow> item_dto \<Rightarrow> item_data \<Rightarrow> bool" where
  "priced w c i d \<longleftrightarrow> (\<exists>p \<in> set (t_product w). sellable_product c (ni_product i) p \<and> d = price_item i p)"

lemma price_items_Inr: "price_items c is w = (Inr items, w') \<Longrightarrow> w' = w \<and> list_all2 (priced w c) is items"
proof (induction "is" arbitrary: items)
  case (Cons i "is")
  then obtain p rest where "find_first (sellable_product c (ni_product i)) (t_product w) = Some p"
    and rest: "price_items c is w = (Inr rest, w')" "items = price_item i p # rest"
    by (auto simp: bind_Inr_iff split: option.splits)
  then have "p \<in> set (t_product w) \<and> sellable_product c (ni_product i) p" using find_first_SomeD by fastforce
  with Cons.IH [OF rest(1)] rest(2) show ?case by (auto simp: priced_def)
qed simp

lemma create_work_Inr:
  assumes "create_work d user c number w = (Inr b, w')"
  obtains items currency where "list_all2 (priced w c) (nd_items d) items"
    "(\<Sum>i\<leftarrow>items. it_subtotal i) - (\<Sum>i\<leftarrow>items. it_discount i) \<le> (\<Sum>p\<leftarrow>nd_payments d. np_amount p)"
    "\<forall>r \<in> set (t_sale w). \<not> (sa_company r = c \<and> sa_number r = number)"
    "w' = with_sale (priced_sale d user c number currency items) items (nd_payments d) w"
proof -
  have pure: "(case v of None \<Rightarrow> ret () | Some k \<Rightarrow> bind (ask (h k)) (\<lambda>x. require (q x) e)) w = (Inr u, w1) \<Longrightarrow> w1 = w"
    for v h and q :: "customer_row option \<Rightarrow> bool" and e u w1
    by (cases v) (auto split: if_splits)
  from assms obtain items cur row w1 where P: "price_items c (nd_items d) w = (Inr items, w)"
    "\<not> (\<Sum>p\<leftarrow>nd_payments d. np_amount p) < (\<Sum>i\<leftarrow>items. it_subtotal i) - (\<Sum>i\<leftarrow>items. it_discount i)"
    "create_sale_row (priced_sale d user c number cur items) items (nd_payments d) w = (Inr row, w')"
    unfolding create_work_def bind_Inr_iff
    by (auto simp: get_base_currency_def sale_view_def split: if_splits dest!: pure dest: price_items_Inr)
  show ?thesis
  proof (rule that [of items cur])
    show "list_all2 (priced w c) (nd_items d) items" using price_items_Inr [OF P(1)] by simp
    show "\<forall>r \<in> set (t_sale w). \<not> (sa_company r = c \<and> sa_number r = number)"
      and "w' = with_sale (priced_sale d user c number cur items) items (nd_payments d) w"
      using P(3) by (auto simp: create_sale_row_run find_first_None_iff priced_sale_def Let_def split: if_splits)
  qed (use P(2) in simp)
qed

section \<open>The runs that change a sale\<close>

definition cash_part :: "payment_row list \<Rightarrow> decimal" where
  "cash_part ps = (\<Sum>p\<leftarrow>ps. if pm_method p = CASH then pm_amount p else 0)"

lemma allocate_loop_cash: "allocate_loop ps a w = (Inr b, w') \<Longrightarrow> sl_cash b = sl_cash a + cash_part ps"
proof (induction ps arbitrary: a)
  case (Cons p ps)
  then obtain x where x: "add_payment (pm_method p) (pm_amount p) a = Some x" "allocate_loop ps x w = (Inr b, w')"
    by (auto simp: bind_Inr_iff split: option.splits)
  from x(1) have "sl_cash x = sl_cash a + (if pm_method p = CASH then pm_amount p else 0)"
    by (cases "pm_method p") (auto simp: add_payment_def)
  with Cons.IH [OF x(2)] show ?case by (simp add: cash_part_def)
qed (simp add: cash_part_def)

lemma allocate_cash: "allocate_shift_sales ps w = (Inr a, w') \<Longrightarrow> sl_cash a = cash_part ps"
  using allocate_loop_cash [of ps empty_alloc w a w'] by (simp add: allocate_shift_sales_def empty_alloc_def)

definition bumped_shift :: "(shift_row \<Rightarrow> shift_row) \<Rightarrow> shift_row \<Rightarrow> shift_row" where
  "bumped_shift f r = (f r)\<lparr>cs_version := cs_version (f r) + 1\<rparr>"

definition bumped_sale :: "(sale_row \<Rightarrow> sale_row) \<Rightarrow> sale_row \<Rightarrow> sale_row" where
  "bumped_sale f r = (f r)\<lparr>sa_version := sa_version (f r) + 1\<rparr>"

abbreviation payments_in :: "world \<Rightarrow> string \<Rightarrow> payment_row list" where
  "payments_in w sale \<equiv> find_many (\<lambda>p. pm_sale p = sale) (t_payment w)"

text \<open>A sale joins the cashier's open shift, or there is none.\<close>

lemma link_shift_Inr:
  assumes "link_shift sale user c w = (Inr x, w')" and ids: "distinct (map cs_id (t_shift w))"
  obtains (no_shift) "x = None" "w' = w"
  | (joined) s a where "s \<in> set (t_shift w)" "cs_status s = ShiftOpen" "cs_company s = c" "x = Some (cs_id s)"
      "cs_currency s = sa_currency sale" "allocate_shift_sales (payments_in w (sa_id sale)) w = (Inr a, w)"
      "w' = w\<lparr>t_shift := update_rows (\<lambda>r. cs_id r = cs_id s) (bumped_shift (add_sale_to_shift a sale s)) (t_shift w)\<rparr>"
proof -
  obtain found where f: "find_open_shift (sa_warehouse sale) user c w = (Inr found, w)" by (simp add: find_open_shift_def)
  show ?thesis
  proof (cases found)
    case None
    with assms(1) f no_shift show ?thesis by (simp add: link_shift_def)
  next
    case (Some s)
    with f find_open_shift_Inr have s: "s \<in> set (t_shift w)" "cs_company s = c" "cs_status s = ShiftOpen" by blast+
    from assms(1) f Some obtain a v r where a: "allocate_shift_sales (payments_in w (sa_id sale)) w = (Inr a, v)"
      and u: "update_shift (cs_id s) (add_sale_to_shift a sale s) c (cs_version s) v = (Inr r, w')" "x = Some (cs_id s)"
      and cur: "cs_currency s = sa_currency sale"
      by (auto simp: link_shift_def bind_Inr_iff split: if_splits)
    have v: "v = w" using allocate_shift_sales_Inr [OF a] by simp
    have "cs_id (add_sale_to_shift a sale s r) = cs_id r" for r by (simp add: add_sale_to_shift_def)
    note U = update_shift_run [OF ids s(1) this]
    from u(1) U v s(2) have
      "w' = w\<lparr>t_shift := update_rows (\<lambda>r. cs_id r = cs_id s) (bumped_shift (add_sale_to_shift a sale s)) (t_shift w)\<rparr>"
      by (simp add: bumped_shift_def [abs_def])
    with s u(2) a v cur show ?thesis by (intro joined) simp_all
  qed
qed

lemma update_sale_run:
  assumes "distinct (map sa_id (t_sale w))" and "s \<in> set (t_sale w)" and f: "\<And>r. sa_id (f r) = sa_id r"
  shows "update_sale (sa_id s) f (sa_company s) (sa_version s) w =
    (Inr (bumped_sale f s), w\<lparr>t_sale := update_rows (\<lambda>r. sa_id r = sa_id s) (bumped_sale f) (t_sale w)\<rparr>)"
  unfolding update_sale_def
  by (subst cas_write_here [where rows = t_sale and rid = sa_id and r = s, OF assms(1,2)]; cases w)
     (simp_all add: f bump_ver_def [abs_def] bumped_sale_def [abs_def])

definition related :: "sale_relation option \<Rightarrow> sale_row \<Rightarrow> sale_row" where
  "related rel r = (case rel of
       None \<Rightarrow> r
     | Some (ConnectShift s) \<Rightarrow> r\<lparr>sa_shift := Some s\<rparr>
     | Some (ConnectCustomer k) \<Rightarrow> r\<lparr>sa_customer := Some k\<rparr>
     | Some DisconnectCustomer \<Rightarrow> r\<lparr>sa_customer := None\<rparr>)"

lemma related_None [simp]: "related None r = r"
  by (simp add: related_def)

lemma related_id [simp]: "sa_id (related rel r) = sa_id r"
  by (simp add: related_def split: option.split sale_relation.split)

lemma bumped_sale_id [simp]: "sa_id (bumped_sale f r) = sa_id (f r)"
  by (simp add: bumped_sale_def)

lemma update_rows_twice:
  "(\<And>r. k (f r) = k r) \<Longrightarrow> update_rows (\<lambda>r. k r = i) g (update_rows (\<lambda>r. k r = i) f t) = update_rows (\<lambda>r. k r = i) (\<lambda>r. g (f r)) t"
  by (induction t) simp_all

lemma apply_relation_Inr:
  "apply_relation i x w = (Inr u, w') \<Longrightarrow> w' = w\<lparr>t_sale := update_rows (\<lambda>r. sa_id r = i) (related (Some x)) (t_sale w)\<rparr>"
  by (cases x) (auto simp: apply_relation_def related_def [abs_def] bind_Inr_iff split: if_splits)

lemma update_sale_row_Inr:
  assumes "update_sale_row (sa_id s) f rel (sa_company s) (sa_version s) w = (Inr r, w')"
    and ids: "distinct (map sa_id (t_sale w))" and s: "s \<in> set (t_sale w)" and f: "\<And>r. sa_id (f r) = sa_id r"
  shows "w' = w\<lparr>t_sale := update_rows (\<lambda>r. sa_id r = sa_id s) (\<lambda>r. related rel (bumped_sale f r)) (t_sale w)\<rparr>"
  using assms(1) update_sale_run [OF ids s f]
  by (cases rel)
     (auto simp: update_sale_row_def bind_Inr_iff update_rows_twice [where k = sa_id] f dest!: apply_relation_Inr split: option.splits)

lemma find_sale_Inr:
  "find_sale i c w = (Inr (Some s), w') \<Longrightarrow> w' = w \<and> s \<in> set (t_sale w) \<and> sa_id s = i \<and> sa_company s = c \<and> sa_deleted s = None"
  by (auto simp: find_sale_def dest!: find_first_SomeD)

lemma insert_receipt_Inr:
  "insert_receipt sale w = (Inr u, w') \<Longrightarrow>
     (\<forall>r \<in> set (t_receipt w). rc_number r \<noteq> ''RCP-'' @ sa_number sale) \<and>
     w' = w\<lparr>uuid_next := Suc (uuid_next w), t_receipt := t_receipt w @ [receipt_of (uuid_gen w (uuid_next w)) sale (now w)]\<rparr>"
  by (auto simp: insert_receipt_def bind_Inr_iff find_first_None_iff split: if_splits)

lemma frame_credit_spend [frame_intros]:
  assumes "\<And>h w. g (t_credit_update h w) = g w" and "\<And>h w. g (uuid_next_update h w) = g w"
  shows "frame g (credit_spend x ps)"
  unfolding credit_spend_def atomic_spend_def insert_with_balance_guard_def insert_credit_def Let_def
  by (intro frame_intros assms)

lemma advances_credit_spend [frame_intros]: "advances (credit_spend x ps)"
  unfolding credit_spend_def atomic_spend_def insert_with_balance_guard_def insert_credit_def Let_def
  by (intro frame_intros) simp_all

end
