(* ===== verification/SalesRefund.thy ===== *)
theory SalesRefund
  imports Sales
begin

text \<open>
  Refunds of a sale: \<^verbatim>\<open>sales-refund/services/sales-refund.service.ts\<close>, its repository and its mapper. A refund
  takes back some or all of the remaining units of a completed sale. The server derives the money and the
  historical cost of each line from the sale item and the facts of the earlier refunds, allocates the money
  to the payment methods, returns customer credit, moves the status of the sale and publishes one of two
  events. A sale refunded in full at once also leaves the buckets of its shift, while the shift is open.
\<close>

section \<open>The repository and the mapper\<close>

record refund_data =
  rn_company :: string
  rn_sale :: string
  rn_warehouse :: string
  rn_number :: string
  rn_total :: decimal
  rn_currency :: string
  rn_reason :: "string option"
  rn_reference :: "string option"
  rn_createdBy :: string

record refund_item_data =
  rj_saleItem :: string
  rj_product :: string
  rj_quantity :: int
  rj_unitPrice :: decimal
  rj_total :: decimal
  rj_fifoCost :: decimal

definition refund_of :: "string \<Rightarrow> int \<Rightarrow> refund_data \<Rightarrow> refund_row" where
  "refund_of u clock d =
     \<lparr>rf_id = u, rf_company = rn_company d, rf_sale = rn_sale d, rf_warehouse = rn_warehouse d, rf_number = rn_number d,
      rf_status = RefundCompleted, rf_total = round4 (rn_total d), rf_currency = rn_currency d, rf_reason = rn_reason d,
      rf_reference = rn_reference d, rf_createdBy = rn_createdBy d, rf_createdAt = clock, rf_deleted = None\<rparr>"

definition refund_item_of :: "string \<Rightarrow> string \<Rightarrow> int \<Rightarrow> refund_item_data \<Rightarrow> refund_item_row" where
  "refund_item_of u refund clock d =
     \<lparr>ri_id = u, ri_refund = refund, ri_saleItem = rj_saleItem d, ri_product = rj_product d, ri_quantity = rj_quantity d,
      ri_unitPrice = round4 (rj_unitPrice d), ri_total = round4 (rj_total d), ri_fifoCost = round4 (rj_fifoCost d),
      ri_createdAt = clock\<rparr>"

primrec insert_refund_items :: "string \<Rightarrow> refund_item_data list \<Rightarrow> refund_item_row list wtx" where
  "insert_refund_items refund [] = ret []"
| "insert_refund_items refund (d # ds) =
     bind fresh_uuid (\<lambda>u.
     bind (ask now) (\<lambda>clock.
     bind (change (\<lambda>w. w\<lparr>t_refund_item := t_refund_item w @ [refund_item_of u refund clock d]\<rparr>)) (\<lambda>_.
     bind (insert_refund_items refund ds) (\<lambda>rows. ret (refund_item_of u refund clock d # rows)))))"

text \<open>\<^verbatim>\<open>create\<close>, under \<^verbatim>\<open>@@unique([companyId, refundNumber])\<close>.\<close>

definition insert_refund :: "refund_data \<Rightarrow> refund_item_data list \<Rightarrow> (refund_row \<times> refund_item_row list) wtx" where
  "insert_refund d items =
     bind (ask (\<lambda>w. find_first (\<lambda>r. rf_company r = rn_company d \<and> rf_number r = rn_number d) (t_refund w))) (\<lambda>clash.
     bind (require (clash = None) (UniqueViolation [''companyId'', ''refundNumber''])) (\<lambda>_.
     bind fresh_uuid (\<lambda>u.
     bind (ask now) (\<lambda>clock.
     bind (change (\<lambda>w. w\<lparr>t_refund := t_refund w @ [refund_of u clock d]\<rparr>)) (\<lambda>_.
     bind (insert_refund_items u items) (\<lambda>rows.
     ret (refund_of u clock d, rows)))))))"

text \<open>\<^verbatim>\<open>refundInclude\<close>: the items of a refund, oldest first.\<close>

definition items_of_refund :: "world \<Rightarrow> string \<Rightarrow> refund_item_row list" where
  "items_of_refund w i = sort_key ri_createdAt (find_many (\<lambda>r. ri_refund r = i) (t_refund_item w))"

definition find_refund :: "string \<Rightarrow> string \<Rightarrow> (refund_row \<times> refund_item_row list) option wtx" where
  "find_refund i c = ask (\<lambda>w. map_option (\<lambda>r. (r, items_of_refund w (rf_id r)))
     (find_first (\<lambda>r. rf_id r = i \<and> rf_company r = c \<and> rf_deleted r = None) (t_refund w)))"

definition find_refunds_of_sale :: "string \<Rightarrow> string \<Rightarrow> (refund_row \<times> refund_item_row list) list wtx" where
  "find_refunds_of_sale sale c = ask (\<lambda>w. map (\<lambda>r. (r, items_of_refund w (rf_id r)))
     (sort_key rf_createdAt (find_many (\<lambda>r. rf_sale r = sale \<and> rf_company r = c \<and> rf_deleted r = None) (t_refund w))))"

record refund_sums =
  rs_units :: int
  rs_cost :: decimal
  rs_money :: decimal

text \<open>The rows of the completed refunds of a sale that \<^verbatim>\<open>groupBy\<close> sums per sale item.\<close>

definition counted_refund :: "string \<Rightarrow> string \<Rightarrow> refund_row \<Rightarrow> bool" where
  "counted_refund sale c r \<longleftrightarrow> rf_sale r = sale \<and> rf_company r = c \<and> rf_status r = RefundCompleted \<and> rf_deleted r = None"

definition refunded_rows :: "world \<Rightarrow> string \<Rightarrow> string \<Rightarrow> string \<Rightarrow> refund_item_row list" where
  "refunded_rows w sale c i =
     find_many (\<lambda>r. ri_saleItem r = i \<and> (\<exists>f \<in> set (t_refund w). rf_id f = ri_refund r \<and> counted_refund sale c f)) (t_refund_item w)"

definition aggregate_completed :: "string \<Rightarrow> string \<Rightarrow> (string \<Rightarrow> refund_sums option) wtx" where
  "aggregate_completed sale c = ask (\<lambda>w i.
     let rows = refunded_rows w sale c i in
     if rows = [] then None
     else Some \<lparr>rs_units = (\<Sum>r\<leftarrow>rows. ri_quantity r), rs_cost = (\<Sum>r\<leftarrow>rows. ri_fifoCost r), rs_money = (\<Sum>r\<leftarrow>rows. ri_total r)\<rparr>)"

definition refund_status_name :: "refund_status \<Rightarrow> string" where
  "refund_status_name s = (case s of RefundCompleted \<Rightarrow> ''COMPLETED'' | RefundCancelled \<Rightarrow> ''CANCELLED'')"

definition refund_item_entity :: "(decimal \<Rightarrow> string) \<Rightarrow> refund_item_row \<Rightarrow> json" where
  "refund_item_entity ds r = JObj
     [(''id'', JStr (ri_id r)), (''salesRefundId'', JStr (ri_refund r)), (''saleItemId'', JStr (ri_saleItem r)),
      (''productId'', JStr (ri_product r)), (''quantity'', jint (ri_quantity r)), (''unitPrice'', JStr (ds (ri_unitPrice r))),
      (''total'', JStr (ds (ri_total r))), (''fifoCost'', JStr (ds (ri_fifoCost r))), (''createdAt'', JDate (ri_createdAt r))]"

text \<open>Nothing writes the row version of a refund after its insert, so it is 0.\<close>

definition refund_entity :: "(decimal \<Rightarrow> string) \<Rightarrow> refund_row \<times> refund_item_row list \<Rightarrow> json" where
  "refund_entity ds x = (case x of (r, items) \<Rightarrow> JObj
     [(''id'', JStr (rf_id r)), (''companyId'', JStr (rf_company r)), (''saleId'', JStr (rf_sale r)),
      (''warehouseId'', JStr (rf_warehouse r)), (''refundNumber'', JStr (rf_number r)),
      (''status'', JStr (refund_status_name (rf_status r))), (''total'', JStr (ds (rf_total r))), (''currency'', JStr (rf_currency r)),
      (''reason'', jopt JStr (rf_reason r)), (''reference'', jopt JStr (rf_reference r)), (''createdBy'', JStr (rf_createdBy r)),
      (''rowVersion'', jint 0), (''createdAt'', JDate (rf_createdAt r)), (''deletedAt'', jopt JDate (rf_deleted r)),
      (''items'', JArr (map (refund_item_entity ds) items))])"

section \<open>What is asked for\<close>

record refund_item_dto =
  rq_item :: string
  rq_quantity :: int

record refund_dto =
  rd_items :: "refund_item_dto list option"
  rd_reason :: "string option"
  rd_reference :: "string option"

definition units_of :: "refund_sums option \<Rightarrow> int" where
  "units_of v = (case v of None \<Rightarrow> 0 | Some s \<Rightarrow> rs_units s)"

definition cost_of :: "refund_sums option \<Rightarrow> decimal" where
  "cost_of v = (case v of None \<Rightarrow> 0 | Some s \<Rightarrow> rs_cost s)"

definition money_of :: "refund_sums option \<Rightarrow> decimal" where
  "money_of v = (case v of None \<Rightarrow> 0 | Some s \<Rightarrow> rs_money s)"

definition find_item :: "sale_item_row list \<Rightarrow> string \<Rightarrow> sale_item_row option" where
  "find_item items i = find_first (\<lambda>r. si_id r = i) items"

primrec add_requested :: "sale_item_row list \<Rightarrow> refund_item_dto list \<Rightarrow> (string \<times> int) list \<Rightarrow> (string \<times> int) list wtx" where
  "add_requested items [] m = ret m"
| "add_requested items (l # ls) m =
     bind (require (find_item items (rq_item l) \<noteq> None) (BadRequest ''SaleItem does not belong to this sale'')) (\<lambda>_.
     add_requested items ls
       (AList.update (rq_item l) ((case map_of m (rq_item l) of None \<Rightarrow> 0 | Some n \<Rightarrow> n) + rq_quantity l) m))"

text \<open>Everything that is left, when no items are named.\<close>

definition remaining_items :: "sale_item_row list \<Rightarrow> (string \<Rightarrow> refund_sums option) \<Rightarrow> (string \<times> int) list" where
  "remaining_items items previous =
     fold (\<lambda>i m. if 0 < si_quantity i - units_of (previous (si_id i))
       then AList.update (si_id i) (si_quantity i - units_of (previous (si_id i))) m else m) items []"

definition resolve_requested ::
  "refund_dto \<Rightarrow> sale_item_row list \<Rightarrow> (string \<Rightarrow> refund_sums option) \<Rightarrow> (string \<times> int) list wtx" where
  "resolve_requested d items previous = (case rd_items d of
       None \<Rightarrow> ret (remaining_items items previous)
     | Some ls \<Rightarrow> if ls = [] then ret (remaining_items items previous) else add_requested items ls [])"

definition check_requested :: "sale_item_row list \<Rightarrow> (string \<Rightarrow> refund_sums option) \<Rightarrow> string \<times> int \<Rightarrow> unit wtx" where
  "check_requested items previous x = (case x of (i, quantity) \<Rightarrow>
     bind (require_some (find_item items i) (BadRequest ''SaleItem does not belong to sale'')) (\<lambda>item.
     let remaining = si_quantity item - units_of (previous i) in
     bind (require (\<not> quantity \<le> 0) (BadRequest ''Refund quantity must be greater than zero'')) (\<lambda>_.
     bind (require (\<not> remaining \<le> 0) (BadRequest ''SaleItem is already fully refunded'')) (\<lambda>_.
     require (\<not> quantity > remaining) (BadRequest ''Cannot refund more than remaining'')))))"

section \<open>The lines of a refund\<close>

record refund_line =
  rl_item :: sale_item_row
  rl_quantity :: int
  rl_final :: bool
  rl_unitPrice :: decimal
  rl_total :: decimal
  rl_fifoCost :: decimal

text \<open>\<^verbatim>\<open>computeRefundFifoCost\<close>; \<open>quot\<close> is \<^verbatim>\<open>Decimal.div\<close>.\<close>

definition refund_fifo_cost :: "(decimal \<Rightarrow> decimal \<Rightarrow> decimal) \<Rightarrow> sale_item_row \<Rightarrow> int \<Rightarrow> bool \<Rightarrow> decimal \<Rightarrow> decimal" where
  "refund_fifo_cost quot item quantity final already = (case si_fifoCost item of
       None \<Rightarrow> round4 (si_costPrice item * of_int quantity)
     | Some original \<Rightarrow>
         if final then round4 (original - already)
         else round4 (quot (original * of_int quantity) (of_int (si_quantity item))))"

definition refund_line_of ::
  "(decimal \<Rightarrow> decimal \<Rightarrow> decimal) \<Rightarrow> (string \<Rightarrow> refund_sums option) \<Rightarrow> sale_item_row \<Rightarrow> int \<Rightarrow> refund_line" where
  "refund_line_of quot previous item quantity =
     (let v = previous (si_id item);
          final = (quantity = si_quantity item - units_of v) in
      \<lparr>rl_item = item, rl_quantity = quantity, rl_final = final, rl_unitPrice = si_unitPrice item,
       rl_total = (if final then round4 (si_total item - money_of v)
                   else round4 (quot (si_total item * of_int quantity) (of_int (si_quantity item)))),
       rl_fifoCost = refund_fifo_cost quot item quantity final (cost_of v)\<rparr>)"

definition build_refund_lines ::
  "(decimal \<Rightarrow> decimal \<Rightarrow> decimal) \<Rightarrow> (string \<times> int) list \<Rightarrow> sale_item_row list \<Rightarrow> (string \<Rightarrow> refund_sums option) \<Rightarrow> refund_line list" where
  "build_refund_lines quot requested items previous =
     List.map_filter (\<lambda>(i, quantity). map_option (\<lambda>item. refund_line_of quot previous item quantity) (find_item items i)) requested"

definition line_data :: "refund_line \<Rightarrow> refund_item_data" where
  "line_data l =
     \<lparr>rj_saleItem = si_id (rl_item l), rj_product = si_product (rl_item l), rj_quantity = rl_quantity l,
      rj_unitPrice = rl_unitPrice l, rj_total = rl_total l, rj_fifoCost = rl_fifoCost l\<rparr>"

definition fully_refunded :: "sale_item_row list \<Rightarrow> (string \<Rightarrow> refund_sums option) \<Rightarrow> (string \<times> int) list \<Rightarrow> bool" where
  "fully_refunded items previous requested \<longleftrightarrow>
     (\<forall>i \<in> set items. units_of (previous (si_id i)) + (case map_of requested (si_id i) of None \<Rightarrow> 0 | Some n \<Rightarrow> n) \<ge> si_quantity i)"

definition derived_status :: "sale_item_row list \<Rightarrow> (string \<Rightarrow> refund_sums option) \<Rightarrow> (string \<times> int) list \<Rightarrow> sale_status" where
  "derived_status items previous requested =
     (if fully_refunded items previous requested then SaleRefundedStatus else SalePartiallyRefundedStatus)"

text \<open>\<^verbatim>\<open>isLegacySingleShotFullRefund\<close>.\<close>

definition single_shot :: "sale_row \<Rightarrow> sale_status \<Rightarrow> bool" where
  "single_shot sale newStatus \<longleftrightarrow> sa_status sale = SaleCompletedStatus \<and> newStatus = SaleRefundedStatus"

definition refund_number :: "string \<Rightarrow> int \<Rightarrow> string" where
  "refund_number c n = ''REF-'' @ to_upper_ascii (take 8 c) @ ''-'' @ pad_start 4 (digits (nat n))"

section \<open>The side effects\<close>

definition partial_item_of :: "refund_item_row \<Rightarrow> partial_item_event" where
  "partial_item_of r =
     \<lparr>xi_product = ri_product r, xi_saleItem = ri_saleItem r, xi_quantity = ri_quantity r, xi_unitPrice = ri_unitPrice r,
      xi_total = ri_total r, xi_fifoCost = Some (ri_fifoCost r)\<rparr>"

definition partial_payload_of :: "sale_row \<Rightarrow> refund_row \<Rightarrow> refund_item_row list \<Rightarrow> string \<Rightarrow> partial_payload" where
  "partial_payload_of sale refund items user =
     \<lparr>px_sale = sa_id sale, px_company = sa_company sale, px_warehouse = sa_warehouse sale, px_refund = rf_id refund,
      px_refundNumber = rf_number refund, px_number = sa_number sale, px_total = rf_total refund, px_currency = rf_currency refund,
      px_by = user, px_items = map partial_item_of items\<rparr>"

definition publish_partially_refunded ::
  "event_bus \<Rightarrow> sale_row \<Rightarrow> refund_row \<Rightarrow> refund_item_row list \<Rightarrow> string \<Rightarrow> unit wtx" where
  "publish_partially_refunded bus sale refund items user =
     bind fresh_uuid (\<lambda>eventId. publish_event bus (SalePartiallyRefunded eventId (partial_payload_of sale refund items user)))"

definition take_sale_from_shift :: "shift_alloc \<Rightarrow> sale_row \<Rightarrow> shift_row \<Rightarrow> shift_row \<Rightarrow> shift_row" where
  "take_sale_from_shift a sale s r =
     r\<lparr>cs_cashSales := round4 (cs_cashSales s - (sl_cash a - sa_change sale)), cs_cardSales := round4 (cs_cardSales s - sl_card a),
       cs_qrSales := round4 (cs_qrSales s - sl_qr a), cs_bankSales := round4 (cs_bankSales s - sl_bank a),
       cs_mobileSales := round4 (cs_mobileSales s - sl_mobile a), cs_totalSales := round4 (cs_totalSales s - sa_total sale)\<rparr>"

text \<open>The first half of \<^verbatim>\<open>applyLegacyFullRefundSideEffects\<close>: the sale leaves its shift, if that is open.\<close>

definition unlink_shift :: "sale_row \<Rightarrow> string \<Rightarrow> unit wtx" where
  "unlink_shift sale c = (case truthy (sa_shift sale) of
       None \<Rightarrow> ret ()
     | Some i \<Rightarrow>
         bind (ask (\<lambda>w. find_first (\<lambda>s. cs_id s = i \<and> cs_company s = c) (t_shift w))) (\<lambda>found.
         case found of
           None \<Rightarrow> ret ()
         | Some s \<Rightarrow>
             if cs_status s = ShiftOpen then
               bind (payments_of (sa_id sale)) (\<lambda>payments.
               bind (allocate_shift_sales payments) (\<lambda>a.
               bind (update_shift (cs_id s) (take_sale_from_shift a sale s) c (cs_version s)) (\<lambda>_. ret ())))
             else ret ()))"

text \<open>The items of this event carry no \<^verbatim>\<open>saleItemId\<close>.\<close>

definition refunded_payload_of :: "sale_row \<Rightarrow> sale_item_row list \<Rightarrow> payment_row list \<Rightarrow> string \<Rightarrow> string \<Rightarrow> refunded_payload" where
  "refunded_payload_of sale items payments user c =
     \<lparr>sr_sale = sa_id sale, sr_company = c, sr_warehouse = sa_warehouse sale, sr_cashier = user, sr_number = sa_number sale,
      sr_total = sa_total sale, sr_currency = sa_currency sale,
      sr_items = map (\<lambda>i. (item_event_of i)\<lparr>se_saleItem := None\<rparr>) items, sr_payments = map payment_event_of payments\<rparr>"

definition apply_legacy_full_refund :: "event_bus \<Rightarrow> sale_row \<Rightarrow> sale_item_row list \<Rightarrow> string \<Rightarrow> string \<Rightarrow> unit wtx" where
  "apply_legacy_full_refund bus sale items user c =
     bind (unlink_shift sale c) (\<lambda>_.
     bind (payments_of (sa_id sale)) (\<lambda>payments.
     bind fresh_uuid (\<lambda>eventId.
     publish_event bus (SaleRefunded eventId (refunded_payload_of sale items payments user c)))))"

text \<open>
  Step 10b, for all but the full refund of an untouched sale: the allocation to the payment methods, and the
  customer credit of its \<^verbatim>\<open>STORE_CREDIT\<close> and \<^verbatim>\<open>GIFT_CARD\<close> rows.
\<close>

definition sale_credit_context :: "sale_row \<Rightarrow> string \<Rightarrow> string \<Rightarrow> credit_context" where
  "sale_credit_context sale user c =
     \<lparr>cc_company = c, cc_sale = sa_id sale, cc_customer = sa_customer sale, cc_currency = sa_currency sale, cc_by = user\<rparr>"

definition allocate_refund :: "sale_row \<Rightarrow> string \<Rightarrow> decimal \<Rightarrow> string \<Rightarrow> string \<Rightarrow> unit wtx" where
  "allocate_refund sale refund refundTotal user c =
     bind (create_for_refund sale refund refundTotal user) (\<lambda>facts.
     if (\<exists>f \<in> set facts. is_credit_method (fst f)) then
       bind (ask (\<lambda>w. find_many (\<lambda>a. ra_company a = c \<and> ra_refund a = refund \<and> ra_deleted a = None \<and>
          ra_method a \<in> set CREDIT_PAYMENT_METHODS) (t_refund_alloc w))) (\<lambda>rows.
       bind (issue_refund_credit (sale_credit_context sale user c) rows) (\<lambda>_. ret ()))
     else ret ())"

definition refund_audits :: "sale_row \<Rightarrow> refund_row \<Rightarrow> string \<Rightarrow> decimal \<Rightarrow> nat \<Rightarrow> sale_status \<Rightarrow> string \<Rightarrow> string \<Rightarrow> unit wtx" where
  "refund_audits sale refund number refundTotal n newStatus user c =
     bind (ask dec_str) (\<lambda>ds.
     bind (audit_log \<lparr>au_company = Some c, au_user = user, au_entity = ''SalesRefund'', au_entityId = rf_id refund,
       au_action = ''CREATED'', au_before = None,
       au_after = Some (JObj [(''refundNumber'', JStr number), (''saleId'', JStr (sa_id sale)), (''saleNumber'', JStr (sa_number sale)),
         (''status'', JStr (refund_status_name (rf_status refund))), (''total'', JStr (ds refundTotal)),
         (''currency'', JStr (sa_currency sale)), (''itemCount'', jint (int n))])\<rparr>) (\<lambda>_.
     audit_log \<lparr>au_company = Some c, au_user = user, au_entity = ''Sale'', au_entityId = sa_id sale,
       au_action = ''STATUS_CHANGED'', au_before = Some (JObj [(''status'', JStr (sale_status_name (sa_status sale)))]),
       au_after = Some (JObj [(''status'', JStr (sale_status_name newStatus))])\<rparr>))"

section \<open>The refund\<close>

definition refundable :: "sale_row \<Rightarrow> unit wtx" where
  "refundable sale =
     bind (require (sa_status sale \<noteq> SaleRefundedStatus) (BadRequest ''Sale is already fully refunded'')) (\<lambda>_.
     require (sa_status sale = SaleCompletedStatus \<or> sa_status sale = SalePartiallyRefundedStatus)
       (BadRequest ''Only COMPLETED or PARTIALLY_REFUNDED sales can be refunded''))"

text \<open>Steps 4 to 8: from the request to the lines, with the items and the requested quantities.\<close>

definition refund_plan ::
  "sale_row \<Rightarrow> refund_dto \<Rightarrow> string \<Rightarrow> (sale_item_row list \<times> (string \<Rightarrow> refund_sums option) \<times> (string \<times> int) list \<times> refund_line list) wtx" where
  "refund_plan sale d c =
     bind (ask (\<lambda>w. sort_key si_createdAt (find_many (\<lambda>i. si_sale i = sa_id sale) (t_sale_item w)))) (\<lambda>items.
     bind (require (items \<noteq> []) (BadRequest ''Sale has no items'')) (\<lambda>_.
     bind (aggregate_completed (sa_id sale) c) (\<lambda>previous.
     bind (resolve_requested d items previous) (\<lambda>requested.
     bind (require (requested \<noteq> []) (BadRequest ''Sale has no remaining refundable quantities'')) (\<lambda>_.
     bind (for_each requested (check_requested items previous)) (\<lambda>_.
     bind (ask dec_div) (\<lambda>quot.
     ret (items, previous, requested, build_refund_lines quot requested items previous))))))))"

definition refund_sale_data :: "sale_row \<Rightarrow> refund_dto \<Rightarrow> string \<Rightarrow> decimal \<Rightarrow> string \<Rightarrow> refund_data" where
  "refund_sale_data sale d number refundTotal user =
     \<lparr>rn_company = sa_company sale, rn_sale = sa_id sale, rn_warehouse = sa_warehouse sale, rn_number = number,
      rn_total = refundTotal, rn_currency = sa_currency sale, rn_reason = rd_reason d, rn_reference = rd_reference d,
      rn_createdBy = user\<rparr>"

definition finish_refund ::
  "event_bus \<Rightarrow> sale_row \<Rightarrow> sale_item_row list \<Rightarrow> refund_row \<Rightarrow> refund_item_row list \<Rightarrow> bool \<Rightarrow> string \<Rightarrow> string \<Rightarrow> unit wtx" where
  "finish_refund bus sale items refund rows legacy user c =
     (if legacy then
        bind (payments_of (sa_id sale)) (\<lambda>payments.
        bind (issue_legacy_refund_credit (sale_credit_context sale user c) (rf_id refund) (map payment_event_of payments)) (\<lambda>_.
        apply_legacy_full_refund bus sale items user c))
      else publish_partially_refunded bus sale refund rows user)"

definition create_refund_work :: "event_bus \<Rightarrow> string \<Rightarrow> refund_dto \<Rightarrow> string \<Rightarrow> string \<Rightarrow> json wtx" where
  "create_refund_work bus i d user c =
     bind (find_sale i c) (\<lambda>found.
     bind (require_some found (NotFound ''Sale not found'')) (\<lambda>sale.
     bind (refundable sale) (\<lambda>_.
     bind (refund_plan sale d c) (\<lambda>(items, previous, requested, lines).
     bind (next_number c ''SALES_REFUND'') (\<lambda>n.
     let number = refund_number c n; refundTotal = (\<Sum>l\<leftarrow>lines. rl_total l) in
     bind (insert_refund (refund_sale_data sale d number refundTotal user) (map line_data lines)) (\<lambda>(refund, rows).
     let newStatus = derived_status items previous requested; legacy = single_shot sale newStatus in
     bind (if legacy then ret () else allocate_refund sale (rf_id refund) refundTotal user c) (\<lambda>_.
     bind (update_status (sa_id sale) newStatus c (sa_version sale)) (\<lambda>_.
     bind (refund_audits sale refund number refundTotal (length lines) newStatus user c) (\<lambda>_.
     bind (finish_refund bus sale items refund rows legacy user c) (\<lambda>_.
     ask (\<lambda>w. refund_entity (dec_str w) (refund, rows))))))))))))"

definition refund_request :: "string \<Rightarrow> refund_dto \<Rightarrow> string \<Rightarrow> json" where
  "refund_request i d user = JObj [(''userId'', JStr user), (''saleId'', JStr i), (''body'', JObj (
     (case rd_items d of None \<Rightarrow> [] | Some ls \<Rightarrow>
        [(''items'', JArr (map (\<lambda>l. JObj [(''saleItemId'', JStr (rq_item l)), (''quantity'', jint (rq_quantity l))]) ls))]) @
     (case rd_reason d of None \<Rightarrow> [] | Some s \<Rightarrow> [(''reason'', JStr s)]) @
     (case rd_reference d of None \<Rightarrow> [] | Some s \<Rightarrow> [(''reference'', JStr s)])))]"

definition create_refund :: "event_bus \<Rightarrow> string \<Rightarrow> refund_dto \<Rightarrow> string \<Rightarrow> string \<Rightarrow> string option \<Rightarrow> (int \<times> json) wtx" where
  "create_refund bus i d user c key =
     run_with_idempotency c key ''sales.refund'' (refund_request i d user) 200 (create_refund_work bus i d user c)"

definition refund_all_remaining :: "event_bus \<Rightarrow> string \<Rightarrow> string \<Rightarrow> string \<Rightarrow> string option \<Rightarrow> string option \<Rightarrow> (int \<times> json) wtx" where
  "refund_all_remaining bus i user c reason reference =
     create_refund bus i \<lparr>rd_items = None, rd_reason = reason, rd_reference = reference\<rparr> user c None"

definition find_refund_by_id :: "string \<Rightarrow> string \<Rightarrow> json wtx" where
  "find_refund_by_id i c =
     bind (find_refund i c) (\<lambda>found.
     bind (require_some found (NotFound ''SalesRefund not found'')) (\<lambda>x. ask (\<lambda>w. refund_entity (dec_str w) x)))"

definition find_refunds_by_sale :: "string \<Rightarrow> string \<Rightarrow> json list wtx" where
  "find_refunds_by_sale sale c =
     bind (find_refunds_of_sale sale c) (\<lambda>rows. ask (\<lambda>w. map (refund_entity (dec_str w)) rows))"

end
