(* ===== verification/SalesFlow.thy ===== *)
theory SalesFlow
  imports SalesRefund
begin

text \<open>
  The sales desk as a state machine: creating, editing, deleting, completing, cancelling and refunding sales
  together with the operations of the tills, in any order. The desk reads and writes its own tables; what the
  subscribers of its events may do is said by \<open>desk_bus\<close>, and the subscribers of the program meet it.
\<close>

section \<open>The tables of the desk\<close>

definition core :: "sale_item_row \<Rightarrow> sale_item_row" where
  "core i = i\<lparr>si_fifoCost := None\<rparr>"

definition desk_view :: "world \<Rightarrow> _" where
  "desk_view w = (t_sale w, t_payment w, t_receipt w, t_shift w, t_refund w, t_refund_item w, map core (t_sale_item w))"

text \<open>The subscribers may write the historical cost on the items of the sale that is being completed.\<close>

definition spared :: "domain_event \<Rightarrow> sale_item_row \<Rightarrow> bool" where
  "spared ev i \<longleftrightarrow> (case ev of SaleCompleted e p \<Rightarrow> si_sale i \<noteq> sp_sale p | _ \<Rightarrow> True)"

definition cost_view :: "domain_event \<Rightarrow> world \<Rightarrow> decimal option list" where
  "cost_view ev w = map (\<lambda>i. if spared ev i then si_fifoCost i else None) (t_sale_item w)"

definition desk_bus :: "event_bus \<Rightarrow> bool" where
  "desk_bus bus \<longleftrightarrow> (\<forall>ev. advances (publish_event bus ev) \<and> frame desk_view (publish_event bus ev) \<and> frame (cost_view ev) (publish_event bus ev))"

lemma desk_busD:
  assumes "desk_bus bus" and "publish_event bus ev w = (r, w')"
  shows "desk_view w' = desk_view w" "cost_view ev w' = cost_view ev w" "uuid_gen w' = uuid_gen w" "uuid_next w \<le> uuid_next w'"
proof -
  have B: "advances (publish_event bus ev)" "frame desk_view (publish_event bus ev)" "frame (cost_view ev) (publish_event bus ev)"
    using assms(1) by (simp_all add: desk_bus_def)
  from advancesD [OF B(1) assms(2)] show "uuid_gen w' = uuid_gen w" "uuid_next w \<le> uuid_next w'" by simp_all
  from frameD [OF B(2) assms(2)] show "desk_view w' = desk_view w" .
  from frameD [OF B(3) assms(2)] show "cost_view ev w' = cost_view ev w" .
qed

definition same_desk :: "world \<Rightarrow> world \<Rightarrow> bool" where
  "same_desk w w' \<longleftrightarrow> desk_view w' = desk_view w \<and> t_sale_item w' = t_sale_item w \<and> uuid_gen w' = uuid_gen w \<and> uuid_next w \<le> uuid_next w'"

lemma same_desk_keys: "same_but_keys w w' \<Longrightarrow> same_desk w w'"
  by (auto simp: same_but_keys_def same_desk_def desk_view_def)

lemma same_desk_trans: "same_desk u v \<Longrightarrow> same_desk v w \<Longrightarrow> same_desk u w"
  by (simp add: same_desk_def)

section \<open>Completing and moving a sale\<close>

text \<open>The buckets of a payment list: what is paid, the cash part, and exact when the payments are.\<close>

definition alloc_scale4 :: "shift_alloc \<Rightarrow> bool" where
  "alloc_scale4 a \<longleftrightarrow> scale4 (sl_cash a) \<and> scale4 (sl_card a) \<and> scale4 (sl_qr a) \<and> scale4 (sl_bank a) \<and> scale4 (sl_mobile a)"

definition allocates :: "payment_row list \<Rightarrow> shift_alloc \<Rightarrow> bool" where
  "allocates ps a \<longleftrightarrow> shift_sales_total a = paid_total ps \<and> sl_cash a = cash_part ps \<and>
     ((\<forall>p \<in> set ps. scale4 (pm_amount p)) \<longrightarrow> alloc_scale4 a)"

lemma allocate_loop_scale4:
  "allocate_loop ps a w = (Inr b, w') \<Longrightarrow> \<forall>p \<in> set ps. scale4 (pm_amount p) \<Longrightarrow> alloc_scale4 a \<Longrightarrow> alloc_scale4 b"
proof (induction ps arbitrary: a)
  case (Cons p ps)
  then obtain x where x: "add_payment (pm_method p) (pm_amount p) a = Some x" "allocate_loop ps x w = (Inr b, w')"
    by (auto simp: bind_Inr_iff split: option.splits)
  from x(1) Cons.prems(2,3) have "alloc_scale4 x"
    by (cases "pm_method p") (auto simp: add_payment_def alloc_scale4_def)
  with Cons.IH [OF x(2)] Cons.prems(2) show ?case by simp
qed simp

lemma allocates_of: "allocate_shift_sales ps w = (Inr a, w') \<Longrightarrow> allocates ps a"
  using allocate_shift_sales_Inr [of ps w a w'] allocate_cash [of ps w a w'] allocate_loop_scale4 [of ps empty_alloc w a w']
  by (simp add: allocates_def allocate_shift_sales_def empty_alloc_def alloc_scale4_def)

definition joined_shift :: "world \<Rightarrow> sale_row \<Rightarrow> string option \<Rightarrow> world \<Rightarrow> bool" where
  "joined_shift w sale x w' \<longleftrightarrow> (case x of
       None \<Rightarrow> t_shift w' = t_shift w
     | Some i \<Rightarrow> \<exists>s a. s \<in> set (t_shift w) \<and> cs_id s = i \<and> cs_status s = ShiftOpen \<and> cs_company s = sa_company sale \<and>
         allocates (payments_in w (sa_id sale)) a \<and>
         t_shift w' = update_rows (\<lambda>r. cs_id r = cs_id s) (bumped_shift (add_sale_to_shift a sale s)) (t_shift w))"

lemma complete_sale_Inr:
  assumes bus: "desk_bus bus" and ids: "distinct (map cs_id (t_shift w))"
    and run: "complete_sale bus sale user (sa_company sale) w = (Inr x, w')"
  obtains rc ev p where "t_sale w' = t_sale w" "t_payment w' = t_payment w" "t_refund w' = t_refund w" "t_refund_item w' = t_refund_item w"
    "map core (t_sale_item w') = map core (t_sale_item w)" "ev = SaleCompleted rc p" "sp_sale p = sa_id sale"
    "cost_view ev w' = cost_view ev w" "uuid_gen w' = uuid_gen w" "uuid_next w \<le> uuid_next w'" "joined_shift w sale x w'"
    "t_receipt w' = t_receipt w @ [receipt_of (uuid_gen w (uuid_next w)) sale (now w)]"
proof -
  define items where "items = sort_key si_id (find_many (\<lambda>i. si_sale i = sa_id sale) (t_sale_item w))"
  obtain w1 w2 w3 cr eid where R: "insert_receipt sale w = (Inr (), w1)" "link_shift sale user (sa_company sale) w1 = (Inr x, w2)"
    "credit_spend \<lparr>cc_company = sa_company sale, cc_sale = sa_id sale, cc_customer = sa_customer sale, cc_currency = sa_currency sale,
       cc_by = user\<rparr> (map payment_event_of (payments_in w2 (sa_id sale))) w2 = (Inr cr, w3)"
    "eid = uuid_gen w3 (uuid_next w3)" and
    fin: "bind (publish_event bus (SaleCompleted eid (completed_payload sale user (sa_company sale) items (payments_in w2 (sa_id sale)))))
      (\<lambda>_. bind (completed_audit sale user (sa_company sale)) (\<lambda>_. ret x)) (w3\<lparr>uuid_next := Suc (uuid_next w3)\<rparr>) = (Inr x, w')"
    using run by (auto simp: complete_sale_def bind_Inr_iff items_def)
  let ?p = "completed_payload sale user (sa_company sale) items (payments_in w2 (sa_id sale))" and ?w4 = "w3\<lparr>uuid_next := Suc (uuid_next w3)\<rparr>"
  obtain w5 where pub: "publish_event bus (SaleCompleted eid ?p) ?w4 = (Inr (), w5)" and w': "\<exists>a. w' = w5\<lparr>t_audit := a\<rparr>"
    using fin by (auto simp: bind_Inr_iff completed_audit_def)
  note B = desk_busD [OF bus pub]
  have w1: "w1 = w\<lparr>uuid_next := Suc (uuid_next w), t_receipt := t_receipt w @ [receipt_of (uuid_gen w (uuid_next w)) sale (now w)]\<rparr>"
    using insert_receipt_Inr [OF R(1)] by simp
  have w2: "joined_shift w sale x w2 \<and> (\<exists>t. w2 = w1\<lparr>t_shift := t\<rparr>)"
    using R(2)
  proof (cases rule: link_shift_Inr [consumes 1, case_names ids no_shift joined])
    case ids
    then show ?case using assms(2) by (simp add: w1)
  next
    case no_shift
    then show ?thesis by (auto simp: joined_shift_def w1 intro: exI [of _ "t_shift w1"])
  next
    case (joined s a)
    have "allocates (payments_in w (sa_id sale)) a" using allocates_of [OF joined(6)] by (simp add: w1)
    with joined show ?thesis by (auto simp: joined_shift_def w1)
  qed
  then obtain t where t: "w2 = w1\<lparr>t_shift := t\<rparr>" by blast
  have w3: "desk_view w3 = desk_view w2" "t_sale_item w3 = t_sale_item w2" "uuid_gen w3 = uuid_gen w2 \<and> uuid_next w2 \<le> uuid_next w3"
    using frameD [OF frame_credit_spend R(3), of desk_view] frameD [OF frame_credit_spend R(3), of t_sale_item]
      advancesD [OF advances_credit_spend R(3)] by (simp_all add: desk_view_def)
  have V: "desk_view w' = desk_view w2" using B(1) w3(1) w' by (auto simp: desk_view_def)
  then have "t_shift w' = t_shift w2" by (simp add: desk_view_def)
  then have J: "joined_shift w sale x w' = joined_shift w sale x w2" by (cases x) (simp_all add: joined_shift_def)
  show thesis
  proof (rule that [of "SaleCompleted eid ?p" eid ?p])
    show "cost_view (SaleCompleted eid ?p) w' = cost_view (SaleCompleted eid ?p) w"
      using B(2) w3(2) w' by (auto simp: cost_view_def t w1)
    show "joined_shift w sale x w'" using w2 J by simp
    show "uuid_gen w' = uuid_gen w" "uuid_next w \<le> uuid_next w'" using B(3,4) w3(3) w' by (auto simp: t w1)
  qed (use V in \<open>simp_all add: desk_view_def t w1 completed_payload_def\<close>)
qed

lemma transition_work_Inr:
  assumes ids: "distinct (map sa_id (t_sale w))" and run: "transition_work bus i st user c w = (Inr b, w')"
    and keep: "\<And>sale x v. complete_sale bus sale user c w = (Inr x, v) \<Longrightarrow> t_sale v = t_sale w"
  obtains (moved) sale where "sale \<in> set (t_sale w)" "sa_id sale = i" "sa_company sale = c" "sa_deleted sale = None"
      "st \<in> set (VALID_TRANSITIONS (sa_status sale))" "st \<noteq> SaleCompletedStatus"
      "w' = w\<lparr>t_sale := update_rows (\<lambda>r. sa_id r = i) (bumped_sale (\<lambda>r. r\<lparr>sa_status := st\<rparr>)) (t_sale w)\<rparr>"
  | (completed) sale x v where "sale \<in> set (t_sale w)" "sa_id sale = i" "sa_company sale = c" "sa_deleted sale = None"
      "st \<in> set (VALID_TRANSITIONS (sa_status sale))" "st = SaleCompletedStatus" "complete_sale bus sale user c w = (Inr x, v)"
      "w' = v\<lparr>t_sale := update_rows (\<lambda>r. sa_id r = i)
         (\<lambda>r. related (map_option ConnectShift (truthy x)) (bumped_sale (\<lambda>r. r\<lparr>sa_status := st\<rparr>) r)) (t_sale w)\<rparr>"
proof -
  from run obtain sale x v y where S: "find_sale i c w = (Inr (Some sale), w)" "st \<in> set (VALID_TRANSITIONS (sa_status sale))"
    "(if st = SaleCompletedStatus then complete_sale bus sale user c else ret None) w = (Inr x, v)"
    "update_sale_row i (\<lambda>r. r\<lparr>sa_status := st\<rparr>) (map_option ConnectShift (truthy x)) c (sa_version sale) v = (Inr y, w')"
    by (auto simp: transition_work_def bind_Inr_iff sale_view_def find_sale_def split: option.splits if_splits)
  then have s: "sale \<in> set (t_sale w)" "sa_id sale = i" "sa_company sale = c" "sa_deleted sale = None" using find_sale_Inr by blast+
  have v: "t_sale v = t_sale w" using S(3) keep by (auto split: if_splits)
  have w': "w' = v\<lparr>t_sale := update_rows (\<lambda>r. sa_id r = i)
         (\<lambda>r. related (map_option ConnectShift (truthy x)) (bumped_sale (\<lambda>r. r\<lparr>sa_status := st\<rparr>) r)) (t_sale w)\<rparr>"
    using update_sale_row_Inr [of sale "\<lambda>r. r\<lparr>sa_status := st\<rparr>" "map_option ConnectShift (truthy x)" v y w'] S(4) s v ids by simp
  show thesis
  proof (cases "st = SaleCompletedStatus")
    case True
    with S s w' show thesis by (intro completed) simp_all
  next
    case False
    with S(3) have "x = None" "v = w" by simp_all
    with False S s w' show thesis by (intro moved [of sale]) (simp_all add: truthy_def)
  qed
qed

section \<open>Refunding a sale\<close>

lemma frame_allocate_refund [frame_intros]:
  assumes "\<And>h w. g (t_credit_update h w) = g w" and "\<And>h w. g (uuid_next_update h w) = g w" and "\<And>h w. g (t_refund_alloc_update h w) = g w"
  shows "frame g (allocate_refund sale refund tot user c)"
proof -
  have issue: "frame g (issue_each x k as)" for x k as
    by (induction as; simp only: issue_each.simps repo_issue_refund_credit_def create_issued_def insert_credit_def Let_def;
        (intro frame_intros assms | assumption)+)
  show ?thesis
    unfolding allocate_refund_def create_for_refund_def split_refund_def previous_allocations_def payments_of_def check_fact_def
      insert_allocation_def issue_refund_credit_def Let_def
    by (intro frame_intros assms issue)
qed

lemma frame_issue_legacy [frame_intros]:
  assumes "\<And>h w. g (t_credit_update h w) = g w" and "\<And>h w. g (uuid_next_update h w) = g w" and "\<And>h w. g (t_audit_update h w) = g w"
  shows "frame g (issue_legacy_refund_credit x refund ps)"
  unfolding issue_legacy_refund_credit_def repo_issue_legacy_refund_credit_def create_issued_def insert_credit_def Let_def
  by (intro frame_intros assms)

lemma advances_refund_steps [frame_intros]:
  "advances (allocate_refund sale refund tot user c)" "advances (issue_legacy_refund_credit x refund ps)"
proof -
  have issue: "advances (issue_each x k as)" for x k as
    by (induction as; simp only: issue_each.simps repo_issue_refund_credit_def create_issued_def insert_credit_def Let_def;
        (intro frame_intros | assumption | simp)+)
  show "advances (allocate_refund sale refund tot user c)"
    unfolding allocate_refund_def create_for_refund_def split_refund_def previous_allocations_def payments_of_def check_fact_def
      insert_allocation_def issue_refund_credit_def Let_def
    by (intro frame_intros issue; simp)
  show "advances (issue_legacy_refund_credit x refund ps)"
    unfolding issue_legacy_refund_credit_def repo_issue_legacy_refund_credit_def create_issued_def insert_credit_def Let_def
    by (intro frame_intros; simp)
qed

text \<open>The plan: what was asked for has passed every check, and each entry has its line.\<close>

definition sums_in :: "world \<Rightarrow> string \<Rightarrow> string \<Rightarrow> string \<Rightarrow> refund_sums option" where
  "sums_in w sale c i =
     (let rows = refunded_rows w sale c i in
      if rows = [] then None
      else Some \<lparr>rs_units = (\<Sum>r\<leftarrow>rows. ri_quantity r), rs_cost = (\<Sum>r\<leftarrow>rows. ri_fifoCost r), rs_money = (\<Sum>r\<leftarrow>rows. ri_total r)\<rparr>)"

lemma sums_in_parts:
  "units_of (sums_in w sale c i) = (\<Sum>r\<leftarrow>refunded_rows w sale c i. ri_quantity r)"
  "cost_of (sums_in w sale c i) = (\<Sum>r\<leftarrow>refunded_rows w sale c i. ri_fifoCost r)"
  "money_of (sums_in w sale c i) = (\<Sum>r\<leftarrow>refunded_rows w sale c i. ri_total r)"
  by (simp_all add: sums_in_def Let_def units_of_def cost_of_def money_of_def)

lemma aggregate_run [simp]: "aggregate_completed sale c w = (Inr (sums_in w sale c), w)"
  by (simp add: aggregate_completed_def sums_in_def [abs_def])

lemma distinct_fold_update:
  "distinct (map fst m) \<Longrightarrow> distinct (map fst (fold (\<lambda>i m. if p i then AList.update (k i) (v i) m else m) is m))"
  by (induction "is" arbitrary: m) (simp_all add: distinct_update)

lemma add_requested_Inr: "add_requested items ls m w = (Inr q, w') \<Longrightarrow> distinct (map fst m) \<Longrightarrow> w' = w \<and> distinct (map fst q)"
  by (induction ls arbitrary: m) (auto simp: bind_Inr_iff distinct_update split: if_splits)

lemma resolve_requested_Inr: "resolve_requested d items previous w = (Inr q, w') \<Longrightarrow> w' = w \<and> distinct (map fst q)"
  using add_requested_Inr [of items _ "[]" w q w'] distinct_fold_update [of "[]"]
  by (auto simp: resolve_requested_def remaining_items_def split: option.splits if_splits)

lemma check_requested_Inr:
  "for_each xs (check_requested items previous) w = (Inr u, w') \<Longrightarrow> w' = w \<and> (\<forall>(i, q) \<in> set xs.
     \<exists>item. find_item items i = Some item \<and> 0 < q \<and> q \<le> si_quantity item - units_of (previous i))"
  by (induction xs) (auto simp: check_requested_def Let_def bind_Inr_iff split: option.splits if_splits)

definition sale_items :: "world \<Rightarrow> string \<Rightarrow> sale_item_row list" where
  "sale_items w i = sort_key si_createdAt (find_many (\<lambda>x. si_sale x = i) (t_sale_item w))"

lemma set_sale_items [simp]: "set (sale_items w i) = {x \<in> set (t_sale_item w). si_sale x = i}"
  by (simp add: sale_items_def find_many_def)

lemma refund_plan_Inr:
  assumes "refund_plan sale d c w = (Inr (items, previous, requested, lines), w')"
  shows "w' = w" and "items = sale_items w (sa_id sale)" and "items \<noteq> []" and "previous = sums_in w (sa_id sale) c"
    and "requested \<noteq> []" and "distinct (map fst requested)"
    and "lines = map (\<lambda>(i, q). refund_line_of (dec_div w) previous (the (find_item items i)) q) requested"
    and "\<forall>(i, q) \<in> set requested. \<exists>item. find_item items i = Some item \<and> 0 < q \<and> q \<le> si_quantity item - units_of (previous i)"
proof -
  obtain v1 where R: "items = sale_items w (sa_id sale)" "items \<noteq> []" "previous = sums_in w (sa_id sale) c"
    "resolve_requested d items previous w = (Inr requested, v1)" "requested \<noteq> []"
    "for_each requested (check_requested items previous) v1 = (Inr (), w')"
    "lines = build_refund_lines (dec_div w') requested items previous"
    using assms by (auto simp: refund_plan_def bind_Inr_iff sale_items_def split: if_splits)
  have v: "v1 = w" "w' = w" using resolve_requested_Inr [OF R(4)] check_requested_Inr [OF R(6)] by simp_all
  note P = R [unfolded v]
  show "w' = w" by (rule v)
  show "items = sale_items w (sa_id sale)" "items \<noteq> []" "previous = sums_in w (sa_id sale) c" "requested \<noteq> []" by fact+
  show "distinct (map fst requested)" using resolve_requested_Inr [OF P(4)] by simp
  show found: "\<forall>(i, q) \<in> set requested. \<exists>item. find_item items i = Some item \<and> 0 < q \<and> q \<le> si_quantity item - units_of (previous i)"
    using check_requested_Inr [OF P(6)] by simp
  have "List.map_filter (\<lambda>(i, q). map_option (\<lambda>item. refund_line_of (dec_div w) previous item q) (find_item items i)) xs =
      map (\<lambda>(i, q). refund_line_of (dec_div w) previous (the (find_item items i)) q) xs" if "set xs \<subseteq> set requested" for xs
    using that
  proof (induction xs)
    case (Cons x xs)
    then obtain item where "find_item items (fst x) = Some item" using found by (cases x) fastforce
    with Cons show ?case by (cases x) (simp add: map_filter_simps)
  qed (simp add: map_filter_simps)
  then show "lines = map (\<lambda>(i, q). refund_line_of (dec_div w) previous (the (find_item items i)) q) requested"
    by (simp add: P(7) build_refund_lines_def)
qed

lemma insert_refund_items_run:
  "insert_refund_items refund ds w = (Inr (numbered (uuid_gen w) (\<lambda>u. refund_item_of u refund (now w)) (uuid_next w) ds),
     w\<lparr>uuid_next := uuid_next w + length ds,
       t_refund_item := t_refund_item w @ numbered (uuid_gen w) (\<lambda>u. refund_item_of u refund (now w)) (uuid_next w) ds\<rparr>)"
  by (induction ds arbitrary: w) simp_all

lemma insert_refund_Inr:
  assumes "insert_refund d ds w = (Inr (rf, rows), w')"
  shows "rf = refund_of (uuid_gen w (uuid_next w)) (now w) d"
    and "rows = numbered (uuid_gen w) (\<lambda>u. refund_item_of u (rf_id rf) (now w)) (Suc (uuid_next w)) ds"
    and "w' = w\<lparr>uuid_next := Suc (uuid_next w) + length ds, t_refund := t_refund w @ [rf], t_refund_item := t_refund_item w @ rows\<rparr>"
  using assms by (auto simp: insert_refund_def bind_Inr_iff insert_refund_items_run refund_of_def split: if_splits)

text \<open>The sale leaves its shift.\<close>

definition left_shift :: "world \<Rightarrow> sale_row \<Rightarrow> world \<Rightarrow> bool" where
  "left_shift w sale w' \<longleftrightarrow>
     t_shift w' = t_shift w \<and> (\<forall>s \<in> set (t_shift w). truthy (sa_shift sale) = Some (cs_id s) \<and> cs_company s = sa_company sale \<longrightarrow> cs_status s \<noteq> ShiftOpen) \<or>
     (\<exists>s a. s \<in> set (t_shift w) \<and> truthy (sa_shift sale) = Some (cs_id s) \<and> cs_status s = ShiftOpen \<and> cs_company s = sa_company sale \<and>
       allocates (payments_in w (sa_id sale)) a \<and>
       t_shift w' = update_rows (\<lambda>r. cs_id r = cs_id s) (bumped_shift (take_sale_from_shift a sale s)) (t_shift w))"

lemma unlink_shift_Inr:
  assumes run: "unlink_shift sale (sa_company sale) w = (Inr u, w')" and ids: "distinct (map cs_id (t_shift w))"
  shows "left_shift w sale w' \<and> (\<exists>t. w' = w\<lparr>t_shift := t\<rparr>)"
proof (cases "truthy (sa_shift sale)")
  case None
  with run show ?thesis by (auto simp: unlink_shift_def left_shift_def intro: exI [of _ "t_shift w"])
next
  case (Some i)
  let ?found = "find_first (\<lambda>s. cs_id s = i \<and> cs_company s = sa_company sale) (t_shift w)"
  have look: "?found = Some s" if "s \<in> set (t_shift w)" "cs_id s = i" "cs_company s = sa_company sale" for s
    by (rule find_first_unique [OF ids that(1)]) (use that in simp_all)
  show ?thesis
  proof (cases "\<exists>s. ?found = Some s \<and> cs_status s = ShiftOpen")
    case False
    then have "w' = w" using run Some by (auto simp: unlink_shift_def split: option.splits if_splits)
    moreover have "cs_status s \<noteq> ShiftOpen" if "s \<in> set (t_shift w)" "cs_id s = i" "cs_company s = sa_company sale" for s
      using False look [OF that] by auto
    ultimately show ?thesis using Some by (auto simp: left_shift_def intro: exI [of _ "t_shift w"])
  next
    case True
    then obtain s where f: "?found = Some s" and open': "cs_status s = ShiftOpen" by blast
    then have s: "s \<in> set (t_shift w)" "cs_id s = i" "cs_company s = sa_company sale" by (auto dest: find_first_SomeD)
    from run Some f open' obtain a v r where a: "allocate_shift_sales (payments_in w (sa_id sale)) w = (Inr a, v)"
      and u: "update_shift (cs_id s) (take_sale_from_shift a sale s) (sa_company sale) (cs_version s) v = (Inr r, w')"
      by (auto simp: unlink_shift_def bind_Inr_iff)
    note A = allocate_shift_sales_Inr [OF a] allocates_of [OF a]
    have "cs_id (take_sale_from_shift a sale s r) = cs_id r" for r by (simp add: take_sale_from_shift_def)
    from u update_shift_run [OF ids s(1) this] A(1) s(3)
    have "w' = w\<lparr>t_shift := update_rows (\<lambda>r. cs_id r = cs_id s) (bumped_shift (take_sale_from_shift a sale s)) (t_shift w)\<rparr>"
      by (simp add: bumped_shift_def [abs_def])
    then show ?thesis using s open' Some A by (auto simp: left_shift_def intro!: disjI2)
  qed
qed

lemma core_inj: "map core xs = map core ys \<Longrightarrow> map si_fifoCost xs = map si_fifoCost ys \<Longrightarrow> xs = ys"
proof (induction xs arbitrary: ys)
  case (Cons x xs)
  then obtain y zs where ys: "ys = y # zs" by (cases ys) auto
  have "core x = core y" "si_fifoCost x = si_fifoCost y" using Cons.prems ys by simp_all
  then have "x = y" by (cases x; cases y) (simp add: core_def)
  then show ?case using Cons ys by simp
qed simp

text \<open>An event that is not a completion leaves the items as they are.\<close>

lemma publish_keeps_items:
  assumes "desk_bus bus" and "publish_event bus ev w = (r, w')" and "\<forall>i. spared ev i"
  shows "t_sale_item w' = t_sale_item w"
proof -
  note B = desk_busD [OF assms(1,2)]
  have "map core (t_sale_item w') = map core (t_sale_item w)" using B(1) by (simp add: desk_view_def)
  moreover have "map si_fifoCost (t_sale_item w') = map si_fifoCost (t_sale_item w)" using B(2) assms(3) by (simp add: cost_view_def)
  ultimately show ?thesis by (rule core_inj)
qed

definition desk_rest :: "world \<Rightarrow> _" where
  "desk_rest w = (t_sale w, t_payment w, t_receipt w, t_refund w, t_refund_item w, t_sale_item w)"

lemma left_shift_cong:
  assumes "t_shift v = t_shift w" and "t_payment v = t_payment w" and "t_shift v' = t_shift w'"
  shows "left_shift v sale v' = left_shift w sale w'"
  by (simp add: left_shift_def assms)

lemma finish_refund_Inr:
  assumes bus: "desk_bus bus" and ids: "distinct (map cs_id (t_shift v))"
    and run: "finish_refund bus sale items rf rows legacy user (sa_company sale) v = (Inr u, v')"
  shows "desk_rest v' = desk_rest v" and "uuid_gen v' = uuid_gen v \<and> uuid_next v \<le> uuid_next v'"
    and "if legacy then left_shift v sale v' else t_shift v' = t_shift v"
proof -
  have "desk_rest v' = desk_rest v \<and> uuid_gen v' = uuid_gen v \<and> uuid_next v \<le> uuid_next v' \<and>
      (if legacy then left_shift v sale v' else t_shift v' = t_shift v)"
  proof (cases legacy)
    case False
    let ?ev = "SalePartiallyRefunded (uuid_gen v (uuid_next v)) (partial_payload_of sale rf rows user)"
    have pub: "publish_event bus ?ev (v\<lparr>uuid_next := Suc (uuid_next v)\<rparr>) = (Inr u, v')"
      using run False by (simp add: finish_refund_def publish_partially_refunded_def)
    have "t_sale_item v' = t_sale_item v" using publish_keeps_items [OF bus pub] by (simp add: spared_def)
    then show ?thesis using False desk_busD [OF bus pub] by (simp add: desk_rest_def desk_view_def)
  next
    case True
    obtain x v1 v2 where I: "issue_legacy_refund_credit (sale_credit_context sale user (sa_company sale)) (rf_id rf)
        (map payment_event_of (payments_in v (sa_id sale))) v = (Inr x, v1)"
      and U: "unlink_shift sale (sa_company sale) v1 = (Inr (), v2)"
      and pub: "publish_event bus (SaleRefunded (uuid_gen v2 (uuid_next v2)) (refunded_payload_of sale items (payments_in v2 (sa_id sale)) user
        (sa_company sale))) (v2\<lparr>uuid_next := Suc (uuid_next v2)\<rparr>) = (Inr u, v')"
      using run True by (auto simp: finish_refund_def apply_legacy_full_refund_def bind_Inr_iff)
    have F: "desk_view v1 = desk_view v" "t_sale_item v1 = t_sale_item v" "uuid_gen v1 = uuid_gen v \<and> uuid_next v \<le> uuid_next v1"
      using frameD [OF frame_issue_legacy I, of desk_view] frameD [OF frame_issue_legacy I, of t_sale_item]
        advancesD [OF advances_refund_steps(2) I] by (simp_all add: desk_view_def)
    have L: "left_shift v1 sale v2" "\<exists>t. v2 = v1\<lparr>t_shift := t\<rparr>"
      using unlink_shift_Inr [OF U] ids F(1) by (simp_all add: desk_view_def)
    have "t_sale_item v' = t_sale_item v2" using publish_keeps_items [OF bus pub] by (simp add: spared_def)
    moreover note B = desk_busD [OF bus pub]
    moreover have "left_shift v sale v' = left_shift v1 sale v2"
      by (rule left_shift_cong) (use F(1) B(1) in \<open>simp_all add: desk_view_def\<close>)
    ultimately show ?thesis using True F L by (auto simp: desk_rest_def desk_view_def)
  qed
  then show "desk_rest v' = desk_rest v" "uuid_gen v' = uuid_gen v \<and> uuid_next v \<le> uuid_next v'"
    "if legacy then left_shift v sale v' else t_shift v' = t_shift v" by simp_all
qed

text \<open>What a refund is: its sale, the checked request, the rows it adds and the status it leaves.\<close>

definition planned :: "world \<Rightarrow> sale_row \<Rightarrow> (string \<times> int) list \<Rightarrow> bool" where
  "planned w sale requested \<longleftrightarrow> requested \<noteq> [] \<and> distinct (map fst requested) \<and>
     (\<forall>(i, q) \<in> set requested. \<exists>item. find_item (sale_items w (sa_id sale)) i = Some item \<and> 0 < q \<and>
        q \<le> si_quantity item - units_of (sums_in w (sa_id sale) (sa_company sale) i))"

definition refund_lines_of :: "world \<Rightarrow> sale_row \<Rightarrow> (string \<times> int) list \<Rightarrow> refund_line list" where
  "refund_lines_of w sale requested =
     map (\<lambda>(i, q). refund_line_of (dec_div w) (sums_in w (sa_id sale) (sa_company sale))
       (the (find_item (sale_items w (sa_id sale)) i)) q) requested"

definition refund_status_of :: "world \<Rightarrow> sale_row \<Rightarrow> (string \<times> int) list \<Rightarrow> sale_status" where
  "refund_status_of w sale requested =
     derived_status (sale_items w (sa_id sale)) (sums_in w (sa_id sale) (sa_company sale)) requested"

definition refund_rows_of :: "world \<Rightarrow> sale_row \<Rightarrow> (string \<times> int) list \<Rightarrow> refund_item_row list" where
  "refund_rows_of w sale requested =
     numbered (uuid_gen w) (\<lambda>u. refund_item_of u (uuid_gen w (uuid_next w)) (now w)) (Suc (uuid_next w))
       (map line_data (refund_lines_of w sale requested))"

lemma refundable_Inr_iff: "refundable s w = (Inr u, w') \<longleftrightarrow>
    w' = w \<and> (sa_status s = SaleCompletedStatus \<or> sa_status s = SalePartiallyRefundedStatus)"
  by (auto simp: refundable_def bind_Inr_iff)

lemma find_sale_same: "find_sale i c w = (r, w') \<Longrightarrow> w' = w"
  by (simp add: find_sale_def)

lemma refund_work_Inr:
  assumes bus: "desk_bus bus" and ids: "distinct (map sa_id (t_sale w))" "distinct (map cs_id (t_shift w))"
    and run: "create_refund_work bus i d user c w = (Inr b, w')"
  obtains sale requested rf where "sale \<in> set (t_sale w)" "sa_id sale = i" "sa_company sale = c" "sa_deleted sale = None"
    "sa_status sale = SaleCompletedStatus \<or> sa_status sale = SalePartiallyRefundedStatus" "planned w sale requested"
    "rf_id rf = uuid_gen w (uuid_next w)" "counted_refund i c rf"
    "t_refund w' = t_refund w @ [rf]" "t_refund_item w' = t_refund_item w @ refund_rows_of w sale requested"
    "t_sale w' = update_rows (\<lambda>r. sa_id r = i) (bumped_sale (\<lambda>r. r\<lparr>sa_status := refund_status_of w sale requested\<rparr>)) (t_sale w)"
    "t_payment w' = t_payment w" "t_receipt w' = t_receipt w" "t_sale_item w' = t_sale_item w" "uuid_gen w' = uuid_gen w"
    "Suc (uuid_next w) + length requested \<le> uuid_next w'"
    "if single_shot sale (refund_status_of w sale requested) then left_shift w sale w' else t_shift w' = t_shift w"
proof -
  obtain sale items previous requested lines n u0 v0 v1 rf rows v2 x3 v3 y v4 v5 where
    S0: "find_sale i c w = (Inr (Some sale), u0)" "sa_status sale = SaleCompletedStatus \<or> sa_status sale = SalePartiallyRefundedStatus"
    "refund_plan sale d c u0 = (Inr (items, previous, requested, lines), v0)" and
    S: "next_number c ''SALES_REFUND'' v0 = (Inr n, v1)"
    "insert_refund (refund_sale_data sale d (refund_number c n) (\<Sum>l\<leftarrow>lines. rl_total l) user) (map line_data lines) v1 = (Inr (rf, rows), v2)"
    "(if single_shot sale (derived_status items previous requested) then ret ()
      else allocate_refund sale (rf_id rf) (\<Sum>l\<leftarrow>lines. rl_total l) user c) v2 = (Inr x3, v3)"
    "update_status (sa_id sale) (derived_status items previous requested) c (sa_version sale) v3 = (Inr y, v4)"
    "refund_audits sale rf (refund_number c n) (\<Sum>l\<leftarrow>lines. rl_total l) (length lines) (derived_status items previous requested) user c v4 = (Inr (), v5)"
    "finish_refund bus sale items rf rows (single_shot sale (derived_status items previous requested)) user c v5 = (Inr (), w')"
    using run by (auto simp: create_refund_work_def Let_def case_prod_unfold bind_Inr_iff require_some_Inr_iff refundable_Inr_iff
        simp del: if_run require_some_run cong: if_cong)
  have w: "u0 = w" "v0 = w" using find_sale_same [OF S0(1)] refund_plan_Inr(1) [OF S0(3)] by simp_all
  note P = refund_plan_Inr [OF S0(3) [unfolded w]]
  have s: "sale \<in> set (t_sale w)" "sa_id sale = i" "sa_company sale = c" "sa_deleted sale = None"
    using find_sale_Inr [OF S0(1) [unfolded w]] by simp_all
  have pl: "planned w sale requested" using P(5,6,8) by (auto simp: planned_def P(2,4) s)
  have ls: "lines = refund_lines_of w sale requested" by (simp add: refund_lines_of_def P(2,4,7) s)
  have st: "derived_status items previous requested = refund_status_of w sale requested" by (simp add: refund_status_of_def P(2,4) s)
  obtain t where v1: "v1 = w\<lparr>t_seq := t\<rparr>" using S(1) next_number_run [of c "''SALES_REFUND''" w] by (auto simp: w)
  note I = insert_refund_Inr [OF S(2)]
  let ?rows = "refund_rows_of w sale requested" and ?st = "refund_status_of w sale requested"
  have rf: "rf_id rf = uuid_gen w (uuid_next w)" "counted_refund i c rf"
    by (simp_all add: I(1) refund_of_def v1 counted_refund_def refund_sale_data_def s)
  have rows: "rows = ?rows" by (simp add: I(2) rf refund_rows_of_def ls v1)
  have v2: "v2 = w\<lparr>t_seq := t, uuid_next := Suc (uuid_next w) + length requested, t_refund := t_refund w @ [rf],
      t_refund_item := t_refund_item w @ ?rows\<rparr>"
    unfolding I(3) rows v1 by (simp add: ls refund_lines_of_def)
  have v3: "desk_rest v3 = desk_rest v2 \<and> t_shift v3 = t_shift v2 \<and> uuid_gen v3 = uuid_gen v2 \<and> uuid_next v2 \<le> uuid_next v3"
  proof (cases "single_shot sale ?st")
    case True
    then show ?thesis using S(3) by (simp add: st)
  next
    case False
    then have A: "allocate_refund sale (rf_id rf) (\<Sum>l\<leftarrow>lines. rl_total l) user c v2 = (Inr x3, v3)" using S(3) by (simp add: st)
    show ?thesis
      using frameD [OF frame_allocate_refund A, of desk_rest] frameD [OF frame_allocate_refund A, of t_shift]
        advancesD [OF advances_refund_steps(1) A] by (simp add: desk_rest_def)
  qed
  have sales: "t_sale v3 = t_sale w" using v3 by (simp add: desk_rest_def v2)
  have v4: "v4 = v3\<lparr>t_sale := update_rows (\<lambda>r. sa_id r = i) (bumped_sale (\<lambda>r. r\<lparr>sa_status := ?st\<rparr>)) (t_sale w)\<rparr>"
    using update_sale_row_Inr [of sale "\<lambda>r. r\<lparr>sa_status := ?st\<rparr>" None v3 y v4] S(4) s ids(1) sales
    by (simp add: update_status_def st)
  have v5: "\<exists>a. v5 = v4\<lparr>t_audit := a\<rparr>" using S(5) by (auto simp: refund_audits_def)
  then have D5: "desk_rest v5 = desk_rest v4" "t_shift v5 = t_shift w" "t_payment v5 = t_payment w"
      "uuid_gen v5 = uuid_gen w \<and> uuid_next v2 \<le> uuid_next v5"
    using v3 by (auto simp: v4 v2 desk_rest_def)
  have fin: "finish_refund bus sale items rf rows (single_shot sale ?st) user (sa_company sale) v5 = (Inr (), w')"
    using S(6) by (simp add: st s)
  note F = finish_refund_Inr [OF bus _ fin]
  have ids5: "distinct (map cs_id (t_shift v5))" using ids(2) D5(2) by simp
  have D: "desk_rest w' = desk_rest v4" using F(1) [OF ids5] D5(1) by simp
  show thesis
  proof (rule that [OF s S0(2) pl rf])
    show "if single_shot sale ?st then left_shift w sale w' else t_shift w' = t_shift w"
      using F(3) [OF ids5] D5(2,3) left_shift_cong [of v5 w w' w' sale] by (cases "single_shot sale ?st") simp_all
    show "Suc (uuid_next w) + length requested \<le> uuid_next w'" "uuid_gen w' = uuid_gen w"
      using F(2) [OF ids5] D5(4) by (simp_all add: v2)
  qed (use D v3 in \<open>simp_all add: desk_rest_def v4 v2\<close>)
qed

end
