(* ===== verification/SalesDesk.thy ===== *)
theory SalesDesk
  imports SalesFlow
begin

text \<open>
  The invariant of the sales desk and the proof that every operation keeps it: the money of a sale adds up,
  its receipt, its shift and its refunds agree with its status, and the buckets of an open shift are the sales
  that count in it.
\<close>

section \<open>The invariant\<close>

definition mentioned :: "world \<Rightarrow> string set" where
  "mentioned w = insert '''' (sa_id ` set (t_sale w) \<union> si_id ` set (t_sale_item w) \<union> si_sale ` set (t_sale_item w) \<union>
     pm_sale ` set (t_payment w) \<union> rc_sale ` set (t_receipt w) \<union> cs_id ` set (t_shift w) \<union> rf_id ` set (t_refund w) \<union>
     rf_sale ` set (t_refund w) \<union> ri_refund ` set (t_refund_item w) \<union> ri_saleItem ` set (t_refund_item w))"

definition desk_ids :: "world \<Rightarrow> bool" where
  "desk_ids w \<longleftrightarrow> uuid_fresh w (mentioned w) \<and> distinct (map sa_id (t_sale w)) \<and> distinct (map si_id (t_sale_item w)) \<and>
     distinct (map cs_id (t_shift w)) \<and> distinct (map rf_id (t_refund w)) \<and> '''' \<notin> cs_id ` set (t_shift w)"

text \<open>The statuses of a sale that has been completed.\<close>

definition sold :: "sale_status \<Rightarrow> bool" where
  "sold st \<longleftrightarrow> st = SaleCompletedStatus \<or> st = SalePartiallyRefundedStatus \<or> st = SaleRefundedStatus"

abbreviation items_in :: "world \<Rightarrow> string \<Rightarrow> sale_item_row list" where
  "items_in w i \<equiv> find_many (\<lambda>x. si_sale x = i) (t_sale_item w)"

abbreviation refunds_in :: "world \<Rightarrow> string \<Rightarrow> refund_row list" where
  "refunds_in w i \<equiv> find_many (\<lambda>f. rf_sale f = i) (t_refund w)"

definition sale_money :: "world \<Rightarrow> sale_row \<Rightarrow> bool" where
  "sale_money w r \<longleftrightarrow> scale4 (sa_total r) \<and> scale4 (sa_change r) \<and> 0 \<le> sa_change r \<and> sa_total r = sa_subtotal r - sa_discount r \<and>
     sa_paid r = sa_total r + sa_change r \<and> (\<Sum>i\<leftarrow>items_in w (sa_id r). si_total i) = sa_total r \<and>
     paid_total (payments_in w (sa_id r)) = sa_paid r \<and> (\<forall>p \<in> set (payments_in w (sa_id r)). scale4 (pm_amount p)) \<and>
     (\<forall>i \<in> set (items_in w (sa_id r)). 1 \<le> si_quantity i \<and> scale4 (si_total i))"

definition sale_links :: "world \<Rightarrow> sale_row \<Rightarrow> bool" where
  "sale_links w r \<longleftrightarrow>
     length (find_many (\<lambda>x. rc_sale x = sa_id r) (t_receipt w)) = (if sold (sa_status r) then 1 else 0) \<and>
     (\<forall>i. sa_shift r = Some i \<longrightarrow> sold (sa_status r) \<and> (\<exists>s \<in> set (t_shift w). cs_id s = i \<and> cs_company s = sa_company r)) \<and>
     (sa_deleted r \<noteq> None \<longrightarrow> sa_status r = SaleDraft)"

text \<open>The refunded units, money and cost of an item; an item refunded in full has given back exactly its total.\<close>

abbreviation rows_of :: "world \<Rightarrow> sale_row \<Rightarrow> sale_item_row \<Rightarrow> refund_item_row list" where
  "rows_of w r i \<equiv> refunded_rows w (sa_id r) (sa_company r) (si_id i)"

definition refunded_units :: "world \<Rightarrow> sale_row \<Rightarrow> sale_item_row \<Rightarrow> int" where
  "refunded_units w r i = (\<Sum>x\<leftarrow>rows_of w r i. ri_quantity x)"

definition item_refunds :: "world \<Rightarrow> sale_row \<Rightarrow> sale_item_row \<Rightarrow> bool" where
  "item_refunds w r i \<longleftrightarrow> 0 \<le> refunded_units w r i \<and> refunded_units w r i \<le> si_quantity i \<and>
     (refunded_units w r i = si_quantity i \<longrightarrow> (\<Sum>x\<leftarrow>rows_of w r i. ri_total x) = si_total i \<and>
        (\<forall>f. si_fifoCost i = Some f \<and> scale4 f \<longrightarrow> (\<Sum>x\<leftarrow>rows_of w r i. ri_fifoCost x) = f))"

definition sale_refunds :: "world \<Rightarrow> sale_row \<Rightarrow> bool" where
  "sale_refunds w r \<longleftrightarrow> (\<forall>f \<in> set (refunds_in w (sa_id r)). counted_refund (sa_id r) (sa_company r) f) \<and>
     (refunds_in w (sa_id r) = [] \<longleftrightarrow> \<not> (sa_status r = SalePartiallyRefundedStatus \<or> sa_status r = SaleRefundedStatus)) \<and>
     (\<forall>i \<in> set (items_in w (sa_id r)). item_refunds w r i) \<and>
     (sa_status r = SaleRefundedStatus \<longrightarrow> (\<forall>i \<in> set (items_in w (sa_id r)). refunded_units w r i = si_quantity i)) \<and>
     (sa_status r = SalePartiallyRefundedStatus \<longrightarrow> (\<exists>i \<in> set (items_in w (sa_id r)). refunded_units w r i < si_quantity i))"

definition refund_rows_ok :: "world \<Rightarrow> bool" where
  "refund_rows_ok w \<longleftrightarrow> (\<forall>f \<in> set (t_refund w). \<exists>r \<in> set (t_sale w). sa_id r = rf_sale f) \<and>
     (\<forall>x \<in> set (t_refund_item w). scale4 (ri_total x) \<and> scale4 (ri_fifoCost x))"

text \<open>A sale counts in its shift, unless it was refunded in full at once.\<close>

definition counts :: "world \<Rightarrow> string \<Rightarrow> sale_row \<Rightarrow> bool" where
  "counts w s r \<longleftrightarrow> sa_shift r = Some s \<and> \<not> (sa_status r = SaleRefundedStatus \<and> length (refunds_in w (sa_id r)) = 1)"

definition counted_total :: "world \<Rightarrow> string \<Rightarrow> decimal" where
  "counted_total w s = (\<Sum>r\<leftarrow>t_sale w. if counts w s r then sa_total r else 0)"

definition counted_cash :: "world \<Rightarrow> string \<Rightarrow> decimal" where
  "counted_cash w s = (\<Sum>r\<leftarrow>t_sale w. if counts w s r then cash_part (payments_in w (sa_id r)) - sa_change r else 0)"

definition bucket_sum :: "shift_row \<Rightarrow> decimal" where
  "bucket_sum s = cs_cashSales s + cs_cardSales s + cs_qrSales s + cs_bankSales s + cs_mobileSales s"

definition shift_sums :: "world \<Rightarrow> shift_row \<Rightarrow> bool" where
  "shift_sums w s \<longleftrightarrow> bucket_sum s = cs_totalSales s \<and> (\<forall>x \<in> {cs_cashSales s, cs_cardSales s, cs_qrSales s, cs_bankSales s, cs_mobileSales s,
     cs_totalSales s}. scale4 x) \<and>
     (cs_status s = ShiftOpen \<longrightarrow> cs_totalSales s = counted_total w (cs_id s) \<and> cs_cashSales s = counted_cash w (cs_id s))"

definition desk_inv :: "world \<Rightarrow> bool" where
  "desk_inv w \<longleftrightarrow> desk_ids w \<and> (\<forall>r \<in> set (t_sale w). sale_money w r \<and> sale_links w r \<and> sale_refunds w r) \<and> refund_rows_ok w \<and>
     (\<forall>s \<in> set (t_shift w). shift_sums w s)"

lemma desk_invD:
  assumes "desk_inv w"
  shows "desk_ids w" "refund_rows_ok w" "\<And>r. r \<in> set (t_sale w) \<Longrightarrow> sale_money w r \<and> sale_links w r \<and> sale_refunds w r"
    "\<And>s. s \<in> set (t_shift w) \<Longrightarrow> shift_sums w s"
    "distinct (map sa_id (t_sale w))" "distinct (map cs_id (t_shift w))"
  using assms by (simp_all add: desk_inv_def desk_ids_def)

section \<open>What the parts of the invariant look at\<close>

lemma sale_money_cong:
  assumes "t_payment w' = t_payment w" and "map core (t_sale_item w') = map core (t_sale_item w)" and "sa_id r' = sa_id r"
    and "sa_total r' = sa_total r" "sa_change r' = sa_change r" "sa_subtotal r' = sa_subtotal r" "sa_discount r' = sa_discount r" "sa_paid r' = sa_paid r"
  shows "sale_money w' r' = sale_money w r"
proof -
  have core: "si_total (core i) = si_total i" "si_quantity (core i) = si_quantity i" "si_sale (core i) = si_sale i" for i
    by (simp_all add: core_def)
  have items: "map core (items_in w' i) = map core (items_in w i)" for i
    using arg_cong [OF assms(2), of "filter (\<lambda>x. si_sale x = i)"] by (simp add: filter_map o_def core find_many_def)
  have "map (\<lambda>i. (si_total i, si_quantity i)) (items_in w' i) = map (\<lambda>i. (si_total i, si_quantity i)) (items_in w i)" for i
    using arg_cong [OF items [of i], of "map (\<lambda>i. (si_total i, si_quantity i))"] by (simp add: o_def core)
  note * = this [of "sa_id r"]
  have "(\<Sum>i\<leftarrow>items_in w' (sa_id r). si_total i) = (\<Sum>i\<leftarrow>items_in w (sa_id r). si_total i)"
    using arg_cong [OF *, of "\<lambda>xs. sum_list (map fst xs)"] by (simp add: o_def)
  moreover have "(\<forall>i \<in> set (items_in w' (sa_id r)). 1 \<le> si_quantity i \<and> scale4 (si_total i)) =
      (\<forall>i \<in> set (items_in w (sa_id r)). 1 \<le> si_quantity i \<and> scale4 (si_total i))"
    using arg_cong [OF *, of "\<lambda>xs. \<forall>x \<in> set xs. 1 \<le> snd x \<and> scale4 (fst x)"] by simp
  ultimately show ?thesis using assms(1,3-) by (simp only: sale_money_def)
qed

lemma sale_refunds_cong:
  assumes "refunds_in w' (sa_id r) = refunds_in w (sa_id r)" and "items_in w' (sa_id r) = items_in w (sa_id r)"
    and "\<And>i. refunded_rows w' (sa_id r) (sa_company r) i = refunded_rows w (sa_id r) (sa_company r) i"
  shows "sale_refunds w' r = sale_refunds w r"
  by (simp only: sale_refunds_def item_refunds_def refunded_units_def assms)

definition shift_keys :: "world \<Rightarrow> (string \<times> string) list" where
  "shift_keys w = map (\<lambda>s. (cs_id s, cs_company s)) (t_shift w)"

lemma shift_keys_same: "shift_keys w' = shift_keys w \<Longrightarrow> map cs_id (t_shift w') = map cs_id (t_shift w) \<and>
    ((\<exists>s \<in> set (t_shift w'). cs_id s = i \<and> cs_company s = c) = (\<exists>s \<in> set (t_shift w). cs_id s = i \<and> cs_company s = c))"
proof -
  assume *: "shift_keys w' = shift_keys w"
  have "map cs_id (t_shift v) = map fst (shift_keys v)" "(\<exists>s \<in> set (t_shift v). cs_id s = i \<and> cs_company s = c) = ((i, c) \<in> set (shift_keys v))" for v
    by (auto simp: shift_keys_def image_iff)
  then show ?thesis using * by simp
qed

lemma sale_links_cong:
  assumes "find_many (\<lambda>x. rc_sale x = sa_id r) (t_receipt w') = find_many (\<lambda>x. rc_sale x = sa_id r) (t_receipt w)"
    and "shift_keys w' = shift_keys w"
  shows "sale_links w' r = sale_links w r"
  using shift_keys_same [OF assms(2)] by (simp only: sale_links_def assms(1))

text \<open>Identifiers drawn between two states are new.\<close>

definition drawn :: "world \<Rightarrow> world \<Rightarrow> string set" where
  "drawn w w' = uuid_gen w ` {n. uuid_next w \<le> n \<and> n < uuid_next w'}"

lemma uuid_fresh_drawn:
  assumes "uuid_fresh w A" and "uuid_gen w' = uuid_gen w" and "uuid_next w \<le> uuid_next w'" and "B \<subseteq> A \<union> drawn w w'"
  shows "uuid_fresh w' B"
proof -
  have "uuid_gen w n \<notin> B" if "uuid_next w' \<le> n" for n
  proof
    assume "uuid_gen w n \<in> B"
    then consider "uuid_gen w n \<in> A" | m where "m < uuid_next w'" "uuid_gen w n = uuid_gen w m" using assms(4) by (auto simp: drawn_def)
    then show False
    proof cases
      case 1
      then show ?thesis using assms(1,3) that by (simp add: uuid_fresh_def)
    next
      case 2
      then have "n = m" using assms(1) by (simp add: uuid_fresh_def inj_eq)
      then show ?thesis using that 2 by simp
    qed
  qed
  then show ?thesis using assms(1,2) by (simp add: uuid_fresh_def)
qed

lemma desk_inv_cong:
  assumes "desk_inv w" and "same_desk w w'"
  shows "desk_inv w'"
proof -
  have t: "t_sale w' = t_sale w" "t_payment w' = t_payment w" "t_receipt w' = t_receipt w" "t_shift w' = t_shift w" "t_refund w' = t_refund w"
    "t_refund_item w' = t_refund_item w" "t_sale_item w' = t_sale_item w"
    using assms(2) by (simp_all add: same_desk_def desk_view_def)
  have "uuid_fresh w (mentioned w)" using assms(1) by (simp add: desk_inv_def desk_ids_def)
  then have "uuid_fresh w' (mentioned w)" by (rule uuid_fresh_later) (use assms(2) in \<open>simp_all add: same_desk_def\<close>)
  moreover have "mentioned w' = mentioned w" by (simp add: mentioned_def t)
  ultimately have "desk_ids w' = desk_ids w" using assms(1) by (simp add: desk_inv_def desk_ids_def t)
  moreover have "sale_money w' r = sale_money w r" "sale_links w' r = sale_links w r" "sale_refunds w' r = sale_refunds w r" for r
    by (simp_all only: sale_money_def sale_links_def sale_refunds_def item_refunds_def refunded_units_def refunded_rows_def t)
  moreover have "shift_sums w' s = shift_sums w s" for s
    by (simp only: shift_sums_def counted_total_def counted_cash_def counts_def t)
  moreover have "refund_rows_ok w' = refund_rows_ok w" by (simp only: refund_rows_ok_def t)
  ultimately show ?thesis using assms(1) by (simp add: desk_inv_def t)
qed

text \<open>One sale is rewritten in place.\<close>

lemma sum_list_update_one:
  fixes F G :: "'r \<Rightarrow> 'n::ab_group_add"
  assumes "distinct (map k t)" and "x \<in> set t" and "\<And>y. y \<in> set t \<Longrightarrow> k y \<noteq> k x \<Longrightarrow> G y = F y"
  shows "(\<Sum>y\<leftarrow>update_rows (\<lambda>y. k y = k x) g t. G y) = (\<Sum>y\<leftarrow>t. F y) + G (g x) - F x"
  using assms
proof (induction t)
  case (Cons a t)
  show ?case
  proof (cases "a = x")
    case True
    then have other: "k y \<noteq> k x" if "y \<in> set t" for y using Cons.prems(1) that by (auto simp: rev_image_eqI)
    have "update_rows (\<lambda>y. k y = k x) g t = t" by (rule update_rows_none) (use other in simp)
    moreover have "(\<Sum>y\<leftarrow>t. G y) = (\<Sum>y\<leftarrow>t. F y)"
      by (rule arg_cong [of _ _ sum_list], rule map_cong) (use other Cons.prems(3) in simp_all)
    ultimately show ?thesis using True by simp
  next
    case False
    with Cons.prems have "x \<in> set t" "k a \<noteq> k x" by (auto simp: rev_image_eqI)
    with Cons show ?thesis by (simp add: algebra_simps)
  qed
qed simp

lemma counted_update:
  assumes "distinct (map sa_id (t_sale w))" and "sale \<in> set (t_sale w)"
    and "t_sale w' = update_rows (\<lambda>r. sa_id r = sa_id sale) g (t_sale w)"
    and "\<And>r. r \<in> set (t_sale w) \<Longrightarrow> sa_id r \<noteq> sa_id sale \<Longrightarrow> counts w' s r = counts w s r" and "t_payment w' = t_payment w"
  shows "counted_total w' s = counted_total w s + (if counts w' s (g sale) then sa_total (g sale) else 0) - (if counts w s sale then sa_total sale else 0)"
    and "counted_cash w' s = counted_cash w s +
      (if counts w' s (g sale) then cash_part (payments_in w (sa_id (g sale))) - sa_change (g sale) else 0) -
      (if counts w s sale then cash_part (payments_in w (sa_id sale)) - sa_change sale else 0)"
proof -
  have move: "(\<Sum>r\<leftarrow>update_rows (\<lambda>r. sa_id r = sa_id sale) g (t_sale w). if counts w' s r then f r else 0) =
      (\<Sum>r\<leftarrow>t_sale w. if counts w s r then f r else 0) + (if counts w' s (g sale) then f (g sale) else 0) - (if counts w s sale then f sale else 0)"
    for f :: "sale_row \<Rightarrow> decimal"
    by (rule sum_list_update_one [OF assms(1,2)]) (simp add: assms(4))
  show "counted_total w' s = counted_total w s + (if counts w' s (g sale) then sa_total (g sale) else 0) - (if counts w s sale then sa_total sale else 0)"
    unfolding counted_total_def assms(3) by (rule move)
  show "counted_cash w' s = counted_cash w s +
      (if counts w' s (g sale) then cash_part (payments_in w (sa_id (g sale))) - sa_change (g sale) else 0) -
      (if counts w s sale then cash_part (payments_in w (sa_id sale)) - sa_change sale else 0)"
    unfolding counted_cash_def assms(3,5) by (rule move)
qed

section \<open>Moving and completing a sale\<close>

lemma updated_sales:
  assumes "r \<in> set (update_rows (\<lambda>x. sa_id x = sa_id sale) g (t_sale w))" and "distinct (map sa_id (t_sale w))" and "sale \<in> set (t_sale w)"
  obtains (other) "r \<in> set (t_sale w)" "sa_id r \<noteq> sa_id sale" | (here) "r = g sale"
  using assms distinct_map_eq [OF assms(2) _ assms(3)] unfolding set_update_rows by auto

text \<open>A change of one sale that keeps its identity, its money and its links, before the sale is sold.\<close>

definition keeps_deal :: "(sale_row \<Rightarrow> sale_row) \<Rightarrow> bool" where
  "keeps_deal g \<longleftrightarrow> (\<forall>r. sa_id (g r) = sa_id r \<and> sa_company (g r) = sa_company r \<and> sa_total (g r) = sa_total r \<and> sa_change (g r) = sa_change r \<and>
     sa_subtotal (g r) = sa_subtotal r \<and> sa_discount (g r) = sa_discount r \<and> sa_paid (g r) = sa_paid r)"

lemma keeps_deal_bumped: "keeps_deal f \<Longrightarrow> keeps_deal (bumped_sale f)"
  by (simp add: keeps_deal_def bumped_sale_def)

lemma keeps_deal_related: "keeps_deal f \<Longrightarrow> keeps_deal (\<lambda>r. related rel (f r))"
  by (simp add: keeps_deal_def related_def split: option.split sale_relation.split)

lemma keeps_deal_status [simp]: "keeps_deal (\<lambda>r. r\<lparr>sa_status := st\<rparr>)" "keeps_deal (\<lambda>r. r\<lparr>sa_deleted := v\<rparr>)" "keeps_deal (edit_columns d)"
  by (simp_all add: keeps_deal_def edit_columns_def Let_def split: option.split)

lemma bumped_fields [simp]: "sa_status (bumped_sale f r) = sa_status (f r)" "sa_shift (bumped_sale f r) = sa_shift (f r)"
  "sa_total (bumped_sale f r) = sa_total (f r)" "sa_change (bumped_sale f r) = sa_change (f r)"
  "sa_deleted (bumped_sale f r) = sa_deleted (f r)" "sa_company (bumped_sale f r) = sa_company (f r)"
  by (simp_all add: bumped_sale_def)

lemma related_fields [simp]: "sa_status (related rel r) = sa_status r" "sa_deleted (related rel r) = sa_deleted r"
  "sa_change (related rel r) = sa_change r" "sa_total (related rel r) = sa_total r"
  by (simp_all add: related_def split: option.split sale_relation.split)

text \<open>What is to be shown when an operation rewrites one sale and whatever belongs to it.\<close>

lemma one_sale_keeps:
  assumes inv: "desk_inv w" and s: "sale \<in> set (t_sale w)" and g: "keeps_deal g"
    and sales: "t_sale w' = update_rows (\<lambda>r. sa_id r = sa_id sale) g (t_sale w)"
    and t: "t_payment w' = t_payment w" "map core (t_sale_item w') = map core (t_sale_item w)" "shift_keys w' = shift_keys w"
    and ids: "uuid_gen w' = uuid_gen w" "uuid_next w \<le> uuid_next w'" "mentioned w' \<subseteq> mentioned w \<union> drawn w w'"
      "distinct (map rf_id (t_refund w'))"
    and other: "\<And>r. r \<in> set (t_sale w) \<Longrightarrow> sa_id r \<noteq> sa_id sale \<Longrightarrow> sale_links w' r = sale_links w r \<and> sale_refunds w' r = sale_refunds w r"
    and here: "sale_links w' (g sale)" "sale_refunds w' (g sale)"
    and rows: "refund_rows_ok w'" and shifts: "\<And>x. x \<in> set (t_shift w') \<Longrightarrow> shift_sums w' x"
  shows "desk_inv w'"
proof -
  note I = desk_invD [OF inv]
  have id: "map sa_id (t_sale w') = map sa_id (t_sale w)" unfolding sales by (rule map_update_rows) (use g in \<open>simp add: keeps_deal_def\<close>)
  have items: "map si_id (t_sale_item w') = map si_id (t_sale_item w)"
    using arg_cong [OF t(2), of "map si_id"] by (simp add: o_def core_def)
  have "uuid_fresh w (mentioned w)" using I(1) by (simp add: desk_ids_def)
  then have "uuid_fresh w' (mentioned w')" by (rule uuid_fresh_drawn) (rule ids)+
  moreover have "cs_id ` set (t_shift w') = cs_id ` set (t_shift w)" "map cs_id (t_shift w') = map cs_id (t_shift w)"
    using shift_keys_same [OF t(3)] by (metis list.set_map)+
  ultimately have "desk_ids w'" using I(1) ids(4) by (simp add: desk_ids_def id items)
  moreover have "sale_money w' r \<and> sale_links w' r \<and> sale_refunds w' r" if "r \<in> set (t_sale w')" for r
    using that [unfolded sales] I(5) s
  proof (cases rule: updated_sales)
    case other: other
    moreover have "sale_money w' r = sale_money w r" by (rule sale_money_cong) (simp_all add: t)
    ultimately show ?thesis using I(3) assms(12) by blast
  next
    case here: here
    have "sale_money w' r = sale_money w sale" by (rule sale_money_cong) (use g in \<open>simp_all add: t here keeps_deal_def\<close>)
    then show ?thesis using I(3) [OF s] assms(13,14) here by simp
  qed
  ultimately show ?thesis using rows shifts by (simp add: desk_inv_def)
qed

lemma refund_rows_ok_cong:
  assumes "refund_rows_ok w" and "t_refund w' = t_refund w" and "t_refund_item w' = t_refund_item w"
    and "map sa_id (t_sale w') = map sa_id (t_sale w)"
  shows "refund_rows_ok w'"
proof -
  have "(\<exists>r \<in> set (t_sale w'). sa_id r = i) = (\<exists>r \<in> set (t_sale w). sa_id r = i)" for i
    using arg_cong [OF assms(4), of "\<lambda>xs. i \<in> set xs"] by (auto simp: image_iff)
  then show ?thesis using assms(1) by (simp add: refund_rows_ok_def assms(2,3))
qed

lemma shift_sums_other:
  "shift_sums w s \<Longrightarrow> counted_total w' (cs_id s) = counted_total w (cs_id s) \<Longrightarrow> counted_cash w' (cs_id s) = counted_cash w (cs_id s) \<Longrightarrow>
     shift_sums w' s"
  by (simp add: shift_sums_def)

lemma move_keeps:
  assumes inv: "desk_inv w" and s: "sale \<in> set (t_sale w)" and g: "keeps_deal g"
    and w': "w' = v\<lparr>t_sale := update_rows (\<lambda>r. sa_id r = sa_id sale) g (t_sale w)\<rparr>" and v: "same_desk w v"
    and st: "\<not> sold (sa_status sale)" "\<not> sold (sa_status (g sale))" "sa_shift (g sale) = sa_shift sale"
      "sa_deleted (g sale) \<noteq> None \<Longrightarrow> sa_status (g sale) = SaleDraft"
  shows "desk_inv w'"
proof (rule one_sale_keeps [OF inv s g])
  note I = desk_invD [OF inv]
  have t: "t_payment w' = t_payment w" "t_receipt w' = t_receipt w" "t_shift w' = t_shift w" "t_refund w' = t_refund w"
    "t_refund_item w' = t_refund_item w" "t_sale_item w' = t_sale_item w"
    using v by (simp_all add: w' same_desk_def desk_view_def)
  then show "t_payment w' = t_payment w" "map core (t_sale_item w') = map core (t_sale_item w)" "shift_keys w' = shift_keys w"
    "distinct (map rf_id (t_refund w'))"
    using I(1) by (simp_all add: shift_keys_def desk_ids_def)
  show sales: "t_sale w' = update_rows (\<lambda>r. sa_id r = sa_id sale) g (t_sale w)" by (simp add: w')
  show "uuid_gen w' = uuid_gen w" "uuid_next w \<le> uuid_next w'" using v by (simp_all add: w' same_desk_def)
  have id: "map sa_id (t_sale w') = map sa_id (t_sale w)" unfolding sales by (rule map_update_rows) (use g in \<open>simp add: keeps_deal_def\<close>)
  then have "sa_id ` set (t_sale w') = sa_id ` set (t_sale w)" by (metis list.set_map)
  then show "mentioned w' \<subseteq> mentioned w \<union> drawn w w'" by (simp only: mentioned_def t) blast
  show "sale_links w' r = sale_links w r \<and> sale_refunds w' r = sale_refunds w r" for r
    by (simp only: sale_links_def sale_refunds_def item_refunds_def refunded_units_def refunded_rows_def t)
  have old: "sale_links w sale" "sale_refunds w sale" using I(3) [OF s] by simp_all
  show "sale_links w' (g sale)" using old(1) st g by (auto simp: sale_links_def t keeps_deal_def)
  show "sale_refunds w' (g sale)"
    using old(2) st(1,2) g by (auto simp: sale_refunds_def item_refunds_def refunded_units_def refunded_rows_def t keeps_deal_def sold_def)
  show "refund_rows_ok w'" by (rule refund_rows_ok_cong [OF I(2)]) (simp_all only: t id)
  fix x assume x: "x \<in> set (t_shift w')"
  have "sa_shift sale = None" using old(1) st(1) by (auto simp: sale_links_def)
  then have none: "\<not> counts w i sale" "\<not> counts w' i (g sale)" for i using st(3) by (simp_all add: counts_def)
  have same: "counts w' i r = counts w i r" for i r by (simp add: counts_def t)
  have "counted_total w' i = counted_total w i" "counted_cash w' i = counted_cash w i" for i
    using counted_update [OF I(5) s sales same t(1), of i] none by simp_all
  then show "shift_sums w' x" using x by (auto simp only: t intro!: shift_sums_other [OF I(4)])
qed

lemma items_spared:
  assumes "map core xs = map core ys" and "map (\<lambda>i. if si_sale i \<noteq> k then si_fifoCost i else None) xs = map (\<lambda>i. if si_sale i \<noteq> k then si_fifoCost i else None) ys"
    and "j \<noteq> k"
  shows "find_many (\<lambda>i. si_sale i = j) xs = find_many (\<lambda>i. si_sale i = j) ys"
  using assms(1,2)
proof (induction xs arbitrary: ys)
  case (Cons x xs)
  then obtain y zs where ys: "ys = y # zs" by (cases ys) auto
  have c: "core x = core y" "(if si_sale x \<noteq> k then si_fifoCost x else None) = (if si_sale y \<noteq> k then si_fifoCost y else None)"
    using Cons.prems ys by simp_all
  then have "si_sale x = si_sale y" by (cases x; cases y) (simp add: core_def)
  moreover have "x = y" if "si_sale x = j"
    using c that assms(3) \<open>si_sale x = si_sale y\<close> by (cases x; cases y) (simp add: core_def)
  moreover have "find_many (\<lambda>i. si_sale i = j) xs = find_many (\<lambda>i. si_sale i = j) zs" using Cons ys by simp
  ultimately show ?case by (auto simp: ys find_many_def)
qed (simp add: find_many_def)

lemma shift_sums_joined:
  assumes "shift_sums w s" and "cs_status s = ShiftOpen" and a: "allocates ps a" "\<forall>p \<in> set ps. scale4 (pm_amount p)"
    and m: "scale4 (sa_change sale)" "scale4 (sa_total sale)" "paid_total ps = sa_total sale + sa_change sale"
    and c: "counted_total w' (cs_id s) = counted_total w (cs_id s) + sa_total sale"
      "counted_cash w' (cs_id s) = counted_cash w (cs_id s) + (cash_part ps - sa_change sale)"
  shows "shift_sums w' (bumped_shift (add_sale_to_shift a sale s) s)"
proof -
  have A: "alloc_scale4 a" "shift_sales_total a = paid_total ps" "sl_cash a = cash_part ps" using a by (simp_all add: allocates_def)
  then have B: "scale4 (cash_part ps)" "scale4 (sl_card a)" "scale4 (sl_qr a)" "scale4 (sl_bank a)" "scale4 (sl_mobile a)"
    by (simp_all add: alloc_scale4_def)
  have S: "scale4 (cs_cashSales s)" "scale4 (cs_cardSales s)" "scale4 (cs_qrSales s)" "scale4 (cs_bankSales s)" "scale4 (cs_mobileSales s)"
    "scale4 (cs_totalSales s)" "cs_totalSales s = counted_total w (cs_id s)" "cs_cashSales s = counted_cash w (cs_id s)"
    "bucket_sum s = cs_totalSales s"
    using assms(1,2) unfolding shift_sums_def by blast+
  let ?s = "bumped_shift (add_sale_to_shift a sale s) s"
  have new: "cs_cashSales ?s = cs_cashSales s + (cash_part ps - sa_change sale)" "cs_cardSales ?s = cs_cardSales s + sl_card a"
    "cs_qrSales ?s = cs_qrSales s + sl_qr a" "cs_bankSales ?s = cs_bankSales s + sl_bank a" "cs_mobileSales ?s = cs_mobileSales s + sl_mobile a"
    "cs_totalSales ?s = cs_totalSales s + sa_total sale" "cs_id ?s = cs_id s"
    by (simp_all add: bumped_shift_def add_sale_to_shift_def A(3) round4_id S(1-6) B m(1,2) scale4_add scale4_diff)
  have "bucket_sum ?s = cs_totalSales ?s"
    using S(9) A(2) m(3) A(3) by (simp add: bucket_sum_def new shift_sales_total_def)
  then show ?thesis
    by (simp add: shift_sums_def new S(1-6) B m(1,2) scale4_add scale4_diff c) (simp add: S(7,8))
qed

lemma shift_sums_left:
  assumes "shift_sums w s" and "cs_status s = ShiftOpen" and a: "allocates ps a" "\<forall>p \<in> set ps. scale4 (pm_amount p)"
    and m: "scale4 (sa_change sale)" "scale4 (sa_total sale)" "paid_total ps = sa_total sale + sa_change sale"
    and c: "counted_total w' (cs_id s) = counted_total w (cs_id s) - sa_total sale"
      "counted_cash w' (cs_id s) = counted_cash w (cs_id s) - (cash_part ps - sa_change sale)"
  shows "shift_sums w' (bumped_shift (take_sale_from_shift a sale s) s)"
proof -
  have A: "alloc_scale4 a" "shift_sales_total a = paid_total ps" "sl_cash a = cash_part ps" using a by (simp_all add: allocates_def)
  then have B: "scale4 (cash_part ps)" "scale4 (sl_card a)" "scale4 (sl_qr a)" "scale4 (sl_bank a)" "scale4 (sl_mobile a)"
    by (simp_all add: alloc_scale4_def)
  have S: "scale4 (cs_cashSales s)" "scale4 (cs_cardSales s)" "scale4 (cs_qrSales s)" "scale4 (cs_bankSales s)" "scale4 (cs_mobileSales s)"
    "scale4 (cs_totalSales s)" "cs_totalSales s = counted_total w (cs_id s)" "cs_cashSales s = counted_cash w (cs_id s)"
    "bucket_sum s = cs_totalSales s"
    using assms(1,2) unfolding shift_sums_def by blast+
  let ?s = "bumped_shift (take_sale_from_shift a sale s) s"
  have new: "cs_cashSales ?s = cs_cashSales s - (cash_part ps - sa_change sale)" "cs_cardSales ?s = cs_cardSales s - sl_card a"
    "cs_qrSales ?s = cs_qrSales s - sl_qr a" "cs_bankSales ?s = cs_bankSales s - sl_bank a" "cs_mobileSales ?s = cs_mobileSales s - sl_mobile a"
    "cs_totalSales ?s = cs_totalSales s - sa_total sale" "cs_id ?s = cs_id s"
    by (simp_all add: bumped_shift_def take_sale_from_shift_def A(3) round4_id S(1-6) B m(1,2) scale4_add scale4_diff)
  have "bucket_sum ?s = cs_totalSales ?s"
    using S(9) A(2) m(3) A(3) by (simp add: bucket_sum_def new shift_sales_total_def)
  then show ?thesis
    by (simp add: shift_sums_def new S(1-6) B m(1,2) scale4_add scale4_diff c) (simp add: S(7,8))
qed

lemma fresh_shift_id: "desk_inv w \<Longrightarrow> s \<in> set (t_shift w) \<Longrightarrow> cs_id s \<noteq> ''''"
  by (auto simp: desk_inv_def desk_ids_def rev_image_eqI)

text \<open>The shift a sale joins or leaves keeps its keys.\<close>

definition keeps_shift_key :: "(shift_row \<Rightarrow> shift_row) \<Rightarrow> bool" where
  "keeps_shift_key f \<longleftrightarrow> (\<forall>r. cs_id (f r) = cs_id r \<and> cs_company (f r) = cs_company r)"

lemma keeps_shift_key_sale [simp]: "keeps_shift_key (bumped_shift (add_sale_to_shift a sale s))"
    "keeps_shift_key (bumped_shift (take_sale_from_shift a sale s))"
  by (simp_all add: keeps_shift_key_def bumped_shift_def add_sale_to_shift_def take_sale_from_shift_def)

lemma shift_keys_update: "t_shift w' = update_rows p f (t_shift w) \<Longrightarrow> keeps_shift_key f \<Longrightarrow> shift_keys w' = shift_keys w"
  by (simp add: shift_keys_def keeps_shift_key_def map_update_rows)

lemma sale_moneyD:
  assumes "sale_money w r"
  shows "scale4 (sa_total r)" "scale4 (sa_change r)" "paid_total (payments_in w (sa_id r)) = sa_total r + sa_change r"
    "\<forall>p \<in> set (payments_in w (sa_id r)). scale4 (pm_amount p)"
  using assms unfolding sale_money_def by (elim conjE, simp only:)+

lemma complete_keeps:
  assumes inv: "desk_inv w" and bus: "desk_bus bus" and s: "sale \<in> set (t_sale w)" and st: "\<not> sold (sa_status sale)" "sa_deleted sale = None"
    and run: "complete_sale bus sale user (sa_company sale) w = (Inr x, v)"
    and w': "w' = v\<lparr>t_sale := update_rows (\<lambda>r. sa_id r = sa_id sale)
       (\<lambda>r. related (map_option ConnectShift (truthy x)) (bumped_sale (\<lambda>r. r\<lparr>sa_status := SaleCompletedStatus\<rparr>) r)) (t_sale w)\<rparr>"
  shows "desk_inv w'"
proof -
  note I = desk_invD [OF inv]
  let ?g = "\<lambda>r. related (map_option ConnectShift (truthy x)) (bumped_sale (\<lambda>r. r\<lparr>sa_status := SaleCompletedStatus\<rparr>) r)"
  have g: "keeps_deal ?g" by (intro keeps_deal_related keeps_deal_bumped keeps_deal_status)
  have money: "sale_money w sale" and links: "sale_links w sale" and refs: "sale_refunds w sale" using I(3) [OF s] by simp_all
  from run bus I(6) obtain rc ev p where C: "t_sale v = t_sale w" "t_payment v = t_payment w" "t_refund v = t_refund w"
    "t_refund_item v = t_refund_item w" "map core (t_sale_item v) = map core (t_sale_item w)" "ev = SaleCompleted rc p" "sp_sale p = sa_id sale"
    "cost_view ev v = cost_view ev w" "uuid_gen v = uuid_gen w" "uuid_next w \<le> uuid_next v" "joined_shift w sale x v"
    "t_receipt v = t_receipt w @ [receipt_of (uuid_gen w (uuid_next w)) sale (now w)]"
    by (elim complete_sale_Inr)
  have t: "t_payment w' = t_payment w" "t_refund w' = t_refund w" "t_refund_item w' = t_refund_item w"
    "map core (t_sale_item w') = map core (t_sale_item w)" "t_shift w' = t_shift v" and
    sales: "t_sale w' = update_rows (\<lambda>r. sa_id r = sa_id sale) ?g (t_sale w)"
    and rcpt: "t_receipt w' = t_receipt w @ [receipt_of (uuid_gen w (uuid_next w)) sale (now w)]"
    using C by (simp_all add: w')
  have join: "(x = None \<and> t_shift w' = t_shift w) \<or> (\<exists>s a. x = Some (cs_id s) \<and> s \<in> set (t_shift w) \<and> cs_status s = ShiftOpen \<and>
      cs_company s = sa_company sale \<and> allocates (payments_in w (sa_id sale)) a \<and>
      t_shift w' = update_rows (\<lambda>r. cs_id r = cs_id s) (bumped_shift (add_sale_to_shift a sale s)) (t_shift w))"
    using C(11) by (cases x) (auto simp: joined_shift_def t)
  have keys: "shift_keys w' = shift_keys w"
    using join by (auto simp: shift_keys_def intro: shift_keys_update [unfolded shift_keys_def])
  have items: "items_in w' j = items_in w j" if "j \<noteq> sa_id sale" for j
    by (rule items_spared [OF t(4) _ that]) (use C(8) in \<open>simp add: cost_view_def spared_def C(6,7) w'\<close>)
  have id: "map sa_id (t_sale w') = map sa_id (t_sale w)" unfolding sales by (rule map_update_rows) simp
  have norefs: "refunds_in w (sa_id sale) = []" using refs st(1) by (auto simp: sale_refunds_def sold_def)
  then have norows: "refunded_rows w (sa_id sale) c i = []" for c i
    by (auto simp: refunded_rows_def find_many_def filter_empty_conv counted_refund_def)
  have noshift: "sa_shift sale = None" using links st(1) by (auto simp: sale_links_def)
  have shift': "sa_shift (?g sale) = x"
    using join fresh_shift_id [OF inv] noshift by (auto simp: related_def truthy_def)
  show ?thesis
  proof (rule one_sale_keeps [OF inv s g sales t(1,4) keys])
    show "uuid_gen w' = uuid_gen w" "uuid_next w \<le> uuid_next w'" using C by (simp_all add: w')
    have "sa_id ` set (t_sale w') = sa_id ` set (t_sale w)" using id by (metis list.set_map)
    moreover have "map si_id (t_sale_item w') = map si_id (t_sale_item w)" "map si_sale (t_sale_item w') = map si_sale (t_sale_item w)"
      using arg_cong [OF t(4), of "map si_id"] arg_cong [OF t(4), of "map si_sale"] by (simp_all add: o_def core_def)
    then have "si_id ` set (t_sale_item w') = si_id ` set (t_sale_item w)" "si_sale ` set (t_sale_item w') = si_sale ` set (t_sale_item w)"
      by (metis list.set_map)+
    moreover have "cs_id ` set (t_shift w') = cs_id ` set (t_shift w)" using shift_keys_same [OF keys] by (metis list.set_map)
    ultimately show "mentioned w' \<subseteq> mentioned w \<union> drawn w w'"
      using s by (auto simp: mentioned_def t(1-3) rcpt receipt_of_def)
    show "distinct (map rf_id (t_refund w'))" using I(1) by (simp add: t desk_ids_def)
    fix r assume "r \<in> set (t_sale w)" and r: "sa_id r \<noteq> sa_id sale"
    have "sale_links w' r = sale_links w r" by (rule sale_links_cong [OF _ keys]) (use r in \<open>simp add: rcpt receipt_of_def find_many_def\<close>)
    moreover have "sale_refunds w' r = sale_refunds w r" by (rule sale_refunds_cong) (use items [OF r] in \<open>simp_all add: t refunded_rows_def\<close>)
    ultimately show "sale_links w' r = sale_links w r \<and> sale_refunds w' r = sale_refunds w r" by simp
  next
    have "\<exists>s \<in> set (t_shift w'). cs_id s = i \<and> cs_company s = sa_company sale" if "x = Some i" for i
      using join that shift_keys_same [OF keys, of i "sa_company sale"] by auto
    moreover have "length (find_many (\<lambda>y. rc_sale y = sa_id sale) (t_receipt w')) = 1"
      using links st(1) by (simp add: sale_links_def rcpt receipt_of_def find_many_def)
    moreover have "sa_company (?g sale) = sa_company sale" using g unfolding keeps_deal_def by blast
    ultimately show "sale_links w' (?g sale)"
      using st(2) shift' by (simp only: sale_links_def) (simp add: sold_def)
  next
    have "sale_money w' sale" using money by (subst sale_money_cong [OF t(1,4)]) simp_all
    then have "\<forall>i \<in> set (items_in w' (sa_id sale)). 1 \<le> si_quantity i" by (simp add: sale_money_def)
    then show "sale_refunds w' (?g sale)" using norefs norows g
      by (auto simp: sale_refunds_def item_refunds_def refunded_units_def refunded_rows_def t keeps_deal_def)
  next
    show "refund_rows_ok w'" by (rule refund_rows_ok_cong [OF I(2) t(2,3) id])
  next
    fix y assume y: "y \<in> set (t_shift w')"
    have same: "counts w' i r = counts w i r" for i r by (simp add: counts_def t)
    have "\<not> counts w i sale" "counts w' i (?g sale) = (x = Some i)" for i
      using noshift norefs by (simp_all add: counts_def shift' t)
    then have sums: "counted_total w' i = counted_total w i + (if x = Some i then sa_total sale else 0)"
      "counted_cash w' i = counted_cash w i + (if x = Some i then cash_part (payments_in w (sa_id sale)) - sa_change sale else 0)" for i
      using counted_update [OF I(5) s sales same t(1), of i] by simp_all
    from join consider (alone) "x = None" "t_shift w' = t_shift w" | (joined) sh a where "x = Some (cs_id sh)" "sh \<in> set (t_shift w)"
      "cs_status sh = ShiftOpen" "allocates (payments_in w (sa_id sale)) a"
      "t_shift w' = update_rows (\<lambda>r. cs_id r = cs_id sh) (bumped_shift (add_sale_to_shift a sale sh)) (t_shift w)" by blast
    then show "shift_sums w' y"
    proof cases
      case alone
      then show ?thesis using y sums by (auto intro!: shift_sums_other [OF I(4)])
    next
      case joined
      from y joined(2,5) distinct_map_eq [OF I(6) _ joined(2)] consider "y \<in> set (t_shift w)" "cs_id y \<noteq> cs_id sh"
        | "y = bumped_shift (add_sale_to_shift a sale sh) sh" by (auto simp: set_update_rows)
      then show ?thesis
      proof cases
        case 1
        then show ?thesis using sums joined(1) by (auto intro!: shift_sums_other [OF I(4)])
      next
        case 2
        show ?thesis unfolding 2
          by (rule shift_sums_joined [OF I(4) [OF joined(2)] joined(3,4)]) (use sale_moneyD [OF money] sums joined(1) in simp_all)
      qed
    qed
  qed
qed

section \<open>Creating a sale\<close>

text \<open>The validated request: quantities are at least one; the amounts have at most four decimals.\<close>

definition exact_request :: "sale_dto \<Rightarrow> bool" where
  "exact_request d \<longleftrightarrow> (\<forall>i \<in> set (nd_items d). 1 \<le> ni_quantity i \<and> scale4 (ni_unitPrice i) \<and> scale4 (to_decimal (ni_discount i))) \<and>
     (\<forall>p \<in> set (nd_payments d). scale4 (np_amount p))"

definition exact_item :: "item_data \<Rightarrow> bool" where
  "exact_item d \<longleftrightarrow> 1 \<le> it_quantity d \<and> scale4 (it_subtotal d) \<and> scale4 (it_discount d) \<and> it_total d = it_subtotal d - it_discount d"

lemma priced_exact: "list_all2 (priced w c) is items \<Longrightarrow>
    \<forall>i \<in> set is. 1 \<le> ni_quantity i \<and> scale4 (ni_unitPrice i) \<and> scale4 (to_decimal (ni_discount i)) \<Longrightarrow> \<forall>d \<in> set items. exact_item d"
  by (induction rule: list_all2_induct) (auto simp: priced_def price_item_def exact_item_def Let_def)

lemma exact_total: "\<forall>d \<in> set items. exact_item d \<Longrightarrow>
    (\<Sum>d\<leftarrow>items. round4 (it_total d)) = (\<Sum>d\<leftarrow>items. it_subtotal d) - (\<Sum>d\<leftarrow>items. it_discount d) \<and>
    scale4 (\<Sum>d\<leftarrow>items. it_subtotal d) \<and> scale4 (\<Sum>d\<leftarrow>items. it_discount d)"
  by (induction items) (auto simp: exact_item_def round4_id)

lemma with_sale_money:
  assumes items: "\<forall>i \<in> set items. exact_item i" and pays: "\<forall>p \<in> set (nd_payments d). scale4 (np_amount p)"
    and enough: "(\<Sum>i\<leftarrow>items. it_subtotal i) - (\<Sum>i\<leftarrow>items. it_discount i) \<le> (\<Sum>p\<leftarrow>nd_payments d. np_amount p)"
    and rows: "items_in w' u = numbered g (\<lambda>x. item_of x u t) n items" "payments_in w' u = numbered g (\<lambda>x. payment_of x u t) m (nd_payments d)"
  shows "sale_money w' (sale_of u t (priced_sale d user c number currency items))"
proof -
  let ?d = "priced_sale d user c number currency items"
  note T = exact_total [OF items]
  have paid: "scale4 (\<Sum>p\<leftarrow>nd_payments d. np_amount p)" using pays by (intro scale4_sum_list) simp
  have D: "scale4 (sn_total ?d)" "scale4 (sn_subtotal ?d)" "scale4 (sn_discount ?d)" "scale4 (sn_change ?d)" "scale4 (sn_paid ?d)"
    "sn_total ?d = sn_subtotal ?d - sn_discount ?d" "sn_paid ?d = sn_total ?d + sn_change ?d" "0 \<le> sn_change ?d"
    "sn_total ?d = (\<Sum>d\<leftarrow>items. round4 (it_total d))" "sn_paid ?d = (\<Sum>p\<leftarrow>nd_payments d. np_amount p)"
    using T paid enough by (simp_all add: priced_sale_def Let_def)
  have "(\<Sum>i\<leftarrow>items_in w' u. si_total i) = sn_total ?d"
    unfolding rows D(9) by (rule arg_cong [of _ _ sum_list], rule map_numbered) (simp add: item_of_def)
  moreover have "paid_total (payments_in w' u) = sn_paid ?d"
  proof -
    have "map pm_amount (payments_in w' u) = map (\<lambda>p. round4 (np_amount p)) (nd_payments d)"
      unfolding rows by (rule map_numbered) (simp add: payment_of_def)
    also have "\<dots> = map np_amount (nd_payments d)" using pays by (intro map_cong) (simp_all add: round4_id)
    finally show ?thesis by (simp only: paid_total_def D(10))
  qed
  moreover have "\<forall>p \<in> set (payments_in w' u). scale4 (pm_amount p)"
    unfolding rows by (auto dest!: set_numbered simp: payment_of_def)
  moreover have "\<forall>i \<in> set (items_in w' u). 1 \<le> si_quantity i \<and> scale4 (si_total i)"
    unfolding rows using items by (auto dest!: set_numbered simp: item_of_def exact_item_def)
  moreover have "sa_id (sale_of u t ?d) = u" "sa_total (sale_of u t ?d) = sn_total ?d" "sa_change (sale_of u t ?d) = sn_change ?d"
    "sa_subtotal (sale_of u t ?d) = sn_subtotal ?d" "sa_discount (sale_of u t ?d) = sn_discount ?d" "sa_paid (sale_of u t ?d) = sn_paid ?d"
    by (simp_all only: sale_of_def sale_row.select_convs round4_id D(1-5))
  ultimately show ?thesis using D(1,4,6,7,8) by (simp only: sale_money_def)
qed

lemma create_keeps:
  assumes inv: "desk_inv w" and exact: "exact_request d" and run: "create_work d user c number w = (Inr b, w')"
  shows "desk_inv w'"
proof -
  note I = desk_invD [OF inv]
  obtain items cur where R: "list_all2 (priced w c) (nd_items d) items"
    "(\<Sum>i\<leftarrow>items. it_subtotal i) - (\<Sum>i\<leftarrow>items. it_discount i) \<le> (\<Sum>p\<leftarrow>nd_payments d. np_amount p)"
    "w' = with_sale (priced_sale d user c number cur items) items (nd_payments d) w"
    using create_work_Inr [OF run] by metis
  define u where "u = uuid_gen w (uuid_next w)"
  define row where "row = sale_of u (now w) (priced_sale d user c number cur items)"
  define its where "its = numbered (uuid_gen w) (\<lambda>x. item_of x u (now w)) (Suc (uuid_next w)) items"
  define ps where "ps = numbered (uuid_gen w) (\<lambda>x. payment_of x u (now w)) (Suc (uuid_next w) + length items) (nd_payments d)"
  have w': "w' = w\<lparr>uuid_next := Suc (uuid_next w) + length items + length (nd_payments d), t_sale := t_sale w @ [row],
      t_sale_item := t_sale_item w @ its, t_payment := t_payment w @ ps\<rparr>"
    by (simp add: R(3) with_sale_def Let_def u_def row_def its_def ps_def)
  have fresh: "uuid_fresh w (mentioned w)" using I(1) by (simp add: desk_ids_def)
  then have new: "u \<notin> mentioned w" by (simp add: uuid_fresh_def u_def)
  have row: "sa_id row = u" "sa_shift row = None" "sa_status row = SaleDraft" "sa_deleted row = None" by (simp_all add: row_def sale_of_def)
  have "si_sale i = u" if "i \<in> set its" for i using that by (auto simp: its_def item_of_def dest!: set_numbered)
  then have items: "items_in w' i = (if i = u then its else items_in w i)" for i
    using new by (auto simp: w' find_many_def mentioned_def filter_empty_conv filter_True)
  have "pm_sale p = u" if "p \<in> set ps" for p using that by (auto simp: ps_def payment_of_def dest!: set_numbered)
  then have pays: "payments_in w' i = (if i = u then ps else payments_in w i)" for i
    using new by (auto simp: w' find_many_def mentioned_def filter_empty_conv filter_True)
  have other: "sa_id r \<noteq> u" if "r \<in> set (t_sale w)" for r using new that by (auto simp: mentioned_def)
  have ids: "map si_id its = map (uuid_gen w) [Suc (uuid_next w)..<Suc (uuid_next w) + length items]"
    unfolding its_def by (rule numbered_ids) (simp add: item_of_def)
  have new_ids: "\<exists>n. uuid_next w \<le> n \<and> n < uuid_next w' \<and> x = uuid_gen w n" if "x \<in> si_id ` set its" for x
  proof -
    have "x \<in> set (map si_id its)" using that by simp
    then obtain n where "Suc (uuid_next w) \<le> n" "n < Suc (uuid_next w) + length items" "x = uuid_gen w n"
      unfolding ids by (auto simp del: upt_Suc)
    then show ?thesis by (intro exI [of _ n]) (simp add: w')
  qed
  have "desk_ids w'"
    unfolding desk_ids_def
  proof (intro conjI)
    have "u \<in> drawn w w'" by (auto simp: u_def drawn_def w')
    moreover have "si_id ` set its \<subseteq> drawn w w'" using new_ids by (auto simp: drawn_def)
    moreover have "si_sale ` set its \<subseteq> {u}" "pm_sale ` set ps \<subseteq> {u}"
      using \<open>\<And>i. i \<in> set its \<Longrightarrow> si_sale i = u\<close> \<open>\<And>p. p \<in> set ps \<Longrightarrow> pm_sale p = u\<close> by auto
    ultimately have "mentioned w' \<subseteq> mentioned w \<union> drawn w w'" by (auto simp: mentioned_def w' row)
    then show "uuid_fresh w' (mentioned w')" by (rule uuid_fresh_drawn [OF fresh, rotated 2]) (simp_all add: w')
    show "distinct (map sa_id (t_sale w'))" using I(5) other by (auto simp: w' row)
    have "distinct (map si_id its)" unfolding ids using fresh by (simp add: distinct_map uuid_fresh_def inj_on_def inj_def)
    moreover have "x \<notin> si_id ` set (t_sale_item w)" if "x \<in> si_id ` set its" for x
      using new_ids [OF that] fresh by (auto simp: uuid_fresh_def mentioned_def)
    ultimately show "distinct (map si_id (t_sale_item w'))" using I(1) by (auto simp: w' desk_ids_def)
  qed (use I(1) in \<open>simp_all add: w' desk_ids_def\<close>)
  moreover have "sale_money w' r \<and> sale_links w' r \<and> sale_refunds w' r" if "r \<in> set (t_sale w')" for r
  proof (cases "r = row")
    case True
    have "\<forall>i \<in> set items. exact_item i" using priced_exact [OF R(1)] exact by (simp add: exact_request_def)
    then have "sale_money w' row"
      unfolding row_def by (rule with_sale_money) (use R(2) exact in \<open>simp_all add: items pays its_def ps_def exact_request_def\<close>)
    moreover have "sale_links w' row"
      using new by (auto simp: sale_links_def row sold_def w' find_many_def filter_empty_conv mentioned_def)
    moreover have norefs: "refunds_in w' u = []" using new by (auto simp: w' find_many_def filter_empty_conv mentioned_def)
    then have "refunded_rows w' u k i = []" for k i by (auto simp: refunded_rows_def find_many_def filter_empty_conv counted_refund_def)
    then have "sale_refunds w' row"
      using \<open>sale_money w' row\<close> norefs by (auto simp: sale_refunds_def row item_refunds_def refunded_units_def sale_money_def)
    ultimately show ?thesis using True by simp
  next
    case False
    then have r: "r \<in> set (t_sale w)" using that by (simp add: w')
    have "sale_money w' r = sale_money w r" by (simp only: sale_money_def items pays other [OF r] if_False)
    moreover have "sale_links w' r = sale_links w r" by (rule sale_links_cong) (simp_all add: w' shift_keys_def)
    moreover have "sale_refunds w' r = sale_refunds w r"
      by (rule sale_refunds_cong) (use items other [OF r] in \<open>simp_all add: w' refunded_rows_def\<close>)
    ultimately show ?thesis using I(3) [OF r] by simp
  qed
  moreover have "refund_rows_ok w'" using I(2) by (auto simp: refund_rows_ok_def w')
  moreover have "shift_sums w' s" if s: "s \<in> set (t_shift w')" for s
  proof -
    have same: "counts w' i r = counts w i r" for i r by (simp add: counts_def w')
    have "counted_total w' i = counted_total w i" for i
      by (simp add: counted_total_def same) (simp add: w' counts_def row)
    moreover have "counted_cash w' i = counted_cash w i" for i
    proof -
      have "(\<Sum>r\<leftarrow>t_sale w. if counts w i r then cash_part (payments_in w' (sa_id r)) - sa_change r else 0) = counted_cash w i"
        unfolding counted_cash_def by (rule arg_cong [of _ _ sum_list], rule map_cong) (use pays other in simp_all)
      moreover have "counted_cash w' i = (\<Sum>r\<leftarrow>t_sale w. if counts w i r then cash_part (payments_in w' (sa_id r)) - sa_change r else 0)"
        by (simp only: counted_cash_def same) (simp add: w' counts_def row)
      ultimately show ?thesis by simp
    qed
    ultimately show ?thesis using s by (auto simp: w' intro!: shift_sums_other [OF I(4)])
  qed
  ultimately show ?thesis by (simp add: desk_inv_def)
qed

section \<open>Refunding a sale\<close>

lemma filter_map_of:
  "distinct (map fst xs) \<Longrightarrow> filter (\<lambda>(i, _). i = k) xs = (case map_of xs k of None \<Rightarrow> [] | Some q \<Rightarrow> [(k, q)])"
proof (induction xs)
  case (Cons x xs)
  then show ?case
    by (cases x) (auto split: option.split simp: map_of_eq_None_iff filter_empty_conv rev_image_eqI)
qed simp

text \<open>The line of an item of the sale, and the rows of the refund that are about it.\<close>

abbreviation line_for :: "world \<Rightarrow> sale_row \<Rightarrow> sale_item_row \<Rightarrow> int \<Rightarrow> refund_line" where
  "line_for w sale \<equiv> refund_line_of (dec_div w) (sums_in w (sa_id sale) (sa_company sale))"

lemma found_item:
  assumes "desk_inv w" and "item \<in> set (items_in w i)"
  shows "find_item (sale_items w i) (si_id item) = Some item"
proof -
  have "distinct (map si_id (t_sale_item w))" using assms(1) by (simp add: desk_inv_def desk_ids_def)
  then have inj: "inj_on si_id (set (t_sale_item w))" by (simp add: distinct_map)
  show ?thesis
  proof (cases "find_item (sale_items w i) (si_id item)")
    case None
    then show ?thesis using assms(2) by (auto simp: find_item_def find_first_None_iff find_many_def)
  next
    case (Some y)
    then have "y \<in> set (t_sale_item w)" "si_id y = si_id item" by (auto simp: find_item_def dest: find_first_SomeD)
    with Some inj assms(2) show ?thesis by (auto simp: find_many_def inj_on_def)
  qed
qed

lemma refund_row_parts:
  assumes "planned w sale requested"
  shows "map (\<lambda>x. (ri_saleItem x, ri_quantity x, ri_total x, ri_fifoCost x)) (refund_rows_of w sale requested) =
    map (\<lambda>(i, q). let l = line_for w sale (the (find_item (sale_items w (sa_id sale)) i)) q in (i, q, round4 (rl_total l), round4 (rl_fifoCost l))) requested"
proof -
  have "map (\<lambda>x. (ri_saleItem x, ri_quantity x, ri_total x, ri_fifoCost x)) (refund_rows_of w sale requested) =
      map (\<lambda>l. (si_id (rl_item l), rl_quantity l, round4 (rl_total l), round4 (rl_fifoCost l))) (refund_lines_of w sale requested)"
    unfolding refund_rows_of_def by (subst map_numbered) (auto simp: refund_item_of_def line_data_def o_def)
  also have "\<dots> = map (\<lambda>(i, q). let l = line_for w sale (the (find_item (sale_items w (sa_id sale)) i)) q in
      (i, q, round4 (rl_total l), round4 (rl_fifoCost l))) requested"
    unfolding refund_lines_of_def map_map
  proof (rule map_cong [OF refl])
    fix x assume "x \<in> set requested"
    moreover obtain i q where x: "x = (i, q)" by (cases x)
    ultimately obtain item where "find_item (sale_items w (sa_id sale)) i = Some item" using assms by (fastforce simp: planned_def)
    moreover from this have "si_id item = i" by (auto simp: find_item_def dest: find_first_SomeD)
    ultimately show "((\<lambda>l. (si_id (rl_item l), rl_quantity l, round4 (rl_total l), round4 (rl_fifoCost l))) \<circ>
        (\<lambda>(i, q). line_for w sale (the (find_item (sale_items w (sa_id sale)) i)) q)) x =
      (case x of (i, q) \<Rightarrow> let l = line_for w sale (the (find_item (sale_items w (sa_id sale)) i)) q in
        (i, q, round4 (rl_total l), round4 (rl_fifoCost l)))"
      by (simp add: x refund_line_of_def Let_def)
  qed
  finally show ?thesis .
qed

lemma refund_rows_about:
  assumes inv: "desk_inv w" and pl: "planned w sale requested" and item: "item \<in> set (items_in w (sa_id sale))"
  shows "map (\<lambda>x. (ri_quantity x, ri_total x, ri_fifoCost x)) (filter (\<lambda>x. ri_saleItem x = si_id item) (refund_rows_of w sale requested)) =
    (case map_of requested (si_id item) of None \<Rightarrow> []
     | Some q \<Rightarrow> [(q, round4 (rl_total (line_for w sale item q)), round4 (rl_fifoCost (line_for w sale item q)))])"
proof -
  let ?i = "si_id item" and ?R = "refund_rows_of w sale requested"
  let ?f = "\<lambda>(i, q). let l = line_for w sale (the (find_item (sale_items w (sa_id sale)) i)) q in (i, q, round4 (rl_total l), round4 (rl_fifoCost l))"
  have "map (\<lambda>x. (ri_saleItem x, ri_quantity x, ri_total x, ri_fifoCost x)) (filter (\<lambda>x. ri_saleItem x = ?i) ?R) =
      filter (\<lambda>y. fst y = ?i) (map (\<lambda>x. (ri_saleItem x, ri_quantity x, ri_total x, ri_fifoCost x)) ?R)"
    by (simp add: filter_map o_def)
  also have "\<dots> = map ?f (filter (\<lambda>(i, _). i = ?i) requested)"
    unfolding refund_row_parts [OF pl] filter_map
    by (rule arg_cong [of _ _ "map ?f"], rule filter_cong) (auto simp: Let_def)
  also have "\<dots> = map ?f (case map_of requested ?i of None \<Rightarrow> [] | Some q \<Rightarrow> [(?i, q)])"
    using pl by (simp add: filter_map_of planned_def)
  finally have "map snd (map (\<lambda>x. (ri_saleItem x, ri_quantity x, ri_total x, ri_fifoCost x)) (filter (\<lambda>x. ri_saleItem x = ?i) ?R)) =
      map snd (map ?f (case map_of requested ?i of None \<Rightarrow> [] | Some q \<Rightarrow> [(?i, q)]))" by simp
  then show ?thesis by (simp add: o_def found_item [OF inv item] Let_def split: option.split)
qed

text \<open>A line within the plan keeps the account of its item, and the last one takes what is left.\<close>

lemma last_line_exact:
  assumes "q = si_quantity item - units_of (previous (si_id item))" and "scale4 (money_of (previous (si_id item)))" "scale4 (si_total item)"
  shows "rl_total (refund_line_of quot previous item q) = si_total item - money_of (previous (si_id item))"
    and "si_fifoCost item = Some f \<Longrightarrow> scale4 f \<Longrightarrow> scale4 (cost_of (previous (si_id item))) \<Longrightarrow>
      rl_fifoCost (refund_line_of quot previous item q) = f - cost_of (previous (si_id item))"
  using assms by (simp_all add: refund_line_of_def refund_fifo_cost_def Let_def round4_id)

lemma item_refunds_grow:
  assumes inv: "desk_inv w" and pl: "planned w sale requested" and s: "sale \<in> set (t_sale w)" and item: "item \<in> set (items_in w (sa_id sale))"
    and rows: "rows_of w' r item = rows_of w sale item @ filter (\<lambda>x. ri_saleItem x = si_id item) (refund_rows_of w sale requested)"
  shows "refunded_units w' r item = refunded_units w sale item + (case map_of requested (si_id item) of None \<Rightarrow> 0 | Some q \<Rightarrow> q)"
    and "item_refunds w' r item"
proof -
  let ?new = "filter (\<lambda>x. ri_saleItem x = si_id item) (refund_rows_of w sale requested)"
  let ?l = "line_for w sale item"
  note A = refund_rows_about [OF inv pl item]
  have parts: "map ri_quantity ?new = (case map_of requested (si_id item) of None \<Rightarrow> [] | Some q \<Rightarrow> [q])"
    "map ri_total ?new = (case map_of requested (si_id item) of None \<Rightarrow> [] | Some q \<Rightarrow> [round4 (rl_total (?l q))])"
    "map ri_fifoCost ?new = (case map_of requested (si_id item) of None \<Rightarrow> [] | Some q \<Rightarrow> [round4 (rl_fifoCost (?l q))])"
    using arg_cong [OF A, of "map fst"] arg_cong [OF A, of "map (\<lambda>x. fst (snd x))"] arg_cong [OF A, of "map (\<lambda>x. snd (snd x))"]
    by (simp_all add: o_def split: option.splits)
  show units: "refunded_units w' r item = refunded_units w sale item + (case map_of requested (si_id item) of None \<Rightarrow> 0 | Some q \<Rightarrow> q)"
    by (simp add: refunded_units_def rows parts(1) split: option.split)
  have old: "item_refunds w sale item" and pos: "1 \<le> si_quantity item" "scale4 (si_total item)"
    using desk_invD(3) [OF inv s] item by (simp_all add: sale_refunds_def sale_money_def)
  have sums: "units_of (sums_in w (sa_id sale) (sa_company sale) (si_id item)) = refunded_units w sale item"
    by (simp add: sums_in_parts refunded_units_def)
  have "scale4 (ri_total x) \<and> scale4 (ri_fifoCost x)" if "x \<in> set (rows_of w sale item)" for x
    using desk_invD(2) [OF inv] that by (simp add: refund_rows_ok_def refunded_rows_def find_many_def)
  then have exact: "scale4 (\<Sum>x\<leftarrow>rows_of w sale item. ri_total x)" "scale4 (\<Sum>x\<leftarrow>rows_of w sale item. ri_fifoCost x)"
    by (simp_all add: scale4_sum_list)
  show "item_refunds w' r item"
  proof (cases "map_of requested (si_id item)")
    case None
    then show ?thesis using old by (simp add: item_refunds_def units) (simp add: rows parts)
  next
    case (Some q)
    then have "(si_id item, q) \<in> set requested" by (rule map_of_SomeD)
    then have q: "0 < q" "q \<le> si_quantity item - refunded_units w sale item"
      using pl found_item [OF inv item] sums by (fastforce simp: planned_def)+
    have last: "round4 (rl_total (?l q)) = si_total item - (\<Sum>x\<leftarrow>rows_of w sale item. ri_total x)"
      "si_fifoCost item = Some f \<Longrightarrow> scale4 f \<Longrightarrow> round4 (rl_fifoCost (?l q)) = f - (\<Sum>x\<leftarrow>rows_of w sale item. ri_fifoCost x)"
      if "refunded_units w sale item + q = si_quantity item" for f
      using last_line_exact [where q = q and item = item and previous = "sums_in w (sa_id sale) (sa_company sale)" and quot = "dec_div w"] that exact pos(2)
      by (simp_all add: sums sums_in_parts(2,3) round4_id)
    show ?thesis using old q last Some by (auto simp: item_refunds_def units) (auto simp: rows parts)
  qed
qed

lemma shift_sums_closed: "shift_sums w s \<Longrightarrow> cs_status s \<noteq> ShiftOpen \<Longrightarrow> shift_sums w' s"
  by (simp add: shift_sums_def)

lemma left_shift_cases:
  assumes inv: "desk_inv w" and s: "sale \<in> set (t_sale w)" and left: "left_shift w sale w'"
  obtains (stays) "t_shift w' = t_shift w" "\<And>y. y \<in> set (t_shift w) \<Longrightarrow> cs_status y = ShiftOpen \<Longrightarrow> sa_shift sale \<noteq> Some (cs_id y)"
  | (leaves) sh a where "sh \<in> set (t_shift w)" "sa_shift sale = Some (cs_id sh)" "cs_status sh = ShiftOpen"
      "allocates (payments_in w (sa_id sale)) a"
      "t_shift w' = update_rows (\<lambda>r. cs_id r = cs_id sh) (bumped_shift (take_sale_from_shift a sale sh)) (t_shift w)"
proof -
  note I = desk_invD [OF inv]
  have truthy: "truthy (sa_shift sale) = sa_shift sale"
    using I(3) [OF s] fresh_shift_id [OF inv] by (cases "sa_shift sale") (auto simp: truthy_def sale_links_def)
  have own: "cs_company y = sa_company sale" if y: "y \<in> set (t_shift w)" "sa_shift sale = Some (cs_id y)" for y
  proof -
    obtain z where "z \<in> set (t_shift w)" "cs_id z = cs_id y" "cs_company z = sa_company sale"
      using I(3) [OF s] y(2) by (auto simp: sale_links_def)
    then show ?thesis using distinct_map_eq [OF I(6) y(1), of z] by simp
  qed
  show thesis
    using left stays leaves own unfolding left_shift_def truthy by blast
qed

lemma refund_shift_sums:
  assumes inv: "desk_inv w" and s: "sale \<in> set (t_sale w)" and st: "sa_status sale \<noteq> SaleRefundedStatus"
    and sales: "t_sale w' = update_rows (\<lambda>r. sa_id r = sa_id sale) (bumped_sale (\<lambda>r. r\<lparr>sa_status := st'\<rparr>)) (t_sale w)"
    and refs: "refunds_in w' (sa_id sale) = refunds_in w (sa_id sale) @ [rf]"
      "\<And>i. i \<noteq> sa_id sale \<Longrightarrow> refunds_in w' i = refunds_in w i"
    and pays: "t_payment w' = t_payment w" and single: "single_shot sale st' \<longleftrightarrow> st' = SaleRefundedStatus \<and> refunds_in w (sa_id sale) = []"
    and shift: "if single_shot sale st' then left_shift w sale w' else t_shift w' = t_shift w" and y: "y \<in> set (t_shift w')"
  shows "shift_sums w' y"
proof -
  note I = desk_invD [OF inv]
  let ?g = "bumped_sale (\<lambda>r. r\<lparr>sa_status := st'\<rparr>)"
  have same: "counts w' i r = counts w i r" if "sa_id r \<noteq> sa_id sale" for i r using refs(2) [OF that] by (simp add: counts_def)
  have before: "counts w i sale \<longleftrightarrow> sa_shift sale = Some i" for i using st by (simp add: counts_def)
  have after: "counts w' i (?g sale) \<longleftrightarrow> sa_shift sale = Some i \<and> \<not> single_shot sale st'" for i
    using single by (simp add: counts_def refs(1))
  have sums: "counted_total w' i = counted_total w i - (if sa_shift sale = Some i \<and> single_shot sale st' then sa_total sale else 0)"
    "counted_cash w' i = counted_cash w i -
      (if sa_shift sale = Some i \<and> single_shot sale st' then cash_part (payments_in w (sa_id sale)) - sa_change sale else 0)" for i
    using counted_update [OF I(5) s sales same pays, of i] by (simp_all add: before after)
  show ?thesis
  proof (cases "single_shot sale st'")
    case False
    then show ?thesis using shift y sums by (auto intro!: shift_sums_other [OF I(4)])
  next
    case True
    with shift have "left_shift w sale w'" by simp
    with inv s show ?thesis
    proof (cases rule: left_shift_cases)
      case stays
      then show ?thesis
        using y sums I(4) [of y] shift_sums_closed [of w y w'] by (cases "cs_status y = ShiftOpen") (auto intro!: shift_sums_other [OF I(4)])
    next
      case (leaves sh a)
      from y leaves(1,5) distinct_map_eq [OF I(6) _ leaves(1)] consider "y \<in> set (t_shift w)" "cs_id y \<noteq> cs_id sh"
        | "y = bumped_shift (take_sale_from_shift a sale sh) sh" by (auto simp: set_update_rows)
      then show ?thesis
      proof cases
        case 1
        then show ?thesis using sums leaves(2) by (auto intro!: shift_sums_other [OF I(4)])
      next
        case 2
        show ?thesis unfolding 2
          by (rule shift_sums_left [OF I(4) [OF leaves(1)] leaves(3,4)])
             (use sale_moneyD [of w sale] I(3) [OF s] sums leaves(2) True in simp_all)
      qed
    qed
  qed
qed

lemma refund_rows_new:
  assumes "x \<in> set (refund_rows_of w sale requested)" and pl: "planned w sale requested"
  shows "ri_refund x = uuid_gen w (uuid_next w)" "scale4 (ri_total x) \<and> scale4 (ri_fifoCost x)" "ri_saleItem x \<in> si_id ` set (t_sale_item w)"
proof -
  obtain l where l: "l \<in> set (refund_lines_of w sale requested)" "\<exists>u. x = refund_item_of u (uuid_gen w (uuid_next w)) (now w) (line_data l)"
    using assms(1) set_numbered unfolding refund_rows_of_def by fastforce
  then show "ri_refund x = uuid_gen w (uuid_next w)" "scale4 (ri_total x) \<and> scale4 (ri_fifoCost x)"
    by (auto simp: refund_item_of_def)
  from l(1) obtain i q where iq: "(i, q) \<in> set requested" "l = line_for w sale (the (find_item (sale_items w (sa_id sale)) i)) q"
    by (auto simp: refund_lines_of_def)
  then obtain item where "find_item (sale_items w (sa_id sale)) i = Some item" using pl by (fastforce simp: planned_def)
  moreover from this have "item \<in> set (t_sale_item w)" by (auto simp: find_item_def dest: find_first_SomeD)
  ultimately show "ri_saleItem x \<in> si_id ` set (t_sale_item w)"
    using l(2) iq(2) by (auto simp: refund_item_of_def line_data_def refund_line_of_def Let_def)
qed

lemma refund_keeps:
  assumes inv: "desk_inv w" and bus: "desk_bus bus" and run: "create_refund_work bus k d user c w = (Inr b, w')"
  shows "desk_inv w'"
proof -
  note I = desk_invD [OF inv]
  from bus I(5,6) run obtain sale requested rf where
    s: "sale \<in> set (t_sale w)" "sa_id sale = k" "sa_company sale = c" "sa_deleted sale = None"
    and st: "sa_status sale = SaleCompletedStatus \<or> sa_status sale = SalePartiallyRefundedStatus" and pl: "planned w sale requested"
    and rf: "rf_id rf = uuid_gen w (uuid_next w)" "counted_refund k c rf"
    and W: "t_refund w' = t_refund w @ [rf]" "t_refund_item w' = t_refund_item w @ refund_rows_of w sale requested"
      "t_sale w' = update_rows (\<lambda>r. sa_id r = k) (bumped_sale (\<lambda>r. r\<lparr>sa_status := refund_status_of w sale requested\<rparr>)) (t_sale w)"
      "t_payment w' = t_payment w" "t_receipt w' = t_receipt w" "t_sale_item w' = t_sale_item w" "uuid_gen w' = uuid_gen w"
      "Suc (uuid_next w) + length requested \<le> uuid_next w'"
      "if single_shot sale (refund_status_of w sale requested) then left_shift w sale w' else t_shift w' = t_shift w"
    by (rule refund_work_Inr)
  let ?st = "refund_status_of w sale requested" and ?R = "refund_rows_of w sale requested"
  let ?g = "bumped_sale (\<lambda>r. r\<lparr>sa_status := ?st\<rparr>)"
  have fresh: "rf_id rf \<notin> mentioned w" using I(1) by (simp add: rf(1) desk_ids_def uuid_fresh_def)
  have old_row: "ri_refund x \<noteq> rf_id rf" if "x \<in> set (t_refund_item w)" for x
  proof -
    have "ri_refund x \<in> mentioned w" using that by (simp add: mentioned_def)
    then show ?thesis using fresh by auto
  qed
  have old_ref: "rf_id f \<noteq> rf_id rf" if "f \<in> set (t_refund w)" for f
  proof -
    have "rf_id f \<in> mentioned w" using that by (simp add: mentioned_def)
    then show ?thesis using fresh by auto
  qed
  have refs: "refunds_in w' (sa_id sale) = refunds_in w (sa_id sale) @ [rf]" "\<And>i. i \<noteq> sa_id sale \<Longrightarrow> refunds_in w' i = refunds_in w i"
    using rf(2) by (auto simp: W find_many_def counted_refund_def s)
  have counted: "(\<exists>f \<in> set (t_refund w'). rf_id f = i \<and> counted_refund j e f) \<longleftrightarrow>
      (\<exists>f \<in> set (t_refund w). rf_id f = i \<and> counted_refund j e f) \<or> (i = rf_id rf \<and> counted_refund j e rf)" for i j e
    by (auto simp: W)
  have "refunded_rows w' j e i = refunded_rows w j e i @ (if counted_refund j e rf then filter (\<lambda>x. ri_saleItem x = i) ?R else [])" for j e i
  proof -
    have "find_many (\<lambda>x. ri_saleItem x = i \<and> (\<exists>f \<in> set (t_refund w'). rf_id f = ri_refund x \<and> counted_refund j e f)) (t_refund_item w) =
        refunded_rows w j e i"
      unfolding refunded_rows_def find_many_def by (rule filter_cong) (auto simp: counted dest: old_row)
    moreover have "find_many (\<lambda>x. ri_saleItem x = i \<and> (\<exists>f \<in> set (t_refund w'). rf_id f = ri_refund x \<and> counted_refund j e f)) ?R =
        filter (\<lambda>x. ri_saleItem x = i \<and> counted_refund j e rf) ?R"
      unfolding find_many_def
      by (rule filter_cong [OF refl]) (use refund_rows_new(1) [OF _ pl] old_ref in \<open>auto simp: counted rf(1)\<close>)
    moreover have "find_many p (xs @ ys) = find_many p xs @ find_many p ys" for p and xs ys :: "refund_item_row list" by (simp add: find_many_def)
    ultimately show ?thesis by (auto simp: refunded_rows_def [of w'] W(2))
  qed
  then have rows: "refunded_rows w' (sa_id sale) (sa_company sale) i = refunded_rows w (sa_id sale) (sa_company sale) i @ filter (\<lambda>x. ri_saleItem x = i) ?R"
    "j \<noteq> sa_id sale \<Longrightarrow> refunded_rows w' j e i = refunded_rows w j e i" for i j e
    using rf(2) s by (auto simp: counted_refund_def)
  have items: "items_in w' i = items_in w i" for i by (simp add: W)
  have sales: "t_sale w' = update_rows (\<lambda>r. sa_id r = sa_id sale) ?g (t_sale w)" using W(3) s by simp
  have id: "map sa_id (t_sale w') = map sa_id (t_sale w)" unfolding sales by (rule map_update_rows) simp
  have keys: "shift_keys w' = shift_keys w"
  proof (cases "single_shot sale ?st")
    case True
    then have "left_shift w sale w'" using W(9) by simp
    with inv s(1) show ?thesis
    proof (cases rule: left_shift_cases)
      case stays
      then show ?thesis by (simp add: shift_keys_def)
    next
      case (leaves sh a)
      show ?thesis by (rule shift_keys_update [OF leaves(5)]) simp
    qed
  qed (use W(9) in \<open>simp add: shift_keys_def\<close>)
  have refs0: "sale_refunds w sale" and links: "sale_links w sale" using I(3) [OF s(1)] by simp_all
  have "refunds_in w (sa_id sale) = [] \<longleftrightarrow> sa_status sale = SaleCompletedStatus" using refs0 st by (auto simp: sale_refunds_def)
  then have single: "single_shot sale ?st \<longleftrightarrow> ?st = SaleRefundedStatus \<and> refunds_in w (sa_id sale) = []"
    by (auto simp: single_shot_def)
  have item: "refunded_units w' (?g sale) i = refunded_units w sale i + (case map_of requested (si_id i) of None \<Rightarrow> 0 | Some q \<Rightarrow> q)"
    "item_refunds w' (?g sale) i" if "i \<in> set (items_in w (sa_id sale))" for i
    using item_refunds_grow [OF inv pl s(1) that, of w' "?g sale"] rows(1) by simp_all
  have full: "?st = SaleRefundedStatus \<longleftrightarrow> (\<forall>i \<in> set (items_in w (sa_id sale)). si_quantity i \<le> refunded_units w' (?g sale) i)"
    "?st = SaleRefundedStatus \<or> ?st = SalePartiallyRefundedStatus"
    using item(1) by (auto simp: refund_status_of_def derived_status_def fully_refunded_def sums_in_parts refunded_units_def find_many_def)
  show ?thesis
  proof (rule one_sale_keeps [OF inv s(1) _ sales W(4) _ keys W(7)])
    show "keeps_deal ?g" by (intro keeps_deal_bumped keeps_deal_status)
    show "map core (t_sale_item w') = map core (t_sale_item w)" by (simp add: W)
    show "uuid_next w \<le> uuid_next w'" using W(8) by simp
    have "rf_id rf \<in> drawn w w'" using W(8) by (auto simp: rf(1) drawn_def)
    moreover have "rf_sale rf = sa_id sale" using rf(2) s by (simp add: counted_refund_def)
    moreover have "cs_id ` set (t_shift w') = cs_id ` set (t_shift w)" using shift_keys_same [OF keys] by (metis list.set_map)
    moreover have "sa_id ` set (t_sale w') = sa_id ` set (t_sale w)" using id by (metis list.set_map)
    moreover have "ri_refund ` set ?R \<subseteq> {rf_id rf}" "ri_saleItem ` set ?R \<subseteq> si_id ` set (t_sale_item w)"
      using refund_rows_new [OF _ pl] by (auto simp: rf(1))
    ultimately show "mentioned w' \<subseteq> mentioned w \<union> drawn w w'"
      using s(1) by (auto simp: mentioned_def W(1,2,4-6))
    show "distinct (map rf_id (t_refund w'))" using I(1) fresh by (auto simp: W desk_ids_def mentioned_def)
    fix r assume "r \<in> set (t_sale w)" and r: "sa_id r \<noteq> sa_id sale"
    have "sale_links w' r = sale_links w r" by (rule sale_links_cong [OF _ keys]) (simp add: W)
    moreover have "sale_refunds w' r = sale_refunds w r" by (rule sale_refunds_cong [OF refs(2) [OF r] items rows(2) [OF r]])
    ultimately show "sale_links w' r = sale_links w r \<and> sale_refunds w' r = sale_refunds w r" by simp
  next
    have "sale_links w' sale = sale_links w sale" by (rule sale_links_cong [OF _ keys]) (simp add: W)
    moreover have "sold (sa_status sale)" "sold ?st" using st full(2) by (auto simp: sold_def)
    ultimately show "sale_links w' (?g sale)" using links s(4) by (simp add: sale_links_def)
  next
    have "\<forall>f \<in> set (refunds_in w' (sa_id sale)). counted_refund (sa_id sale) (sa_company sale) f"
      using refs0 rf(2) s by (auto simp: refs(1) sale_refunds_def)
    moreover have "refunded_units w' (?g sale) i \<le> si_quantity i" if "i \<in> set (items_in w (sa_id sale))" for i
      using item(2) [OF that] by (simp add: item_refunds_def)
    ultimately show "sale_refunds w' (?g sale)"
      using full item(2) refs(1) by (auto simp: sale_refunds_def items not_le intro: order_antisym)
  next
    have "\<exists>r \<in> set (t_sale w'). sa_id r = rf_sale f" if "f \<in> set (t_refund w')" for f
    proof -
      have "\<exists>r \<in> set (t_sale w). sa_id r = rf_sale f" using that I(2) s(1) refs(1) rf(2) s by (auto simp: W refund_rows_ok_def counted_refund_def)
      then have "rf_sale f \<in> set (map sa_id (t_sale w'))" unfolding id by (metis image_eqI list.set_map)
      then show ?thesis by auto
    qed
    then show "refund_rows_ok w'" using I(2) refund_rows_new(2) [OF _ pl] by (auto simp: refund_rows_ok_def W(2))
  next
    fix y assume y: "y \<in> set (t_shift w')"
    have "sa_status sale \<noteq> SaleRefundedStatus" using st by auto
    then show "shift_sums w' y" by (rule refund_shift_sums [OF inv s(1) _ sales refs W(4) single W(9) y])
  qed
qed

end
