(* ===== verification/SalesBus.thy ===== *)
theory SalesBus
  imports SalesFlow SaleFinance
begin

text \<open>
  The bus the application builds meets \<open>desk_bus\<close>: the subscribers of the inventory and finance modules move
  stock, layers, journals and calendars, and write the historical cost on the items of the sale that is
  being completed; they leave sales, payments, receipts, shifts and refunds to the sales module.
\<close>

section \<open>Subscribers one by one\<close>

definition desk_handler :: "(domain_event \<Rightarrow> unit wtx) \<Rightarrow> bool" where
  "desk_handler h \<longleftrightarrow> (\<forall>ev. advances (h ev) \<and> frame desk_view (h ev) \<and> frame (cost_view ev) (h ev))"

definition desk_handlers :: "event_bus \<Rightarrow> bool" where
  "desk_handlers b \<longleftrightarrow> (\<forall>n. \<forall>s \<in> set (subscribed b n). desk_handler (hd_handle s))"

lemma for_each_on:
  "(\<And>x. x \<in> set xs \<Longrightarrow> frame g (f x)) \<Longrightarrow> frame g (for_each xs f)"
  "(\<And>x. x \<in> set xs \<Longrightarrow> advances (f' x)) \<Longrightarrow> advances (for_each xs f')"
  by (induction xs) (auto intro!: frame_intros)

lemma desk_handlers_bus: "desk_handlers b \<Longrightarrow> desk_bus b"
  unfolding desk_bus_def publish_event_def publish_def ordered_handlers_stable_sort
  by (auto intro!: for_each_on simp: desk_handlers_def desk_handler_def)

lemma desk_handlers_empty: "desk_handlers (\<lambda>_. None)"
  by (simp add: desk_handlers_def subscribed_def)

lemma desk_bus_empty: "desk_bus (\<lambda>_. None)"
  by (rule desk_handlers_bus [OF desk_handlers_empty])

lemma desk_handlers_subscribe: "desk_handlers b \<Longrightarrow> desk_handler h \<Longrightarrow> desk_handlers (subscribe n ref h prio b)"
  unfolding desk_handlers_def subscribe_def subscribed_def Let_def by (auto split: if_splits)

lemma desk_handlerI:
  assumes "\<And>ev. advances (h ev)" and "\<And>ev. frame desk_view (h ev)" and "\<And>ev. frame (cost_view ev) (h ev)"
  shows "desk_handler h"
  using assms by (simp add: desk_handler_def)

section \<open>The inventory subscribers\<close>

lemma persist_desk:
  "frame desk_view (persist_fifo_cost s i c)" "sp_sale p = s \<Longrightarrow> frame (cost_view (SaleCompleted e p)) (persist_fifo_cost s i c)"
  "advances (persist_fifo_cost s i c)"
proof -
  have core: "map core (update_rows q (\<lambda>r. r\<lparr>si_fifoCost := v\<rparr>) t) = map core t" for q v t
    by (simp add: update_rows_def core_def o_def)
  have spared: "cost_view (SaleCompleted e p) (w\<lparr>t_sale_item := update_rows q (\<lambda>r. r\<lparr>si_fifoCost := v\<rparr>) (t_sale_item w)\<rparr>) =
      cost_view (SaleCompleted e p) w" if "\<And>r. q r \<Longrightarrow> si_sale r = sp_sale p" for q v w
    using that by (auto simp: cost_view_def spared_def update_rows_def)
  show "frame desk_view (persist_fifo_cost s i c)"
    unfolding persist_fifo_cost_def Let_def by (intro frame_intros) (simp add: desk_view_def core)
  show "frame (cost_view (SaleCompleted e p)) (persist_fifo_cost s i c)" if "sp_sale p = s"
    unfolding persist_fifo_cost_def Let_def by (intro frame_intros spared) (simp add: that)
  show "advances (persist_fifo_cost s i c)" unfolding persist_fifo_cost_def Let_def by (intro frame_intros) simp_all
qed

lemma frame_put_into_stock:
  assumes "\<And>h w. g (t_stock_update h w) = g w" and "\<And>h w. g (uuid_next_update h w) = g w"
  shows "frame g (put_into_stock s p wh c q)"
  unfolding put_into_stock_def by (intro frame_intros assms)

lemma advances_put_into_stock: "advances (put_into_stock s p wh c q)" "advances (take_from_stock s' c q)"
  unfolding put_into_stock_def take_from_stock_def Let_def by (intro frame_intros; simp)+

lemma frame_return_parts:
  assumes "\<And>h w. g (t_stock_update h w) = g w" and "\<And>h w. g (t_movement_update h w) = g w" and "\<And>h w. g (t_layer_update h w) = g w"
    and "\<And>h w. g (uuid_next_update h w) = g w" and "\<And>h w. g (t_batch_update h w) = g w"
  shows "frame g (return_item rp i)" "frame g (return_partial_item pp j)" "frame g (receive_item gp k)" "frame g (restore_product rp x)"
  unfolding return_item_def return_partial_item_def receive_item_def return_movement_def restore_product_def
    restore_layer_def restore_refund_layer_def find_out_layers_for_def find_out_layers_by_reference_and_product_def Let_def
  by (intro frame_intros frame_put_into_stock assms)+

lemma advances_return_parts:
  "advances (return_item rp i)" "advances (return_partial_item pp j)" "advances (receive_item gp k)" "advances (restore_product rp x)"
  unfolding return_item_def return_partial_item_def receive_item_def return_movement_def restore_product_def
    restore_layer_def restore_refund_layer_def find_out_layers_for_def find_out_layers_by_reference_and_product_def Let_def
  by (intro frame_intros advances_put_into_stock)+

lemma frame_returns:
  assumes "\<And>h w. g (t_stock_update h w) = g w" and "\<And>h w. g (t_movement_update h w) = g w" and "\<And>h w. g (t_layer_update h w) = g w"
    and "\<And>h w. g (uuid_next_update h w) = g w" and "\<And>h w. g (t_batch_update h w) = g w"
  shows "frame g (handle_sale_refunded b rp)" "frame g (handle_sale_partially_refunded b pp)" "frame g (handle_purchase_received b gp)"
  unfolding handle_sale_refunded_def handle_sale_partially_refunded_def handle_purchase_received_def movement_marker_def receipt_marker_def
    restore_cost_layers_def
  by (intro frame_intros frame_return_parts assms)+

lemma sell_item_desk:
  "frame desk_view (sell_item p i)" "frame (cost_view (SaleCompleted e p)) (sell_item p i)" "advances (sell_item p i)"
  unfolding sell_item_def Let_def
  by (intro frame_intros persist_desk advances_put_into_stock; simp add: desk_view_def cost_view_def)+

lemma inventory_sale_handler_desk: "desk_handler (inventory_sale_handler b)"
proof (rule desk_handlerI)
  fix ev
  show "advances (inventory_sale_handler b ev)"
    by (cases ev)
       (auto simp: inventory_sale_handler_def handle_sale_completed_def handle_sale_refunded_def handle_sale_partially_refunded_def
          handle_purchase_received_def movement_marker_def receipt_marker_def restore_cost_layers_def
        intro!: frame_intros advances_return_parts sell_item_desk)
  show "frame desk_view (inventory_sale_handler b ev)"
    by (cases ev)
       (auto simp: inventory_sale_handler_def handle_sale_completed_def movement_marker_def desk_view_def
        intro!: frame_intros frame_returns sell_item_desk)
  show "frame (cost_view ev) (inventory_sale_handler b ev)"
    by (cases ev)
       (auto simp: inventory_sale_handler_def handle_sale_completed_def movement_marker_def cost_view_def
        intro!: frame_intros frame_returns sell_item_desk)
qed

section \<open>The finance subscribers\<close>

definition desk_all :: "world \<Rightarrow> _" where
  "desk_all w = (t_sale w, t_payment w, t_receipt w, t_shift w, t_refund w, t_refund_item w, t_sale_item w)"

lemma desk_all_views: "frame desk_all m \<Longrightarrow> frame desk_view m \<and> frame (cost_view ev) m"
  by (auto simp: frame_def desk_all_def desk_view_def cost_view_def)

lemma frame_journal_event:
  assumes "desk_bus bus"
  shows "frame desk_all (publish_event bus (JournalPosted e p))"
proof (rule frameI)
  fix w r w' assume run: "publish_event bus (JournalPosted e p) w = (r, w')"
  have "t_sale_item w' = t_sale_item w" using publish_keeps_items [OF assms run] by (simp add: spared_def)
  then show "desk_all w' = desk_all w" using desk_busD(1) [OF assms run] by (simp add: desk_all_def desk_view_def)
qed

lemma post_desk:
  assumes "desk_bus bus"
  shows "frame desk_all (execute_post bus i)" "advances (execute_post bus i)"
proof -
  show "frame desk_all (execute_post bus i)" by (rule frame_execute_post_events [OF frame_journal_event [OF assms]]) (simp_all add: desk_all_def)
  show "advances (execute_post bus i)" by (rule advances_execute_post) (use assms in \<open>simp add: desk_bus_def\<close>)
qed

lemma lines_desk:
  "frame g (by_account a rs m)" "advances (by_account a rs m)" "frame g (fifo_total is d)" "advances (fifo_total is d)"
proof -
  show "frame g (by_account a rs m)" "advances (by_account a rs m)"
    by (induction rs arbitrary: m; simp only: by_account.simps Let_def; (intro frame_intros | assumption)+)+
  show "frame g (fifo_total is d)" "advances (fifo_total is d)"
    by (induction "is" arbitrary: d; simp only: fifo_total.simps; (intro frame_intros | assumption)+)+
qed

lemma finance_sale_handler_desk:
  assumes "desk_bus bus"
  shows "desk_handler (finance_sale_handler bus b)"
proof -
  have "frame desk_all (finance_sale_handler bus b ev) \<and> advances (finance_sale_handler bus b ev)" for ev
    by (cases ev)
       (auto simp: finance_sale_handler_def on_sale_completed_def on_sale_refunded_def on_sale_partially_refunded_def
          already_posted_def find_sales_accounts_def sale_out_layers_def refund_allocations_def partial_refund_lines_def payout_lines_def Let_def
        intro!: frame_intros post_desk assms lines_desk simp: desk_all_def split: option.split)
  then show ?thesis using desk_all_views by (blast intro: desk_handlerI)
qed

lemma adjusted_handler_desk:
  assumes "desk_bus bus"
  shows "desk_handler (adjusted_handler bus)"
proof -
  have "frame desk_all (handle_adjusted bus True i p)" for i p
    unfolding handle_adjusted_def log_skip_best_effort_def log_skip_def already_journalled_def inventory_accounts_def
      latest_open_period_def case_prod_conv
    by (intro frame_intros post_desk assms; simp add: desk_all_def)
  moreover have "advances (handle_adjusted bus True i p)" for i p
    by (rule advances_handle_adjusted) (use assms in \<open>simp add: desk_bus_def\<close>)
  ultimately have "frame desk_all (adjusted_handler bus ev) \<and> advances (adjusted_handler bus ev)" for ev
    by (cases ev) (simp_all add: adjusted_handler_def frame_ret frame_intros)
  then show ?thesis using desk_all_views by (blast intro: desk_handlerI)
qed

text \<open>The bus of the application, whatever order the modules start in.\<close>

lemma modules_meet_desk_bus:
  assumes lb: "desk_bus lb" and notify: "desk_handler low_stock" "desk_handler po_status"
    and ms: "set ms \<subseteq> {inventory_init lb, finance_init lb, notifications_init low_stock po_status}"
  shows "desk_bus (fold (\<lambda>m b. m b) ms (\<lambda>_. None))"
proof -
  have "desk_handlers (fold (\<lambda>m b. m b) ms b)" if "desk_handlers b" for b
    using ms that
  proof (induction ms arbitrary: b)
    case (Cons m ms)
    have "desk_handlers (m b)"
      using Cons.prems
      by (auto simp: inventory_init_def finance_init_def notifications_init_def
          intro!: desk_handlers_subscribe adjusted_handler_desk inventory_sale_handler_desk finance_sale_handler_desk lb notify)
    with Cons show ?case by simp
  qed simp
  then show ?thesis by (intro desk_handlers_bus) (simp add: desk_handlers_empty)
qed

end
