(* ===== verification/SalesShop.thy ===== *)
theory SalesShop
  imports SalesDesk SalesBus
begin

text \<open>
  The whole sales desk. The operations of the tills keep the desk's invariant too; \<open>desk_step\<close> collects every
  operation that writes a sale, a refund or a shift, with any outcome, and the states it reaches satisfy the
  invariant and refine the life cycle of a sale.
\<close>

section \<open>The tills keep the desk\<close>

lemma same_deskI: "desk_all w' = desk_all w \<Longrightarrow> uuid_gen w' = uuid_gen w \<and> uuid_next w \<le> uuid_next w' \<Longrightarrow> same_desk w w'"
  by (simp add: same_desk_def desk_all_def desk_view_def)

lemma post_same_desk:
  assumes "desk_bus bus" and "execute_post bus i w = (r, w')"
  shows "same_desk w w'"
  by (rule same_deskI) (use frameD [OF post_desk(1)] advancesD [OF post_desk(2)] assms in blast)+

lemma calendar_same_desk:
  assumes "ensure_current_calendar c w = (r, w')"
  shows "same_desk w w'"
proof (rule same_deskI)
  have "frame desk_all (ensure_current_calendar c)" by (intro frame_intros) (simp_all add: desk_all_def)
  from frameD [OF this assms] show "desk_all w' = desk_all w" .
  from advancesD [OF advances_ensure_current_calendar assms] show "uuid_gen w' = uuid_gen w \<and> uuid_next w \<le> uuid_next w'" .
qed

text \<open>A change of a shift that leaves its identity and its sales alone, and does not open it.\<close>

definition keeps_buckets :: "(shift_row \<Rightarrow> shift_row) \<Rightarrow> bool" where
  "keeps_buckets f \<longleftrightarrow> (\<forall>r. cs_id (f r) = cs_id r \<and> cs_company (f r) = cs_company r \<and> cs_cashSales (f r) = cs_cashSales r \<and>
     cs_cardSales (f r) = cs_cardSales r \<and> cs_qrSales (f r) = cs_qrSales r \<and> cs_bankSales (f r) = cs_bankSales r \<and>
     cs_mobileSales (f r) = cs_mobileSales r \<and> cs_totalSales (f r) = cs_totalSales r \<and>
     (cs_status (f r) = cs_status r \<or> cs_status (f r) = ShiftClosed))"

lemma keeps_buckets_till: "keeps_buckets (bumped_shift (cash_change k d s))" "keeps_buckets (bumped_shift (close_columns cd s t x y))"
  by (simp_all add: keeps_buckets_def bumped_shift_def cash_change_def set_moved_def close_columns_def split: cash_kind.split)

lemma shift_edit_keeps:
  assumes inv: "desk_inv w" and f: "keeps_buckets f" and w': "w' = w\<lparr>t_shift := update_rows p f (t_shift w)\<rparr>"
  shows "desk_inv w'"
proof -
  note I = desk_invD [OF inv]
  have keys: "shift_keys w' = shift_keys w"
    by (rule shift_keys_update [where p = p and f = f]) (use f in \<open>simp_all add: w' keeps_buckets_def keeps_shift_key_def\<close>)
  have t: "t_sale w' = t_sale w" "t_payment w' = t_payment w" "t_receipt w' = t_receipt w" "t_refund w' = t_refund w"
    "t_refund_item w' = t_refund_item w" "t_sale_item w' = t_sale_item w" "uuid_gen w' = uuid_gen w" "uuid_next w' = uuid_next w"
    by (simp_all add: w')
  have "cs_id ` set (t_shift w') = cs_id ` set (t_shift w)" using shift_keys_same [OF keys] by (metis list.set_map)
  then have "mentioned w' = mentioned w" by (simp only: mentioned_def t)
  then have "desk_ids w' = desk_ids w"
    using shift_keys_same [OF keys] \<open>cs_id ` set (t_shift w') = cs_id ` set (t_shift w)\<close> by (simp add: desk_ids_def uuid_fresh_def t)
  moreover have "sale_money w' r = sale_money w r" "sale_refunds w' r = sale_refunds w r" for r
    by (simp_all only: sale_money_def sale_refunds_def item_refunds_def refunded_units_def refunded_rows_def t)
  moreover have "sale_links w' r = sale_links w r" for r by (rule sale_links_cong [OF _ keys]) (simp add: t)
  moreover have "refund_rows_ok w' = refund_rows_ok w" by (simp only: refund_rows_ok_def t)
  moreover have same: "counted_total w' i = counted_total w i" "counted_cash w' i = counted_cash w i" for i
    by (simp_all only: counted_total_def counted_cash_def counts_def t)
  have "shift_sums w' s" if "s \<in> set (t_shift w')" for s
  proof -
    from that consider "s \<in> set (t_shift w)" | r where "r \<in> set (t_shift w)" "s = f r" by (auto simp: w' set_update_rows)
    then show ?thesis
    proof cases
      case (2 r)
      have "bucket_sum (f r) = bucket_sum r" using f by (simp add: bucket_sum_def keeps_buckets_def)
      moreover have "cs_status (f r) = ShiftOpen \<Longrightarrow> cs_status r = ShiftOpen" using f unfolding keeps_buckets_def by (metis shift_status.distinct(1))
      ultimately show ?thesis using 2 I(4) [OF 2(1)] f by (auto simp: same shift_sums_def keeps_buckets_def)
    qed (rule shift_sums_other [OF I(4) same])
  qed
  ultimately show ?thesis using inv by (simp add: desk_inv_def t)
qed

lemma shift_written:
  assumes inv: "desk_inv w" and s: "find_open_shift wh user c w0 = (Inr (Some s), w0)" "same_desk w0 w"
    and upd: "update_shift (cs_id s) f c (cs_version s) w = (Inr x, w')" and f: "keeps_buckets (bumped_shift f)" "\<And>r. cs_id (f r) = cs_id r"
  shows "desk_inv w' \<and> t_sale w' = t_sale w"
proof -
  have "s \<in> set (t_shift w)" "cs_company s = c" using find_open_shift_Inr [OF s(1)] s(2) by (auto simp: same_desk_def desk_view_def)
  with update_shift_run [of w s f] upd f(2) desk_invD(6) [OF inv]
  have "w' = w\<lparr>t_shift := update_rows (\<lambda>r. cs_id r = cs_id s) (bumped_shift f) (t_shift w)\<rparr>" by (simp add: bumped_shift_def [abs_def])
  from shift_edit_keeps [OF inv f(1) this] this show ?thesis by simp
qed

lemma audit_same_desk: "same_desk w (w\<lparr>t_audit := a\<rparr>)"
  by (simp add: same_desk_def desk_view_def)

lemma same_desk_inv: "same_desk w w' \<Longrightarrow> desk_inv w \<Longrightarrow> desk_inv w' \<and> t_sale w' = t_sale w"
  using desk_inv_cong [of w w'] by (simp add: same_desk_def desk_view_def)

lemma desk_cash_keeps:
  assumes bus: "desk_bus bus" and inv: "desk_inv w" and run: "apply_cash_mutation bus d user c wh k key w = (Inr b, w')"
  shows "desk_inv w' \<and> t_sale w' = t_sale w"
proof -
  from run obtain s drawer counter cal w1 period x w2 post w3 a where
    R: "find_open_shift wh user c w = (Inr (Some s), w)" "ensure_current_calendar c w = (Inr cal, w1)"
    "update_shift (cs_id s) (cash_change k d s) c (cs_version s) w1 = (Inr x, w2)"
    "execute_post bus (cash_input d user c k key s period (now w1) drawer counter) w2 = (Inr post, w3)" "w' = w3\<lparr>t_audit := a\<rparr>"
    by (rule cash_run_Inr)
  note C = calendar_same_desk [OF R(2)]
  have "cs_id (cash_change k d s r) = cs_id r" for r by (simp add: cash_change_def set_moved_def split: cash_kind.split)
  with desk_inv_cong [OF inv C] R(1) C R(3) have w2: "desk_inv w2 \<and> t_sale w2 = t_sale w1"
    by (rule shift_written [OF _ _ _ _ keeps_buckets_till(1)])
  with same_desk_inv [OF post_same_desk [OF bus R(4)]] same_desk_inv [OF C inv] have "desk_inv w3 \<and> t_sale w3 = t_sale w" by simp
  with same_desk_inv [OF audit_same_desk [of w3 a]] show ?thesis by (simp add: R(5))
qed

lemma desk_close_keeps:
  assumes bus: "desk_bus bus" and inv: "desk_inv w" and run: "close_shift bus d user c wh w = (Inr b, w')"
  shows "desk_inv w' \<and> t_sale w' = t_sale w"
proof -
  from run obtain s drawer cal w1 period x w2 where
    R: "find_open_shift wh user c w = (Inr (Some s), w)" "ensure_current_calendar c w = (Inr cal, w1)"
    "update_shift (cs_id s) (close_columns d s (now w1) (expected_closing s (refunded_cash w c (cs_id s)))
      (counted d (expected_closing s (refunded_cash w c (cs_id s))))) c (cs_version s) w1 = (Inr x, w2)"
    "post_difference bus d user c s drawer period (now w1) (expected_closing s (refunded_cash w c (cs_id s)))
      (counted d (expected_closing s (refunded_cash w c (cs_id s)))) w2 = (Inr (), w')"
    by (rule close_run_Inr)
  note C = calendar_same_desk [OF R(2)]
  from desk_inv_cong [OF inv C] R(1) C R(3) have "desk_inv w2 \<and> t_sale w2 = t_sale w1"
    by (rule shift_written [OF _ _ _ _ keeps_buckets_till(2)]) simp
  with same_desk_inv [OF C inv] have w2: "desk_inv w2" "t_sale w2 = t_sale w" by simp_all
  from post_difference_Inr [OF R(4)] consider "w' = w2" | i post w3 a where "execute_post bus i w2 = (Inr post, w3)" "w' = w3\<lparr>t_audit := a\<rparr>"
    by blast
  then show ?thesis
  proof cases
    case 2
    from same_desk_inv [OF post_same_desk [OF bus 2(1)] w2(1)] w2(2) have "desk_inv w3 \<and> t_sale w3 = t_sale w" by simp
    with same_desk_inv [OF audit_same_desk [of w3 a]] show ?thesis by (simp add: 2(2))
  qed (use w2 in simp)
qed

lemma opened_Inr:
  assumes "open_shift d user c w = (Inr b, w')"
  obtains row where "w' = w\<lparr>uuid_next := Suc (uuid_next w), t_shift := t_shift w @ [row]\<rparr>" "cs_id row = uuid_gen w (uuid_next w)"
    "bucket_sum row = 0" "cs_cashSales row = 0" "cs_cardSales row = 0" "cs_qrSales row = 0" "cs_bankSales row = 0" "cs_mobileSales row = 0"
    "cs_totalSales row = 0"
  using assms
  by (auto simp: open_shift_def transaction_Inr_iff bind_Inr_iff catch_rethrow_Inr_iff insert_shift_def find_open_shift_def Let_def
      shift_view_def get_base_currency_def bucket_sum_def split: if_splits option.splits)

lemma sum_list_zero: "(\<And>x. x \<in> set xs \<Longrightarrow> f x = (0 :: decimal)) \<Longrightarrow> (\<Sum>x\<leftarrow>xs. f x) = 0"
  by (induction xs) simp_all

lemma desk_open_keeps:
  assumes inv: "desk_inv w" and run: "open_shift d user c w = (Inr b, w')"
  shows "desk_inv w'"
proof -
  note I = desk_invD [OF inv]
  from run obtain row where row: "w' = w\<lparr>uuid_next := Suc (uuid_next w), t_shift := t_shift w @ [row]\<rparr>" "cs_id row = uuid_gen w (uuid_next w)"
    "bucket_sum row = 0" "cs_cashSales row = 0" "cs_cardSales row = 0" "cs_qrSales row = 0" "cs_bankSales row = 0" "cs_mobileSales row = 0"
    "cs_totalSales row = 0"
    by (rule opened_Inr)
  have fresh: "uuid_fresh w (mentioned w)" using I(1) by (simp add: desk_ids_def)
  then have new: "cs_id row \<notin> mentioned w" by (simp add: uuid_fresh_def row(2))
  have t: "t_sale w' = t_sale w" "t_payment w' = t_payment w" "t_receipt w' = t_receipt w" "t_refund w' = t_refund w"
    "t_refund_item w' = t_refund_item w" "t_sale_item w' = t_sale_item w" by (simp_all add: row(1))
  have "uuid_fresh w' (mentioned w')"
    by (rule uuid_fresh_drawn [OF fresh]) (auto simp: row(1,2) mentioned_def drawn_def)
  then have "desk_ids w'" using I(1) new by (auto simp: desk_ids_def row(1) mentioned_def)
  moreover have "sale_money w' r = sale_money w r" "sale_refunds w' r = sale_refunds w r" for r
    by (simp_all only: sale_money_def sale_refunds_def item_refunds_def refunded_units_def refunded_rows_def t)
  moreover have "sale_links w' r" if "sale_links w r" for r
    using that by (auto simp: sale_links_def row(1) t)
  moreover have "refund_rows_ok w' = refund_rows_ok w" by (simp only: refund_rows_ok_def t)
  moreover have same: "counted_total w' i = counted_total w i" "counted_cash w' i = counted_cash w i" for i
    by (simp_all only: counted_total_def counted_cash_def counts_def t)
  have unlinked: "\<not> counts w (cs_id row) r" if "r \<in> set (t_sale w)" for r
    using I(3) [OF that] new by (auto simp: counts_def sale_links_def mentioned_def rev_image_eqI)
  have none: "counted_total w (cs_id row) = 0" "counted_cash w (cs_id row) = 0"
    unfolding counted_total_def counted_cash_def by (rule sum_list_zero; simp add: unlinked)+
  have "shift_sums w' s" if "s \<in> set (t_shift w')" for s
  proof (cases "s = row")
    case True
    then show ?thesis by (simp add: shift_sums_def row(3-) same none)
  next
    case False
    then have "s \<in> set (t_shift w)" using that by (simp add: row(1))
    then show ?thesis by (intro shift_sums_other [OF I(4) same])
  qed
  ultimately show ?thesis using inv by (simp add: desk_inv_def t)
qed

section \<open>The life cycle of a sale\<close>

text \<open>
  The abstract specification: a sale is registered as a draft with settled terms; from then on it only moves
  along \<open>next_stages\<close>, and its terms never change.
\<close>

datatype stage = Drafted | Pended | Sold | PartlyReturned | Returned | Abandoned | Removed

record terms =
  tm_company :: string
  tm_subtotal :: decimal
  tm_discount :: decimal
  tm_total :: decimal
  tm_paid :: decimal
  tm_change :: decimal

type_synonym shop = "string \<Rightarrow> (stage \<times> terms) option"

fun next_stages :: "stage \<Rightarrow> stage list" where
  "next_stages Drafted = [Pended, Abandoned, Sold, Removed]"
| "next_stages Pended = [Sold, Abandoned]"
| "next_stages Sold = [PartlyReturned, Returned]"
| "next_stages PartlyReturned = [Returned]"
| "next_stages _ = []"

definition settled :: "terms \<Rightarrow> bool" where
  "settled d \<longleftrightarrow> tm_total d = tm_subtotal d - tm_discount d \<and> tm_paid d = tm_total d + tm_change d \<and> 0 \<le> tm_change d"

inductive sale_machine :: "shop \<Rightarrow> shop \<Rightarrow> bool" where
  registered: "m i = None \<Longrightarrow> settled d \<Longrightarrow> sale_machine m (m(i \<mapsto> (Drafted, d)))"
| advanced: "m i = Some (s, d) \<Longrightarrow> t \<in> set (next_stages s) \<Longrightarrow> sale_machine m (m(i \<mapsto> (t, d)))"

inductive_cases sale_machineE: "sale_machine m n"

text \<open>What the rows stand for.\<close>

definition stage_of :: "sale_row \<Rightarrow> stage" where
  "stage_of r = (if sa_deleted r \<noteq> None then Removed else
     (case sa_status r of
        SaleDraft \<Rightarrow> Drafted | SalePending \<Rightarrow> Pended | SaleCompletedStatus \<Rightarrow> Sold | SaleRefundedStatus \<Rightarrow> Returned
      | SaleCancelled \<Rightarrow> Abandoned | SalePartiallyRefundedStatus \<Rightarrow> PartlyReturned))"

definition terms_of :: "sale_row \<Rightarrow> terms" where
  "terms_of r = \<lparr>tm_company = sa_company r, tm_subtotal = sa_subtotal r, tm_discount = sa_discount r, tm_total = sa_total r,
     tm_paid = sa_paid r, tm_change = sa_change r\<rparr>"

definition shop_of :: "world \<Rightarrow> shop" where
  "shop_of w i = map_option (\<lambda>r. (stage_of r, terms_of r)) (find_first (\<lambda>r. sa_id r = i) (t_sale w))"

definition refines :: "world \<Rightarrow> world \<Rightarrow> bool" where
  "refines w w' \<longleftrightarrow> shop_of w' = shop_of w \<or> sale_machine (shop_of w) (shop_of w')"

lemma same_shop: "t_sale w' = t_sale w \<Longrightarrow> shop_of w' = shop_of w"
  by (simp add: shop_of_def [abs_def])

lemma same_desk_shop: "same_desk w w' \<Longrightarrow> shop_of w' = shop_of w"
  by (rule same_shop) (simp add: same_desk_def desk_view_def)

lemma shop_update:
  assumes ids: "distinct (map sa_id (t_sale w))" and s: "sale \<in> set (t_sale w)" and g: "keeps_deal g"
    and sales: "t_sale w' = update_rows (\<lambda>r. sa_id r = sa_id sale) g (t_sale w)"
  shows "shop_of w' = (shop_of w)(sa_id sale \<mapsto> (stage_of (g sale), terms_of sale))"
    and "shop_of w (sa_id sale) = Some (stage_of sale, terms_of sale)"
proof -
  have find: "find_first (\<lambda>r. sa_id r = sa_id sale) (t_sale w) = Some sale"
    by (rule find_first_unique [OF ids s]) simp_all
  then show "shop_of w (sa_id sale) = Some (stage_of sale, terms_of sale)" by (simp add: shop_of_def)
  have same: "find_first (\<lambda>r. sa_id r = i) (t_sale w') =
      map_option (\<lambda>r. if sa_id r = sa_id sale then g r else r) (find_first (\<lambda>r. sa_id r = i) (t_sale w))" for i
    unfolding sales by (rule find_first_update_rows) (use g in \<open>simp add: keeps_deal_def\<close>)
  have terms: "terms_of (g sale) = terms_of sale" using g by (simp add: terms_of_def keeps_deal_def)
  show "shop_of w' = (shop_of w)(sa_id sale \<mapsto> (stage_of (g sale), terms_of sale))"
  proof (rule ext)
    fix i show "shop_of w' i = ((shop_of w)(sa_id sale \<mapsto> (stage_of (g sale), terms_of sale))) i"
      by (cases "find_first (\<lambda>r. sa_id r = i) (t_sale w)"; cases "i = sa_id sale")
         (auto simp: shop_of_def same find terms dest: find_first_SomeD)
  qed
qed

text \<open>One sale moves to a stage that may come next, or stays where it is.\<close>

lemma sale_moves:
  assumes ids: "distinct (map sa_id (t_sale w))" and s: "sale \<in> set (t_sale w)" and g: "keeps_deal g"
    and sales: "t_sale w' = update_rows (\<lambda>r. sa_id r = sa_id sale) g (t_sale w)"
    and next_stage: "stage_of (g sale) = stage_of sale \<or> stage_of (g sale) \<in> set (next_stages (stage_of sale))"
  shows "refines w w'"
proof -
  note U = shop_update [OF ids s g sales]
  from next_stage show ?thesis
  proof
    assume "stage_of (g sale) = stage_of sale"
    then show ?thesis by (simp add: refines_def U fun_upd_idem)
  next
    assume "stage_of (g sale) \<in> set (next_stages (stage_of sale))"
    from advanced [where m = "shop_of w", OF U(2) this] show ?thesis by (simp add: refines_def U(1))
  qed
qed

section \<open>Every operation keeps the desk and refines the life cycle\<close>

definition desk_ok :: "world \<Rightarrow> world \<Rightarrow> bool" where
  "desk_ok w w' \<longleftrightarrow> desk_inv w' \<and> refines w w'"

lemma quiet_ok: "desk_inv w \<Longrightarrow> same_desk w w' \<Longrightarrow> desk_ok w w'"
  by (simp add: desk_ok_def desk_inv_cong refines_def same_desk_shop)

lemma refl_ok: "desk_inv w \<Longrightarrow> desk_ok w w"
  by (simp add: desk_ok_def refines_def)

lemma ok_around: "same_desk u v \<Longrightarrow> desk_ok v w \<Longrightarrow> same_desk w x \<Longrightarrow> desk_ok u x"
  using desk_inv_cong [of w x] by (simp add: desk_ok_def refines_def same_desk_shop)

lemma same_desk_refl: "same_desk w w"
  by (simp add: same_desk_def)

text \<open>A keyed operation leaves the desk as it was, or does its work once.\<close>

lemma keyed_ok:
  assumes inv: "desk_inv w" and run: "run_with_idempotency c key ep pl st work w = (r, w')"
    and work: "\<And>v b v'. desk_inv v \<Longrightarrow> work v = (Inr b, v') \<Longrightarrow> desk_ok v v'"
  shows "desk_ok w w'"
  using run
proof (cases rule: keyed_run_cases)
  case quiet
  then show ?thesis by (intro quiet_ok [OF inv] same_desk_keys)
next
  case (worked w0 b w1)
  then have "desk_inv w0" by (intro desk_inv_cong [OF inv] same_desk_keys)
  note ok = work [OF this worked(2)]
  show ?thesis by (rule ok_around [OF same_desk_keys [OF worked(1)] ok same_desk_keys [OF worked(3)]])
qed

lemma moved_stage: "st' \<in> set (VALID_TRANSITIONS (sa_status r)) \<Longrightarrow> sa_deleted r = None \<Longrightarrow> sa_deleted r' = None \<Longrightarrow> sa_status r' = st' \<Longrightarrow>
    stage_of r' \<in> set (next_stages (stage_of r))"
  by (auto simp: VALID_TRANSITIONS_def stage_of_def split: sale_status.splits)

lemma create_ok:
  assumes inv: "desk_inv w" and exact: "exact_request d" and run: "create_work d user c number w = (Inr b, w')"
  shows "desk_ok w w'"
proof -
  obtain items cur where R: "w' = with_sale (priced_sale d user c number cur items) items (nd_payments d) w"
    using create_work_Inr [OF run] by metis
  define row where "row = sale_of (uuid_gen w (uuid_next w)) (now w) (priced_sale d user c number cur items)"
  have sales: "t_sale w' = t_sale w @ [row]" by (simp add: R with_sale_def Let_def row_def)
  have inv': "desk_inv w'" by (rule create_keeps [OF inv exact run])
  then have "sale_money w' row" by (simp add: desk_inv_def sales)
  then have "settled (terms_of row)" by (simp add: settled_def terms_of_def sale_money_def)
  moreover have new: "find_first (\<lambda>r. sa_id r = sa_id row) (t_sale w) = None"
    using desk_invD(5) [OF inv'] by (auto simp: find_first_None_iff sales rev_image_eqI)
  then have "shop_of w (sa_id row) = None" by (simp add: shop_of_def)
  ultimately have "sale_machine (shop_of w) ((shop_of w)(sa_id row \<mapsto> (Drafted, terms_of row)))" by (intro registered)
  moreover have "stage_of row = Drafted" by (simp add: row_def sale_of_def stage_of_def)
  have "shop_of w' = (shop_of w)(sa_id row \<mapsto> (Drafted, terms_of row))"
  proof (rule ext)
    fix i
    have "find_first (\<lambda>r. sa_id r = i) (xs @ [row]) = (case find_first (\<lambda>r. sa_id r = i) xs of None \<Rightarrow> if sa_id row = i then Some row else None | Some y \<Rightarrow> Some y)"
      for xs by (induction xs) simp_all
    then show "shop_of w' i = ((shop_of w)(sa_id row \<mapsto> (Drafted, terms_of row))) i"
      using new \<open>stage_of row = Drafted\<close> by (auto simp: shop_of_def sales split: option.split)
  qed
  ultimately show ?thesis using inv' by (simp add: desk_ok_def refines_def)
qed

lemma complete_leaves_sales:
  assumes "desk_bus bus" and "complete_sale bus sale user c w = (x, v)"
  shows "t_sale v = t_sale w"
proof -
  have alloc: "frame t_sale (allocate_shift_sales ps)" for ps
  proof (rule frameI)
    fix w r w' assume "allocate_shift_sales ps w = (r, w')"
    with allocate_loop_run [of ps empty_alloc w] show "t_sale w' = t_sale w" by (auto simp: allocate_shift_sales_def)
  qed
  have pub: "frame t_sale (publish_event bus ev)" for ev
    using assms(1) by (auto simp: desk_bus_def frame_def desk_view_def)
  have "frame t_sale (complete_sale bus sale user c)"
    unfolding complete_sale_def insert_receipt_def link_shift_def find_open_shift_def payments_of_def update_shift_def completed_audit_def
    by (intro frame_intros alloc pub) simp_all
  from frameD [OF this assms(2)] show ?thesis .
qed

lemma transition_ok:
  assumes inv: "desk_inv w" and bus: "desk_bus bus" and run: "transition_work bus i st user c w = (Inr b, w')"
  shows "desk_ok w w'"
proof -
  note I = desk_invD [OF inv]
  show ?thesis
  proof (rule transition_work_Inr [OF I(5) run])
    show "t_sale v = t_sale w" if "complete_sale bus sale user c w = (Inr x, v)" for sale x v
      using that by (rule complete_leaves_sales [OF bus])
  next
    fix sale assume moved: "sale \<in> set (t_sale w)" "sa_id sale = i" "sa_company sale = c" "sa_deleted sale = None"
      "st \<in> set (VALID_TRANSITIONS (sa_status sale))" "st \<noteq> SaleCompletedStatus"
      "w' = w\<lparr>t_sale := update_rows (\<lambda>r. sa_id r = i) (bumped_sale (\<lambda>r. r\<lparr>sa_status := st\<rparr>)) (t_sale w)\<rparr>"
    let ?g = "bumped_sale (\<lambda>r. r\<lparr>sa_status := st\<rparr>)"
    have g: "keeps_deal ?g" by (intro keeps_deal_bumped keeps_deal_status)
    have st: "\<not> sold (sa_status sale)" "\<not> sold st"
      using moved(5,6) by (auto simp: VALID_TRANSITIONS_def sold_def split: sale_status.splits)
    have "desk_inv w'"
      by (rule move_keeps [OF inv moved(1) g _ same_desk_refl]) (use moved st in simp_all)
    moreover have "refines w w'"
      by (rule sale_moves [OF I(5) moved(1) g]) (use moved moved_stage [OF moved(5,4), of "?g sale"] in simp_all)
    ultimately show ?thesis by (simp add: desk_ok_def)
  next
    fix sale x v assume completed: "sale \<in> set (t_sale w)" "sa_id sale = i" "sa_company sale = c" "sa_deleted sale = None"
      "st \<in> set (VALID_TRANSITIONS (sa_status sale))" "st = SaleCompletedStatus" "complete_sale bus sale user c w = (Inr x, v)"
      "w' = v\<lparr>t_sale := update_rows (\<lambda>r. sa_id r = i)
         (\<lambda>r. related (map_option ConnectShift (truthy x)) (bumped_sale (\<lambda>r. r\<lparr>sa_status := st\<rparr>) r)) (t_sale w)\<rparr>"
    let ?g = "\<lambda>r. related (map_option ConnectShift (truthy x)) (bumped_sale (\<lambda>r. r\<lparr>sa_status := SaleCompletedStatus\<rparr>) r)"
    have g: "keeps_deal ?g" by (intro keeps_deal_related keeps_deal_bumped keeps_deal_status)
    have st: "\<not> sold (sa_status sale)" using completed(5,6) by (auto simp: VALID_TRANSITIONS_def sold_def split: sale_status.splits)
    have "desk_inv w'" by (rule complete_keeps [OF inv bus completed(1) st completed(4)]) (use completed in simp_all)
    moreover have "refines w w'"
      by (rule sale_moves [OF I(5) completed(1) g]) (use completed moved_stage [OF completed(5,4), of "?g sale"] in simp_all)
    ultimately show ?thesis by (simp add: desk_ok_def)
  qed
qed

lemma edit_ok:
  assumes inv: "desk_inv w" and run: "update_draft i d c w = (Inr b, w')"
  shows "desk_ok w w'"
proof -
  note I = desk_invD [OF inv]
  let ?rel = "map_option (\<lambda>k. if k = '''' then DisconnectCustomer else ConnectCustomer k) (ed_customer d)"
  from run obtain sale v y where S: "find_sale i c w = (Inr (Some sale), w)" "sa_status sale = SaleDraft"
    "update_sale_row i (edit_columns d) ?rel c (sa_version sale) w = (Inr y, w')"
    by (auto simp: update_draft_def transaction_Inr_iff bind_Inr_iff sale_view_def find_sale_def get_base_currency_def split: option.splits if_splits)
  then have s: "sale \<in> set (t_sale w)" "sa_id sale = i" "sa_company sale = c" "sa_deleted sale = None" using find_sale_Inr by blast+
  let ?g = "\<lambda>r. related ?rel (bumped_sale (edit_columns d) r)"
  have id: "sa_id (edit_columns d r) = sa_id r" for r by (simp add: edit_columns_def Let_def split: option.split)
  have w': "w' = w\<lparr>t_sale := update_rows (\<lambda>r. sa_id r = sa_id sale) ?g (t_sale w)\<rparr>"
    using update_sale_row_Inr [OF _ I(5) s(1) id, of ?rel y w'] S(3) s by simp
  have g: "keeps_deal ?g" by (intro keeps_deal_related keeps_deal_bumped keeps_deal_status)
  have same: "sa_status (edit_columns d sale) = sa_status sale" "sa_deleted (edit_columns d sale) = sa_deleted sale"
    "sa_shift (edit_columns d sale) = sa_shift sale" by (simp_all add: edit_columns_def Let_def split: option.split)
  have shift: "sa_shift (?g sale) = sa_shift sale" by (simp add: same related_def split: option.split)
  have "desk_inv w'" by (rule move_keeps [OF inv s(1) g w' same_desk_refl]) (use same shift S(2) s(4) in \<open>simp_all add: sold_def\<close>)
  moreover have "refines w w'" by (rule sale_moves [OF I(5) s(1) g]) (simp_all add: w' stage_of_def same)
  ultimately show ?thesis by (simp add: desk_ok_def)
qed

lemma delete_ok:
  assumes inv: "desk_inv w" and run: "soft_delete_sale i c w = (r, w')"
  shows "desk_ok w w'"
proof (cases "\<exists>sale. find_sale i c w = (Inr (Some sale), w) \<and> sa_status sale = SaleDraft")
  case False
  then have "w' = w" using run
    by (auto simp: soft_delete_sale_def bind_def find_sale_def split: option.splits if_splits)
  then show ?thesis using inv by (simp add: refl_ok)
next
  case True
  then obtain sale where S: "find_sale i c w = (Inr (Some sale), w)" "sa_status sale = SaleDraft" by blast
  note I = desk_invD [OF inv]
  have s: "sale \<in> set (t_sale w)" "sa_id sale = i" "sa_company sale = c" "sa_deleted sale = None" using find_sale_Inr [OF S(1)] by simp_all
  let ?g = "bumped_sale (\<lambda>r. r\<lparr>sa_deleted := Some (now w)\<rparr>)"
  have w': "w' = w\<lparr>t_sale := update_rows (\<lambda>r. sa_id r = sa_id sale) ?g (t_sale w)\<rparr>"
    using run S update_sale_run [OF I(5) s(1), of "\<lambda>r. r\<lparr>sa_deleted := Some (now w)\<rparr>"] s
    by (simp add: soft_delete_sale_def repo_soft_delete_sale_def bind_def)
  have g: "keeps_deal ?g" by (intro keeps_deal_bumped keeps_deal_status)
  have "desk_inv w'" by (rule move_keeps [OF inv s(1) g w' same_desk_refl]) (use S(2) in \<open>simp_all add: sold_def\<close>)
  moreover have "refines w w'" by (rule sale_moves [OF I(5) s(1) g]) (use S(2) s(4) in \<open>simp_all add: w' stage_of_def\<close>)
  ultimately show ?thesis by (simp add: desk_ok_def)
qed

lemma refund_ok:
  assumes inv: "desk_inv w" and bus: "desk_bus bus" and run: "create_refund_work bus k d user c w = (Inr b, w')"
  shows "desk_ok w w'"
proof -
  note I = desk_invD [OF inv]
  from bus I(5,6) run obtain sale requested where
    s: "sale \<in> set (t_sale w)" "sa_id sale = k" "sa_deleted sale = None"
    and st: "sa_status sale = SaleCompletedStatus \<or> sa_status sale = SalePartiallyRefundedStatus"
    and w': "t_sale w' = update_rows (\<lambda>r. sa_id r = k) (bumped_sale (\<lambda>r. r\<lparr>sa_status := refund_status_of w sale requested\<rparr>)) (t_sale w)"
    by (rule refund_work_Inr)
  let ?g = "bumped_sale (\<lambda>r. r\<lparr>sa_status := refund_status_of w sale requested\<rparr>)"
  have g: "keeps_deal ?g" by (intro keeps_deal_bumped keeps_deal_status)
  have "stage_of (?g sale) = Returned \<or> stage_of (?g sale) = PartlyReturned"
    using s(3) by (simp add: stage_of_def refund_status_of_def derived_status_def)
  moreover have "stage_of sale = Sold \<or> stage_of sale = PartlyReturned" using st s(3) by (auto simp: stage_of_def)
  ultimately have "stage_of (?g sale) = stage_of sale \<or> stage_of (?g sale) \<in> set (next_stages (stage_of sale))" by auto
  then have "refines w w'" by (intro sale_moves [OF I(5) s(1) g]) (simp_all add: w' s)
  then show ?thesis using refund_keeps [OF inv bus run] by (simp add: desk_ok_def)
qed

lemma open_shift_sales: "open_shift d user c w = (Inr b, w') \<Longrightarrow> t_sale w' = t_sale w"
  by (auto elim!: opened_Inr)

lemma till_ok:
  assumes bus: "desk_bus bus" and inv: "desk_inv w" and step: "till_step bus w w'"
  shows "desk_ok w w'"
proof -
  from step show ?thesis
  proof cases
    case (till_opened d user c r)
    show ?thesis
    proof (cases r)
      case (Inr b)
      then show ?thesis using till_opened desk_open_keeps [OF inv] open_shift_sales by (auto simp: desk_ok_def refines_def intro: same_shop)
    qed (use till_opened inv in \<open>auto simp: open_shift_def refl_ok dest!: transaction_rollback\<close>)
  next
    case (till_closed cd user c wh r)
    show ?thesis
    proof (cases r)
      case (Inr b)
      then show ?thesis using till_closed desk_close_keeps [OF bus inv] by (auto simp: desk_ok_def refines_def intro: same_shop)
    qed (use till_closed inv in \<open>auto simp: close_shift_def refl_ok dest!: transaction_rollback\<close>)
  next
    case (till_cash cm user c wh k key r')
    show ?thesis
      using inv till_cash [unfolded cash_mutation_def]
    proof (rule keyed_ok)
      fix v b v' assume v: "desk_inv v" and run: "apply_cash_mutation bus cm user c wh k key v = (Inr b, v')"
      show "desk_ok v v'" using desk_cash_keeps [OF bus v run] by (auto simp: desk_ok_def refines_def intro: same_shop)
    qed
  next
    case (till_clock t)
    then show ?thesis by (intro quiet_ok [OF inv]) (simp add: same_desk_def desk_view_def)
  qed
qed

end
