(* ===== verification/SalesLife.thy ===== *)
theory SalesLife
  imports SalesShop
begin

text \<open>
  The reachable states of the sales desk and what holds in them: the money of every sale adds up, the open
  shifts are the sales that count in them, refunds give back no more than was sold, and the life cycle of a
  sale is the abstract one. Then the runs that must succeed and the ones that cannot.
\<close>

section \<open>The desk as a state machine\<close>

inductive desk_step :: "event_bus \<Rightarrow> world \<Rightarrow> world \<Rightarrow> bool" for bus :: event_bus where
  sale_created: "exact_request d \<Longrightarrow> create_sale d user c key w = (r, w') \<Longrightarrow> desk_step bus w w'"
| sale_moved: "transition_status bus i st user c key w = (r, w') \<Longrightarrow> desk_step bus w w'"
| sale_edited: "update_draft i e c w = (b, w') \<Longrightarrow> desk_step bus w w'"
| sale_deleted: "soft_delete_sale i c w = (u, w') \<Longrightarrow> desk_step bus w w'"
| sale_refunded: "create_refund bus i q user c key w = (r, w') \<Longrightarrow> desk_step bus w w'"
| till_moved: "till_step bus w w' \<Longrightarrow> desk_step bus w w'"

inductive desk_reachable :: "event_bus \<Rightarrow> world \<Rightarrow> world \<Rightarrow> bool" for bus :: event_bus and w0 :: world where
  desk_start: "desk_reachable bus w0 w0"
| desk_next: "desk_reachable bus w0 w \<Longrightarrow> desk_step bus w w' \<Longrightarrow> desk_reachable bus w0 w'"

text \<open>The number of a sale is drawn before its transaction.\<close>

lemma create_sale_runs:
  assumes "create_sale d user c key w = (r, w')"
  obtains (stopped) "same_desk w w'" | (ran) v number where "same_desk w v"
    "run_with_idempotency c key ''sales.create'' (sale_request d user) 201 (create_work d user c number) v = (r, w')"
proof -
  have seq: "same_desk w (w\<lparr>t_seq := t\<rparr>)" for t by (simp add: same_desk_def desk_view_def)
  show thesis
  proof (cases "nd_number d")
    case (Some n)
    with assms ran [OF same_desk_refl] show thesis by (simp add: create_sale_def bind_def)
  next
    case None
    show thesis
    proof (cases "starts_work c key ''sales.create'' (sale_request d user) w")
      case False
      with assms None ran [OF same_desk_refl] show thesis by (simp add: create_sale_def bind_def)
    next
      case True
      obtain n t where "next_number c ''SALE'' w = (Inr n, w\<lparr>t_seq := t\<rparr>)" using next_number_run [of c "''SALE''" w] by auto
      with True assms None ran [OF seq] show thesis by (simp add: create_sale_def get_next_sale_number_def bind_def)
    qed
  qed
qed

lemma desk_step_ok:
  assumes bus: "desk_bus bus" and inv: "desk_inv w" and step: "desk_step bus w w'"
  shows "desk_ok w w'"
  using step
proof cases
  case (sale_created d user c key r)
  from sale_created(2) show ?thesis
  proof (cases rule: create_sale_runs)
    case stopped
    then show ?thesis by (rule quiet_ok [OF inv])
  next
    case (ran v number)
    have "desk_ok v w'"
      by (rule keyed_ok [OF desk_inv_cong [OF inv ran(1)] ran(2)]) (rule create_ok [OF _ sale_created(1)])
    then show ?thesis by (rule ok_around [OF ran(1) _ same_desk_refl])
  qed
next
  case (sale_moved i st user c key r)
  from inv this [unfolded transition_status_def] show ?thesis by (rule keyed_ok) (rule transition_ok [OF _ bus])
next
  case (sale_edited i e c b)
  show ?thesis
  proof (cases b)
    case (Inr x)
    with sale_edited show ?thesis by (intro edit_ok [OF inv]) simp
  qed (use sale_edited inv in \<open>auto simp: update_draft_def refl_ok dest!: transaction_rollback\<close>)
next
  case (sale_deleted i c u)
  then show ?thesis by (rule delete_ok [OF inv])
next
  case (sale_refunded i q user c key r)
  from inv this [unfolded create_refund_def] show ?thesis by (rule keyed_ok) (rule refund_ok [OF _ bus])
next
  case till_moved
  then show ?thesis by (rule till_ok [OF bus inv])
qed

lemma desk_reachable_inv:
  assumes "desk_bus bus" and "desk_inv w0" and "desk_reachable bus w0 w"
  shows "desk_inv w"
  using assms(3)
proof induction
  case desk_start
  show ?case by (rule assms(2))
next
  case (desk_next w w')
  with desk_step_ok [OF assms(1)] show ?case by (simp add: desk_ok_def)
qed

section \<open>What holds at every reachable desk\<close>

text \<open>
  Property C3: The sales of a reachable desk are well formed. The items of a sale add up to its total, which is
  subtotal less discount; its payments add up to total plus change; no change is negative. It has exactly one
  receipt once it has been completed and none before; only a completed sale belongs to a shift, one of its
  own company; only a draft can be deleted; and what it was refunded is on record only when its status
  says so.
\<close>

theorem reachable_sales_are_well_formed:
  assumes "desk_bus bus" and "desk_inv w0" and "desk_reachable bus w0 w" and "r \<in> set (t_sale w)"
  shows "(\<Sum>i\<leftarrow>items_in w (sa_id r). si_total i) = sa_total r \<and> sa_total r = sa_subtotal r - sa_discount r \<and>
    paid_total (payments_in w (sa_id r)) = sa_total r + sa_change r \<and> sa_paid r = sa_total r + sa_change r \<and> 0 \<le> sa_change r \<and>
    length (find_many (\<lambda>x. rc_sale x = sa_id r) (t_receipt w)) =
      (if sa_status r \<in> {SaleCompletedStatus, SalePartiallyRefundedStatus, SaleRefundedStatus} then 1 else 0) \<and>
    (\<forall>i. sa_shift r = Some i \<longrightarrow> sa_status r \<in> {SaleCompletedStatus, SalePartiallyRefundedStatus, SaleRefundedStatus} \<and>
      (\<exists>s \<in> set (t_shift w). cs_id s = i \<and> cs_company s = sa_company r)) \<and>
    (sa_deleted r \<noteq> None \<longrightarrow> sa_status r = SaleDraft) \<and>
    (refunds_in w (sa_id r) = [] \<longleftrightarrow> sa_status r \<notin> {SalePartiallyRefundedStatus, SaleRefundedStatus})"
proof -
  note D = desk_invD(3) [OF desk_reachable_inv [OF assms(1-3)] assms(4)]
  have sold: "sold st \<longleftrightarrow> st \<in> {SaleCompletedStatus, SalePartiallyRefundedStatus, SaleRefundedStatus}" for st by (auto simp: sold_def)
  show ?thesis using D unfolding sale_money_def sale_links_def sale_refunds_def sold by auto
qed


text \<open>
  Property C5: At every reachable desk no item has been refunded beyond what was sold; an item refunded in
  full has given back exactly its total and, when it was costed, exactly its historical cost, however many
  refunds it took and however each was rounded; and the sale is REFUNDED only when every unit of every item
  has come back, PARTIALLY_REFUNDED only when one has not.
\<close>

theorem refunds_never_exceed_the_sale:
  assumes "desk_bus bus" and "desk_inv w0" and "desk_reachable bus w0 w" and "r \<in> set (t_sale w)" and "i \<in> set (items_in w (sa_id r))"
  shows "0 \<le> (\<Sum>x\<leftarrow>rows_of w r i. ri_quantity x) \<and> (\<Sum>x\<leftarrow>rows_of w r i. ri_quantity x) \<le> si_quantity i \<and>
    ((\<Sum>x\<leftarrow>rows_of w r i. ri_quantity x) = si_quantity i \<longrightarrow> (\<Sum>x\<leftarrow>rows_of w r i. ri_total x) = si_total i \<and>
      (\<forall>f. si_fifoCost i = Some f \<and> scale4 f \<longrightarrow> (\<Sum>x\<leftarrow>rows_of w r i. ri_fifoCost x) = f)) \<and>
    (sa_status r = SaleRefundedStatus \<longrightarrow> (\<Sum>x\<leftarrow>rows_of w r i. ri_quantity x) = si_quantity i) \<and>
    (sa_status r = SalePartiallyRefundedStatus \<longrightarrow>
      (\<exists>j \<in> set (items_in w (sa_id r)). (\<Sum>x\<leftarrow>rows_of w r j. ri_quantity x) < si_quantity j))"
proof -
  have "sale_refunds w r" using desk_invD(3) [OF desk_reachable_inv [OF assms(1-3)] assms(4)] by simp
  then show ?thesis using assms(5) unfolding sale_refunds_def item_refunds_def refunded_units_def by blast
qed

text \<open>
  Property C6: The desk refines the life cycle of a sale: whatever operation runs on a reachable desk, and
  however it ends, either no sale changes its stage or its terms, or one new draft with settled terms is
  registered, or one sale moves along \<open>next_stages\<close> with its terms unchanged.
\<close>

theorem desk_refines_the_life_cycle:
  assumes "desk_bus bus" and "desk_inv w0" and "desk_reachable bus w0 w" and "desk_step bus w w'"
  shows "shop_of w' = shop_of w \<or> sale_machine (shop_of w) (shop_of w')"
  using desk_step_ok [OF assms(1) desk_reachable_inv [OF assms(1-3)] assms(4)] by (simp add: desk_ok_def refines_def)

section \<open>A sale that can be completed\<close>

lemma find_sale_here:
  "distinct (map sa_id (t_sale w)) \<Longrightarrow> sale \<in> set (t_sale w) \<Longrightarrow> sa_deleted sale = None \<Longrightarrow>
    find_sale (sa_id sale) (sa_company sale) w = (Inr (Some sale), w)"
  by (auto simp: find_sale_def intro!: find_first_unique [where k = sa_id])

lemma link_shift_runs:
  assumes ids: "distinct (map cs_id (t_shift w))" "'''' \<notin> cs_id ` set (t_shift w)" and drawer: "drawer_methods (payments_in w (sa_id sale))"
    and cur: "\<And>s. s \<in> set (t_shift w) \<Longrightarrow> open_shift_of (sa_warehouse sale) user (sa_company sale) s \<Longrightarrow> cs_currency s = sa_currency sale"
  obtains x t where "link_shift sale user (sa_company sale) w = (Inr x, w\<lparr>t_shift := t\<rparr>)"
    "x = map_option cs_id (find_first (open_shift_of (sa_warehouse sale) user (sa_company sale)) (t_shift w))"
    "\<And>i. x = Some i \<Longrightarrow> i \<noteq> '''' \<and> i \<in> cs_id ` set t"
proof (cases "find_first (open_shift_of (sa_warehouse sale) user (sa_company sale)) (t_shift w)")
  case None
  then have "link_shift sale user (sa_company sale) w = (Inr None, w\<lparr>t_shift := t_shift w\<rparr>)"
    by (simp add: link_shift_def find_open_shift_def)
  then show thesis by (rule that) (simp_all add: None)
next
  case (Some s)
  then have s: "s \<in> set (t_shift w)" "open_shift_of (sa_warehouse sale) user (sa_company sale) s" by (auto dest: find_first_SomeD)
  then have c: "cs_company s = sa_company sale" by (simp add: open_shift_of_def)
  obtain a where a: "allocate_shift_sales (payments_in w (sa_id sale)) w = (Inr a, w)"
    using allocate_loop_run [of "payments_in w (sa_id sale)" empty_alloc w] drawer by (auto simp: allocate_shift_sales_def)
  have "cs_id (add_sale_to_shift a sale s r) = cs_id r" for r by (simp add: add_sale_to_shift_def)
  note U = update_shift_run [OF ids(1) s(1) this]
  let ?t = "update_rows (\<lambda>r. cs_id r = cs_id s) (bumped_shift (add_sale_to_shift a sale s)) (t_shift w)"
  have run: "link_shift sale user (sa_company sale) w = (Inr (Some (cs_id s)), w\<lparr>t_shift := ?t\<rparr>)"
    using Some cur [OF s] U c a by (simp add: link_shift_def find_open_shift_def payments_of_def bind_def bumped_shift_def [abs_def])
  have "map cs_id ?t = map cs_id (t_shift w)" by (rule map_update_rows) (simp add: bumped_shift_def add_sale_to_shift_def)
  then have "cs_id s \<in> set (map cs_id ?t)" using s(1) by simp
  then have "cs_id s \<in> cs_id ` set ?t" by simp
  moreover have "cs_id s \<noteq> ''''" using ids(2) s(1) by (metis imageI)
  ultimately show thesis using that [OF run] Some by simp
qed

lemma credit_spend_none: "drawer_methods ps \<Longrightarrow> credit_spend x (map payment_event_of ps) w = (Inr None, w)"
proof -
  assume "drawer_methods ps"
  then have "credit_amount (map payment_event_of ps) = 0"
    by (induction ps) (auto simp: credit_amount_def drawer_methods_def payment_event_of_def is_credit_method_def CREDIT_PAYMENT_METHODS_def split: payment_method.splits)
  then show ?thesis by (simp add: credit_spend_def)
qed

lemma update_sale_row_runs:
  assumes ids: "distinct (map sa_id (t_sale w))" and s: "s \<in> set (t_sale w)" and f: "\<And>r. sa_id (f r) = sa_id r"
    and rel: "rel = None \<or> (\<exists>i. rel = Some (ConnectShift i) \<and> i \<in> cs_id ` set (t_shift w))"
  shows "\<exists>r. update_sale_row (sa_id s) f rel (sa_company s) (sa_version s) w =
    (Inr r, w\<lparr>t_sale := update_rows (\<lambda>r. sa_id r = sa_id s) (\<lambda>r. related rel (bumped_sale f r)) (t_sale w)\<rparr>)"
proof (cases rel)
  case None
  then show ?thesis using update_sale_run [OF ids s f] by (simp add: update_sale_row_def bind_def)
next
  case (Some x)
  then obtain i where x: "x = ConnectShift i" "i \<in> cs_id ` set (t_shift w)" using rel by auto
  let ?t = "update_rows (\<lambda>r. sa_id r = sa_id s) (\<lambda>r. related rel (bumped_sale f r)) (t_sale w)"
  have shift: "find_first (\<lambda>r. cs_id r = i) (t_shift w) \<noteq> None" using x(2) by (auto simp: find_first_None_iff)
  have twice: "update_rows (\<lambda>r. sa_id r = sa_id s) (\<lambda>r. r\<lparr>sa_shift := Some i\<rparr>) (update_rows (\<lambda>r. sa_id r = sa_id s) (bumped_sale f) (t_sale w)) = ?t"
    by (subst update_rows_twice [where k = sa_id]) (simp_all add: f Some x related_def)
  have "map sa_id ?t = map sa_id (t_sale w)" by (rule map_update_rows) (simp add: f)
  then have "sa_id s \<in> set (map sa_id ?t)" using s by simp
  then have "find_first (\<lambda>r. sa_id r = sa_id s) ?t \<noteq> None" by (auto simp: find_first_None_iff image_iff)
  then obtain r where "find_first (\<lambda>r. sa_id r = sa_id s) ?t = Some r" by auto
  then show ?thesis using update_sale_run [OF ids s f] shift twice
    by (simp add: update_sale_row_def bind_def Some x apply_relation_def)
qed


section \<open>Completions that must fail\<close>

lemma completion_fails:
  assumes ids: "distinct (map sa_id (t_sale w))" and s: "sale \<in> set (t_sale w)" "sa_deleted sale = None"
    and st: "sa_status sale = SaleDraft \<or> sa_status sale = SalePending"
    and fails: "complete_sale bus sale user (sa_company sale) w = (Inl e, v)"
  shows "transition_status bus (sa_id sale) SaleCompletedStatus user (sa_company sale) None w = (Inl e, w)"
proof -
  have "SaleCompletedStatus \<in> set (VALID_TRANSITIONS (sa_status sale))" using st by (auto simp: VALID_TRANSITIONS_def)
  then have "transition_work bus (sa_id sale) SaleCompletedStatus user (sa_company sale) w = (Inl e, v)"
    using find_sale_here [OF ids s] fails by (simp add: transition_work_def bind_def)
  then show ?thesis by (simp add: transition_status_def run_with_idempotency_def truthy_def transaction_def bind_def)
qed

text \<open>
  Receipt numbers are unique over all companies, and they are derived from sale numbers, which are
  unique in one company only: once any receipt, of whatever company, carries the number of a sale, the sale
  can never be completed; the attempt fails with the unique violation and changes nothing.
\<close>

theorem used_receipt_number_blocks_completion:
  assumes "distinct (map sa_id (t_sale w))" and "sale \<in> set (t_sale w)" "sa_deleted sale = None"
    and "sa_status sale = SaleDraft \<or> sa_status sale = SalePending"
    and "x \<in> set (t_receipt w)" and "rc_number x = ''RCP-'' @ sa_number sale"
  shows "transition_status bus (sa_id sale) SaleCompletedStatus user (sa_company sale) None w = (Inl (UniqueViolation [''receiptNumber'']), w)"
proof -
  have "find_first (\<lambda>r. rc_number r = ''RCP-'' @ sa_number sale) (t_receipt w) \<noteq> None" using assms(5,6) by (auto simp: find_first_None_iff)
  then obtain y where "find_first (\<lambda>r. rc_number r = ''RCP-'' @ sa_number sale) (t_receipt w) = Some y" by blast
  then have "complete_sale bus sale user (sa_company sale) w = (Inl (UniqueViolation [''receiptNumber'']), w)"
    by (simp add: complete_sale_def insert_receipt_def bind_def)
  then show ?thesis by (rule completion_fails [OF assms(1-4)])
qed

text \<open>
  A cashier with an open shift cannot complete a sale paid, in whole or in part, with store credit or
  a gift card: the shift's buckets have no place for these methods and the completion is refused, before
  the customer's credit is looked at, and nothing changes.
\<close>

theorem store_credit_is_refused_at_an_open_till:
  assumes "distinct (map sa_id (t_sale w))" and "sale \<in> set (t_sale w)" "sa_deleted sale = None"
    and "sa_status sale = SaleDraft \<or> sa_status sale = SalePending"
    and unused: "\<forall>x \<in> set (t_receipt w). rc_number x \<noteq> ''RCP-'' @ sa_number sale"
    and till: "find_first (open_shift_of (sa_warehouse sale) user (sa_company sale)) (t_shift w) = Some s" "cs_currency s = sa_currency sale"
    and p: "p \<in> set (t_payment w)" "pm_sale p = sa_id sale" "pm_method p = STORE_CREDIT \<or> pm_method p = GIFT_CARD"
  shows "transition_status bus (sa_id sale) SaleCompletedStatus user (sa_company sale) None w =
    (Inl (BadRequest ''Unsupported payment method''), w)"
proof -
  define w1 where "w1 = w\<lparr>uuid_next := Suc (uuid_next w), t_receipt := t_receipt w @ [receipt_of (uuid_gen w (uuid_next w)) sale (now w)]\<rparr>"
  have "find_first (\<lambda>r. rc_number r = ''RCP-'' @ sa_number sale) (t_receipt w) = None" using unused by (simp add: find_first_None_iff)
  then have receipt: "insert_receipt sale w = (Inr (), w1)" by (simp add: insert_receipt_def w1_def bind_def fresh_uuid_def)
  have "\<not> drawer_methods (payments_in w (sa_id sale))" using p by (auto simp: drawer_methods_def find_many_def)
  then have "allocate_shift_sales (payments_in w (sa_id sale)) w1 = (Inl (BadRequest ''Unsupported payment method''), w1)"
    using allocate_loop_run [of "payments_in w (sa_id sale)" empty_alloc w1] by (auto simp: allocate_shift_sales_def)
  then have "link_shift sale user (sa_company sale) w1 = (Inl (BadRequest ''Unsupported payment method''), w1)"
    using till by (simp add: link_shift_def find_open_shift_def payments_of_def bind_def w1_def)
  then have "complete_sale bus sale user (sa_company sale) w = (Inl (BadRequest ''Unsupported payment method''), w1)"
    using receipt by (simp add: complete_sale_def bind_def)
  then show ?thesis by (rule completion_fails [OF assms(1-4)])
qed

section \<open>A desk to try it on\<close>

definition demo_deal :: "string \<Rightarrow> string \<Rightarrow> sale_status \<Rightarrow> decimal \<Rightarrow> decimal \<Rightarrow> string option \<Rightarrow> sale_row" where
  "demo_deal i c st tot ch shift = \<lparr>sa_id = i, sa_company = c, sa_warehouse = ''W'', sa_cashier = ''U'', sa_customer = None, sa_number = i,
     sa_status = st, sa_subtotal = tot + 1, sa_discount = 1, sa_tax = 0, sa_total = tot, sa_paid = tot + ch, sa_change = ch, sa_currency = ''KZT'',
     sa_notes = None, sa_shift = shift, sa_version = 0, sa_createdAt = 0, sa_deleted = None\<rparr>"

definition demo_item :: "string \<Rightarrow> string \<Rightarrow> int \<Rightarrow> decimal \<Rightarrow> decimal option \<Rightarrow> sale_item_row" where
  "demo_item i sale q tot cost = \<lparr>si_id = i, si_sale = sale, si_product = ''P'', si_quantity = q, si_unitPrice = tot + 1, si_costPrice = 1,
     si_fifoCost = cost, si_discount = 1, si_subtotal = tot + 1, si_total = tot, si_margin = 0, si_createdAt = 0\<rparr>"

definition demo_payment :: "string \<Rightarrow> payment_method \<Rightarrow> decimal \<Rightarrow> payment_row" where
  "demo_payment sale m x = \<lparr>pm_id = sale, pm_sale = sale, pm_method = m, pm_amount = x, pm_reference = None, pm_createdAt = 0\<rparr>"

definition demo_receipt :: "string \<Rightarrow> receipt_row" where
  "demo_receipt i = \<lparr>rc_id = i, rc_number = ''RCP-'' @ i, rc_sale = i, rc_status = ''DRAFT'', rc_printed = False, rc_emailed = False,
     rc_pdfUrl = None, rc_qrCode = None, rc_createdAt = 0\<rparr>"

text \<open>
  A draft D, a completed sale E of one unit and a sale F of three units one of which has come back; the shift T
  holds both completed sales. G waits to be paid with store credit.
\<close>

definition demo_desk :: world where
  "demo_desk = demo_till\<lparr>uuid_next := 3,
     t_sale := [demo_deal ''D'' ''C'' SaleDraft 6 2 None, demo_deal ''E'' ''C'' SaleCompletedStatus 13 5 (Some ''T''),
       demo_deal ''F'' ''C'' SalePartiallyRefundedStatus 7 0 (Some ''T''), demo_deal ''G'' ''C'' SaleDraft 5 0 None],
     t_sale_item := [demo_item ''d'' ''D'' 2 6 None, demo_item ''e'' ''E'' 1 13 (Some 6), demo_item ''f'' ''F'' 3 7 (Some 5), demo_item ''g'' ''G'' 1 5 None],
     t_payment := [demo_payment ''D'' CASH 8, demo_payment ''E'' CASH 18, demo_payment ''F'' CASH 7, demo_payment ''G'' STORE_CREDIT 5],
     t_receipt := [demo_receipt ''E'', demo_receipt ''F''],
     t_refund := [\<lparr>rf_id = ''R'', rf_company = ''C'', rf_sale = ''F'', rf_warehouse = ''W'', rf_number = ''N'', rf_status = RefundCompleted,
       rf_total = 2, rf_currency = ''KZT'', rf_reason = None, rf_reference = None, rf_createdBy = ''U'', rf_createdAt = 0, rf_deleted = None\<rparr>],
     t_refund_item := [\<lparr>ri_id = ''r'', ri_refund = ''R'', ri_saleItem = ''f'', ri_product = ''P'', ri_quantity = 1, ri_unitPrice = 8,
       ri_total = 2, ri_fifoCost = 1, ri_createdAt = 0\<rparr>]\<rparr>"

lemma demo_scale4: "scale4 (1 :: decimal)" "scale4 (2 :: decimal)" "scale4 (5 :: decimal)" "scale4 (6 :: decimal)" "scale4 (7 :: decimal)"
  "scale4 (8 :: decimal)" "scale4 (13 :: decimal)" "scale4 (18 :: decimal)" "scale4 (20 :: decimal)"
  by code_simp+

lemmas demo_rows = demo_deal_def demo_item_def demo_payment_def demo_receipt_def demo_till_def demo_shift_def empty_world_def

lemma demo_desk_inv: "desk_inv demo_desk"
proof -
  have "uuid_fresh (empty_world\<lparr>uuid_next := 3\<rparr>) {u. length u < 3}" by (rule uuid_fresh_empty_world)
  then have "uuid_fresh demo_desk {u. length u < 3}" by (simp add: uuid_fresh_def demo_desk_def demo_till_def empty_world_def)
  moreover have "mentioned demo_desk \<subseteq> {u. length u < 3}" by (simp add: mentioned_def demo_desk_def demo_rows)
  ultimately have "uuid_fresh demo_desk (mentioned demo_desk)" by (auto simp: uuid_fresh_def)
  then have "desk_ids demo_desk" by (simp add: desk_ids_def) (simp add: demo_desk_def demo_rows)
  moreover have "\<forall>r \<in> set (t_sale demo_desk). sale_money demo_desk r"
    by (simp add: sale_money_def demo_desk_def demo_rows find_many_def paid_total_def demo_scale4)
  moreover have "\<forall>r \<in> set (t_sale demo_desk). sale_links demo_desk r"
    by (simp add: sale_links_def demo_desk_def demo_rows find_many_def sold_def)
  moreover have "\<forall>r \<in> set (t_sale demo_desk). sale_refunds demo_desk r"
    by (simp add: sale_refunds_def item_refunds_def refunded_units_def refunded_rows_def counted_refund_def demo_desk_def demo_rows find_many_def)
  moreover have "refund_rows_ok demo_desk" by (simp add: refund_rows_ok_def demo_desk_def demo_rows demo_scale4)
  moreover have "\<forall>s \<in> set (t_shift demo_desk). shift_sums demo_desk s"
    by (simp add: shift_sums_def bucket_sum_def counted_total_def counted_cash_def counts_def cash_part_def demo_desk_def demo_rows find_many_def
        demo_scale4)
  ultimately show ?thesis by (simp add: desk_inv_def)
qed

definition demo_bus :: event_bus where
  "demo_bus = fold (\<lambda>m b. m b) [notifications_init (\<lambda>_. ret ()) (\<lambda>_. ret ()), inventory_init (\<lambda>_. None), finance_init (\<lambda>_. None)] (\<lambda>_. None)"

lemma demo_bus: "desk_bus demo_bus"
  unfolding demo_bus_def
  by (rule modules_meet_desk_bus [where lb = "\<lambda>_. None" and low_stock = "\<lambda>_. ret ()" and po_status = "\<lambda>_. ret ()"])
     (auto simp: desk_bus_empty intro!: desk_handlerI frame_intros)

text \<open>The draft D is deleted: a step, and the state it reaches.\<close>

definition demo_next :: world where
  "demo_next = snd (soft_delete_sale ''D'' ''C'' demo_desk)"

lemma demo_step: "desk_step demo_bus demo_desk demo_next"
  unfolding demo_next_def by (rule sale_deleted [of _ _ _ "fst (soft_delete_sale ''D'' ''C'' demo_desk)"]) simp

lemma demo_reached: "desk_reachable demo_bus demo_desk demo_next"
  by (rule desk_next [OF desk_start demo_step])

lemma demo_next_rows: "demo_next = demo_desk\<lparr>t_sale := update_rows (\<lambda>r. sa_id r = ''D'') (bumped_sale (\<lambda>r. r\<lparr>sa_deleted := Some 5\<rparr>)) (t_sale demo_desk)\<rparr>"
proof -
  let ?d = "demo_deal ''D'' ''C'' SaleDraft 6 2 None"
  have s: "?d \<in> set (t_sale demo_desk)" "sa_id ?d = ''D''" "sa_company ?d = ''C''" "sa_version ?d = 0" "sa_deleted ?d = None" "sa_status ?d = SaleDraft"
    by (simp_all add: demo_desk_def demo_deal_def)
  note ids = desk_invD(5) [OF demo_desk_inv]
  have "find_sale ''D'' ''C'' demo_desk = (Inr (Some ?d), demo_desk)" using find_sale_here [OF ids s(1,5)] s by simp
  moreover have "now demo_desk = 5" by (simp add: demo_desk_def demo_till_def)
  moreover note update_sale_run [OF ids s(1), of "\<lambda>r. r\<lparr>sa_deleted := Some 5\<rparr>"]
  ultimately show ?thesis using s by (simp add: demo_next_def soft_delete_sale_def repo_soft_delete_sale_def bind_def)
qed

lemma reachable_sales_are_well_formed_witness:
  "(\<Sum>i\<leftarrow>items_in demo_next ''E''. si_total i) = 13 \<and> paid_total (payments_in demo_next ''E'') = 13 + 5 \<and>
   length (find_many (\<lambda>x. rc_sale x = ''E'') (t_receipt demo_next)) = 1"
proof -
  have "demo_deal ''E'' ''C'' SaleCompletedStatus 13 5 (Some ''T'') \<in> set (t_sale demo_next)"
    by (simp add: demo_next_rows demo_desk_def demo_deal_def set_update_rows)
  from reachable_sales_are_well_formed [OF demo_bus demo_desk_inv demo_reached this] show ?thesis by (simp add: demo_deal_def)
qed


lemma refunds_never_exceed_the_sale_witness:
  "(\<Sum>x\<leftarrow>rows_of demo_next (demo_deal ''F'' ''C'' SalePartiallyRefundedStatus 7 0 (Some ''T'')) (demo_item ''f'' ''F'' 3 7 (Some 5)). ri_quantity x) \<le> 3"
proof -
  have "demo_deal ''F'' ''C'' SalePartiallyRefundedStatus 7 0 (Some ''T'') \<in> set (t_sale demo_next)"
    "demo_item ''f'' ''F'' 3 7 (Some 5) \<in> set (items_in demo_next (sa_id (demo_deal ''F'' ''C'' SalePartiallyRefundedStatus 7 0 (Some ''T''))))"
    by (simp_all add: demo_next_rows demo_desk_def demo_deal_def demo_item_def set_update_rows find_many_def)
  from refunds_never_exceed_the_sale [OF demo_bus demo_desk_inv demo_reached this] show ?thesis by (simp add: demo_item_def)
qed

lemma desk_refines_the_life_cycle_witness:
  "shop_of demo_next = shop_of demo_desk \<or> sale_machine (shop_of demo_desk) (shop_of demo_next)"
  by (rule desk_refines_the_life_cycle [OF demo_bus demo_desk_inv desk_start demo_step])


text \<open>A second company numbers a sale of its own E.\<close>

definition demo_clash :: world where
  "demo_clash = demo_desk\<lparr>t_sale := t_sale demo_desk @ [(demo_deal ''H'' ''B'' SaleDraft 3 0 None)\<lparr>sa_number := ''E''\<rparr>]\<rparr>"

lemma used_receipt_number_blocks_completion_witness:
  "transition_status (\<lambda>_. None) ''H'' SaleCompletedStatus ''U'' ''B'' None demo_clash = (Inl (UniqueViolation [''receiptNumber'']), demo_clash)"
  using used_receipt_number_blocks_completion
    [of demo_clash "(demo_deal ''H'' ''B'' SaleDraft 3 0 None)\<lparr>sa_number := ''E''\<rparr>" "demo_receipt ''E''" "\<lambda>_. None" "''U''"]
  by (simp add: demo_clash_def demo_desk_def demo_deal_def demo_receipt_def)

lemma store_credit_is_refused_at_an_open_till_witness:
  "transition_status (\<lambda>_. None) ''G'' SaleCompletedStatus ''U'' ''C'' None demo_desk = (Inl (BadRequest ''Unsupported payment method''), demo_desk)"
  using store_credit_is_refused_at_an_open_till
    [of demo_desk "demo_deal ''G'' ''C'' SaleDraft 5 0 None" "''U''" demo_shift "demo_payment ''G'' STORE_CREDIT 5" "\<lambda>_. None"]
  by (simp add: demo_desk_def demo_rows open_shift_of_def)

end
