(* ===== verification/Spec2Isabelle.thy ===== *)
theory Spec2Isabelle
  imports Prelude Tables Schema Shared EventBus Events Idempotency InventoryRepository Costing Stock Reservation
    StockFlow InventoryCount Calendar Ledger Journal LedgerFlow InventoryFinance FiscalClose MoneyPolicy Money MoneyFlow
    Payments CreditLedger SaleInventory SaleFinance CashShift
    Sales SalesRefund SalesFlow SalesDesk SalesBus SalesShop SalesLife
begin

text \<open>
  StockFlow: inventory, sales and general ledger of a multi-tenant shop.

  The server under \<^verbatim>\<open>src/backend/src\<close> is a NestJS application over one PostgreSQL database. Its own logic is
  in the services of the modules \<^verbatim>\<open>inventory\<close>, \<^verbatim>\<open>sales\<close>, \<^verbatim>\<open>sales-refund\<close> and \<^verbatim>\<open>finance\<close>; controllers, guards and
  DTO validators are framework declarations around them. Services share state only through the database and
  call each other directly or through an in-process event bus that runs its handlers inside the transaction
  of the publisher. This library follows that structure.

  \<^bold>\<open>The state.\<close> A \<open>world\<close> (theory Schema) is the database: a record with one list of rows per table, each row a
  record with the columns of \<^verbatim>\<open>schema.prisma\<close> that the modelled code reads or writes, plus the clock and the source
  of fresh identifiers. An operation is a value of \<open>'a wtx\<close>, a function from a world to an error or a result
  and a new world (theory Prelude); \<open>transaction\<close> restores the world on an error, which is what
  \<^verbatim>\<open>prisma.$transaction\<close> does. An exception of the code is a value of the datatype \<open>exn\<close>; messages are shortened
  to their constant part. Amounts are rational numbers: \<^verbatim>\<open>Decimal(18,4)\<close> columns are rounded with \<open>round4\<close> where the
  code writes them, and computations before a write are exact, as decimal.js computes sums and products
  of the sizes at hand. \<^verbatim>\<open>updatedAt\<close> columns are left out, and the database aggregates are the sums they compute.

  \<^bold>\<open>The theories.\<close>
  \<^item> Prelude, Tables, Schema, Text: the transaction monad with its rules, rows of a table with compare-and-set
    updates (the locale of optimistic tables, interpreted for every table with a row version), the schema, strings.
  \<^item> Shared: document numbers and the audit log (\<^verbatim>\<open>modules/shared\<close>).
  \<^item> EventBus, Events: \<^verbatim>\<open>infrastructure/event-bus\<close>; a bus maps an event to its ordered handlers.
  \<^item> Idempotency: \<^verbatim>\<open>modules/idempotency\<close>, canonical serialisation of a payload, reservation and replay.
  \<^item> InventoryRepository, Costing, Stock, Reservation, InventoryCount: the services of \<^verbatim>\<open>modules/inventory\<close>. StockFlow
    composes them into reachable states.
  \<^item> Calendar, Ledger, Journal, LedgerFlow: the fiscal calendar, the posting engine with reversal, drafts of
    journal entries, periods, and their reachable states.
  \<^item> FiscalClose: the close of a fiscal year into retained earnings (\<^verbatim>\<open>fiscal-year-close.service.ts\<close>).
  \<^item> MoneyPolicy, Money: the posting policy of financial transactions and their service (drafts, posting, reversal,
    edits; \<^verbatim>\<open>financial-transactions.service.ts\<close>). MoneyFlow: reachable transactions beside the other users of the
    ledger, and the properties of them. The resolvers that other modules may register for the counterpart of a
    transaction are a parameter, of which the properties ask that a resolver only reads.
  \<^item> InventoryFinance: the subscriber that posts stock adjustments to the ledger.
  \<^item> Payments, CreditLedger: allocation of payments to the buckets of a shift and of refunds to payment methods,
    and the store credit of customers.
  \<^item> SaleInventory, SaleFinance: what the completion and the refunds of a sale do to stock, cost layers and ledger.
  \<^item> CashShift: opening, cash movements and closing of a till with their journals.
  \<^item> Sales, SalesRefund: the services of a sale and of its refunds (\<^verbatim>\<open>sales.service.ts\<close>, \<^verbatim>\<open>sales-refund.service.ts\<close>) with
    their repositories, mappers and requests.
  \<^item> SalesFlow: the invariant of the desk, which ties sales, items, payments, receipts, refunds and shifts
    together, and what each operation reads and writes of it. SalesDesk: completion and refunds keep it and
    follow the abstract life cycle \<open>sale_machine\<close>. SalesBus: the handlers that the modules subscribe meet what
    the desk asks of its bus (\<open>desk_bus\<close>). SalesShop: the tills at the desk. SalesLife: reachable desks, and
    the properties of them.

  \<^bold>\<open>What the lemmas show.\<close> For each component, in this order: what a successful run reads and writes and that a
  failing one leaves the world alone; that every operation keeps the invariant of the component (stock equals
  the units of its cost layers, ledger balances equal the sums of the posted lines, credit is never negative,
  a till reconciles with its journals); that the runs which should succeed do; and the properties of the
  manifest. Steps and reachable states are inductive relations, with the operations of several components as
  steps where they act on the same tables.

  \<^bold>\<open>Bounds.\<close> Every loop of the code is structural recursion or a function with a termination proof; the reservation
  of an idempotency key calls itself and takes fuel 2, which is proved to be enough. Numbers of the
  database are not bounded in the model: overflow of \<^verbatim>\<open>Decimal(18,4)\<close> is an error of PostgreSQL that the code
  leaves to roll back.

  \<^bold>\<open>Parameters.\<close> The hash of the request (SHA-256), \<^verbatim>\<open>Decimal.toString\<close> and the generator of identifiers are fields of
  the world with the documented behaviour as hypotheses where it matters (identifiers do not repeat).

  \<^bold>\<open>Interleaving.\<close> A transaction runs without others interleaved, except where the code itself handles the
  interference (unique indexes, row versions), which the operations check as the database does.

  \<^bold>\<open>Not modelled.\<close> Purchasing, suppliers, customers, billing and
  the read-only reports; controllers, guards and cryptography of the framework; the mobile client, which is Dart.
\<close>

end
